(* ===== verification/Prelude.thy ===== *)
theory Prelude
  imports Main "HOL-Library.Word"
begin

text \<open>
  Shared vocabulary of the development: the machine types of the LP64 platform the library is
  modelled on, C strings as byte lists, the memory representation of an integer in either byte
  order, and the generic lemmas on words and lists that the component theories share.
\<close>

unbundle bit_operations_syntax

named_theorems rc_simps \<open>rules about return codes\<close>
named_theorems buf_simps \<open>functional behaviour of the growing buffer\<close>
named_theorems byte_simps \<open>memory representation of integers\<close>

type_synonym byte = "8 word"
type_synonym u16 = "16 word"
type_synonym u32 = "32 word"
type_synonym u64 = "64 word"

text \<open>\<open>size_t\<close> and \<open>ssize_t\<close> are 64 bit wide, \<open>char\<close> is signed.\<close>

type_synonym size_t = "64 word"

text \<open>A C string is the list of its bytes without the terminating NUL.\<close>

type_synonym cstr = "byte list"

definition SIZE_MAX :: size_t where
  "SIZE_MAX = 18446744073709551615"

definition UINT32_MAX :: size_t where
  "UINT32_MAX = 4294967295"

definition bytes_of :: "string \<Rightarrow> byte list" where
  "bytes_of s = map of_char s"

definition byte_of :: "char \<Rightarrow> byte" where
  "byte_of c = of_char c"

text \<open>
  An allocator is the predicate telling which requests \<open>malloc\<close>, \<open>calloc\<close> and \<open>realloc\<close> satisfy.
\<close>

type_synonym allocator = "size_t \<Rightarrow> bool"

definition alloc_all :: allocator where
  "alloc_all n = True"

subsection \<open>Words\<close>

lemma SIZE_MAX_max: "SIZE_MAX = - 1"
  by (simp add: SIZE_MAX_def)

lemma word_add_no_wrap_iff:
  fixes a b :: "'a::len word"
  shows "a \<le> a + b \<longleftrightarrow> unat a + unat b < 2 ^ LENGTH('a)"
  by (metis no_olen_add_nat)

lemma unat_add_no_wrap:
  fixes a b :: "'a::len word"
  assumes "unat a + unat b < 2 ^ LENGTH('a)"
  shows "unat (a + b) = unat a + unat b"
  using assms by (simp add: unat_word_ariths)

lemma unat_of_nat_small [simp]:
  "n < 2 ^ LENGTH('a) \<Longrightarrow> unat (of_nat n :: 'a::len word) = n"
  by (simp add: unat_of_nat take_bit_nat_eq_self)

lemma of_nat_length_inj:
  assumes "m < 2 ^ LENGTH('a)" and "n < 2 ^ LENGTH('a)"
    and "(of_nat m :: 'a::len word) = of_nat n"
  shows "m = n"
  using assms by (metis unat_of_nat_small)

lemma unat_less_2p: "unat (w :: 'a::len word) < 2 ^ LENGTH('a)"
  by (rule unsigned_less)

lemma unat_byte_less [simp]: "unat (b :: byte) < 256"
  using unat_less_2p [of b] by simp

lemma unat_byte_of_nat [simp]: "unat (of_nat n :: byte) = n mod 256"
  by (simp add: unat_of_nat take_bit_eq_mod)

lemma unat_ucast_up:
  "LENGTH('a) \<le> LENGTH('b) \<Longrightarrow> unat (ucast (w :: 'a::len word) :: 'b::len word) = unat w"
  by (simp add: unsigned_ucast_eq take_bit_nat_eq_self
      order_less_le_trans [OF unat_less_2p power_increasing])

subsection \<open>Memory representation of integers\<close>

datatype vtm_byteorder = VTM_BYTEORDER_BE | VTM_BYTEORDER_LE

text \<open>The \<open>k\<close> least significant bytes of a number, least significant first.\<close>

primrec nat_le :: "nat \<Rightarrow> nat \<Rightarrow> byte list" where
  "nat_le 0 n = []"
| "nat_le (Suc k) n = of_nat n # nat_le k (n div 256)"

primrec le_nat :: "byte list \<Rightarrow> nat" where
  "le_nat [] = 0"
| "le_nat (b # bs) = unat b + 256 * le_nat bs"

lemma nat_le_numeral [simp]:
  "nat_le (numeral k) n = of_nat n # nat_le (pred_numeral k) (n div 256)"
  by (simp only: numeral_eq_Suc nat_le.simps)

text \<open>The bytes an integer object occupies on a host of the given byte order.\<close>

definition mem_of :: "vtm_byteorder \<Rightarrow> 'a::len word \<Rightarrow> byte list" where
  "mem_of ord w =
     (case ord of
        VTM_BYTEORDER_LE \<Rightarrow> nat_le (LENGTH('a) div 8) (unat w)
      | VTM_BYTEORDER_BE \<Rightarrow> rev (nat_le (LENGTH('a) div 8) (unat w)))"

definition mem_read :: "vtm_byteorder \<Rightarrow> byte list \<Rightarrow> 'a::len word" where
  "mem_read ord bs =
     (case ord of
        VTM_BYTEORDER_LE \<Rightarrow> of_nat (le_nat bs)
      | VTM_BYTEORDER_BE \<Rightarrow> of_nat (le_nat (rev bs)))"

lemma length_nat_le [simp]: "length (nat_le k n) = k"
  by (induction k arbitrary: n) auto

lemma le_nat_nat_le: "le_nat (nat_le k n) = n mod 256 ^ k"
proof (induction k arbitrary: n)
  case 0
  then show ?case by simp
next
  case (Suc k)
  have "n mod 256 ^ Suc k = 256 * (n div 256 mod 256 ^ k) + n mod 256"
    using mod_mult2_eq [of n 256 "256 ^ k"] by simp
  then show ?case using Suc.IH [of "n div 256"] by simp
qed

lemma nat_le_le_nat: "nat_le (length bs) (le_nat bs) = bs"
proof (induction bs)
  case Nil
  then show ?case by simp
next
  case (Cons b bs)
  have "(unat b + 256 * le_nat bs) div 256 = le_nat bs"
    by simp
  moreover have "(of_nat (unat b + 256 * le_nat bs) :: byte) = b"
    by (rule word_unat_eq_iff [THEN iffD2]) (simp del: of_nat_add of_nat_mult)
  ultimately show ?case using Cons.IH by (simp del: of_nat_add of_nat_mult)
qed

lemma le_nat_less: "le_nat bs < 256 ^ length bs"
  by (metis le_nat_nat_le mod_less_divisor nat_le_le_nat zero_less_numeral zero_less_power)

lemma length_mem_of [simp]:
  "length (mem_of ord (w :: 'a::len word)) = LENGTH('a) div 8"
  by (simp add: mem_of_def split: vtm_byteorder.split)

lemma mem_read_mem_of [byte_simps]:
  assumes "8 dvd LENGTH('a)"
  shows "mem_read ord (mem_of ord w) = (w :: 'a::len word)"
proof -
  from assms obtain k where k: "LENGTH('a) = 8 * k" by (rule dvdE)
  have "(256 :: nat) ^ k = 2 ^ LENGTH('a)"
    by (simp add: k power_mult)
  then show ?thesis
    using unat_less_2p [of w]
    by (simp add: mem_read_def mem_of_def k le_nat_nat_le split: vtm_byteorder.split)
qed

lemma mem_of_mem_read [byte_simps]:
  assumes "LENGTH('a) = 8 * length bs"
  shows "mem_of ord (mem_read ord bs :: 'a::len word) = bs"
proof -
  have "(256 :: nat) ^ length bs = 2 ^ LENGTH('a)"
    by (simp add: assms power_mult)
  then have "le_nat bs < 2 ^ LENGTH('a)" "le_nat (rev bs) < 2 ^ LENGTH('a)"
    using le_nat_less [of bs] le_nat_less [of "rev bs"] by simp_all
  then show ?thesis
    using nat_le_le_nat [of bs] nat_le_le_nat [of "rev bs"]
    by (simp add: mem_read_def mem_of_def assms split: vtm_byteorder.split)
qed

lemma mem_of_other_order:
  "ord \<noteq> ord' \<Longrightarrow> mem_of ord w = rev (mem_of ord' w)"
  by (cases ord; cases ord') (simp_all add: mem_of_def)

subsection \<open>Lists\<close>

lemma drop_append_exact [simp]: "length xs = n \<Longrightarrow> drop n (xs @ ys) = ys"
  by simp

lemma take_append_exact [simp]: "length xs = n \<Longrightarrow> take n (xs @ ys) = xs"
  by simp

end
