(* ===== verification/Errors.thy ===== *)
theory Errors
  imports Prelude
begin

text \<open>
  The return codes of \<open>core/error.h\<close>, \<open>http_error.h\<close> and \<open>ws_error.h\<close>, the thread-local error record of \<open>core/error.c\<close>, and the
  receive states of \<open>net/common.h\<close>.
\<close>

datatype vtm_rc =
    VTM_OK | VTM_ERROR
  | VTM_E_MALLOC | VTM_E_MEMORY | VTM_E_OUT_OF_RANGE | VTM_E_NOT_SUPPORTED | VTM_E_NOT_HANDLED
  | VTM_E_NOT_FOUND | VTM_E_ASSERT_FAILED | VTM_E_INVALID_ARG | VTM_E_INVALID_STATE
  | VTM_E_OVERFLOW | VTM_E_MAX_REACHED | VTM_E_INTERRUPTED | VTM_E_PERMISSION
  | VTM_E_IO_UNKNOWN | VTM_E_IO_EOF | VTM_E_IO_AGAIN | VTM_E_IO_CANCELED | VTM_E_IO_CLOSED
  | VTM_E_IO_TIMEOUT | VTM_E_IO_FILE_NOT_FOUND | VTM_E_IO_PARTIAL | VTM_E_IO_PROTOCOL
  | VTM_E_HTTP_NOT_FOUND
  | VTM_E_WS_RSV_NONZERO | VTM_E_WS_CTRL_MSG_FRAGMENTED | VTM_E_WS_CLIENT_MSG_UNMASKED
  | VTM_E_WS_SERVER_MSG_MASKED | VTM_E_WS_INVALID_OPCODE | VTM_E_WS_INVALID_PAYLOAD_LEN
  | VTM_E_WS_BAD_CONTINUE_FRAME | VTM_E_WS_MSG_NOT_CONTINUED

fun rc_code :: "vtm_rc \<Rightarrow> int" where
  "rc_code VTM_OK = 0"
| "rc_code VTM_ERROR = - 1"
| "rc_code VTM_E_MALLOC = - 100"
| "rc_code VTM_E_MEMORY = - 101"
| "rc_code VTM_E_OUT_OF_RANGE = - 102"
| "rc_code VTM_E_NOT_SUPPORTED = - 103"
| "rc_code VTM_E_NOT_HANDLED = - 104"
| "rc_code VTM_E_NOT_FOUND = - 105"
| "rc_code VTM_E_ASSERT_FAILED = - 106"
| "rc_code VTM_E_INVALID_ARG = - 107"
| "rc_code VTM_E_INVALID_STATE = - 108"
| "rc_code VTM_E_OVERFLOW = - 109"
| "rc_code VTM_E_MAX_REACHED = - 110"
| "rc_code VTM_E_INTERRUPTED = - 111"
| "rc_code VTM_E_PERMISSION = - 112"
| "rc_code VTM_E_IO_UNKNOWN = - 200"
| "rc_code VTM_E_IO_EOF = - 201"
| "rc_code VTM_E_IO_AGAIN = - 202"
| "rc_code VTM_E_IO_CANCELED = - 203"
| "rc_code VTM_E_IO_CLOSED = - 204"
| "rc_code VTM_E_IO_TIMEOUT = - 205"
| "rc_code VTM_E_IO_FILE_NOT_FOUND = - 206"
| "rc_code VTM_E_IO_PARTIAL = - 207"
| "rc_code VTM_E_IO_PROTOCOL = - 208"
| "rc_code VTM_E_HTTP_NOT_FOUND = - 300"
| "rc_code VTM_E_WS_RSV_NONZERO = - 2500"
| "rc_code VTM_E_WS_CTRL_MSG_FRAGMENTED = - 2501"
| "rc_code VTM_E_WS_CLIENT_MSG_UNMASKED = - 2502"
| "rc_code VTM_E_WS_SERVER_MSG_MASKED = - 2503"
| "rc_code VTM_E_WS_INVALID_OPCODE = - 2504"
| "rc_code VTM_E_WS_INVALID_PAYLOAD_LEN = - 2505"
| "rc_code VTM_E_WS_BAD_CONTINUE_FRAME = - 2506"
| "rc_code VTM_E_WS_MSG_NOT_CONTINUED = - 2507"

text \<open>
  \<open>struct vtm_err\<close>: the message is the text after formatting, cut to the array's size less its NUL.
\<close>

definition VTM_ERR_MAX_MSG_LEN :: nat where
  "VTM_ERR_MAX_MSG_LEN = 512"

record vtm_err =
  err_code :: vtm_rc
  err_name :: cstr
  err_file :: cstr
  err_line :: u64
  err_msg :: cstr

definition vtm_err_setf_intl ::
    "vtm_err \<Rightarrow> vtm_rc \<Rightarrow> cstr \<Rightarrow> cstr \<Rightarrow> u64 \<Rightarrow> cstr option \<Rightarrow> vtm_rc \<times> vtm_err" where
  "vtm_err_setf_intl e code name file line msg =
     (code,
      e\<lparr>err_code := code, err_name := name, err_file := file, err_line := line,
        err_msg := (case msg of
                      Some m \<Rightarrow> take (VTM_ERR_MAX_MSG_LEN - 1) m
                    | None \<Rightarrow> [])\<rparr>)"

definition vtm_err_get_code :: "vtm_err \<Rightarrow> vtm_rc" where
  "vtm_err_get_code e = err_code e"

datatype vtm_net_recv_stat =
    VTM_NET_RECV_STAT_ERROR | VTM_NET_RECV_STAT_CLOSED | VTM_NET_RECV_STAT_INVALID
  | VTM_NET_RECV_STAT_AGAIN | VTM_NET_RECV_STAT_COMPLETE

lemma rc_code_inj: "rc_code a = rc_code b \<Longrightarrow> a = b"
  by (cases a; cases b; simp)

lemma rc_code_neg_iff [rc_simps]: "rc_code a < 0 \<longleftrightarrow> a \<noteq> VTM_OK"
  by (cases a) auto

lemma err_get_set [rc_simps]:
  "vtm_err_get_code (snd (vtm_err_setf_intl e c n f l m)) = c"
  "fst (vtm_err_setf_intl e c n f l m) = c"
  by (simp_all add: vtm_err_setf_intl_def vtm_err_get_code_def)

lemma err_msg_fits: "length (err_msg (snd (vtm_err_setf_intl e c n f l m))) < VTM_ERR_MAX_MSG_LEN"
  by (auto simp: vtm_err_setf_intl_def VTM_ERR_MAX_MSG_LEN_def min_less_iff_disj split: option.split)

end
