(* ===== verification/Mathx.thy ===== *)
theory Mathx
  imports Errors
begin

text \<open>
  \<open>core/math.c\<close>: the overflow aware operations on \<open>size_t\<close>. The out parameter is passed in and
  returned, unchanged where the code does not write it.
\<close>

definition vtm_math_size_add :: "size_t \<Rightarrow> size_t \<Rightarrow> size_t \<Rightarrow> vtm_rc \<times> size_t" where
  "vtm_math_size_add a b r =
     (let res = a + b
      in if res < a then (VTM_E_OVERFLOW, r) else (VTM_OK, res))"

definition vtm_math_size_mul :: "size_t \<Rightarrow> size_t \<Rightarrow> size_t \<Rightarrow> vtm_rc \<times> size_t" where
  "vtm_math_size_mul a b r =
     (let res = a * b
      in if res < a then (VTM_E_OVERFLOW, r) else (VTM_OK, res))"

lemma size_add_ok_iff:
  "fst (vtm_math_size_add a b r) = VTM_OK \<longleftrightarrow> unat a + unat b < 2 ^ 64"
  using word_add_no_wrap_iff [of a b]
  by (auto simp: vtm_math_size_add_def Let_def not_less)

lemma size_add_value:
  "unat a + unat b < 2 ^ 64 \<Longrightarrow> unat (snd (vtm_math_size_add a b r)) = unat a + unat b"
  using word_add_no_wrap_iff [of a b] unat_add_no_wrap [of a b]
  by (simp add: vtm_math_size_add_def Let_def not_less [symmetric])

lemma size_add_err:
  "\<not> unat a + unat b < 2 ^ 64 \<Longrightarrow> vtm_math_size_add a b r = (VTM_E_OVERFLOW, r)"
  using word_add_no_wrap_iff [of a b]
  by (simp add: vtm_math_size_add_def Let_def not_le)

lemma size_add_exact_aux:
  "vtm_math_size_add a b r =
     (if unat a + unat b < 2 ^ 64 then (VTM_OK, of_nat (unat a + unat b))
      else (VTM_E_OVERFLOW, r))"
proof (cases "unat a + unat b < 2 ^ 64")
  case True
  then have "a \<le> a + b"
    using word_add_no_wrap_iff [of a b] by simp
  then show ?thesis
    using True by (simp add: vtm_math_size_add_def not_less [symmetric])
next
  case False
  then show ?thesis by (simp add: size_add_err)
qed

text \<open>Doubling is the one multiplication whose overflow the check always sees.\<close>

lemma size_mul_2_exact:
  "vtm_math_size_mul a 2 r =
     (if 2 * unat a < 2 ^ 64 then (VTM_OK, 2 * a) else (VTM_E_OVERFLOW, r))"
proof -
  have "a * 2 = a + a" by simp
  moreover have "a \<le> a + a \<longleftrightarrow> 2 * unat a < 2 ^ 64"
    using word_add_no_wrap_iff [of a a] by (simp, linarith)
  ultimately show ?thesis
    by (auto simp: vtm_math_size_mul_def Let_def not_less mult.commute)
qed

text \<open>
  \<open>vtm_math_size_mul\<close> does not detect overflow: the product of 3 and 6148914691236517207 does not
  fit into 64 bits and is still reported as success with the result 5; and a product with 0, which
  cannot overflow, is reported as one.
\<close>

theorem size_mul_overflow_unsound:
  "\<not> unat (3 :: size_t) * unat (6148914691236517207 :: size_t) < 2 ^ 64
   \<and> vtm_math_size_mul 3 6148914691236517207 r = (VTM_OK, 5)
   \<and> vtm_math_size_mul 7 0 r = (VTM_E_OVERFLOW, r)"
  by (simp add: vtm_math_size_mul_def)

end
