(* ===== verification/Interfaces.thy ===== *)
theory Interfaces
  imports Errors
begin

text \<open>
  The contracts between components, as locales: a byte queue (what the parsers and serializers rely
  on in the buffer), a first-in-first-out queue (the event servers' intrusive list), a store of
  values under keys (maps and datasets), keys with a hash that respects their comparison, a pair of
  encoder and decoder, and a parser that can be resumed when more input arrives. Each is interpreted
  on the model's definitions in the theory of the component that provides it.
\<close>

subsection \<open>Byte queues\<close>

datatype bq_op = BPut "byte list" | BGet size_t | BDiscard

text \<open>A run of operations; \<open>None\<close> when one of them fails. The output is all bytes read.\<close>

fun bq_run ::
    "(byte list \<Rightarrow> 'b \<Rightarrow> 'b option) \<Rightarrow> (size_t \<Rightarrow> 'b \<Rightarrow> (byte list \<times> 'b) option) \<Rightarrow> ('b \<Rightarrow> 'b)
     \<Rightarrow> bq_op list \<Rightarrow> 'b \<Rightarrow> (byte list \<times> 'b) option" where
  "bq_run put get dis [] b = Some ([], b)"
| "bq_run put get dis (BPut bs # ops) b =
     (case put bs b of None \<Rightarrow> None | Some b' \<Rightarrow> bq_run put get dis ops b')"
| "bq_run put get dis (BGet n # ops) b =
     (case get n b of
        None \<Rightarrow> None
      | Some (out, b') \<Rightarrow> map_option (\<lambda>(outs, b''). (out @ outs, b'')) (bq_run put get dis ops b'))"
| "bq_run put get dis (BDiscard # ops) b = bq_run put get dis ops (dis b)"

fun bq_written :: "bq_op list \<Rightarrow> byte list" where
  "bq_written [] = []"
| "bq_written (BPut bs # ops) = bs @ bq_written ops"
| "bq_written (op # ops) = bq_written ops"

locale byte_queue =
  fixes inv :: "'b \<Rightarrow> bool"
    and unread :: "'b \<Rightarrow> byte list"
    and put :: "byte list \<Rightarrow> 'b \<Rightarrow> 'b option"
    and get :: "size_t \<Rightarrow> 'b \<Rightarrow> (byte list \<times> 'b) option"
    and dis :: "'b \<Rightarrow> 'b"
  assumes put_law: "inv b \<Longrightarrow> put bs b = Some b' \<Longrightarrow> inv b' \<and> unread b' = unread b @ bs"
    and get_law: "inv b \<Longrightarrow> unat n \<le> length (unread b) \<Longrightarrow>
      \<exists>b'. get n b = Some (take (unat n) (unread b), b') \<and> inv b'
           \<and> unread b' = drop (unat n) (unread b)"
    and get_short: "inv b \<Longrightarrow> length (unread b) < unat n \<Longrightarrow> get n b = None"
    and dis_law: "inv b \<Longrightarrow> inv (dis b) \<and> unread (dis b) = unread b"
begin

lemma get_SomeD:
  assumes "inv b" "get n b = Some (out, b')"
  shows "inv b' \<and> unread b = out @ unread b' \<and> length out = unat n"
proof (cases "unat n \<le> length (unread b)")
  case True
  with get_law [OF assms(1) True] assms(2) show ?thesis by auto
next
  case False
  with get_short [OF assms(1)] assms(2) show ?thesis by simp
qed

lemma run_fifo:
  "inv b \<Longrightarrow> bq_run put get dis ops b = Some (out, b') \<Longrightarrow>
     inv b' \<and> out @ unread b' = unread b @ bq_written ops"
proof (induction ops arbitrary: b out)
  case Nil
  then show ?case by simp
next
  case (Cons op ops)
  show ?case
  proof (cases op)
    case (BPut bs)
    with Cons.prems obtain b1 where "put bs b = Some b1" "bq_run put get dis ops b1 = Some (out, b')"
      by (auto split: option.splits)
    then show ?thesis using put_law [OF Cons.prems(1)] Cons.IH BPut by fastforce
  next
    case (BGet n)
    with Cons.prems obtain o1 b1 o2 where "get n b = Some (o1, b1)"
      "bq_run put get dis ops b1 = Some (o2, b')" "out = o1 @ o2"
      by (auto split: option.splits)
    then show ?thesis using get_SomeD [OF Cons.prems(1)] Cons.IH BGet by fastforce
  next
    case BDiscard
    then show ?thesis using Cons.prems dis_law [OF Cons.prems(1)] Cons.IH by fastforce
  qed
qed

end

subsection \<open>First-in-first-out queues\<close>

text \<open>The items a number of polls returns, \<open>None\<close> for a poll on an empty queue.\<close>

fun poll_n :: "('q \<Rightarrow> 'a option \<times> 'q) \<Rightarrow> nat \<Rightarrow> 'q \<Rightarrow> 'a option list" where
  "poll_n poll 0 q = []"
| "poll_n poll (Suc n) q = fst (poll q) # poll_n poll n (snd (poll q))"

locale fifo_queue =
  fixes invar :: "'q \<Rightarrow> bool"
    and items :: "'q \<Rightarrow> 'a list"
    and init :: "'q \<Rightarrow> 'q"
    and add :: "'a \<Rightarrow> 'q \<Rightarrow> 'q"
    and poll :: "'q \<Rightarrow> 'a option \<times> 'q"
    and valid :: "'a \<Rightarrow> bool"
  assumes init_law: "invar (init q) \<and> items (init q) = []"
    and add_law: "invar q \<Longrightarrow> valid x \<Longrightarrow> x \<notin> set (items q) \<Longrightarrow>
      invar (add x q) \<and> items (add x q) = items q @ [x]"
    and poll_empty: "invar q \<Longrightarrow> items q = [] \<Longrightarrow> fst (poll q) = None \<and> invar (snd (poll q))
      \<and> items (snd (poll q)) = []"
    and poll_head: "invar q \<Longrightarrow> items q = x # xs \<Longrightarrow> fst (poll q) = Some x \<and> invar (snd (poll q))
      \<and> items (snd (poll q)) = xs"
begin

lemma add_all:
  "invar q \<Longrightarrow> list_all valid xs \<Longrightarrow> distinct (items q @ xs) \<Longrightarrow>
     invar (fold add xs q) \<and> items (fold add xs q) = items q @ xs"
proof (induction xs arbitrary: q)
  case Nil
  then show ?case by simp
next
  case (Cons x xs)
  then have "invar (add x q)" "items (add x q) = items q @ [x]" using add_law [of q x] by auto
  then show ?case using Cons.IH [of "add x q"] Cons.prems(2, 3) by simp
qed

lemma poll_n_empty: "invar q \<Longrightarrow> items q = [] \<Longrightarrow> poll_n poll n q = replicate n None"
  using poll_empty by (induction n arbitrary: q) auto

text \<open>Items leave the queue in the order in which they entered it, and none is left behind.\<close>

lemma poll_after_add_all:
  assumes "distinct xs" and "list_all valid xs"
  shows "poll_n poll (length xs + n) (fold add xs (init q)) = map Some xs @ replicate n None"
proof -
  have "invar (init q)" "items (init q) = []" using init_law by auto
  then have "invar (fold add xs (init q))" "items (fold add xs (init q)) = xs"
    using add_all [of "init q" xs] assms by auto
  moreover have "poll_n poll (length ys + n) p = map Some ys @ replicate n None"
    if "invar p" "items p = ys" for p ys
    using that poll_head poll_n_empty by (induction ys arbitrary: p) auto
  ultimately show ?thesis by blast
qed

end

subsection \<open>Keys with a hash\<close>

text \<open>
  Comparison is equality of a normal form, and keys of the same normal form have the same hash: what
  a hash table needs to find an entry again.
\<close>

locale hash_key =
  fixes ok :: "'k \<Rightarrow> bool"
    and cmp :: "'k \<Rightarrow> 'k \<Rightarrow> bool"
    and hash :: "'k \<Rightarrow> u32"
    and norm :: "'k \<Rightarrow> 'n"
  assumes cmp_iff: "ok a \<Longrightarrow> ok b \<Longrightarrow> cmp a b \<longleftrightarrow> norm a = norm b"
    and hash_resp: "ok a \<Longrightarrow> ok b \<Longrightarrow> norm a = norm b \<Longrightarrow> hash a = hash b"

subsection \<open>Stores of values under keys\<close>

datatype ('k, 'v) kv_op = KPut 'k 'v | KDel 'k

fun kv_run ::
    "('k \<Rightarrow> 'v \<Rightarrow> 's \<Rightarrow> 's option) \<Rightarrow> ('k \<Rightarrow> 's \<Rightarrow> 's) \<Rightarrow> ('k, 'v) kv_op list \<Rightarrow> 's \<Rightarrow> 's option" where
  "kv_run put del [] s = Some s"
| "kv_run put del (KPut k v # ops) s =
     (case put k v s of None \<Rightarrow> None | Some s' \<Rightarrow> kv_run put del ops s')"
| "kv_run put del (KDel k # ops) s = kv_run put del ops (del k s)"

text \<open>The same operations on a finite map from normal forms to values.\<close>

fun kv_spec :: "('k \<Rightarrow> 'n) \<Rightarrow> ('k, 'v) kv_op list \<Rightarrow> ('n \<rightharpoonup> 'v) \<Rightarrow> ('n \<rightharpoonup> 'v)" where
  "kv_spec norm [] m = m"
| "kv_spec norm (KPut k v # ops) m = kv_spec norm ops (m(norm k \<mapsto> v))"
| "kv_spec norm (KDel k # ops) m = kv_spec norm ops (m(norm k := None))"

fun kv_key :: "('k, 'v) kv_op \<Rightarrow> 'k" where
  "kv_key (KPut k v) = k"
| "kv_key (KDel k) = k"

locale kv_store =
  fixes inv :: "'s \<Rightarrow> bool"
    and ok :: "'k \<Rightarrow> bool"
    and norm :: "'k \<Rightarrow> 'n"
    and get :: "'s \<Rightarrow> 'k \<Rightarrow> 'v option"
    and put :: "'k \<Rightarrow> 'v \<Rightarrow> 's \<Rightarrow> 's option"
    and del :: "'k \<Rightarrow> 's \<Rightarrow> 's"
  assumes put_law: "inv s \<Longrightarrow> ok k \<Longrightarrow> put k v s = Some s' \<Longrightarrow>
      inv s' \<and> (\<forall>k'. ok k' \<longrightarrow> get s' k' = (if norm k' = norm k then Some v else get s k'))"
    and del_law: "inv s \<Longrightarrow> ok k \<Longrightarrow>
      inv (del k s) \<and> (\<forall>k'. ok k' \<longrightarrow> get (del k s) k' = (if norm k' = norm k then None else get s k'))"
begin

lemma run_refines:
  "inv s \<Longrightarrow> list_all (ok \<circ> kv_key) ops \<Longrightarrow> (\<forall>k. ok k \<longrightarrow> get s k = m (norm k)) \<Longrightarrow>
     kv_run put del ops s = Some s' \<Longrightarrow>
     inv s' \<and> (\<forall>k. ok k \<longrightarrow> get s' k = kv_spec norm ops m (norm k))"
proof (induction ops arbitrary: s m)
  case Nil
  then show ?case by simp
next
  case (Cons op ops)
  show ?case
  proof (cases op)
    case (KPut k v)
    with Cons.prems obtain s1 where s1: "put k v s = Some s1" "kv_run put del ops s1 = Some s'"
      by (auto split: option.splits)
    then have "inv s1" "\<forall>k'. ok k' \<longrightarrow> get s1 k' = (m(norm k \<mapsto> v)) (norm k')"
      using put_law [OF Cons.prems(1) _ s1(1)] Cons.prems(2, 3) KPut by auto
    then show ?thesis using Cons.IH [of s1 "m(norm k \<mapsto> v)"] Cons.prems(2) s1(2) KPut
      by (simp del: fun_upd_apply)
  next
    case (KDel k)
    then have "inv (del k s)" "\<forall>k'. ok k' \<longrightarrow> get (del k s) k' = (m(norm k := None)) (norm k')"
      using del_law [OF Cons.prems(1), of k] Cons.prems(2, 3) by auto
    then show ?thesis using Cons.IH [of "del k s" "m(norm k := None)"] Cons.prems(2, 4) KDel
      by (simp del: fun_upd_apply)
  qed
qed

end

subsection \<open>Encodings\<close>

locale codec =
  fixes ok :: "'a \<Rightarrow> bool"
    and enc :: "'a \<Rightarrow> 'b"
    and dec :: "'b \<Rightarrow> 'a option"
  assumes dec_enc: "ok x \<Longrightarrow> dec (enc x) = Some x"
begin

lemma enc_inj: "ok x \<Longrightarrow> ok y \<Longrightarrow> enc x = enc y \<longleftrightarrow> x = y"
  using dec_enc by (metis option.inject)

end

subsection \<open>Parsers that can be resumed\<close>

datatype ('s, 'b) pstep = PNext 's 'b | PStop vtm_net_recv_stat 's 'b | PFault

text \<open>
  A parser in state \<open>s\<close> on an input buffer \<open>b\<close> makes rounds until it stops with a receive status;
  \<open>PFault\<close> is a round that leaves the memory of the program. Every round keeps the invariant and
  lessens the measure.
\<close>

locale parser_loop =
  fixes step :: "'s \<Rightarrow> 'b \<Rightarrow> ('s, 'b) pstep"
    and run :: "'s \<Rightarrow> 'b \<Rightarrow> (vtm_net_recv_stat \<times> 's \<times> 'b) option"
    and inv :: "'s \<Rightarrow> 'b \<Rightarrow> bool"
    and msr :: "'s \<Rightarrow> 'b \<Rightarrow> nat"
  assumes run_step: "run s b =
      (case step s b of
         PNext s' b' \<Rightarrow> run s' b'
       | PStop st s' b' \<Rightarrow> Some (st, s', b')
       | PFault \<Rightarrow> None)"
    and step_next: "inv s b \<Longrightarrow> step s b = PNext s' b' \<Longrightarrow> inv s' b' \<and> msr s' b' < msr s b"
begin

lemma run_next: "step s b = PNext s' b' \<Longrightarrow> run s b = run s' b'"
  using run_step [of s b] by simp

lemma run_stop: "step s b = PStop st s' b' \<Longrightarrow> run s b = Some (st, s', b')"
  using run_step [of s b] by simp

end

text \<open>A parser that stays inside its memory returns on every input.\<close>

locale safe_loop = parser_loop +
  assumes step_no_fault: "inv s b \<Longrightarrow> step s b \<noteq> PFault"
begin

lemma run_total: "inv s b \<Longrightarrow> \<exists>st s' b'. run s b = Some (st, s', b')"
proof (induction "msr s b" arbitrary: s b rule: less_induct)
  case less
  show ?case
  proof (cases "step s b")
    case (PNext s' b')
    then show ?thesis using step_next [OF less.prems PNext] less.hyps run_next by simp
  next
    case (PStop st s' b')
    then show ?thesis using run_stop by blast
  next
    case PFault
    then show ?thesis using step_no_fault [OF less.prems] by simp
  qed
qed

end

text \<open>
  \<open>ext b d c\<close> tells that \<open>c\<close> is the buffer \<open>b\<close> after the bytes \<open>d\<close> arrived. A round that asks for more
  input changes nothing, and a round made on a shorter input is made in the same way on a longer
  one.
\<close>

locale resumable_parser = parser_loop step run inv msr
  for step :: "'s \<Rightarrow> 'b \<Rightarrow> ('s, 'b) pstep"
    and run :: "'s \<Rightarrow> 'b \<Rightarrow> (vtm_net_recv_stat \<times> 's \<times> 'b) option"
    and inv :: "'s \<Rightarrow> 'b \<Rightarrow> bool"
    and msr :: "'s \<Rightarrow> 'b \<Rightarrow> nat" +
  fixes ext :: "'b \<Rightarrow> byte list \<Rightarrow> 'b \<Rightarrow> bool"
  assumes step_again: "inv s b \<Longrightarrow> step s b = PStop VTM_NET_RECV_STAT_AGAIN s' b' \<Longrightarrow> s' = s \<and> b' = b"
    and step_ext: "inv s b \<Longrightarrow> ext b d c \<Longrightarrow> step s b = PNext s' b' \<Longrightarrow>
      \<exists>c'. ext b' d c' \<and> step s c = PNext s' c'"
begin

text \<open>Input that arrives in two pieces is parsed as if it had arrived at once.\<close>

lemma resume:
  "inv s b \<Longrightarrow> ext b d c \<Longrightarrow> run s b = Some (VTM_NET_RECV_STAT_AGAIN, s', b') \<Longrightarrow>
     inv s' b' \<and> (\<exists>c'. ext b' d c' \<and> run s c = run s' c')"
proof (induction "msr s b" arbitrary: s b c rule: less_induct)
  case less
  show ?case
  proof (cases "step s b")
    case (PNext s1 b1)
    obtain c1 where c1: "ext b1 d c1" "step s c = PNext s1 c1"
      using step_ext [OF less.prems(1, 2) PNext] by blast
    have "run s1 b1 = Some (VTM_NET_RECV_STAT_AGAIN, s', b')"
      using less.prems(3) run_next [OF PNext] by simp
    then show ?thesis
      using less.hyps [of s1 b1 c1] c1(1) step_next [OF less.prems(1) PNext] run_next [OF c1(2)] by simp
  next
    case (PStop st s1 b1)
    then have "st = VTM_NET_RECV_STAT_AGAIN" "s1 = s'" "b1 = b'"
      using less.prems(3) run_step [of s b] by simp_all
    then have "s' = s" "b' = b" using step_again [OF less.prems(1)] PStop by auto
    then show ?thesis using less.prems(1, 2) by blast
  next
    case PFault
    then show ?thesis using less.prems(3) run_step [of s b] by simp
  qed
qed

end

text \<open>A parser with both properties.\<close>

locale safe_parser = resumable_parser + safe_loop

end
