(* ===== verification/Base64.thy ===== *)
theory Base64
  imports Mathx Interfaces
begin

text \<open>
  \<open>util/base64.c\<close>. The output buffer is described by its length; what is written to it is the
  result. Decoding a text whose length is no multiple of four reads outside it (\<open>None\<close>).
\<close>

definition VTM_BASE64_PADDING_CHAR :: byte where
  "VTM_BASE64_PADDING_CHAR = byte_of CHR ''=''"

definition VTM_BASE64_ENCODING :: "byte list" where
  "VTM_BASE64_ENCODING =
     bytes_of ''ABCDEFGHIJKLMNOPQRSTUVWXYZabcdefghijklmnopqrstuvwxyz0123456789+/''"

text \<open>The table with 256 entries, by the ranges of its entries that are not 0.\<close>

definition VTM_BASE64_DECODING :: "byte \<Rightarrow> byte" where
  "VTM_BASE64_DECODING c =
     (if c = 43 then 62 else if c = 47 then 63
      else if 48 \<le> c \<and> c \<le> 57 then c - 48 + 52
      else if 65 \<le> c \<and> c \<le> 90 then c - 65
      else if 97 \<le> c \<and> c \<le> 122 then c - 97 + 26
      else 0)"

definition VTM_BASE64_ENC_BUF_LEN :: "size_t \<Rightarrow> size_t" where
  "VTM_BASE64_ENC_BUF_LEN len = 4 * ((len + 2) div 3) + 1"

definition VTM_BASE64_DEC_BUF_LEN :: "size_t \<Rightarrow> size_t" where
  "VTM_BASE64_DEC_BUF_LEN len = (len div 4) * 3"

definition b64_char :: "u32 \<Rightarrow> byte" where
  "b64_char i = VTM_BASE64_ENCODING ! unat i"

text \<open>The text without its terminating NUL.\<close>

fun base64_encode_loop :: "byte list \<Rightarrow> byte list" where
  "base64_encode_loop (r0 # r1 # r2 # r) =
     (let c = push_bit 16 (ucast r0 :: u32) + push_bit 8 (ucast r1) + ucast r2
      in b64_char (drop_bit 18 c) # b64_char (drop_bit 12 c AND 0x3f)
         # b64_char (drop_bit 6 c AND 0x3f) # b64_char (c AND 0x3f) # base64_encode_loop r)"
| "base64_encode_loop [r0, r1] =
     (let c = push_bit 16 (ucast r0 :: u32) + push_bit 8 (ucast r1)
      in [b64_char (drop_bit 18 c), b64_char (drop_bit 12 c AND 0x3f),
          b64_char (drop_bit 6 c AND 0x3f), VTM_BASE64_PADDING_CHAR])"
| "base64_encode_loop [r0] =
     (let c = push_bit 16 (ucast r0 :: u32)
      in [b64_char (drop_bit 18 c), b64_char (drop_bit 12 c AND 0x3f),
          VTM_BASE64_PADDING_CHAR, VTM_BASE64_PADDING_CHAR])"
| "base64_encode_loop [] = []"

definition vtm_base64_encode :: "byte list \<Rightarrow> size_t \<Rightarrow> vtm_rc + cstr" where
  "vtm_base64_encode input buf_len =
     (if buf_len < VTM_BASE64_ENC_BUF_LEN (of_nat (length input)) then Inl VTM_E_INVALID_ARG
      else Inr (base64_encode_loop input))"

definition b64_val :: "byte \<Rightarrow> u32" where
  "b64_val c = ucast (VTM_BASE64_DECODING c)"

text \<open>
  The loop over the groups of four: what is written, and the rest of the input. \<open>remaining\<close> wraps
  around when it is no multiple of four.
\<close>

fun base64_decode_loop :: "size_t \<Rightarrow> byte list \<Rightarrow> (byte list \<times> byte list) option" where
  "base64_decode_loop remaining r =
     (if remaining = 0 then Some ([], r)
      else
        case r of
          r0 # r1 # r2 # r3 # rest \<Rightarrow>
            let c = push_bit 18 (b64_val r0) + push_bit 12 (b64_val r1) + push_bit 6 (b64_val r2)
                    + b64_val r3
            in map_option (\<lambda>(w, r'). (ucast (drop_bit 16 c) # ucast (drop_bit 8 c) # ucast c # w, r'))
                 (base64_decode_loop (remaining - 4) rest)
        | _ \<Rightarrow> None)"

definition base64_pad :: "byte list \<Rightarrow> nat" where
  "base64_pad input =
     (if input ! (length input - 1) = VTM_BASE64_PADDING_CHAR then 1 else 0)
     + (if input ! (length input - 2) = VTM_BASE64_PADDING_CHAR then 1 else 0)"

text \<open>The bytes written behind the groups, for the padded last group.\<close>

definition base64_decode_last :: "nat \<Rightarrow> byte list \<Rightarrow> byte list option" where
  "base64_decode_last pad r =
     (if pad = 0 then Some []
      else
        case r of
          r0 # r1 # r2 # _ \<Rightarrow>
            let c = push_bit 18 (b64_val r0) + push_bit 12 (b64_val r1)
                    + (if pad = 1 then push_bit 6 (b64_val r2) else 0)
            in Some (ucast (drop_bit 16 c) # (if pad = 1 then [ucast (drop_bit 8 c)] else []))
        | _ \<Rightarrow> None)"

text \<open>The bytes written and the new value of \<open>*buf_len\<close>.\<close>

definition vtm_base64_decode :: "byte list \<Rightarrow> size_t \<Rightarrow> (vtm_rc + byte list \<times> size_t) option" where
  "vtm_base64_decode input buf_len =
     (let len = of_nat (length input)
      in if length input < 4 then Some (Inl VTM_E_INVALID_ARG)
         else if buf_len < VTM_BASE64_DEC_BUF_LEN len then Some (Inl VTM_E_INVALID_ARG)
         else
           let pad = base64_pad input
           in case base64_decode_loop (if pad > 0 then len - 4 else len) input of
                None \<Rightarrow> None
              | Some (w, r) \<Rightarrow>
                  map_option (\<lambda>w'. Inr (w @ w', VTM_BASE64_DEC_BUF_LEN len - of_nat pad))
                    (base64_decode_last pad r))"

declare base64_decode_loop.simps [simp del]

subsection \<open>One group\<close>

lemma b64_table:
  "list_all (\<lambda>k. b64_val (VTM_BASE64_ENCODING ! k) = of_nat k
     \<and> VTM_BASE64_ENCODING ! k \<noteq> VTM_BASE64_PADDING_CHAR) [0..<64]"
  by (simp add: upt_rec VTM_BASE64_ENCODING_def bytes_of_def b64_val_def VTM_BASE64_DECODING_def
      VTM_BASE64_PADDING_CHAR_def byte_of_def)

lemma b64_inverse:
  assumes "unat i < 64"
  shows "b64_val (b64_char i) = i" and "b64_char i \<noteq> VTM_BASE64_PADDING_CHAR"
proof -
  have "unat i \<in> set [0..<64]" using assms by simp
  then show "b64_val (b64_char i) = i" "b64_char i \<noteq> VTM_BASE64_PADDING_CHAR"
    using b64_table unfolding list_all_iff b64_char_def by force+
qed

lemma unat_and_3f: "unat (w AND 0x3f :: u32) = unat w mod 64"
proof -
  have "w AND 0x3f = take_bit 6 w" by (simp add: take_bit_eq_mask mask_eq_exp_minus_1)
  then have "unat (w AND 0x3f) = take_bit 6 (unat w)" by (simp only: unsigned_take_bit_eq)
  then show ?thesis by (simp add: take_bit_eq_mod)
qed

lemma unat_drop: "unat (drop_bit n w :: u32) = unat w div 2 ^ n"
proof -
  have "unat (drop_bit n w) = drop_bit n (take_bit 32 (unat w))" by (simp only: unsigned_drop_bit_eq len_num1 len_of_numeral_defs) simp
  then show ?thesis by (simp add: drop_bit_eq_div take_bit_nat_eq_self unat_less_2p [of w, simplified])
qed

text \<open>The four characters a word of 24 bits is written as, and the word read back from them.\<close>

lemma b64_group:
  fixes c :: u32
  assumes "unat c < 2 ^ 24"
  shows "push_bit 18 (b64_val (b64_char (drop_bit 18 c)))
     + push_bit 12 (b64_val (b64_char (drop_bit 12 c AND 0x3f)))
     + push_bit 6 (b64_val (b64_char (drop_bit 6 c AND 0x3f)))
     + b64_val (b64_char (c AND 0x3f)) = c"
proof -
  define x where "x = unat c"
  have c: "c = of_nat x" by (simp add: x_def)
  have s: "drop_bit 18 c = of_nat (x div 2 ^ 18)" "drop_bit 12 c AND 0x3f = of_nat (x div 2 ^ 12 mod 64)"
    "drop_bit 6 c AND 0x3f = of_nat (x div 2 ^ 6 mod 64)" "c AND 0x3f = of_nat (x mod 64)"
    by (simp_all only: x_def unat_drop [symmetric] unat_and_3f [symmetric] of_nat_unat ucast_id)
  have lt: "x div 2 ^ 18 < 64" using assms by (simp add: x_def div_less_iff_less_mult)
  have "unat (of_nat (x div 2 ^ 18) :: u32) < 64" "unat (of_nat (x div 2 ^ 12 mod 64) :: u32) < 64"
    "unat (of_nat (x div 2 ^ 6 mod 64) :: u32) < 64" "unat (of_nat (x mod 64) :: u32) < 64"
    using lt by (simp_all add: unat_of_nat take_bit_nat_eq_self)
  note inv = this [THEN b64_inverse(1)]
  have "x = x div 2 ^ 18 * 2 ^ 18 + x div 2 ^ 12 mod 64 * 2 ^ 12 + x div 2 ^ 6 mod 64 * 2 ^ 6 + x mod 64"
  proof -
    have "x div 4096 = x div 64 div 64" "x div 262144 = x div 4096 div 64"
      by (simp_all add: div_mult2_eq [symmetric])
    then have "x = x div 262144 * 262144 + x div 4096 mod 64 * 4096 + x div 64 mod 64 * 64 + x mod 64"
      using div_mult_mod_eq [of x 64] div_mult_mod_eq [of "x div 64" 64]
        div_mult_mod_eq [of "x div 4096" 64] by linarith
    then show ?thesis by simp
  qed
  from arg_cong [OF this, of "of_nat :: nat \<Rightarrow> u32"]
  have "(of_nat x :: u32) = of_nat (x div 2 ^ 18) * 2 ^ 18 + of_nat (x div 2 ^ 12 mod 64) * 2 ^ 12
      + of_nat (x div 2 ^ 6 mod 64) * 2 ^ 6 + of_nat (x mod 64)"
    by (simp only: of_nat_add of_nat_mult of_nat_numeral of_nat_power)
  then show ?thesis unfolding s inv by (simp only: push_bit_eq_mult c)
qed

lemma b64_bytes:
  fixes a b d :: byte
  defines "c \<equiv> push_bit 16 (ucast a :: u32) + push_bit 8 (ucast b) + ucast d"
  shows "unat c = (unat a * 256 + unat b) * 256 + unat d"
    and "unat c < 2 ^ 24"
    and "ucast (drop_bit 16 c) = a" and "ucast (drop_bit 8 c) = b" and "ucast c = d"
proof -
  have u: "unat (ucast w :: u32) = unat w" for w :: byte by (simp add: unat_ucast_up)
  have lt: "unat w \<le> 255" for w :: byte using unat_byte_less [of w] by linarith
  have "unat (push_bit 16 (ucast a :: u32)) = unat a * 65536"
    "unat (push_bit 8 (ucast b :: u32)) = unat b * 256"
    using lt [of a] lt [of b] by (simp_all add: push_bit_eq_mult unat_word_ariths u)
  then show c: "unat c = (unat a * 256 + unat b) * 256 + unat d"
    using lt [of a] lt [of b] lt [of d] by (simp add: c_def unat_word_ariths u)
  then show "unat c < 2 ^ 24" using lt [of a] lt [of b] lt [of d] by simp
  have low: "unat (ucast w :: byte) = unat w mod 256" for w :: u32
    by (simp add: unsigned_ucast_eq take_bit_eq_mod)
  have sp: "(y * 256 + unat w) div 256 = y" "(y * 256 + unat w) mod 256 = unat w" for y and w :: byte
    by simp_all
  have dd: "n div 65536 = n div 256 div 256" for n :: nat by (simp add: div_mult2_eq [symmetric])
  have m: "((unat a * 256 + unat b) * 256 + unat d) div 65536 mod 256 = unat a"
    "((unat a * 256 + unat b) * 256 + unat d) div 256 mod 256 = unat b"
    "((unat a * 256 + unat b) * 256 + unat d) mod 256 = unat d"
    unfolding dd sp by simp_all
  show "ucast (drop_bit 16 c) = a" "ucast (drop_bit 8 c) = b" "ucast c = d"
    unfolding word_unat_eq_iff low unat_drop c using m by simp_all
qed

lemma b64_group_bytes:
  fixes a b d :: byte
  defines "c \<equiv> push_bit 16 (ucast a :: u32) + push_bit 8 (ucast b) + ucast d"
  defines "x \<equiv> push_bit 18 (b64_val (b64_char (drop_bit 18 c)))
     + push_bit 12 (b64_val (b64_char (drop_bit 12 c AND 0x3f)))
     + push_bit 6 (b64_val (b64_char (drop_bit 6 c AND 0x3f)))
     + b64_val (b64_char (c AND 0x3f))"
  shows "ucast (drop_bit 16 x) = a \<and> ucast (drop_bit 8 x) = b \<and> ucast x = d"
proof -
  have "x = c" unfolding x_def c_def by (rule b64_group) (rule b64_bytes(2))
  then show ?thesis using b64_bytes(3-5) [of a b d] unfolding c_def by simp
qed

subsection \<open>Round trip\<close>

lemma encode_length: "length (base64_encode_loop xs) = 4 * ((length xs + 2) div 3)"
proof (induction xs rule: base64_encode_loop.induct)
  case (1 a b d xs)
  have "(length xs + 5) div 3 = Suc ((length xs + 2) div 3)" by presburger
  then show ?case using 1 by (simp add: Let_def add.commute)
qed (simp_all add: Let_def)

text \<open>The whole groups of a text are decoded to the whole groups of the input.\<close>

lemma decode_encode_loop:
  assumes "length xs < 2 ^ 62"
  shows "base64_decode_loop (of_nat (4 * (length xs div 3))) (base64_encode_loop xs @ ys) =
    Some (take (3 * (length xs div 3)) xs, base64_encode_loop (drop (3 * (length xs div 3)) xs) @ ys)"
  using assms
proof (induction xs rule: base64_encode_loop.induct)
  case (1 a b d xs)
  let ?n = "length xs div 3"
  have n: "length (a # b # d # xs) div 3 = Suc ?n" by simp
  have n3: "3 * Suc ?n = Suc (Suc (Suc (3 * ?n)))" by simp
  have small: "4 * Suc ?n < 2 ^ 64" using 1 by simp
  have u: "unat (of_nat (4 * Suc ?n) :: size_t) = 4 * Suc ?n"
    using small by (intro unat_of_nat_small) simp
  then have "(of_nat (4 * Suc ?n) :: size_t) \<noteq> 0" by auto
  moreover have "(of_nat (4 * Suc ?n) :: size_t) - 4 = of_nat (4 * ?n)" by simp
  moreover have "base64_decode_loop (of_nat (4 * ?n)) (base64_encode_loop xs @ ys) =
      Some (take (3 * ?n) xs, base64_encode_loop (drop (3 * ?n) xs) @ ys)"
    using 1 by simp
  ultimately show ?case
    unfolding n n3 using b64_group_bytes [of a b d]
    by (subst base64_decode_loop.simps) (simp add: Let_def del: of_nat_mult of_nat_Suc mult_Suc_right)
qed (simp_all add: base64_decode_loop.simps)

lemma pad_snoc:
  "4 \<le> length ys \<Longrightarrow> base64_pad (a # b # c # d # ys) = base64_pad ys"
  by (simp add: base64_pad_def nth_Cons' numeral_eq_Suc) auto

lemma pad_encode:
  "xs \<noteq> [] \<Longrightarrow> base64_pad (base64_encode_loop xs) = (3 - length xs mod 3) mod 3"
proof (induction xs rule: base64_encode_loop.induct)
  case (1 a b d xs)
  show ?case
  proof (cases "xs = []")
    case True
    have "unat (w AND 0x3f :: u32) < 64" for w by (simp add: unat_and_3f)
    then show ?thesis using True b64_inverse(2) by (simp add: Let_def base64_pad_def)
  next
    case False
    have "4 \<le> length (base64_encode_loop xs)"
      using False by (cases xs) (simp_all add: encode_length)
    then show ?thesis using False 1 by (simp add: Let_def pad_snoc)
  qed
next
  case (2 a b)
  have "unat (w AND 0x3f :: u32) < 64" for w by (simp add: unat_and_3f)
  then show ?case using b64_inverse(2) by (simp add: Let_def base64_pad_def)
qed (simp_all add: Let_def base64_pad_def)

text \<open>The padded group at the end; its missing bytes count as 0.\<close>

lemma b64_low_bits:
  fixes a b :: byte
  shows "(push_bit 16 (ucast a :: u32) + push_bit 8 (ucast b)) AND 0x3f = 0"
    and "drop_bit 6 (push_bit 16 (ucast a :: u32)) AND 0x3f = 0"
proof -
  have z: "w = 0 \<longleftrightarrow> unat w = 0" for w :: u32 by (simp add: unat_eq_0)
  have m1: "n * 256 mod 64 = 0" and m2: "n * 65536 div 64 mod 64 = 0" for n :: nat
  proof -
    have e: "n * 256 = n * 4 * 64" "n * 65536 = n * 16 * 64 * 64" by simp_all
    show "n * 256 mod 64 = 0" unfolding e by (rule mod_mult_self2_is_0)
    show "n * 65536 div 64 mod 64 = 0" unfolding e by (simp only: nonzero_mult_div_cancel_right) simp
  qed
  show "(push_bit 16 (ucast a :: u32) + push_bit 8 (ucast b)) AND 0x3f = 0"
    unfolding z unat_and_3f using b64_bytes(1) [of a b 0] m1 by simp
  have "unat (push_bit 16 (ucast a :: u32)) = unat a * 65536" using b64_bytes(1) [of a 0 0] by simp
  then show "drop_bit 6 (push_bit 16 (ucast a :: u32)) AND 0x3f = 0"
    unfolding z unat_and_3f unat_drop using m2 by simp
qed

lemma decode_last_encode:
  assumes "length xs < 3"
  shows "base64_decode_last ((3 - length xs) mod 3) (base64_encode_loop xs) = Some xs"
proof -
  have zero: "b64_val (b64_char 0) = 0" by (rule b64_inverse(1)) simp
  consider "xs = []" | a where "xs = [a]" | a b where "xs = [a, b]"
    using assms by (cases xs; cases "tl xs"; cases "tl (tl xs)") auto
  then show ?thesis
  proof cases
    case 1
    then show ?thesis by (simp add: base64_decode_last_def)
  next
    case (2 a)
    then show ?thesis using b64_group_bytes [of a 0 0] b64_low_bits(1) [of a 0] b64_low_bits(2) [of a] zero
      by (simp add: base64_decode_last_def Let_def)
  next
    case (3 a b)
    then show ?thesis using b64_group_bytes [of a b 0] b64_low_bits(1) [of a b] zero
      by (simp add: base64_decode_last_def Let_def)
  qed
qed

lemma group_count:
  fixes k :: nat
  shows "(k + 2) div 3 = (if (3 - k mod 3) mod 3 = 0 then k div 3 else Suc (k div 3))"
    and "k + (3 - k mod 3) mod 3 = 3 * ((k + 2) div 3)"
proof -
  define q r where "q = k div 3" and "r = k mod 3"
  then have k: "k = q * 3 + r" "r < 3" by simp_all
  have z: "Suc (Suc (q * 3)) div 3 = q" by presburger
  consider "r = 0" | "r = 1" | "r = 2" using k(2) by linarith
  then have "(k + 2) div 3 = (if (3 - r) mod 3 = 0 then q else Suc q) \<and> k + (3 - r) mod 3 = 3 * ((k + 2) div 3)"
    by cases (simp_all add: k(1) z)
  then show "(k + 2) div 3 = (if (3 - k mod 3) mod 3 = 0 then k div 3 else Suc (k div 3))"
    "k + (3 - k mod 3) mod 3 = 3 * ((k + 2) div 3)"
    by (simp_all only: q_def r_def)
qed

lemma decode_encode:
  assumes "xs \<noteq> []" and "length xs < 2 ^ 60"
    and "VTM_BASE64_DEC_BUF_LEN (of_nat (length (base64_encode_loop xs))) \<le> buf_len"
  shows "vtm_base64_decode (base64_encode_loop xs) buf_len = Some (Inr (xs, of_nat (length xs)))"
proof -
  let ?e = "base64_encode_loop xs" and ?n = "length xs div 3" and ?m = "(length xs + 2) div 3"
  let ?pad = "(3 - length xs mod 3) mod 3"
  note m = group_count [of "length xs"]
  have pos: "0 < ?m" using assms(1) by (cases xs) simp_all
  have len: "length ?e = 4 * ?m" by (rule encode_length)
  have "4 * ?m < 2 ^ 64" using assms(2) by simp
  then have u: "unat (of_nat (4 * ?m) :: size_t) = 4 * ?m" by (intro unat_of_nat_small) simp
  have w: "VTM_BASE64_DEC_BUF_LEN (of_nat (length ?e)) = of_nat (3 * ?m)"
  proof -
    have "unat (VTM_BASE64_DEC_BUF_LEN (of_nat (4 * ?m))) = 3 * ?m"
      using \<open>4 * ?m < 2 ^ 64\<close>
      by (simp add: VTM_BASE64_DEC_BUF_LEN_def unat_word_ariths unat_div u del: of_nat_mult)
    then show ?thesis unfolding len by (metis of_nat_unat ucast_id)
  qed
  have rem: "(if 0 < ?pad then of_nat (length ?e) - 4 else of_nat (length ?e)) = (of_nat (4 * ?n) :: size_t)"
    unfolding len m(1) by simp
  have loop: "base64_decode_loop (of_nat (4 * ?n)) ?e =
      Some (take (3 * ?n) xs, base64_encode_loop (drop (3 * ?n) xs))"
    using decode_encode_loop [of xs "[]"] assms(2) by simp
  have drop: "length (drop (3 * ?n) xs) = length xs mod 3" by (simp add: minus_mult_div_eq_mod)
  then have last: "base64_decode_last ?pad (base64_encode_loop (drop (3 * ?n) xs)) = Some (drop (3 * ?n) xs)"
    using decode_last_encode [of "drop (3 * ?n) xs"] by simp
  have num: "(of_nat (3 * ?m) :: size_t) - of_nat ?pad = of_nat (length xs)"
    by (simp only: m(2) [symmetric] of_nat_add) simp
  show ?thesis
    using assms(3) pos unfolding vtm_base64_decode_def Let_def pad_encode [OF assms(1)] rem loop w
    by (simp add: len last num linorder_not_less del: of_nat_mult One_nat_def add_2_eq_Suc')
qed

definition base64_ok :: "byte list \<Rightarrow> bool" where
  "base64_ok xs \<longleftrightarrow> xs \<noteq> [] \<and> length xs < 2 ^ 60"

definition base64_decoded :: "cstr \<Rightarrow> byte list option" where
  "base64_decoded txt =
     (case vtm_base64_decode txt (VTM_BASE64_DEC_BUF_LEN (of_nat (length txt))) of
        Some (Inr (bs, n)) \<Rightarrow> Some bs
      | _ \<Rightarrow> None)"

interpretation b64: codec base64_ok base64_encode_loop base64_decoded
  by unfold_locales (simp add: base64_ok_def base64_decoded_def decode_encode)

text \<open>
  C28. Whatever \<open>vtm_base64_encode\<close> accepts (but the empty input, whose text the decoder refuses), up
  to 2^60 bytes, is written with its NUL inside the output buffer, decoding it into a buffer of the
  size the header asks for gives back the bytes and their number, and no other input gives the same
  text.
\<close>

theorem base64_roundtrip:
  assumes "vtm_base64_encode xs enc_len = Inr txt" and "xs \<noteq> []" and "length xs < 2 ^ 60"
    and "VTM_BASE64_DEC_BUF_LEN (of_nat (length txt)) \<le> dec_len"
  shows "length txt + 1 \<le> unat enc_len
    \<and> vtm_base64_decode txt dec_len = Some (Inr (xs, of_nat (length xs)))
    \<and> (\<forall>ys. ys \<noteq> [] \<and> length ys < 2 ^ 60 \<and> vtm_base64_encode ys enc_len = Inr txt \<longrightarrow> ys = xs)"
proof -
  have enc: "VTM_BASE64_ENC_BUF_LEN (of_nat (length xs)) \<le> enc_len" and t: "txt = base64_encode_loop xs"
    using assms(1) by (auto simp: vtm_base64_encode_def split: if_splits)
  have "unat (VTM_BASE64_ENC_BUF_LEN (of_nat (length xs))) = 4 * ((length xs + 2) div 3) + 1"
    using assms(3) by (simp add: VTM_BASE64_ENC_BUF_LEN_def unat_word_ariths unat_div unat_of_nat_small)
  then have "length txt + 1 \<le> unat enc_len" using enc by (simp add: t encode_length word_le_nat_alt)
  moreover have "ys = xs" if "ys \<noteq> []" "length ys < 2 ^ 60" "vtm_base64_encode ys enc_len = Inr txt" for ys
    using that assms(2, 3) b64.enc_inj [of ys xs]
    by (auto simp: vtm_base64_encode_def t base64_ok_def split: if_splits)
  ultimately show ?thesis using decode_encode [OF assms(2, 3)] assms(4) t by blast
qed

theorem base64_roundtrip_witness:
  "vtm_base64_encode [104, 105, 33, 10] 9 = Inr (bytes_of ''aGkhCg=='')
   \<and> vtm_base64_decode (bytes_of ''aGkhCg=='') 6 = Some (Inr ([104, 105, 33, 10], 4))"
proof -
  have "vtm_base64_encode [104, 105, 33, 10] 9 = Inr (bytes_of ''aGkhCg=='')"
    by (simp add: vtm_base64_encode_def VTM_BASE64_ENC_BUF_LEN_def b64_char_def Let_def bytes_of_def
        byte_of_def VTM_BASE64_ENCODING_def VTM_BASE64_PADDING_CHAR_def push_bit_eq_mult drop_bit_eq_div)
  then show ?thesis using base64_roundtrip [of "[104, 105, 33, 10]" 9 "bytes_of ''aGkhCg==''" 6]
    by (simp add: VTM_BASE64_DEC_BUF_LEN_def bytes_of_def)
qed

end
