(* ===== verification/Buffer.thy ===== *)
theory Buffer
  imports Mathx Interfaces
begin

text \<open>
  \<open>core/buffer.c\<close> and \<open>core/buffer.h\<close>: the automatically growing byte buffer every parser and
  serializer of the library works on. \<open>buf_data\<close> holds the initialised prefix of the memory block
  (\<open>data[0] .. data[used - 1]\<close>); \<open>buf_dyn\<close> tells whether the block is on the heap
  (\<open>data != sdata\<close>). Sizes are 64 bit words, so that the checks against wrap-around are kept.
\<close>

record vtm_buf =
  buf_order :: vtm_byteorder
  buf_dyn :: bool
  buf_data :: "byte list"
  buf_len :: size_t
  buf_used :: size_t
  buf_read :: size_t
  buf_err :: vtm_rc

definition VTM_BUF_GET_AVAIL :: "vtm_buf \<Rightarrow> size_t \<Rightarrow> bool" where
  "VTM_BUF_GET_AVAIL b n \<longleftrightarrow>
     buf_read b + n \<le> buf_used b \<and> buf_read b \<le> buf_read b + n"

definition VTM_BUF_GET_AVAIL_TOTAL :: "vtm_buf \<Rightarrow> size_t" where
  "VTM_BUF_GET_AVAIL_TOTAL b = buf_used b - buf_read b"

text \<open>Reading a byte at or past \<open>used\<close> is a read of indeterminate memory: \<open>None\<close>.\<close>

definition VTM_BUF_GETC :: "vtm_buf \<Rightarrow> (byte \<times> vtm_buf) option" where
  "VTM_BUF_GETC b =
     (if unat (buf_read b) < length (buf_data b)
      then Some (buf_data b ! unat (buf_read b), b\<lparr>buf_read := buf_read b + 1\<rparr>)
      else None)"

definition VTM_BUF_PUT_AVAIL :: "vtm_buf \<Rightarrow> size_t \<Rightarrow> bool" where
  "VTM_BUF_PUT_AVAIL b n \<longleftrightarrow>
     buf_used b + n \<le> buf_len b \<and> buf_used b \<le> buf_used b + n"

definition VTM_BUF_PUT_AVAIL_TOTAL :: "vtm_buf \<Rightarrow> size_t" where
  "VTM_BUF_PUT_AVAIL_TOTAL b = buf_len b - buf_used b"

text \<open>
  \<open>VTM_BUF_PUT_PTR\<close> and \<open>VTM_BUF_PUT_INC\<close> as the callers use them: bytes are written behind the
  used ones by a system call and then counted.
\<close>

definition VTM_BUF_PUT_INC :: "vtm_buf \<Rightarrow> byte list \<Rightarrow> vtm_buf" where
  "VTM_BUF_PUT_INC b bs =
     b\<lparr>buf_data := buf_data b @ bs, buf_used := buf_used b + of_nat (length bs)\<rparr>"

definition VTM_BUF_PROCESS_ALL :: "vtm_buf \<Rightarrow> vtm_buf" where
  "VTM_BUF_PROCESS_ALL b = b\<lparr>buf_read := buf_used b\<rparr>"

definition VTM_BUF_SDATA_LEN :: size_t where
  "VTM_BUF_SDATA_LEN = 1024"

definition vtm_buf_init :: "vtm_byteorder \<Rightarrow> vtm_buf" where
  "vtm_buf_init ord =
     \<lparr>buf_order = ord, buf_dyn = False, buf_data = [], buf_len = VTM_BUF_SDATA_LEN,
      buf_used = 0, buf_read = 0, buf_err = VTM_OK\<rparr>"

text \<open>The argument of \<open>malloc\<close> is the size of the struct, which no branch depends on.\<close>

definition vtm_buf_new :: "bool \<Rightarrow> vtm_byteorder \<Rightarrow> vtm_buf option" where
  "vtm_buf_new mem ord = (if \<not> mem then None else Some (vtm_buf_init ord))"

definition vtm_buf_clear :: "vtm_buf \<Rightarrow> vtm_buf" where
  "vtm_buf_clear b = b\<lparr>buf_data := [], buf_used := 0, buf_read := 0, buf_err := VTM_OK\<rparr>"

text \<open>
  The loop of \<open>vtm_buf_grow\<close>: \<open>None\<close> is the jump to \<open>err_overflow\<close>. Sixty-four doublings clear
  every bit of the length, so with a positive \<open>old\<close> the loop stops within 65 rounds
  (\<open>buf_grow_loop_fuel\<close>); \<open>old\<close> is a buffer length and never 0 (\<open>vtm_buf_inv\<close>).
\<close>

fun buf_grow_loop :: "nat \<Rightarrow> size_t \<Rightarrow> size_t \<Rightarrow> size_t \<Rightarrow> size_t option" where
  "buf_grow_loop 0 old target len = None"
| "buf_grow_loop (Suc fuel) old target len =
     (if len < target then
        (let len' = push_bit 1 len
         in if len' < old then None else buf_grow_loop fuel old target len')
      else Some len)"

definition vtm_buf_grow :: "allocator \<Rightarrow> vtm_buf \<Rightarrow> size_t \<Rightarrow> vtm_buf" where
  "vtm_buf_grow ma b add_size =
     (if buf_err b \<noteq> VTM_OK then b
      else
        let old = buf_len b; target = old + add_size
        in if target < old then b\<lparr>buf_err := VTM_E_OVERFLOW\<rparr>
           else case buf_grow_loop 65 old target old of
                  None \<Rightarrow> b\<lparr>buf_err := VTM_E_OVERFLOW\<rparr>
                | Some len \<Rightarrow>
                    if ma len then b\<lparr>buf_len := len, buf_dyn := True\<rparr>
                    else if buf_dyn b then b\<lparr>buf_err := VTM_E_MALLOC\<rparr>
                    else b\<lparr>buf_dyn := True, buf_data := [], buf_err := VTM_E_MALLOC\<rparr>)"

definition vtm_buf_ensure :: "allocator \<Rightarrow> vtm_buf \<Rightarrow> size_t \<Rightarrow> vtm_rc \<times> vtm_buf" where
  "vtm_buf_ensure ma b space =
     (let b' = (if \<not> VTM_BUF_PUT_AVAIL b space then vtm_buf_grow ma b space else b)
      in (buf_err b', b'))"

definition vtm_buf_discard_processed :: "vtm_buf \<Rightarrow> vtm_buf" where
  "vtm_buf_discard_processed b =
     (if buf_read b = 0 then b
      else b\<lparr>buf_data := drop (unat (buf_read b)) (buf_data b),
             buf_used := buf_used b - buf_read b, buf_read := 0\<rparr>)"

definition vtm_buf_mark_processed :: "vtm_buf \<Rightarrow> size_t \<Rightarrow> vtm_rc \<times> vtm_buf" where
  "vtm_buf_mark_processed b num =
     (let (rc, r) = vtm_math_size_add (buf_read b) num (buf_read b)
      in (rc, b\<lparr>buf_read := r\<rparr>))"

text \<open>\<open>None\<close>: the copy would read past the used bytes; the code does not check that.\<close>

definition vtm_buf_geto ::
    "vtm_buf \<Rightarrow> size_t \<Rightarrow> vtm_byteorder \<Rightarrow> (byte list \<times> vtm_buf) option" where
  "vtm_buf_geto b len dst_order =
     (if unat (buf_read b) + unat len \<le> length (buf_data b) then
        (let src = take (unat len) (drop (unat (buf_read b)) (buf_data b));
             dst = (if buf_order b = dst_order then src else rev src)
         in Some (dst, b\<lparr>buf_read := buf_read b + len\<rparr>))
      else None)"

definition vtm_buf_getm :: "vtm_buf \<Rightarrow> size_t \<Rightarrow> (byte list \<times> vtm_buf) option" where
  "vtm_buf_getm b len = vtm_buf_geto b len (buf_order b)"

text \<open>The loop \<open>for (i=len; i > 0; i--)\<close> of \<open>vtm_buf_puto\<close>.\<close>

primrec buf_put_rev :: "byte list \<Rightarrow> nat \<Rightarrow> vtm_buf \<Rightarrow> vtm_buf" where
  "buf_put_rev src 0 b = b"
| "buf_put_rev src (Suc i) b =
     buf_put_rev src i
       (b\<lparr>buf_data := buf_data b @ [src ! i], buf_used := buf_used b + 1\<rparr>)"

definition vtm_buf_puto ::
    "allocator \<Rightarrow> vtm_buf \<Rightarrow> byte list \<Rightarrow> vtm_byteorder \<Rightarrow> vtm_rc \<times> vtm_buf" where
  "vtm_buf_puto ma b src src_order =
     (let len = of_nat (length src);
          b' = (if \<not> VTM_BUF_PUT_AVAIL b len then vtm_buf_grow ma b len else b)
      in if buf_err b' \<noteq> VTM_OK then (buf_err b', b')
         else if buf_order b' = src_order then
           (VTM_OK, b'\<lparr>buf_data := buf_data b' @ src, buf_used := buf_used b' + len\<rparr>)
         else (VTM_OK, buf_put_rev src (length src) b'))"

definition vtm_buf_putm :: "allocator \<Rightarrow> vtm_buf \<Rightarrow> byte list \<Rightarrow> vtm_rc \<times> vtm_buf" where
  "vtm_buf_putm ma b src = vtm_buf_puto ma b src (buf_order b)"

definition vtm_buf_puts :: "allocator \<Rightarrow> vtm_buf \<Rightarrow> cstr \<Rightarrow> vtm_rc \<times> vtm_buf" where
  "vtm_buf_puts ma b str = vtm_buf_putm ma b str"

definition vtm_buf_putc :: "allocator \<Rightarrow> vtm_buf \<Rightarrow> byte \<Rightarrow> vtm_rc \<times> vtm_buf" where
  "vtm_buf_putc ma b c =
     (let b' = (if \<not> VTM_BUF_PUT_AVAIL b 1 then vtm_buf_grow ma b 1 else b)
      in if buf_err b' \<noteq> VTM_OK then (buf_err b', b')
         else (VTM_OK, b'\<lparr>buf_data := buf_data b' @ [c], buf_used := buf_used b' + 1\<rparr>))"

text \<open>
  The host byte order is found by looking at the first byte of an integer in memory.
\<close>

definition vtm_sys_get_byteorder :: "vtm_byteorder \<Rightarrow> vtm_byteorder" where
  "vtm_sys_get_byteorder host =
     (if hd (mem_of host (0x0a0b0c0d :: u32)) = 0x0d then VTM_BYTEORDER_LE
      else VTM_BYTEORDER_BE)"


subsection \<open>Invariant and abstraction\<close>

definition vtm_buf_inv :: "vtm_buf \<Rightarrow> bool" where
  "vtm_buf_inv b \<longleftrightarrow>
     length (buf_data b) = unat (buf_used b)
     \<and> buf_read b \<le> buf_used b \<and> buf_used b \<le> buf_len b
     \<and> (\<exists>k. 10 \<le> k \<and> k < 64 \<and> buf_len b = 2 ^ k)
     \<and> (\<not> buf_dyn b \<longrightarrow> buf_len b = VTM_BUF_SDATA_LEN)"

text \<open>What a reader still gets from the buffer.\<close>

definition buf_unread :: "vtm_buf \<Rightarrow> byte list" where
  "buf_unread b = drop (unat (buf_read b)) (buf_data b)"

lemma vtm_buf_init_inv [simp]: "vtm_buf_inv (vtm_buf_init ord)"
  by (auto simp: vtm_buf_inv_def vtm_buf_init_def VTM_BUF_SDATA_LEN_def intro: exI [of _ 10])

lemma vtm_buf_init_unread [simp]: "buf_unread (vtm_buf_init ord) = []"
  by (simp add: buf_unread_def vtm_buf_init_def)

lemma vtm_buf_clear_inv: "vtm_buf_inv b \<Longrightarrow> vtm_buf_inv (vtm_buf_clear b)"
  by (auto simp: vtm_buf_inv_def vtm_buf_clear_def)

lemma vtm_buf_invD:
  assumes "vtm_buf_inv b"
  shows "length (buf_data b) = unat (buf_used b)" "unat (buf_read b) \<le> unat (buf_used b)"
    "unat (buf_used b) \<le> unat (buf_len b)"
  using assms by (auto simp: vtm_buf_inv_def word_le_nat_alt)

lemma unat_2_power [simp]: "k < 64 \<Longrightarrow> unat (2 ^ k :: size_t) = 2 ^ k"
  using unat_of_nat_small [of "2 ^ k", where ?'a = 64] power_strict_increasing [of k 64 "2::nat"]
  by simp

lemma push_bit_2_power: "push_bit 1 (2 ^ k :: size_t) = 2 ^ Suc k"
  by (simp add: push_bit_eq_mult mult.commute)

text \<open>The loop finds the least power of two that is at least the target.\<close>

lemma buf_grow_loop_power:
  assumes "j \<le> k" "k < 64" "k \<le> j + fuel" "target \<le> 2 ^ k" "\<forall>i<k. j \<le> i \<longrightarrow> 2 ^ i < target"
    "0 < unat old" "unat old \<le> 2 ^ j"
  shows "buf_grow_loop (Suc fuel) old target (2 ^ j) = Some (2 ^ k)"
  using assms
proof (induction fuel arbitrary: j)
  case 0
  then show ?case by (auto simp: not_less [symmetric])
next
  case (Suc fuel)
  show ?case
  proof (cases "j = k")
    case True
    with Suc.prems show ?thesis by (simp add: not_less [symmetric])
  next
    case False
    with Suc.prems have jk: "Suc j \<le> k" by simp
    then have lt: "2 ^ j < target" and "Suc j < 64" using Suc.prems by auto
    have "unat old \<le> 2 ^ Suc j" using Suc.prems by simp
    moreover have "\<not> (2 ^ Suc j :: size_t) < old"
      using \<open>unat old \<le> 2 ^ Suc j\<close> \<open>Suc j < 64\<close> unat_2_power [of "Suc j"]
      by (simp add: word_less_nat_alt del: power_Suc)
    moreover have "buf_grow_loop (Suc fuel) old target (2 ^ Suc j) = Some (2 ^ k)"
      using Suc.prems jk \<open>unat old \<le> 2 ^ Suc j\<close> by (intro Suc.IH) auto
    ultimately show ?thesis
      using lt by (subst buf_grow_loop.simps(2))
        (simp only: push_bit_2_power Let_def if_True if_False)
  qed
qed

text \<open>With a positive start length the 65 rounds are enough: more fuel changes nothing.\<close>

lemma buf_grow_loop_fuel:
  assumes "push_bit fuel len = 0" "0 < old"
  shows "buf_grow_loop (Suc fuel + n) old target len = buf_grow_loop (Suc fuel) old target len"
  using assms(1)
proof (induction fuel arbitrary: len)
  case 0
  then show ?case using assms(2) by (cases n) auto
next
  case (Suc fuel)
  then have "push_bit fuel (push_bit 1 len) = 0"
    by simp
  from Suc.IH [OF this] show ?case
    by (simp add: Let_def)
qed

lemma power_64_zero: "push_bit 64 (len :: size_t) = 0"
  by (rule bit_word_eqI) (simp add: bit_simps)

lemma ex_least_power:
  assumes "target \<le> (2 ^ 63 :: size_t)"
  obtains k where "k < 64" "target \<le> 2 ^ k" "\<forall>i<k. 2 ^ i < target"
proof -
  define k where "k = (LEAST k. target \<le> (2 ^ k :: size_t))"
  have "k \<le> 63" unfolding k_def by (rule Least_le) (rule assms)
  moreover have "target \<le> 2 ^ k" unfolding k_def by (rule LeastI) (rule assms)
  moreover have "\<forall>i<k. 2 ^ i < target"
    using not_less_Least [of _ "\<lambda>k. target \<le> (2 ^ k :: size_t)"] by (auto simp: k_def not_le)
  ultimately show ?thesis using that [of k] by auto
qed

text \<open>Past the largest power of two the length wraps to 0, which the loop notices.\<close>

lemma buf_grow_loop_overflow:
  assumes "j < 64" "63 \<le> j + fuel" "2 ^ 63 < target" "0 < unat old" "unat old \<le> 2 ^ j"
  shows "buf_grow_loop (Suc fuel) old target (2 ^ j) = None"
  using assms
proof (induction fuel arbitrary: j)
  case 0
  then have "j = 63" by simp
  with 0 show ?case by simp
next
  case (Suc fuel)
  have "(2 :: nat) ^ j \<le> 2 ^ 63"
    using Suc.prems by (intro power_increasing) auto
  then have "(2 ^ j :: size_t) \<le> 2 ^ 63"
    using Suc.prems(1) unat_2_power [of 63] by (simp add: word_le_nat_alt)
  then have lt: "2 ^ j < target" using Suc.prems by simp
  show ?case
  proof (cases "j = 63")
    case True
    have "(0 :: size_t) < old" using Suc.prems by (simp add: word_less_nat_alt)
    moreover have "push_bit 1 (2 ^ j :: size_t) = 0"
    proof -
      have "Suc j = 64" using True by simp
      then show ?thesis
        using push_bit_2_power [of j] power_64_zero [of 1] by (simp only: push_bit_of_1)
    qed
    ultimately show ?thesis
      using lt by (subst buf_grow_loop.simps(2)) (simp only: Let_def if_True)
  next
    case False
    then have "Suc j < 64" using Suc.prems by simp
    moreover have "unat old \<le> 2 ^ Suc j" using Suc.prems by simp
    ultimately have "buf_grow_loop (Suc fuel) old target (2 ^ Suc j) = None"
      using Suc.prems by (intro Suc.IH) auto
    then show ?thesis
      using lt by (subst buf_grow_loop.simps(2))
        (simp only: push_bit_2_power Let_def if_True if_False if_cancel)
  qed
qed

text \<open>What \<open>vtm_buf_grow\<close> does to a buffer without error, on every branch.\<close>

lemma buf_grow_cases:
  assumes inv: "vtm_buf_inv b" and ok: "buf_err b = VTM_OK"
  obtains (overflow) "vtm_buf_grow ma b n = b\<lparr>buf_err := VTM_E_OVERFLOW\<rparr>"
      "2 ^ 63 < unat (buf_len b) + unat n"
    | (oom) b' where "vtm_buf_grow ma b n = b'" "buf_err b' = VTM_E_MALLOC" "\<exists>m. \<not> ma m"
    | (grown) k where "vtm_buf_grow ma b n = b\<lparr>buf_len := 2 ^ k, buf_dyn := True\<rparr>"
      "10 \<le> k" "k < 64" "unat (buf_len b) + unat n \<le> 2 ^ k"
      "unat n = 0 \<or> 2 ^ k < 2 * (unat (buf_len b) + unat n)"
proof (cases "unat (buf_len b) + unat n \<le> 2 ^ 63")
  case True
  obtain j where j: "10 \<le> j" "j < 64" "buf_len b = 2 ^ j"
    using inv by (auto simp: vtm_buf_inv_def)
  define target where "target = buf_len b + n"
  have ut: "unat target = unat (buf_len b) + unat n"
    unfolding target_def using True by (intro unat_add_no_wrap) simp
  then have "target \<le> 2 ^ 63"
    using True unat_2_power [of 63] by (simp add: word_le_nat_alt)
  then obtain k where k: "k < 64" "target \<le> 2 ^ k" "\<forall>i<k. 2 ^ i < target"
    by (rule ex_least_power)
  have ok2: "\<not> target < buf_len b"
    using ut by (simp add: word_less_nat_alt)
  have jk: "j \<le> k"
  proof (rule ccontr)
    assume "\<not> j \<le> k"
    then have "(2 :: nat) ^ k < 2 ^ j" by simp
    moreover have "unat target \<le> 2 ^ k"
      using k unat_2_power [OF k(1)] by (simp add: word_le_nat_alt)
    moreover have "unat (buf_len b) = 2 ^ j" using j by simp
    ultimately show False using ut by linarith
  qed
  have loop: "buf_grow_loop 65 (buf_len b) target (buf_len b) = Some (2 ^ k)"
    using buf_grow_loop_power [of j k 64 target "buf_len b"] j jk k by simp
  have up: "unat target \<le> 2 ^ k"
    using k unat_2_power [OF k(1)] by (simp add: word_le_nat_alt)
  have bound: "unat n = 0 \<or> 2 ^ k < 2 * unat target"
  proof (cases "k = j")
    case True
    then show ?thesis using ut j by (cases "unat n = 0") auto
  next
    case False
    then obtain i where i: "k = Suc i" using jk by (cases k) auto
    then have "(2 ^ i :: size_t) < target" using k by simp
    then have "2 ^ i < unat target"
      using unat_2_power [of i] i k by (simp add: word_less_nat_alt)
    then show ?thesis using i by simp
  qed
  show ?thesis
  proof (cases "ma (2 ^ k)")
    case True
    then have "vtm_buf_grow ma b n = b\<lparr>buf_len := 2 ^ k, buf_dyn := True\<rparr>"
      using ok ok2 loop by (simp add: vtm_buf_grow_def Let_def target_def)
    moreover have "10 \<le> k" using j jk by simp
    ultimately show ?thesis
      using grown k up bound ut by simp
  next
    case False
    then have "buf_err (vtm_buf_grow ma b n) = VTM_E_MALLOC"
      using ok ok2 loop by (simp add: vtm_buf_grow_def Let_def target_def)
    then show ?thesis using oom False by blast
  qed
next
  case False
  obtain j where j: "10 \<le> j" "j < 64" "buf_len b = 2 ^ j"
    using inv by (auto simp: vtm_buf_inv_def)
  have "vtm_buf_grow ma b n = b\<lparr>buf_err := VTM_E_OVERFLOW\<rparr>"
  proof (cases "buf_len b + n < buf_len b")
    case True
    then show ?thesis using ok by (simp add: vtm_buf_grow_def Let_def)
  next
    case noless: False
    then have "unat (buf_len b + n) = unat (buf_len b) + unat n"
      using word_add_no_wrap_iff [of "buf_len b" n] unat_add_no_wrap [of "buf_len b" n]
      by (simp add: not_less)
    then have "2 ^ 63 < buf_len b + n"
      using False unat_2_power [of 63] by (simp add: word_less_nat_alt)
    then have "buf_grow_loop (Suc 64) (buf_len b) (buf_len b + n) (2 ^ j) = None"
      using j by (intro buf_grow_loop_overflow) auto
    then show ?thesis using ok noless j by (simp add: vtm_buf_grow_def Let_def)
  qed
  then show ?thesis using overflow False by simp
qed

text \<open>
  Putting bytes: the buffer either takes all of them behind what it holds, or reports the error and
  then still holds what it held, unless memory ran out.
\<close>

lemma buf_put_rev_eq:
  "n \<le> length src \<Longrightarrow> buf_put_rev src n b =
     b\<lparr>buf_data := buf_data b @ rev (take n src), buf_used := buf_used b + of_nat n\<rparr>"
  by (induction n arbitrary: b) (simp_all add: take_Suc_conv_app_nth algebra_simps)

lemma put_avail_iff:
  assumes "vtm_buf_inv b"
  shows "VTM_BUF_PUT_AVAIL b n \<longleftrightarrow> unat (buf_used b) + unat n \<le> unat (buf_len b)"
proof
  assume av: "VTM_BUF_PUT_AVAIL b n"
  then have "unat (buf_used b + n) = unat (buf_used b) + unat n"
    using word_add_no_wrap_iff [of "buf_used b" n] unat_add_no_wrap [of "buf_used b" n]
    by (simp add: VTM_BUF_PUT_AVAIL_def)
  then show "unat (buf_used b) + unat n \<le> unat (buf_len b)"
    using av by (simp add: VTM_BUF_PUT_AVAIL_def word_le_nat_alt)
next
  assume le: "unat (buf_used b) + unat n \<le> unat (buf_len b)"
  then have "unat (buf_used b) + unat n < 2 ^ 64"
    using unat_less_2p [of "buf_len b"] by simp
  then show "VTM_BUF_PUT_AVAIL b n"
    using le word_add_no_wrap_iff [of "buf_used b" n] unat_add_no_wrap [of "buf_used b" n]
    by (simp add: VTM_BUF_PUT_AVAIL_def word_le_nat_alt)
qed

lemma get_avail_iff:
  assumes "vtm_buf_inv b"
  shows "VTM_BUF_GET_AVAIL b n \<longleftrightarrow> unat n \<le> length (buf_unread b)"
proof -
  have "VTM_BUF_GET_AVAIL b n \<longleftrightarrow> unat (buf_read b) + unat n \<le> unat (buf_used b)"
  proof
    assume av: "VTM_BUF_GET_AVAIL b n"
    then have "unat (buf_read b + n) = unat (buf_read b) + unat n"
      using word_add_no_wrap_iff [of "buf_read b" n] unat_add_no_wrap [of "buf_read b" n]
      by (simp add: VTM_BUF_GET_AVAIL_def)
    then show "unat (buf_read b) + unat n \<le> unat (buf_used b)"
      using av by (simp add: VTM_BUF_GET_AVAIL_def word_le_nat_alt)
  next
    assume le: "unat (buf_read b) + unat n \<le> unat (buf_used b)"
    then have "unat (buf_read b) + unat n < 2 ^ 64"
      using unat_less_2p [of "buf_used b"] by simp
    then show "VTM_BUF_GET_AVAIL b n"
      using le word_add_no_wrap_iff [of "buf_read b" n] unat_add_no_wrap [of "buf_read b" n]
      by (simp add: VTM_BUF_GET_AVAIL_def word_le_nat_alt)
  qed
  then show ?thesis
    using vtm_buf_invD [OF assms] by (simp add: buf_unread_def) linarith
qed

text \<open>The buffer after \<open>bs\<close> was written behind the used bytes.\<close>

definition buf_ext :: "vtm_buf \<Rightarrow> byte list \<Rightarrow> vtm_buf \<Rightarrow> bool" where
  "buf_ext b bs b' \<longleftrightarrow>
     vtm_buf_inv b' \<and> buf_data b' = buf_data b @ bs \<and> buf_read b' = buf_read b
     \<and> buf_order b' = buf_order b \<and> buf_err b' = VTM_OK"

lemma buf_ext_trans: "buf_ext b xs b1 \<Longrightarrow> buf_ext b1 ys b2 \<Longrightarrow> buf_ext b (xs @ ys) b2"
  by (auto simp: buf_ext_def)

lemma buf_ext_unread:
  "vtm_buf_inv b \<Longrightarrow> buf_ext b bs b' \<Longrightarrow> buf_unread b' = buf_unread b @ bs"
  using vtm_buf_invD [of b] by (simp add: buf_ext_def buf_unread_def)

lemma buf_write_ext:
  assumes inv: "vtm_buf_inv b" and ok: "buf_err b = VTM_OK"
    and fit: "unat (buf_used b) + length bs \<le> unat (buf_len b)"
  shows "buf_ext b bs (b\<lparr>buf_data := buf_data b @ bs, buf_used := buf_used b + of_nat (length bs)\<rparr>)"
proof -
  have small: "length bs < 2 ^ 64"
    using fit unat_less_2p [of "buf_len b"] by simp
  then have u: "unat (buf_used b + of_nat (length bs)) = unat (buf_used b) + length bs"
    using fit unat_less_2p [of "buf_len b"]
    by (subst unat_add_no_wrap) simp_all
  then show ?thesis
    using inv ok fit by (auto simp: buf_ext_def vtm_buf_inv_def word_le_nat_alt)
qed

lemma buf_grow_inv:
  assumes "vtm_buf_inv b" "unat (buf_len b) \<le> 2 ^ k" "10 \<le> k" "k < 64"
  shows "vtm_buf_inv (b\<lparr>buf_len := 2 ^ k, buf_dyn := True\<rparr>)"
  using assms by (auto simp: vtm_buf_inv_def word_le_nat_alt)

text \<open>The prologue shared by \<open>vtm_buf_puto\<close> and \<open>vtm_buf_putc\<close>: make room for \<open>n\<close> bytes.\<close>

definition buf_reserve :: "allocator \<Rightarrow> vtm_buf \<Rightarrow> size_t \<Rightarrow> vtm_buf" where
  "buf_reserve ma b n = (if \<not> VTM_BUF_PUT_AVAIL b n then vtm_buf_grow ma b n else b)"

lemma buf_reserve_err: "buf_err b \<noteq> VTM_OK \<Longrightarrow> buf_reserve ma b n = b"
  by (simp add: buf_reserve_def vtm_buf_grow_def)

lemma buf_reserve_cases:
  assumes inv: "vtm_buf_inv b" and ok: "buf_err b = VTM_OK"
  obtains (overflow) "buf_reserve ma b n = b\<lparr>buf_err := VTM_E_OVERFLOW\<rparr>"
      "2 ^ 63 < unat (buf_len b) + unat n" "unat (buf_len b) < unat (buf_used b) + unat n"
    | (oom) "buf_err (buf_reserve ma b n) = VTM_E_MALLOC" "\<exists>m. \<not> ma m"
    | (room) l d where "buf_reserve ma b n = b\<lparr>buf_len := l, buf_dyn := d\<rparr>"
      "vtm_buf_inv (b\<lparr>buf_len := l, buf_dyn := d\<rparr>)"
      "unat (buf_used b) + unat n \<le> unat l"
      "l = buf_len b \<or> unat l < 4 * (unat (buf_used b) + unat n)"
proof (cases "VTM_BUF_PUT_AVAIL b n")
  case True
  then show ?thesis
    using room [where l = "buf_len b" and d = "buf_dyn b"] inv put_avail_iff [OF inv, of n]
    by (simp add: buf_reserve_def)
next
  case False
  then have nofit: "unat (buf_len b) < unat (buf_used b) + unat n"
    using put_avail_iff [OF inv, of n] by simp
  have eq: "buf_reserve ma b n = vtm_buf_grow ma b n"
    using False by (simp add: buf_reserve_def)
  show ?thesis
  proof (rule buf_grow_cases [OF inv ok, of ma n])
    fix k
    assume k: "vtm_buf_grow ma b n = b\<lparr>buf_len := 2 ^ k, buf_dyn := True\<rparr>"
      "10 \<le> k" "k < 64" "unat (buf_len b) + unat n \<le> 2 ^ k"
      "unat n = 0 \<or> 2 ^ k < 2 * (unat (buf_len b) + unat n)"
    have pos: "unat n \<noteq> 0"
      using nofit vtm_buf_invD(3) [OF inv] by simp
    show ?thesis
    proof (rule room)
      show "buf_reserve ma b n = b\<lparr>buf_len := 2 ^ k, buf_dyn := True\<rparr>" by (simp add: eq k)
      show "vtm_buf_inv (b\<lparr>buf_len := 2 ^ k, buf_dyn := True\<rparr>)"
        using k inv by (intro buf_grow_inv) auto
      show "unat (buf_used b) + unat n \<le> unat (2 ^ k :: size_t)"
        using k vtm_buf_invD(3) [OF inv] by simp
      show "2 ^ k = buf_len b \<or> unat (2 ^ k :: size_t) < 4 * (unat (buf_used b) + unat n)"
        using k pos nofit by simp
    qed
  qed (use eq nofit overflow oom in auto)
qed

lemma vtm_buf_puto_reserve:
  "vtm_buf_puto ma b src ord =
     (let b' = buf_reserve ma b (of_nat (length src))
      in if buf_err b' \<noteq> VTM_OK then (buf_err b', b')
         else (VTM_OK, b'\<lparr>buf_data := buf_data b' @ (if buf_order b' = ord then src else rev src),
                          buf_used := buf_used b' + of_nat (length src)\<rparr>))"
  by (simp add: vtm_buf_puto_def buf_reserve_def Let_def buf_put_rev_eq)

lemma vtm_buf_putc_reserve:
  "vtm_buf_putc ma b c =
     (let b' = buf_reserve ma b 1
      in if buf_err b' \<noteq> VTM_OK then (buf_err b', b')
         else (VTM_OK, b'\<lparr>buf_data := buf_data b' @ [c], buf_used := buf_used b' + 1\<rparr>))"
  by (simp add: vtm_buf_putc_def buf_reserve_def Let_def)

lemma vtm_buf_putc_puto: "vtm_buf_putc ma b c = vtm_buf_puto ma b [c] ord"
  by (simp add: vtm_buf_putc_reserve vtm_buf_puto_reserve Let_def)

lemma vtm_buf_puto_sticky:
  "buf_err b \<noteq> VTM_OK \<Longrightarrow> vtm_buf_puto ma b src ord = (buf_err b, b)"
  by (simp add: vtm_buf_puto_reserve buf_reserve_err)

lemma buf_puto_spec_aux:
  assumes "vtm_buf_inv b" and "length src < 2 ^ 64" and "vtm_buf_puto ma b src ord = (rc, b')"
  shows "rc = buf_err b' \<and>
    (if buf_err b \<noteq> VTM_OK then rc = buf_err b \<and> b' = b
     else case rc of
       VTM_OK \<Rightarrow> buf_ext b (if buf_order b = ord then src else rev src) b'
     | VTM_E_OVERFLOW \<Rightarrow> b' = b\<lparr>buf_err := VTM_E_OVERFLOW\<rparr>
         \<and> 2 ^ 63 < unat (buf_len b) + length src
     | VTM_E_MALLOC \<Rightarrow> \<exists>m. \<not> ma m
     | _ \<Rightarrow> False)"
proof (cases "buf_err b = VTM_OK")
  case False
  then show ?thesis using assms vtm_buf_puto_sticky [of b ma src ord] by auto
next
  case True
  have n: "unat (of_nat (length src) :: size_t) = length src"
    using assms(2) by simp
  show ?thesis
  proof (rule buf_reserve_cases [OF assms(1) True, of ma "of_nat (length src)"])
    fix l d
    assume r: "buf_reserve ma b (of_nat (length src)) = b\<lparr>buf_len := l, buf_dyn := d\<rparr>"
      "vtm_buf_inv (b\<lparr>buf_len := l, buf_dyn := d\<rparr>)"
      "unat (buf_used b) + unat (of_nat (length src) :: size_t) \<le> unat l"
    define xs where "xs = (if buf_order b = ord then src else rev src)"
    have "length xs = length src" by (simp add: xs_def)
    then have "buf_ext (b\<lparr>buf_len := l, buf_dyn := d\<rparr>) xs b'"
      using buf_write_ext [OF r(2), of xs] assms(3) r n True
      by (simp add: vtm_buf_puto_reserve xs_def)
    then show ?thesis
      using assms(3) r True by (auto simp: vtm_buf_puto_reserve buf_ext_def xs_def)
  next
    assume o: "buf_reserve ma b (of_nat (length src)) = b\<lparr>buf_err := VTM_E_OVERFLOW\<rparr>"
      "2 ^ 63 < unat (buf_len b) + unat (of_nat (length src) :: size_t)"
    have "rc = VTM_E_OVERFLOW \<and> b' = b\<lparr>buf_err := VTM_E_OVERFLOW\<rparr>"
      using assms(3) by (auto simp: vtm_buf_puto_reserve o)
    then show ?thesis using o(2) True n by simp
  qed (use assms(3) True in \<open>auto simp: vtm_buf_puto_reserve Let_def\<close>)
qed

text \<open>
  \<open>vtm_buf_puto\<close> on a well-formed buffer: a buffer already in error is left alone and its error
  returned; otherwise the bytes are appended in the byte order of the buffer, the invariant is kept
  and the read position does not move, or the call reports \<open>VTM_E_OVERFLOW\<close> and the contents are
  untouched, or it reports \<open>VTM_E_MALLOC\<close> and an allocation did fail.
\<close>

theorem buf_puto_spec:
  assumes "vtm_buf_inv b" and "length src < 2 ^ 64" and "vtm_buf_puto ma b src ord = (rc, b')"
  shows "rc = buf_err b' \<and>
    (if buf_err b \<noteq> VTM_OK then rc = buf_err b \<and> b' = b
     else case rc of
       VTM_OK \<Rightarrow> buf_ext b (if buf_order b = ord then src else rev src) b'
     | VTM_E_OVERFLOW \<Rightarrow> b' = b\<lparr>buf_err := VTM_E_OVERFLOW\<rparr>
         \<and> 2 ^ 63 < unat (buf_len b) + length src
     | VTM_E_MALLOC \<Rightarrow> \<exists>m. \<not> ma m
     | _ \<Rightarrow> False)"
  using buf_puto_spec_aux [OF assms] .

subsection \<open>Enough room for a whole message\<close>

text \<open>
  \<open>buf_room b n\<close>: \<open>n\<close> more bytes can be written, in any number of calls, provided the allocator
  satisfies every request. The bound of \<open>2 ^ 60\<close> bytes is far beyond any real buffer.
\<close>

definition buf_room :: "vtm_buf \<Rightarrow> nat \<Rightarrow> bool" where
  "buf_room b n \<longleftrightarrow>
     vtm_buf_inv b \<and> buf_err b = VTM_OK \<and> unat (buf_len b) \<le> 2 ^ 62
     \<and> unat (buf_used b) + n \<le> 2 ^ 60"

lemma buf_room_init: "n \<le> 2 ^ 60 \<Longrightarrow> buf_room (vtm_buf_init ord) n"
  by (simp add: buf_room_def) (simp add: vtm_buf_init_def VTM_BUF_SDATA_LEN_def)

lemma buf_room_mono: "buf_room b n \<Longrightarrow> m \<le> n \<Longrightarrow> buf_room b m"
  by (simp add: buf_room_def)

lemma buf_room_puto [buf_simps]:
  assumes room: "buf_room b (length src + n)" and ma: "\<forall>m. ma m"
  obtains b' where "vtm_buf_puto ma b src ord = (VTM_OK, b')"
    "buf_ext b (if buf_order b = ord then src else rev src) b'" "buf_room b' n"
proof -
  have inv: "vtm_buf_inv b" and ok: "buf_err b = VTM_OK" and len: "unat (buf_len b) \<le> 2 ^ 62"
    and used: "unat (buf_used b) + (length src + n) \<le> 2 ^ 60"
    using room by (auto simp: buf_room_def)
  have nl: "unat (of_nat (length src) :: size_t) = length src"
    using used by simp
  obtain l d where r: "buf_reserve ma b (of_nat (length src)) = b\<lparr>buf_len := l, buf_dyn := d\<rparr>"
      "unat l \<le> 2 ^ 62"
  proof (rule buf_reserve_cases [OF inv ok, of ma "of_nat (length src)"])
    fix l d
    assume "buf_reserve ma b (of_nat (length src)) = b\<lparr>buf_len := l, buf_dyn := d\<rparr>"
      "l = buf_len b \<or> unat l < 4 * (unat (buf_used b) + unat (of_nat (length src) :: size_t))"
    moreover from this(2) have "unat l \<le> 2 ^ 62" using len used nl by auto
    ultimately show thesis using that by blast
  qed (use ma len used nl in auto)
  obtain rc b' where p: "vtm_buf_puto ma b src ord = (rc, b')"
    by fastforce
  then have rc: "rc = VTM_OK" and l: "buf_len b' = l"
    using r ok by (auto simp: vtm_buf_puto_reserve)
  have ext: "buf_ext b (if buf_order b = ord then src else rev src) b'"
    using buf_puto_spec_aux [OF inv _ p] used ok rc by simp
  moreover have "unat (buf_used b') = unat (buf_used b) + length src"
    using ext vtm_buf_invD(1) [OF inv] vtm_buf_invD(1) [of b'] by (auto simp: buf_ext_def split: if_splits)
  ultimately have "buf_room b' n"
    using l r used by (auto simp: buf_room_def buf_ext_def)
  then show thesis using that p rc ext by simp
qed

lemma room_putm:
  assumes "buf_room b (length src + n)" and "\<forall>m. ma m"
  obtains b' where "vtm_buf_putm ma b src = (VTM_OK, b')" "buf_ext b src b'" "buf_room b' n"
  using buf_room_puto [OF assms, of "buf_order b"] by (auto simp: vtm_buf_putm_def)

subsection \<open>Reading, and the buffer as a byte queue\<close>

lemma vtm_buf_geto_ok [buf_simps]:
  assumes "vtm_buf_inv b" "unat n \<le> length (buf_unread b)"
  obtains b' where
    "vtm_buf_geto b n ord =
       Some (if buf_order b = ord then take (unat n) (buf_unread b)
             else rev (take (unat n) (buf_unread b)), b')"
    "b' = b\<lparr>buf_read := buf_read b + n\<rparr>" "vtm_buf_inv b'"
    "buf_unread b' = drop (unat n) (buf_unread b)"
proof -
  have r: "unat (buf_read b) + unat n \<le> unat (buf_used b)"
    using assms vtm_buf_invD [OF assms(1)] by (simp add: buf_unread_def)
  then have u: "unat (buf_read b + n) = unat (buf_read b) + unat n"
    using unat_less_2p [of "buf_used b"] by (intro unat_add_no_wrap) simp
  show thesis
  proof (rule that)
    show "vtm_buf_inv (b\<lparr>buf_read := buf_read b + n\<rparr>)"
      using assms(1) r u by (auto simp: vtm_buf_inv_def word_le_nat_alt)
    show "buf_unread (b\<lparr>buf_read := buf_read b + n\<rparr>) = drop (unat n) (buf_unread b)"
      by (simp add: buf_unread_def u) (simp add: add.commute)
  qed (use r vtm_buf_invD(1) [OF assms(1)] in \<open>simp_all add: vtm_buf_geto_def buf_unread_def Let_def\<close>)
qed

lemma vtm_buf_geto_short:
  "vtm_buf_inv b \<Longrightarrow> length (buf_unread b) < unat n \<Longrightarrow> vtm_buf_geto b n ord = None"
  by (auto simp: vtm_buf_geto_def buf_unread_def)

lemma vtm_buf_getc_ok:
  assumes "vtm_buf_inv b" "buf_unread b = c # cs"
  shows "VTM_BUF_GETC b = Some (c, b\<lparr>buf_read := buf_read b + 1\<rparr>)
         \<and> vtm_buf_inv (b\<lparr>buf_read := buf_read b + 1\<rparr>)
         \<and> buf_unread (b\<lparr>buf_read := buf_read b + 1\<rparr>) = cs"
proof -
  obtain b' where b': "b' = b\<lparr>buf_read := buf_read b + 1\<rparr>" "vtm_buf_inv b'" "buf_unread b' = cs"
    using vtm_buf_geto_ok [OF assms(1), of 1 "buf_order b"] assms(2) by auto
  have "unat (buf_read b) < length (buf_data b)"
    using assms(2) by (metis buf_unread_def drop_all leI list.distinct(1))
  moreover have "buf_data b ! unat (buf_read b) = c"
    using assms(2) calculation by (simp add: buf_unread_def Cons_nth_drop_Suc [symmetric])
  ultimately show ?thesis using b' by (simp add: VTM_BUF_GETC_def)
qed

lemma vtm_buf_discard_ok:
  assumes "vtm_buf_inv b"
  shows "vtm_buf_inv (vtm_buf_discard_processed b)
         \<and> buf_unread (vtm_buf_discard_processed b) = buf_unread b
         \<and> buf_data (vtm_buf_discard_processed b) = buf_unread b"
proof (cases "buf_read b = 0")
  case True
  then show ?thesis using assms by (simp add: vtm_buf_discard_processed_def buf_unread_def)
next
  case False
  have "unat (buf_used b - buf_read b) = unat (buf_used b) - unat (buf_read b)"
    using assms by (simp add: vtm_buf_inv_def unat_sub)
  moreover have "unat (buf_used b) - unat (buf_read b) \<le> unat (buf_len b)"
    using vtm_buf_invD [OF assms] by linarith
  ultimately show ?thesis
    using assms False
    by (simp add: vtm_buf_discard_processed_def buf_unread_def vtm_buf_inv_def word_le_nat_alt)
qed

lemma vtm_buf_mark_processed_ok:
  assumes "vtm_buf_inv b" "unat n \<le> length (buf_unread b)"
  shows "vtm_buf_mark_processed b n = (VTM_OK, b\<lparr>buf_read := buf_read b + n\<rparr>)"
proof -
  have "unat (buf_read b) + unat n < 2 ^ 64"
    using assms vtm_buf_invD [OF assms(1)] unat_less_2p [of "buf_used b"]
    by (simp add: buf_unread_def)
  then show ?thesis
    using size_add_exact_aux [of "buf_read b" n "buf_read b"]
    by (simp add: vtm_buf_mark_processed_def)
qed

text \<open>The operations a reader and a writer of a message use, as the operations of a byte queue.\<close>

definition buf_put :: "allocator \<Rightarrow> byte list \<Rightarrow> vtm_buf \<Rightarrow> vtm_buf option" where
  "buf_put ma bs b =
     (if length bs < 2 ^ 64
      then case vtm_buf_putm ma b bs of (rc, b') \<Rightarrow> (if rc = VTM_OK then Some b' else None)
      else None)"

definition buf_get :: "size_t \<Rightarrow> vtm_buf \<Rightarrow> (byte list \<times> vtm_buf) option" where
  "buf_get n b = (if VTM_BUF_GET_AVAIL b n then vtm_buf_getm b n else None)"

interpretation bq: byte_queue vtm_buf_inv buf_unread "buf_put ma" buf_get vtm_buf_discard_processed
  for ma
proof unfold_locales
  fix b bs b'
  assume "vtm_buf_inv b" "buf_put ma bs b = Some b'"
  then have len: "length bs < 2 ^ 64" and p: "vtm_buf_puto ma b bs (buf_order b) = (VTM_OK, b')"
    by (auto simp: buf_put_def vtm_buf_putm_def split: if_splits prod.splits)
  have "buf_err b = VTM_OK"
    using p vtm_buf_puto_sticky [of b ma bs "buf_order b"] by (cases "buf_err b = VTM_OK") auto
  then have "buf_ext b bs b'"
    using buf_puto_spec_aux [OF \<open>vtm_buf_inv b\<close> len p] by simp
  then show "vtm_buf_inv b' \<and> buf_unread b' = buf_unread b @ bs"
    using buf_ext_unread \<open>vtm_buf_inv b\<close> by (simp add: buf_ext_def)
next
  fix b and n :: size_t
  assume "vtm_buf_inv b" "unat n \<le> length (buf_unread b)"
  then show "\<exists>b'. buf_get n b = Some (take (unat n) (buf_unread b), b') \<and> vtm_buf_inv b'
           \<and> buf_unread b' = drop (unat n) (buf_unread b)"
    using get_avail_iff [of b n] vtm_buf_geto_ok [of b n "buf_order b"]
    by (simp add: buf_get_def vtm_buf_getm_def) metis
next
  fix b and n :: size_t
  assume "vtm_buf_inv b" "length (buf_unread b) < unat n"
  then show "buf_get n b = None" using get_avail_iff [of b n] by (simp add: buf_get_def)
next
  fix b
  assume "vtm_buf_inv b"
  then show "vtm_buf_inv (vtm_buf_discard_processed b)
    \<and> buf_unread (vtm_buf_discard_processed b) = buf_unread b"
    using vtm_buf_discard_ok by blast
qed

lemmas buf_eval_simps =
  buf_put_def buf_get_def vtm_buf_putm_def vtm_buf_puto_def vtm_buf_putc_def vtm_buf_puts_def
  vtm_buf_getm_def vtm_buf_geto_def vtm_buf_discard_processed_def vtm_buf_init_def
  VTM_BUF_PUT_AVAIL_def VTM_BUF_GET_AVAIL_def VTM_BUF_GETC_def VTM_BUF_SDATA_LEN_def Let_def
  alloc_all_def buf_unread_def

theorem buf_puto_spec_witness:
  "buf_ext (vtm_buf_init VTM_BYTEORDER_BE) [2, 1]
     (snd (vtm_buf_puto alloc_all (vtm_buf_init VTM_BYTEORDER_BE) [1, 2] VTM_BYTEORDER_LE))"
proof -
  have "vtm_buf_puto alloc_all (vtm_buf_init VTM_BYTEORDER_BE) [1, 2] VTM_BYTEORDER_LE =
    (VTM_OK, snd (vtm_buf_puto alloc_all (vtm_buf_init VTM_BYTEORDER_BE) [1, 2] VTM_BYTEORDER_LE))"
    by (simp add: buf_eval_simps)
  from buf_puto_spec [OF vtm_buf_init_inv _ this] show ?thesis by (simp add: vtm_buf_init_def)
qed

text \<open>
  C1. The buffer is a first-in-first-out byte queue: however writes, availability-checked reads and
  discards are interleaved, the bytes read followed by the bytes still unread are exactly the bytes
  written, in order; growing the memory, moving its contents and the allocator play no part.
\<close>

theorem buf_fifo:
  assumes "bq_run (buf_put ma) buf_get vtm_buf_discard_processed ops (vtm_buf_init ord) = Some (out, b)"
  shows "out @ buf_unread b = bq_written ops \<and> vtm_buf_inv b"
  using bq.run_fifo [OF vtm_buf_init_inv assms] by simp

theorem buf_fifo_witness:
  "[1, 2] @ buf_unread \<lparr>buf_order = VTM_BYTEORDER_LE, buf_dyn = False, buf_data = [3, 4],
      buf_len = 1024, buf_used = 2, buf_read = 0, buf_err = VTM_OK\<rparr> = [1, 2, 3, 4]"
proof -
  have "bq_run (buf_put alloc_all) buf_get vtm_buf_discard_processed
      [BPut [1, 2, 3], BGet 2, BDiscard, BPut [4]] (vtm_buf_init VTM_BYTEORDER_LE) =
    Some ([1, 2], \<lparr>buf_order = VTM_BYTEORDER_LE, buf_dyn = False, buf_data = [3, 4],
      buf_len = 1024, buf_used = 2, buf_read = 0, buf_err = VTM_OK\<rparr>)"
    by (simp add: buf_eval_simps)
  from buf_fifo [OF this] show ?thesis by simp
qed

subsection \<open>Integers on the wire\<close>

lemma vtm_sys_get_byteorder_host [simp]: "vtm_sys_get_byteorder host = host"
  by (cases host) (simp_all add: vtm_sys_get_byteorder_def mem_of_def)

text \<open>The bytes \<open>vtm_buf_puto\<close> stores for an integer object of a host are those of the buffer's order.\<close>

lemma wire_order:
  "(if bord = host then mem_of host w else rev (mem_of host w)) = mem_of bord w"
  using mem_of_other_order [of bord host w] by auto

text \<open>
  An integer that one host stores with \<open>vtm_buf_puto\<close> and another host, of either byte order,
  fetches with \<open>vtm_buf_geto\<close> from a buffer of either byte order arrives with the same value.
\<close>

theorem buf_int_transfer:
  fixes w :: "'a::len word"
  assumes "vtm_buf_inv b" "buf_unread b = []" "buf_err b = VTM_OK"
    and "8 dvd LENGTH('a)" "LENGTH('a) < 2 ^ 64"
    and "vtm_buf_puto ma b (mem_of (vtm_sys_get_byteorder h1) w) (vtm_sys_get_byteorder h1) = (VTM_OK, b1)"
  shows "\<exists>bs b2. vtm_buf_geto b1 (of_nat (LENGTH('a) div 8)) (vtm_sys_get_byteorder h2) = Some (bs, b2)
           \<and> mem_read h2 bs = w \<and> buf_unread b2 = []"
proof -
  have len: "length (mem_of h1 w) = LENGTH('a) div 8" "LENGTH('a) div 8 < 2 ^ 64"
    using assms(5) by simp_all
  then have ext: "buf_ext b (mem_of (buf_order b) w) b1"
    using buf_puto_spec_aux [OF assms(1) _ assms(6) [unfolded vtm_sys_get_byteorder_host]] assms(3)
    by (simp add: wire_order)
  have inv: "vtm_buf_inv b1" and ord: "buf_order b1 = buf_order b"
    and un: "buf_unread b1 = mem_of (buf_order b) w"
    using ext buf_ext_unread [OF assms(1) ext] assms(2) by (auto simp: buf_ext_def)
  have n: "unat (of_nat (LENGTH('a) div 8) :: size_t) = LENGTH('a) div 8"
    using len(2) by simp
  obtain b2 where g: "vtm_buf_geto b1 (of_nat (LENGTH('a) div 8)) h2 =
      Some (if buf_order b1 = h2 then mem_of (buf_order b) w else rev (mem_of (buf_order b) w), b2)"
    "buf_unread b2 = []"
    by (rule vtm_buf_geto_ok [OF inv, of "of_nat (LENGTH('a) div 8)" h2])
      (simp_all add: un n)
  moreover have "(if buf_order b1 = h2 then mem_of (buf_order b) w
      else rev (mem_of (buf_order b) w)) = mem_of h2 w"
    using mem_of_other_order [of h2 "buf_order b" w] ord by auto
  ultimately show ?thesis
    using mem_read_mem_of [OF assms(4), of h2 w] by (simp only: vtm_sys_get_byteorder_host) simp
qed

theorem buf_int_transfer_witness:
  "\<exists>bs b2. vtm_buf_geto (snd (vtm_buf_puto alloc_all (vtm_buf_init VTM_BYTEORDER_BE)
        (mem_of VTM_BYTEORDER_LE (0x1234 :: u16)) VTM_BYTEORDER_LE))
      (of_nat (LENGTH(16) div 8)) (vtm_sys_get_byteorder VTM_BYTEORDER_LE) = Some (bs, b2)
    \<and> mem_read VTM_BYTEORDER_LE bs = (0x1234 :: u16) \<and> buf_unread b2 = []"
proof -
  have "vtm_buf_puto alloc_all (vtm_buf_init VTM_BYTEORDER_BE)
      (mem_of (vtm_sys_get_byteorder VTM_BYTEORDER_LE) (0x1234 :: u16))
      (vtm_sys_get_byteorder VTM_BYTEORDER_LE) =
    (VTM_OK, snd (vtm_buf_puto alloc_all (vtm_buf_init VTM_BYTEORDER_BE)
        (mem_of VTM_BYTEORDER_LE (0x1234 :: u16)) VTM_BYTEORDER_LE))"
    by (simp add: buf_eval_simps mem_of_def)
  moreover have "buf_err (vtm_buf_init VTM_BYTEORDER_BE) = VTM_OK"
    by (simp add: vtm_buf_init_def)
  moreover have "8 dvd LENGTH(16)" "LENGTH(16) < 2 ^ 64" by simp_all
  ultimately show ?thesis
    using buf_int_transfer [OF vtm_buf_init_inv vtm_buf_init_unread, where ma = alloc_all
        and w = "0x1234 :: u16"] by blast
qed

end
