(* ===== verification/Reader.thy ===== *)
theory Reader
  imports Buffer
begin

text \<open>
  What the parsers share: the checks \<open>if (!VTM_BUF_GET_AVAIL (buf, n)) return ...\<close> and the reads from
  the buffer as combinators of parser steps, and why steps built from them can be resumed.
\<close>

definition need ::
    "size_t \<Rightarrow> ('s, vtm_buf) pstep \<Rightarrow> (vtm_buf \<Rightarrow> ('s, vtm_buf) pstep) \<Rightarrow> vtm_buf \<Rightarrow> ('s, vtm_buf) pstep" where
  "need n stop k b = (if \<not> VTM_BUF_GET_AVAIL b n then stop else k b)"

definition fetch ::
    "(vtm_buf \<Rightarrow> ('a \<times> vtm_buf) option) \<Rightarrow> ('a \<Rightarrow> vtm_buf \<Rightarrow> ('s, vtm_buf) pstep) \<Rightarrow> vtm_buf
     \<Rightarrow> ('s, vtm_buf) pstep" where
  "fetch get k b = (case get b of None \<Rightarrow> PFault | Some (x, b') \<Rightarrow> k x b')"

subsection \<open>Longer input\<close>

text \<open>A read that succeeds also succeeds, with the same result, when more bytes have arrived.\<close>

definition get_mono :: "(vtm_buf \<Rightarrow> ('a \<times> vtm_buf) option) \<Rightarrow> bool" where
  "get_mono get \<longleftrightarrow> (\<forall>b d c x b'. vtm_buf_inv b \<longrightarrow> buf_ext b d c \<longrightarrow> get b = Some (x, b') \<longrightarrow>
     vtm_buf_inv b' \<and> (\<exists>c'. buf_ext b' d c' \<and> get c = Some (x, c')))"

definition step_mono :: "(vtm_buf \<Rightarrow> ('s, vtm_buf) pstep) \<Rightarrow> bool" where
  "step_mono k \<longleftrightarrow> (\<forall>b d c s' b'. vtm_buf_inv b \<longrightarrow> buf_ext b d c \<longrightarrow> k b = PNext s' b' \<longrightarrow>
     (\<exists>c'. buf_ext b' d c' \<and> k c = PNext s' c'))"

named_theorems mono_intros \<open>steps that can be made on a longer input\<close>

lemma get_avail_ext: "vtm_buf_inv b \<Longrightarrow> buf_ext b d c \<Longrightarrow>
    VTM_BUF_GET_AVAIL b n \<Longrightarrow> VTM_BUF_GET_AVAIL c n"
proof -
  assume inv: "vtm_buf_inv b" and ext: "buf_ext b d c"
    and av: "VTM_BUF_GET_AVAIL b n"
  have "unat (buf_used b) \<le> unat (buf_used c)"
    using ext vtm_buf_invD(1) [of c] vtm_buf_invD(1) [OF inv] by (simp add: buf_ext_def)
  then show ?thesis using av ext
    by (auto simp: VTM_BUF_GET_AVAIL_def buf_ext_def word_le_nat_alt)
qed

lemma get_mono_geto [mono_intros]: "get_mono (\<lambda>b. vtm_buf_geto b n ord)"
  unfolding get_mono_def
proof (intro allI impI)
  fix b d c x b'
  assume inv: "vtm_buf_inv b" and ext: "buf_ext b d c" and get: "vtm_buf_geto b n ord = Some (x, b')"
  then have le: "unat (buf_read b) + unat n \<le> length (buf_data b)"
    and b': "b' = b\<lparr>buf_read := buf_read b + n\<rparr>"
    and x: "x = (let src = take (unat n) (buf_unread b) in if buf_order b = ord then src else rev src)"
    by (auto simp: vtm_buf_geto_def buf_unread_def Let_def split: if_splits)
  have c: "vtm_buf_inv c" "buf_data c = buf_data b @ d" "buf_read c = buf_read b"
    "buf_order c = buf_order b" "buf_err c = VTM_OK" using ext by (auto simp: buf_ext_def)
  then have un: "buf_unread c = buf_unread b @ d" using le by (simp add: buf_unread_def)
  have len: "unat n \<le> length (buf_unread b)" using le by (simp add: buf_unread_def)
  then have "unat n \<le> length (buf_unread c)" by (simp add: un)
  from vtm_buf_geto_ok [OF c(1) this, of ord] obtain c' where
    c': "vtm_buf_geto c n ord = Some (if buf_order c = ord then take (unat n) (buf_unread c)
         else rev (take (unat n) (buf_unread c)), c')"
    "c' = c\<lparr>buf_read := buf_read c + n\<rparr>" "vtm_buf_inv c'" by blast
  moreover have "buf_ext b' d c'" using c'(2, 3) c b' by (simp add: buf_ext_def)
  moreover have "x = (if buf_order c = ord then take (unat n) (buf_unread c)
      else rev (take (unat n) (buf_unread c)))" using x len by (simp add: un c(4) Let_def)
  moreover have "vtm_buf_inv b'" using vtm_buf_geto_ok [OF inv len, of ord] b' by metis
  ultimately show "vtm_buf_inv b' \<and> (\<exists>c'. buf_ext b' d c' \<and> vtm_buf_geto c n ord = Some (x, c'))" by blast
qed

lemma get_mono_getm [mono_intros]: "get_mono (\<lambda>b. vtm_buf_getm b n)"
proof -
  have "vtm_buf_inv b' \<and> (\<exists>c'. buf_ext b' d c' \<and> vtm_buf_getm c n = Some (x, c'))"
    if "vtm_buf_inv b" "buf_ext b d c" "vtm_buf_getm b n = Some (x, b')" for b d c x b'
  proof -
    have "buf_order c = buf_order b" using that by (simp add: buf_ext_def)
    then show ?thesis using that get_mono_geto [of n "buf_order b", unfolded get_mono_def]
      by (simp add: vtm_buf_getm_def)
  qed
  then show ?thesis unfolding get_mono_def by blast
qed

lemma getc_geto: "VTM_BUF_GETC b = map_option (\<lambda>(bs, b'). (hd bs, b')) (vtm_buf_geto b 1 (buf_order b))"
  by (auto simp: VTM_BUF_GETC_def vtm_buf_geto_def Let_def hd_drop_conv_nth take_Suc)

lemma get_mono_getc [mono_intros]: "get_mono VTM_BUF_GETC"
proof -
  have "vtm_buf_inv b' \<and> (\<exists>c'. buf_ext b' d c' \<and> VTM_BUF_GETC c = Some (x, c'))"
    if inv: "vtm_buf_inv b" and ext: "buf_ext b d c" and get: "VTM_BUF_GETC b = Some (x, b')" for b d c x b'
  proof -
    obtain bs where bs: "vtm_buf_geto b 1 (buf_order b) = Some (bs, b')" "x = hd bs"
      using get by (auto simp: getc_geto)
    moreover have "buf_order c = buf_order b" using ext by (simp add: buf_ext_def)
    ultimately show ?thesis
      using get_mono_geto [of 1 "buf_order b", unfolded get_mono_def] inv ext by (fastforce simp: getc_geto)
  qed
  then show ?thesis unfolding get_mono_def by blast
qed

lemma step_mono_next [mono_intros]: "step_mono (\<lambda>b. PNext s b)"
  by (auto simp: step_mono_def)

lemma step_mono_stop [mono_intros]: "step_mono (PStop st s)" "step_mono (\<lambda>b. PFault)"
  by (simp_all add: step_mono_def)

lemma step_mono_fetch [mono_intros]:
  assumes "get_mono get" and "\<And>x. step_mono (k x)"
  shows "step_mono (fetch get k)"
  unfolding step_mono_def
proof (intro allI impI)
  fix b d c s' b'
  assume "vtm_buf_inv b" and "buf_ext b d c" and "fetch get k b = PNext s' b'"
  moreover from this obtain x b1 where "get b = Some (x, b1)" "k x b1 = PNext s' b'"
    by (auto simp: fetch_def split: option.splits)
  ultimately show "\<exists>c'. buf_ext b' d c' \<and> fetch get k c = PNext s' c'"
    using assms unfolding get_mono_def step_mono_def fetch_def by fastforce
qed

lemma step_mono_need [mono_intros]: "step_mono k \<Longrightarrow> (\<And>s' b'. stop \<noteq> PNext s' b') \<Longrightarrow> step_mono (need n stop k)"
  unfolding step_mono_def need_def by (fastforce split: if_splits dest: get_avail_ext)

lemma step_mono_if [mono_intros]:
  "step_mono k \<Longrightarrow> step_mono k' \<Longrightarrow> step_mono (if P then k else k')"
  by (cases P) simp_all

lemma step_mono_at [mono_intros]: "step_mono (\<lambda>b. PNext (f (buf_read b)) b)"
  by (auto simp: step_mono_def buf_ext_def)

lemma step_mono_option [mono_intros]:
  "step_mono k \<Longrightarrow> (\<And>x. step_mono (f x)) \<Longrightarrow> step_mono (case r of None \<Rightarrow> k | Some x \<Rightarrow> f x)"
  by (cases r) simp_all

lemma step_mono_discard [mono_intros]: "step_mono (\<lambda>b. PNext s (vtm_buf_discard_processed b))"
  unfolding step_mono_def
proof (intro allI impI)
  fix b d c s' b'
  assume inv: "vtm_buf_inv b" and ext: "buf_ext b d c"
    and b': "PNext s (vtm_buf_discard_processed b) = PNext s' b'"
  note c = vtm_buf_discard_ok [of c] and un = buf_ext_unread [OF inv ext]
  have "buf_ext (vtm_buf_discard_processed b) d (vtm_buf_discard_processed c)"
    using ext vtm_buf_discard_ok [OF inv] c un by (auto simp: buf_ext_def vtm_buf_discard_processed_def)
  then show "\<exists>c'. buf_ext b' d c' \<and> PNext s (vtm_buf_discard_processed c) = PNext s' c'" using b' by auto
qed

subsection \<open>Progress\<close>

definition buf_adv :: "size_t \<Rightarrow> vtm_buf \<Rightarrow> vtm_buf" where
  "buf_adv n b = b\<lparr>buf_read := buf_read b + n\<rparr>"

lemma buf_adv_simps [simp]: "buf_order (buf_adv n b) = buf_order b" "buf_err (buf_adv n b) = buf_err b"
  by (simp_all add: buf_adv_def)

lemma buf_adv_adv: "buf_adv m (buf_adv n b) = buf_adv (n + m) b"
  by (simp add: buf_adv_def add.assoc)

lemma buf_adv_ok:
  assumes "vtm_buf_inv b" and "unat n \<le> length (buf_unread b)"
  shows "vtm_buf_inv (buf_adv n b)" and "buf_unread (buf_adv n b) = drop (unat n) (buf_unread b)"
  by (rule vtm_buf_geto_ok [OF assms, of "buf_order b"], simp add: buf_adv_def)+

lemma need_eq:
  "vtm_buf_inv b \<Longrightarrow> need n stop k b = (if unat n \<le> length (buf_unread b) then k b else stop)"
  by (simp add: need_def get_avail_iff)

text \<open>What a reader on a host of byte order \<open>ord\<close> gets from the next \<open>n\<close> bytes.\<close>

definition buf_front :: "vtm_byteorder \<Rightarrow> size_t \<Rightarrow> vtm_buf \<Rightarrow> byte list" where
  "buf_front ord n b =
     (if buf_order b = ord then take (unat n) (buf_unread b) else rev (take (unat n) (buf_unread b)))"

lemma buf_front_mem:
  fixes w :: "'a::len word"
  assumes "buf_unread b = mem_of (buf_order b) w @ rest" and "unat n = LENGTH('a) div 8"
    and "8 dvd LENGTH('a)"
  shows "mem_read ord (buf_front ord n b) = w"
proof -
  have "buf_front ord n b = mem_of ord w"
    using assms(1, 2) mem_of_other_order [of ord "buf_order b" w] by (auto simp: buf_front_def)
  then show ?thesis by (simp add: mem_read_mem_of assms(3))
qed

lemma fetch_eq:
  assumes "vtm_buf_inv b" and "unat n \<le> length (buf_unread b)"
  shows "fetch (\<lambda>b. vtm_buf_geto b n ord) k b = k (buf_front ord n b) (buf_adv n b)"
    and "fetch (\<lambda>b. vtm_buf_getm b n) k' b = k' (take (unat n) (buf_unread b)) (buf_adv n b)"
proof -
  have "vtm_buf_geto b n ord = Some (buf_front ord n b, buf_adv n b)" for ord
    by (rule vtm_buf_geto_ok [OF assms, of ord]) (simp add: buf_adv_def buf_front_def)
  then show "fetch (\<lambda>b. vtm_buf_geto b n ord) k b = k (buf_front ord n b) (buf_adv n b)"
    "fetch (\<lambda>b. vtm_buf_getm b n) k' b = k' (take (unat n) (buf_unread b)) (buf_adv n b)"
    by (simp_all add: fetch_def vtm_buf_getm_def buf_front_def)
qed

lemma fetch_getc_eq:
  assumes "vtm_buf_inv b" and "buf_unread b \<noteq> []"
  shows "fetch VTM_BUF_GETC k b = k (hd (buf_unread b)) (buf_adv 1 b)"
proof -
  obtain c cs where "buf_unread b = c # cs" using assms(2) by (cases "buf_unread b") auto
  then show ?thesis using vtm_buf_getc_ok [OF assms(1)] by (simp add: fetch_def buf_adv_def)
qed

lemma need_fetch_eq:
  assumes "vtm_buf_inv b"
  shows "need n stop (fetch (\<lambda>b. vtm_buf_geto b n ord) k) b =
      (if unat n \<le> length (buf_unread b) then k (buf_front ord n b) (buf_adv n b) else stop)"
    and "need n stop (fetch (\<lambda>b. vtm_buf_getm b n) k) b =
      (if unat n \<le> length (buf_unread b) then k (take (unat n) (buf_unread b)) (buf_adv n b) else stop)"
    and "need 1 stop (fetch VTM_BUF_GETC k') b =
      (if Suc 0 \<le> length (buf_unread b) then k' (hd (buf_unread b)) (buf_adv 1 b) else stop)"
proof -
  have "buf_unread b \<noteq> []" if "Suc 0 \<le> length (buf_unread b)" using that by auto
  then show "need 1 stop (fetch VTM_BUF_GETC k') b =
      (if Suc 0 \<le> length (buf_unread b) then k' (hd (buf_unread b)) (buf_adv 1 b) else stop)"
    using assms by (simp add: need_eq fetch_getc_eq)
qed (use assms in \<open>simp_all add: need_eq fetch_eq\<close>)

text \<open>A round that first asks for bytes and then goes on in a way that can be resumed.\<close>

lemma need_ext:
  assumes "vtm_buf_inv b" and "buf_ext b d c" and "step_mono k"
    and "need n (PStop st s x) k b = PNext s' b'"
  shows "\<exists>c'. buf_ext b' d c' \<and> need n (PStop st s y) k c = PNext s' c'"
  using assms get_avail_ext [OF assms(1, 2), of n]
  by (fastforce simp: need_def step_mono_def split: if_splits)

end
