(* ===== verification/Cstring.thy ===== *)
theory Cstring
  imports Mathx
begin

text \<open>
  \<open>core/string.c\<close>, and the functions of the C library it builds on, in the "C" locale. Strings hold no
  NUL; pointers into a string are the rest of it. Allocations succeed: where they do not, the library
  aborts the program (\<open>vtm_err_oom\<close>).
\<close>

subsection \<open>C library\<close>

definition c_isspace :: "byte \<Rightarrow> bool" where
  "c_isspace c \<longleftrightarrow> c = 32 \<or> (9 \<le> c \<and> c \<le> 13)"

definition c_isdigit :: "byte \<Rightarrow> bool" where
  "c_isdigit c \<longleftrightarrow> 48 \<le> c \<and> c \<le> 57"

definition c_tolower :: "byte \<Rightarrow> byte" where
  "c_tolower c = (if 65 \<le> c \<and> c \<le> 90 then c + 32 else c)"

text \<open>A \<open>char\<close> read at the end of the string is the terminating NUL.\<close>

definition c_hd :: "cstr \<Rightarrow> byte" where
  "c_hd s = (case s of [] \<Rightarrow> 0 | c # _ \<Rightarrow> c)"

text \<open>\<open>strtok_r\<close>: the token and the saved rest; the delimiter string is a set of characters.\<close>

definition c_strtok_r :: "cstr \<Rightarrow> cstr \<Rightarrow> (cstr \<times> cstr) option" where
  "c_strtok_r s delim =
     (let r = dropWhile (\<lambda>c. c \<in> set delim) s
      in if r = [] then None
         else Some (takeWhile (\<lambda>c. c \<notin> set delim) r,
                    drop 1 (dropWhile (\<lambda>c. c \<notin> set delim) r)))"

text \<open>\<open>strtoll (in, NULL, 10)\<close> and \<open>strtoull (in, NULL, 10)\<close>, saturating at the limits of the type.\<close>

definition c_digits :: "cstr \<Rightarrow> nat" where
  "c_digits s = foldl (\<lambda>a c. 10 * a + (unat c - 48)) 0 (takeWhile c_isdigit s)"

definition c_strtoll :: "cstr \<Rightarrow> u64" where
  "c_strtoll s =
     (let r = dropWhile c_isspace s;
          neg = (c_hd r = 45);
          ds = (if c_hd r = 45 \<or> c_hd r = 43 then tl r else r);
          n = int (c_digits ds);
          v = (if neg then - n else n)
      in word_of_int (max (- (2 ^ 63)) (min (2 ^ 63 - 1) v)))"

definition c_strtoull :: "cstr \<Rightarrow> u64" where
  "c_strtoull s =
     (let r = dropWhile c_isspace s;
          neg = (c_hd r = 45);
          ds = (if c_hd r = 45 \<or> c_hd r = 43 then tl r else r);
          n = int (c_digits ds)
      in if n > 2 ^ 64 - 1 then - 1
         else if neg then word_of_int (- n) else word_of_int n)"

subsection \<open>Copying and comparing\<close>

definition vtm_str_copy :: "cstr \<Rightarrow> cstr" where
  "vtm_str_copy s = s"

text \<open>The source must hold \<open>len\<close> bytes; the copy is read as a string, so it ends at a NUL.\<close>

definition vtm_str_ncopy :: "byte list \<Rightarrow> size_t \<Rightarrow> byte list option" where
  "vtm_str_ncopy mem len = (if unat len \<le> length mem then Some (take (unat len) mem) else None)"

fun vtm_str_casecmp :: "cstr \<Rightarrow> cstr \<Rightarrow> int" where
  "vtm_str_casecmp s1 s2 =
     (let c1 = c_hd s1; c2 = c_hd s2
      in if c_tolower c1 = c_tolower c2 \<and> \<not> (c1 = 0 \<or> c2 = 0) \<and> s1 \<noteq> []
         then vtm_str_casecmp (tl s1) (tl s2)
         else sint (c_tolower c1) - sint (c_tolower c2))"

definition vtm_str_starts_with :: "cstr \<Rightarrow> cstr \<Rightarrow> bool" where
  "vtm_str_starts_with s start \<longleftrightarrow> take (length start) s = start"

subsection \<open>Splitting\<close>

text \<open>
  The replacement for \<open>strtok_r\<close> on platforms without it: it steps over as many bytes as the
  delimiter string has, where one delimiter character was found. \<open>None\<close> in the second component
  stands for a saved pointer behind the end of the string.
\<close>

definition vtm_strtok_r_self :: "cstr \<Rightarrow> cstr \<Rightarrow> (cstr \<times> cstr option) option" where
  "vtm_strtok_r_self s delim =
     (let r = dropWhile (\<lambda>c. c \<in> set delim) s
      in if r = [] then None
         else
           let tok = takeWhile (\<lambda>c. c \<notin> set delim) r;
               len = length tok
           in if len < length r
              then Some (tok, if len + length delim \<le> length r
                              then Some (drop (len + length delim) r) else None)
              else Some (tok, Some []))"

lemma c_strtok_r_shorter:
  "c_strtok_r s delim = Some (tok, save) \<Longrightarrow> length save < length s"
proof -
  assume "c_strtok_r s delim = Some (tok, save)"
  then have ne: "dropWhile (\<lambda>c. c \<in> set delim) s \<noteq> []"
    and save: "save = drop 1 (dropWhile (\<lambda>c. c \<notin> set delim) (dropWhile (\<lambda>c. c \<in> set delim) s))"
    by (auto simp: c_strtok_r_def Let_def split: if_splits)
  define r where "r = dropWhile (\<lambda>c. c \<in> set delim) s"
  have "length (dropWhile (\<lambda>c. c \<notin> set delim) r) \<le> length r"
    "length r \<le> length s" "r \<noteq> []"
    using ne by (simp_all add: r_def length_dropWhile_le)
  then show ?thesis by (cases r) (auto simp: save r_def [symmetric] length_drop)
qed

function str_split_loop :: "cstr \<Rightarrow> cstr \<Rightarrow> nat \<Rightarrow> u32 \<Rightarrow> cstr list" where
  "str_split_loop s delim count tokens =
     (case c_strtok_r s delim of
        None \<Rightarrow> []
      | Some (tok, save) \<Rightarrow>
          vtm_str_copy tok #
          str_split_loop save
            (if count > 0 \<and> unat (tokens + 1) = count then [] else delim) count (tokens + 1))"
  by pat_completeness auto
termination
  by (relation "measure (\<lambda>(s, delim, count, tokens). length s)")
    (auto dest: c_strtok_r_shorter)

definition vtm_str_split :: "cstr \<Rightarrow> cstr \<Rightarrow> u32 \<Rightarrow> cstr list" where
  "vtm_str_split s delim count = str_split_loop s delim (unat count) 0"

text \<open>
  The token after leading white space was skipped and every white space replaced by NUL: the string
  it now is, and whether \<open>end != tok\<close> holds.
\<close>

definition str_first_word :: "cstr \<Rightarrow> cstr" where
  "str_first_word tok = takeWhile (\<lambda>c. \<not> c_isspace c) (dropWhile c_isspace tok)"

text \<open>The inner loop of \<open>vtm_str_pattern_count\<close>: how many pattern characters matched, and the rest.\<close>

fun pattern_match :: "cstr \<Rightarrow> cstr \<Rightarrow> nat \<Rightarrow> nat \<times> cstr" where
  "pattern_match [] s i = (i, s)"
| "pattern_match (p # ps) [] i = (i, [])"
| "pattern_match (p # ps) (c # s) i = (if c \<noteq> p then (i, s) else pattern_match ps s (i + 1))"

lemma pattern_match_length: "length (snd (pattern_match ps s i)) \<le> length s"
  by (induction ps s i rule: pattern_match.induct) auto

text \<open>With an empty pattern and a non-empty input the loop never moves on: \<open>None\<close>.\<close>

partial_function (option) vtm_str_pattern_count_loop :: "cstr \<Rightarrow> cstr \<Rightarrow> nat \<Rightarrow> nat option" where
  "vtm_str_pattern_count_loop s pattern result =
     (if s = [] then Some result
      else
        let (i, s') = pattern_match pattern s 0
        in vtm_str_pattern_count_loop s' pattern
             (if i = length pattern then result + 1 else result))"

definition vtm_str_pattern_count :: "cstr \<Rightarrow> cstr \<Rightarrow> nat option" where
  "vtm_str_pattern_count s pattern = vtm_str_pattern_count_loop s pattern 0"

function str_split_ex_loop :: "cstr \<Rightarrow> cstr \<Rightarrow> cstr list" where
  "str_split_ex_loop s delim =
     (case c_strtok_r s delim of
        None \<Rightarrow> []
      | Some (tok, save) \<Rightarrow>
          (if dropWhile c_isspace tok \<noteq> [] then [vtm_str_copy (str_first_word tok)] else [])
          @ str_split_ex_loop save delim)"
  by pat_completeness auto
termination
  by (relation "measure (\<lambda>(s, delim). length s)") (auto dest: c_strtok_r_shorter)

text \<open>
  The tokens are stored in an array sized by \<open>vtm_str_pattern_count\<close>: \<open>None\<close> when the size is never
  found or a token is written behind the array's end.
\<close>

definition vtm_str_split_ex :: "cstr \<Rightarrow> cstr \<Rightarrow> cstr list option" where
  "vtm_str_split_ex s delim =
     (case vtm_str_pattern_count s delim of
        None \<Rightarrow> None
      | Some n \<Rightarrow>
          let toks = str_split_ex_loop s delim
          in if length toks \<le> n + 1 then Some toks else None)"

function str_list_contains_loop :: "cstr \<Rightarrow> cstr \<Rightarrow> cstr \<Rightarrow> bool \<Rightarrow> bool" where
  "str_list_contains_loop s delim search nocase =
     (case c_strtok_r s delim of
        None \<Rightarrow> False
      | Some (tok, save) \<Rightarrow>
          if (nocase \<and> vtm_str_casecmp search (str_first_word tok) = 0)
             \<or> (\<not> nocase \<and> search = str_first_word tok)
          then True else str_list_contains_loop save delim search nocase)"
  by pat_completeness auto
termination
  by (relation "measure (\<lambda>(s, delim, search, nocase). length s)") (auto dest: c_strtok_r_shorter)

definition vtm_str_list_contains :: "cstr \<Rightarrow> cstr \<Rightarrow> cstr \<Rightarrow> bool \<Rightarrow> bool" where
  "vtm_str_list_contains s delim search nocase = str_list_contains_loop s delim search nocase"

declare vtm_str_casecmp.simps [simp del] str_split_loop.simps [simp del]
  str_split_ex_loop.simps [simp del] str_list_contains_loop.simps [simp del]

subsection \<open>Trimming and searching\<close>

text \<open>
  The second loop of \<open>vtm_str_trim\<close>: the end is one past the last character that is not white
  space; \<open>i\<close> and \<open>e\<close> are the positions of \<open>act\<close> and \<open>end\<close> relative to \<open>begin\<close>.
\<close>

fun trim_end :: "cstr \<Rightarrow> nat \<Rightarrow> nat \<Rightarrow> nat" where
  "trim_end [] i e = e"
| "trim_end (c # s) i e = trim_end s (i + 1) (if \<not> c_isspace c then i + 1 else e)"

text \<open>
  When the string is all white space, \<open>begin\<close> is still its start and \<open>end\<close> its end, so nothing is
  cut.
\<close>

definition vtm_str_trim :: "cstr \<Rightarrow> cstr" where
  "vtm_str_trim s =
     (let act = dropWhile c_isspace s
      in if act = [] then s else take (trim_end act 0 0) act)"

fun str_index_of_loop :: "cstr \<Rightarrow> byte \<Rightarrow> nat \<Rightarrow> nat \<Rightarrow> int" where
  "str_index_of_loop [] c i len = - 1"
| "str_index_of_loop (x # s) c i len =
     (if i < len then (if x = c then int i else str_index_of_loop s c (i + 1) len) else - 1)"

definition vtm_str_index_of :: "cstr \<Rightarrow> byte \<Rightarrow> size_t \<Rightarrow> int" where
  "vtm_str_index_of s c len =
     (if len > 0x7fffffffffffffff then - 2 else str_index_of_loop s c 0 (unat len))"

fun vtm_str_index_chars :: "byte list \<Rightarrow> byte list \<Rightarrow> nat \<Rightarrow> (nat \<times> byte) option" where
  "vtm_str_index_chars [] chars i = None"
| "vtm_str_index_chars (c # mem) chars i =
     (if c \<in> set chars then Some (i, c) else vtm_str_index_chars mem chars (i + 1))"

text \<open>
  The character at a position; the terminating NUL can still be read, anything behind it is outside
  the string (\<open>None\<close>).
\<close>

definition c_char_at :: "cstr \<Rightarrow> nat \<Rightarrow> byte option" where
  "c_char_at s i = (if i < length s then Some (s ! i) else if i = length s then Some 0 else None)"

text \<open>The inner loop of \<open>vtm_str_index_pattern\<close>.\<close>

fun pattern_at :: "cstr \<Rightarrow> byte list \<Rightarrow> nat \<Rightarrow> bool" where
  "pattern_at s [] i \<longleftrightarrow> True"
| "pattern_at s (p # ps) i \<longleftrightarrow> (if s ! i \<noteq> p then False else pattern_at s ps (i + 1))"

function str_index_pattern_loop :: "cstr \<Rightarrow> byte list \<Rightarrow> nat \<Rightarrow> nat \<Rightarrow> nat \<Rightarrow> int option" where
  "str_index_pattern_loop s pattern input_len begin i =
     (case c_char_at s i of
        None \<Rightarrow> None
      | Some c \<Rightarrow>
          if c = 0 \<or> \<not> i < input_len then Some (- 1)
          else if pattern_at s pattern (i - begin) then Some (int (i - begin))
          else str_index_pattern_loop s pattern input_len begin (i + 1))"
  by pat_completeness auto
termination
  by (relation "measure (\<lambda>(s, pattern, input_len, begin, i). input_len - i)") auto

definition vtm_str_index_pattern :: "cstr \<Rightarrow> byte list \<Rightarrow> size_t \<Rightarrow> int option" where
  "vtm_str_index_pattern s pattern input_len =
     (if input_len > 0x7fffffffffffffff then Some (- 2)
      else
        let begin = unat (of_nat (length pattern) - 1 :: size_t)
        in str_index_pattern_loop s pattern (unat input_len) begin begin)"

declare str_index_pattern_loop.simps [simp del]

subsection \<open>Formatted printing\<close>

text \<open>
  The loop of \<open>vtm_str_vprintf\<close>: the buffer is doubled until \<open>vsnprintf\<close>, whose result is the length
  \<open>needed\<close> of the whole output, needs less than the buffer has. The value is the final size, 0 when
  the doubling overflowed and \<open>NULL\<close> is returned; \<open>None\<close> when the loop never ends.
\<close>

partial_function (option) str_vprintf_loop :: "size_t \<Rightarrow> nat \<Rightarrow> size_t option" where
  "str_vprintf_loop last_size needed =
     (let (rc, sz) = vtm_math_size_mul last_size 2 last_size
      in if rc \<noteq> VTM_OK then Some 0
         else if needed \<ge> unat sz then str_vprintf_loop sz needed
         else Some sz)"

definition vtm_str_vprintf :: "cstr \<Rightarrow> cstr \<Rightarrow> cstr option option" where
  "vtm_str_vprintf fmt out =
     (case str_vprintf_loop (of_nat (length fmt)) (length out) of
        None \<Rightarrow> None
      | Some sz \<Rightarrow> Some (if sz = 0 then None else Some out))"

subsection \<open>Properties\<close>

definition no_nul :: "cstr \<Rightarrow> bool" where
  "no_nul s \<longleftrightarrow> 0 \<notin> set s"

lemma no_nul_simps [simp]:
  "no_nul []" "no_nul (c # s) \<longleftrightarrow> c \<noteq> 0 \<and> no_nul s" "no_nul (s @ t) \<longleftrightarrow> no_nul s \<and> no_nul t"
  by (auto simp: no_nul_def)

lemma c_tolower_zero_iff [simp]: "c_tolower c = 0 \<longleftrightarrow> c = 0"
proof
  assume "c_tolower c = 0"
  then show "c = 0"
  proof (cases "65 \<le> c \<and> c \<le> 90")
    case True
    then have "65 \<le> unat c" "unat c \<le> 90" by (simp_all add: word_le_nat_alt)
    then have "unat (c + 32) = unat c + 32" by (simp add: unat_word_ariths)
    moreover have "c + 32 = 0" using True \<open>c_tolower c = 0\<close> by (simp add: c_tolower_def)
    ultimately show ?thesis by simp
  qed (simp add: c_tolower_def)
qed (simp add: c_tolower_def)

lemma casecmp_simps [simp]:
  "vtm_str_casecmp [] [] = 0"
  "vtm_str_casecmp [] (c # s) = - sint (c_tolower c)"
  "vtm_str_casecmp (c # s) [] = sint (c_tolower c)"
  "vtm_str_casecmp (a # s) (b # t) =
     (if c_tolower a = c_tolower b \<and> a \<noteq> 0 \<and> b \<noteq> 0 then vtm_str_casecmp s t
      else sint (c_tolower a) - sint (c_tolower b))"
  by (subst vtm_str_casecmp.simps, auto simp: c_hd_def c_tolower_def)+

lemma sint_eq_iff: "sint (a :: byte) = sint b \<longleftrightarrow> a = b"
  using signed_word_eqI [of a b] by auto

lemma casecmp_zero_iff:
  "no_nul s1 \<Longrightarrow> no_nul s2 \<Longrightarrow>
     vtm_str_casecmp s1 s2 = 0 \<longleftrightarrow> map c_tolower s1 = map c_tolower s2"
proof (induction s1 arbitrary: s2)
  case Nil
  then show ?case by (cases s2) (auto simp: signed_eq_0_iff)
next
  case (Cons c s1)
  then show ?case by (cases s2) (auto simp: signed_eq_0_iff sint_eq_iff)
qed

text \<open>\<open>vtm_str_starts_with\<close> is the prefix relation.\<close>

lemma starts_with_iff: "vtm_str_starts_with s start \<longleftrightarrow> (\<exists>r. s = start @ r)"
  by (auto simp: vtm_str_starts_with_def) (metis append_take_drop_id)

text \<open>Counting a pattern of one character is counting the character.\<close>

lemma pattern_count_loop_single:
  "vtm_str_pattern_count_loop s [d] n = Some (n + count_list s d)"
proof (induction s arbitrary: n)
  case Nil
  then show ?case by (simp add: vtm_str_pattern_count_loop.simps)
next
  case (Cons c s)
  then show ?case by (subst vtm_str_pattern_count_loop.simps) simp
qed

lemma count_list_dropWhile_le: "count_list (dropWhile P xs) d \<le> count_list xs d"
  by (induction xs) auto

lemma strtok_single_count:
  assumes "c_strtok_r s [d] = Some (tok, save)"
  shows "save = [] \<or> Suc (count_list save d) \<le> count_list s d"
proof -
  define r where "r = dropWhile (\<lambda>c. c \<in> set [d]) s"
  define t where "t = dropWhile (\<lambda>c. c \<notin> set [d]) r"
  have save: "save = drop 1 t"
    using assms by (auto simp: c_strtok_r_def Let_def r_def t_def split: if_splits)
  have "count_list t d \<le> count_list s d"
    unfolding t_def r_def
    by (rule order_trans [OF count_list_dropWhile_le count_list_dropWhile_le])
  moreover have "t = [] \<or> (\<exists>u. t = d # u)"
    unfolding t_def
    by (cases "dropWhile (\<lambda>c. c \<notin> set [d]) r") (auto simp: dropWhile_eq_Cons_conv)
  ultimately show ?thesis by (auto simp: save)
qed

lemma split_ex_loop_length:
  "s = [] \<and> str_split_ex_loop s [d] = [] \<or> length (str_split_ex_loop s [d]) \<le> Suc (count_list s d)"
proof (induction s "[d]" rule: str_split_ex_loop.induct)
  case (1 s)
  show ?case
  proof (cases "c_strtok_r s [d]")
    case None
    then show ?thesis by (simp add: str_split_ex_loop.simps [of s])
  next
    case (Some p)
    then obtain tok save where p: "c_strtok_r s [d] = Some (tok, save)" by (cases p) auto
    have "save = [] \<or> Suc (count_list save d) \<le> count_list s d"
      using p by (rule strtok_single_count)
    then show ?thesis
      using 1 [OF p refl] p
      by (auto simp: str_split_ex_loop.simps [of s] str_split_ex_loop.simps [of "[]"] c_strtok_r_def)
  qed
qed

text \<open>
  C32. Splitting at a single delimiter character never writes behind the token array
  \<open>vtm_str_split_ex\<close> allocates, and always returns.
\<close>

theorem split_ex_single_delim_in_bounds:
  "vtm_str_split_ex s [d] = Some (str_split_ex_loop s [d])"
  using split_ex_loop_length [of s d]
  by (auto simp: vtm_str_split_ex_def vtm_str_pattern_count_def pattern_count_loop_single Let_def)

text \<open>
  With two delimiter characters the array is sized by the occurrences of the whole delimiter
  string while the tokens are cut at each of its characters: splitting \<open>a,b;c\<close> at \<open>,;\<close> allocates
  one slot and stores three tokens, behind the end of the array.
\<close>

theorem split_ex_two_delims_overflow:
  "vtm_str_pattern_count (bytes_of ''a,b;c'') (bytes_of '',;'') = Some 0
   \<and> str_split_ex_loop (bytes_of ''a,b;c'') (bytes_of '',;'') =
       [bytes_of ''a'', bytes_of ''b'', bytes_of ''c'']
   \<and> vtm_str_split_ex (bytes_of ''a,b;c'') (bytes_of '',;'') = None"
proof -
  have "vtm_str_pattern_count (bytes_of ''a,b;c'') (bytes_of '',;'') = Some 0"
    by (simp add: vtm_str_pattern_count_def bytes_of_def vtm_str_pattern_count_loop.simps)
  moreover have "str_split_ex_loop (bytes_of ''a,b;c'') (bytes_of '',;'') =
      [bytes_of ''a'', bytes_of ''b'', bytes_of ''c'']"
    by (simp add: bytes_of_def str_split_ex_loop.simps c_strtok_r_def str_first_word_def
        c_isspace_def vtm_str_copy_def)
  ultimately show ?thesis by (simp add: vtm_str_split_ex_def Let_def)
qed

subsection \<open>Trimming\<close>

lemma trim_end_spec:
  "\<exists>post. s = take (trim_end s 0 0) s @ post \<and> list_all c_isspace post
     \<and> (take (trim_end s 0 0) s = [] \<or> \<not> c_isspace (last (take (trim_end s 0 0) s)))"
proof -
  have "\<exists>k \<le> length s. (trim_end s i e = i + k \<and> 0 < k \<and> \<not> c_isspace (s ! (k - 1))
      \<or> trim_end s i e = e \<and> k = 0) \<and> list_all c_isspace (drop k s)" for i e
  proof (induction s arbitrary: i e)
    case Nil
    then show ?case by simp
  next
    case (Cons c s)
    let ?e = "if \<not> c_isspace c then i + 1 else e"
    obtain k where k: "k \<le> length s" "list_all c_isspace (drop k s)"
      "trim_end s (i + 1) ?e = i + 1 + k \<and> 0 < k \<and> \<not> c_isspace (s ! (k - 1))
       \<or> trim_end s (i + 1) ?e = ?e \<and> k = 0"
      using Cons [of "i + 1" ?e] by blast
    show ?case
    proof (cases "k = 0 \<and> c_isspace c")
      case True
      then show ?thesis using k by (intro exI [of _ 0]) auto
    next
      case False
      then show ?thesis using k by (intro exI [of _ "Suc k"]) (auto simp: nth_Cons')
    qed
  qed
  from this [of 0 0] obtain k where k: "k \<le> length s" "list_all c_isspace (drop k s)"
    "trim_end s 0 0 = k" "k = 0 \<or> \<not> c_isspace (s ! (k - 1))" by auto
  then have "take k s = [] \<or> \<not> c_isspace (last (take k s))"
    by (cases "k = 0") (auto simp: last_conv_nth)
  then show ?thesis using k by (intro exI [of _ "drop k s"]) simp
qed

text \<open>
  \<open>vtm_str_trim\<close> cuts exactly the white space around a string that has any other character: what
  it removes is white space, and what it leaves neither begins nor ends with one.
\<close>

theorem str_trim_spec:
  assumes "\<not> list_all c_isspace s"
  shows "\<exists>pre post. s = pre @ vtm_str_trim s @ post \<and> list_all c_isspace pre
           \<and> list_all c_isspace post \<and> vtm_str_trim s \<noteq> []
           \<and> \<not> c_isspace (hd (vtm_str_trim s)) \<and> \<not> c_isspace (last (vtm_str_trim s))"
proof -
  define act where "act = dropWhile c_isspace s"
  have ne: "act \<noteq> []" using assms by (auto simp: act_def list_all_iff dropWhile_eq_Nil_conv)
  have hd: "\<not> c_isspace (hd act)" using ne hd_dropWhile [of c_isspace s] by (simp add: act_def)
  have trim: "vtm_str_trim s = take (trim_end act 0 0) act"
    using ne by (auto simp: vtm_str_trim_def act_def Let_def)
  obtain post where post: "act = vtm_str_trim s @ post" "list_all c_isspace post"
    "vtm_str_trim s = [] \<or> \<not> c_isspace (last (vtm_str_trim s))"
    using trim_end_spec [of act] trim by auto
  have ne2: "vtm_str_trim s \<noteq> []"
    using post hd ne by (cases post) auto
  have "s = takeWhile c_isspace s @ vtm_str_trim s @ post"
    unfolding post(1) [symmetric] act_def by simp
  moreover have "list_all c_isspace (takeWhile c_isspace s)"
    by (auto simp: list_all_iff dest: set_takeWhileD)
  moreover have "hd (vtm_str_trim s) = hd act" using ne2 by (subst post(1)) simp
  ultimately show ?thesis using post(2, 3) ne2 hd
    by (intro exI [of _ "takeWhile c_isspace s"] exI [of _ post]) simp
qed

theorem str_trim_spec_witness:
  "\<exists>pre post. bytes_of '' ab '' = pre @ vtm_str_trim (bytes_of '' ab '') @ post
     \<and> list_all c_isspace pre \<and> list_all c_isspace post \<and> vtm_str_trim (bytes_of '' ab '') \<noteq> []
     \<and> \<not> c_isspace (hd (vtm_str_trim (bytes_of '' ab '')))
     \<and> \<not> c_isspace (last (vtm_str_trim (bytes_of '' ab '')))"
  by (rule str_trim_spec) (simp add: bytes_of_def c_isspace_def)

text \<open>A string of white space only is left as it is, where the documentation promises removal.\<close>

lemma str_trim_all_space: "list_all c_isspace s \<Longrightarrow> vtm_str_trim s = s"
  by (simp add: vtm_str_trim_def list_all_iff dropWhile_eq_Nil_conv [THEN iffD2])

subsection \<open>Finding a pattern\<close>

lemma pattern_at_iff:
  "i + length ps \<le> length s \<Longrightarrow> pattern_at s ps i \<longleftrightarrow> take (length ps) (drop i s) = ps"
proof (induction ps arbitrary: i)
  case Nil
  then show ?case by simp
next
  case (Cons p ps)
  then have "drop i s = s ! i # drop (i + 1) s" by (simp add: Cons_nth_drop_Suc)
  then show ?case using Cons.IH [of "i + 1"] Cons.prems by auto
qed

text \<open>The position of the first occurrence of \<open>pat\<close> in \<open>w\<close> at or behind \<open>k\<close>, or -1.\<close>

definition first_occ :: "byte list \<Rightarrow> byte list \<Rightarrow> nat \<Rightarrow> int" where
  "first_occ w pat k =
     (case find (\<lambda>i. take (length pat) (drop i w) = pat) [k..<length w + 1 - length pat] of
        None \<Rightarrow> - 1
      | Some i \<Rightarrow> int i)"

lemma first_occ_step:
  assumes "k + length pat \<le> length w"
  shows "first_occ w pat k =
    (if take (length pat) (drop k w) = pat then int k else first_occ w pat (k + 1))"
proof -
  have "[k..<length w + 1 - length pat] = k # [Suc k..<length w + 1 - length pat]"
    using assms by (intro upt_conv_Cons) simp
  then show ?thesis by (simp add: first_occ_def)
qed

lemma first_occ_end: "length w < k + length pat \<Longrightarrow> first_occ w pat k = - 1"
  by (simp add: first_occ_def)

lemma index_pattern_loop_spec:
  assumes "no_nul s" and "pat \<noteq> []" and "i = k + (length pat - 1)" and "i \<le> length s"
  shows "str_index_pattern_loop s pat n (length pat - 1) i = Some (first_occ (take n s) pat k)"
  using assms(3, 4)
proof (induction "length s - i" arbitrary: i k)
  case 0
  have "length s < k + length pat" using 0 assms(2) by (cases pat) auto
  then have "first_occ (take n s) pat k = - 1" by (intro first_occ_end) simp
  then show ?case using 0 by (subst str_index_pattern_loop.simps) (simp add: c_char_at_def)
next
  case (Suc d)
  have pos: "0 < length pat" using assms(2) by simp
  have lt: "i < length s" using Suc.hyps(2) by simp
  have nz: "s ! i \<noteq> 0" using assms(1) lt by (metis no_nul_def nth_mem)
  show ?case
  proof (cases "i < n")
    case True
    then have "k + length pat \<le> length s" "k + length pat \<le> n" using Suc.prems lt pos by linarith+
    then have fit: "k + length pat \<le> length (take n s)" by simp
    have "take (length pat) (drop k (take n s)) = take (length pat) (drop k s)"
      using \<open>k + length pat \<le> n\<close> by (simp add: drop_take min_def)
    moreover have "pattern_at s pat k \<longleftrightarrow> take (length pat) (drop k s) = pat"
      using fit by (intro pattern_at_iff) simp
    moreover have "str_index_pattern_loop s pat n (length pat - 1) (i + 1)
        = Some (first_occ (take n s) pat (k + 1))"
      using Suc.hyps(1) [of "i + 1" "k + 1"] Suc.hyps(2) Suc.prems lt by simp
    moreover have "i - (length pat - 1) = k" using Suc.prems by simp
    ultimately show ?thesis
      using True lt nz first_occ_step [OF fit]
      by (simp add: str_index_pattern_loop.simps [of _ _ _ _ i] c_char_at_def)
  next
    case False
    then have "n < k + length pat" using Suc.prems pos by linarith
    then have "first_occ (take n s) pat k = - 1" by (intro first_occ_end) simp
    then show ?thesis using False lt by (simp add: str_index_pattern_loop.simps [of _ _ _ _ i] c_char_at_def)
  qed
qed

text \<open>
  Where the pattern is not empty and not longer than the string and its terminating NUL,
  \<open>vtm_str_index_pattern\<close> returns the position of the first occurrence of the pattern in the first
  \<open>input_len\<close> bytes of the string, and -1 when there is none.
\<close>

theorem str_index_pattern_spec:
  assumes "no_nul s" and "pat \<noteq> []" and "length pat \<le> length s + 1" and "length pat < 2 ^ 64"
    and "unat input_len < 2 ^ 63"
  shows "vtm_str_index_pattern s pat input_len = Some (first_occ (take (unat input_len) s) pat 0)"
proof -
  have pos: "0 < length pat" using assms(2) by simp
  have "of_nat (length pat) - 1 = (of_nat (length pat - 1) :: size_t)"
    using assms(2) by (cases pat) simp_all
  then have b: "unat (of_nat (length pat) - 1 :: size_t) = length pat - 1"
    using assms(4) by (simp only:) (rule unat_of_nat_small, simp)
  have "\<not> input_len > 0x7fffffffffffffff" using assms(5) by (simp add: word_less_nat_alt)
  then show ?thesis
    using index_pattern_loop_spec [OF assms(1, 2), of "length pat - 1" 0 "unat input_len"] assms(3) pos b
    by (simp add: vtm_str_index_pattern_def)
qed

theorem str_index_pattern_spec_witness:
  "vtm_str_index_pattern (bytes_of ''abcabd'') (bytes_of ''abd'') 6 = Some 3"
  using str_index_pattern_spec [of "bytes_of ''abcabd''" "bytes_of ''abd''" 6]
  by (simp add: bytes_of_def first_occ_def upt_rec no_nul_def)

subsection \<open>Formatted printing returns\<close>

lemma str_vprintf_zero: "str_vprintf_loop 0 needed \<noteq> Some r"
proof
  assume "str_vprintf_loop 0 needed = Some r"
  then have "(0 :: size_t) \<noteq> 0"
  proof (rule str_vprintf_loop.raw_induct [where P = "\<lambda>l n r. l \<noteq> 0", rotated])
    fix f l n r
    assume IH: "\<And>l n r. f l n = Some r \<Longrightarrow> l \<noteq> 0"
      and eq: "(let (rc, sz) = vtm_math_size_mul l 2 l
        in if rc \<noteq> VTM_OK then Some 0 else if unat sz \<le> n then f sz n else Some sz) = Some r"
    show "(l :: size_t) \<noteq> 0"
    proof
      assume "l = 0"
      then have "f 0 n = Some r" using eq by (simp add: vtm_math_size_mul_def)
      then show False using IH by blast
    qed
  qed
  then show False by simp
qed

lemma str_vprintf_loop_returns:
  assumes "0 < l"
  shows "\<exists>sz. str_vprintf_loop l needed = Some sz"
  using assms
proof (induction "2 ^ 64 - unat l" arbitrary: l rule: less_induct)
  case less
  show ?case
  proof (cases "2 * unat l < 2 ^ 64 \<and> unat (2 * l) \<le> needed")
    case True
    then have u: "unat (2 * l) = 2 * unat l" by (simp add: unat_word_ariths)
    have pos: "0 < unat l" using less.prems by (simp add: word_greater_zero_iff unat_eq_0 [symmetric])
    then have "0 < 2 * l" using u by (metis unat_eq_0 mult_is_0 not_gr_zero word_neq_0_conv zero_neq_numeral)
    moreover have "2 ^ 64 - unat (2 * l) < 2 ^ 64 - unat l" using u pos True by linarith
    ultimately obtain sz where "str_vprintf_loop (2 * l) needed = Some sz" using less.hyps by blast
    then show ?thesis using True by (subst str_vprintf_loop.simps) (simp add: size_mul_2_exact)
  next
    case False
    then show ?thesis by (subst str_vprintf_loop.simps) (auto simp: size_mul_2_exact)
  qed
qed

text \<open>
  \<open>vtm_str_vprintf\<close> returns exactly for the non-empty format strings: the doubling of the buffer
  starts at the length of the format, and from 0 it never gets away.
\<close>

theorem str_vprintf_returns_iff:
  assumes "length fmt < 2 ^ 64"
  shows "(\<exists>r. vtm_str_vprintf fmt out = Some r) \<longleftrightarrow> fmt \<noteq> []"
proof (cases "fmt = []")
  case True
  then show ?thesis
    using str_vprintf_zero [of "length out"] by (auto simp: vtm_str_vprintf_def split: option.splits)
next
  case False
  then have "0 < unat (of_nat (length fmt) :: size_t)" using assms by simp
  then have "0 < (of_nat (length fmt) :: size_t)" by (simp add: word_less_nat_alt)
  then show ?thesis
    using str_vprintf_loop_returns [of "of_nat (length fmt)" "length out"] False
    by (auto simp: vtm_str_vprintf_def)
qed

theorem str_vprintf_returns_iff_witness:
  "(\<exists>r. vtm_str_vprintf (bytes_of ''%s'') (bytes_of ''hello world'') = Some r)
     \<longleftrightarrow> bytes_of ''%s'' \<noteq> []"
  by (rule str_vprintf_returns_iff) (simp add: bytes_of_def)

end
