(* ===== verification/Ieee.thy ===== *)
theory Ieee
  imports Cstring
begin

text \<open>
  The binary interchange formats of \<open>float\<close> and \<open>double\<close>: values are their bit patterns, and this
  theory defines the conversions the library's C code performs on them (truncation to an integer,
  widening, correctly rounded narrowing, the \<open>%g\<close> output of \<open>printf\<close>) exactly, on integers.
\<close>

text \<open>A decoded value: \<open>Ffin s m e\<close> stands for \<open>m * 2 ^ e\<close>, negated when \<open>s\<close>.\<close>

datatype fval = Fnan bool | Finf bool | Ffin bool nat int

definition f32_decode :: "u32 \<Rightarrow> fval" where
  "f32_decode w =
     (let s = bit w 31; ex = unat w div 2 ^ 23 mod 2 ^ 8; m = unat w mod 2 ^ 23
      in if ex = 255 then (if m = 0 then Finf s else Fnan s)
         else if ex = 0 then Ffin s m (- 149)
         else Ffin s (m + 2 ^ 23) (int ex - 150))"

definition f64_decode :: "u64 \<Rightarrow> fval" where
  "f64_decode w =
     (let s = bit w 63; ex = unat w div 2 ^ 52 mod 2 ^ 11; m = unat w mod 2 ^ 52
      in if ex = 2047 then (if m = 0 then Finf s else Fnan s)
         else if ex = 0 then Ffin s m (- 1074)
         else Ffin s (m + 2 ^ 52) (int ex - 1075))"

fun bit_len :: "nat \<Rightarrow> nat" where
  "bit_len n = (if n = 0 then 0 else Suc (bit_len (n div 2)))"

text \<open>\<open>m / 2 ^ k\<close> rounded to nearest, ties to even.\<close>

definition round_shift :: "nat \<Rightarrow> nat \<Rightarrow> nat" where
  "round_shift m k =
     (let q = m div 2 ^ k; r = m mod 2 ^ k
      in if 2 * r > 2 ^ k \<or> (2 * r = 2 ^ k \<and> odd q) then q + 1 else q)"

text \<open>
  Rounding \<open>m * 2 ^ e\<close> to \<open>p\<close> significant bits with least exponent \<open>emin\<close>: the significand and the
  exponent of the result.
\<close>

definition ieee_round :: "nat \<Rightarrow> int \<Rightarrow> nat \<Rightarrow> int \<Rightarrow> nat \<times> int" where
  "ieee_round p emin m e =
     (let e' = max (e + int (bit_len m) - int p) emin;
          q = (if e' \<le> e then m * 2 ^ nat (e - e') else round_shift m (nat (e' - e)))
      in if q = 2 ^ p then (2 ^ (p - 1), e' + 1) else (q, e'))"

definition f32_encode :: "fval \<Rightarrow> u32" where
  "f32_encode v =
     (case v of
        Fnan s \<Rightarrow> (if s then 0xffc00000 else 0x7fc00000)
      | Finf s \<Rightarrow> (if s then 0xff800000 else 0x7f800000)
      | Ffin s m e \<Rightarrow>
          let (q, e') = ieee_round 24 (- 149) m e;
              ex = (if q < 2 ^ 23 then 0 else nat (e' + 150))
          in (if s then 0x80000000 else 0)
             + (if ex \<ge> 255 then 0x7f800000
                else of_nat (ex * 2 ^ 23 + q mod 2 ^ 23)))"

definition f64_encode :: "fval \<Rightarrow> u64" where
  "f64_encode v =
     (case v of
        Fnan s \<Rightarrow> (if s then 0xfff8000000000000 else 0x7ff8000000000000)
      | Finf s \<Rightarrow> (if s then 0xfff0000000000000 else 0x7ff0000000000000)
      | Ffin s m e \<Rightarrow>
          let (q, e') = ieee_round 53 (- 1074) m e;
              ex = (if q < 2 ^ 52 then 0 else nat (e' + 1075))
          in (if s then 0x8000000000000000 else 0)
             + (if ex \<ge> 2047 then 0x7ff0000000000000
                else of_nat (ex * 2 ^ 52 + q mod 2 ^ 52)))"

text \<open>\<open>(double) x\<close> for a \<open>float\<close>, \<open>(float) x\<close> for a \<open>double\<close>.\<close>

definition f32_to_f64 :: "u32 \<Rightarrow> u64" where
  "f32_to_f64 w = f64_encode (f32_decode w)"

definition f64_to_f32 :: "u64 \<Rightarrow> u32" where
  "f64_to_f32 w = f32_encode (f64_decode w)"

text \<open>Conversion to an integer drops the fraction; \<open>None\<close> for infinities and NaN.\<close>

definition f_trunc :: "fval \<Rightarrow> int option" where
  "f_trunc v =
     (case v of
        Ffin s m e \<Rightarrow>
          let n = (if e \<ge> 0 then int m * 2 ^ nat e else int (m div 2 ^ nat (- e)))
          in Some (if s then - n else n)
      | _ \<Rightarrow> None)"

definition f_is_zero :: "fval \<Rightarrow> bool" where
  "f_is_zero v = (case v of Ffin s m e \<Rightarrow> m = 0 | _ \<Rightarrow> False)"

text \<open>The C comparison \<open>x == y\<close>: NaN is unequal to everything, the two zeros are equal.\<close>

definition f32_eq :: "u32 \<Rightarrow> u32 \<Rightarrow> bool" where
  "f32_eq a b \<longleftrightarrow>
     (case (f32_decode a, f32_decode b) of
        (Fnan _, _) \<Rightarrow> False
      | (_, Fnan _) \<Rightarrow> False
      | (va, vb) \<Rightarrow> a = b \<or> (f_is_zero va \<and> f_is_zero vb))"

definition f64_eq :: "u64 \<Rightarrow> u64 \<Rightarrow> bool" where
  "f64_eq a b \<longleftrightarrow>
     (case (f64_decode a, f64_decode b) of
        (Fnan _, _) \<Rightarrow> False
      | (_, Fnan _) \<Rightarrow> False
      | (va, vb) \<Rightarrow> a = b \<or> (f_is_zero va \<and> f_is_zero vb))"

subsection \<open>Output with \<open>%g\<close>\<close>

fun nat_dec :: "nat \<Rightarrow> byte list" where
  "nat_dec n = (if n < 10 then [48 + of_nat n] else nat_dec (n div 10) @ [48 + of_nat (n mod 10)])"

definition int_dec :: "int \<Rightarrow> byte list" where
  "int_dec i = (if i < 0 then 45 # nat_dec (nat (- i)) else nat_dec (nat i))"

text \<open>\<open>num / den\<close> rounded to the nearest integer, ties to even.\<close>

definition round_div :: "nat \<Rightarrow> nat \<Rightarrow> nat" where
  "round_div num den =
     (let q = num div den; r = num mod den
      in if 2 * r > den \<or> (2 * r = den \<and> odd q) then q + 1 else q)"

text \<open>
  The decimal exponent \<open>x\<close> with \<open>10 ^ x \<le> num / den < 10 ^ (x + 1)\<close>, searched downwards from 400
  (a finite \<open>double\<close> is below \<open>10 ^ 309\<close>, and at least \<open>10 ^ (- 324)\<close> when not zero).
\<close>

fun dec_exp :: "nat \<Rightarrow> int \<Rightarrow> nat \<Rightarrow> nat \<Rightarrow> int" where
  "dec_exp 0 x num den = x"
| "dec_exp (Suc k) x num den =
     (if (if x \<ge> 0 then 10 ^ nat x * den \<le> num else den \<le> num * 10 ^ nat (- x)) then x
      else dec_exp k (x - 1) num den)"

definition drop_zeros :: "byte list \<Rightarrow> byte list" where
  "drop_zeros ds = rev (dropWhile (\<lambda>c. c = 48) (rev ds))"

definition with_fraction :: "byte list \<Rightarrow> byte list \<Rightarrow> byte list" where
  "with_fraction ip fp = (let f = drop_zeros fp in if f = [] then ip else ip @ 46 # f)"

text \<open>Six significant digits of \<open>num / den\<close>, and the decimal exponent after rounding.\<close>

definition g_digits :: "nat \<Rightarrow> nat \<Rightarrow> byte list \<times> int" where
  "g_digits num den =
     (let x = dec_exp 800 400 num den;
          d = (if x \<ge> 5 then round_div num (den * 10 ^ nat (x - 5))
               else round_div (num * 10 ^ nat (5 - x)) den)
      in if d = 10 ^ 6 then (nat_dec (10 ^ 5), x + 1) else (nat_dec d, x))"

definition g_format :: "nat \<Rightarrow> nat \<Rightarrow> byte list" where
  "g_format num den =
     (let (ds, x) = g_digits num den
      in if x < - 4 \<or> x \<ge> 6 then
           with_fraction (take 1 ds) (drop 1 ds) @ 101
           # (if x < 0 then 45 else 43)
           # (if \<bar>x\<bar> < 10 then 48 # nat_dec (nat \<bar>x\<bar>) else nat_dec (nat \<bar>x\<bar>))
         else if x \<ge> 0 then with_fraction (take (nat x + 1) ds) (drop (nat x + 1) ds)
         else with_fraction [48] (replicate (nat (- x) - 1) 48 @ ds))"

definition c_printf_g :: "u64 \<Rightarrow> cstr" where
  "c_printf_g w =
     (case f64_decode w of
        Fnan s \<Rightarrow> (if s then bytes_of ''-nan'' else bytes_of ''nan'')
      | Finf s \<Rightarrow> (if s then bytes_of ''-inf'' else bytes_of ''inf'')
      | Ffin s m e \<Rightarrow>
          (if s then [45] else [])
          @ (if m = 0 then [48]
             else if e \<ge> 0 then g_format (m * 2 ^ nat e) 1
             else g_format m (2 ^ nat (- e))))"

declare bit_len.simps [simp del] nat_dec.simps [simp del]

lemma bit_len_numeral [simp]:
  "bit_len 0 = 0" "bit_len 1 = 1" "bit_len (Suc 0) = 1"
  "bit_len (numeral (Num.Bit0 n)) = Suc (bit_len (numeral n))"
  "bit_len (numeral (Num.Bit1 n)) = Suc (bit_len (numeral n))"
  by (simp_all add: bit_len.simps [of 0] bit_len.simps [of 1] bit_len.simps [of "Suc 0"]
      bit_len.simps [of "numeral (Num.Bit0 n)"] bit_len.simps [of "numeral (Num.Bit1 n)"])

subsection \<open>Input with \<open>strtod\<close>\<close>

text \<open>\<open>(double) i\<close> for an integer.\<close>

definition f64_of_int :: "int \<Rightarrow> u64" where
  "f64_of_int i = f64_encode (Ffin (i < 0) (nat \<bar>i\<bar>) 0)"

text \<open>
  The double nearest to \<open>num / den\<close>: a quotient of at least 66 bits whose last bit is set when the
  division left a remainder rounds like the exact value.
\<close>

definition f64_of_ratio :: "bool \<Rightarrow> nat \<Rightarrow> nat \<Rightarrow> u64" where
  "f64_of_ratio s num den =
     (let k = bit_len den + 66 - bit_len num;
          q = num * 2 ^ k div den; r = num * 2 ^ k mod den
      in f64_encode (Ffin s (2 * q + (if r = 0 then 0 else 1)) (- int k - 1)))"

definition c_isxdigit :: "byte \<Rightarrow> bool" where
  "c_isxdigit c \<longleftrightarrow> c_isdigit c \<or> (97 \<le> c_tolower c \<and> c_tolower c \<le> 102)"

definition c_xdigit_val :: "byte \<Rightarrow> nat" where
  "c_xdigit_val c = (if c_isdigit c then unat c - 48 else unat (c_tolower c) - 87)"

definition digits_val :: "nat \<Rightarrow> byte list \<Rightarrow> nat" where
  "digits_val base ds = foldl (\<lambda>a c. base * a + c_xdigit_val c) 0 ds"

text \<open>
  A significand: the digits before and behind the point, and the rest of the string; \<open>None\<close> when
  there is no digit.
\<close>

definition strtod_mantissa :: "(byte \<Rightarrow> bool) \<Rightarrow> cstr \<Rightarrow> (byte list \<times> byte list \<times> cstr) option" where
  "strtod_mantissa p s =
     (let ip = takeWhile p s; r = dropWhile p s;
          fp = (if c_hd r = 46 then takeWhile p (tl r) else []);
          r' = (if c_hd r = 46 then dropWhile p (tl r) else r)
      in if ip = [] \<and> fp = [] then None else Some (ip, fp, r'))"

text \<open>An optional exponent introduced by the letter \<open>e\<close>.\<close>

definition strtod_exponent :: "byte \<Rightarrow> cstr \<Rightarrow> int" where
  "strtod_exponent e s =
     (if c_tolower (c_hd s) = e then
        let r = tl s;
            ds = (if c_hd r = 45 \<or> c_hd r = 43 then tl r else r)
        in if c_isdigit (c_hd ds)
           then (if c_hd r = 45 then - int (c_digits ds) else int (c_digits ds)) else 0
      else 0)"

definition strtod_value :: "bool \<Rightarrow> nat \<Rightarrow> nat \<Rightarrow> int \<Rightarrow> u64" where
  "strtod_value neg base sig ex =
     (if ex \<ge> 0 then f64_of_ratio neg (sig * base ^ nat ex) 1
      else f64_of_ratio neg sig (base ^ nat (- ex)))"

text \<open>\<open>strtod (s, NULL)\<close>: decimal and hexadecimal numbers, infinities and NaN, in either case.\<close>

definition c_strtod :: "cstr \<Rightarrow> u64" where
  "c_strtod s =
     (let r = dropWhile c_isspace s;
          neg = (c_hd r = 45);
          t = (if c_hd r = 45 \<or> c_hd r = 43 then tl r else r);
          low = map c_tolower t;
          hexm = (if take 2 low = bytes_of ''0x'' then strtod_mantissa c_isxdigit (drop 2 t) else None)
      in if take 3 low = bytes_of ''inf'' then f64_encode (Finf neg)
         else if take 3 low = bytes_of ''nan'' then f64_encode (Fnan neg)
         else
           case hexm of
             Some (ip, fp, rest) \<Rightarrow>
               strtod_value neg 2 (digits_val 16 (ip @ fp))
                 (strtod_exponent 112 rest - 4 * int (length fp))
           | None \<Rightarrow>
               (case strtod_mantissa c_isdigit t of
                  None \<Rightarrow> 0
                | Some (ip, fp, rest) \<Rightarrow>
                    strtod_value neg 10 (digits_val 10 (ip @ fp))
                      (strtod_exponent 101 rest - int (length fp))))"

end
