(* ===== verification/Format.thy ===== *)
theory Format
  imports Errors
begin

text \<open>
  \<open>core/format.c\<close>: decimal and hexadecimal formatting into a caller's array. The functions return
  the number of characters and, when a destination is given, the characters written to it. Unsigned
  division never wraps, so the loops run on the value of the word; the counter \<open>n\<close> stays below 21.
\<close>

definition VTM_HEX_CHARS :: "byte list" where
  "VTM_HEX_CHARS = bytes_of ''0123456789ABCDEF''"

definition VTM_HEX_LCHARS :: "byte list" where
  "VTM_HEX_LCHARS = bytes_of ''0123456789abcdef''"

fun fmt_count_dec :: "nat \<Rightarrow> nat \<Rightarrow> nat" where
  "fmt_count_dec r n = (if r > 9 then fmt_count_dec (r div 10) (n + 1) else n)"

primrec fmt_write_dec :: "nat \<Rightarrow> nat \<Rightarrow> byte list \<Rightarrow> byte list" where
  "fmt_write_dec 0 val out = out"
| "fmt_write_dec (Suc r) val out =
     fmt_write_dec r (val div 10) ((byte_of CHR ''0'' + of_nat (val mod 10)) # out)"

definition vtm_fmt_uint :: "bool \<Rightarrow> u32 \<Rightarrow> nat \<times> byte list" where
  "vtm_fmt_uint dst val =
     (let n = fmt_count_dec (unat val) 1
      in if \<not> dst then (n, []) else (n, fmt_write_dec n (unat val) []))"

text \<open>\<open>(unsigned int) -val\<close> is the two's complement negation.\<close>

definition vtm_fmt_int :: "bool \<Rightarrow> u32 \<Rightarrow> nat \<times> byte list" where
  "vtm_fmt_int dst val =
     (if val <s 0 then
        (let (n, out) = vtm_fmt_uint dst (- val)
         in (n + 1, if dst then byte_of CHR ''-'' # out else []))
      else vtm_fmt_uint dst val)"

definition vtm_fmt_uint64 :: "bool \<Rightarrow> u64 \<Rightarrow> nat \<times> byte list" where
  "vtm_fmt_uint64 dst val =
     (let n = fmt_count_dec (unat val) 1
      in if \<not> dst then (n, []) else (n, fmt_write_dec n (unat val) []))"

definition vtm_fmt_int64 :: "bool \<Rightarrow> u64 \<Rightarrow> nat \<times> byte list" where
  "vtm_fmt_int64 dst val =
     (if val <s 0 then
        (let (n, out) = vtm_fmt_uint64 dst (- val)
         in (n + 1, if dst then byte_of CHR ''-'' # out else []))
      else vtm_fmt_uint64 dst val)"

fun fmt_count_hex :: "nat \<Rightarrow> nat \<Rightarrow> nat" where
  "fmt_count_hex r n = (if r > 15 then fmt_count_hex (r div 16) (n + 1) else n)"

primrec fmt_write_hex :: "nat \<Rightarrow> nat \<Rightarrow> byte list \<Rightarrow> byte list" where
  "fmt_write_hex 0 val out = out"
| "fmt_write_hex (Suc r) val out =
     fmt_write_hex r (val div 16) (VTM_HEX_CHARS ! (val mod 16) # out)"

definition vtm_fmt_hex_size :: "bool \<Rightarrow> size_t \<Rightarrow> nat \<times> byte list" where
  "vtm_fmt_hex_size dst val =
     (let n = fmt_count_hex (unat val) 1
      in if \<not> dst then (n, []) else (n, fmt_write_hex n (unat val) []))"

fun fmt_hex_mem_loop :: "byte list \<Rightarrow> byte list \<Rightarrow> byte list" where
  "fmt_hex_mem_loop t [] = []"
| "fmt_hex_mem_loop t (c # src) =
     t ! (unat c div 16) # t ! (unat c mod 16) # fmt_hex_mem_loop t src"

definition vtm_fmt_hex_mem :: "bool \<Rightarrow> byte list \<Rightarrow> bool \<Rightarrow> nat \<times> byte list" where
  "vtm_fmt_hex_mem dst src ucase =
     (let len = (of_nat (length src) :: size_t)
      in if len * 2 < len \<or> len * 2 > UINT32_MAX then (0, [])
         else
           let n = unat (len * 2)
           in if \<not> dst then (n, [])
              else (n, fmt_hex_mem_loop (if ucase then VTM_HEX_CHARS else VTM_HEX_LCHARS) src))"

declare fmt_count_dec.simps [simp del] fmt_count_hex.simps [simp del]

subsection \<open>Reading the digits back\<close>

text \<open>The value of a string of decimal digits, as any reader of the output computes it.\<close>

definition dec_value :: "byte list \<Rightarrow> nat" where
  "dec_value bs = foldl (\<lambda>a c. 10 * a + (unat c - 48)) 0 bs"

definition is_digit :: "byte \<Rightarrow> bool" where
  "is_digit c \<longleftrightarrow> 48 \<le> unat c \<and> unat c \<le> 57"

lemma dec_value_Nil [simp]: "dec_value [] = 0"
  by (simp add: dec_value_def)

lemma dec_value_snoc [simp]: "dec_value (xs @ [c]) = 10 * dec_value xs + (unat c - 48)"
  by (simp add: dec_value_def)

lemma unat_digit: "d < 10 \<Longrightarrow> unat (byte_of CHR ''0'' + of_nat d :: byte) = 48 + d"
  by (simp add: byte_of_def unat_word_ariths)

lemma fmt_count_dec_bounds:
  "\<exists>k. fmt_count_dec r n = n + k \<and> r < 10 ^ Suc k \<and> (k = 0 \<or> 10 ^ k \<le> r)"
proof (induction r n rule: fmt_count_dec.induct)
  case (1 r n)
  show ?case
  proof (cases "r > 9")
    case True
    from 1 [OF True] obtain k where k: "fmt_count_dec (r div 10) (n + 1) = n + 1 + k"
      "r div 10 < 10 ^ Suc k" "k = 0 \<or> 10 ^ k \<le> r div 10" by blast
    have "r < 10 ^ Suc (Suc k)" using k(2) by (simp add: div_less_iff_less_mult)
    moreover have "10 ^ Suc k \<le> r" using k(3) True by (auto simp: less_eq_div_iff_mult_less_eq)
    ultimately show ?thesis
      using True k(1) by (intro exI [of _ "Suc k"]) (simp add: fmt_count_dec.simps [of r n])
  next
    case False
    then show ?thesis by (intro exI [of _ 0]) (simp add: fmt_count_dec.simps [of r n])
  qed
qed

lemma fmt_write_dec_app: "fmt_write_dec n val out = fmt_write_dec n val [] @ out"
proof (induction n arbitrary: val out)
  case 0
  then show ?case by simp
next
  case (Suc n)
  show ?case
    using Suc [of "val div 10" "(byte_of CHR ''0'' + of_nat (val mod 10)) # out"]
      Suc [of "val div 10" "[byte_of CHR ''0'' + of_nat (val mod 10)]"] by simp
qed

lemma fmt_write_dec_spec:
  "length (fmt_write_dec n val []) = n
   \<and> dec_value (fmt_write_dec n val []) = val mod 10 ^ n
   \<and> list_all is_digit (fmt_write_dec n val [])"
proof (induction n arbitrary: val)
  case 0
  then show ?case by simp
next
  case (Suc n)
  have d: "unat (byte_of CHR ''0'' + of_nat (val mod 10) :: byte) = 48 + val mod 10"
    by (rule unat_digit) simp
  have app: "fmt_write_dec (Suc n) val [] =
      fmt_write_dec n (val div 10) [] @ [byte_of CHR ''0'' + of_nat (val mod 10)]"
    using fmt_write_dec_app [of n "val div 10" "[byte_of CHR ''0'' + of_nat (val mod 10)]"] by simp
  have "val mod 10 ^ Suc n = 10 * (val div 10 mod 10 ^ n) + val mod 10"
    using mod_mult2_eq [of val 10 "10 ^ n"] by simp
  then show ?case
    using Suc [of "val div 10"] by (simp add: app d is_digit_def del: fmt_write_dec.simps)
qed

text \<open>
  \<open>vtm_fmt_uint64\<close> writes the decimal representation of its argument: as many digits as it
  returns, between 1 and 20, none of them leading zeros, whose value is the number; asked for the
  length only, it returns the same length.
\<close>

theorem fmt_uint64_decimal:
  "let (n, out) = vtm_fmt_uint64 True val
   in length out = n \<and> list_all is_digit out \<and> dec_value out = unat val
      \<and> 1 \<le> n \<and> n \<le> 20 \<and> (n = 1 \<or> 10 ^ (n - 1) \<le> unat val)
      \<and> vtm_fmt_uint64 False val = (n, [])"
proof -
  define n where "n = fmt_count_dec (unat val) 1"
  have b: "1 \<le> n" "unat val < 10 ^ n" "n = 1 \<or> 10 ^ (n - 1) \<le> unat val"
    using fmt_count_dec_bounds [of "unat val" 1] by (auto simp: n_def)
  have "n \<le> 20"
  proof (rule ccontr)
    assume "\<not> n \<le> 20"
    then have "(10 :: nat) ^ 20 \<le> 10 ^ (n - 1)" by (intro power_increasing) auto
    then show False using b unat_less_2p [of val] \<open>\<not> n \<le> 20\<close> by simp
  qed
  moreover have "vtm_fmt_uint64 True val = (n, fmt_write_dec n (unat val) [])"
    "vtm_fmt_uint64 False val = (n, [])"
    by (simp_all add: vtm_fmt_uint64_def n_def Let_def)
  ultimately show ?thesis
    using b fmt_write_dec_spec [of n "unat val"] by simp
qed

end
