(* ===== verification/Elem.thy ===== *)
theory Elem
  imports Ieee Format
begin

text \<open>
  The element types of \<open>core/elem.c\<close> with their conversions and comparisons, the conversions to and
  from strings of \<open>core/convert.c\<close>, the memory blocks of \<open>core/blob.c\<close> and the tagged values of
  \<open>core/variant.c\<close>. A union member holds the bits of its C type (\<open>char\<close> is signed, \<open>long\<close> has 64
  bits); an element remembers which member was written last, and reading another one is unspecified.
\<close>

subsection \<open>Blobs\<close>

record vtm_blob =
  blob_len :: u32
  blob_mem :: "byte list"

text \<open>The memory of a new block is whatever the allocator returned: \<open>junk\<close>.\<close>

definition vtm_blob_new :: "allocator \<Rightarrow> byte list \<Rightarrow> size_t \<Rightarrow> vtm_rc + vtm_blob" where
  "vtm_blob_new ma junk len =
     (if len > UINT32_MAX \<or> len + 4 < len then Inl VTM_E_INVALID_ARG
      else if \<not> ma (4 + len) then Inl VTM_E_MALLOC
      else Inr \<lparr>blob_len = ucast len, blob_mem = take (unat len) junk\<rparr>)"

definition vtm_blob_size :: "vtm_blob \<Rightarrow> size_t" where
  "vtm_blob_size b = ucast (blob_len b)"

definition vtm_blob_inv :: "vtm_blob \<Rightarrow> bool" where
  "vtm_blob_inv b \<longleftrightarrow> length (blob_mem b) = unat (blob_len b)"

subsection \<open>Types and elements\<close>

datatype vtm_elem_type =
    VTM_ELEM_NULL | VTM_ELEM_INT8 | VTM_ELEM_UINT8 | VTM_ELEM_INT16 | VTM_ELEM_UINT16
    | VTM_ELEM_INT32 | VTM_ELEM_UINT32 | VTM_ELEM_INT64 | VTM_ELEM_UINT64 | VTM_ELEM_BOOL
    | VTM_ELEM_CHAR | VTM_ELEM_SCHAR | VTM_ELEM_UCHAR | VTM_ELEM_SHORT | VTM_ELEM_USHORT
    | VTM_ELEM_INT | VTM_ELEM_UINT | VTM_ELEM_LONG | VTM_ELEM_ULONG | VTM_ELEM_FLOAT
    | VTM_ELEM_DOUBLE | VTM_ELEM_STRING | VTM_ELEM_BLOB | VTM_ELEM_POINTER

datatype vtm_elem =
    Elem_null | Elem_int8 (elem_int8: "8 word") | Elem_uint8 (elem_uint8: "8 word")
    | Elem_int16 (elem_int16: "16 word") | Elem_uint16 (elem_uint16: "16 word")
    | Elem_int32 (elem_int32: "32 word") | Elem_uint32 (elem_uint32: "32 word")
    | Elem_int64 (elem_int64: "64 word") | Elem_uint64 (elem_uint64: "64 word")
    | Elem_bool (elem_bool: bool) | Elem_char (elem_char: "8 word")
    | Elem_schar (elem_schar: "8 word") | Elem_uchar (elem_uchar: "8 word")
    | Elem_short (elem_short: "16 word") | Elem_ushort (elem_ushort: "16 word")
    | Elem_int (elem_int: "32 word") | Elem_uint (elem_uint: "32 word")
    | Elem_long (elem_long: "64 word") | Elem_ulong (elem_ulong: "64 word")
    | Elem_float (elem_float: u32) | Elem_double (elem_double: u64) | Elem_str (elem_str: cstr)
    | Elem_blob (elem_blob: "vtm_blob option") | Elem_ptr (elem_pointer: u64)

text \<open>The type whose union member an element holds.\<close>

fun elem_type :: "vtm_elem \<Rightarrow> vtm_elem_type" where
  "elem_type Elem_null = VTM_ELEM_NULL"
| "elem_type (Elem_int8 _) = VTM_ELEM_INT8"
| "elem_type (Elem_uint8 _) = VTM_ELEM_UINT8"
| "elem_type (Elem_int16 _) = VTM_ELEM_INT16"
| "elem_type (Elem_uint16 _) = VTM_ELEM_UINT16"
| "elem_type (Elem_int32 _) = VTM_ELEM_INT32"
| "elem_type (Elem_uint32 _) = VTM_ELEM_UINT32"
| "elem_type (Elem_int64 _) = VTM_ELEM_INT64"
| "elem_type (Elem_uint64 _) = VTM_ELEM_UINT64"
| "elem_type (Elem_bool _) = VTM_ELEM_BOOL"
| "elem_type (Elem_char _) = VTM_ELEM_CHAR"
| "elem_type (Elem_schar _) = VTM_ELEM_SCHAR"
| "elem_type (Elem_uchar _) = VTM_ELEM_UCHAR"
| "elem_type (Elem_short _) = VTM_ELEM_SHORT"
| "elem_type (Elem_ushort _) = VTM_ELEM_USHORT"
| "elem_type (Elem_int _) = VTM_ELEM_INT"
| "elem_type (Elem_uint _) = VTM_ELEM_UINT"
| "elem_type (Elem_long _) = VTM_ELEM_LONG"
| "elem_type (Elem_ulong _) = VTM_ELEM_ULONG"
| "elem_type (Elem_float _) = VTM_ELEM_FLOAT"
| "elem_type (Elem_double _) = VTM_ELEM_DOUBLE"
| "elem_type (Elem_str _) = VTM_ELEM_STRING"
| "elem_type (Elem_blob _) = VTM_ELEM_BLOB"
| "elem_type (Elem_ptr _) = VTM_ELEM_POINTER"

fun vtm_elem_size :: "vtm_elem_type \<Rightarrow> size_t" where
  "vtm_elem_size VTM_ELEM_NULL = 1"
| "vtm_elem_size VTM_ELEM_INT8 = 1"
| "vtm_elem_size VTM_ELEM_UINT8 = 1"
| "vtm_elem_size VTM_ELEM_INT16 = 2"
| "vtm_elem_size VTM_ELEM_UINT16 = 2"
| "vtm_elem_size VTM_ELEM_INT32 = 4"
| "vtm_elem_size VTM_ELEM_UINT32 = 4"
| "vtm_elem_size VTM_ELEM_INT64 = 8"
| "vtm_elem_size VTM_ELEM_UINT64 = 8"
| "vtm_elem_size VTM_ELEM_BOOL = 1"
| "vtm_elem_size VTM_ELEM_CHAR = 1"
| "vtm_elem_size VTM_ELEM_SCHAR = 1"
| "vtm_elem_size VTM_ELEM_UCHAR = 1"
| "vtm_elem_size VTM_ELEM_SHORT = 2"
| "vtm_elem_size VTM_ELEM_USHORT = 2"
| "vtm_elem_size VTM_ELEM_INT = 4"
| "vtm_elem_size VTM_ELEM_UINT = 4"
| "vtm_elem_size VTM_ELEM_LONG = 8"
| "vtm_elem_size VTM_ELEM_ULONG = 8"
| "vtm_elem_size VTM_ELEM_FLOAT = 4"
| "vtm_elem_size VTM_ELEM_DOUBLE = 8"
| "vtm_elem_size VTM_ELEM_STRING = 8"
| "vtm_elem_size VTM_ELEM_BLOB = 8"
| "vtm_elem_size VTM_ELEM_POINTER = 8"

text \<open>How a conversion fails: it aborts the program, is undefined in C, or never returns.\<close>

datatype conv_err = Conv_abort | Conv_undef | Conv_loops

text \<open>
  Variadic arguments after the default promotions; reading an argument of another type is
  undefined.
\<close>

datatype vtm_va =
    Va_int "32 word" | Va_long "64 word" | Va_double u64 | Va_str cstr | Va_blob "vtm_blob option"
  | Va_ptr u64

text \<open>\<open>va_arg (ap, type)\<close> for the promoted types the code asks for.\<close>

definition va_int :: "(32 word \<Rightarrow> vtm_elem) \<Rightarrow> vtm_va list \<Rightarrow> conv_err + vtm_elem \<times> vtm_va list" where
  "va_int f ap = (case ap of Va_int i # ap' \<Rightarrow> Inr (f i, ap') | _ \<Rightarrow> Inl Conv_undef)"

definition va_long :: "(u64 \<Rightarrow> vtm_elem) \<Rightarrow> vtm_va list \<Rightarrow> conv_err + vtm_elem \<times> vtm_va list" where
  "va_long f ap = (case ap of Va_long i # ap' \<Rightarrow> Inr (f i, ap') | _ \<Rightarrow> Inl Conv_undef)"

definition va_double :: "(u64 \<Rightarrow> vtm_elem) \<Rightarrow> vtm_va list \<Rightarrow> conv_err + vtm_elem \<times> vtm_va list" where
  "va_double f ap = (case ap of Va_double d # ap' \<Rightarrow> Inr (f d, ap') | _ \<Rightarrow> Inl Conv_undef)"

definition vtm_elem_parse :: "vtm_elem_type \<Rightarrow> vtm_va list \<Rightarrow> conv_err + vtm_elem \<times> vtm_va list" where
  "vtm_elem_parse type ap =
     (case type of
        VTM_ELEM_INT8 \<Rightarrow> va_int (\<lambda>i. Elem_int8 (ucast i)) ap
      | VTM_ELEM_UINT8 \<Rightarrow> va_int (\<lambda>i. Elem_uint8 (ucast i)) ap
      | VTM_ELEM_INT16 \<Rightarrow> va_int (\<lambda>i. Elem_int16 (ucast i)) ap
      | VTM_ELEM_UINT16 \<Rightarrow> va_int (\<lambda>i. Elem_uint16 (ucast i)) ap
      | VTM_ELEM_INT32 \<Rightarrow> va_int Elem_int32 ap
      | VTM_ELEM_UINT32 \<Rightarrow> va_int Elem_uint32 ap
      | VTM_ELEM_INT64 \<Rightarrow> va_long Elem_int64 ap
      | VTM_ELEM_UINT64 \<Rightarrow> va_long Elem_uint64 ap
      | VTM_ELEM_BOOL \<Rightarrow> va_int (\<lambda>i. Elem_bool (i \<noteq> 0)) ap
      | VTM_ELEM_CHAR \<Rightarrow> va_int (\<lambda>i. Elem_char (ucast i)) ap
      | VTM_ELEM_SCHAR \<Rightarrow> va_int (\<lambda>i. Elem_schar (ucast i)) ap
      | VTM_ELEM_UCHAR \<Rightarrow> va_int (\<lambda>i. Elem_uchar (ucast i)) ap
      | VTM_ELEM_SHORT \<Rightarrow> va_int (\<lambda>i. Elem_short (ucast i)) ap
      | VTM_ELEM_USHORT \<Rightarrow> va_int (\<lambda>i. Elem_ushort (ucast i)) ap
      | VTM_ELEM_INT \<Rightarrow> va_int Elem_int ap
      | VTM_ELEM_UINT \<Rightarrow> va_int Elem_uint ap
      | VTM_ELEM_LONG \<Rightarrow> va_long Elem_long ap
      | VTM_ELEM_ULONG \<Rightarrow> va_long Elem_ulong ap
      | VTM_ELEM_FLOAT \<Rightarrow> va_double (\<lambda>d. Elem_float (f64_to_f32 d)) ap
      | VTM_ELEM_DOUBLE \<Rightarrow> va_double Elem_double ap
      | VTM_ELEM_STRING \<Rightarrow> (case ap of Va_str s # ap' \<Rightarrow> Inr (Elem_str s, ap') | _ \<Rightarrow> Inl Conv_undef)
      | VTM_ELEM_BLOB \<Rightarrow> (case ap of Va_blob b # ap' \<Rightarrow> Inr (Elem_blob b, ap') | _ \<Rightarrow> Inl Conv_undef)
      | VTM_ELEM_POINTER \<Rightarrow> (case ap of Va_ptr p # ap' \<Rightarrow> Inr (Elem_ptr p, ap') | _ \<Rightarrow> Inl Conv_undef)
      | VTM_ELEM_NULL \<Rightarrow> Inl Conv_abort)"

subsection \<open>Conversions to and from strings\<close>

definition vtm_conv_int64_str :: "u64 \<Rightarrow> cstr option option" where
  "vtm_conv_int64_str num = vtm_str_vprintf (bytes_of ''%ld'') (int_dec (sint num))"

definition vtm_conv_uint64_str :: "u64 \<Rightarrow> cstr option option" where
  "vtm_conv_uint64_str num = vtm_str_vprintf (bytes_of ''%lu'') (int_dec (uint num))"

definition vtm_conv_double_str :: "u64 \<Rightarrow> cstr option option" where
  "vtm_conv_double_str r = vtm_str_vprintf (bytes_of ''%g'') (c_printf_g r)"

definition vtm_conv_blob_str :: "allocator \<Rightarrow> vtm_blob \<Rightarrow> cstr option" where
  "vtm_conv_blob_str ma blob =
     (let len = vtm_blob_size blob
      in if len * 2 < len then None
         else if \<not> ma (len * 2 + 1) then None
         else Some (snd (vtm_fmt_hex_mem True (take (unat len) (blob_mem blob)) True)))"

definition vtm_conv_str_int64 :: "cstr \<Rightarrow> u64" where
  "vtm_conv_str_int64 s = c_strtoll s"

definition vtm_conv_str_uint64 :: "cstr \<Rightarrow> u64" where
  "vtm_conv_str_uint64 s = c_strtoull s"

definition vtm_conv_str_double :: "cstr \<Rightarrow> u64" where
  "vtm_conv_str_double s = c_strtod s"

subsection \<open>Numeric conversions\<close>

text \<open>
  A cast of a floating point value to an integer type (signed when \<open>sg\<close>) is undefined unless the
  truncated value is one of the type.
\<close>

definition c_cast_f :: "bool \<Rightarrow> fval \<Rightarrow> conv_err + 'a::len word" where
  "c_cast_f sg v =
     (case f_trunc v of
        None \<Rightarrow> Inl Conv_undef
      | Some i \<Rightarrow>
          if (if sg then - (2 ^ (LENGTH('a) - 1)) \<le> i \<and> i < 2 ^ (LENGTH('a) - 1)
              else 0 \<le> i \<and> i < 2 ^ LENGTH('a))
          then Inr (word_of_int i) else Inl Conv_undef)"

text \<open>
  The two conversion macros, at the target type of width \<open>'a\<close>: casts between integer types reduce
  modulo the width.
\<close>

definition VTM_ELEM_CONV_NUMERIC :: "vtm_elem_type \<Rightarrow> vtm_elem \<Rightarrow> conv_err + 'a::len word" where
  "VTM_ELEM_CONV_NUMERIC type src =
     (case type of
        VTM_ELEM_INT8 \<Rightarrow> Inr (word_of_int (sint (elem_int8 src)))
      | VTM_ELEM_UINT8 \<Rightarrow> Inr (word_of_int (uint (elem_uint8 src)))
      | VTM_ELEM_INT16 \<Rightarrow> Inr (word_of_int (sint (elem_int16 src)))
      | VTM_ELEM_UINT16 \<Rightarrow> Inr (word_of_int (uint (elem_uint16 src)))
      | VTM_ELEM_INT32 \<Rightarrow> Inr (word_of_int (sint (elem_int32 src)))
      | VTM_ELEM_UINT32 \<Rightarrow> Inr (word_of_int (uint (elem_uint32 src)))
      | VTM_ELEM_INT64 \<Rightarrow> Inr (word_of_int (sint (elem_int64 src)))
      | VTM_ELEM_UINT64 \<Rightarrow> Inr (word_of_int (uint (elem_uint64 src)))
      | VTM_ELEM_BOOL \<Rightarrow> Inr (if elem_bool src then 1 else 0)
      | VTM_ELEM_CHAR \<Rightarrow> Inr (word_of_int (sint (elem_char src)))
      | VTM_ELEM_SCHAR \<Rightarrow> Inr (word_of_int (sint (elem_schar src)))
      | VTM_ELEM_UCHAR \<Rightarrow> Inr (word_of_int (uint (elem_uchar src)))
      | VTM_ELEM_SHORT \<Rightarrow> Inr (word_of_int (sint (elem_short src)))
      | VTM_ELEM_USHORT \<Rightarrow> Inr (word_of_int (uint (elem_ushort src)))
      | VTM_ELEM_INT \<Rightarrow> Inr (word_of_int (sint (elem_int src)))
      | VTM_ELEM_UINT \<Rightarrow> Inr (word_of_int (uint (elem_uint src)))
      | VTM_ELEM_LONG \<Rightarrow> Inr (word_of_int (sint (elem_long src)))
      | VTM_ELEM_ULONG \<Rightarrow> Inr (word_of_int (uint (elem_ulong src)))
      | VTM_ELEM_FLOAT \<Rightarrow> c_cast_f True (f32_decode (elem_float src))
      | VTM_ELEM_DOUBLE \<Rightarrow> c_cast_f True (f64_decode (elem_double src))
      | VTM_ELEM_STRING \<Rightarrow> Inr (word_of_int (sint (vtm_conv_str_int64 (elem_str src))))
      | VTM_ELEM_BLOB \<Rightarrow> Inr 0
      | VTM_ELEM_POINTER \<Rightarrow> Inr (word_of_int (sint (elem_pointer src)))
      | VTM_ELEM_NULL \<Rightarrow> Inl Conv_abort)"

definition VTM_ELEM_CONV_UNUMERIC :: "vtm_elem_type \<Rightarrow> vtm_elem \<Rightarrow> conv_err + 'a::len word" where
  "VTM_ELEM_CONV_UNUMERIC type src =
     (case type of
        VTM_ELEM_INT8 \<Rightarrow> Inr (word_of_int (sint (elem_int8 src)))
      | VTM_ELEM_UINT8 \<Rightarrow> Inr (word_of_int (uint (elem_uint8 src)))
      | VTM_ELEM_INT16 \<Rightarrow> Inr (word_of_int (sint (elem_int16 src)))
      | VTM_ELEM_UINT16 \<Rightarrow> Inr (word_of_int (uint (elem_uint16 src)))
      | VTM_ELEM_INT32 \<Rightarrow> Inr (word_of_int (sint (elem_int32 src)))
      | VTM_ELEM_UINT32 \<Rightarrow> Inr (word_of_int (uint (elem_uint32 src)))
      | VTM_ELEM_INT64 \<Rightarrow> Inr (word_of_int (sint (elem_int64 src)))
      | VTM_ELEM_UINT64 \<Rightarrow> Inr (word_of_int (uint (elem_uint64 src)))
      | VTM_ELEM_BOOL \<Rightarrow> Inr (if elem_bool src then 1 else 0)
      | VTM_ELEM_CHAR \<Rightarrow> Inr (word_of_int (sint (elem_char src)))
      | VTM_ELEM_SCHAR \<Rightarrow> Inr (word_of_int (sint (elem_schar src)))
      | VTM_ELEM_UCHAR \<Rightarrow> Inr (word_of_int (uint (elem_uchar src)))
      | VTM_ELEM_SHORT \<Rightarrow> Inr (word_of_int (sint (elem_short src)))
      | VTM_ELEM_USHORT \<Rightarrow> Inr (word_of_int (uint (elem_ushort src)))
      | VTM_ELEM_INT \<Rightarrow> Inr (word_of_int (sint (elem_int src)))
      | VTM_ELEM_UINT \<Rightarrow> Inr (word_of_int (uint (elem_uint src)))
      | VTM_ELEM_LONG \<Rightarrow> Inr (word_of_int (sint (elem_long src)))
      | VTM_ELEM_ULONG \<Rightarrow> Inr (word_of_int (uint (elem_ulong src)))
      | VTM_ELEM_FLOAT \<Rightarrow> c_cast_f False (f32_decode (elem_float src))
      | VTM_ELEM_DOUBLE \<Rightarrow> c_cast_f False (f64_decode (elem_double src))
      | VTM_ELEM_STRING \<Rightarrow> Inr (word_of_int (uint (vtm_conv_str_uint64 (elem_str src))))
      | VTM_ELEM_BLOB \<Rightarrow> Inr 0
      | VTM_ELEM_POINTER \<Rightarrow> Inr (word_of_int (uint (elem_pointer src)))
      | VTM_ELEM_NULL \<Rightarrow> Inl Conv_abort)"

definition vtm_elem_as_int8 :: "vtm_elem_type \<Rightarrow> vtm_elem \<Rightarrow> conv_err + 8 word" where
  "vtm_elem_as_int8 type src = VTM_ELEM_CONV_NUMERIC type src"

definition vtm_elem_as_uint8 :: "vtm_elem_type \<Rightarrow> vtm_elem \<Rightarrow> conv_err + 8 word" where
  "vtm_elem_as_uint8 type src = VTM_ELEM_CONV_UNUMERIC type src"

definition vtm_elem_as_int16 :: "vtm_elem_type \<Rightarrow> vtm_elem \<Rightarrow> conv_err + 16 word" where
  "vtm_elem_as_int16 type src = VTM_ELEM_CONV_NUMERIC type src"

definition vtm_elem_as_uint16 :: "vtm_elem_type \<Rightarrow> vtm_elem \<Rightarrow> conv_err + 16 word" where
  "vtm_elem_as_uint16 type src = VTM_ELEM_CONV_UNUMERIC type src"

definition vtm_elem_as_int32 :: "vtm_elem_type \<Rightarrow> vtm_elem \<Rightarrow> conv_err + 32 word" where
  "vtm_elem_as_int32 type src = VTM_ELEM_CONV_NUMERIC type src"

definition vtm_elem_as_uint32 :: "vtm_elem_type \<Rightarrow> vtm_elem \<Rightarrow> conv_err + 32 word" where
  "vtm_elem_as_uint32 type src = VTM_ELEM_CONV_UNUMERIC type src"

definition vtm_elem_as_int64 :: "vtm_elem_type \<Rightarrow> vtm_elem \<Rightarrow> conv_err + 64 word" where
  "vtm_elem_as_int64 type src = VTM_ELEM_CONV_NUMERIC type src"

definition vtm_elem_as_uint64 :: "vtm_elem_type \<Rightarrow> vtm_elem \<Rightarrow> conv_err + 64 word" where
  "vtm_elem_as_uint64 type src = VTM_ELEM_CONV_UNUMERIC type src"

definition vtm_elem_as_bool :: "vtm_elem_type \<Rightarrow> vtm_elem \<Rightarrow> conv_err + bool" where
  "vtm_elem_as_bool type src =
     (case type of
        VTM_ELEM_INT8 \<Rightarrow> Inr (elem_int8 src \<noteq> 0)
      | VTM_ELEM_UINT8 \<Rightarrow> Inr (elem_uint8 src \<noteq> 0)
      | VTM_ELEM_INT16 \<Rightarrow> Inr (elem_int16 src \<noteq> 0)
      | VTM_ELEM_UINT16 \<Rightarrow> Inr (elem_uint16 src \<noteq> 0)
      | VTM_ELEM_INT32 \<Rightarrow> Inr (elem_int32 src \<noteq> 0)
      | VTM_ELEM_UINT32 \<Rightarrow> Inr (elem_uint32 src \<noteq> 0)
      | VTM_ELEM_INT64 \<Rightarrow> Inr (elem_int64 src \<noteq> 0)
      | VTM_ELEM_UINT64 \<Rightarrow> Inr (elem_uint64 src \<noteq> 0)
      | VTM_ELEM_BOOL \<Rightarrow> Inr (elem_bool src)
      | VTM_ELEM_CHAR \<Rightarrow> Inr (elem_char src \<noteq> 0)
      | VTM_ELEM_UCHAR \<Rightarrow> Inr (elem_uchar src \<noteq> 0)
      | VTM_ELEM_SHORT \<Rightarrow> Inr (elem_short src \<noteq> 0)
      | VTM_ELEM_USHORT \<Rightarrow> Inr (elem_ushort src \<noteq> 0)
      | VTM_ELEM_INT \<Rightarrow> Inr (elem_int src \<noteq> 0)
      | VTM_ELEM_UINT \<Rightarrow> Inr (elem_uint src \<noteq> 0)
      | VTM_ELEM_LONG \<Rightarrow> Inr (elem_long src \<noteq> 0)
      | VTM_ELEM_ULONG \<Rightarrow> Inr (elem_ulong src \<noteq> 0)
      | VTM_ELEM_FLOAT \<Rightarrow> Inr (\<not> f_is_zero (f32_decode (elem_float src)))
      | VTM_ELEM_DOUBLE \<Rightarrow> Inr (\<not> f_is_zero (f64_decode (elem_double src)))
      | VTM_ELEM_STRING \<Rightarrow> Inr (bytes_of ''TRUE'' = elem_str src)
      | VTM_ELEM_BLOB \<Rightarrow> Inr False
      | VTM_ELEM_POINTER \<Rightarrow> Inr False
      | _ \<Rightarrow> Inl Conv_abort)"

definition vtm_elem_as_char :: "vtm_elem_type \<Rightarrow> vtm_elem \<Rightarrow> conv_err + 8 word" where
  "vtm_elem_as_char type src = VTM_ELEM_CONV_NUMERIC type src"

definition vtm_elem_as_schar :: "vtm_elem_type \<Rightarrow> vtm_elem \<Rightarrow> conv_err + 8 word" where
  "vtm_elem_as_schar type src = VTM_ELEM_CONV_NUMERIC type src"

definition vtm_elem_as_uchar :: "vtm_elem_type \<Rightarrow> vtm_elem \<Rightarrow> conv_err + 8 word" where
  "vtm_elem_as_uchar type src = VTM_ELEM_CONV_UNUMERIC type src"

definition vtm_elem_as_short :: "vtm_elem_type \<Rightarrow> vtm_elem \<Rightarrow> conv_err + 16 word" where
  "vtm_elem_as_short type src = VTM_ELEM_CONV_NUMERIC type src"

definition vtm_elem_as_ushort :: "vtm_elem_type \<Rightarrow> vtm_elem \<Rightarrow> conv_err + 16 word" where
  "vtm_elem_as_ushort type src = VTM_ELEM_CONV_UNUMERIC type src"

definition vtm_elem_as_int :: "vtm_elem_type \<Rightarrow> vtm_elem \<Rightarrow> conv_err + 32 word" where
  "vtm_elem_as_int type src = VTM_ELEM_CONV_NUMERIC type src"

definition vtm_elem_as_uint :: "vtm_elem_type \<Rightarrow> vtm_elem \<Rightarrow> conv_err + 32 word" where
  "vtm_elem_as_uint type src = VTM_ELEM_CONV_UNUMERIC type src"

definition vtm_elem_as_long :: "vtm_elem_type \<Rightarrow> vtm_elem \<Rightarrow> conv_err + 64 word" where
  "vtm_elem_as_long type src = VTM_ELEM_CONV_NUMERIC type src"

definition vtm_elem_as_ulong :: "vtm_elem_type \<Rightarrow> vtm_elem \<Rightarrow> conv_err + 64 word" where
  "vtm_elem_as_ulong type src = VTM_ELEM_CONV_UNUMERIC type src"

definition vtm_elem_as_double :: "vtm_elem_type \<Rightarrow> vtm_elem \<Rightarrow> conv_err + u64" where
  "vtm_elem_as_double type src =
     (case type of
        VTM_ELEM_INT8 \<Rightarrow> Inr (f64_of_int (sint (elem_int8 src)))
      | VTM_ELEM_UINT8 \<Rightarrow> Inr (f64_of_int (uint (elem_uint8 src)))
      | VTM_ELEM_INT16 \<Rightarrow> Inr (f64_of_int (sint (elem_int16 src)))
      | VTM_ELEM_UINT16 \<Rightarrow> Inr (f64_of_int (uint (elem_uint16 src)))
      | VTM_ELEM_INT32 \<Rightarrow> Inr (f64_of_int (sint (elem_int32 src)))
      | VTM_ELEM_UINT32 \<Rightarrow> Inr (f64_of_int (uint (elem_uint32 src)))
      | VTM_ELEM_INT64 \<Rightarrow> Inr (f64_of_int (sint (elem_int64 src)))
      | VTM_ELEM_UINT64 \<Rightarrow> Inr (f64_of_int (uint (elem_uint64 src)))
      | VTM_ELEM_BOOL \<Rightarrow> Inr (f64_of_int (if elem_bool src then 1 else 0))
      | VTM_ELEM_CHAR \<Rightarrow> Inr (f64_of_int (sint (elem_char src)))
      | VTM_ELEM_SCHAR \<Rightarrow> Inr (f64_of_int (sint (elem_schar src)))
      | VTM_ELEM_UCHAR \<Rightarrow> Inr (f64_of_int (uint (elem_uchar src)))
      | VTM_ELEM_SHORT \<Rightarrow> Inr (f64_of_int (sint (elem_short src)))
      | VTM_ELEM_USHORT \<Rightarrow> Inr (f64_of_int (uint (elem_ushort src)))
      | VTM_ELEM_INT \<Rightarrow> Inr (f64_of_int (sint (elem_int src)))
      | VTM_ELEM_UINT \<Rightarrow> Inr (f64_of_int (uint (elem_uint src)))
      | VTM_ELEM_LONG \<Rightarrow> Inr (f64_of_int (sint (elem_long src)))
      | VTM_ELEM_ULONG \<Rightarrow> Inr (f64_of_int (uint (elem_ulong src)))
      | VTM_ELEM_FLOAT \<Rightarrow> Inr (f32_to_f64 (elem_float src))
      | VTM_ELEM_DOUBLE \<Rightarrow> Inr (elem_double src)
      | VTM_ELEM_STRING \<Rightarrow> Inr (vtm_conv_str_double (elem_str src))
      | VTM_ELEM_BLOB \<Rightarrow> Inr 0
      | VTM_ELEM_POINTER \<Rightarrow> Inr 0
      | VTM_ELEM_NULL \<Rightarrow> Inl Conv_abort)"

definition vtm_elem_as_float :: "vtm_elem_type \<Rightarrow> vtm_elem \<Rightarrow> conv_err + u32" where
  "vtm_elem_as_float type src =
     (if type = VTM_ELEM_FLOAT then Inr (elem_float src)
      else map_sum id f64_to_f32 (vtm_elem_as_double type src))"

text \<open>The result of a printing conversion: a string, \<open>NULL\<close>, or no result.\<close>

definition conv_result :: "cstr option option \<Rightarrow> conv_err + cstr option" where
  "conv_result r = (case r of None \<Rightarrow> Inl Conv_loops | Some s \<Rightarrow> Inr s)"

definition VTM_ELEM_BOOL_TRUE :: cstr where
  "VTM_ELEM_BOOL_TRUE = bytes_of ''TRUE''"

definition VTM_ELEM_BOOL_FALSE :: cstr where
  "VTM_ELEM_BOOL_FALSE = bytes_of ''FALSE''"

definition vtm_elem_as_str ::
    "allocator \<Rightarrow> vtm_elem_type \<Rightarrow> vtm_elem \<Rightarrow> conv_err + cstr option" where
  "vtm_elem_as_str ma type src =
     (case type of
        VTM_ELEM_INT8 \<Rightarrow> conv_result (vtm_conv_int64_str (scast (elem_int8 src)))
      | VTM_ELEM_UINT8 \<Rightarrow> conv_result (vtm_conv_uint64_str (ucast (elem_uint8 src)))
      | VTM_ELEM_INT16 \<Rightarrow> conv_result (vtm_conv_int64_str (scast (elem_int16 src)))
      | VTM_ELEM_UINT16 \<Rightarrow> conv_result (vtm_conv_uint64_str (ucast (elem_uint16 src)))
      | VTM_ELEM_INT32 \<Rightarrow> conv_result (vtm_conv_int64_str (scast (elem_int32 src)))
      | VTM_ELEM_UINT32 \<Rightarrow> conv_result (vtm_conv_uint64_str (ucast (elem_uint32 src)))
      | VTM_ELEM_INT64 \<Rightarrow> conv_result (vtm_conv_int64_str (elem_int64 src))
      | VTM_ELEM_UINT64 \<Rightarrow> conv_result (vtm_conv_uint64_str (elem_uint64 src))
      | VTM_ELEM_BOOL \<Rightarrow> Inr (Some (vtm_str_copy (if elem_bool src then VTM_ELEM_BOOL_TRUE else VTM_ELEM_BOOL_FALSE)))
      | VTM_ELEM_CHAR \<Rightarrow> conv_result (vtm_conv_int64_str (scast (elem_char src)))
      | VTM_ELEM_SCHAR \<Rightarrow> conv_result (vtm_conv_int64_str (scast (elem_schar src)))
      | VTM_ELEM_UCHAR \<Rightarrow> conv_result (vtm_conv_uint64_str (ucast (elem_uchar src)))
      | VTM_ELEM_SHORT \<Rightarrow> conv_result (vtm_conv_int64_str (scast (elem_short src)))
      | VTM_ELEM_USHORT \<Rightarrow> conv_result (vtm_conv_uint64_str (ucast (elem_ushort src)))
      | VTM_ELEM_INT \<Rightarrow> conv_result (vtm_conv_int64_str (scast (elem_int src)))
      | VTM_ELEM_UINT \<Rightarrow> conv_result (vtm_conv_uint64_str (ucast (elem_uint src)))
      | VTM_ELEM_LONG \<Rightarrow> conv_result (vtm_conv_int64_str (elem_long src))
      | VTM_ELEM_ULONG \<Rightarrow> conv_result (vtm_conv_uint64_str (elem_ulong src))
      | VTM_ELEM_FLOAT \<Rightarrow> conv_result (vtm_conv_double_str (f32_to_f64 (elem_float src)))
      | VTM_ELEM_DOUBLE \<Rightarrow> conv_result (vtm_conv_double_str (elem_double src))
      | VTM_ELEM_STRING \<Rightarrow> Inr (Some (elem_str src))
      | VTM_ELEM_BLOB \<Rightarrow>
          (case elem_blob src of
             None \<Rightarrow> Inl Conv_undef
           | Some b \<Rightarrow> Inr (vtm_conv_blob_str ma b))
      | VTM_ELEM_POINTER \<Rightarrow> conv_result (vtm_conv_uint64_str (elem_pointer src))
      | VTM_ELEM_NULL \<Rightarrow> Inl Conv_abort)"

definition vtm_elem_as_blob :: "vtm_elem_type \<Rightarrow> vtm_elem \<Rightarrow> vtm_blob option" where
  "vtm_elem_as_blob type src = (if type = VTM_ELEM_BLOB then elem_blob src else None)"

definition vtm_elem_as_ptr :: "vtm_elem_type \<Rightarrow> vtm_elem \<Rightarrow> u64" where
  "vtm_elem_as_ptr type src = (if type = VTM_ELEM_POINTER then elem_pointer src else 0)"

subsection \<open>Comparisons\<close>

definition vtm_elem_cmp_int8 :: "vtm_elem \<Rightarrow> vtm_elem \<Rightarrow> bool" where
  "vtm_elem_cmp_int8 e1 e2 \<longleftrightarrow> elem_int8 e1 = elem_int8 e2"

definition vtm_elem_cmp_uint8 :: "vtm_elem \<Rightarrow> vtm_elem \<Rightarrow> bool" where
  "vtm_elem_cmp_uint8 e1 e2 \<longleftrightarrow> elem_uint8 e1 = elem_uint8 e2"

definition vtm_elem_cmp_int16 :: "vtm_elem \<Rightarrow> vtm_elem \<Rightarrow> bool" where
  "vtm_elem_cmp_int16 e1 e2 \<longleftrightarrow> elem_int16 e1 = elem_int16 e2"

definition vtm_elem_cmp_uint16 :: "vtm_elem \<Rightarrow> vtm_elem \<Rightarrow> bool" where
  "vtm_elem_cmp_uint16 e1 e2 \<longleftrightarrow> elem_uint16 e1 = elem_uint16 e2"

definition vtm_elem_cmp_int32 :: "vtm_elem \<Rightarrow> vtm_elem \<Rightarrow> bool" where
  "vtm_elem_cmp_int32 e1 e2 \<longleftrightarrow> elem_int32 e1 = elem_int32 e2"

definition vtm_elem_cmp_uint32 :: "vtm_elem \<Rightarrow> vtm_elem \<Rightarrow> bool" where
  "vtm_elem_cmp_uint32 e1 e2 \<longleftrightarrow> elem_uint32 e1 = elem_uint32 e2"

definition vtm_elem_cmp_int64 :: "vtm_elem \<Rightarrow> vtm_elem \<Rightarrow> bool" where
  "vtm_elem_cmp_int64 e1 e2 \<longleftrightarrow> elem_int64 e1 = elem_int64 e2"

definition vtm_elem_cmp_uint64 :: "vtm_elem \<Rightarrow> vtm_elem \<Rightarrow> bool" where
  "vtm_elem_cmp_uint64 e1 e2 \<longleftrightarrow> elem_uint64 e1 = elem_uint64 e2"

definition vtm_elem_cmp_bool :: "vtm_elem \<Rightarrow> vtm_elem \<Rightarrow> bool" where
  "vtm_elem_cmp_bool e1 e2 \<longleftrightarrow> elem_bool e1 = elem_bool e2"

definition vtm_elem_cmp_char :: "vtm_elem \<Rightarrow> vtm_elem \<Rightarrow> bool" where
  "vtm_elem_cmp_char e1 e2 \<longleftrightarrow> elem_char e1 = elem_char e2"

definition vtm_elem_cmp_schar :: "vtm_elem \<Rightarrow> vtm_elem \<Rightarrow> bool" where
  "vtm_elem_cmp_schar e1 e2 \<longleftrightarrow> elem_schar e1 = elem_schar e2"

definition vtm_elem_cmp_uchar :: "vtm_elem \<Rightarrow> vtm_elem \<Rightarrow> bool" where
  "vtm_elem_cmp_uchar e1 e2 \<longleftrightarrow> elem_uchar e1 = elem_uchar e2"

definition vtm_elem_cmp_short :: "vtm_elem \<Rightarrow> vtm_elem \<Rightarrow> bool" where
  "vtm_elem_cmp_short e1 e2 \<longleftrightarrow> elem_short e1 = elem_short e2"

definition vtm_elem_cmp_ushort :: "vtm_elem \<Rightarrow> vtm_elem \<Rightarrow> bool" where
  "vtm_elem_cmp_ushort e1 e2 \<longleftrightarrow> elem_ushort e1 = elem_ushort e2"

definition vtm_elem_cmp_int :: "vtm_elem \<Rightarrow> vtm_elem \<Rightarrow> bool" where
  "vtm_elem_cmp_int e1 e2 \<longleftrightarrow> elem_int e1 = elem_int e2"

definition vtm_elem_cmp_uint :: "vtm_elem \<Rightarrow> vtm_elem \<Rightarrow> bool" where
  "vtm_elem_cmp_uint e1 e2 \<longleftrightarrow> elem_uint e1 = elem_uint e2"

definition vtm_elem_cmp_long :: "vtm_elem \<Rightarrow> vtm_elem \<Rightarrow> bool" where
  "vtm_elem_cmp_long e1 e2 \<longleftrightarrow> elem_long e1 = elem_long e2"

definition vtm_elem_cmp_ulong :: "vtm_elem \<Rightarrow> vtm_elem \<Rightarrow> bool" where
  "vtm_elem_cmp_ulong e1 e2 \<longleftrightarrow> elem_ulong e1 = elem_ulong e2"

definition vtm_elem_cmp_float :: "vtm_elem \<Rightarrow> vtm_elem \<Rightarrow> bool" where
  "vtm_elem_cmp_float e1 e2 \<longleftrightarrow> f32_eq (elem_float e1) (elem_float e2)"

definition vtm_elem_cmp_double :: "vtm_elem \<Rightarrow> vtm_elem \<Rightarrow> bool" where
  "vtm_elem_cmp_double e1 e2 \<longleftrightarrow> f64_eq (elem_double e1) (elem_double e2)"

definition vtm_elem_cmp_str :: "vtm_elem \<Rightarrow> vtm_elem \<Rightarrow> bool" where
  "vtm_elem_cmp_str e1 e2 \<longleftrightarrow> elem_str e1 = elem_str e2"

definition vtm_elem_cmp_strcase :: "vtm_elem \<Rightarrow> vtm_elem \<Rightarrow> bool" where
  "vtm_elem_cmp_strcase e1 e2 \<longleftrightarrow> vtm_str_casecmp (elem_str e1) (elem_str e2) = 0"

definition vtm_elem_cmp_blob :: "vtm_elem \<Rightarrow> vtm_elem \<Rightarrow> bool" where
  "vtm_elem_cmp_blob e1 e2 \<longleftrightarrow>
     (case (elem_blob e1, elem_blob e2) of
        (None, None) \<Rightarrow> True
      | (None, Some _) \<Rightarrow> False
      | (Some _, None) \<Rightarrow> False
      | (Some b1, Some b2) \<Rightarrow>
          let s1 = vtm_blob_size b1; s2 = vtm_blob_size b2
          in if s1 \<noteq> s2 then False
             else take (unat s1) (blob_mem b1) = take (unat s1) (blob_mem b2))"

definition vtm_elem_cmp_ptr :: "vtm_elem \<Rightarrow> vtm_elem \<Rightarrow> bool" where
  "vtm_elem_cmp_ptr e1 e2 \<longleftrightarrow> elem_pointer e1 = elem_pointer e2"

fun vtm_elem_get_cmp_fn :: "vtm_elem_type \<Rightarrow> (vtm_elem \<Rightarrow> vtm_elem \<Rightarrow> bool) option" where
  "vtm_elem_get_cmp_fn VTM_ELEM_NULL = None"
| "vtm_elem_get_cmp_fn VTM_ELEM_INT8 = Some vtm_elem_cmp_int8"
| "vtm_elem_get_cmp_fn VTM_ELEM_UINT8 = Some vtm_elem_cmp_uint8"
| "vtm_elem_get_cmp_fn VTM_ELEM_INT16 = Some vtm_elem_cmp_int16"
| "vtm_elem_get_cmp_fn VTM_ELEM_UINT16 = Some vtm_elem_cmp_uint16"
| "vtm_elem_get_cmp_fn VTM_ELEM_INT32 = Some vtm_elem_cmp_int32"
| "vtm_elem_get_cmp_fn VTM_ELEM_UINT32 = Some vtm_elem_cmp_uint32"
| "vtm_elem_get_cmp_fn VTM_ELEM_INT64 = Some vtm_elem_cmp_int64"
| "vtm_elem_get_cmp_fn VTM_ELEM_UINT64 = Some vtm_elem_cmp_uint64"
| "vtm_elem_get_cmp_fn VTM_ELEM_BOOL = Some vtm_elem_cmp_bool"
| "vtm_elem_get_cmp_fn VTM_ELEM_CHAR = Some vtm_elem_cmp_char"
| "vtm_elem_get_cmp_fn VTM_ELEM_SCHAR = Some vtm_elem_cmp_schar"
| "vtm_elem_get_cmp_fn VTM_ELEM_UCHAR = Some vtm_elem_cmp_uchar"
| "vtm_elem_get_cmp_fn VTM_ELEM_SHORT = Some vtm_elem_cmp_short"
| "vtm_elem_get_cmp_fn VTM_ELEM_USHORT = Some vtm_elem_cmp_ushort"
| "vtm_elem_get_cmp_fn VTM_ELEM_INT = Some vtm_elem_cmp_int"
| "vtm_elem_get_cmp_fn VTM_ELEM_UINT = Some vtm_elem_cmp_uint"
| "vtm_elem_get_cmp_fn VTM_ELEM_LONG = Some vtm_elem_cmp_long"
| "vtm_elem_get_cmp_fn VTM_ELEM_ULONG = Some vtm_elem_cmp_ulong"
| "vtm_elem_get_cmp_fn VTM_ELEM_FLOAT = Some vtm_elem_cmp_float"
| "vtm_elem_get_cmp_fn VTM_ELEM_DOUBLE = Some vtm_elem_cmp_double"
| "vtm_elem_get_cmp_fn VTM_ELEM_STRING = Some vtm_elem_cmp_str"
| "vtm_elem_get_cmp_fn VTM_ELEM_BLOB = Some vtm_elem_cmp_blob"
| "vtm_elem_get_cmp_fn VTM_ELEM_POINTER = Some vtm_elem_cmp_ptr"

lemmas elem_cmp_defs =
  vtm_elem_cmp_int8_def vtm_elem_cmp_uint8_def vtm_elem_cmp_int16_def vtm_elem_cmp_uint16_def
  vtm_elem_cmp_int32_def vtm_elem_cmp_uint32_def vtm_elem_cmp_int64_def vtm_elem_cmp_uint64_def
  vtm_elem_cmp_bool_def vtm_elem_cmp_char_def vtm_elem_cmp_schar_def vtm_elem_cmp_uchar_def
  vtm_elem_cmp_short_def vtm_elem_cmp_ushort_def vtm_elem_cmp_int_def vtm_elem_cmp_uint_def
  vtm_elem_cmp_long_def vtm_elem_cmp_ulong_def vtm_elem_cmp_float_def vtm_elem_cmp_double_def
  vtm_elem_cmp_str_def vtm_elem_cmp_strcase_def vtm_elem_cmp_ptr_def

subsection \<open>Variants\<close>

text \<open>\<open>str\<close> caches the string representation of the value once it was asked for.\<close>

record vtm_variant =
  var_data :: vtm_elem
  var_type :: vtm_elem_type
  var_str :: "cstr option"

definition vtm_variant_init :: "vtm_variant \<Rightarrow> vtm_variant" where
  "vtm_variant_init var = var\<lparr>var_str := None\<rparr>"

text \<open>The string that is freed, if any: a string value is not owned by the variant.\<close>

definition vtm_variant_release :: "vtm_variant \<Rightarrow> cstr option" where
  "vtm_variant_release var =
     (if var_str var \<noteq> None \<and> var_type var \<noteq> VTM_ELEM_STRING then var_str var else None)"

definition vtm_variant_as_int8 :: "vtm_variant \<Rightarrow> conv_err + 8 word" where
  "vtm_variant_as_int8 var = vtm_elem_as_int8 (var_type var) (var_data var)"

definition vtm_variant_as_uint8 :: "vtm_variant \<Rightarrow> conv_err + 8 word" where
  "vtm_variant_as_uint8 var = vtm_elem_as_uint8 (var_type var) (var_data var)"

definition vtm_variant_as_int16 :: "vtm_variant \<Rightarrow> conv_err + 16 word" where
  "vtm_variant_as_int16 var = vtm_elem_as_int16 (var_type var) (var_data var)"

definition vtm_variant_as_uint16 :: "vtm_variant \<Rightarrow> conv_err + 16 word" where
  "vtm_variant_as_uint16 var = vtm_elem_as_uint16 (var_type var) (var_data var)"

definition vtm_variant_as_int32 :: "vtm_variant \<Rightarrow> conv_err + 32 word" where
  "vtm_variant_as_int32 var = vtm_elem_as_int32 (var_type var) (var_data var)"

definition vtm_variant_as_uint32 :: "vtm_variant \<Rightarrow> conv_err + 32 word" where
  "vtm_variant_as_uint32 var = vtm_elem_as_uint32 (var_type var) (var_data var)"

definition vtm_variant_as_int64 :: "vtm_variant \<Rightarrow> conv_err + 64 word" where
  "vtm_variant_as_int64 var = vtm_elem_as_int64 (var_type var) (var_data var)"

definition vtm_variant_as_uint64 :: "vtm_variant \<Rightarrow> conv_err + 64 word" where
  "vtm_variant_as_uint64 var = vtm_elem_as_uint64 (var_type var) (var_data var)"

definition vtm_variant_as_bool :: "vtm_variant \<Rightarrow> conv_err + bool" where
  "vtm_variant_as_bool var = vtm_elem_as_bool (var_type var) (var_data var)"

definition vtm_variant_as_char :: "vtm_variant \<Rightarrow> conv_err + 8 word" where
  "vtm_variant_as_char var = vtm_elem_as_char (var_type var) (var_data var)"

definition vtm_variant_as_schar :: "vtm_variant \<Rightarrow> conv_err + 8 word" where
  "vtm_variant_as_schar var = vtm_elem_as_schar (var_type var) (var_data var)"

definition vtm_variant_as_uchar :: "vtm_variant \<Rightarrow> conv_err + 8 word" where
  "vtm_variant_as_uchar var = vtm_elem_as_uchar (var_type var) (var_data var)"

definition vtm_variant_as_short :: "vtm_variant \<Rightarrow> conv_err + 16 word" where
  "vtm_variant_as_short var = vtm_elem_as_short (var_type var) (var_data var)"

definition vtm_variant_as_ushort :: "vtm_variant \<Rightarrow> conv_err + 16 word" where
  "vtm_variant_as_ushort var = vtm_elem_as_ushort (var_type var) (var_data var)"

definition vtm_variant_as_int :: "vtm_variant \<Rightarrow> conv_err + 32 word" where
  "vtm_variant_as_int var = vtm_elem_as_int (var_type var) (var_data var)"

definition vtm_variant_as_uint :: "vtm_variant \<Rightarrow> conv_err + 32 word" where
  "vtm_variant_as_uint var = vtm_elem_as_uint (var_type var) (var_data var)"

definition vtm_variant_as_long :: "vtm_variant \<Rightarrow> conv_err + 64 word" where
  "vtm_variant_as_long var = vtm_elem_as_long (var_type var) (var_data var)"

definition vtm_variant_as_ulong :: "vtm_variant \<Rightarrow> conv_err + 64 word" where
  "vtm_variant_as_ulong var = vtm_elem_as_ulong (var_type var) (var_data var)"

definition vtm_variant_as_float :: "vtm_variant \<Rightarrow> conv_err + 32 word" where
  "vtm_variant_as_float var = vtm_elem_as_float (var_type var) (var_data var)"

definition vtm_variant_as_double :: "vtm_variant \<Rightarrow> conv_err + 64 word" where
  "vtm_variant_as_double var = vtm_elem_as_double (var_type var) (var_data var)"

definition vtm_variant_as_str :: "allocator \<Rightarrow> vtm_variant \<Rightarrow> conv_err + cstr option \<times> vtm_variant" where
  "vtm_variant_as_str ma var =
     (case var_str var of
        Some s \<Rightarrow> Inr (Some s, var)
      | None \<Rightarrow> map_sum id (\<lambda>s. (s, var\<lparr>var_str := s\<rparr>))
                  (vtm_elem_as_str ma (var_type var) (var_data var)))"

definition vtm_variant_as_blob :: "vtm_variant \<Rightarrow> vtm_blob option" where
  "vtm_variant_as_blob var = vtm_elem_as_blob (var_type var) (var_data var)"

definition vtm_variant_as_ptr :: "vtm_variant \<Rightarrow> u64" where
  "vtm_variant_as_ptr var = vtm_elem_as_ptr (var_type var) (var_data var)"

definition vtm_variant_from_null :: vtm_variant where
  "vtm_variant_from_null = \<lparr>var_data = Elem_null, var_type = VTM_ELEM_NULL, var_str = None\<rparr>"

definition vtm_variant_from_int8 :: "8 word \<Rightarrow> vtm_variant" where
  "vtm_variant_from_int8 val =
     \<lparr>var_data = Elem_int8 val, var_type = VTM_ELEM_INT8, var_str = None\<rparr>"

definition vtm_variant_from_uint8 :: "8 word \<Rightarrow> vtm_variant" where
  "vtm_variant_from_uint8 val =
     \<lparr>var_data = Elem_uint8 val, var_type = VTM_ELEM_UINT8, var_str = None\<rparr>"

definition vtm_variant_from_int16 :: "16 word \<Rightarrow> vtm_variant" where
  "vtm_variant_from_int16 val =
     \<lparr>var_data = Elem_int16 val, var_type = VTM_ELEM_INT16, var_str = None\<rparr>"

definition vtm_variant_from_uint16 :: "16 word \<Rightarrow> vtm_variant" where
  "vtm_variant_from_uint16 val =
     \<lparr>var_data = Elem_uint16 val, var_type = VTM_ELEM_UINT16, var_str = None\<rparr>"

definition vtm_variant_from_int32 :: "32 word \<Rightarrow> vtm_variant" where
  "vtm_variant_from_int32 val =
     \<lparr>var_data = Elem_int32 val, var_type = VTM_ELEM_INT32, var_str = None\<rparr>"

definition vtm_variant_from_uint32 :: "32 word \<Rightarrow> vtm_variant" where
  "vtm_variant_from_uint32 val =
     \<lparr>var_data = Elem_uint32 val, var_type = VTM_ELEM_UINT32, var_str = None\<rparr>"

definition vtm_variant_from_int64 :: "64 word \<Rightarrow> vtm_variant" where
  "vtm_variant_from_int64 val =
     \<lparr>var_data = Elem_int64 val, var_type = VTM_ELEM_INT64, var_str = None\<rparr>"

definition vtm_variant_from_uint64 :: "64 word \<Rightarrow> vtm_variant" where
  "vtm_variant_from_uint64 val =
     \<lparr>var_data = Elem_uint64 val, var_type = VTM_ELEM_UINT64, var_str = None\<rparr>"

definition vtm_variant_from_bool :: "bool \<Rightarrow> vtm_variant" where
  "vtm_variant_from_bool val =
     \<lparr>var_data = Elem_bool val, var_type = VTM_ELEM_BOOL, var_str = None\<rparr>"

definition vtm_variant_from_char :: "8 word \<Rightarrow> vtm_variant" where
  "vtm_variant_from_char val =
     \<lparr>var_data = Elem_char val, var_type = VTM_ELEM_CHAR, var_str = None\<rparr>"

definition vtm_variant_from_schar :: "8 word \<Rightarrow> vtm_variant" where
  "vtm_variant_from_schar val =
     \<lparr>var_data = Elem_schar val, var_type = VTM_ELEM_SCHAR, var_str = None\<rparr>"

definition vtm_variant_from_uchar :: "8 word \<Rightarrow> vtm_variant" where
  "vtm_variant_from_uchar val =
     \<lparr>var_data = Elem_uchar val, var_type = VTM_ELEM_UCHAR, var_str = None\<rparr>"

definition vtm_variant_from_short :: "16 word \<Rightarrow> vtm_variant" where
  "vtm_variant_from_short val =
     \<lparr>var_data = Elem_short val, var_type = VTM_ELEM_SHORT, var_str = None\<rparr>"

definition vtm_variant_from_ushort :: "16 word \<Rightarrow> vtm_variant" where
  "vtm_variant_from_ushort val =
     \<lparr>var_data = Elem_ushort val, var_type = VTM_ELEM_USHORT, var_str = None\<rparr>"

definition vtm_variant_from_int :: "32 word \<Rightarrow> vtm_variant" where
  "vtm_variant_from_int val =
     \<lparr>var_data = Elem_int val, var_type = VTM_ELEM_INT, var_str = None\<rparr>"

definition vtm_variant_from_uint :: "32 word \<Rightarrow> vtm_variant" where
  "vtm_variant_from_uint val =
     \<lparr>var_data = Elem_uint val, var_type = VTM_ELEM_UINT, var_str = None\<rparr>"

definition vtm_variant_from_long :: "64 word \<Rightarrow> vtm_variant" where
  "vtm_variant_from_long val =
     \<lparr>var_data = Elem_long val, var_type = VTM_ELEM_LONG, var_str = None\<rparr>"

definition vtm_variant_from_ulong :: "64 word \<Rightarrow> vtm_variant" where
  "vtm_variant_from_ulong val =
     \<lparr>var_data = Elem_ulong val, var_type = VTM_ELEM_ULONG, var_str = None\<rparr>"

definition vtm_variant_from_float :: "u32 \<Rightarrow> vtm_variant" where
  "vtm_variant_from_float val =
     \<lparr>var_data = Elem_float val, var_type = VTM_ELEM_FLOAT, var_str = None\<rparr>"

definition vtm_variant_from_double :: "u64 \<Rightarrow> vtm_variant" where
  "vtm_variant_from_double val =
     \<lparr>var_data = Elem_double val, var_type = VTM_ELEM_DOUBLE, var_str = None\<rparr>"

definition vtm_variant_from_str :: "cstr \<Rightarrow> vtm_variant" where
  "vtm_variant_from_str val =
     \<lparr>var_data = Elem_str val, var_type = VTM_ELEM_STRING, var_str = None\<rparr>"

definition vtm_variant_from_blob :: "vtm_blob option \<Rightarrow> vtm_variant" where
  "vtm_variant_from_blob val =
     \<lparr>var_data = Elem_blob val, var_type = VTM_ELEM_BLOB, var_str = None\<rparr>"

definition vtm_variant_from_ptr :: "u64 \<Rightarrow> vtm_variant" where
  "vtm_variant_from_ptr val =
     \<lparr>var_data = Elem_ptr val, var_type = VTM_ELEM_POINTER, var_str = None\<rparr>"

subsection \<open>Printing and parsing integers\<close>

lemma c_isdigit_iff: "c_isdigit c \<longleftrightarrow> 48 \<le> unat c \<and> unat c \<le> 57"
  by (simp add: c_isdigit_def word_le_nat_alt)

lemma unat_dec_digit: "d < 10 \<Longrightarrow> unat (48 + of_nat d :: byte) = 48 + d"
  by (simp add: unat_word_ariths)

lemma nat_dec_digits:
  "nat_dec n \<noteq> [] \<and> list_all c_isdigit (nat_dec n)
   \<and> foldl (\<lambda>a c. 10 * a + (unat c - 48)) 0 (nat_dec n) = n"
proof (induction n rule: nat_dec.induct)
  case (1 n)
  have d: "unat (48 + of_nat (n mod 10) :: byte) = 48 + n mod 10" by (rule unat_dec_digit) simp
  show ?case
  proof (cases "n < 10")
    case True
    then have "n mod 10 = n" by simp
    then show ?thesis using True d by (simp add: nat_dec.simps [of n] c_isdigit_iff)
  next
    case False
    then show ?thesis using 1 d by (simp add: nat_dec.simps [of n] c_isdigit_iff)
  qed
qed

lemma nat_dec_length: "n < 10 ^ Suc k \<Longrightarrow> length (nat_dec n) \<le> Suc k"
proof (induction k arbitrary: n)
  case 0
  then show ?case by (simp add: nat_dec.simps)
next
  case (Suc k)
  then have "n div 10 < 10 ^ Suc k" by (simp add: div_less_iff_less_mult)
  then show ?case using Suc.IH by (simp add: nat_dec.simps [of n])
qed

lemma c_digits_nat_dec: "c_digits (nat_dec n) = n"
proof -
  have "takeWhile c_isdigit (nat_dec n) = nat_dec n"
    using nat_dec_digits [of n] by (simp add: takeWhile_eq_all_conv list_all_iff)
  then show ?thesis using nat_dec_digits [of n] by (simp only: c_digits_def)
qed

lemma nat_dec_hd:
  "c_isdigit (c_hd (nat_dec n))" "dropWhile c_isspace (nat_dec n) = nat_dec n"
  "c_hd (nat_dec n) \<noteq> 45" "c_hd (nat_dec n) \<noteq> 43"
proof -
  show dig: "c_isdigit (c_hd (nat_dec n))"
    using nat_dec_digits [of n] by (cases "nat_dec n") (auto simp: c_hd_def)
  then show "c_hd (nat_dec n) \<noteq> 45" "c_hd (nat_dec n) \<noteq> 43" by (auto simp: c_isdigit_iff)
  have "\<not> c_isspace (c_hd (nat_dec n))"
    using dig by (auto simp: c_isdigit_iff c_isspace_def word_le_nat_alt)
  then show "dropWhile c_isspace (nat_dec n) = nat_dec n"
    using nat_dec_digits [of n] by (cases "nat_dec n") (auto simp: c_hd_def)
qed

lemma strtoll_int_dec:
  assumes "- (2 ^ 63) \<le> i" and "i < 2 ^ 63"
  shows "c_strtoll (int_dec i) = word_of_int i"
proof (cases "i < 0")
  case True
  then show ?thesis using assms
    by (simp add: c_strtoll_def int_dec_def c_isspace_def c_hd_def c_digits_nat_dec)
next
  case False
  then show ?thesis using assms nat_dec_hd [of "nat i"]
    by (simp add: c_strtoll_def int_dec_def c_digits_nat_dec)
qed

lemma strtoull_int_dec:
  assumes "0 \<le> i" and "i < 2 ^ 64"
  shows "c_strtoull (int_dec i) = word_of_int i"
proof -
  have "\<not> 18446744073709551615 < nat i" "int (nat i) = i" using assms by simp_all
  then show ?thesis using assms(1) nat_dec_hd [of "nat i"]
    by (simp add: c_strtoull_def int_dec_def c_digits_nat_dec)
qed

lemma int_dec_length: "\<bar>i\<bar> < 2 ^ 64 \<Longrightarrow> length (int_dec i) \<le> 21"
proof -
  assume "\<bar>i\<bar> < 2 ^ 64"
  then have "nat i < 10 ^ Suc 19" "nat (- i) < 10 ^ Suc 19" by simp_all
  from this [THEN nat_dec_length] show ?thesis by (simp add: int_dec_def)
qed

lemma vprintf_3_returns:
  assumes "length fmt = 3" and "length out \<le> 21"
  shows "vtm_str_vprintf fmt out = Some (Some out)"
proof -
  have "\<exists>sz. str_vprintf_loop 3 (length out) = Some sz \<and> sz \<noteq> 0"
    using assms(2)
    by (simp add: str_vprintf_loop.simps [of 3] str_vprintf_loop.simps [of 6]
        str_vprintf_loop.simps [of 12] vtm_math_size_mul_def)
  then show ?thesis using assms(1) by (auto simp: vtm_str_vprintf_def)
qed

lemma conv_int64_str_eq: "vtm_conv_int64_str n = Some (Some (int_dec (sint n)))"
proof -
  have "\<bar>sint n\<bar> < 2 ^ 64" using sint_lt [of n] sint_ge [of n] by simp
  then show ?thesis unfolding vtm_conv_int64_str_def
    by (intro vprintf_3_returns int_dec_length) (simp_all add: bytes_of_def)
qed

lemma conv_uint64_str_eq: "vtm_conv_uint64_str n = Some (Some (int_dec (uint n)))"
proof -
  have "\<bar>uint n\<bar> < 2 ^ 64" using uint_lt2p [of n] by simp
  then show ?thesis unfolding vtm_conv_uint64_str_def
    by (intro vprintf_3_returns int_dec_length) (simp_all add: bytes_of_def)
qed

lemma conv_str_int64_inv:
  assumes "LENGTH('a) \<le> 64"
  shows "vtm_conv_str_int64 (int_dec (sint (w :: 'a::len word))) = word_of_int (sint w)"
proof -
  have "(2 :: int) ^ (LENGTH('a) - 1) \<le> 2 ^ 63" using assms by (intro power_increasing) auto
  then show ?thesis using sint_lt [of w] sint_ge [of w]
    unfolding vtm_conv_str_int64_def by (intro strtoll_int_dec) linarith+
qed

lemma conv_str_uint64_inv:
  assumes "LENGTH('a) \<le> 64"
  shows "vtm_conv_str_uint64 (int_dec (uint (w :: 'a::len word))) = word_of_int (uint w)"
proof -
  have "(2 :: int) ^ LENGTH('a) \<le> 2 ^ 64" using assms by (intro power_increasing) auto
  then show ?thesis using uint_lt2p [of w]
    unfolding vtm_conv_str_uint64_def by (intro strtoull_int_dec uint_ge_0) linarith
qed

text \<open>The integer types, by the conversion the macros apply to their strings.\<close>

definition elem_signed :: "vtm_elem_type \<Rightarrow> bool" where
  "elem_signed t \<longleftrightarrow>
     t \<in> {VTM_ELEM_INT8, VTM_ELEM_INT16, VTM_ELEM_INT32, VTM_ELEM_INT64, VTM_ELEM_CHAR,
          VTM_ELEM_SCHAR, VTM_ELEM_SHORT, VTM_ELEM_INT, VTM_ELEM_LONG}"

definition elem_unsigned :: "vtm_elem_type \<Rightarrow> bool" where
  "elem_unsigned t \<longleftrightarrow>
     t \<in> {VTM_ELEM_UINT8, VTM_ELEM_UINT16, VTM_ELEM_UINT32, VTM_ELEM_UINT64, VTM_ELEM_UCHAR,
          VTM_ELEM_USHORT, VTM_ELEM_UINT, VTM_ELEM_ULONG}"

lemma sint_scast_up: "LENGTH('a) \<le> LENGTH('b) \<Longrightarrow> sint (scast (w :: 'a::len word) :: 'b::len word) = sint w"
  by (rule sint_up_scast) (simp add: is_up_def target_size_def source_size_def word_size)

lemma uint_ucast_up: "LENGTH('a) \<le> LENGTH('b) \<Longrightarrow> uint (ucast (w :: 'a::len word) :: 'b::len word) = uint w"
  by (rule uint_up_ucast) (simp add: is_up_def target_size_def source_size_def word_size)

text \<open>
  An integer element survives the way through its string: whatever its width and signedness,
  \<open>vtm_elem_as_str\<close> returns a string, and reading that string back as a 64 bit integer of the same
  signedness gives the value the element itself converts to.
\<close>

theorem elem_str_roundtrip:
  assumes "elem_signed (elem_type e) \<or> elem_unsigned (elem_type e)"
  shows "\<exists>s. vtm_elem_as_str ma (elem_type e) e = Inr (Some s)
     \<and> (if elem_signed (elem_type e)
        then vtm_elem_as_int64 VTM_ELEM_STRING (Elem_str s) = vtm_elem_as_int64 (elem_type e) e
        else vtm_elem_as_uint64 VTM_ELEM_STRING (Elem_str s) = vtm_elem_as_uint64 (elem_type e) e)"
  using assms
  by (cases e)
    (simp_all add: elem_signed_def elem_unsigned_def vtm_elem_as_str_def conv_result_def
      conv_int64_str_eq conv_uint64_str_eq vtm_elem_as_int64_def vtm_elem_as_uint64_def
      VTM_ELEM_CONV_NUMERIC_def VTM_ELEM_CONV_UNUMERIC_def conv_str_int64_inv conv_str_uint64_inv
      sint_scast_up uint_ucast_up)

theorem elem_str_roundtrip_witness:
  "\<exists>s. vtm_elem_as_str alloc_all VTM_ELEM_INT16 (Elem_int16 0xfff6) = Inr (Some s)
     \<and> vtm_elem_as_int64 VTM_ELEM_STRING (Elem_str s)
         = vtm_elem_as_int64 VTM_ELEM_INT16 (Elem_int16 0xfff6)"
  using elem_str_roundtrip [of "Elem_int16 0xfff6" alloc_all] by (simp add: elem_signed_def)

text \<open>
  \<open>vtm_elem_as_bool\<close> converts every element but two: it aborts for the NULL type, as the other
  conversions do, and also for \<open>signed char\<close>, whose case is missing.
\<close>

theorem elem_as_bool_abort_iff:
  "vtm_elem_as_bool (elem_type e) e = Inl Conv_abort
     \<longleftrightarrow> elem_type e = VTM_ELEM_NULL \<or> elem_type e = VTM_ELEM_SCHAR"
  by (cases e) (simp_all add: vtm_elem_as_bool_def)

end
