(* ===== verification/Hash.thy ===== *)
theory Hash
  imports Elem Interfaces
begin

text \<open>
  \<open>core/hash.c\<close>: the hash functions of strings, memory and numbers, and the one for each element
  type. A \<open>char\<close> is sign-extended before it is combined with the hash.
\<close>

definition VTM_HASH_INIT :: u32 where
  "VTM_HASH_INIT = 2503"

definition VTM_HASH_MAGIC_32 :: u32 where
  "VTM_HASH_MAGIC_32 = 0x54321bb7"

definition VTM_HASH_MAGIC_64 :: u64 where
  "VTM_HASH_MAGIC_64 = 0x4c13b5651eba82cb"

definition hash_step :: "u32 \<Rightarrow> byte \<Rightarrow> u32" where
  "hash_step h c = (push_bit 13 h - h) XOR scast c"

text \<open>The loop over a string ends at its NUL.\<close>

fun hash_str_loop :: "u32 \<Rightarrow> cstr \<Rightarrow> u32" where
  "hash_str_loop h [] = h"
| "hash_str_loop h (c # s) = (if c = 0 then h else hash_str_loop (hash_step h c) s)"

definition vtm_hash_str :: "cstr \<Rightarrow> u32" where
  "vtm_hash_str s = hash_str_loop VTM_HASH_INIT s"

fun hash_strcase_loop :: "u32 \<Rightarrow> cstr \<Rightarrow> u32" where
  "hash_strcase_loop h [] = h"
| "hash_strcase_loop h (c # s) =
     (if c = 0 then h else hash_strcase_loop (hash_step h (c_tolower c)) s)"

definition vtm_hash_strcase :: "cstr \<Rightarrow> u32" where
  "vtm_hash_strcase s = hash_strcase_loop VTM_HASH_INIT s"

definition vtm_hash_mem :: "byte list \<Rightarrow> u32" where
  "vtm_hash_mem mem = foldl hash_step VTM_HASH_INIT mem"

definition vtm_hash_unum :: "u64 \<Rightarrow> u32" where
  "vtm_hash_unum n = (ucast (drop_bit 32 n) + ucast (n AND 0xffffffff)) * VTM_HASH_MAGIC_32"

definition vtm_hash_num :: "u64 \<Rightarrow> u32" where
  "vtm_hash_num n = vtm_hash_unum n"

definition vtm_hash_ptr :: "u64 \<Rightarrow> u32" where
  "vtm_hash_ptr p = vtm_hash_unum (p * VTM_HASH_MAGIC_64)"

subsection \<open>Elements\<close>

definition vtm_hash_elem_int8 :: "vtm_elem \<Rightarrow> u32" where
  "vtm_hash_elem_int8 el = vtm_hash_num (scast (elem_int8 el))"

definition vtm_hash_elem_uint8 :: "vtm_elem \<Rightarrow> u32" where
  "vtm_hash_elem_uint8 el = vtm_hash_unum (ucast (elem_uint8 el))"

definition vtm_hash_elem_int16 :: "vtm_elem \<Rightarrow> u32" where
  "vtm_hash_elem_int16 el = vtm_hash_num (scast (elem_int16 el))"

definition vtm_hash_elem_uint16 :: "vtm_elem \<Rightarrow> u32" where
  "vtm_hash_elem_uint16 el = vtm_hash_unum (ucast (elem_uint16 el))"

definition vtm_hash_elem_int32 :: "vtm_elem \<Rightarrow> u32" where
  "vtm_hash_elem_int32 el = vtm_hash_num (scast (elem_int32 el))"

definition vtm_hash_elem_uint32 :: "vtm_elem \<Rightarrow> u32" where
  "vtm_hash_elem_uint32 el = vtm_hash_unum (ucast (elem_uint32 el))"

definition vtm_hash_elem_int64 :: "vtm_elem \<Rightarrow> u32" where
  "vtm_hash_elem_int64 el = vtm_hash_num (elem_int64 el)"

definition vtm_hash_elem_uint64 :: "vtm_elem \<Rightarrow> u32" where
  "vtm_hash_elem_uint64 el = vtm_hash_unum (elem_uint64 el)"

definition vtm_hash_elem_bool :: "vtm_elem \<Rightarrow> u32" where
  "vtm_hash_elem_bool el = vtm_hash_num (if elem_bool el then 1 else 0)"

definition vtm_hash_elem_char :: "vtm_elem \<Rightarrow> u32" where
  "vtm_hash_elem_char el = vtm_hash_num (scast (elem_char el))"

definition vtm_hash_elem_schar :: "vtm_elem \<Rightarrow> u32" where
  "vtm_hash_elem_schar el = vtm_hash_num (scast (elem_schar el))"

definition vtm_hash_elem_uchar :: "vtm_elem \<Rightarrow> u32" where
  "vtm_hash_elem_uchar el = vtm_hash_unum (ucast (elem_uchar el))"

definition vtm_hash_elem_short :: "vtm_elem \<Rightarrow> u32" where
  "vtm_hash_elem_short el = vtm_hash_num (scast (elem_short el))"

definition vtm_hash_elem_ushort :: "vtm_elem \<Rightarrow> u32" where
  "vtm_hash_elem_ushort el = vtm_hash_unum (ucast (elem_ushort el))"

definition vtm_hash_elem_int :: "vtm_elem \<Rightarrow> u32" where
  "vtm_hash_elem_int el = vtm_hash_num (scast (elem_int el))"

definition vtm_hash_elem_uint :: "vtm_elem \<Rightarrow> u32" where
  "vtm_hash_elem_uint el = vtm_hash_unum (ucast (elem_uint el))"

definition vtm_hash_elem_long :: "vtm_elem \<Rightarrow> u32" where
  "vtm_hash_elem_long el = vtm_hash_num (elem_long el)"

definition vtm_hash_elem_ulong :: "vtm_elem \<Rightarrow> u32" where
  "vtm_hash_elem_ulong el = vtm_hash_unum (elem_ulong el)"

text \<open>The bytes of a floating point object are hashed in memory order, here of a little-endian host.\<close>

definition vtm_hash_elem_float :: "vtm_elem \<Rightarrow> u32" where
  "vtm_hash_elem_float el = vtm_hash_mem (mem_of VTM_BYTEORDER_LE (elem_float el))"

definition vtm_hash_elem_double :: "vtm_elem \<Rightarrow> u32" where
  "vtm_hash_elem_double el = vtm_hash_mem (mem_of VTM_BYTEORDER_LE (elem_double el))"

definition vtm_hash_elem_str :: "vtm_elem \<Rightarrow> u32" where
  "vtm_hash_elem_str el = vtm_hash_str (elem_str el)"

definition vtm_hash_elem_strcase :: "vtm_elem \<Rightarrow> u32" where
  "vtm_hash_elem_strcase el = vtm_hash_strcase (elem_str el)"

text \<open>The size of a NULL block is read from unmapped memory; such a key never occurs.\<close>

definition vtm_hash_elem_blob :: "vtm_elem \<Rightarrow> u32" where
  "vtm_hash_elem_blob el =
     (let b = the (elem_blob el) in vtm_hash_mem (take (unat (vtm_blob_size b)) (blob_mem b)))"

definition vtm_hash_elem_ptr :: "vtm_elem \<Rightarrow> u32" where
  "vtm_hash_elem_ptr el = vtm_hash_ptr (elem_pointer el)"

fun vtm_hash_elem_get_fn :: "vtm_elem_type \<Rightarrow> (vtm_elem \<Rightarrow> u32) option" where
  "vtm_hash_elem_get_fn VTM_ELEM_NULL = None"
| "vtm_hash_elem_get_fn VTM_ELEM_INT8 = Some vtm_hash_elem_int8"
| "vtm_hash_elem_get_fn VTM_ELEM_UINT8 = Some vtm_hash_elem_uint8"
| "vtm_hash_elem_get_fn VTM_ELEM_INT16 = Some vtm_hash_elem_int16"
| "vtm_hash_elem_get_fn VTM_ELEM_UINT16 = Some vtm_hash_elem_uint16"
| "vtm_hash_elem_get_fn VTM_ELEM_INT32 = Some vtm_hash_elem_int32"
| "vtm_hash_elem_get_fn VTM_ELEM_UINT32 = Some vtm_hash_elem_uint32"
| "vtm_hash_elem_get_fn VTM_ELEM_INT64 = Some vtm_hash_elem_int64"
| "vtm_hash_elem_get_fn VTM_ELEM_UINT64 = Some vtm_hash_elem_uint64"
| "vtm_hash_elem_get_fn VTM_ELEM_BOOL = Some vtm_hash_elem_bool"
| "vtm_hash_elem_get_fn VTM_ELEM_CHAR = Some vtm_hash_elem_char"
| "vtm_hash_elem_get_fn VTM_ELEM_SCHAR = Some vtm_hash_elem_schar"
| "vtm_hash_elem_get_fn VTM_ELEM_UCHAR = Some vtm_hash_elem_uchar"
| "vtm_hash_elem_get_fn VTM_ELEM_SHORT = Some vtm_hash_elem_short"
| "vtm_hash_elem_get_fn VTM_ELEM_USHORT = Some vtm_hash_elem_ushort"
| "vtm_hash_elem_get_fn VTM_ELEM_INT = Some vtm_hash_elem_int"
| "vtm_hash_elem_get_fn VTM_ELEM_UINT = Some vtm_hash_elem_uint"
| "vtm_hash_elem_get_fn VTM_ELEM_LONG = Some vtm_hash_elem_long"
| "vtm_hash_elem_get_fn VTM_ELEM_ULONG = Some vtm_hash_elem_ulong"
| "vtm_hash_elem_get_fn VTM_ELEM_FLOAT = Some vtm_hash_elem_float"
| "vtm_hash_elem_get_fn VTM_ELEM_DOUBLE = Some vtm_hash_elem_double"
| "vtm_hash_elem_get_fn VTM_ELEM_STRING = Some vtm_hash_elem_str"
| "vtm_hash_elem_get_fn VTM_ELEM_BLOB = Some vtm_hash_elem_blob"
| "vtm_hash_elem_get_fn VTM_ELEM_POINTER = Some vtm_hash_elem_ptr"

subsection \<open>Keys\<close>

text \<open>
  The keys a map of key type \<open>t\<close> can look up: comparison is equality for them. Floating point
  keys are not among them, since two equal ones may hash differently.
\<close>

definition elem_key_ok :: "vtm_elem_type \<Rightarrow> vtm_elem \<Rightarrow> bool" where
  "elem_key_ok t e \<longleftrightarrow>
     elem_type e = t \<and> t \<notin> {VTM_ELEM_NULL, VTM_ELEM_FLOAT, VTM_ELEM_DOUBLE}
     \<and> (t = VTM_ELEM_BLOB \<longrightarrow> (case elem_blob e of None \<Rightarrow> False | Some b \<Rightarrow> vtm_blob_inv b))"

definition elem_cmp :: "vtm_elem_type \<Rightarrow> vtm_elem \<Rightarrow> vtm_elem \<Rightarrow> bool" where
  "elem_cmp t = the (vtm_elem_get_cmp_fn t)"

definition elem_hash :: "vtm_elem_type \<Rightarrow> vtm_elem \<Rightarrow> u32" where
  "elem_hash t = the (vtm_hash_elem_get_fn t)"

lemma blob_cmp_eq:
  assumes "vtm_blob_inv a" and "vtm_blob_inv b"
  shows "vtm_elem_cmp_blob (Elem_blob (Some a)) (Elem_blob (Some b)) \<longleftrightarrow> a = b"
proof -
  have u: "unat (vtm_blob_size x) = unat (blob_len x)" for x
    by (simp add: vtm_blob_size_def unat_ucast_up)
  have "blob_len a = blob_len b \<longleftrightarrow> vtm_blob_size a = vtm_blob_size b"
    using u [of a] u [of b] by (metis word_unat_eq_iff)
  then show ?thesis using assms
    by (auto simp: vtm_elem_cmp_blob_def vtm_blob_inv_def u intro: vtm_blob.equality)
qed

lemma elem_cmp_eq: "elem_key_ok t a \<Longrightarrow> elem_key_ok t b \<Longrightarrow> elem_cmp t a b \<longleftrightarrow> a = b"
  by (cases a; cases b)
    (auto simp: elem_key_ok_def elem_cmp_def elem_cmp_defs blob_cmp_eq
      split: option.splits)

lemma hash_strcase_loop_eq:
  "no_nul s \<Longrightarrow> hash_strcase_loop h s = foldl hash_step h (map c_tolower s)"
  by (induction s arbitrary: h) auto

lemma hash_strcase_resp:
  "no_nul s \<Longrightarrow> no_nul t \<Longrightarrow> map c_tolower s = map c_tolower t \<Longrightarrow>
     vtm_hash_strcase s = vtm_hash_strcase t"
  by (simp add: vtm_hash_strcase_def hash_strcase_loop_eq)

interpretation ek: hash_key "elem_key_ok t" "elem_cmp t" "elem_hash t" id for t
  by unfold_locales (auto simp: elem_cmp_eq)

text \<open>Field names compared without regard to case: the names are normalised to lower case.\<close>

definition str_key_ok :: "vtm_elem \<Rightarrow> bool" where
  "str_key_ok e \<longleftrightarrow> elem_type e = VTM_ELEM_STRING \<and> no_nul (elem_str e)"

definition str_lower :: "vtm_elem \<Rightarrow> cstr" where
  "str_lower e = map c_tolower (elem_str e)"

interpretation sk: hash_key str_key_ok vtm_elem_cmp_strcase vtm_hash_elem_strcase str_lower
  by unfold_locales
    (auto simp: str_key_ok_def str_lower_def vtm_elem_cmp_strcase_def vtm_hash_elem_strcase_def
      casecmp_zero_iff intro: hash_strcase_resp)

end
