(* ===== verification/Table.thy ===== *)
theory Table
  imports Interfaces "HOL-Library.Multiset"
begin

text \<open>
  Chained hash tables: what the hash map of \<open>core/map.c\<close> and the generic map of \<open>core/smap.h\<close> have in
  common. A table is the list of its buckets, a bucket the list of the entries of its chain; both
  maps find an entry by walking the chain of the bucket its key's hash selects.
\<close>

text \<open>The position of the first entry of a chain whose key compares equal.\<close>

fun chain_pos :: "('k \<Rightarrow> 'k \<Rightarrow> bool) \<Rightarrow> ('e \<Rightarrow> 'k) \<Rightarrow> 'k \<Rightarrow> 'e list \<Rightarrow> nat option" where
  "chain_pos cmp key k [] = None"
| "chain_pos cmp key k (e # es) =
     (if cmp (key e) k then Some 0 else map_option Suc (chain_pos cmp key k es))"

definition chain_get :: "('k \<Rightarrow> 'k \<Rightarrow> bool) \<Rightarrow> ('e \<Rightarrow> 'k) \<Rightarrow> 'e list \<Rightarrow> 'k \<Rightarrow> 'e option" where
  "chain_get cmp key es k = map_option (\<lambda>i. es ! i) (chain_pos cmp key k es)"

definition bucket_index :: "u32 \<Rightarrow> nat \<Rightarrow> nat" where
  "bucket_index h n = unat h mod n"

definition table_get ::
    "('k \<Rightarrow> 'k \<Rightarrow> bool) \<Rightarrow> ('k \<Rightarrow> u32) \<Rightarrow> ('e \<Rightarrow> 'k) \<Rightarrow> 'e list list \<Rightarrow> 'k \<Rightarrow> 'e option" where
  "table_get cmp hash key bs k = chain_get cmp key (bs ! bucket_index (hash k) (length bs)) k"

text \<open>
  Every entry has a valid key and lies in the bucket of its hash, and no two keys of a bucket are
  the same.
\<close>

definition table_inv ::
    "('k \<Rightarrow> bool) \<Rightarrow> ('k \<Rightarrow> u32) \<Rightarrow> ('k \<Rightarrow> 'n) \<Rightarrow> ('e \<Rightarrow> 'k) \<Rightarrow> 'e list list \<Rightarrow> bool" where
  "table_inv ok hash norm key bs \<longleftrightarrow>
     bs \<noteq> []
     \<and> (\<forall>i < length bs.
          (\<forall>e \<in> set (bs ! i). ok (key e) \<and> bucket_index (hash (key e)) (length bs) = i)
          \<and> distinct (map (norm \<circ> key) (bs ! i)))"

text \<open>
  A chain after an update of the key \<open>k\<close>: what had another key is kept, and \<open>new\<close> is what is now
  stored under \<open>k\<close>.
\<close>

definition chain_upd ::
    "('k \<Rightarrow> 'n) \<Rightarrow> ('e \<Rightarrow> 'k) \<Rightarrow> 'k \<Rightarrow> 'e option \<Rightarrow> 'e list \<Rightarrow> 'e list \<Rightarrow> bool" where
  "chain_upd norm key k new es es' \<longleftrightarrow>
     distinct (map (norm \<circ> key) es')
     \<and> set es' = set_option new \<union> {e \<in> set es. norm (key e) \<noteq> norm k}"

lemma chain_pos_SomeD:
  "chain_pos cmp key k es = Some i \<Longrightarrow> i < length es \<and> cmp (key (es ! i)) k"
  by (induction es arbitrary: i) (auto split: if_splits)

lemma chain_pos_None_iff: "chain_pos cmp key k es = None \<longleftrightarrow> (\<forall>e \<in> set es. \<not> cmp (key e) k)"
  by (induction es) auto

lemma mset_concat_update:
  "i < length bs \<Longrightarrow> mset (concat (bs[i := xs])) + mset (bs ! i) = mset (concat bs) + mset xs"
proof (induction bs arbitrary: i)
  case Nil
  then show ?case by simp
next
  case (Cons b bs)
  then show ?case by (cases i) (auto simp: ac_simps)
qed

lemma mset_balance:
  fixes a :: "'a multiset"
  assumes "a + e = b + p" and "p + f = e + n"
  shows "a + f = b + n"
proof (rule multiset_eqI)
  fix x
  have "count a x + count e x = count b x + count p x" "count p x + count f x = count e x + count n x"
    using assms by (metis count_union)+
  then show "count (a + f) x = count (b + n) x" by simp
qed

lemma mset_remove_nth:
  "i < length xs \<Longrightarrow> mset (take i xs @ drop (Suc i) xs) + {#xs ! i#} = mset xs"
  by (metis add_mset_add_single id_take_nth_drop mset.simps(2) mset_append union_mset_add_mset_right)

lemma set_nth_distinct_map:
  assumes "distinct (map f xs)" and "i < length xs"
  shows "set (take i xs @ drop (Suc i) xs) = {e \<in> set xs. f e \<noteq> f (xs ! i)}"
proof -
  have xs: "xs = take i xs @ xs ! i # drop (Suc i) xs" using assms(2) by (rule id_take_nth_drop)
  then have "distinct (map f (take i xs @ xs ! i # drop (Suc i) xs))" using assms(1) by metis
  then have "\<forall>e \<in> set (take i xs @ drop (Suc i) xs). f e \<noteq> f (xs ! i)"
    by (auto simp: image_iff eq_commute)
  moreover have "set xs = insert (xs ! i) (set (take i xs @ drop (Suc i) xs))"
    using arg_cong [OF xs, of set] by (simp add: Un_commute insert_commute)
  ultimately show ?thesis by (simp only:) blast
qed

locale hash_table = hash_key ok cmp hash norm
  for ok :: "'k \<Rightarrow> bool" and cmp :: "'k \<Rightarrow> 'k \<Rightarrow> bool" and hash :: "'k \<Rightarrow> u32" and norm :: "'k \<Rightarrow> 'n" +
  fixes key :: "'e \<Rightarrow> 'k"
begin

lemma chain_get_iff:
  assumes "\<forall>e \<in> set es. ok (key e)" and "distinct (map (norm \<circ> key) es)" and "ok k"
  shows "chain_get cmp key es k = Some e \<longleftrightarrow> e \<in> set es \<and> norm (key e) = norm k"
proof (cases "chain_pos cmp key k es")
  case None
  then show ?thesis
    using chain_pos_None_iff [of cmp key k es] assms(1, 3) cmp_iff by (auto simp: chain_get_def)
next
  case (Some i)
  then have i: "i < length es" "norm (key (es ! i)) = norm k"
    using chain_pos_SomeD [OF Some] assms(1, 3) cmp_iff by auto
  have "e = es ! i" if e: "e \<in> set es" "norm (key e) = norm k"
  proof -
    obtain j where "j < length es" "e = es ! j" using e(1) by (auto simp: in_set_conv_nth)
    moreover from this have "j = i" using nth_eq_iff_index_eq [OF assms(2), of j i] i e(2) by simp
    ultimately show ?thesis by simp
  qed
  then show ?thesis using Some i by (auto simp: chain_get_def)
qed

lemma chain_get_None_iff:
  assumes "\<forall>e \<in> set es. ok (key e)" and "ok k"
  shows "chain_get cmp key es k = None \<longleftrightarrow> (\<forall>e \<in> set es. norm (key e) \<noteq> norm k)"
  using assms cmp_iff by (auto simp: chain_get_def chain_pos_None_iff)

lemma chain_get_upd:
  assumes "\<forall>e \<in> set es. ok (key e)" and "distinct (map (norm \<circ> key) es)" and "ok k" and "ok k'"
    and "chain_upd norm key k new es es'" and "\<And>e. new = Some e \<Longrightarrow> ok (key e) \<and> norm (key e) = norm k"
  shows "chain_get cmp key es' k' = (if norm k' = norm k then new else chain_get cmp key es k')"
proof -
  have ok': "\<forall>e \<in> set es'. ok (key e)" and d': "distinct (map (norm \<circ> key) es')"
    and set': "set es' = set_option new \<union> {e \<in> set es. norm (key e) \<noteq> norm k}"
    using assms(1, 5, 6) by (auto simp: chain_upd_def)
  have "chain_get cmp key es' k' = Some e \<longleftrightarrow>
      (if norm k' = norm k then new else chain_get cmp key es k') = Some e" for e
    using chain_get_iff [OF ok' d' assms(4)] chain_get_iff [OF assms(1, 2, 4)] set' assms(6)
    by (cases new) auto
  then show ?thesis by (metis not_Some_eq)
qed

lemma chain_upd_replace:
  assumes "distinct (map (norm \<circ> key) es)" and "\<forall>e \<in> set es. ok (key e)" and "ok (key e)"
    and "chain_pos cmp key (key e) es = Some i"
  shows "chain_upd norm key (key e) (Some e) es (es[i := e])"
proof -
  have i: "i < length es" "norm (key (es ! i)) = norm (key e)"
    using chain_pos_SomeD [OF assms(4)] assms(2, 3) cmp_iff by auto
  then have "map (norm \<circ> key) (es[i := e]) = map (norm \<circ> key) es"
    by (simp add: map_update list_update_same_conv)
  moreover have "set (es[i := e]) = insert e {x \<in> set es. norm (key x) \<noteq> norm (key e)}"
    using set_nth_distinct_map [OF assms(1) i(1)] i by (simp add: upd_conv_take_nth_drop)
  ultimately show ?thesis using assms(1) by (simp add: chain_upd_def)
qed

lemma chain_upd_add:
  assumes "distinct (map (norm \<circ> key) es)" and "\<forall>e \<in> set es. ok (key e)" and "ok (key e)"
    and "chain_pos cmp key (key e) es = None"
  shows "chain_upd norm key (key e) (Some e) es (e # es)" and "chain_upd norm key (key e) (Some e) es (es @ [e])"
proof -
  have "\<forall>x \<in> set es. norm (key x) \<noteq> norm (key e)"
    using assms cmp_iff by (auto simp: chain_pos_None_iff)
  then show "chain_upd norm key (key e) (Some e) es (e # es)" "chain_upd norm key (key e) (Some e) es (es @ [e])"
    using assms(1) by (fastforce simp: chain_upd_def)+
qed

lemma chain_upd_remove:
  assumes "distinct (map (norm \<circ> key) es)" and "\<forall>e \<in> set es. ok (key e)" and "ok k"
    and "chain_pos cmp key k es = Some i"
  shows "chain_upd norm key k None es (take i es @ drop (Suc i) es)"
proof -
  have i: "i < length es" "norm (key (es ! i)) = norm k"
    using chain_pos_SomeD [OF assms(4)] assms(2, 3) cmp_iff by auto
  have "distinct (map (norm \<circ> key) (take i es @ es ! i # drop (Suc i) es))"
    using assms(1) id_take_nth_drop [OF i(1)] by simp
  then have "distinct (map (norm \<circ> key) (take i es @ drop (Suc i) es))" by auto
  then show ?thesis using set_nth_distinct_map [OF assms(1) i(1)] i(2)
    by (simp add: chain_upd_def)
qed

lemma chain_upd_none:
  assumes "distinct (map (norm \<circ> key) es)" and "\<forall>e \<in> set es. ok (key e)" and "ok k"
    and "chain_pos cmp key k es = None"
  shows "chain_upd norm key k None es es"
  using assms cmp_iff by (auto simp: chain_upd_def chain_pos_None_iff)

lemma table_chain:
  assumes "table_inv ok hash norm key bs"
  shows "bucket_index (hash k) (length bs) < length bs"
    and "distinct (map (norm \<circ> key) (bs ! bucket_index (hash k) (length bs)))"
    and "\<forall>e \<in> set (bs ! bucket_index (hash k) (length bs)). ok (key e)"
proof -
  show "bucket_index (hash k) (length bs) < length bs"
    using assms by (simp add: table_inv_def bucket_index_def)
  then show "distinct (map (norm \<circ> key) (bs ! bucket_index (hash k) (length bs)))"
    and "\<forall>e \<in> set (bs ! bucket_index (hash k) (length bs)). ok (key e)"
    using assms by (auto simp: table_inv_def)
qed

text \<open>Looking up a key finds the entry with that key anywhere in the table.\<close>

lemma table_get_iff:
  assumes inv: "table_inv ok hash norm key bs" and k: "ok k"
  shows "table_get cmp hash key bs k = Some e \<longleftrightarrow> e \<in> set (concat bs) \<and> norm (key e) = norm k"
proof -
  let ?i = "bucket_index (hash k) (length bs)"
  note ch = table_chain [OF inv, of k]
  have "e \<in> set (bs ! ?i)" if mem: "e \<in> set (concat bs)" and eq: "norm (key e) = norm k"
  proof -
    obtain es where "es \<in> set bs" "e \<in> set es" using mem by auto
    then obtain j where j: "j < length bs" "e \<in> set (bs ! j)" by (auto simp: in_set_conv_nth [of es])
    then have "ok (key e)" "bucket_index (hash (key e)) (length bs) = j"
      using inv by (auto simp: table_inv_def)
    then show ?thesis using hash_resp [OF _ k eq] j by simp
  qed
  then show ?thesis using chain_get_iff [OF ch(3, 2) k, of e] ch(1) by (auto simp: table_get_def)
qed

lemma table_upd:
  fixes k bs
  defines "i \<equiv> bucket_index (hash k) (length bs)"
  assumes inv: "table_inv ok hash norm key bs" and k: "ok k"
    and upd: "chain_upd norm key k new (bs ! i) es'"
    and new: "\<And>e. new = Some e \<Longrightarrow> ok (key e) \<and> norm (key e) = norm k"
  shows "table_inv ok hash norm key (bs[i := es'])"
    and "ok k' \<Longrightarrow> table_get cmp hash key (bs[i := es']) k'
      = (if norm k' = norm k then new else table_get cmp hash key bs k')"
proof -
  note ch = table_chain [OF inv, of k, folded i_def]
  have "\<forall>e \<in> set es'. ok (key e) \<and> bucket_index (hash (key e)) (length bs) = i"
  proof
    fix e
    assume "e \<in> set es'"
    then consider "new = Some e" | "e \<in> set (bs ! i)" using upd by (auto simp: chain_upd_def)
    then show "ok (key e) \<and> bucket_index (hash (key e)) (length bs) = i"
    proof cases
      case 1
      then have "hash (key e) = hash k" using new k hash_resp by blast
      then show ?thesis using new [OF 1] by (simp add: i_def)
    next
      case 2
      then show ?thesis using inv ch(1) by (simp add: table_inv_def)
    qed
  qed
  then show "table_inv ok hash norm key (bs[i := es'])"
    using inv upd ch(1) by (auto simp: table_inv_def chain_upd_def nth_list_update)
  assume k': "ok k'"
  show "table_get cmp hash key (bs[i := es']) k'
      = (if norm k' = norm k then new else table_get cmp hash key bs k')"
  proof (cases "bucket_index (hash k') (length bs) = i")
    case True
    then show ?thesis using ch(1) chain_get_upd [OF ch(3, 2) k k' upd new]
      by (simp add: table_get_def)
  next
    case False
    then have "norm k' \<noteq> norm k" using hash_resp [OF k' k] by (auto simp: i_def)
    then show ?thesis using False by (simp add: table_get_def)
  qed
qed

end

end
