(* ===== verification/Smap.thy ===== *)
theory Smap
  imports Hash Table
begin

text \<open>
  The generic hash map of \<open>core/smap.h\<close>, as its macros expand for a node type \<open>'e\<close> with a member
  \<open>key\<close>. A bucket is the list of the nodes of its chain; a pointer to a node is its bucket and place.
\<close>

record 'e vtm_smap =
  sm_buckets :: "'e list list"
  sm_key_hash :: "(vtm_elem \<Rightarrow> u32) option"
  sm_key_cmp :: "(vtm_elem \<Rightarrow> vtm_elem \<Rightarrow> bool) option"
  sm_free_node :: bool

definition VTM_SMAP_INIT :: "nat \<Rightarrow> vtm_elem_type \<Rightarrow> bool \<Rightarrow> 'e vtm_smap" where
  "VTM_SMAP_INIT buckets key_type free_fn =
     \<lparr>sm_buckets = replicate buckets [], sm_key_hash = vtm_hash_elem_get_fn key_type,
      sm_key_cmp = vtm_elem_get_cmp_fn key_type, sm_free_node = free_fn\<rparr>"

definition VTM_SMAP_SET_KEY_FN ::
    "'e vtm_smap \<Rightarrow> (vtm_elem \<Rightarrow> u32) \<Rightarrow> (vtm_elem \<Rightarrow> vtm_elem \<Rightarrow> bool) \<Rightarrow> 'e vtm_smap" where
  "VTM_SMAP_SET_KEY_FN sm hash_fn cmp_fn = sm\<lparr>sm_key_hash := Some hash_fn, sm_key_cmp := Some cmp_fn\<rparr>"

definition VTM_SMAP_INDEX :: "'e vtm_smap \<Rightarrow> vtm_variant \<Rightarrow> nat" where
  "VTM_SMAP_INDEX sm key = unat (the (sm_key_hash sm) (var_data key)) mod length (sm_buckets sm)"

text \<open>
  The loop of \<open>VTM_SMAP_PUT\<close> over a chain: the chain afterwards, and the node it replaced.
\<close>

fun smap_put_loop ::
    "(vtm_elem \<Rightarrow> vtm_elem \<Rightarrow> bool) \<Rightarrow> ('e \<Rightarrow> vtm_variant) \<Rightarrow> 'e \<Rightarrow> 'e list \<Rightarrow> 'e list \<times> 'e option" where
  "smap_put_loop cmp key node [] = ([node], None)"
| "smap_put_loop cmp key node (cur # rest) =
     (if cmp (var_data (key cur)) (var_data (key node)) then (node # rest, Some cur)
      else if rest = [] then ([cur, node], None)
      else let (rest', old) = smap_put_loop cmp key node rest in (cur # rest', old))"

definition VTM_SMAP_PUT :: "('e \<Rightarrow> vtm_variant) \<Rightarrow> 'e vtm_smap \<Rightarrow> 'e \<Rightarrow> 'e vtm_smap \<times> 'e option" where
  "VTM_SMAP_PUT key sm node =
     (let index = VTM_SMAP_INDEX sm (key node); chain = sm_buckets sm ! index
      in if chain = [] then (sm\<lparr>sm_buckets := (sm_buckets sm)[index := [node]]\<rparr>, None)
         else
           let (chain', old) = smap_put_loop (the (sm_key_cmp sm)) key node chain
           in (sm\<lparr>sm_buckets := (sm_buckets sm)[index := chain']\<rparr>, old))"

definition VTM_SMAP_GET :: "('e \<Rightarrow> vtm_variant) \<Rightarrow> 'e vtm_smap \<Rightarrow> vtm_variant \<Rightarrow> (nat \<times> nat) option" where
  "VTM_SMAP_GET key sm k =
     (let index = VTM_SMAP_INDEX sm k
      in map_option (Pair index)
           (chain_pos (the (sm_key_cmp sm)) (var_data \<circ> key) (var_data k) (sm_buckets sm ! index)))"

definition smap_node :: "'e vtm_smap \<Rightarrow> nat \<times> nat \<Rightarrow> 'e" where
  "smap_node sm p = sm_buckets sm ! fst p ! snd p"

fun smap_remove_loop ::
    "(vtm_elem \<Rightarrow> vtm_elem \<Rightarrow> bool) \<Rightarrow> ('e \<Rightarrow> vtm_variant) \<Rightarrow> vtm_variant \<Rightarrow> 'e list \<Rightarrow> 'e list \<times> 'e option" where
  "smap_remove_loop cmp key k [] = ([], None)"
| "smap_remove_loop cmp key k (cur # rest) =
     (if cmp (var_data (key cur)) (var_data k) then (rest, Some cur)
      else let (rest', old) = smap_remove_loop cmp key k rest in (cur # rest', old))"

definition VTM_SMAP_REMOVE ::
    "('e \<Rightarrow> vtm_variant) \<Rightarrow> 'e vtm_smap \<Rightarrow> vtm_variant \<Rightarrow> bool \<times> 'e vtm_smap \<times> 'e option" where
  "VTM_SMAP_REMOVE key sm k =
     (let index = VTM_SMAP_INDEX sm k;
          (chain', old) = smap_remove_loop (the (sm_key_cmp sm)) key k (sm_buckets sm ! index)
      in (old \<noteq> None, sm\<lparr>sm_buckets := (sm_buckets sm)[index := chain']\<rparr>, old))"

text \<open>The nodes in the order \<open>VTM_SMAP_FOR_EACH\<close> visits them.\<close>

definition VTM_SMAP_FOR_EACH :: "'e vtm_smap \<Rightarrow> 'e list" where
  "VTM_SMAP_FOR_EACH sm = concat (sm_buckets sm)"

definition VTM_SMAP_GET_SIZE :: "'e vtm_smap \<Rightarrow> nat" where
  "VTM_SMAP_GET_SIZE sm = length (VTM_SMAP_FOR_EACH sm)"

text \<open>Clearing frees the nodes in the order of the iteration.\<close>

definition VTM_SMAP_CLEAR :: "'e vtm_smap \<Rightarrow> 'e list \<times> 'e vtm_smap" where
  "VTM_SMAP_CLEAR sm = (VTM_SMAP_FOR_EACH sm, sm\<lparr>sm_buckets := map (\<lambda>_. []) (sm_buckets sm)\<rparr>)"

subsection \<open>The loops on chains\<close>

lemma smap_put_loop_eq:
  "smap_put_loop cmp key node es =
     (case chain_pos cmp (var_data \<circ> key) (var_data (key node)) es of
        None \<Rightarrow> (es @ [node], None)
      | Some i \<Rightarrow> (es[i := node], Some (es ! i)))"
  by (induction es) (auto split: option.split)

lemma smap_remove_loop_eq:
  "smap_remove_loop cmp key k es =
     (case chain_pos cmp (var_data \<circ> key) (var_data k) es of
        None \<Rightarrow> (es, None)
      | Some i \<Rightarrow> (take i es @ drop (Suc i) es, Some (es ! i)))"
  by (induction es) (auto split: option.split)

lemma smap_put_mset:
  "smap_put_loop cmp key node es = (es', old) \<Longrightarrow>
     mset es' + mset_set (set_option old) = mset es + {#node#}"
  by (auto simp: smap_put_loop_eq mset_update dest: chain_pos_SomeD split: option.splits)

lemma smap_remove_mset:
  "smap_remove_loop cmp key k es = (es', old) \<Longrightarrow> mset es' + mset_set (set_option old) = mset es + {#}"
  using mset_remove_nth
  by (fastforce simp: smap_remove_loop_eq dest: chain_pos_SomeD split: option.splits)

subsection \<open>Invariant\<close>

definition smap_inv ::
    "(vtm_elem \<Rightarrow> bool) \<Rightarrow> (vtm_elem \<Rightarrow> vtm_elem \<Rightarrow> bool) \<Rightarrow> (vtm_elem \<Rightarrow> u32) \<Rightarrow> (vtm_elem \<Rightarrow> 'n)
     \<Rightarrow> ('e \<Rightarrow> vtm_variant) \<Rightarrow> 'e vtm_smap \<Rightarrow> bool" where
  "smap_inv ok cmp hash norm key sm \<longleftrightarrow>
     sm_key_hash sm = Some hash \<and> sm_key_cmp sm = Some cmp
     \<and> table_inv ok hash norm (var_data \<circ> key) (sm_buckets sm)"

text \<open>
  What the macros promise their clients, for any node type and any pair of hash and comparison
  functions that fit together.
\<close>

locale smap_client = hash_key ok cmp hash norm
  for ok :: "vtm_elem \<Rightarrow> bool" and cmp :: "vtm_elem \<Rightarrow> vtm_elem \<Rightarrow> bool" and hash :: "vtm_elem \<Rightarrow> u32"
    and norm :: "vtm_elem \<Rightarrow> 'n" +
  fixes key :: "'e \<Rightarrow> vtm_variant"

sublocale smap_client \<subseteq> tab: hash_table ok cmp hash norm "var_data \<circ> key"
  by unfold_locales

context smap_client
begin

lemma index_eq:
  "smap_inv ok cmp hash norm key sm \<Longrightarrow>
     VTM_SMAP_INDEX sm k = bucket_index (hash (var_data k)) (length (sm_buckets sm))"
  by (simp add: VTM_SMAP_INDEX_def smap_inv_def bucket_index_def)

lemma get_table:
  assumes "smap_inv ok cmp hash norm key sm"
  shows "map_option (smap_node sm) (VTM_SMAP_GET key sm k) =
    table_get cmp hash (var_data \<circ> key) (sm_buckets sm) (var_data k)"
  using assms
  by (simp add: VTM_SMAP_GET_def index_eq [OF assms] table_get_def chain_get_def smap_inv_def Let_def
      option.map_comp o_def smap_node_def)

lemma put_eq:
  fixes node
  assumes "smap_inv ok cmp hash norm key sm"
  defines "i \<equiv> VTM_SMAP_INDEX sm (key node)"
  shows "VTM_SMAP_PUT key sm node =
    (let (es', old) = smap_put_loop cmp key node (sm_buckets sm ! i)
     in (sm\<lparr>sm_buckets := (sm_buckets sm)[i := es']\<rparr>, old))"
  using assms(1) by (auto simp: VTM_SMAP_PUT_def i_def smap_inv_def Let_def)

lemma put_law:
  assumes inv: "smap_inv ok cmp hash norm key sm" and ok: "ok (var_data (key node))"
    and put: "VTM_SMAP_PUT key sm node = (sm', old)"
  shows "smap_inv ok cmp hash norm key sm'"
    and "ok (var_data k) \<Longrightarrow> map_option (smap_node sm') (VTM_SMAP_GET key sm' k) =
      (if norm (var_data k) = norm (var_data (key node)) then Some node
       else map_option (smap_node sm) (VTM_SMAP_GET key sm k))"
    and "mset (VTM_SMAP_FOR_EACH sm') + mset_set (set_option old)
      = mset (VTM_SMAP_FOR_EACH sm) + {#node#}"
proof -
  define i where "i = bucket_index (hash (var_data (key node))) (length (sm_buckets sm))"
  have tinv: "table_inv ok hash norm (var_data \<circ> key) (sm_buckets sm)"
    using inv by (simp add: smap_inv_def)
  note ch = tab.table_chain [OF tinv, of "var_data (key node)", folded i_def]
  obtain es' where es': "smap_put_loop cmp key node (sm_buckets sm ! i) = (es', old)"
    and sm': "sm' = sm\<lparr>sm_buckets := (sm_buckets sm)[i := es']\<rparr>"
    using put put_eq [OF inv, of node] index_eq [OF inv] by (auto simp: i_def split: prod.splits)
  have "chain_upd norm (var_data \<circ> key) (var_data (key node)) (Some node) (sm_buckets sm ! i) es'"
    using es' tab.chain_upd_replace [OF ch(2, 3), of node] tab.chain_upd_add(2) [OF ch(2, 3), of node] ok
    by (auto simp: smap_put_loop_eq split: option.splits)
  note upd = tab.table_upd [OF tinv ok this [unfolded i_def], folded i_def]
  show inv': "smap_inv ok cmp hash norm key sm'" using upd(1) inv ok by (simp add: smap_inv_def sm')
  show "map_option (smap_node sm') (VTM_SMAP_GET key sm' k) =
      (if norm (var_data k) = norm (var_data (key node)) then Some node
       else map_option (smap_node sm) (VTM_SMAP_GET key sm k))" if "ok (var_data k)"
    using upd(2) [OF _ that] ok get_table [OF inv'] get_table [OF inv] by (simp add: sm')
  show "mset (VTM_SMAP_FOR_EACH sm') + mset_set (set_option old) = mset (VTM_SMAP_FOR_EACH sm) + {#node#}"
    using mset_balance [OF mset_concat_update [OF ch(1)] smap_put_mset [OF es']]
    by (simp add: VTM_SMAP_FOR_EACH_def sm')
qed

lemma remove_law:
  assumes inv: "smap_inv ok cmp hash norm key sm" and ok: "ok (var_data k)"
    and rem: "VTM_SMAP_REMOVE key sm k = (r, sm', old)"
  shows "smap_inv ok cmp hash norm key sm'"
    and "ok (var_data k') \<Longrightarrow> map_option (smap_node sm') (VTM_SMAP_GET key sm' k') =
      (if norm (var_data k') = norm (var_data k) then None
       else map_option (smap_node sm) (VTM_SMAP_GET key sm k'))"
    and "r \<longleftrightarrow> VTM_SMAP_GET key sm k \<noteq> None"
    and "mset (VTM_SMAP_FOR_EACH sm') + mset_set (set_option old) = mset (VTM_SMAP_FOR_EACH sm)"
proof -
  define i where "i = bucket_index (hash (var_data k)) (length (sm_buckets sm))"
  have tinv: "table_inv ok hash norm (var_data \<circ> key) (sm_buckets sm)" and cmp: "sm_key_cmp sm = Some cmp"
    using inv by (simp_all add: smap_inv_def)
  note ch = tab.table_chain [OF tinv, of "var_data k", folded i_def]
  obtain es' where es': "smap_remove_loop cmp key k (sm_buckets sm ! i) = (es', old)"
    and sm': "sm' = sm\<lparr>sm_buckets := (sm_buckets sm)[i := es']\<rparr>" and r: "r \<longleftrightarrow> old \<noteq> None"
    using rem cmp by (auto simp: VTM_SMAP_REMOVE_def index_eq [OF inv] i_def Let_def split: prod.splits)
  have "chain_upd norm (var_data \<circ> key) (var_data k) None (sm_buckets sm ! i) es'"
    using es' tab.chain_upd_remove [OF ch(2, 3) ok] tab.chain_upd_none [OF ch(2, 3) ok]
    by (auto simp: smap_remove_loop_eq split: option.splits)
  note upd = tab.table_upd [OF tinv ok this [unfolded i_def], folded i_def]
  show inv': "smap_inv ok cmp hash norm key sm'" using upd(1) inv by (simp add: smap_inv_def sm')
  show "map_option (smap_node sm') (VTM_SMAP_GET key sm' k') =
      (if norm (var_data k') = norm (var_data k) then None
       else map_option (smap_node sm) (VTM_SMAP_GET key sm k'))" if "ok (var_data k')"
    using upd(2) [OF _ that] get_table [OF inv'] get_table [OF inv] by (simp add: sm')
  show "r \<longleftrightarrow> VTM_SMAP_GET key sm k \<noteq> None"
    using es' r cmp
    by (auto simp: VTM_SMAP_GET_def index_eq [OF inv] smap_remove_loop_eq i_def Let_def split: option.splits)
  show "mset (VTM_SMAP_FOR_EACH sm') + mset_set (set_option old) = mset (VTM_SMAP_FOR_EACH sm)"
    using mset_balance [OF mset_concat_update [OF ch(1)] smap_remove_mset [OF es']]
    by (simp add: VTM_SMAP_FOR_EACH_def sm')
qed

end

end
