(* ===== verification/Vlist.thy ===== *)
theory Vlist
  imports Elem
begin

text \<open>
  The growing array of \<open>core/list.c\<close>. The array holds the elements added so far and knows how many
  bytes were allocated for it; \<open>None\<close> is the NULL pointer a failed \<open>realloc\<close> leaves behind, and
  an operation whose result is \<open>None\<close> reads or writes outside the array.
\<close>

record vtm_list =
  l_type :: vtm_elem_type
  l_free :: bool
  l_array :: "vtm_elem list option"
  l_alloc :: size_t
  l_elem_size :: size_t
  l_used :: size_t
  l_size :: size_t

definition vtm_list_new ::
    "bool \<Rightarrow> allocator \<Rightarrow> vtm_elem_type \<Rightarrow> size_t \<Rightarrow> vtm_rc + vtm_list" where
  "vtm_list_new mem ma type init_size =
     (if type = VTM_ELEM_NULL then Inl VTM_E_INVALID_ARG
      else if \<not> mem then Inl VTM_E_MALLOC
      else
        let elem_size = vtm_elem_size type
        in if \<not> ma (init_size * elem_size) then Inl VTM_E_MALLOC
           else Inr \<lparr>l_type = type, l_free = False, l_array = Some [],
                     l_alloc = init_size * elem_size, l_elem_size = elem_size,
                     l_used = 0, l_size = init_size\<rparr>)"

definition vtm_list_grow :: "allocator \<Rightarrow> vtm_list \<Rightarrow> vtm_rc \<times> vtm_list" where
  "vtm_list_grow ma li =
     (if l_size li = SIZE_MAX then (VTM_E_MAX_REACHED, li)
      else
        let old = l_size li;
            size = (if old * 2 < old then SIZE_MAX else old * 2);
            bytes = size * l_elem_size li
        in if \<not> ma bytes then (VTM_E_MALLOC, li\<lparr>l_size := size, l_array := None, l_alloc := 0\<rparr>)
           else (VTM_OK, li\<lparr>l_size := size, l_alloc := bytes\<rparr>))"

text \<open>\<open>((TYPE*) li->array)[li->used++] = e\<close>\<close>

definition VTM_LIST_WRITE :: "vtm_list \<Rightarrow> vtm_elem \<Rightarrow> vtm_list option" where
  "VTM_LIST_WRITE li e =
     (case l_array li of
        None \<Rightarrow> None
      | Some es \<Rightarrow>
          if (unat (l_used li) + 1) * unat (l_elem_size li) \<le> unat (l_alloc li)
             \<and> length es = unat (l_used li)
          then Some (li\<lparr>l_array := Some (es @ [e]), l_used := l_used li + 1\<rparr>)
          else None)"

definition vtm_list_add :: "allocator \<Rightarrow> vtm_list \<Rightarrow> vtm_variant \<Rightarrow> (vtm_rc \<times> vtm_list) option" where
  "vtm_list_add ma li var =
     (if var_type var \<noteq> l_type li then Some (VTM_E_INVALID_ARG, li)
      else
        let (rc, li) = (if l_used li = l_size li then vtm_list_grow ma li else (VTM_OK, li))
        in if rc \<noteq> VTM_OK then Some (rc, li)
           else if l_type li = VTM_ELEM_NULL then Some (VTM_E_INVALID_STATE, li)
           else map_option (\<lambda>li. (VTM_OK, li)) (VTM_LIST_WRITE li (var_data var)))"

text \<open>The values written are those \<open>vtm_elem_parse\<close> reads from the arguments.\<close>

definition vtm_list_add_va ::
    "allocator \<Rightarrow> vtm_list \<Rightarrow> vtm_va list \<Rightarrow> (vtm_rc \<times> vtm_list) option" where
  "vtm_list_add_va ma li args =
     (let (rc, li) = (if l_used li = l_size li then vtm_list_grow ma li else (VTM_OK, li))
      in if rc \<noteq> VTM_OK then Some (rc, li)
         else if l_type li = VTM_ELEM_NULL then Some (VTM_E_INVALID_STATE, li)
         else
           (case vtm_elem_parse (l_type li) args of
              Inl _ \<Rightarrow> None
            | Inr (e, _) \<Rightarrow> map_option (\<lambda>li. (VTM_OK, li)) (VTM_LIST_WRITE li e)))"

text \<open>\<open>memmove\<close> of the elements behind \<open>index\<close> by one place.\<close>

definition vtm_list_remove :: "vtm_list \<Rightarrow> size_t \<Rightarrow> vtm_rc \<times> vtm_list" where
  "vtm_list_remove li index =
     (if index \<ge> l_used li then (VTM_E_OUT_OF_RANGE, li)
      else (VTM_OK,
            li\<lparr>l_array := map_option (\<lambda>es. take (unat index) es @ drop (unat index + 1) es) (l_array li),
               l_used := l_used li - 1\<rparr>))"

definition vtm_list_size :: "vtm_list \<Rightarrow> size_t" where
  "vtm_list_size li = l_used li"

definition vtm_list_set_free_func :: "vtm_list \<Rightarrow> bool \<Rightarrow> vtm_list" where
  "vtm_list_set_free_func li fn = li\<lparr>l_free := fn\<rparr>"

text \<open>The element at an index; \<open>None\<close> behind the elements stored.\<close>

definition VTM_LIST_READ :: "vtm_list \<Rightarrow> size_t \<Rightarrow> vtm_elem option" where
  "VTM_LIST_READ li index =
     (case l_array li of
        None \<Rightarrow> None
      | Some es \<Rightarrow> if unat index < length es then Some (es ! unat index) else None)"

definition vtm_list_get_int8 :: "vtm_list \<Rightarrow> size_t \<Rightarrow> 8 word option" where
  "vtm_list_get_int8 li index = map_option elem_int8 (VTM_LIST_READ li index)"

definition vtm_list_get_uint8 :: "vtm_list \<Rightarrow> size_t \<Rightarrow> 8 word option" where
  "vtm_list_get_uint8 li index = map_option elem_uint8 (VTM_LIST_READ li index)"

definition vtm_list_get_int16 :: "vtm_list \<Rightarrow> size_t \<Rightarrow> 16 word option" where
  "vtm_list_get_int16 li index = map_option elem_int16 (VTM_LIST_READ li index)"

definition vtm_list_get_uint16 :: "vtm_list \<Rightarrow> size_t \<Rightarrow> 16 word option" where
  "vtm_list_get_uint16 li index = map_option elem_uint16 (VTM_LIST_READ li index)"

definition vtm_list_get_int32 :: "vtm_list \<Rightarrow> size_t \<Rightarrow> 32 word option" where
  "vtm_list_get_int32 li index = map_option elem_int32 (VTM_LIST_READ li index)"

definition vtm_list_get_uint32 :: "vtm_list \<Rightarrow> size_t \<Rightarrow> 32 word option" where
  "vtm_list_get_uint32 li index = map_option elem_uint32 (VTM_LIST_READ li index)"

definition vtm_list_get_int64 :: "vtm_list \<Rightarrow> size_t \<Rightarrow> 64 word option" where
  "vtm_list_get_int64 li index = map_option elem_int64 (VTM_LIST_READ li index)"

definition vtm_list_get_uint64 :: "vtm_list \<Rightarrow> size_t \<Rightarrow> 64 word option" where
  "vtm_list_get_uint64 li index = map_option elem_uint64 (VTM_LIST_READ li index)"

definition vtm_list_get_bool :: "vtm_list \<Rightarrow> size_t \<Rightarrow> bool option" where
  "vtm_list_get_bool li index = map_option elem_bool (VTM_LIST_READ li index)"

definition vtm_list_get_char :: "vtm_list \<Rightarrow> size_t \<Rightarrow> 8 word option" where
  "vtm_list_get_char li index = map_option elem_char (VTM_LIST_READ li index)"

definition vtm_list_get_schar :: "vtm_list \<Rightarrow> size_t \<Rightarrow> 8 word option" where
  "vtm_list_get_schar li index = map_option elem_schar (VTM_LIST_READ li index)"

definition vtm_list_get_uchar :: "vtm_list \<Rightarrow> size_t \<Rightarrow> 8 word option" where
  "vtm_list_get_uchar li index = map_option elem_uchar (VTM_LIST_READ li index)"

definition vtm_list_get_short :: "vtm_list \<Rightarrow> size_t \<Rightarrow> 16 word option" where
  "vtm_list_get_short li index = map_option elem_short (VTM_LIST_READ li index)"

definition vtm_list_get_ushort :: "vtm_list \<Rightarrow> size_t \<Rightarrow> 16 word option" where
  "vtm_list_get_ushort li index = map_option elem_ushort (VTM_LIST_READ li index)"

definition vtm_list_get_int :: "vtm_list \<Rightarrow> size_t \<Rightarrow> 32 word option" where
  "vtm_list_get_int li index = map_option elem_int (VTM_LIST_READ li index)"

definition vtm_list_get_uint :: "vtm_list \<Rightarrow> size_t \<Rightarrow> 32 word option" where
  "vtm_list_get_uint li index = map_option elem_uint (VTM_LIST_READ li index)"

definition vtm_list_get_long :: "vtm_list \<Rightarrow> size_t \<Rightarrow> 64 word option" where
  "vtm_list_get_long li index = map_option elem_long (VTM_LIST_READ li index)"

definition vtm_list_get_ulong :: "vtm_list \<Rightarrow> size_t \<Rightarrow> 64 word option" where
  "vtm_list_get_ulong li index = map_option elem_ulong (VTM_LIST_READ li index)"

definition vtm_list_get_float :: "vtm_list \<Rightarrow> size_t \<Rightarrow> u32 option" where
  "vtm_list_get_float li index = map_option elem_float (VTM_LIST_READ li index)"

definition vtm_list_get_double :: "vtm_list \<Rightarrow> size_t \<Rightarrow> u64 option" where
  "vtm_list_get_double li index = map_option elem_double (VTM_LIST_READ li index)"

text \<open>A pointer is the string, block or address it leads to.\<close>

definition vtm_list_get_pointer :: "vtm_list \<Rightarrow> size_t \<Rightarrow> vtm_elem option" where
  "vtm_list_get_pointer li index = VTM_LIST_READ li index"

text \<open>\<open>vtm_list_clear\<close> also returns the elements handed to the free function.\<close>

definition vtm_list_clear :: "vtm_list \<Rightarrow> vtm_elem option list \<times> vtm_list" where
  "vtm_list_clear li =
     ((if l_free li then map (\<lambda>i. vtm_list_get_pointer li (of_nat i)) [0..<unat (l_used li)] else []),
      li\<lparr>l_array := map_option (\<lambda>_. []) (l_array li), l_used := 0\<rparr>)"

definition vtm_list_free :: "vtm_list option \<Rightarrow> vtm_elem option list" where
  "vtm_list_free li = (case li of None \<Rightarrow> [] | Some li \<Rightarrow> fst (vtm_list_clear li))"

subsection \<open>Invariant and behaviour\<close>

definition vtm_list_inv :: "vtm_list \<Rightarrow> bool" where
  "vtm_list_inv li \<longleftrightarrow>
     l_type li \<noteq> VTM_ELEM_NULL \<and> l_elem_size li = vtm_elem_size (l_type li)
     \<and> (case l_array li of None \<Rightarrow> False | Some es \<Rightarrow> length es = unat (l_used li))
     \<and> l_used li \<le> l_size li \<and> 0 < l_size li
     \<and> unat (l_alloc li) = unat (l_size li) * unat (l_elem_size li)"

definition list_items :: "vtm_list \<Rightarrow> vtm_elem list" where
  "list_items li = (case l_array li of None \<Rightarrow> [] | Some es \<Rightarrow> es)"

lemma elem_size_bounds: "0 < unat (vtm_elem_size t)" "unat (vtm_elem_size t) \<le> 8"
  by (cases t; simp)+

lemma list_read: "vtm_list_inv li \<Longrightarrow> VTM_LIST_READ li i =
    (if i < l_used li then Some (list_items li ! unat i) else None)"
  by (auto simp: VTM_LIST_READ_def vtm_list_inv_def list_items_def word_less_nat_alt
      split: option.splits)

lemma unat_times_small:
  fixes a b :: "'a::len word"
  assumes "unat a * unat b < 2 ^ LENGTH('a)"
  shows "unat (a * b) = unat a * unat b"
  using assms by (simp add: unat_word_ariths)

lemma list_new_inv:
  assumes "type \<noteq> VTM_ELEM_NULL" and "0 < unat n" and "unat n < 2 ^ 60"
  shows "\<exists>li. vtm_list_new True alloc_all type n = Inr li \<and> vtm_list_inv li \<and> list_items li = []
    \<and> l_type li = type \<and> l_size li = n"
proof -
  have "unat n * unat (vtm_elem_size type) \<le> unat n * 8"
    using elem_size_bounds(2) [of type] by (rule mult_le_mono2)
  then have "unat n * unat (vtm_elem_size type) < 2 ^ 64"
    by (rule le_less_trans) (use assms(3) in simp)
  then have "unat (n * vtm_elem_size type) = unat n * unat (vtm_elem_size type)"
    by (intro unat_times_small) simp
  then show ?thesis using assms
    by (simp add: vtm_list_new_def alloc_all_def Let_def vtm_list_inv_def list_items_def word_less_nat_alt)
qed

lemma list_grow_ok:
  assumes "vtm_list_inv li" and "unat (l_size li) < 2 ^ 59" and "l_used li = l_size li"
  shows "\<exists>li'. vtm_list_grow alloc_all li = (VTM_OK, li') \<and> vtm_list_inv li'
    \<and> list_items li' = list_items li \<and> l_type li' = l_type li \<and> l_used li' = l_used li
    \<and> l_used li' < l_size li' \<and> unat (l_size li') = 2 * unat (l_size li)"
proof -
  define s where "s = l_size li"
  have s: "unat s < 2 ^ 59" "0 < unat s" using assms by (auto simp: s_def vtm_list_inv_def word_less_nat_alt)
  have s2: "unat (s * 2) = 2 * unat s" using s(1) by (simp add: unat_word_ariths)
  have es: "unat (l_elem_size li) \<le> 8" using assms(1) elem_size_bounds(2) by (simp add: vtm_list_inv_def)
  have "unat (s * 2) * unat (l_elem_size li) \<le> unat (s * 2) * 8" using es by (rule mult_le_mono2)
  then have "unat (s * 2) * unat (l_elem_size li) < 2 ^ 64"
    by (rule le_less_trans) (use s s2 in simp)
  then have b: "unat (s * 2 * l_elem_size li) = unat (s * 2) * unat (l_elem_size li)"
    by (intro unat_times_small) simp
  have "s \<noteq> SIZE_MAX" using s(1) by (auto simp: SIZE_MAX_def)
  moreover have "\<not> s * 2 < s" using s2 by (simp add: word_less_nat_alt)
  ultimately show ?thesis
    using assms s s2 b
    by (simp add: vtm_list_grow_def alloc_all_def Let_def s_def [symmetric] vtm_list_inv_def list_items_def
        word_less_nat_alt word_le_nat_alt split: option.splits)
qed

lemma list_write_ok:
  assumes "vtm_list_inv li" and "l_used li < l_size li"
  shows "\<exists>li'. VTM_LIST_WRITE li e = Some li' \<and> vtm_list_inv li'
    \<and> list_items li' = list_items li @ [e] \<and> l_type li' = l_type li \<and> l_size li' = l_size li"
proof -
  have lt: "unat (l_used li) + 1 \<le> unat (l_size li)" using assms(2) by (simp add: word_less_nat_alt)
  then have "(unat (l_used li) + 1) * unat (l_elem_size li) \<le> unat (l_alloc li)"
    using assms(1) mult_le_mono1 [OF lt, of "unat (l_elem_size li)"] by (simp add: vtm_list_inv_def)
  moreover have "unat (l_used li + 1) = unat (l_used li) + 1"
    using lt unat_less_2p [of "l_size li"] by (simp add: unat_word_ariths)
  ultimately show ?thesis using assms lt
    by (auto simp: VTM_LIST_WRITE_def vtm_list_inv_def list_items_def word_le_nat_alt split: option.splits)
qed

lemma list_add_ok:
  assumes "vtm_list_inv li" and "unat (l_size li) < 2 ^ 59" and "var_type v = l_type li"
  shows "\<exists>li'. vtm_list_add alloc_all li v = Some (VTM_OK, li') \<and> vtm_list_inv li'
    \<and> list_items li' = list_items li @ [var_data v] \<and> l_type li' = l_type li
    \<and> unat (l_size li') \<le> max (unat (l_size li)) (2 * (unat (l_used li) + 1))"
proof (cases "l_used li = l_size li")
  case True
  obtain li1 where li1: "vtm_list_grow alloc_all li = (VTM_OK, li1)" "vtm_list_inv li1"
    "list_items li1 = list_items li" "l_type li1 = l_type li" "l_used li1 < l_size li1"
    "unat (l_size li1) = 2 * unat (l_size li)"
    using list_grow_ok [OF assms(1, 2) True] by blast
  obtain li2 where "VTM_LIST_WRITE li1 (var_data v) = Some li2" "vtm_list_inv li2"
    "list_items li2 = list_items li1 @ [var_data v]" "l_type li2 = l_type li1" "l_size li2 = l_size li1"
    using list_write_ok [OF li1(2, 5)] by blast
  then show ?thesis using True li1 assms
    by (auto simp: vtm_list_add_def vtm_list_inv_def)
next
  case False
  then have "l_used li < l_size li" using assms(1) by (simp add: vtm_list_inv_def order_less_le)
  then obtain li2 where "VTM_LIST_WRITE li (var_data v) = Some li2" "vtm_list_inv li2"
    "list_items li2 = list_items li @ [var_data v]" "l_type li2 = l_type li" "l_size li2 = l_size li"
    using list_write_ok [OF assms(1)] by blast
  then show ?thesis using False assms by (auto simp: vtm_list_add_def vtm_list_inv_def)
qed

text \<open>Adding one value after the other; the value is the last list when all calls succeed.\<close>

fun list_add_all :: "allocator \<Rightarrow> vtm_variant list \<Rightarrow> vtm_list \<Rightarrow> vtm_list option" where
  "list_add_all ma [] li = Some li"
| "list_add_all ma (v # vs) li =
     (case vtm_list_add ma li v of
        Some (VTM_OK, li') \<Rightarrow> list_add_all ma vs li'
      | _ \<Rightarrow> None)"

lemma list_add_all_ok:
  assumes "vtm_list_inv li" and "list_all (\<lambda>v. var_type v = l_type li) vs"
    and "unat (l_size li) < 2 ^ 59" and "2 * (length (list_items li) + length vs + 1) < 2 ^ 59"
  shows "\<exists>li'. list_add_all alloc_all vs li = Some li' \<and> vtm_list_inv li'
    \<and> list_items li' = list_items li @ map var_data vs"
  using assms
proof (induction vs arbitrary: li)
  case Nil
  then show ?case by simp
next
  case (Cons v vs)
  have len: "length (list_items li) = unat (l_used li)"
    using Cons.prems(1) by (auto simp: vtm_list_inv_def list_items_def split: option.splits)
  obtain li1 where li1: "vtm_list_add alloc_all li v = Some (VTM_OK, li1)" "vtm_list_inv li1"
    "list_items li1 = list_items li @ [var_data v]" "l_type li1 = l_type li"
    "unat (l_size li1) \<le> max (unat (l_size li)) (2 * (unat (l_used li) + 1))"
    using list_add_ok [OF Cons.prems(1, 3), of v] Cons.prems(2) by auto
  then have "unat (l_size li1) < 2 ^ 59" using Cons.prems(3, 4) len by simp
  then show ?case using Cons.IH [of li1] Cons.prems(2, 4) li1 by simp
qed

text \<open>
  A new list with room for at least one element takes any sequence of values of its type: every
  call of \<open>vtm_list_add\<close> succeeds, growing the array as needed and never writing outside it, the
  list's size is the number of values, and reading index \<open>i\<close> gives the \<open>i\<close>-th value.
\<close>

theorem list_add_get:
  assumes "type \<noteq> VTM_ELEM_NULL" and "0 < unat n" and "unat n < 2 ^ 59"
    and "list_all (\<lambda>v. var_type v = type) vs" and "2 * (length vs + 1) < 2 ^ 59"
  shows "\<exists>li li'. vtm_list_new True alloc_all type n = Inr li
     \<and> list_add_all alloc_all vs li = Some li'
     \<and> unat (vtm_list_size li') = length vs
     \<and> (\<forall>i < length vs. VTM_LIST_READ li' (of_nat i) = Some (var_data (vs ! i)))"
proof -
  obtain li where li: "vtm_list_new True alloc_all type n = Inr li" "vtm_list_inv li"
    "list_items li = []" "l_type li = type" "l_size li = n"
    using list_new_inv [of type n] assms(1-3) by auto
  obtain li' where li': "list_add_all alloc_all vs li = Some li'" "vtm_list_inv li'"
    "list_items li' = map var_data vs"
    using list_add_all_ok [OF li(2)] li(3-5) assms(3-5) by auto
  have used: "unat (l_used li') = length vs"
    using li'(2, 3) by (auto simp: vtm_list_inv_def list_items_def split: option.splits)
  have "VTM_LIST_READ li' (of_nat i) = Some (var_data (vs ! i))" if "i < length vs" for i
    using that assms(5) used list_read [OF li'(2)] li'(3) by (simp add: word_less_nat_alt)
  then show ?thesis using li(1) li'(1) used by (auto simp: vtm_list_size_def)
qed

theorem list_add_get_witness:
  "\<exists>li li'. vtm_list_new True alloc_all VTM_ELEM_INT 1 = Inr li
     \<and> list_add_all alloc_all [vtm_variant_from_int 5, vtm_variant_from_int 6] li = Some li'
     \<and> unat (vtm_list_size li') = 2 \<and> VTM_LIST_READ li' 1 = Some (Elem_int 6)"
  using list_add_get [of VTM_ELEM_INT 1 "[vtm_variant_from_int 5, vtm_variant_from_int 6]"]
  by (fastforce simp: vtm_variant_from_int_def)

text \<open>
  A list created with no initial room never gets any: the first value doubles the size 0 to 0,
  and where the allocator satisfies the request for no bytes the value is written outside the
  array. The same happens when the size of the array in bytes wraps around.
\<close>

theorem list_zero_size_overflow:
  "(\<exists>li. vtm_list_new True alloc_all VTM_ELEM_INT 0 = Inr li
      \<and> vtm_list_add alloc_all li (vtm_variant_from_int 5) = None)
   \<and> (\<exists>li. vtm_list_new True alloc_all VTM_ELEM_POINTER 0x2000000000000000 = Inr li
      \<and> vtm_list_add alloc_all li (vtm_variant_from_ptr 5) = None)"
  by (simp add: vtm_list_new_def vtm_list_add_def alloc_all_def vtm_list_grow_def VTM_LIST_WRITE_def
      vtm_variant_from_int_def vtm_variant_from_ptr_def SIZE_MAX_def)

lemma list_remove_spec:
  assumes "vtm_list_inv li"
  shows "vtm_list_remove li i =
    (if i < l_used li
     then (VTM_OK, li\<lparr>l_array := Some (take (unat i) (list_items li) @ drop (unat i + 1) (list_items li)),
                      l_used := l_used li - 1\<rparr>)
     else (VTM_E_OUT_OF_RANGE, li))"
  using assms by (auto simp: vtm_list_remove_def vtm_list_inv_def list_items_def split: option.splits)

lemma list_remove_inv: "vtm_list_inv li \<Longrightarrow> vtm_list_inv (snd (vtm_list_remove li i))"
proof (cases "i < l_used li")
  case True
  assume inv: "vtm_list_inv li"
  have "unat (l_used li - 1) = unat (l_used li) - 1"
    using True by (intro unat_minus_one) auto
  then show ?thesis using inv True
    by (auto simp: list_remove_spec vtm_list_inv_def list_items_def word_less_nat_alt word_le_nat_alt
        split: option.splits)
qed (simp add: list_remove_spec)

end
