(* ===== verification/Dataset.thy ===== *)
theory Dataset
  imports Smap Vlist
begin

text \<open>
  The dataset of \<open>core/dataset.c\<close>: named values in a generic map of 8 buckets. Setting or removing a
  field also returns what was freed with the node it replaced. Allocations succeed; where they do
  not, the library aborts the program.
\<close>

record vtm_dataset_node =
  dn_key :: vtm_variant
  dn_value :: vtm_variant
  dn_free_key_ptr :: bool
  dn_free_val_ptr :: bool

record vtm_dataset =
  ds_hints :: u32
  ds_vars :: "vtm_dataset_node vtm_smap"

definition VTM_DS_HINT_DEFAULT :: u32 where
  "VTM_DS_HINT_DEFAULT = 0"

definition VTM_DS_HINT_STATIC_NAMES :: u32 where
  "VTM_DS_HINT_STATIC_NAMES = 1"

definition VTM_DS_HINT_IGNORE_CASE :: u32 where
  "VTM_DS_HINT_IGNORE_CASE = 2"

definition vtm_flag_is_set :: "u32 \<Rightarrow> u32 \<Rightarrow> bool" where
  "vtm_flag_is_set flags flag \<longleftrightarrow> flags AND flag = flag"

definition vtm_dataset_init :: "u32 \<Rightarrow> vtm_dataset" where
  "vtm_dataset_init hints =
     (let vars = VTM_SMAP_INIT 8 VTM_ELEM_STRING True
      in \<lparr>ds_hints = hints,
          ds_vars = (if hints AND VTM_DS_HINT_IGNORE_CASE \<noteq> 0
                     then VTM_SMAP_SET_KEY_FN vars vtm_hash_elem_strcase vtm_elem_cmp_strcase
                     else vars)\<rparr>)"

definition vtm_dataset_newh :: "u32 \<Rightarrow> vtm_dataset" where
  "vtm_dataset_newh hints = vtm_dataset_init hints"

definition vtm_dataset_new :: vtm_dataset where
  "vtm_dataset_new = vtm_dataset_newh VTM_DS_HINT_DEFAULT"

text \<open>What is freed with a node: the cached text of the value, the name, the value, the node.\<close>

datatype ds_freed = DS_text cstr | DS_name cstr | DS_blob vtm_elem | DS_val vtm_elem | DS_node vtm_dataset_node

definition vtm_dataset_free_node :: "vtm_dataset_node \<Rightarrow> ds_freed list" where
  "vtm_dataset_free_node node =
     (case vtm_variant_release (dn_value node) of Some s \<Rightarrow> [DS_text s] | None \<Rightarrow> [])
     @ (if dn_free_key_ptr node then [DS_name (elem_str (var_data (dn_key node)))] else [])
     @ (if dn_free_val_ptr node then
          (if var_type (dn_value node) = VTM_ELEM_BLOB then [DS_blob (var_data (dn_value node))]
           else if var_type (dn_value node) \<in> {VTM_ELEM_STRING, VTM_ELEM_POINTER}
           then [DS_val (var_data (dn_value node))]
           else [])
        else [])"

text \<open>\<open>VTM_SMAP_FREE_NODE\<close>, for the nodes of a dataset.\<close>

definition ds_smap_free_node :: "vtm_dataset_node vtm_smap \<Rightarrow> vtm_dataset_node \<Rightarrow> ds_freed list" where
  "ds_smap_free_node sm node =
     (if sm_free_node sm then vtm_dataset_free_node node else []) @ [DS_node node]"

definition vtm_dataset_clear :: "vtm_dataset \<Rightarrow> ds_freed list \<times> vtm_dataset" where
  "vtm_dataset_clear ds =
     (let (nodes, vars) = VTM_SMAP_CLEAR (ds_vars ds)
      in (concat (map (ds_smap_free_node (ds_vars ds)) nodes), ds\<lparr>ds_vars := vars\<rparr>))"

definition vtm_dataset_release :: "vtm_dataset \<Rightarrow> ds_freed list \<times> vtm_dataset" where
  "vtm_dataset_release ds = vtm_dataset_clear ds"

definition vtm_dataset_free :: "vtm_dataset option \<Rightarrow> ds_freed list" where
  "vtm_dataset_free ds = (case ds of None \<Rightarrow> [] | Some ds \<Rightarrow> fst (vtm_dataset_release ds))"

definition vtm_dataset_put_node :: "vtm_dataset \<Rightarrow> vtm_dataset_node \<Rightarrow> vtm_dataset \<times> ds_freed list" where
  "vtm_dataset_put_node ds node =
     (let (vars, old) = VTM_SMAP_PUT dn_key (ds_vars ds) node
      in (ds\<lparr>ds_vars := vars\<rparr>,
          case old of None \<Rightarrow> [] | Some n \<Rightarrow> ds_smap_free_node (ds_vars ds) n))"

definition vtm_dataset_get_node :: "vtm_dataset \<Rightarrow> cstr \<Rightarrow> (nat \<times> nat) option" where
  "vtm_dataset_get_node ds name = VTM_SMAP_GET dn_key (ds_vars ds) (vtm_variant_from_str name)"

text \<open>The entries are pairs of a field's name and its value.\<close>

definition vtm_dataset_entryset :: "vtm_dataset option \<Rightarrow> (cstr \<times> vtm_variant) list option" where
  "vtm_dataset_entryset ds =
     map_option (\<lambda>ds. map (\<lambda>n. (elem_str (var_data (dn_key n)), dn_value n))
                        (VTM_SMAP_FOR_EACH (ds_vars ds))) ds"

definition vtm_dataset_contains :: "vtm_dataset \<Rightarrow> cstr \<Rightarrow> bool" where
  "vtm_dataset_contains ds name \<longleftrightarrow> vtm_dataset_get_node ds name \<noteq> None"

definition vtm_dataset_remove :: "vtm_dataset \<Rightarrow> cstr \<Rightarrow> vtm_rc \<times> vtm_dataset \<times> ds_freed list" where
  "vtm_dataset_remove ds name =
     (let (removed, vars, old) = VTM_SMAP_REMOVE dn_key (ds_vars ds) (vtm_variant_from_str name)
      in (if removed then VTM_OK else VTM_E_NOT_FOUND, ds\<lparr>ds_vars := vars\<rparr>,
          case old of None \<Rightarrow> [] | Some n \<Rightarrow> ds_smap_free_node (ds_vars ds) n))"

definition vtm_dataset_get_variant :: "vtm_dataset \<Rightarrow> cstr \<Rightarrow> vtm_variant option" where
  "vtm_dataset_get_variant ds name =
     map_option (\<lambda>p. dn_value (smap_node (ds_vars ds) p)) (vtm_dataset_get_node ds name)"

definition vtm_dataset_set_variant ::
    "vtm_dataset \<Rightarrow> cstr \<Rightarrow> vtm_variant \<Rightarrow> vtm_dataset \<times> ds_freed list" where
  "vtm_dataset_set_variant ds name var =
     (let static_key = vtm_flag_is_set (ds_hints ds) VTM_DS_HINT_STATIC_NAMES;
          key = (if static_key then vtm_variant_from_str name
                 else vtm_variant_from_str (vtm_str_copy name));
          data = (if var_type var = VTM_ELEM_STRING
                  then Elem_str (vtm_str_copy (elem_str (var_data var))) else var_data var)
      in vtm_dataset_put_node ds
           \<lparr>dn_key = key,
            dn_value = \<lparr>var_data = data, var_type = var_type var, var_str = None\<rparr>,
            dn_free_key_ptr = \<not> static_key,
            dn_free_val_ptr = (var_type var \<in> {VTM_ELEM_STRING, VTM_ELEM_BLOB})\<rparr>)"

definition VTM_DATASET_SETX ::
    "vtm_dataset \<Rightarrow> cstr \<Rightarrow> vtm_variant \<Rightarrow> bool \<Rightarrow> vtm_dataset \<times> ds_freed list" where
  "VTM_DATASET_SETX ds name value free_val_ptr =
     (let static_key = vtm_flag_is_set (ds_hints ds) VTM_DS_HINT_STATIC_NAMES
      in vtm_dataset_put_node ds
           \<lparr>dn_key = (if static_key then vtm_variant_from_str name
                      else vtm_variant_from_str (vtm_str_copy name)),
            dn_value = value,
            dn_free_key_ptr = \<not> static_key,
            dn_free_val_ptr = free_val_ptr\<rparr>)"

text \<open>\<open>VTM_DATASET_GET\<close>: a field that does not exist has the value \<open>nvl\<close>.\<close>

definition VTM_DATASET_GET ::
    "vtm_dataset \<Rightarrow> cstr \<Rightarrow> (vtm_variant \<Rightarrow> conv_err + 'a) \<Rightarrow> 'a \<Rightarrow> conv_err + 'a" where
  "VTM_DATASET_GET ds name as nvl =
     (case vtm_dataset_get_variant ds name of Some var \<Rightarrow> as var | None \<Rightarrow> Inr nvl)"

definition vtm_dataset_get_int8 :: "vtm_dataset \<Rightarrow> cstr \<Rightarrow> conv_err + 8 word" where
  "vtm_dataset_get_int8 ds name = VTM_DATASET_GET ds name vtm_variant_as_int8 0"

definition vtm_dataset_set_int8 :: "vtm_dataset \<Rightarrow> cstr \<Rightarrow> 8 word \<Rightarrow> vtm_dataset \<times> ds_freed list" where
  "vtm_dataset_set_int8 ds name val = VTM_DATASET_SETX ds name (vtm_variant_from_int8 val) False"

definition vtm_dataset_get_uint8 :: "vtm_dataset \<Rightarrow> cstr \<Rightarrow> conv_err + 8 word" where
  "vtm_dataset_get_uint8 ds name = VTM_DATASET_GET ds name vtm_variant_as_uint8 0"

definition vtm_dataset_set_uint8 :: "vtm_dataset \<Rightarrow> cstr \<Rightarrow> 8 word \<Rightarrow> vtm_dataset \<times> ds_freed list" where
  "vtm_dataset_set_uint8 ds name val = VTM_DATASET_SETX ds name (vtm_variant_from_uint8 val) False"

definition vtm_dataset_get_int16 :: "vtm_dataset \<Rightarrow> cstr \<Rightarrow> conv_err + 16 word" where
  "vtm_dataset_get_int16 ds name = VTM_DATASET_GET ds name vtm_variant_as_int16 0"

definition vtm_dataset_set_int16 :: "vtm_dataset \<Rightarrow> cstr \<Rightarrow> 16 word \<Rightarrow> vtm_dataset \<times> ds_freed list" where
  "vtm_dataset_set_int16 ds name val = VTM_DATASET_SETX ds name (vtm_variant_from_int16 val) False"

definition vtm_dataset_get_uint16 :: "vtm_dataset \<Rightarrow> cstr \<Rightarrow> conv_err + 16 word" where
  "vtm_dataset_get_uint16 ds name = VTM_DATASET_GET ds name vtm_variant_as_uint16 0"

definition vtm_dataset_set_uint16 :: "vtm_dataset \<Rightarrow> cstr \<Rightarrow> 16 word \<Rightarrow> vtm_dataset \<times> ds_freed list" where
  "vtm_dataset_set_uint16 ds name val = VTM_DATASET_SETX ds name (vtm_variant_from_uint16 val) False"

definition vtm_dataset_get_int32 :: "vtm_dataset \<Rightarrow> cstr \<Rightarrow> conv_err + 32 word" where
  "vtm_dataset_get_int32 ds name = VTM_DATASET_GET ds name vtm_variant_as_int32 0"

definition vtm_dataset_set_int32 :: "vtm_dataset \<Rightarrow> cstr \<Rightarrow> 32 word \<Rightarrow> vtm_dataset \<times> ds_freed list" where
  "vtm_dataset_set_int32 ds name val = VTM_DATASET_SETX ds name (vtm_variant_from_int32 val) False"

definition vtm_dataset_get_uint32 :: "vtm_dataset \<Rightarrow> cstr \<Rightarrow> conv_err + 32 word" where
  "vtm_dataset_get_uint32 ds name = VTM_DATASET_GET ds name vtm_variant_as_uint32 0"

definition vtm_dataset_set_uint32 :: "vtm_dataset \<Rightarrow> cstr \<Rightarrow> 32 word \<Rightarrow> vtm_dataset \<times> ds_freed list" where
  "vtm_dataset_set_uint32 ds name val = VTM_DATASET_SETX ds name (vtm_variant_from_uint32 val) False"

definition vtm_dataset_get_int64 :: "vtm_dataset \<Rightarrow> cstr \<Rightarrow> conv_err + 64 word" where
  "vtm_dataset_get_int64 ds name = VTM_DATASET_GET ds name vtm_variant_as_int64 0"

definition vtm_dataset_set_int64 :: "vtm_dataset \<Rightarrow> cstr \<Rightarrow> 64 word \<Rightarrow> vtm_dataset \<times> ds_freed list" where
  "vtm_dataset_set_int64 ds name val = VTM_DATASET_SETX ds name (vtm_variant_from_int64 val) False"

text \<open>The 64 bit unsigned getter converts to a signed integer.\<close>

definition vtm_dataset_get_uint64 :: "vtm_dataset \<Rightarrow> cstr \<Rightarrow> conv_err + 64 word" where
  "vtm_dataset_get_uint64 ds name = VTM_DATASET_GET ds name vtm_variant_as_int64 0"

definition vtm_dataset_set_uint64 :: "vtm_dataset \<Rightarrow> cstr \<Rightarrow> 64 word \<Rightarrow> vtm_dataset \<times> ds_freed list" where
  "vtm_dataset_set_uint64 ds name val = VTM_DATASET_SETX ds name (vtm_variant_from_uint64 val) False"

definition vtm_dataset_get_bool :: "vtm_dataset \<Rightarrow> cstr \<Rightarrow> conv_err + bool" where
  "vtm_dataset_get_bool ds name = VTM_DATASET_GET ds name vtm_variant_as_bool False"

definition vtm_dataset_set_bool :: "vtm_dataset \<Rightarrow> cstr \<Rightarrow> bool \<Rightarrow> vtm_dataset \<times> ds_freed list" where
  "vtm_dataset_set_bool ds name val = VTM_DATASET_SETX ds name (vtm_variant_from_bool val) False"

definition vtm_dataset_get_char :: "vtm_dataset \<Rightarrow> cstr \<Rightarrow> conv_err + 8 word" where
  "vtm_dataset_get_char ds name = VTM_DATASET_GET ds name vtm_variant_as_char 0"

definition vtm_dataset_set_char :: "vtm_dataset \<Rightarrow> cstr \<Rightarrow> 8 word \<Rightarrow> vtm_dataset \<times> ds_freed list" where
  "vtm_dataset_set_char ds name val = VTM_DATASET_SETX ds name (vtm_variant_from_char val) False"

definition vtm_dataset_get_schar :: "vtm_dataset \<Rightarrow> cstr \<Rightarrow> conv_err + 8 word" where
  "vtm_dataset_get_schar ds name = VTM_DATASET_GET ds name vtm_variant_as_schar 0"

definition vtm_dataset_set_schar :: "vtm_dataset \<Rightarrow> cstr \<Rightarrow> 8 word \<Rightarrow> vtm_dataset \<times> ds_freed list" where
  "vtm_dataset_set_schar ds name val = VTM_DATASET_SETX ds name (vtm_variant_from_schar val) False"

definition vtm_dataset_get_uchar :: "vtm_dataset \<Rightarrow> cstr \<Rightarrow> conv_err + 8 word" where
  "vtm_dataset_get_uchar ds name = VTM_DATASET_GET ds name vtm_variant_as_uchar 0"

definition vtm_dataset_set_uchar :: "vtm_dataset \<Rightarrow> cstr \<Rightarrow> 8 word \<Rightarrow> vtm_dataset \<times> ds_freed list" where
  "vtm_dataset_set_uchar ds name val = VTM_DATASET_SETX ds name (vtm_variant_from_uchar val) False"

definition vtm_dataset_get_short :: "vtm_dataset \<Rightarrow> cstr \<Rightarrow> conv_err + 16 word" where
  "vtm_dataset_get_short ds name = VTM_DATASET_GET ds name vtm_variant_as_short 0"

definition vtm_dataset_set_short :: "vtm_dataset \<Rightarrow> cstr \<Rightarrow> 16 word \<Rightarrow> vtm_dataset \<times> ds_freed list" where
  "vtm_dataset_set_short ds name val = VTM_DATASET_SETX ds name (vtm_variant_from_short val) False"

definition vtm_dataset_get_ushort :: "vtm_dataset \<Rightarrow> cstr \<Rightarrow> conv_err + 16 word" where
  "vtm_dataset_get_ushort ds name = VTM_DATASET_GET ds name vtm_variant_as_ushort 0"

definition vtm_dataset_set_ushort :: "vtm_dataset \<Rightarrow> cstr \<Rightarrow> 16 word \<Rightarrow> vtm_dataset \<times> ds_freed list" where
  "vtm_dataset_set_ushort ds name val = VTM_DATASET_SETX ds name (vtm_variant_from_ushort val) False"

definition vtm_dataset_get_int :: "vtm_dataset \<Rightarrow> cstr \<Rightarrow> conv_err + 32 word" where
  "vtm_dataset_get_int ds name = VTM_DATASET_GET ds name vtm_variant_as_int 0"

definition vtm_dataset_set_int :: "vtm_dataset \<Rightarrow> cstr \<Rightarrow> 32 word \<Rightarrow> vtm_dataset \<times> ds_freed list" where
  "vtm_dataset_set_int ds name val = VTM_DATASET_SETX ds name (vtm_variant_from_int val) False"

definition vtm_dataset_get_uint :: "vtm_dataset \<Rightarrow> cstr \<Rightarrow> conv_err + 32 word" where
  "vtm_dataset_get_uint ds name = VTM_DATASET_GET ds name vtm_variant_as_uint 0"

definition vtm_dataset_set_uint :: "vtm_dataset \<Rightarrow> cstr \<Rightarrow> 32 word \<Rightarrow> vtm_dataset \<times> ds_freed list" where
  "vtm_dataset_set_uint ds name val = VTM_DATASET_SETX ds name (vtm_variant_from_uint val) False"

definition vtm_dataset_get_long :: "vtm_dataset \<Rightarrow> cstr \<Rightarrow> conv_err + 64 word" where
  "vtm_dataset_get_long ds name = VTM_DATASET_GET ds name vtm_variant_as_long 0"

definition vtm_dataset_set_long :: "vtm_dataset \<Rightarrow> cstr \<Rightarrow> 64 word \<Rightarrow> vtm_dataset \<times> ds_freed list" where
  "vtm_dataset_set_long ds name val = VTM_DATASET_SETX ds name (vtm_variant_from_long val) False"

definition vtm_dataset_get_ulong :: "vtm_dataset \<Rightarrow> cstr \<Rightarrow> conv_err + 64 word" where
  "vtm_dataset_get_ulong ds name = VTM_DATASET_GET ds name vtm_variant_as_ulong 0"

definition vtm_dataset_set_ulong :: "vtm_dataset \<Rightarrow> cstr \<Rightarrow> 64 word \<Rightarrow> vtm_dataset \<times> ds_freed list" where
  "vtm_dataset_set_ulong ds name val = VTM_DATASET_SETX ds name (vtm_variant_from_ulong val) False"

definition vtm_dataset_get_float :: "vtm_dataset \<Rightarrow> cstr \<Rightarrow> conv_err + u32" where
  "vtm_dataset_get_float ds name = VTM_DATASET_GET ds name vtm_variant_as_float 0"

definition vtm_dataset_set_float :: "vtm_dataset \<Rightarrow> cstr \<Rightarrow> u32 \<Rightarrow> vtm_dataset \<times> ds_freed list" where
  "vtm_dataset_set_float ds name val = VTM_DATASET_SETX ds name (vtm_variant_from_float val) False"

definition vtm_dataset_get_double :: "vtm_dataset \<Rightarrow> cstr \<Rightarrow> conv_err + u64" where
  "vtm_dataset_get_double ds name = VTM_DATASET_GET ds name vtm_variant_as_double 0"

definition vtm_dataset_set_double :: "vtm_dataset \<Rightarrow> cstr \<Rightarrow> u64 \<Rightarrow> vtm_dataset \<times> ds_freed list" where
  "vtm_dataset_set_double ds name val = VTM_DATASET_SETX ds name (vtm_variant_from_double val) False"

text \<open>
  Asking for a string stores the text of the value in its node, which owns it from then on.
\<close>

definition ds_update_value ::
    "vtm_dataset \<Rightarrow> nat \<times> nat \<Rightarrow> vtm_variant \<Rightarrow> vtm_dataset" where
  "ds_update_value ds p v =
     (let vars = ds_vars ds; chain = sm_buckets vars ! fst p; node = chain ! snd p
      in ds\<lparr>ds_vars := vars\<lparr>sm_buckets :=
           (sm_buckets vars)[fst p := chain[snd p := node\<lparr>dn_value := v\<rparr>]]\<rparr>\<rparr>)"

definition vtm_dataset_get_string ::
    "allocator \<Rightarrow> vtm_dataset \<Rightarrow> cstr \<Rightarrow> conv_err + cstr option \<times> vtm_dataset" where
  "vtm_dataset_get_string ma ds name =
     (case vtm_dataset_get_node ds name of
        None \<Rightarrow> Inr (None, ds)
      | Some p \<Rightarrow>
          map_sum id (\<lambda>(s, v). (s, ds_update_value ds p v))
            (vtm_variant_as_str ma (dn_value (smap_node (ds_vars ds) p))))"

text \<open>Setting a field to NULL removes it.\<close>

definition VTM_DATASET_CHECK_NULL_VALUE ::
    "vtm_dataset \<Rightarrow> cstr \<Rightarrow> 'a option \<Rightarrow> ('a \<Rightarrow> vtm_dataset \<times> ds_freed list) \<Rightarrow> vtm_dataset \<times> ds_freed list" where
  "VTM_DATASET_CHECK_NULL_VALUE ds name val f =
     (case val of None \<Rightarrow> snd (vtm_dataset_remove ds name) | Some v \<Rightarrow> f v)"

definition vtm_dataset_set_string ::
    "vtm_dataset \<Rightarrow> cstr \<Rightarrow> cstr option \<Rightarrow> vtm_dataset \<times> ds_freed list" where
  "vtm_dataset_set_string ds name val =
     VTM_DATASET_CHECK_NULL_VALUE ds name val
       (\<lambda>v. VTM_DATASET_SETX ds name (vtm_variant_from_str (vtm_str_copy v)) True)"

definition vtm_dataset_set_static_string ::
    "vtm_dataset \<Rightarrow> cstr \<Rightarrow> cstr option \<Rightarrow> vtm_dataset \<times> ds_freed list" where
  "vtm_dataset_set_static_string ds name val =
     VTM_DATASET_CHECK_NULL_VALUE ds name val
       (\<lambda>v. VTM_DATASET_SETX ds name (vtm_variant_from_str v) False)"

definition vtm_dataset_get_blob :: "vtm_dataset \<Rightarrow> cstr \<Rightarrow> vtm_blob option" where
  "vtm_dataset_get_blob ds name =
     (case vtm_dataset_get_variant ds name of Some var \<Rightarrow> vtm_variant_as_blob var | None \<Rightarrow> None)"

definition vtm_dataset_set_blob ::
    "vtm_dataset \<Rightarrow> cstr \<Rightarrow> vtm_blob option \<Rightarrow> vtm_dataset \<times> ds_freed list" where
  "vtm_dataset_set_blob ds name val =
     VTM_DATASET_CHECK_NULL_VALUE ds name val
       (\<lambda>v. VTM_DATASET_SETX ds name (vtm_variant_from_blob (Some v)) True)"

definition vtm_dataset_set_static_blob ::
    "vtm_dataset \<Rightarrow> cstr \<Rightarrow> vtm_blob option \<Rightarrow> vtm_dataset \<times> ds_freed list" where
  "vtm_dataset_set_static_blob ds name val =
     VTM_DATASET_CHECK_NULL_VALUE ds name val
       (\<lambda>v. VTM_DATASET_SETX ds name (vtm_variant_from_blob (Some v)) False)"

definition vtm_dataset_get_pointer :: "vtm_dataset \<Rightarrow> cstr \<Rightarrow> u64" where
  "vtm_dataset_get_pointer ds name =
     (case vtm_dataset_get_variant ds name of Some var \<Rightarrow> vtm_variant_as_ptr var | None \<Rightarrow> 0)"

definition vtm_dataset_set_pointer :: "vtm_dataset \<Rightarrow> cstr \<Rightarrow> u64 \<Rightarrow> vtm_dataset \<times> ds_freed list" where
  "vtm_dataset_set_pointer ds name val =
     VTM_DATASET_CHECK_NULL_VALUE ds name (if val = 0 then None else Some val)
       (\<lambda>v. VTM_DATASET_SETX ds name (vtm_variant_from_ptr v) False)"

subsection \<open>The dataset as a store\<close>

text \<open>The comparison, the hash and the normal form of field names, with or without regard to case.\<close>

definition ds_cmp :: "bool \<Rightarrow> vtm_elem \<Rightarrow> vtm_elem \<Rightarrow> bool" where
  "ds_cmp nocase = (if nocase then vtm_elem_cmp_strcase else vtm_elem_cmp_str)"

definition ds_hash :: "bool \<Rightarrow> vtm_elem \<Rightarrow> u32" where
  "ds_hash nocase = (if nocase then vtm_hash_elem_strcase else vtm_hash_elem_str)"

definition ds_norm :: "bool \<Rightarrow> cstr \<Rightarrow> cstr" where
  "ds_norm nocase s = (if nocase then map c_tolower s else s)"

lemma str_key_cases: "str_key_ok e \<Longrightarrow> \<exists>s. e = Elem_str s \<and> no_nul s"
  by (cases e) (auto simp: str_key_ok_def)

interpretation dk: smap_client str_key_ok "ds_cmp nocase" "ds_hash nocase"
  "\<lambda>e. ds_norm nocase (elem_str e)" dn_key for nocase
proof unfold_locales
  fix a b
  assume ok: "str_key_ok a" "str_key_ok b"
  show "ds_cmp nocase a b \<longleftrightarrow> ds_norm nocase (elem_str a) = ds_norm nocase (elem_str b)"
    using sk.cmp_iff [OF ok] by (auto simp: ds_cmp_def ds_norm_def str_lower_def vtm_elem_cmp_str_def)
  assume "ds_norm nocase (elem_str a) = ds_norm nocase (elem_str b)"
  then show "ds_hash nocase a = ds_hash nocase b"
    using sk.hash_resp [OF ok]
    by (auto simp: ds_hash_def ds_norm_def str_lower_def vtm_hash_elem_str_def split: if_splits)
qed

definition vtm_dataset_inv :: "bool \<Rightarrow> vtm_dataset \<Rightarrow> bool" where
  "vtm_dataset_inv nocase ds \<longleftrightarrow>
     smap_inv str_key_ok (ds_cmp nocase) (ds_hash nocase) (\<lambda>e. ds_norm nocase (elem_str e)) dn_key
       (ds_vars ds)"

text \<open>A field is set to a value, with or without ownership of what the value points to.\<close>

definition ds_store_put ::
    "cstr \<Rightarrow> vtm_variant \<times> bool \<Rightarrow> vtm_dataset \<Rightarrow> vtm_dataset option" where
  "ds_store_put name v ds = Some (fst (VTM_DATASET_SETX ds name (fst v) (snd v)))"

definition ds_store_get :: "vtm_dataset \<Rightarrow> cstr \<Rightarrow> (vtm_variant \<times> bool) option" where
  "ds_store_get ds name =
     map_option (\<lambda>p. let n = smap_node (ds_vars ds) p in (dn_value n, dn_free_val_ptr n))
       (vtm_dataset_get_node ds name)"

definition ds_store_del :: "cstr \<Rightarrow> vtm_dataset \<Rightarrow> vtm_dataset" where
  "ds_store_del name ds = fst (snd (vtm_dataset_remove ds name))"

lemma from_str_key [simp]: "str_key_ok (var_data (vtm_variant_from_str s)) \<longleftrightarrow> no_nul s"
  "elem_str (var_data (vtm_variant_from_str s)) = s"
  by (simp_all add: vtm_variant_from_str_def str_key_ok_def)

lemma ds_setx_eq:
  "VTM_DATASET_SETX ds name v fr =
     (let (vars, old) = VTM_SMAP_PUT dn_key (ds_vars ds)
        \<lparr>dn_key = vtm_variant_from_str name, dn_value = v,
         dn_free_key_ptr = \<not> vtm_flag_is_set (ds_hints ds) VTM_DS_HINT_STATIC_NAMES,
         dn_free_val_ptr = fr\<rparr>
      in (ds\<lparr>ds_vars := vars\<rparr>, case old of None \<Rightarrow> [] | Some n \<Rightarrow> ds_smap_free_node (ds_vars ds) n))"
  by (simp add: VTM_DATASET_SETX_def vtm_dataset_put_node_def vtm_str_copy_def Let_def)

lemma ds_store_get_eq:
  "ds_store_get ds name = map_option (\<lambda>n. (dn_value n, dn_free_val_ptr n))
     (map_option (smap_node (ds_vars ds)) (VTM_SMAP_GET dn_key (ds_vars ds) (vtm_variant_from_str name)))"
  by (simp add: ds_store_get_def vtm_dataset_get_node_def option.map_comp o_def Let_def)

lemma ds_put_law:
  assumes "vtm_dataset_inv nocase ds" and "no_nul name" and "ds_store_put name v ds = Some ds'"
  shows "vtm_dataset_inv nocase ds' \<and> (\<forall>n. no_nul n \<longrightarrow> ds_store_get ds' n =
    (if ds_norm nocase n = ds_norm nocase name then Some v else ds_store_get ds n))"
proof -
  define node where "node = \<lparr>dn_key = vtm_variant_from_str name, dn_value = fst v,
    dn_free_key_ptr = \<not> vtm_flag_is_set (ds_hints ds) VTM_DS_HINT_STATIC_NAMES,
    dn_free_val_ptr = snd v\<rparr>"
  obtain vars old where put: "VTM_SMAP_PUT dn_key (ds_vars ds) node = (vars, old)" by fastforce
  then have ds': "ds' = ds\<lparr>ds_vars := vars\<rparr>"
    using assms(3) by (simp add: ds_store_put_def ds_setx_eq node_def)
  note law = dk.put_law [OF assms(1) [unfolded vtm_dataset_inv_def] _ put]
  show ?thesis using law(1) law(2) [of "vtm_variant_from_str n" for n] assms(2)
    by (simp add: ds' vtm_dataset_inv_def ds_store_get_eq node_def)
qed

lemma ds_del_law:
  assumes "vtm_dataset_inv nocase ds" and "no_nul name"
  shows "vtm_dataset_inv nocase (ds_store_del name ds) \<and>
    (\<forall>n. no_nul n \<longrightarrow> ds_store_get (ds_store_del name ds) n =
      (if ds_norm nocase n = ds_norm nocase name then None else ds_store_get ds n))"
proof -
  obtain r vars old where rem: "VTM_SMAP_REMOVE dn_key (ds_vars ds) (vtm_variant_from_str name) = (r, vars, old)"
    by (metis prod_cases3)
  then have ds': "ds_store_del name ds = ds\<lparr>ds_vars := vars\<rparr>"
    by (simp add: ds_store_del_def vtm_dataset_remove_def)
  note law = dk.remove_law [OF assms(1) [unfolded vtm_dataset_inv_def] _ rem]
  show ?thesis using law(1) law(2) [of "vtm_variant_from_str n" for n] assms(2)
    by (simp add: ds' vtm_dataset_inv_def ds_store_get_eq)
qed

interpretation dst: kv_store "vtm_dataset_inv nocase" no_nul "ds_norm nocase" ds_store_get ds_store_put
  ds_store_del for nocase
  by unfold_locales (simp_all add: ds_put_law ds_del_law)

lemma ds_init_inv:
  defines "nocase h \<equiv> h AND VTM_DS_HINT_IGNORE_CASE \<noteq> 0"
  shows "vtm_dataset_inv (nocase hints) (vtm_dataset_init hints)"
    and "\<forall>n. no_nul n \<longrightarrow> ds_store_get (vtm_dataset_init hints) n = Map.empty (ds_norm nc n)"
proof -
  show "vtm_dataset_inv (nocase hints) (vtm_dataset_init hints)"
    by (auto simp: nocase_def vtm_dataset_init_def vtm_dataset_inv_def smap_inv_def VTM_SMAP_INIT_def
        VTM_SMAP_SET_KEY_FN_def ds_cmp_def ds_hash_def table_inv_def Let_def)
  have "sm_buckets (ds_vars (vtm_dataset_init hints)) ! (i mod 8) = []" for i
    by (simp add: vtm_dataset_init_def VTM_SMAP_INIT_def VTM_SMAP_SET_KEY_FN_def Let_def)
  moreover have "length (sm_buckets (ds_vars (vtm_dataset_init hints))) = 8"
    by (simp add: vtm_dataset_init_def VTM_SMAP_INIT_def VTM_SMAP_SET_KEY_FN_def Let_def)
  ultimately show "\<forall>n. no_nul n \<longrightarrow> ds_store_get (vtm_dataset_init hints) n = Map.empty (ds_norm nc n)"
    by (simp add: ds_store_get_eq VTM_SMAP_GET_def VTM_SMAP_INDEX_def Let_def)
qed

lemma ds_run_total: "\<exists>ds'. kv_run ds_store_put ds_store_del ops ds = Some ds'"
proof (induction ops arbitrary: ds)
  case Nil
  then show ?case by simp
next
  case (Cons op ops)
  then show ?case by (cases op) (auto simp: ds_store_put_def)
qed

text \<open>
  C3. A dataset refines a finite map from field names to values: after any sequence of set and remove
  operations on a new dataset, reading a field gives exactly the value last set under its name and
  not removed since. With the hint \<open>VTM_DS_HINT_IGNORE_CASE\<close> names that differ in case only are
  the same field, without it they are different fields.
\<close>

theorem dataset_refines:
  assumes "list_all (no_nul \<circ> kv_key) ops" and "no_nul name"
  shows "\<exists>ds'. kv_run ds_store_put ds_store_del ops (vtm_dataset_init hints) = Some ds'
    \<and> vtm_dataset_get_variant ds' name
        = map_option fst (kv_spec (ds_norm (hints AND VTM_DS_HINT_IGNORE_CASE \<noteq> 0)) ops Map.empty
            (ds_norm (hints AND VTM_DS_HINT_IGNORE_CASE \<noteq> 0) name))"
proof -
  let ?nc = "hints AND VTM_DS_HINT_IGNORE_CASE \<noteq> 0"
  obtain ds' where ds': "kv_run ds_store_put ds_store_del ops (vtm_dataset_init hints) = Some ds'"
    using ds_run_total by blast
  have "ds_store_get ds' name = kv_spec (ds_norm ?nc) ops Map.empty (ds_norm ?nc name)"
    using dst.run_refines [OF ds_init_inv(1) [of hints] assms(1) ds_init_inv(2) ds'] assms(2) by blast
  moreover have "vtm_dataset_get_variant ds' name = map_option fst (ds_store_get ds' name)"
    by (simp add: vtm_dataset_get_variant_def ds_store_get_def option.map_comp o_def Let_def)
  ultimately show ?thesis using ds' by simp
qed

theorem dataset_refines_witness:
  "\<exists>ds'. kv_run ds_store_put ds_store_del
       [KPut (bytes_of ''Host'') (vtm_variant_from_int 1, False),
        KPut (bytes_of ''HOST'') (vtm_variant_from_int 2, False)]
       (vtm_dataset_init VTM_DS_HINT_IGNORE_CASE) = Some ds'
     \<and> vtm_dataset_get_variant ds' (bytes_of ''host'') = Some (vtm_variant_from_int 2)"
proof -
  have "(2 :: u32) AND 2 \<noteq> 0" by simp
  then show ?thesis
    using dataset_refines [of "[KPut (bytes_of ''Host'') (vtm_variant_from_int 1, False),
        KPut (bytes_of ''HOST'') (vtm_variant_from_int 2, False)]" "bytes_of ''host''"
        VTM_DS_HINT_IGNORE_CASE]
    by (simp add: bytes_of_def VTM_DS_HINT_IGNORE_CASE_def ds_norm_def c_tolower_def)
qed

subsection \<open>Typed access\<close>

lemma ds_get_set:
  assumes "vtm_dataset_inv nocase ds" and "no_nul name"
  shows "vtm_dataset_get_variant (fst (VTM_DATASET_SETX ds name v fr)) name = Some v"
proof -
  have "ds_store_get (fst (VTM_DATASET_SETX ds name v fr)) name = Some (v, fr)"
    using ds_put_law [OF assms, of "(v, fr)"] assms(2) by (simp add: ds_store_put_def)
  then show ?thesis
    by (auto simp: vtm_dataset_get_variant_def ds_store_get_def Let_def)
qed

text \<open>
  \<open>vtm_dataset_get_uint64\<close> converts through a signed integer: a string field holding the largest
  unsigned number is read as the largest signed one, where the variant's own unsigned conversion
  gives the number.
\<close>

theorem dataset_get_uint64_saturates:
  assumes "vtm_dataset_inv nocase ds" and "no_nul name"
  shows "let ds' = fst (vtm_dataset_set_string ds name (Some (bytes_of ''18446744073709551615'')))
     in vtm_dataset_get_uint64 ds' name = Inr 0x7fffffffffffffff
        \<and> (\<exists>var. vtm_dataset_get_variant ds' name = Some var
             \<and> vtm_variant_as_uint64 var = Inr 0xffffffffffffffff)"
  using ds_get_set [OF assms, of "vtm_variant_from_str (bytes_of ''18446744073709551615'')" True]
  by (simp add: vtm_dataset_set_string_def VTM_DATASET_CHECK_NULL_VALUE_def vtm_str_copy_def
      vtm_dataset_get_uint64_def VTM_DATASET_GET_def vtm_variant_as_int64_def vtm_variant_as_uint64_def
      vtm_elem_as_int64_def vtm_elem_as_uint64_def VTM_ELEM_CONV_NUMERIC_def VTM_ELEM_CONV_UNUMERIC_def
      vtm_variant_from_str_def vtm_conv_str_int64_def vtm_conv_str_uint64_def bytes_of_def
      c_strtoll_def c_strtoull_def c_isspace_def c_hd_def c_digits_def c_isdigit_def Let_def)

theorem dataset_get_uint64_saturates_witness:
  "vtm_dataset_get_uint64
     (fst (vtm_dataset_set_string vtm_dataset_new (bytes_of ''n'')
        (Some (bytes_of ''18446744073709551615'')))) (bytes_of ''n'') = Inr 0x7fffffffffffffff"
proof -
  have "vtm_dataset_inv (VTM_DS_HINT_DEFAULT AND VTM_DS_HINT_IGNORE_CASE \<noteq> 0) vtm_dataset_new"
    using ds_init_inv(1) by (simp add: vtm_dataset_new_def vtm_dataset_newh_def)
  from dataset_get_uint64_saturates [OF this, of "bytes_of ''n''"] show ?thesis
    by (simp add: bytes_of_def Let_def)
qed

subsection \<open>Memory\<close>

fun ds_freed_nodes :: "ds_freed list \<Rightarrow> vtm_dataset_node multiset" where
  "ds_freed_nodes [] = {#}"
| "ds_freed_nodes (DS_node n # fs) = add_mset n (ds_freed_nodes fs)"
| "ds_freed_nodes (f # fs) = ds_freed_nodes fs"

lemma ds_freed_nodes_append [simp]: "ds_freed_nodes (xs @ ys) = ds_freed_nodes xs + ds_freed_nodes ys"
  by (induction xs rule: ds_freed_nodes.induct) auto

lemma ds_freed_nodes_free [simp]: "ds_freed_nodes (ds_smap_free_node sm n) = {#n#}"
  by (simp add: ds_smap_free_node_def vtm_dataset_free_node_def split: option.split)

text \<open>
  Fields are neither lost nor freed while in use: the nodes after setting a field, together with
  those freed by it, are the nodes before and the new one; the nodes after removing a field, together
  with those freed by it, are the nodes before, and the return code tells whether there was one.
\<close>

theorem dataset_conserves_nodes:
  assumes "vtm_dataset_inv nocase ds" and "no_nul name"
  shows "(let (ds', fr) = VTM_DATASET_SETX ds name v own
          in \<exists>n. dn_value n = v \<and> dn_free_val_ptr n = own
               \<and> elem_str (var_data (dn_key n)) = name
               \<and> mset (VTM_SMAP_FOR_EACH (ds_vars ds')) + ds_freed_nodes fr
                   = add_mset n (mset (VTM_SMAP_FOR_EACH (ds_vars ds))))
     \<and> (let (rc, ds', fr) = vtm_dataset_remove ds name
         in mset (VTM_SMAP_FOR_EACH (ds_vars ds')) + ds_freed_nodes fr
              = mset (VTM_SMAP_FOR_EACH (ds_vars ds))
            \<and> rc = (if vtm_dataset_contains ds name then VTM_OK else VTM_E_NOT_FOUND))"
proof -
  define node where "node = \<lparr>dn_key = vtm_variant_from_str name, dn_value = v,
    dn_free_key_ptr = \<not> vtm_flag_is_set (ds_hints ds) VTM_DS_HINT_STATIC_NAMES,
    dn_free_val_ptr = own\<rparr>"
  obtain vars old where put: "VTM_SMAP_PUT dn_key (ds_vars ds) node = (vars, old)" by fastforce
  obtain r vars' old' where rem: "VTM_SMAP_REMOVE dn_key (ds_vars ds) (vtm_variant_from_str name)
      = (r, vars', old')" by (metis prod_cases3)
  note inv = assms(1) [unfolded vtm_dataset_inv_def]
  have fr: "ds_freed_nodes (case q of None \<Rightarrow> [] | Some n \<Rightarrow> ds_smap_free_node sm n)
      = mset_set (set_option q)" for q sm by (cases q) auto
  have "let (ds', fr) = VTM_DATASET_SETX ds name v own
      in mset (VTM_SMAP_FOR_EACH (ds_vars ds')) + ds_freed_nodes fr
           = add_mset node (mset (VTM_SMAP_FOR_EACH (ds_vars ds)))"
    using dk.put_law(3) [OF inv _ put] assms(2) put by (simp add: ds_setx_eq node_def fr)
  moreover have "dn_value node = v \<and> dn_free_val_ptr node = own \<and> elem_str (var_data (dn_key node)) = name"
    by (simp add: node_def)
  moreover have "let (rc, ds', fr) = vtm_dataset_remove ds name
      in mset (VTM_SMAP_FOR_EACH (ds_vars ds')) + ds_freed_nodes fr = mset (VTM_SMAP_FOR_EACH (ds_vars ds))
         \<and> rc = (if vtm_dataset_contains ds name then VTM_OK else VTM_E_NOT_FOUND)"
    using dk.remove_law(3, 4) [OF inv _ rem] assms(2)
    by (simp add: vtm_dataset_remove_def rem fr vtm_dataset_contains_def vtm_dataset_get_node_def)
  ultimately show ?thesis by (auto simp: split_beta)
qed

theorem dataset_conserves_nodes_witness:
  "let (rc, ds', fr) = vtm_dataset_remove vtm_dataset_new (bytes_of ''n'')
   in mset (VTM_SMAP_FOR_EACH (ds_vars ds')) + ds_freed_nodes fr
        = mset (VTM_SMAP_FOR_EACH (ds_vars vtm_dataset_new))"
proof -
  have "vtm_dataset_inv (VTM_DS_HINT_DEFAULT AND VTM_DS_HINT_IGNORE_CASE \<noteq> 0) vtm_dataset_new"
    using ds_init_inv(1) by (simp add: vtm_dataset_new_def vtm_dataset_newh_def)
  from dataset_conserves_nodes [OF this, of "bytes_of ''n''"] show ?thesis
    by (auto simp: bytes_of_def split_beta)
qed


end
