(* ===== verification/Serialization.thy ===== *)
theory Serialization
  imports Ieee Mathx
begin

text \<open>
  \<open>util/serialization.c\<close>: the packing of floating point values for the wire. Every operation of the C
  code on \<open>float\<close> or \<open>double\<close> operands is computed exactly and rounded once to the type.
\<close>

subsection \<open>Exact arithmetic on decoded values\<close>

definition f_mul :: "fval \<Rightarrow> fval \<Rightarrow> fval" where
  "f_mul a b =
     (case (a, b) of
        (Ffin s m e, Ffin s' m' e') \<Rightarrow> Ffin (s \<noteq> s') (m * m') (e + e')
      | _ \<Rightarrow> Fnan False)"

definition f_signed :: "bool \<Rightarrow> nat \<Rightarrow> int" where
  "f_signed s m = (if s then - int m else int m)"

definition f_add :: "fval \<Rightarrow> fval \<Rightarrow> fval" where
  "f_add a b =
     (case (a, b) of
        (Ffin s m e, Ffin s' m' e') \<Rightarrow>
          let e0 = min e e';
              n = f_signed s m * 2 ^ nat (e - e0) + f_signed s' m' * 2 ^ nat (e' - e0)
          in Ffin (n < 0) (nat \<bar>n\<bar>) e0
      | _ \<Rightarrow> Fnan False)"

definition f_abs :: "fval \<Rightarrow> fval" where
  "f_abs a = (case a of Ffin s m e \<Rightarrow> Ffin False m e | Finf s \<Rightarrow> Finf False | Fnan s \<Rightarrow> Fnan False)"

definition f_nat :: "nat \<Rightarrow> fval" where
  "f_nat n = Ffin False n 0"

text \<open>The half, and the quotient of an integer and a positive integer, close enough to be rounded.\<close>

definition f_half :: fval where
  "f_half = Ffin False 1 (- 1)"

definition f_quot :: "fval \<Rightarrow> nat \<Rightarrow> fval" where
  "f_quot a d =
     (case a of
        Ffin s m e \<Rightarrow>
          let k = bit_len d + 66; q = m * 2 ^ k div d; r = m * 2 ^ k mod d
          in Ffin s (2 * q + (if r = 0 then 0 else 1)) (e - int k - 1)
      | _ \<Rightarrow> Fnan False)"

definition f_scale :: "fval \<Rightarrow> int \<Rightarrow> fval" where
  "f_scale a n = (case a of Ffin s m e \<Rightarrow> Ffin s m (e + n) | _ \<Rightarrow> a)"

definition f_neg :: "fval \<Rightarrow> bool" where
  "f_neg a = (case a of Ffin s m e \<Rightarrow> s \<and> m \<noteq> 0 | Finf s \<Rightarrow> s | Fnan s \<Rightarrow> False)"

text \<open>\<open>frexp\<close>: the fraction in \<open>[0.5, 1)\<close> and the exponent; \<open>None\<close> for an infinity, whose exponent is unspecified.\<close>

definition f_frexp :: "fval \<Rightarrow> (fval \<times> int) option" where
  "f_frexp a =
     (case a of
        Ffin s m e \<Rightarrow> if m = 0 then Some (a, 0)
                      else Some (Ffin s m (- int (bit_len m)), e + int (bit_len m))
      | _ \<Rightarrow> None)"

definition f32r :: "fval \<Rightarrow> fval" where
  "f32r v = f32_decode (f32_encode v)"

definition f64r :: "fval \<Rightarrow> fval" where
  "f64r v = f64_decode (f64_encode v)"

subsection \<open>Packing\<close>

definition VTM_MANTISSA_23 :: nat where
  "VTM_MANTISSA_23 = 8388606"

definition VTM_MANTISSA_52 :: nat where
  "VTM_MANTISSA_52 = 4503599627370494"

definition VTM_FLT_EXP_OFFSET :: int where
  "VTM_FLT_EXP_OFFSET = 126"

definition VTM_DBL_EXP_OFFSET :: int where
  "VTM_DBL_EXP_OFFSET = 1022"

text \<open>The scaled fraction \<open>1 + (|frac| - 0.5) * 2 * scale\<close>, rounded by \<open>r\<close> after each operation.\<close>

definition pack_mantissa :: "(fval \<Rightarrow> fval) \<Rightarrow> nat \<Rightarrow> fval \<Rightarrow> fval" where
  "pack_mantissa r scale frac =
     r (f_add (f_nat 1)
         (r (f_mul (r (f_mul (r (f_add (f_abs frac) (f_mul (Ffin True 1 0) f_half))) (f_nat 2)))
              (f_nat scale))))"

text \<open>\<open>None\<close>: undefined (the infinities); an error for NaN.\<close>

definition vtm_pack_float :: "u32 \<Rightarrow> (vtm_rc + u32) option" where
  "vtm_pack_float x =
     (case f32_decode x of
        Fnan _ \<Rightarrow> Some (Inl VTM_E_INVALID_ARG)
      | v \<Rightarrow>
          (case f_frexp v of
             None \<Rightarrow> None
           | Some (frac, ex) \<Rightarrow>
               (case (if f_is_zero frac then Some 0 else f_trunc (pack_mantissa f32r VTM_MANTISSA_23 frac)) of
                  None \<Rightarrow> None
                | Some mantissa \<Rightarrow>
                    Some (Inr ((if f_neg v then 0x80000000 else 0)
                               + push_bit 8 (word_of_int mantissa)
                               + ucast (word_of_int (ex + VTM_FLT_EXP_OFFSET) :: byte))))))"

definition vtm_pack_double :: "u64 \<Rightarrow> (vtm_rc + u64) option" where
  "vtm_pack_double x =
     (case f64_decode x of
        Fnan _ \<Rightarrow> Some (Inl VTM_E_INVALID_ARG)
      | v \<Rightarrow>
          (case f_frexp v of
             None \<Rightarrow> None
           | Some (frac, ex) \<Rightarrow>
               (case (if f_is_zero frac then Some 0 else f_trunc (pack_mantissa f64r VTM_MANTISSA_52 frac)) of
                  None \<Rightarrow> None
                | Some mantissa \<Rightarrow>
                    Some (Inr ((if f_neg v then 0x8000000000000000 else 0)
                               + push_bit 11 (word_of_int mantissa)
                               + ucast (word_of_int (ex + VTM_DBL_EXP_OFFSET) :: u16))))))"

text \<open>\<open>(man - 1) / scale / 2 + 0.5\<close>, rounded by \<open>r\<close> after each operation.\<close>

definition unpack_mantissa :: "(fval \<Rightarrow> fval) \<Rightarrow> nat \<Rightarrow> nat \<Rightarrow> fval" where
  "unpack_mantissa r scale man =
     r (f_add (r (f_scale (r (f_quot (r (f_nat (man - 1))) scale)) (- 1))) f_half)"

definition vtm_unpack_float :: "u32 \<Rightarrow> u32" where
  "vtm_unpack_float x =
     (let neg = bit x 31;
          ex = int (unat (x AND 0xff)) - VTM_FLT_EXP_OFFSET;
          man = unat (drop_bit 8 (x AND 0x7fffffff))
      in if man < 1 then (if neg then 0x80000000 else 0)
         else f32_encode (f_mul (if neg then Ffin True 1 0 else f_nat 1)
                (f32r (f_scale (unpack_mantissa f32r VTM_MANTISSA_23 man) ex))))"

definition vtm_unpack_double :: "u64 \<Rightarrow> u64" where
  "vtm_unpack_double x =
     (let neg = bit x 63;
          ex = int (unat (x AND 0x7ff)) - VTM_DBL_EXP_OFFSET;
          man = unat (drop_bit 11 (x AND 0x7fffffffffffffff))
      in if man < 1 then (if neg then 0x8000000000000000 else 0)
         else f64_encode (f_mul (if neg then Ffin True 1 0 else f_nat 1)
                (f64r (f_scale (unpack_mantissa f64r VTM_MANTISSA_52 man) ex))))"

subsection \<open>Loss\<close>

lemmas pack_eval =
  vtm_pack_float_def vtm_unpack_float_def f32_decode_def f32_encode_def f32r_def f_frexp_def
  f_is_zero_def f_trunc_def pack_mantissa_def unpack_mantissa_def f_add_def f_mul_def f_abs_def
  f_nat_def f_half_def f_quot_def f_scale_def f_neg_def f_signed_def ieee_round_def round_shift_def
  VTM_MANTISSA_23_def VTM_FLT_EXP_OFFSET_def Let_def

text \<open>
  Packing loses information: \<open>1.0\<close> and the next larger \<open>float\<close> are packed to the same word, which
  is unpacked as \<open>1.0\<close>; the least positive \<open>float\<close>, whose exponent does not fit into the 8 bits
  kept of it, is unpacked as a number above \<open>10 ^ 32\<close>; and the sign of \<open>-0.0\<close> is dropped.
\<close>

theorem pack_float_lossy:
  "vtm_pack_float 0x3f800000 = Some (Inr 383)
   \<and> vtm_pack_float 0x3f800001 = Some (Inr 383)
   \<and> vtm_unpack_float 383 = 0x3f800000
   \<and> vtm_pack_float 1 = Some (Inr 490)
   \<and> vtm_unpack_float 490 = 0x75000000
   \<and> vtm_pack_float 0x80000000 = vtm_pack_float 0"
proof (intro conjI)
  show "vtm_pack_float 0x3f800000 = Some (Inr 383)" "vtm_pack_float 0x3f800001 = Some (Inr 383)"
    "vtm_pack_float 1 = Some (Inr 490)" "vtm_pack_float 0x80000000 = vtm_pack_float 0"
    by (simp_all add: pack_eval)
  have "unpack_mantissa f32r 8388606 1 = Ffin False 8388608 (- 24)"
    "f32r (f_scale (Ffin False 8388608 (- 24)) 1) = Ffin False 8388608 (- 23)"
    "f32r (f_scale (Ffin False 8388608 (- 24)) 108) = Ffin False 8388608 84"
    "f32_encode (f_mul (f_nat 1) (Ffin False 8388608 (- 23))) = 0x3f800000"
    "f32_encode (f_mul (f_nat 1) (Ffin False 8388608 84)) = 0x75000000"
    by (simp_all add: pack_eval)
  from this [unfolded One_nat_def]
  show "vtm_unpack_float 383 = 0x3f800000" "vtm_unpack_float 490 = 0x75000000"
    by (simp_all add: vtm_unpack_float_def VTM_MANTISSA_23_def VTM_FLT_EXP_OFFSET_def Let_def)
qed

end
