(* ===== verification/Nm.thy ===== *)
theory Nm
  imports Reader Dataset Serialization
begin

text \<open>
  The messages of \<open>net/nm\<close>: \<open>nm_protocol.c\<close> writes a dataset to a buffer, the state machine of
  \<open>nm_parser.c\<close> reads it back, possibly in several calls while the bytes arrive. \<open>host\<close> is the byte
  order of the machine the code runs on, \<open>ma\<close> its allocator.
\<close>

definition VTM_NM_PROTO_MAGIC :: byte where
  "VTM_NM_PROTO_MAGIC = byte_of CHR ''V''"

definition VTM_NM_PROTO_VER_1 :: byte where
  "VTM_NM_PROTO_VER_1 = 1"

fun vtm_nm_type_to_num :: "vtm_elem_type \<Rightarrow> vtm_rc + byte" where
  "vtm_nm_type_to_num VTM_ELEM_INT8 = Inr 1"
| "vtm_nm_type_to_num VTM_ELEM_UINT8 = Inr 2"
| "vtm_nm_type_to_num VTM_ELEM_INT16 = Inr 3"
| "vtm_nm_type_to_num VTM_ELEM_UINT16 = Inr 4"
| "vtm_nm_type_to_num VTM_ELEM_INT32 = Inr 5"
| "vtm_nm_type_to_num VTM_ELEM_UINT32 = Inr 6"
| "vtm_nm_type_to_num VTM_ELEM_INT64 = Inr 7"
| "vtm_nm_type_to_num VTM_ELEM_UINT64 = Inr 8"
| "vtm_nm_type_to_num VTM_ELEM_BOOL = Inr 9"
| "vtm_nm_type_to_num VTM_ELEM_CHAR = Inr 10"
| "vtm_nm_type_to_num VTM_ELEM_SCHAR = Inr 11"
| "vtm_nm_type_to_num VTM_ELEM_UCHAR = Inr 12"
| "vtm_nm_type_to_num VTM_ELEM_FLOAT = Inr 13"
| "vtm_nm_type_to_num VTM_ELEM_DOUBLE = Inr 14"
| "vtm_nm_type_to_num VTM_ELEM_STRING = Inr 15"
| "vtm_nm_type_to_num VTM_ELEM_BLOB = Inr 16"
| "vtm_nm_type_to_num _ = Inl VTM_E_NOT_SUPPORTED"

definition vtm_nm_type_from_num :: "byte \<Rightarrow> vtm_rc + vtm_elem_type" where
  "vtm_nm_type_from_num c =
     (if c = 1 then Inr VTM_ELEM_INT8 else if c = 2 then Inr VTM_ELEM_UINT8
      else if c = 3 then Inr VTM_ELEM_INT16 else if c = 4 then Inr VTM_ELEM_UINT16
      else if c = 5 then Inr VTM_ELEM_INT32 else if c = 6 then Inr VTM_ELEM_UINT32
      else if c = 7 then Inr VTM_ELEM_INT64 else if c = 8 then Inr VTM_ELEM_UINT64
      else if c = 9 then Inr VTM_ELEM_BOOL else if c = 10 then Inr VTM_ELEM_CHAR
      else if c = 11 then Inr VTM_ELEM_SCHAR else if c = 12 then Inr VTM_ELEM_UCHAR
      else if c = 13 then Inr VTM_ELEM_FLOAT else if c = 14 then Inr VTM_ELEM_DOUBLE
      else if c = 15 then Inr VTM_ELEM_STRING else if c = 16 then Inr VTM_ELEM_BLOB
      else Inl VTM_E_NOT_SUPPORTED)"

text \<open>
  The bytes at \<open>&var->data\<close> for a value of a fixed size, and the value found there after writing bytes
  to it. A \<open>bool\<close> is one byte; a byte other than 0 and 1, which is no value of the type, counts as
  true.
\<close>

fun elem_mem :: "vtm_byteorder \<Rightarrow> vtm_elem \<Rightarrow> byte list" where
  "elem_mem ord (Elem_int8 w) = mem_of ord w"
| "elem_mem ord (Elem_uint8 w) = mem_of ord w"
| "elem_mem ord (Elem_int16 w) = mem_of ord w"
| "elem_mem ord (Elem_uint16 w) = mem_of ord w"
| "elem_mem ord (Elem_int32 w) = mem_of ord w"
| "elem_mem ord (Elem_uint32 w) = mem_of ord w"
| "elem_mem ord (Elem_int64 w) = mem_of ord w"
| "elem_mem ord (Elem_uint64 w) = mem_of ord w"
| "elem_mem ord (Elem_bool b) = [if b then 1 else 0]"
| "elem_mem ord (Elem_char w) = mem_of ord w"
| "elem_mem ord (Elem_schar w) = mem_of ord w"
| "elem_mem ord (Elem_uchar w) = mem_of ord w"
| "elem_mem ord _ = []"

fun elem_read :: "vtm_byteorder \<Rightarrow> vtm_elem_type \<Rightarrow> byte list \<Rightarrow> vtm_elem" where
  "elem_read ord VTM_ELEM_INT8 bs = Elem_int8 (mem_read ord bs)"
| "elem_read ord VTM_ELEM_UINT8 bs = Elem_uint8 (mem_read ord bs)"
| "elem_read ord VTM_ELEM_INT16 bs = Elem_int16 (mem_read ord bs)"
| "elem_read ord VTM_ELEM_UINT16 bs = Elem_uint16 (mem_read ord bs)"
| "elem_read ord VTM_ELEM_INT32 bs = Elem_int32 (mem_read ord bs)"
| "elem_read ord VTM_ELEM_UINT32 bs = Elem_uint32 (mem_read ord bs)"
| "elem_read ord VTM_ELEM_INT64 bs = Elem_int64 (mem_read ord bs)"
| "elem_read ord VTM_ELEM_UINT64 bs = Elem_uint64 (mem_read ord bs)"
| "elem_read ord VTM_ELEM_BOOL bs = Elem_bool (bs \<noteq> [0])"
| "elem_read ord VTM_ELEM_CHAR bs = Elem_char (mem_read ord bs)"
| "elem_read ord VTM_ELEM_SCHAR bs = Elem_schar (mem_read ord bs)"
| "elem_read ord VTM_ELEM_UCHAR bs = Elem_uchar (mem_read ord bs)"
| "elem_read ord _ bs = Elem_null"

subsection \<open>Writing\<close>

text \<open>
  The content of a field: \<open>None\<close> when the code is undefined (a blob that is NULL, packing an
  infinity), \<open>Inl\<close> when it jumps to \<open>end\<close>. What the calls of \<open>vtm_buf_puto\<close> return is ignored; the
  buffer remembers its first error.
\<close>

definition nm_put_content ::
    "vtm_byteorder \<Rightarrow> allocator \<Rightarrow> vtm_variant \<Rightarrow> vtm_buf \<Rightarrow> (vtm_rc \<times> vtm_buf) option" where
  "nm_put_content sys_order ma var buf =
     (case var_type var of
        VTM_ELEM_FLOAT \<Rightarrow>
          (case vtm_pack_float (elem_float (var_data var)) of
             None \<Rightarrow> None
           | Some (Inl rc) \<Rightarrow> Some (rc, buf)
           | Some (Inr var32) \<Rightarrow> Some (VTM_OK, snd (vtm_buf_puto ma buf (mem_of sys_order var32) sys_order)))
      | VTM_ELEM_DOUBLE \<Rightarrow>
          (case vtm_pack_double (elem_double (var_data var)) of
             None \<Rightarrow> None
           | Some (Inl rc) \<Rightarrow> Some (rc, buf)
           | Some (Inr var64) \<Rightarrow> Some (VTM_OK, snd (vtm_buf_puto ma buf (mem_of sys_order var64) sys_order)))
      | VTM_ELEM_STRING \<Rightarrow>
          (let len = of_nat (length (elem_str (var_data var))) :: size_t
           in if len > UINT32_MAX then Some (VTM_E_NOT_SUPPORTED, buf)
              else
                let buf = snd (vtm_buf_puto ma buf (mem_of sys_order (ucast len :: u32)) sys_order)
                in Some (VTM_OK, snd (vtm_buf_putm ma buf (elem_str (var_data var)))))
      | VTM_ELEM_BLOB \<Rightarrow>
          (case elem_blob (var_data var) of
             None \<Rightarrow> None
           | Some blob \<Rightarrow>
               let len = vtm_blob_size blob
               in if len > UINT32_MAX then Some (VTM_E_NOT_SUPPORTED, buf)
                  else
                    let buf = snd (vtm_buf_puto ma buf (mem_of sys_order (ucast len :: u32)) sys_order)
                    in Some (VTM_OK, snd (vtm_buf_putm ma buf (blob_mem blob))))
      | type \<Rightarrow>
          Some (VTM_OK, snd (vtm_buf_puto ma buf
            (take (unat (vtm_elem_size type)) (elem_mem sys_order (var_data var))) sys_order)))"

definition nm_put_field ::
    "vtm_byteorder \<Rightarrow> allocator \<Rightarrow> cstr \<times> vtm_variant \<Rightarrow> vtm_buf \<Rightarrow> (vtm_rc \<times> vtm_buf) option" where
  "nm_put_field sys_order ma entry buf =
     (if length (fst entry) > 255 then Some (VTM_E_NOT_SUPPORTED, buf)
      else
        let buf = snd (vtm_buf_putc ma buf (of_nat (length (fst entry))));
            buf = snd (vtm_buf_puts ma buf (fst entry))
        in case vtm_nm_type_to_num (var_type (snd entry)) of
             Inl rc \<Rightarrow> Some (rc, buf)
           | Inr c \<Rightarrow> nm_put_content sys_order ma (snd entry) (snd (vtm_buf_putc ma buf c)))"

text \<open>
  The loop over the entries and the check of the buffer behind it. \<open>rc\<close> is \<open>None\<close> as long as the
  variable has no value.
\<close>

fun nm_put_fields ::
    "vtm_byteorder \<Rightarrow> allocator \<Rightarrow> vtm_rc option \<Rightarrow> (cstr \<times> vtm_variant) list \<Rightarrow> vtm_buf
     \<Rightarrow> (vtm_rc option \<times> vtm_buf) option" where
  "nm_put_fields sys_order ma rc [] buf =
     Some (if buf_err buf \<noteq> VTM_OK then Some (buf_err buf) else rc, buf)"
| "nm_put_fields sys_order ma rc (entry # entries) buf =
     (case nm_put_field sys_order ma entry buf of
        None \<Rightarrow> None
      | Some (rc, buf) \<Rightarrow>
          if rc \<noteq> VTM_OK then Some (Some rc, buf)
          else nm_put_fields sys_order ma (Some rc) entries buf)"

definition vtm_nm_msg_to_buf ::
    "vtm_byteorder \<Rightarrow> allocator \<Rightarrow> vtm_dataset option \<Rightarrow> vtm_buf \<Rightarrow> (vtm_rc option \<times> vtm_buf) option" where
  "vtm_nm_msg_to_buf host ma msg buf =
     (let sys_order = vtm_sys_get_byteorder host
      in case vtm_dataset_entryset msg of
           None \<Rightarrow> Some (Some VTM_ERROR, buf)
         | Some entries \<Rightarrow>
             let buf = snd (vtm_buf_putc ma buf VTM_NM_PROTO_MAGIC);
                 buf = snd (vtm_buf_putc ma buf VTM_NM_PROTO_VER_1)
             in if length entries > 65535 then Some (Some VTM_E_OVERFLOW, buf)
                else
                  let var16 = of_nat (length entries) :: u16;
                      buf = snd (vtm_buf_puto ma buf (mem_of sys_order var16) sys_order)
                  in nm_put_fields sys_order ma None entries buf)"

subsection \<open>Reading\<close>

datatype vtm_nm_parser_state =
    VTM_NM_PARSE_MSG_BEGIN | VTM_NM_PARSE_MAGIC | VTM_NM_PARSE_VERSION | VTM_NM_PARSE_FIELD_COUNT
  | VTM_NM_PARSE_FIELD_BEGIN | VTM_NM_PARSE_NAME_LEN | VTM_NM_PARSE_NAME | VTM_NM_PARSE_VALUE_TYPE
  | VTM_NM_PARSE_VALUE_LEN | VTM_NM_PARSE_VALUE | VTM_NM_PARSE_FIELD_COMPLETE
  | VTM_NM_PARSE_MSG_COMPLETE

record vtm_nm_parser =
  np_order :: vtm_byteorder
  np_state :: vtm_nm_parser_state
  np_msg :: "vtm_dataset option"
  np_field_count :: u16
  np_fields_parsed :: u16
  np_name_len :: byte
  np_name :: "byte list option"
  np_value_type :: vtm_elem_type
  np_value_len :: u32
  np_value :: vtm_elem

definition vtm_nm_parser_init :: "vtm_byteorder \<Rightarrow> vtm_nm_parser \<Rightarrow> vtm_nm_parser" where
  "vtm_nm_parser_init host par =
     par\<lparr>np_order := vtm_sys_get_byteorder host, np_state := VTM_NM_PARSE_MSG_BEGIN,
         np_msg := None, np_name := None\<rparr>"

text \<open>What is freed: the message and the name of the field being read.\<close>

definition vtm_nm_parser_release :: "vtm_nm_parser \<Rightarrow> ds_freed list \<times> byte list option" where
  "vtm_nm_parser_release par = (vtm_dataset_free (np_msg par), np_name par)"

definition vtm_nm_parser_reset ::
    "vtm_byteorder \<Rightarrow> vtm_nm_parser \<Rightarrow> vtm_nm_parser \<times> ds_freed list \<times> byte list option" where
  "vtm_nm_parser_reset host par = (vtm_nm_parser_init host par, vtm_nm_parser_release par)"

text \<open>A memory block holding a terminated string, as a string.\<close>

definition c_str :: "byte list \<Rightarrow> cstr" where
  "c_str bs = takeWhile (\<lambda>c. c \<noteq> 0) bs"

text \<open>
  The case \<open>VTM_NM_PARSE_VALUE\<close>, once the value has arrived. A string of \<open>UINT32_MAX\<close> bytes is written
  to a block of \<open>value_len + 1 = 0\<close> bytes.
\<close>

definition nm_parse_value ::
    "allocator \<Rightarrow> vtm_nm_parser \<Rightarrow> vtm_buf \<Rightarrow> (vtm_nm_parser, vtm_buf) pstep" where
  "nm_parse_value ma par =
     (let finish = (\<lambda>v. PNext (par\<lparr>np_value := v, np_state := VTM_NM_PARSE_FIELD_COMPLETE\<rparr>));
          len = ucast (np_value_len par) :: size_t
      in case np_value_type par of
           VTM_ELEM_FLOAT \<Rightarrow>
             fetch (\<lambda>b. vtm_buf_geto b 4 (np_order par))
               (\<lambda>bs. finish (Elem_float (vtm_unpack_float (mem_read (np_order par) bs))))
         | VTM_ELEM_DOUBLE \<Rightarrow>
             fetch (\<lambda>b. vtm_buf_geto b 8 (np_order par))
               (\<lambda>bs. finish (Elem_double (vtm_unpack_double (mem_read (np_order par) bs))))
         | VTM_ELEM_STRING \<Rightarrow>
             (if \<not> ma (ucast (np_value_len par + 1))
              then PStop VTM_NET_RECV_STAT_ERROR (par\<lparr>np_value := Elem_ptr 0\<rparr>)
              else if np_value_len par + 1 = 0 then (\<lambda>b. PFault)
              else fetch (\<lambda>b. vtm_buf_getm b len) (\<lambda>bs. finish (Elem_str (c_str bs))))
         | VTM_ELEM_BLOB \<Rightarrow>
             (case vtm_blob_new ma [] len of
                Inl rc \<Rightarrow> PStop VTM_NET_RECV_STAT_ERROR (par\<lparr>np_value := Elem_ptr 0\<rparr>)
              | Inr blob \<Rightarrow>
                  fetch (\<lambda>b. vtm_buf_getm b len) (\<lambda>bs. finish (Elem_blob (Some (blob\<lparr>blob_mem := bs\<rparr>)))))
         | type \<Rightarrow>
             fetch (\<lambda>b. vtm_buf_geto b len (np_order par))
               (\<lambda>bs. finish (elem_read (np_order par) type bs)))"

text \<open>
  One round of the loop of \<open>vtm_nm_parser_run\<close>. The name and the text of a value are freed once the
  dataset has copied them.
\<close>

definition nm_parser_step ::
    "allocator \<Rightarrow> vtm_nm_parser \<Rightarrow> vtm_buf \<Rightarrow> (vtm_nm_parser, vtm_buf) pstep" where
  "nm_parser_step ma par buf =
     (case np_state par of
        VTM_NM_PARSE_MSG_BEGIN \<Rightarrow> PNext (par\<lparr>np_state := VTM_NM_PARSE_MAGIC\<rparr>) buf
      | VTM_NM_PARSE_MAGIC \<Rightarrow>
          need 1 (PStop VTM_NET_RECV_STAT_AGAIN par buf)
            (fetch VTM_BUF_GETC (\<lambda>c.
               if c \<noteq> VTM_NM_PROTO_MAGIC then PStop VTM_NET_RECV_STAT_INVALID par
               else PNext (par\<lparr>np_state := VTM_NM_PARSE_VERSION\<rparr>))) buf
      | VTM_NM_PARSE_VERSION \<Rightarrow>
          need 1 (PStop VTM_NET_RECV_STAT_AGAIN par buf)
            (fetch VTM_BUF_GETC (\<lambda>c.
               if c \<noteq> VTM_NM_PROTO_VER_1 then PStop VTM_NET_RECV_STAT_INVALID par
               else PNext (par\<lparr>np_state := VTM_NM_PARSE_FIELD_COUNT\<rparr>))) buf
      | VTM_NM_PARSE_FIELD_COUNT \<Rightarrow>
          need 2 (PStop VTM_NET_RECV_STAT_AGAIN par buf)
            (fetch (\<lambda>b. vtm_buf_geto b 2 (np_order par)) (\<lambda>bs.
               PNext (par\<lparr>np_field_count := mem_read (np_order par) bs, np_fields_parsed := 0,
                          np_state := VTM_NM_PARSE_FIELD_BEGIN\<rparr>))) buf
      | VTM_NM_PARSE_FIELD_BEGIN \<Rightarrow>
          (if np_fields_parsed par = np_field_count par
           then PNext (par\<lparr>np_state := VTM_NM_PARSE_MSG_COMPLETE\<rparr>) buf
           else PNext (par\<lparr>np_state := VTM_NM_PARSE_NAME_LEN\<rparr>) buf)
      | VTM_NM_PARSE_NAME_LEN \<Rightarrow>
          need 1 (PStop VTM_NET_RECV_STAT_AGAIN par buf)
            (fetch (\<lambda>b. vtm_buf_geto b 1 (np_order par)) (\<lambda>bs.
               let par = par\<lparr>np_name_len := mem_read (np_order par) bs\<rparr>
               in if np_name_len par = 0 then PStop VTM_NET_RECV_STAT_INVALID par
                  else PNext (par\<lparr>np_state := VTM_NM_PARSE_NAME\<rparr>))) buf
      | VTM_NM_PARSE_NAME \<Rightarrow>
          need (ucast (np_name_len par)) (PStop VTM_NET_RECV_STAT_AGAIN par buf)
            (if \<not> ma (ucast (np_name_len par) + 1)
             then PStop VTM_NET_RECV_STAT_ERROR (par\<lparr>np_name := None\<rparr>)
             else fetch (\<lambda>b. vtm_buf_getm b (ucast (np_name_len par))) (\<lambda>bs.
                    PNext (par\<lparr>np_name := Some bs, np_state := VTM_NM_PARSE_VALUE_TYPE\<rparr>))) buf
      | VTM_NM_PARSE_VALUE_TYPE \<Rightarrow>
          need 1 (PStop VTM_NET_RECV_STAT_AGAIN par buf)
            (fetch VTM_BUF_GETC (\<lambda>c.
               case vtm_nm_type_from_num c of
                 Inl rc \<Rightarrow> PStop VTM_NET_RECV_STAT_INVALID par
               | Inr type \<Rightarrow>
                   if type = VTM_ELEM_STRING \<or> type = VTM_ELEM_BLOB
                   then PNext (par\<lparr>np_value_type := type, np_state := VTM_NM_PARSE_VALUE_LEN\<rparr>)
                   else PNext (par\<lparr>np_value_type := type, np_value_len := ucast (vtm_elem_size type),
                                  np_state := VTM_NM_PARSE_VALUE\<rparr>))) buf
      | VTM_NM_PARSE_VALUE_LEN \<Rightarrow>
          need 4 (PStop VTM_NET_RECV_STAT_AGAIN par buf)
            (fetch (\<lambda>b. vtm_buf_geto b 4 (np_order par)) (\<lambda>bs.
               PNext (par\<lparr>np_value_len := mem_read (np_order par) bs, np_state := VTM_NM_PARSE_VALUE\<rparr>))) buf
      | VTM_NM_PARSE_VALUE \<Rightarrow>
          need (ucast (np_value_len par)) (PStop VTM_NET_RECV_STAT_AGAIN par buf)
            (nm_parse_value ma par) buf
      | VTM_NM_PARSE_FIELD_COMPLETE \<Rightarrow>
          (let msg = (case np_msg par of None \<Rightarrow> vtm_dataset_new | Some msg \<Rightarrow> msg);
               var = \<lparr>var_data = np_value par, var_type = np_value_type par, var_str = None\<rparr>
           in case np_name par of
                None \<Rightarrow> PFault
              | Some name \<Rightarrow>
                  PNext (par\<lparr>np_msg := Some (fst (vtm_dataset_set_variant msg (c_str name) var)),
                             np_name := None, np_fields_parsed := np_fields_parsed par + 1,
                             np_state := VTM_NM_PARSE_FIELD_BEGIN\<rparr>) buf)
      | VTM_NM_PARSE_MSG_COMPLETE \<Rightarrow> PStop VTM_NET_RECV_STAT_COMPLETE par buf)"

partial_function (option) vtm_nm_parser_run ::
    "allocator \<Rightarrow> vtm_nm_parser \<Rightarrow> vtm_buf \<Rightarrow> (vtm_net_recv_stat \<times> vtm_nm_parser \<times> vtm_buf) option" where
  "vtm_nm_parser_run ma par buf =
     (case nm_parser_step ma par buf of
        PNext par' buf' \<Rightarrow> vtm_nm_parser_run ma par' buf'
      | PStop stat par' buf' \<Rightarrow> Some (stat, par', buf')
      | PFault \<Rightarrow> None)"

definition vtm_nm_parser_get_msg :: "vtm_nm_parser \<Rightarrow> (vtm_rc + vtm_dataset option) \<times> vtm_nm_parser" where
  "vtm_nm_parser_get_msg par =
     (if np_state par \<noteq> VTM_NM_PARSE_MSG_COMPLETE then (Inl VTM_E_INVALID_STATE, par)
      else (Inr (np_msg par), par\<lparr>np_msg := None, np_state := VTM_NM_PARSE_MSG_BEGIN\<rparr>))"

text \<open>\<open>par\<close> is the parser on the stack, whose members have no values yet.\<close>

definition vtm_nm_msg_from_buf ::
    "vtm_byteorder \<Rightarrow> allocator \<Rightarrow> vtm_nm_parser \<Rightarrow> vtm_dataset \<Rightarrow> vtm_buf
     \<Rightarrow> (vtm_rc \<times> vtm_dataset option \<times> vtm_buf) option" where
  "vtm_nm_msg_from_buf host ma par msg buf =
     map_option (\<lambda>(stat, par', buf').
         (if stat = VTM_NET_RECV_STAT_COMPLETE then VTM_OK else VTM_ERROR, np_msg par', buf'))
       (vtm_nm_parser_run ma ((vtm_nm_parser_init host par)\<lparr>np_msg := Some msg\<rparr>) buf)"

subsection \<open>The parser as a resumable state machine\<close>

lemma type_num: "vtm_nm_type_to_num t = Inr c \<Longrightarrow> vtm_nm_type_from_num c = Inr t"
  by (cases t) (auto simp: vtm_nm_type_from_num_def)

lemma type_from_num: "vtm_nm_type_from_num c = Inr t \<Longrightarrow> vtm_nm_type_to_num t = Inr c"
  by (auto simp: vtm_nm_type_from_num_def split: if_splits)

text \<open>
  The length of a value of fixed size is the one of its type, the field being read has a name, and
  less than \<open>UINT32_MAX\<close> bytes wait in the buffer.
\<close>

definition nm_inv :: "vtm_nm_parser \<Rightarrow> vtm_buf \<Rightarrow> bool" where
  "nm_inv par b \<longleftrightarrow>
     vtm_buf_inv b \<and> length (buf_unread b) < 4294967295
     \<and> (np_state par = VTM_NM_PARSE_VALUE \<longrightarrow>
          vtm_nm_type_to_num (np_value_type par) \<noteq> Inl VTM_E_NOT_SUPPORTED
          \<and> (np_value_type par \<noteq> VTM_ELEM_STRING \<and> np_value_type par \<noteq> VTM_ELEM_BLOB \<longrightarrow>
              np_value_len par = ucast (vtm_elem_size (np_value_type par))))
     \<and> (np_state par = VTM_NM_PARSE_VALUE_LEN \<longrightarrow>
          np_value_type par = VTM_ELEM_STRING \<or> np_value_type par = VTM_ELEM_BLOB)
     \<and> (np_state par \<in> {VTM_NM_PARSE_VALUE_TYPE, VTM_NM_PARSE_VALUE_LEN, VTM_NM_PARSE_VALUE,
                        VTM_NM_PARSE_FIELD_COMPLETE} \<longrightarrow> np_name par \<noteq> None)"

text \<open>Rounds that may read nothing lower the rank of the state.\<close>

fun nm_rank :: "vtm_nm_parser_state \<Rightarrow> nat" where
  "nm_rank VTM_NM_PARSE_NAME = 9"
| "nm_rank VTM_NM_PARSE_VALUE_TYPE = 8"
| "nm_rank VTM_NM_PARSE_VALUE = 7"
| "nm_rank VTM_NM_PARSE_FIELD_COMPLETE = 6"
| "nm_rank VTM_NM_PARSE_FIELD_BEGIN = 5"
| "nm_rank VTM_NM_PARSE_NAME_LEN = 4"
| "nm_rank VTM_NM_PARSE_MSG_BEGIN = 3"
| "nm_rank VTM_NM_PARSE_MAGIC = 2"
| "nm_rank VTM_NM_PARSE_MSG_COMPLETE = 0"
| "nm_rank _ = 1"

definition nm_msr :: "vtm_nm_parser \<Rightarrow> vtm_buf \<Rightarrow> nat" where
  "nm_msr par b = 16 * length (buf_unread b) + nm_rank (np_state par)"

lemma nm_inv_adv:
  assumes "vtm_buf_inv b" and "length (buf_unread b) < 4294967295" and "unat n \<le> length (buf_unread b)"
  shows "vtm_buf_inv (buf_adv n b) \<and> length (buf_unread (buf_adv n b)) < 4294967295
    \<and> length (buf_unread (buf_adv n b)) = length (buf_unread b) - unat n"
  using buf_adv_ok [OF assms(1, 3)] assms(2) by simp

text \<open>What a round does, in the states it can be in.\<close>

definition nm_round_ok :: "vtm_nm_parser \<Rightarrow> vtm_buf \<Rightarrow> (vtm_nm_parser, vtm_buf) pstep \<Rightarrow> bool" where
  "nm_round_ok par b r =
     (case r of
        PNext par' b' \<Rightarrow> nm_inv par' b' \<and> nm_msr par' b' < nm_msr par b
      | PStop stat par' b' \<Rightarrow> stat = VTM_NET_RECV_STAT_AGAIN \<longrightarrow> par' = par \<and> b' = b
      | PFault \<Rightarrow> False)"

definition nm_value_of :: "vtm_byteorder \<Rightarrow> vtm_elem_type \<Rightarrow> byte list \<Rightarrow> vtm_elem" where
  "nm_value_of ord t bs =
     (case t of
        VTM_ELEM_FLOAT \<Rightarrow> Elem_float (vtm_unpack_float (mem_read ord bs))
      | VTM_ELEM_DOUBLE \<Rightarrow> Elem_double (vtm_unpack_double (mem_read ord bs))
      | t \<Rightarrow> elem_read ord t bs)"

definition nm_fixed :: "vtm_elem_type \<Rightarrow> bool" where
  "nm_fixed t \<longleftrightarrow> vtm_nm_type_to_num t \<noteq> Inl VTM_E_NOT_SUPPORTED \<and> t \<noteq> VTM_ELEM_STRING \<and> t \<noteq> VTM_ELEM_BLOB"

lemma nm_parse_value_fixed:
  fixes par
  defines "n \<equiv> ucast (np_value_len par) :: size_t"
  assumes "vtm_buf_inv b" and "unat n \<le> length (buf_unread b)"
    and "nm_fixed (np_value_type par)" and "np_value_len par = ucast (vtm_elem_size (np_value_type par))"
  shows "nm_parse_value ma par b =
    PNext (par\<lparr>np_value := nm_value_of (np_order par) (np_value_type par) (buf_front (np_order par) n b),
               np_state := VTM_NM_PARSE_FIELD_COMPLETE\<rparr>) (buf_adv n b)"
proof -
  have n: "n = vtm_elem_size (np_value_type par)"
    unfolding n_def assms(5) by (cases "np_value_type par") simp_all
  note fe = fetch_eq(1) [OF assms(2, 3), of "np_order par"]
  show ?thesis using assms(4) fe n
    by (cases "np_value_type par")
      (simp_all only: nm_parse_value_def Let_def n_def [symmetric] nm_value_of_def vtm_elem_type.case
        nm_fixed_def vtm_elem_size.simps vtm_nm_type_to_num.simps simp_thms)
qed

lemma nm_parse_value_ok:
  assumes "nm_inv par b" and "np_state par = VTM_NM_PARSE_VALUE"
    and "unat (np_value_len par) \<le> length (buf_unread b)"
  shows "nm_round_ok par b (nm_parse_value ma par b)"
proof -
  have inv: "vtm_buf_inv b" and len: "length (buf_unread b) < 4294967295" and name: "np_name par \<noteq> None"
    using assms(1, 2) by (auto simp: nm_inv_def)
  let ?n = "ucast (np_value_len par) :: size_t"
  have u: "unat ?n = unat (np_value_len par)" by (simp add: unat_ucast_up)
  have no_wrap: "np_value_len par + 1 \<noteq> 0"
  proof
    assume "np_value_len par + 1 = 0"
    then have "np_value_len par = - 1" by (simp add: add_eq_0_iff2)
    then have "unat (np_value_len par) = 4294967295"
      by (simp add: unsigned_minus_1_eq_mask mask_eq_exp_minus_1)
    then show False using assms(3) len by simp
  qed
  have n: "unat ?n \<le> length (buf_unread b)" using assms(3) u by simp
  note adv = nm_inv_adv [OF inv len n]
  consider (str) "np_value_type par = VTM_ELEM_STRING" | (blob) "np_value_type par = VTM_ELEM_BLOB"
    | (fixed) "np_value_len par = ucast (vtm_elem_size (np_value_type par))"
      "vtm_nm_type_to_num (np_value_type par) \<noteq> Inl VTM_E_NOT_SUPPORTED"
      "np_value_type par \<noteq> VTM_ELEM_STRING" "np_value_type par \<noteq> VTM_ELEM_BLOB"
    using assms(1, 2) by (auto simp: nm_inv_def)
  then show ?thesis
  proof cases
    case str
    then show ?thesis using adv name no_wrap assms(2)
      by (auto simp: nm_parse_value_def nm_round_ok_def nm_inv_def nm_msr_def fetch_eq(2) [OF inv n] u Let_def)
  next
    case blob
    then show ?thesis using adv name assms(2)
      by (auto simp: nm_parse_value_def nm_round_ok_def nm_inv_def nm_msr_def fetch_eq(2) [OF inv n] u
          Let_def split: sum.split)
  next
    case fixed
    have "nm_fixed (np_value_type par)" using fixed by (simp add: nm_fixed_def)
    from nm_parse_value_fixed [OF inv n this fixed(1)]
    show ?thesis using adv name assms(2)
      by (auto simp: nm_round_ok_def nm_inv_def nm_msr_def u)
  qed
qed

lemma nm_step_ok:
  assumes "nm_inv par b"
  shows "nm_round_ok par b (nm_parser_step ma par b)"
proof -
  have inv: "vtm_buf_inv b" and len: "length (buf_unread b) < 4294967295"
    using assms by (auto simp: nm_inv_def)
  note rd = need_fetch_eq [OF inv] nm_inv_adv [OF inv len]
  have name: "unat (ucast (np_name_len par) :: size_t) = unat (np_name_len par)"
    and vlen: "unat (ucast (np_value_len par) :: size_t) = unat (np_value_len par)"
    by (simp_all add: unat_ucast_up)
  note defs = nm_parser_step_def nm_round_ok_def nm_inv_def nm_msr_def
  show ?thesis
  proof (cases "np_state par")
    case VTM_NM_PARSE_MAGIC
    then show ?thesis using len rd(4) [of 1] by (auto simp: defs rd(3))
  next
    case VTM_NM_PARSE_VERSION
    then show ?thesis using len rd(4) [of 1] by (auto simp: defs rd(3))
  next
    case VTM_NM_PARSE_FIELD_COUNT
    then show ?thesis using len rd(4) [of 2] by (auto simp: defs rd(1))
  next
    case VTM_NM_PARSE_NAME_LEN
    then show ?thesis using len rd(4) [of 1] by (auto simp: defs rd(1) Let_def)
  next
    case VTM_NM_PARSE_NAME
    then show ?thesis using rd(4) [of "ucast (np_name_len par)"] len
      by (auto simp: defs need_eq [OF inv] fetch_eq(2) [OF inv] name)
  next
    case VTM_NM_PARSE_VALUE_TYPE
    then show ?thesis using rd(4) [of 1] assms type_from_num len
      by (auto simp: defs rd(3) split: sum.split)
  next
    case VTM_NM_PARSE_VALUE_LEN
    then show ?thesis using len rd(4) [of 4] assms by (auto simp: defs rd(1))
  next
    case VTM_NM_PARSE_VALUE
    then show ?thesis using nm_parse_value_ok [OF assms, of ma]
      by (simp add: nm_parser_step_def need_eq [OF inv] vlen) (simp add: nm_round_ok_def)
  next
    case VTM_NM_PARSE_FIELD_COMPLETE
    then show ?thesis using assms by (auto simp: defs Let_def split: option.split)
  qed (use inv len in \<open>simp_all add: defs\<close>)
qed

lemma nm_value_mono: "step_mono (nm_parse_value ma par)"
proof -
  have "step_mono (case r of Inl e \<Rightarrow> PStop st s | Inr x \<Rightarrow> fetch (\<lambda>b. vtm_buf_getm b n) (\<lambda>bs. PNext (f x bs)))"
    for r :: "vtm_rc + vtm_blob" and st s n and f :: "vtm_blob \<Rightarrow> byte list \<Rightarrow> vtm_nm_parser"
    by (cases r) (auto intro!: mono_intros)
  then show ?thesis
    by (cases "np_value_type par") (auto simp: nm_parse_value_def Let_def intro!: mono_intros)
qed

lemma nm_step_ext:
  assumes "nm_inv par b" and ext: "buf_ext b d c" and "nm_parser_step ma par b = PNext par' b'"
  shows "\<exists>c'. buf_ext b' d c' \<and> nm_parser_step ma par c = PNext par' c'"
proof -
  have inv: "vtm_buf_inv b" using assms(1) by (simp add: nm_inv_def)
  have type: "step_mono (case r of Inl e \<Rightarrow> PStop st s | Inr t \<Rightarrow> if Q t then PNext (f t) else PNext (g t))"
    for r :: "vtm_rc + vtm_elem_type" and st Q and s :: vtm_nm_parser and f g
    by (cases r) (auto intro!: mono_intros)
  have go: ?thesis if "nm_parser_step ma par b = need n (PStop VTM_NET_RECV_STAT_AGAIN par b) k b"
    "nm_parser_step ma par c = need n (PStop VTM_NET_RECV_STAT_AGAIN par c) k c" "step_mono k" for n k
    using need_ext [OF inv ext that(3)] assms(3) that(1, 2) by metis
  note step = nm_parser_step_def Let_def
  show ?thesis
  proof (cases "np_state par")
    case VTM_NM_PARSE_MAGIC
    show ?thesis by (rule go, simp add: step VTM_NM_PARSE_MAGIC, simp add: step VTM_NM_PARSE_MAGIC) (intro mono_intros)
  next
    case VTM_NM_PARSE_VERSION
    show ?thesis by (rule go, simp add: step VTM_NM_PARSE_VERSION, simp add: step VTM_NM_PARSE_VERSION) (intro mono_intros)
  next
    case VTM_NM_PARSE_FIELD_COUNT
    show ?thesis by (rule go, simp add: step VTM_NM_PARSE_FIELD_COUNT, simp add: step VTM_NM_PARSE_FIELD_COUNT) (intro mono_intros)
  next
    case VTM_NM_PARSE_NAME_LEN
    show ?thesis by (rule go, simp add: step VTM_NM_PARSE_NAME_LEN, simp add: step VTM_NM_PARSE_NAME_LEN) (intro mono_intros)
  next
    case VTM_NM_PARSE_NAME
    show ?thesis by (rule go, simp add: step VTM_NM_PARSE_NAME, simp add: step VTM_NM_PARSE_NAME) (intro mono_intros)
  next
    case VTM_NM_PARSE_VALUE_TYPE
    show ?thesis by (rule go, simp add: step VTM_NM_PARSE_VALUE_TYPE, simp add: step VTM_NM_PARSE_VALUE_TYPE) (intro mono_intros type)
  next
    case VTM_NM_PARSE_VALUE_LEN
    show ?thesis by (rule go, simp add: step VTM_NM_PARSE_VALUE_LEN, simp add: step VTM_NM_PARSE_VALUE_LEN) (intro mono_intros)
  next
    case VTM_NM_PARSE_VALUE
    show ?thesis by (rule go, simp add: step VTM_NM_PARSE_VALUE, simp add: step VTM_NM_PARSE_VALUE) (rule nm_value_mono)
  qed (use assms(3) ext in \<open>auto simp: step split: if_splits option.splits\<close>)
qed

interpretation nmp: safe_parser "nm_parser_step ma" "vtm_nm_parser_run ma" nm_inv nm_msr buf_ext
  for ma
proof unfold_locales
  fix s b d c s' b'
  show "vtm_nm_parser_run ma s b =
      (case nm_parser_step ma s b of PNext s' b' \<Rightarrow> vtm_nm_parser_run ma s' b'
       | PStop st s' b' \<Rightarrow> Some (st, s', b') | PFault \<Rightarrow> None)"
    by (rule vtm_nm_parser_run.simps)
  assume inv: "nm_inv s b"
  note ok = nm_step_ok [OF inv, of ma]
  show "nm_parser_step ma s b = PNext s' b' \<Longrightarrow> nm_inv s' b' \<and> nm_msr s' b' < nm_msr s b"
    using ok by (simp add: nm_round_ok_def)
  show "nm_parser_step ma s b = PStop VTM_NET_RECV_STAT_AGAIN s' b' \<Longrightarrow> s' = s \<and> b' = b"
    using ok by (simp add: nm_round_ok_def)
  show "buf_ext b d c \<Longrightarrow> nm_parser_step ma s b = PNext s' b' \<Longrightarrow>
      \<exists>c'. buf_ext b' d c' \<and> nm_parser_step ma s c = PNext s' c'"
    by (rule nm_step_ext [OF inv])
  show "nm_parser_step ma s b \<noteq> PFault" using ok by (auto simp: nm_round_ok_def)
qed

end
