(* ===== verification/NmRoundtrip.thy ===== *)
theory NmRoundtrip
  imports Nm
begin

text \<open>
  What is written for a message, byte by byte, and that the parser of any host reads it back.
\<close>

subsection \<open>The bytes of a message\<close>

text \<open>
  Values that can be sent: a value of one of the supported types, a string without NUL shorter than
  \<open>UINT32_MAX\<close>, a blob, a number that can be packed; and what arrives, after packing and unpacking.
\<close>

fun nm_elem_ok :: "vtm_elem \<Rightarrow> bool" where
  "nm_elem_ok (Elem_float x) = (\<exists>w. vtm_pack_float x = Some (Inr w))"
| "nm_elem_ok (Elem_double x) = (\<exists>w. vtm_pack_double x = Some (Inr w))"
| "nm_elem_ok (Elem_str s) = (no_nul s \<and> length s < 4294967295)"
| "nm_elem_ok (Elem_blob b) = (\<exists>blob. b = Some blob \<and> vtm_blob_inv blob)"
| "nm_elem_ok e = nm_fixed (elem_type e)"

fun nm_received_elem :: "vtm_elem \<Rightarrow> vtm_elem" where
  "nm_received_elem (Elem_float x) =
     (case vtm_pack_float x of Some (Inr w) \<Rightarrow> Elem_float (vtm_unpack_float w) | _ \<Rightarrow> Elem_float x)"
| "nm_received_elem (Elem_double x) =
     (case vtm_pack_double x of Some (Inr w) \<Rightarrow> Elem_double (vtm_unpack_double w) | _ \<Rightarrow> Elem_double x)"
| "nm_received_elem e = e"

definition nm_received :: "vtm_variant \<Rightarrow> vtm_variant" where
  "nm_received var = \<lparr>var_data = nm_received_elem (var_data var), var_type = var_type var, var_str = None\<rparr>"

fun nm_value_bytes :: "vtm_byteorder \<Rightarrow> vtm_elem \<Rightarrow> byte list" where
  "nm_value_bytes ord (Elem_float x) = (case vtm_pack_float x of Some (Inr w) \<Rightarrow> mem_of ord w | _ \<Rightarrow> [])"
| "nm_value_bytes ord (Elem_double x) = (case vtm_pack_double x of Some (Inr w) \<Rightarrow> mem_of ord w | _ \<Rightarrow> [])"
| "nm_value_bytes ord (Elem_str s) = mem_of ord (of_nat (length s) :: u32) @ s"
| "nm_value_bytes ord (Elem_blob b) = mem_of ord (blob_len (the b)) @ blob_mem (the b)"
| "nm_value_bytes ord e = elem_mem ord e"

definition nm_entry_ok :: "cstr \<times> vtm_variant \<Rightarrow> bool" where
  "nm_entry_ok e \<longleftrightarrow>
     fst e \<noteq> [] \<and> length (fst e) \<le> 255 \<and> no_nul (fst e)
     \<and> elem_type (var_data (snd e)) = var_type (snd e) \<and> nm_elem_ok (var_data (snd e))"

definition nm_tnum :: "vtm_elem_type \<Rightarrow> byte" where
  "nm_tnum t = (case vtm_nm_type_to_num t of Inr c \<Rightarrow> c | Inl _ \<Rightarrow> 0)"

definition nm_field_bytes :: "vtm_byteorder \<Rightarrow> cstr \<times> vtm_variant \<Rightarrow> byte list" where
  "nm_field_bytes ord e =
     of_nat (length (fst e)) # fst e @ nm_tnum (var_type (snd e)) # nm_value_bytes ord (var_data (snd e))"

definition nm_msg_bytes :: "vtm_byteorder \<Rightarrow> (cstr \<times> vtm_variant) list \<Rightarrow> byte list" where
  "nm_msg_bytes ord es =
     VTM_NM_PROTO_MAGIC # VTM_NM_PROTO_VER_1 # mem_of ord (of_nat (length es) :: u16)
     @ concat (map (nm_field_bytes ord) es)"

lemma nm_elem_ok_num:
  assumes "nm_elem_ok e"
  shows "vtm_nm_type_to_num (elem_type e) = Inr (nm_tnum (elem_type e))"
  using assms by (cases e) (simp_all add: nm_tnum_def nm_fixed_def)

lemma mem_of_byte [simp]: "mem_of ord (w :: byte) = [w]"
  by (cases ord) (simp_all add: mem_of_def)

lemma mem_read_byte [simp]: "mem_read ord [w] = (w :: byte)"
  using mem_read_mem_of [of ord w] by simp

lemma elem_mem_wire:
  assumes "nm_fixed (elem_type e)" and "elem_type e \<noteq> VTM_ELEM_FLOAT" and "elem_type e \<noteq> VTM_ELEM_DOUBLE"
  shows "(if bord = host then elem_mem host e else rev (elem_mem host e)) = elem_mem bord e"
    and "length (elem_mem host e) = unat (vtm_elem_size (elem_type e))"
    and "elem_read host (elem_type e) (elem_mem host e) = e"
proof -
  show "(if bord = host then elem_mem host e else rev (elem_mem host e)) = elem_mem bord e"
    using assms by (cases e) (auto simp: nm_fixed_def mem_of_other_order [of bord host])
  show "length (elem_mem host e) = unat (vtm_elem_size (elem_type e))"
    using assms by (cases e) (simp_all add: nm_fixed_def)
  show "elem_read host (elem_type e) (elem_mem host e) = e"
    using assms by (cases e) (simp_all add: nm_fixed_def mem_read_mem_of)
qed

subsection \<open>Writing\<close>

lemma room_put:
  assumes "buf_room b (length src + n)" and "\<forall>m. ma m"
  shows "buf_ext b (if buf_order b = ord then src else rev src) (snd (vtm_buf_puto ma b src ord))"
    and "buf_room (snd (vtm_buf_puto ma b src ord)) n"
  by (rule buf_room_puto [OF assms, of ord], simp)+

lemma room_put_word:
  fixes w :: "'a::len word"
  assumes "buf_room b (LENGTH('a) div 8 + n)" and "\<forall>m. ma m"
  shows "buf_ext b (mem_of (buf_order b) w) (snd (vtm_buf_puto ma b (mem_of host w) host))"
    and "buf_room (snd (vtm_buf_puto ma b (mem_of host w) host)) n"
  using room_put [of b "mem_of host w" n ma host] assms by (simp_all add: wire_order)

lemma room_puts:
  assumes "buf_room b (length src + n)" and "\<forall>m. ma m"
  shows "buf_ext b src (snd (vtm_buf_putm ma b src))" and "buf_room (snd (vtm_buf_putm ma b src)) n"
  using room_put [OF assms, of "buf_order b"] by (simp_all add: vtm_buf_putm_def)

lemma room_putc:
  assumes "buf_room b (Suc n)" and "\<forall>m. ma m"
  shows "buf_ext b [c] (snd (vtm_buf_putc ma b c))" and "buf_room (snd (vtm_buf_putc ma b c)) n"
  using room_put [of b "[c]" n ma "buf_order b"] assms
  by (simp_all add: vtm_buf_putc_puto [of ma b c "buf_order b"])

text \<open>A length and the bytes it counts.\<close>

lemma room_put_sized:
  fixes w :: u32 and host :: vtm_byteorder
  assumes "buf_room b (4 + length s + n)" and ma: "\<forall>m. ma m"
  defines "b1 \<equiv> snd (vtm_buf_puto ma b (mem_of host w) host)"
  shows "buf_ext b (mem_of (buf_order b) w @ s) (snd (vtm_buf_putm ma b1 s))"
    and "buf_room (snd (vtm_buf_putm ma b1 s)) n"
proof -
  have "buf_room b (LENGTH(32) div 8 + (length s + n))" using assms(1) by (simp add: add.assoc)
  note w = room_put_word [OF this ma, where w = w and host = host, folded b1_def]
  show "buf_ext b (mem_of (buf_order b) w @ s) (snd (vtm_buf_putm ma b1 s))"
    by (rule buf_ext_trans [OF w(1) room_puts(1) [OF w(2) ma]])
  show "buf_room (snd (vtm_buf_putm ma b1 s)) n" by (rule room_puts(2) [OF w(2) ma])
qed

lemma ext_order: "buf_ext b xs b' \<Longrightarrow> buf_order b' = buf_order b"
  by (simp add: buf_ext_def)

lemma put_fixed_ok:
  assumes "nm_fixed (var_type var)" and "elem_type (var_data var) = var_type var"
    and "var_type var \<noteq> VTM_ELEM_FLOAT" and "var_type var \<noteq> VTM_ELEM_DOUBLE"
    and "buf_room b (length (elem_mem (buf_order b) (var_data var)) + n)" and ma: "\<forall>m. ma m"
  shows "\<exists>b'. nm_put_content host ma var b = Some (VTM_OK, b')
    \<and> buf_ext b (elem_mem (buf_order b) (var_data var)) b' \<and> buf_room b' n"
proof -
  note em = elem_mem_wire [of "var_data var", unfolded assms(2), OF assms(1, 3, 4)]
  have "nm_put_content host ma var b =
      Some (VTM_OK, snd (vtm_buf_puto ma b (elem_mem host (var_data var)) host))"
    using assms(1, 3, 4) em(2) [of host]
    by (cases "var_type var") (simp_all add: nm_put_content_def nm_fixed_def)
  moreover have "buf_room b (length (elem_mem host (var_data var)) + n)"
    using assms(5) em(2) by simp
  ultimately show ?thesis using room_put [OF _ ma, of b "elem_mem host (var_data var)" n host] em(1) by simp
qed

lemma put_content_ok:
  assumes "nm_elem_ok (var_data var)" and "elem_type (var_data var) = var_type var"
    and "buf_room b (length (nm_value_bytes (buf_order b) (var_data var)) + n)" and ma: "\<forall>m. ma m"
  shows "\<exists>b'. nm_put_content host ma var b = Some (VTM_OK, b')
    \<and> buf_ext b (nm_value_bytes (buf_order b) (var_data var)) b' \<and> buf_room b' n"
proof (cases "var_data var")
  case (Elem_float x)
  then obtain w where w: "vtm_pack_float x = Some (Inr w)" using assms(1) by auto
  then show ?thesis using assms(2, 3) Elem_float room_put_word [where b = b and n = n and ma = ma and w = w and host = host] ma
    by (simp add: nm_put_content_def)
next
  case (Elem_double x)
  then obtain w where w: "vtm_pack_double x = Some (Inr w)" using assms(1) by auto
  then show ?thesis using assms(2, 3) Elem_double room_put_word [where b = b and n = n and ma = ma and w = w and host = host] ma
    by (simp add: nm_put_content_def)
next
  case (Elem_str s)
  let ?w = "of_nat (length s) :: u32"
  have len: "length s < 4294967295" using assms(1) Elem_str by simp
  then have "\<not> of_nat (length s) > UINT32_MAX" by (simp add: UINT32_MAX_def word_less_nat_alt)
  moreover have "ucast (of_nat (length s) :: size_t) = ?w"
    using len by (intro word_unat_eq_iff [THEN iffD2]) (simp add: unsigned_ucast_eq take_bit_nat_eq_self)
  moreover have "buf_room b (4 + length s + n)" using assms(3) Elem_str by (simp add: add.assoc)
  note put = room_put_sized [OF this ma, where w = ?w and host = host]
  ultimately have "nm_put_content host ma var b =
      Some (VTM_OK, snd (vtm_buf_putm ma (snd (vtm_buf_puto ma b (mem_of host ?w) host)) s))"
    using Elem_str assms(2) by (simp add: nm_put_content_def Let_def)
  then show ?thesis using put Elem_str by simp
next
  case (Elem_blob bo)
  then obtain blob where blob: "bo = Some blob" "vtm_blob_inv blob" using assms(1) by auto
  let ?w = "blob_len blob"
  have "\<not> vtm_blob_size blob > UINT32_MAX"
    using unat_less_2p [of ?w] by (simp add: UINT32_MAX_def word_less_nat_alt vtm_blob_size_def unat_ucast_up)
  moreover have "ucast (vtm_blob_size blob) = ?w"
    using unat_less_2p [of ?w] by (intro word_unat_eq_iff [THEN iffD2])
      (simp add: vtm_blob_size_def unsigned_ucast_eq take_bit_nat_eq_self take_bit_word_beyond_length_eq)
  moreover have "buf_room b (4 + length (blob_mem blob) + n)"
    using assms(3) Elem_blob blob by (simp add: add.assoc)
  note put = room_put_sized [OF this ma, where w = ?w and host = host]
  ultimately have "nm_put_content host ma var b = Some (VTM_OK,
      snd (vtm_buf_putm ma (snd (vtm_buf_puto ma b (mem_of host ?w) host)) (blob_mem blob)))"
    using Elem_blob blob assms(2) by (simp add: nm_put_content_def Let_def)
  then show ?thesis using put Elem_blob blob by simp
qed (use assms(1-3) put_fixed_ok [OF _ assms(2) _ _ _ ma, of b n host] in \<open>auto simp: nm_fixed_def\<close>)

lemma put_field_ok:
  assumes "nm_entry_ok e" and "buf_room b (length (nm_field_bytes (buf_order b) e) + n)" and ma: "\<forall>m. ma m"
  shows "\<exists>b'. nm_put_field host ma e b = Some (VTM_OK, b')
    \<and> buf_ext b (nm_field_bytes (buf_order b) e) b' \<and> buf_room b' n"
proof -
  obtain name var where e: "e = (name, var)" by fastforce
  let ?v = "nm_value_bytes (buf_order b) (var_data var)"
  have ok: "length name \<le> 255" "elem_type (var_data var) = var_type var" "nm_elem_ok (var_data var)"
    using assms(1) e by (auto simp: nm_entry_ok_def)
  have "buf_room b (Suc (length name + Suc (length ?v + n)))"
    using assms(2) by (simp add: e nm_field_bytes_def add.assoc)
  note r1 = room_putc [OF this ma, where c = "of_nat (length name)"]
  note r2 = room_puts [OF r1(2) ma]
  note r3 = room_putc [OF r2(2) ma, where c = "nm_tnum (var_type var)"]
  let ?b1 = "snd (vtm_buf_putc ma b (of_nat (length name)))"
  let ?b3 = "snd (vtm_buf_putc ma (snd (vtm_buf_putm ma ?b1 name)) (nm_tnum (var_type var)))"
  have ord: "buf_order ?b3 = buf_order b"
    using ext_order [OF r1(1)] ext_order [OF r2(1)] ext_order [OF r3(1)] by simp
  obtain b' where b': "nm_put_content host ma var ?b3 = Some (VTM_OK, b')" "buf_ext ?b3 ?v b'" "buf_room b' n"
    using put_content_ok [OF ok(3, 2) _ ma, where b = ?b3 and n = n and host = host] r3(2) ord by auto
  have "buf_ext b ((([of_nat (length name)] @ name) @ [nm_tnum (var_type var)]) @ ?v) b'"
    by (rule buf_ext_trans [OF buf_ext_trans [OF buf_ext_trans [OF r1(1) r2(1)] r3(1)] b'(2)])
  moreover have "nm_put_field host ma e b = Some (VTM_OK, b')"
    using ok nm_elem_ok_num [OF ok(3)] b'(1) by (simp add: nm_put_field_def e vtm_buf_puts_def Let_def)
  ultimately show ?thesis using b'(3) by (simp add: nm_field_bytes_def e)
qed

lemma put_fields_ok:
  assumes "list_all nm_entry_ok es" and "buf_room b (length (concat (map (nm_field_bytes (buf_order b)) es)) + n)"
    and ma: "\<forall>m. ma m" and "rc = Some VTM_OK \<or> es \<noteq> []"
  shows "\<exists>b'. nm_put_fields host ma rc es b = Some (Some VTM_OK, b')
    \<and> buf_ext b (concat (map (nm_field_bytes (buf_order b)) es)) b' \<and> buf_room b' n"
  using assms
proof (induction es arbitrary: b rc)
  case Nil
  then show ?case by (auto simp: buf_room_def buf_ext_def)
next
  case (Cons e es)
  let ?f = "nm_field_bytes (buf_order b)"
  have "buf_room b (length (?f e) + (length (concat (map ?f es)) + n))" using Cons.prems(2) by (simp add: add.assoc)
  then obtain b1 where b1: "nm_put_field host ma e b = Some (VTM_OK, b1)" "buf_ext b (?f e) b1"
    "buf_room b1 (length (concat (map ?f es)) + n)"
    using put_field_ok [OF _ _ ma, of e b "length (concat (map ?f es)) + n" host] Cons.prems(1) by auto
  moreover have "buf_order b1 = buf_order b" using ext_order [OF b1(2)] .
  ultimately obtain b' where b': "nm_put_fields host ma (Some VTM_OK) es b1 = Some (Some VTM_OK, b')"
    "buf_ext b1 (concat (map ?f es)) b'" "buf_room b' n"
    using Cons.IH [OF _ _ ma, of b1 "Some VTM_OK"] Cons.prems(1) by auto
  then show ?case using b1 buf_ext_trans [OF b1(2) b'(2)] by simp
qed

lemma msg_to_buf_room:
  assumes "vtm_dataset_entryset (Some ds) = Some es" and "list_all nm_entry_ok es" and "es \<noteq> []"
    and "length es \<le> 65535" and "buf_room b0 (length (nm_msg_bytes ord es) + n)" and ma: "\<forall>m. ma m" and o: "buf_order b0 = ord"
  shows "\<exists>b. vtm_nm_msg_to_buf host ma (Some ds) b0 = Some (Some VTM_OK, b)
    \<and> buf_ext b0 (nm_msg_bytes ord es) b \<and> buf_room b n"
proof -
  let ?c = "concat (map (nm_field_bytes ord) es)" and ?w = "of_nat (length es) :: u16"
  have "length (nm_msg_bytes ord es) + n = Suc (Suc (LENGTH(16) div 8 + (length ?c + n)))"
    by (simp add: nm_msg_bytes_def)
  then have "buf_room b0 (Suc (Suc (LENGTH(16) div 8 + (length ?c + n))))"
    using assms(5) by metis
  note r1 = room_putc [OF this ma, where c = VTM_NM_PROTO_MAGIC]
  note r2 = room_putc [OF r1(2) ma, where c = VTM_NM_PROTO_VER_1]
  note r3 = room_put_word [OF r2(2) ma, where w = ?w and host = host]
  let ?b2 = "snd (vtm_buf_putc ma (snd (vtm_buf_putc ma b0 VTM_NM_PROTO_MAGIC)) VTM_NM_PROTO_VER_1)"
  let ?b3 = "snd (vtm_buf_puto ma ?b2 (mem_of host ?w) host)"
  have ord: "buf_order ?b2 = ord" "buf_order ?b3 = ord"
    using ext_order [OF r1(1)] ext_order [OF r2(1)] ext_order [OF r3(1)] o by simp_all
  obtain b where b: "nm_put_fields host ma None es ?b3 = Some (Some VTM_OK, b)" "buf_ext ?b3 ?c b" "buf_room b n"
    using put_fields_ok [OF assms(2) _ ma, of ?b3 n None host] r3(2) assms(3) ord by auto
  have "buf_ext b0 ((([VTM_NM_PROTO_MAGIC] @ [VTM_NM_PROTO_VER_1]) @ mem_of (buf_order ?b2) ?w) @ ?c) b"
    by (rule buf_ext_trans [OF buf_ext_trans [OF buf_ext_trans [OF r1(1) r2(1)] r3(1)] b(2)])
  then have "buf_ext b0 (nm_msg_bytes ord es) b" by (simp add: nm_msg_bytes_def ord)
  moreover have "vtm_nm_msg_to_buf host ma (Some ds) b0 = Some (Some VTM_OK, b)"
    using assms(1, 4) b(1) by (simp add: vtm_nm_msg_to_buf_def Let_def)
  ultimately show ?thesis using b(3) by blast
qed

subsection \<open>Reading\<close>

text \<open>The parser has read \<open>xs\<close> and \<open>ys\<close> is left.\<close>

definition nm_input :: "vtm_buf \<Rightarrow> vtm_byteorder \<Rightarrow> byte list \<Rightarrow> bool" where
  "nm_input b ord ys \<longleftrightarrow> vtm_buf_inv b \<and> buf_order b = ord \<and> buf_unread b = ys"

lemma nm_input_adv:
  assumes "nm_input b ord (xs @ ys)" and "unat n = length xs"
  shows "nm_input (buf_adv n b) ord ys"
  using assms buf_adv_ok [of b n] by (simp add: nm_input_def)

lemma nm_input_front:
  fixes w :: "'a::len word"
  assumes "nm_input b ord (mem_of ord w @ ys)" and "unat n = LENGTH('a) div 8" and "8 dvd LENGTH('a)"
  shows "mem_read host (buf_front host n b) = w"
  using assms buf_front_mem [of b w ys n host] by (simp add: nm_input_def)

lemma read_name:
  assumes "nm_input b ord (of_nat (length name) # name @ ys)" and "name \<noteq> []" and "length name \<le> 255"
    and "np_state par = VTM_NM_PARSE_FIELD_BEGIN" and "np_fields_parsed par \<noteq> np_field_count par"
    and ma: "\<forall>m. ma m"
  shows "\<exists>b'. vtm_nm_parser_run ma par b = vtm_nm_parser_run ma
      (par\<lparr>np_name_len := of_nat (length name), np_name := Some name, np_state := VTM_NM_PARSE_VALUE_TYPE\<rparr>) b'
    \<and> nm_input b' ord ys"
proof -
  let ?n = "of_nat (length name) :: byte" and ?b1 = "buf_adv 1 b"
  let ?p1 = "par\<lparr>np_state := VTM_NM_PARSE_NAME_LEN\<rparr>"
  let ?p2 = "par\<lparr>np_name_len := ?n, np_state := VTM_NM_PARSE_NAME\<rparr>"
  have u: "unat ?n = length name" "unat (ucast ?n :: size_t) = length name" using assms(3)
    by (simp_all add: unat_ucast_up)
  have "?n \<noteq> 0" using u(1) assms(2) by (metis length_0_conv unat_0)
  have inv: "vtm_buf_inv b" and un: "buf_unread b = ?n # name @ ys" using assms(1) by (simp_all add: nm_input_def)
  have i1: "nm_input ?b1 ord (name @ ys)" using nm_input_adv [of b ord "[?n]" "name @ ys" 1] assms(1) by simp
  then have inv1: "vtm_buf_inv ?b1" and un1: "buf_unread ?b1 = name @ ys" by (simp_all add: nm_input_def)
  have front: "mem_read (np_order par) (buf_front (np_order par) 1 b) = ?n"
    using nm_input_front [of b ord ?n "name @ ys" 1] assms(1) by simp
  have "nm_parser_step ma par b = PNext ?p1 b" using assms(4, 5) by (simp add: nm_parser_step_def)
  moreover have "nm_parser_step ma ?p1 b = PNext ?p2 ?b1"
    using \<open>?n \<noteq> 0\<close> un front by (simp add: nm_parser_step_def need_fetch_eq(1) [OF inv] Let_def)
  moreover have "nm_parser_step ma ?p2 ?b1 =
      PNext (?p2\<lparr>np_name := Some name, np_state := VTM_NM_PARSE_VALUE_TYPE\<rparr>) (buf_adv (ucast ?n) ?b1)"
    using ma un1 u by (simp add: nm_parser_step_def need_eq [OF inv1] fetch_eq(2) [OF inv1])
  moreover have "nm_input (buf_adv (ucast ?n) ?b1) ord ys" by (rule nm_input_adv [OF i1 u(2)])
  ultimately show ?thesis
    using nmp.run_next [of ma par b] nmp.run_next [of ma ?p1 b] nmp.run_next [of ma ?p2 ?b1] by auto
qed

lemma read_fixed:
  assumes "nm_input b ord (nm_tnum t # bs @ ys)" and "nm_fixed t" and "length bs = unat (vtm_elem_size t)"
    and "np_state par = VTM_NM_PARSE_VALUE_TYPE"
  shows "\<exists>b'. vtm_nm_parser_run ma par b = vtm_nm_parser_run ma
      (par\<lparr>np_value_type := t, np_value_len := ucast (vtm_elem_size t),
           np_value := nm_value_of (np_order par) t (if ord = np_order par then bs else rev bs),
           np_state := VTM_NM_PARSE_FIELD_COMPLETE\<rparr>) b'
    \<and> nm_input b' ord ys"
proof -
  let ?b1 = "buf_adv 1 b" and ?n = "vtm_elem_size t"
  let ?p1 = "par\<lparr>np_value_type := t, np_value_len := ucast ?n, np_state := VTM_NM_PARSE_VALUE\<rparr>"
  have n: "ucast (ucast ?n :: u32) = ?n" by (cases t) simp_all
  have num: "vtm_nm_type_from_num (nm_tnum t) = Inr t" and t: "t \<noteq> VTM_ELEM_STRING" "t \<noteq> VTM_ELEM_BLOB"
    using assms(2) by (cases t; simp add: nm_fixed_def nm_tnum_def vtm_nm_type_from_num_def)+
  have inv: "vtm_buf_inv b" and un: "buf_unread b = nm_tnum t # bs @ ys" using assms(1) by (simp_all add: nm_input_def)
  have i1: "nm_input ?b1 ord (bs @ ys)" using nm_input_adv [of b ord "[nm_tnum t]" "bs @ ys" 1] assms(1) by simp
  then have inv1: "vtm_buf_inv ?b1" and un1: "buf_unread ?b1 = bs @ ys" and o1: "buf_order ?b1 = ord"
    by (simp_all add: nm_input_def)
  have "nm_parser_step ma par b = PNext ?p1 ?b1"
    using assms(4) un num t by (simp add: nm_parser_step_def need_fetch_eq(3) [OF inv])
  moreover have "nm_parser_step ma ?p1 ?b1 = nm_parse_value ma ?p1 ?b1"
    using un1 assms(3) by (simp add: nm_parser_step_def need_eq [OF inv1] n)
  moreover note nm_parse_value_fixed [OF inv1, of ?p1 ma]
  moreover have "nm_input (buf_adv ?n ?b1) ord ys" by (rule nm_input_adv [OF i1 assms(3) [symmetric]])
  moreover have "buf_front (np_order par) ?n ?b1 = (if ord = np_order par then bs else rev bs)"
    using un1 o1 assms(3) by (simp add: buf_front_def)
  ultimately show ?thesis
    using nmp.run_next [of ma par b] nmp.run_next [of ma ?p1 ?b1] assms(2, 3) un1 n by auto
qed

lemma read_sized:
  fixes w :: u32
  assumes "nm_input b ord (nm_tnum t # mem_of ord w @ bs @ ys)" and "t = VTM_ELEM_STRING \<or> t = VTM_ELEM_BLOB"
    and "length bs = unat w" and "np_state par = VTM_NM_PARSE_VALUE_TYPE" and ma: "\<forall>m. ma m"
    and "t = VTM_ELEM_STRING \<Longrightarrow> w + 1 \<noteq> 0"
  shows "\<exists>b'. vtm_nm_parser_run ma par b = vtm_nm_parser_run ma
      (par\<lparr>np_value_type := t, np_value_len := w,
           np_value := (if t = VTM_ELEM_STRING then Elem_str (c_str bs)
                        else Elem_blob (Some \<lparr>blob_len = w, blob_mem = bs\<rparr>)),
           np_state := VTM_NM_PARSE_FIELD_COMPLETE\<rparr>) b'
    \<and> nm_input b' ord ys"
proof -
  let ?b1 = "buf_adv 1 b" and ?b2 = "buf_adv 4 (buf_adv 1 b)"
  let ?p1 = "par\<lparr>np_value_type := t, np_state := VTM_NM_PARSE_VALUE_LEN\<rparr>"
  let ?p2 = "par\<lparr>np_value_type := t, np_value_len := w, np_state := VTM_NM_PARSE_VALUE\<rparr>"
  have num: "vtm_nm_type_from_num (nm_tnum t) = Inr t"
    using assms(2) by (auto simp: nm_tnum_def vtm_nm_type_from_num_def)
  have u: "unat (ucast w :: size_t) = unat w" by (simp add: unat_ucast_up)
  have i0: "nm_input b ord ([nm_tnum t] @ mem_of ord w @ bs @ ys)" using assms(1) by simp
  have i1: "nm_input ?b1 ord (mem_of ord w @ bs @ ys)" by (rule nm_input_adv [OF i0]) simp
  have i2: "nm_input ?b2 ord (bs @ ys)" by (rule nm_input_adv [OF i1]) simp
  have inv: "vtm_buf_inv b" "vtm_buf_inv ?b1" "vtm_buf_inv ?b2"
    and un: "buf_unread b = nm_tnum t # mem_of ord w @ bs @ ys" "buf_unread ?b1 = mem_of ord w @ bs @ ys"
      "buf_unread ?b2 = bs @ ys"
    using i0 i1 i2 by (simp_all add: nm_input_def)
  have front: "mem_read (np_order par) (buf_front (np_order par) 4 ?b1) = w"
    using nm_input_front [OF i1] by simp
  have s1: "nm_parser_step ma par b = PNext ?p1 ?b1"
    using assms(2, 4) un(1) num by (auto simp: nm_parser_step_def need_fetch_eq(3) [OF inv(1)])
  have s2: "nm_parser_step ma ?p1 ?b1 = PNext ?p2 ?b2"
    using un(2) front by (simp add: nm_parser_step_def need_fetch_eq(1) [OF inv(2)])
  have le: "unat (ucast w :: size_t) \<le> length (buf_unread ?b2)" using un(3) assms(3) u by simp
  have new: "vtm_blob_new ma [] (ucast w) = Inr \<lparr>blob_len = w, blob_mem = []\<rparr>"
    using ma unat_less_2p [of w] by (auto simp: vtm_blob_new_def UINT32_MAX_def word_less_nat_alt u unat_word_ariths
        intro!: word_unat_eq_iff [THEN iffD2] simp: unsigned_ucast_eq take_bit_nat_eq_self
          take_bit_word_beyond_length_eq)
  have "nm_parse_value ma ?p2 ?b2 = PNext (?p2\<lparr>np_value := (if t = VTM_ELEM_STRING then Elem_str (c_str bs)
      else Elem_blob (Some \<lparr>blob_len = w, blob_mem = bs\<rparr>)), np_state := VTM_NM_PARSE_FIELD_COMPLETE\<rparr>)
      (buf_adv (ucast w) ?b2)"
    using assms(2, 3, 6) ma un(3) u new by (auto simp: nm_parse_value_def fetch_eq(2) [OF inv(3) le] Let_def)
  then have s3: "nm_parser_step ma ?p2 ?b2 = PNext (?p2\<lparr>np_value := (if t = VTM_ELEM_STRING then Elem_str (c_str bs)
      else Elem_blob (Some \<lparr>blob_len = w, blob_mem = bs\<rparr>)), np_state := VTM_NM_PARSE_FIELD_COMPLETE\<rparr>)
      (buf_adv (ucast w) ?b2)"
    using le by (simp add: nm_parser_step_def need_eq [OF inv(3)])
  have "nm_input (buf_adv (ucast w) ?b2) ord ys" by (rule nm_input_adv [OF i2]) (simp add: assms(3) u)
  then show ?thesis using nmp.run_next [OF s1] nmp.run_next [OF s2] nmp.run_next [OF s3] by auto
qed

lemma c_str_no_nul: "no_nul s \<Longrightarrow> c_str s = s"
  by (simp add: c_str_def no_nul_def takeWhile_eq_all_conv) metis

lemma nm_fixed_value:
  fixes ord :: vtm_byteorder
  assumes "nm_elem_ok e" and "elem_type e \<noteq> VTM_ELEM_STRING" and "elem_type e \<noteq> VTM_ELEM_BLOB"
  defines "bs \<equiv> nm_value_bytes ord e"
  shows "nm_fixed (elem_type e)" and "length bs = unat (vtm_elem_size (elem_type e))"
    and "nm_value_of host (elem_type e) (if ord = host then bs else rev bs) = nm_received_elem e"
proof -
  have rd: "mem_read host (mem_of host w) = w" for w :: u32 by (simp add: mem_read_mem_of)
  have rd': "mem_read host (mem_of host w) = w" for w :: u64 by (simp add: mem_read_mem_of)
  show fixed: "nm_fixed (elem_type e)" using assms(1-3) by (cases e) (simp_all add: nm_fixed_def)
  consider (float) x w where "e = Elem_float x" "vtm_pack_float x = Some (Inr w)"
    | (double) x w where "e = Elem_double x" "vtm_pack_double x = Some (Inr w)"
    | (other) "elem_type e \<noteq> VTM_ELEM_FLOAT" "elem_type e \<noteq> VTM_ELEM_DOUBLE"
    using assms(1) by (cases e) auto
  then have "length bs = unat (vtm_elem_size (elem_type e))
      \<and> nm_value_of host (elem_type e) (if ord = host then bs else rev bs) = nm_received_elem e"
  proof cases
    case float
    then show ?thesis using rd [of w] mem_of_other_order [of host ord w]
      by (cases "ord = host") (auto simp: bs_def nm_value_of_def)
  next
    case double
    then show ?thesis using rd' [of w] mem_of_other_order [of host ord w]
      by (cases "ord = host") (auto simp: bs_def nm_value_of_def)
  next
    case other
    note em = elem_mem_wire [OF fixed other]
    have eqs: "bs = elem_mem ord e" "nm_received_elem e = e"
      "nm_value_of host (elem_type e) = elem_read host (elem_type e)"
      using other assms(2, 3) by (cases e; simp add: bs_def nm_value_of_def fun_eq_iff)+
    have swap: "(if ord = host then elem_mem ord e else rev (elem_mem ord e)) = elem_mem host e"
      using em(1) [of host ord] by (auto split: if_splits)
    show ?thesis unfolding eqs swap using em(2, 3) by simp
  qed
  then show "length bs = unat (vtm_elem_size (elem_type e))"
    "nm_value_of host (elem_type e) (if ord = host then bs else rev bs) = nm_received_elem e" by auto
qed

lemma read_value:
  assumes "nm_input b ord (nm_tnum (elem_type e) # nm_value_bytes ord e @ ys)" and "nm_elem_ok e"
    and "np_state par = VTM_NM_PARSE_VALUE_TYPE" and ma: "\<forall>m. ma m"
  shows "\<exists>b' len. vtm_nm_parser_run ma par b = vtm_nm_parser_run ma
      (par\<lparr>np_value_type := elem_type e, np_value_len := len, np_value := nm_received_elem e,
           np_state := VTM_NM_PARSE_FIELD_COMPLETE\<rparr>) b'
    \<and> nm_input b' ord ys"
proof -
  consider (str) s where "e = Elem_str s" | (blob) blob where "e = Elem_blob (Some blob)"
    | (fixed) "elem_type e \<noteq> VTM_ELEM_STRING" "elem_type e \<noteq> VTM_ELEM_BLOB"
    using assms(2) by (cases e) auto
  then show ?thesis
  proof cases
    case str
    have len: "length s < 4294967295" and s: "c_str s = s" using assms(2) str by (simp_all add: c_str_no_nul)
    have u: "unat (of_nat (length s) :: u32) = length s" using len by simp
    have "unat ((of_nat (length s) :: u32) + 1) = length s + 1" using len u by (simp add: unat_word_ariths)
    then have "(of_nat (length s) :: u32) + 1 \<noteq> 0" by auto
    then show ?thesis
      using read_sized [OF _ _ _ assms(3) ma, of b ord VTM_ELEM_STRING "of_nat (length s)" s ys] assms(1) str u s
      by auto
  next
    case blob
    obtain l m where lm: "blob = \<lparr>blob_len = l, blob_mem = m\<rparr>" by (cases blob) auto
    then have "length m = unat l" using assms(2) blob by (simp add: vtm_blob_inv_def)
    then show ?thesis
      using read_sized [OF _ _ _ assms(3) ma, of b ord VTM_ELEM_BLOB l m ys] assms(1) blob lm by auto
  next
    case fixed
    note fv = nm_fixed_value [OF assms(2) fixed]
    show ?thesis
      using read_fixed [OF assms(1) fv(1, 2) assms(3), of ma, unfolded fv(3)] by blast
  qed
qed

definition nm_store :: "vtm_dataset option \<Rightarrow> cstr \<times> vtm_variant \<Rightarrow> vtm_dataset" where
  "nm_store msg e =
     fst (vtm_dataset_set_variant (case msg of None \<Rightarrow> vtm_dataset_new | Some m \<Rightarrow> m) (fst e)
       (nm_received (snd e)))"

lemma read_field:
  assumes "nm_input b ord (nm_field_bytes ord e @ ys)" and ok: "nm_entry_ok e" and ma: "\<forall>m. ma m"
    and "np_state par = VTM_NM_PARSE_FIELD_BEGIN" and "np_fields_parsed par \<noteq> np_field_count par"
  shows "\<exists>par' b'. vtm_nm_parser_run ma par b = vtm_nm_parser_run ma par' b' \<and> nm_input b' ord ys
    \<and> np_state par' = VTM_NM_PARSE_FIELD_BEGIN \<and> np_field_count par' = np_field_count par
    \<and> np_fields_parsed par' = np_fields_parsed par + 1 \<and> np_msg par' = Some (nm_store (np_msg par) e)"
proof -
  obtain name var where e: "e = (name, var)" by fastforce
  have n: "name \<noteq> []" "length name \<le> 255" "no_nul name" and v: "elem_type (var_data var) = var_type var"
    "nm_elem_ok (var_data var)" using ok by (auto simp: e nm_entry_ok_def)
  let ?rest = "nm_tnum (var_type var) # nm_value_bytes ord (var_data var) @ ys"
  let ?p1 = "par\<lparr>np_name_len := of_nat (length name), np_name := Some name, np_state := VTM_NM_PARSE_VALUE_TYPE\<rparr>"
  obtain b1 where b1: "vtm_nm_parser_run ma par b = vtm_nm_parser_run ma ?p1 b1" "nm_input b1 ord ?rest"
    using read_name [OF _ n(1, 2) assms(4, 5) ma, of b ord ?rest] assms(1) by (auto simp: e nm_field_bytes_def)
  obtain b2 len where b2: "vtm_nm_parser_run ma ?p1 b1 = vtm_nm_parser_run ma
      (?p1\<lparr>np_value_type := var_type var, np_value_len := len, np_value := nm_received_elem (var_data var),
           np_state := VTM_NM_PARSE_FIELD_COMPLETE\<rparr>) b2" "nm_input b2 ord ys"
    using read_value [OF b1(2) [folded v(1)] v(2) _ ma, of ?p1] v(1) by auto
  let ?p2 = "?p1\<lparr>np_value_type := var_type var, np_value_len := len, np_value := nm_received_elem (var_data var),
      np_state := VTM_NM_PARSE_FIELD_COMPLETE\<rparr>"
  let ?p3 = "?p2\<lparr>np_msg := Some (nm_store (np_msg par) e), np_name := None,
      np_fields_parsed := np_fields_parsed par + 1, np_state := VTM_NM_PARSE_FIELD_BEGIN\<rparr>"
  have "nm_parser_step ma ?p2 b2 = PNext ?p3 b2"
    by (simp add: nm_parser_step_def nm_store_def e nm_received_def c_str_no_nul [OF n(3)] Let_def)
  from nmp.run_next [OF this] b1(1) b2 show ?thesis
    by (intro exI [of _ ?p3] exI [of _ b2]) simp
qed

lemma read_fields:
  assumes "nm_input b ord (concat (map (nm_field_bytes ord) es) @ ys)" and "list_all nm_entry_ok es"
    and ma: "\<forall>m. ma m" and "np_state par = VTM_NM_PARSE_FIELD_BEGIN" and "length es \<le> 65535"
    and "np_field_count par = np_fields_parsed par + of_nat (length es)"
  shows "\<exists>par' b'. vtm_nm_parser_run ma par b = Some (VTM_NET_RECV_STAT_COMPLETE, par', b')
    \<and> nm_input b' ord ys \<and> np_state par' = VTM_NM_PARSE_MSG_COMPLETE
    \<and> np_msg par' = foldl (\<lambda>m e. Some (nm_store m e)) (np_msg par) es"
  using assms
proof (induction es arbitrary: par b)
  case Nil
  let ?p = "par\<lparr>np_state := VTM_NM_PARSE_MSG_COMPLETE\<rparr>"
  have "nm_parser_step ma par b = PNext ?p b" "nm_parser_step ma ?p b = PStop VTM_NET_RECV_STAT_COMPLETE ?p b"
    using Nil.prems by (simp_all add: nm_parser_step_def)
  then have "vtm_nm_parser_run ma par b = Some (VTM_NET_RECV_STAT_COMPLETE, ?p, b)"
    using nmp.run_step [of ma par b] nmp.run_step [of ma ?p b] by simp
  then show ?case using Nil.prems(1) by (intro exI [of _ ?p] exI [of _ b]) simp
next
  case (Cons e es)
  have "(of_nat (length (e # es)) :: u16) \<noteq> 0"
  proof -
    have "unat (of_nat (length (e # es)) :: u16) = length (e # es)"
      using Cons.prems(5) by (intro unat_of_nat_small) simp
    then show ?thesis by (metis list.distinct(1) length_0_conv unat_0)
  qed
  then have "np_fields_parsed par \<noteq> np_field_count par" using Cons.prems(6) by auto
  from read_field [OF _ _ ma Cons.prems(4) this, of b ord e "concat (map (nm_field_bytes ord) es) @ ys"] Cons.prems(1, 2)
  obtain par1 b1 where p1: "vtm_nm_parser_run ma par b = vtm_nm_parser_run ma par1 b1"
    "nm_input b1 ord (concat (map (nm_field_bytes ord) es) @ ys)" "np_state par1 = VTM_NM_PARSE_FIELD_BEGIN"
    "np_field_count par1 = np_field_count par" "np_fields_parsed par1 = np_fields_parsed par + 1"
    "np_msg par1 = Some (nm_store (np_msg par) e)" by auto
  have "np_field_count par1 = np_fields_parsed par1 + of_nat (length es)" using p1(4, 5) Cons.prems(6) by simp
  then show ?case using Cons.IH [OF p1(2) _ ma p1(3)] Cons.prems(2, 5) p1(1, 6) by simp
qed

lemma read_msg:
  assumes "nm_input b ord (nm_msg_bytes ord es @ ys)" and "list_all nm_entry_ok es" and ma: "\<forall>m. ma m"
    and "length es \<le> 65535" and "np_state par = VTM_NM_PARSE_MSG_BEGIN"
  shows "\<exists>par' b'. vtm_nm_parser_run ma par b = Some (VTM_NET_RECV_STAT_COMPLETE, par', b')
    \<and> nm_input b' ord ys \<and> np_state par' = VTM_NM_PARSE_MSG_COMPLETE
    \<and> np_msg par' = foldl (\<lambda>m e. Some (nm_store m e)) (np_msg par) es"
proof -
  let ?w = "of_nat (length es) :: u16" and ?c = "concat (map (nm_field_bytes ord) es) @ ys"
  let ?b1 = "buf_adv 1 b" and ?b2 = "buf_adv 1 (buf_adv 1 b)" and ?b3 = "buf_adv 2 (buf_adv 1 (buf_adv 1 b))"
  have i0: "nm_input b ord ([VTM_NM_PROTO_MAGIC] @ VTM_NM_PROTO_VER_1 # mem_of ord ?w @ ?c)"
    using assms(1) by (simp add: nm_msg_bytes_def)
  have "nm_input ?b1 ord (VTM_NM_PROTO_VER_1 # mem_of ord ?w @ ?c)" by (rule nm_input_adv [OF i0]) simp
  then have i1: "nm_input ?b1 ord ([VTM_NM_PROTO_VER_1] @ mem_of ord ?w @ ?c)" by simp
  have i2: "nm_input ?b2 ord (mem_of ord ?w @ ?c)" by (rule nm_input_adv [OF i1]) simp
  have i3: "nm_input ?b3 ord ?c" by (rule nm_input_adv [OF i2]) simp
  have inv: "vtm_buf_inv b" "vtm_buf_inv ?b1" "vtm_buf_inv ?b2"
    and un: "buf_unread b = VTM_NM_PROTO_MAGIC # VTM_NM_PROTO_VER_1 # mem_of ord ?w @ ?c"
      "buf_unread ?b1 = VTM_NM_PROTO_VER_1 # mem_of ord ?w @ ?c" "buf_unread ?b2 = mem_of ord ?w @ ?c"
    using i0 i1 i2 by (simp_all add: nm_input_def)
  have front: "mem_read (np_order par) (buf_front (np_order par) 2 ?b2) = ?w"
    using nm_input_front [OF i2] by simp
  let ?p = "\<lambda>st. par\<lparr>np_state := st\<rparr>"
  let ?p3 = "par\<lparr>np_field_count := ?w, np_fields_parsed := 0, np_state := VTM_NM_PARSE_FIELD_BEGIN\<rparr>"
  have s: "nm_parser_step ma par b = PNext (?p VTM_NM_PARSE_MAGIC) b"
    "nm_parser_step ma (?p VTM_NM_PARSE_MAGIC) b = PNext (?p VTM_NM_PARSE_VERSION) ?b1"
    "nm_parser_step ma (?p VTM_NM_PARSE_VERSION) ?b1 = PNext (?p VTM_NM_PARSE_FIELD_COUNT) ?b2"
    "nm_parser_step ma (?p VTM_NM_PARSE_FIELD_COUNT) ?b2 = PNext ?p3 ?b3"
    using assms(5) un front by (simp_all add: nm_parser_step_def need_fetch_eq(3) [OF inv(1)]
        need_fetch_eq(3) [OF inv(2)] need_fetch_eq(1) [OF inv(3)])
  have "vtm_nm_parser_run ma par b = vtm_nm_parser_run ma ?p3 ?b3"
    using s [THEN nmp.run_next] by (simp only:)
  then show ?thesis using read_fields [OF _ assms(2) ma _ assms(4), of ?b3 ord ys ?p3] i3 by simp
qed

subsection \<open>The dataset that arrives\<close>

lemma set_variant_store:
  assumes "nm_elem_ok (var_data v)" and "elem_type (var_data v) = var_type v"
  shows "\<exists>own. ds_store_put name (nm_received v, own) ds =
    Some (fst (vtm_dataset_set_variant ds name (nm_received v)))"
proof (intro exI [of _ "var_type v \<in> {VTM_ELEM_STRING, VTM_ELEM_BLOB}"])
  have "Elem_str (vtm_str_copy (elem_str (var_data (nm_received v)))) = var_data (nm_received v)"
    if "var_type v = VTM_ELEM_STRING"
    using that assms by (cases "var_data v") (simp_all add: nm_received_def vtm_str_copy_def)
  then show "ds_store_put name (nm_received v, var_type v \<in> {VTM_ELEM_STRING, VTM_ELEM_BLOB}) ds =
      Some (fst (vtm_dataset_set_variant ds name (nm_received v)))"
    by (simp add: ds_store_put_def VTM_DATASET_SETX_def vtm_dataset_set_variant_def nm_received_def Let_def)
qed

lemma nm_store_get:
  assumes "vtm_dataset_inv False ds" and "nm_entry_ok e"
  defines "ds' \<equiv> nm_store (Some ds) e"
  shows "vtm_dataset_inv False ds'"
    and "no_nul n \<Longrightarrow> vtm_dataset_get_variant ds' n =
      (if n = fst e then Some (nm_received (snd e)) else vtm_dataset_get_variant ds n)"
proof -
  have gv: "vtm_dataset_get_variant d x = map_option fst (ds_store_get d x)" for d x
    by (simp add: vtm_dataset_get_variant_def ds_store_get_def option.map_comp o_def Let_def)
  obtain own where "ds_store_put (fst e) (nm_received (snd e), own) ds = Some ds'"
    using set_variant_store assms(2) unfolding ds'_def nm_store_def nm_entry_ok_def by fastforce
  from ds_put_law [OF assms(1) _ this] assms(2)
  show "vtm_dataset_inv False ds'" "no_nul n \<Longrightarrow> vtm_dataset_get_variant ds' n =
      (if n = fst e then Some (nm_received (snd e)) else vtm_dataset_get_variant ds n)"
    by (simp_all add: gv nm_entry_ok_def ds_norm_def)
qed

lemma nm_store_all:
  assumes "vtm_dataset_inv False ds" and "list_all nm_entry_ok es" and "no_nul n"
    and "\<And>v v'. (n, v) \<in> set es \<Longrightarrow> (n, v') \<in> set es \<Longrightarrow> v = v'"
  shows "\<exists>ds'. foldl (\<lambda>m e. Some (nm_store m e)) (Some ds) es = Some ds'
    \<and> (if n \<in> fst ` set es then \<exists>v. (n, v) \<in> set es \<and> vtm_dataset_get_variant ds' n = Some (nm_received v)
       else vtm_dataset_get_variant ds' n = vtm_dataset_get_variant ds n)"
  using assms
proof (induction es arbitrary: ds)
  case Nil
  then show ?case by simp
next
  case (Cons e es)
  obtain name v where e: "e = (name, v)" by fastforce
  note st = nm_store_get [OF Cons.prems(1), of e]
  obtain ds' where ds': "foldl (\<lambda>m e. Some (nm_store m e)) (Some (nm_store (Some ds) e)) es = Some ds'"
    "if n \<in> fst ` set es then \<exists>v. (n, v) \<in> set es \<and> vtm_dataset_get_variant ds' n = Some (nm_received v)
     else vtm_dataset_get_variant ds' n = vtm_dataset_get_variant (nm_store (Some ds) e) n"
    using Cons.IH [OF st(1)] Cons.prems(2-4) by auto
  then show ?case using st(2) [of n] Cons.prems(2, 3) by (auto simp: e split: if_splits)
qed

text \<open>The entries of a dataset are its fields.\<close>

lemma entryset_get:
  assumes "vtm_dataset_inv False ds" and "vtm_dataset_entryset (Some ds) = Some es" and "no_nul n"
  shows "vtm_dataset_get_variant ds n = Some v \<longleftrightarrow> (n, v) \<in> set es"
proof -
  let ?bs = "sm_buckets (ds_vars ds)"
  note inv = assms(1) [unfolded vtm_dataset_inv_def]
  have tinv: "table_inv str_key_ok (ds_hash False) (\<lambda>e. ds_norm False (elem_str e)) (var_data \<circ> dn_key) ?bs"
    using inv by (simp add: smap_inv_def)
  let ?get = "table_get (ds_cmp False) (ds_hash False) (var_data \<circ> dn_key) ?bs (Elem_str n)"
  have k: "str_key_ok (Elem_str n)" using assms(3) by (simp add: str_key_ok_def)
  have "vtm_dataset_get_variant ds n = map_option dn_value
      (map_option (smap_node (ds_vars ds)) (VTM_SMAP_GET dn_key (ds_vars ds) (vtm_variant_from_str n)))"
    by (simp add: vtm_dataset_get_variant_def vtm_dataset_get_node_def option.map_comp o_def)
  then have "vtm_dataset_get_variant ds n = map_option dn_value ?get"
    using dk.get_table [OF inv, of "vtm_variant_from_str n"] by (simp add: vtm_variant_from_str_def)
  then have "vtm_dataset_get_variant ds n = Some v \<longleftrightarrow> (\<exists>x. ?get = Some x \<and> dn_value x = v)"
    by (auto simp: map_option_eq_Some)
  also have "\<dots> \<longleftrightarrow> (\<exists>x \<in> set (concat ?bs). elem_str (var_data (dn_key x)) = n \<and> dn_value x = v)"
    using dk.tab.table_get_iff [OF tinv k] by (auto simp: ds_norm_def)
  also have "\<dots> \<longleftrightarrow> (n, v) \<in> set es"
    using assms(2) by (fastforce simp: vtm_dataset_entryset_def VTM_SMAP_FOR_EACH_def image_iff)
  finally show ?thesis .
qed

text \<open>What the fields of a dataset make of an empty message.\<close>

lemma nm_received_dataset:
  assumes "vtm_dataset_inv False ds" and "vtm_dataset_entryset (Some ds) = Some es" and "list_all nm_entry_ok es" and "es \<noteq> []"
  obtains ds' where "foldl (\<lambda>m e. Some (nm_store m e)) None es = Some ds'"
    "\<forall>n. no_nul n \<longrightarrow> vtm_dataset_get_variant ds' n = map_option nm_received (vtm_dataset_get_variant ds n)"
proof -
  have new: "vtm_dataset_inv False vtm_dataset_new"
    using ds_init_inv(1) [of VTM_DS_HINT_DEFAULT]
    by (simp add: vtm_dataset_new_def vtm_dataset_newh_def VTM_DS_HINT_DEFAULT_def)
  have "foldl (\<lambda>m e. Some (nm_store m e)) None es = foldl (\<lambda>m e. Some (nm_store m e)) (Some vtm_dataset_new) es"
    using assms(4) by (cases es) (simp_all add: nm_store_def)
  note msg' = this
  have uniq: "v = v'" if "no_nul n" "(n, v) \<in> set es" "(n, v') \<in> set es" for n v v'
    using entryset_get [OF assms(1, 2) that(1), of v] entryset_get [OF assms(1, 2) that(1), of v'] that(2, 3) by simp
  have all: "\<exists>ds'. foldl (\<lambda>m e. Some (nm_store m e)) (Some vtm_dataset_new) es = Some ds'
      \<and> (if n \<in> fst ` set es then \<exists>v. (n, v) \<in> set es \<and> vtm_dataset_get_variant ds' n = Some (nm_received v)
         else vtm_dataset_get_variant ds' n = vtm_dataset_get_variant vtm_dataset_new n)" if "no_nul n" for n
    by (rule nm_store_all [OF new assms(3) that]) (erule (1) uniq [OF that])
  obtain ds' where ds': "foldl (\<lambda>m e. Some (nm_store m e)) None es = Some ds'" using all [of "[]"] msg' by auto
  have "vtm_dataset_get_variant ds' n = map_option nm_received (vtm_dataset_get_variant ds n)" if n: "no_nul n" for n
  proof (cases "n \<in> fst ` set es")
    case True
    then obtain v where v: "(n, v) \<in> set es" "vtm_dataset_get_variant ds' n = Some (nm_received v)"
      using all [OF n] ds' msg' by auto
    then show ?thesis using entryset_get [OF assms(1, 2) n, of v] by simp
  next
    case False
    then have "vtm_dataset_get_variant ds' n = vtm_dataset_get_variant vtm_dataset_new n"
      using all [OF n] ds' msg' by auto
    moreover have "vtm_dataset_get_variant ds n = None"
      using False entryset_get [OF assms(1, 2) n] by (metis fst_conv imageI option.exhaust)
    moreover have "vtm_dataset_get_variant vtm_dataset_new n = None"
      using ds_init_inv(2) [of VTM_DS_HINT_DEFAULT] n
      by (simp add: vtm_dataset_get_variant_def ds_store_get_def vtm_dataset_new_def vtm_dataset_newh_def)
    ultimately show ?thesis by simp
  qed
  with ds' show thesis using that by blast
qed

text \<open>
  C4. A message arrives as it was sent: for a dataset with at least one and at most 65535 fields, of
  names of 1 to 255 bytes and values of the supported types, the bytes written on a host of one byte
  order into a buffer of any byte order make the parser of a host of any byte order complete a
  message, with nothing left over, that has exactly the same fields with the same types and values.
  (Floating point values arrive as what packing leaves of them.)
\<close>

theorem nm_roundtrip:
  assumes "vtm_dataset_inv False ds" and "vtm_dataset_entryset (Some ds) = Some es"
    and "list_all nm_entry_ok es" and "es \<noteq> []" and "length es \<le> 65535"
    and "length (nm_msg_bytes ord es) \<le> 2 ^ 60" and "\<forall>m. ma m"
  shows "\<exists>b par' b' ds'.
    vtm_nm_msg_to_buf h1 ma (Some ds) (vtm_buf_init ord) = Some (Some VTM_OK, b)
    \<and> vtm_nm_parser_run ma (vtm_nm_parser_init h2 par) b = Some (VTM_NET_RECV_STAT_COMPLETE, par', b')
    \<and> buf_unread b' = [] \<and> fst (vtm_nm_parser_get_msg par') = Inr (Some ds')
    \<and> (\<forall>n. no_nul n \<longrightarrow>
        vtm_dataset_get_variant ds' n = map_option nm_received (vtm_dataset_get_variant ds n))"
proof -
  have room: "buf_room (vtm_buf_init ord) (length (nm_msg_bytes ord es) + 0)" using assms(6) buf_room_init by simp
  have o: "buf_order (vtm_buf_init ord) = ord" by (simp add: vtm_buf_init_def)
  obtain b where b: "vtm_nm_msg_to_buf h1 ma (Some ds) (vtm_buf_init ord) = Some (Some VTM_OK, b)"
    "buf_ext (vtm_buf_init ord) (nm_msg_bytes ord es) b"
    using msg_to_buf_room [OF assms(2-5) room assms(7) o] by blast
  have "nm_input b ord (nm_msg_bytes ord es @ [])"
    using b(2) buf_ext_unread [OF vtm_buf_init_inv b(2)] by (simp add: nm_input_def buf_ext_def) (simp add: vtm_buf_init_def)
  from read_msg [OF this assms(3, 7, 5), of "vtm_nm_parser_init h2 par"]
  obtain par' b' where run: "vtm_nm_parser_run ma (vtm_nm_parser_init h2 par) b =
      Some (VTM_NET_RECV_STAT_COMPLETE, par', b')" "buf_unread b' = []" "np_state par' = VTM_NM_PARSE_MSG_COMPLETE"
    and msg: "np_msg par' = foldl (\<lambda>m e. Some (nm_store m e)) None es"
    by (auto simp: vtm_nm_parser_init_def nm_input_def)
  obtain ds' where ds': "foldl (\<lambda>m e. Some (nm_store m e)) None es = Some ds'"
    "\<forall>n. no_nul n \<longrightarrow> vtm_dataset_get_variant ds' n = map_option nm_received (vtm_dataset_get_variant ds n)"
    by (rule nm_received_dataset [OF assms(1-4)])
  then have "fst (vtm_nm_parser_get_msg par') = Inr (Some ds')"
    using run(3) msg by (simp add: vtm_nm_parser_get_msg_def)
  then show ?thesis using b(1) run(1, 2) ds'(2) by blast
qed

lemma concat_single: "i < k \<Longrightarrow> concat ((replicate k [])[i := xs]) = xs"
proof (induction k arbitrary: i)
  case (Suc k)
  then show ?case by (cases i) simp_all
qed simp

lemma nm_example_entries:
  "vtm_dataset_entryset (Some (fst (vtm_dataset_set_int32 vtm_dataset_new (bytes_of ''a'') 7))) =
     Some [(bytes_of ''a'', vtm_variant_from_int32 7)]"
  by (simp add: vtm_dataset_set_int32_def ds_setx_eq VTM_SMAP_PUT_def VTM_SMAP_INDEX_def vtm_dataset_new_def
      vtm_dataset_newh_def vtm_dataset_init_def VTM_SMAP_INIT_def VTM_DS_HINT_DEFAULT_def vtm_dataset_entryset_def
      VTM_SMAP_FOR_EACH_def concat_single Let_def)

theorem nm_roundtrip_witness:
  "\<exists>b par' b' ds'.
    vtm_nm_msg_to_buf VTM_BYTEORDER_LE alloc_all
      (Some (fst (vtm_dataset_set_int32 vtm_dataset_new (bytes_of ''a'') 7)))
      (vtm_buf_init VTM_BYTEORDER_BE) = Some (Some VTM_OK, b)
    \<and> vtm_nm_parser_run alloc_all (vtm_nm_parser_init VTM_BYTEORDER_BE undefined) b =
        Some (VTM_NET_RECV_STAT_COMPLETE, par', b')
    \<and> fst (vtm_nm_parser_get_msg par') = Inr (Some ds')
    \<and> vtm_dataset_get_variant ds' (bytes_of ''a'') = Some (vtm_variant_from_int32 7)"
proof -
  let ?ds = "fst (vtm_dataset_set_int32 vtm_dataset_new (bytes_of ''a'') 7)"
  let ?es = "[(bytes_of ''a'', vtm_variant_from_int32 7)]"
  have new: "vtm_dataset_inv False vtm_dataset_new"
    using ds_init_inv(1) [of VTM_DS_HINT_DEFAULT]
    by (simp add: vtm_dataset_new_def vtm_dataset_newh_def VTM_DS_HINT_DEFAULT_def)
  have a: "no_nul (bytes_of ''a'')" by (simp add: bytes_of_def)
  have inv: "vtm_dataset_inv False ?ds"
    using ds_put_law [OF new a, of "(vtm_variant_from_int32 7, False)"]
    by (simp add: ds_store_put_def vtm_dataset_set_int32_def)
  have get: "vtm_dataset_get_variant ?ds (bytes_of ''a'') = Some (vtm_variant_from_int32 7)"
    using entryset_get [OF inv nm_example_entries a] by simp
  have ok: "list_all nm_entry_ok ?es"
    by (simp add: nm_entry_ok_def vtm_variant_from_int32_def nm_fixed_def bytes_of_def)
  have len: "length (nm_msg_bytes VTM_BYTEORDER_BE ?es) \<le> 2 ^ 60"
    by (simp add: nm_msg_bytes_def nm_field_bytes_def vtm_variant_from_int32_def bytes_of_def)
  have rec: "nm_received (vtm_variant_from_int32 7) = vtm_variant_from_int32 7"
    by (simp add: nm_received_def vtm_variant_from_int32_def)
  have ma: "\<forall>m. alloc_all m" by (simp add: alloc_all_def)
  obtain b par' b' ds' where r:
    "vtm_nm_msg_to_buf VTM_BYTEORDER_LE alloc_all (Some ?ds) (vtm_buf_init VTM_BYTEORDER_BE) = Some (Some VTM_OK, b)"
    "vtm_nm_parser_run alloc_all (vtm_nm_parser_init VTM_BYTEORDER_BE undefined) b =
      Some (VTM_NET_RECV_STAT_COMPLETE, par', b')" "fst (vtm_nm_parser_get_msg par') = Inr (Some ds')"
    "vtm_dataset_get_variant ds' (bytes_of ''a'') = Some (vtm_variant_from_int32 7)"
    using nm_roundtrip [OF inv nm_example_entries ok _ _ len ma, of VTM_BYTEORDER_LE VTM_BYTEORDER_BE undefined]
      a get rec by auto
  then show ?thesis by blast
qed

subsection \<open>Partial input\<close>

text \<open>
  C6. Whatever bytes arrive, the parser returns, without reading past the bytes it has and without
  writing outside the blocks it allocates, as long as less than \<open>UINT32_MAX\<close> bytes wait in the
  buffer.
\<close>

theorem nm_parser_returns:
  assumes "vtm_buf_inv b" and "length (buf_unread b) < 4294967295"
  shows "\<exists>stat par' b'. vtm_nm_parser_run ma (vtm_nm_parser_init host par) b = Some (stat, par', b')"
  by (rule nmp.run_total) (use assms in \<open>simp add: nm_inv_def vtm_nm_parser_init_def\<close>)

text \<open>A string field of which less arrived than its length says.\<close>

theorem nm_parser_returns_witness:
  "\<exists>stat par' b'. vtm_nm_parser_run alloc_all (vtm_nm_parser_init VTM_BYTEORDER_LE undefined)
     ((vtm_buf_init VTM_BYTEORDER_BE)\<lparr>buf_data := [0x56, 1, 0, 1, 1, 97, 15, 255, 255, 255, 255, 98], buf_used := 12\<rparr>) = Some (stat, par', b')"
proof (rule nm_parser_returns)
  show "vtm_buf_inv ((vtm_buf_init VTM_BYTEORDER_BE)\<lparr>buf_data := [0x56, 1, 0, 1, 1, 97, 15, 255, 255, 255, 255, 98], buf_used := 12\<rparr>)"
    by (auto simp: vtm_buf_inv_def vtm_buf_init_def VTM_BUF_SDATA_LEN_def intro: exI [of _ 10])
qed (simp add: buf_unread_def)

text \<open>
  C5. A message may arrive in pieces: when the parser has returned \<open>VTM_NET_RECV_STAT_AGAIN\<close>, calling it
  again with the bytes that arrived in the meantime gives what a single call on all the bytes would
  have given.
\<close>

theorem nm_parser_resumes:
  assumes "vtm_buf_inv b" and "length (buf_unread b) < 4294967295" and "buf_ext b bs c"
    and "vtm_nm_parser_run ma (vtm_nm_parser_init host par) b = Some (VTM_NET_RECV_STAT_AGAIN, par', b')"
  shows "\<exists>c'. buf_ext b' bs c'
    \<and> vtm_nm_parser_run ma (vtm_nm_parser_init host par) c = vtm_nm_parser_run ma par' c'"
proof -
  have "nm_inv (vtm_nm_parser_init host par) b"
    using assms(1, 2) by (simp add: nm_inv_def vtm_nm_parser_init_def)
  from nmp.resume [OF this assms(3, 4)] show ?thesis by blast
qed

theorem nm_parser_resumes_witness:
  "\<exists>par' b' c'. vtm_nm_parser_run alloc_all (vtm_nm_parser_init VTM_BYTEORDER_LE undefined)
       (vtm_buf_init VTM_BYTEORDER_BE) = Some (VTM_NET_RECV_STAT_AGAIN, par', b')
     \<and> vtm_nm_parser_run alloc_all (vtm_nm_parser_init VTM_BYTEORDER_LE undefined)
         (snd (vtm_buf_putm alloc_all (vtm_buf_init VTM_BYTEORDER_BE) [86])) =
       vtm_nm_parser_run alloc_all par' c'"
proof -
  let ?b = "vtm_buf_init VTM_BYTEORDER_BE" and ?p = "vtm_nm_parser_init VTM_BYTEORDER_LE undefined"
  have "vtm_nm_parser_run alloc_all ?p ?b =
      Some (VTM_NET_RECV_STAT_AGAIN, ?p\<lparr>np_state := VTM_NM_PARSE_MAGIC\<rparr>, ?b)"
    by (simp add: vtm_nm_parser_run.simps nm_parser_step_def vtm_nm_parser_init_def need_eq)
  moreover have "buf_ext ?b [86] (snd (vtm_buf_putm alloc_all ?b [86]))"
    using room_puts(1) [of ?b "[86]" 0 alloc_all] buf_room_init [of 1] by (simp add: alloc_all_def)
  ultimately show ?thesis
    using nm_parser_resumes [of ?b "[86]" "snd (vtm_buf_putm alloc_all ?b [86])" alloc_all VTM_BYTEORDER_LE undefined]
    by auto
qed

end
