(* ===== verification/Vmap.thy ===== *)
theory Vmap
  imports Hash Table Vlist
begin

text \<open>
  The hash map of \<open>core/map.c\<close>. A bucket is the list of the entries of its chain, in the chain's
  order; a position \<open>struct vtm_map_node **\<close> is a bucket and a place in its chain. Operations that
  release a node also return what was freed with it.
\<close>

record vtm_map_entry =
  me_key :: vtm_elem
  me_value :: vtm_elem

record vtm_map_key =
  mk_var :: vtm_variant
  mk_hash :: u32

record vtm_map =
  m_keytype :: vtm_elem_type
  m_valuetype :: vtm_elem_type
  m_buckets :: "vtm_map_entry list list"
  m_bucket_count :: size_t
  m_key_cmp :: "(vtm_elem \<Rightarrow> vtm_elem \<Rightarrow> bool) option"
  m_free_val :: bool

text \<open>The bucket bc is doubled until it reaches the capacity; from 0 it never does (\<open>None\<close>).\<close>

partial_function (option) map_bucket_count :: "size_t \<Rightarrow> size_t \<Rightarrow> size_t option" where
  "map_bucket_count bc capacity =
     (if bc < capacity then map_bucket_count (push_bit 1 bc) capacity else Some bc)"

definition vtm_map_new ::
    "bool \<Rightarrow> allocator \<Rightarrow> vtm_elem_type \<Rightarrow> vtm_elem_type \<Rightarrow> size_t \<Rightarrow> (vtm_rc + vtm_map) option" where
  "vtm_map_new mem ma keytype valuetype capacity =
     (if \<not> mem then Some (Inl VTM_E_MALLOC)
      else
        case map_bucket_count 1 capacity of
          None \<Rightarrow> None
        | Some bc \<Rightarrow>
            if \<not> (unat bc * 8 < 2 ^ 64 \<and> ma (bc * 8)) then Some (Inl VTM_E_MALLOC)
            else Some (Inr \<lparr>m_keytype = keytype, m_valuetype = valuetype,
                            m_buckets = replicate (unat bc) [], m_bucket_count = bc,
                            m_key_cmp = vtm_elem_get_cmp_fn keytype, m_free_val = False\<rparr>))"

definition vtm_map_set_free_func :: "vtm_map \<Rightarrow> bool \<Rightarrow> vtm_map" where
  "vtm_map_set_free_func m func = m\<lparr>m_free_val := func\<rparr>"

definition vtm_map_size :: "vtm_map \<Rightarrow> nat" where
  "vtm_map_size m = foldl (\<lambda>n es. n + length es) 0 (m_buckets m)"

definition vtm_map_calc_index :: "vtm_map \<Rightarrow> u32 \<Rightarrow> size_t" where
  "vtm_map_calc_index m hash = ucast hash mod m_bucket_count m"

text \<open>What is released with a node: its key string, its value, and the node itself.\<close>

datatype map_freed = Freed_key vtm_elem | Freed_str vtm_elem | Freed_fn vtm_elem | Freed_node vtm_map_entry

definition vtm_map_node_free :: "vtm_map \<Rightarrow> vtm_map_entry \<Rightarrow> map_freed list" where
  "vtm_map_node_free m node =
     (if m_keytype m = VTM_ELEM_STRING then [Freed_key (me_key node)] else [])
     @ (if m_valuetype m = VTM_ELEM_STRING then [Freed_str (me_value node)]
        else if m_valuetype m = VTM_ELEM_POINTER \<and> m_free_val m then [Freed_fn (me_value node)]
        else [])
     @ [Freed_node node]"

definition vtm_map_clear :: "vtm_map \<Rightarrow> map_freed list \<times> vtm_map" where
  "vtm_map_clear m =
     (concat (map (vtm_map_node_free m) (concat (m_buckets m))),
      m\<lparr>m_buckets := map (\<lambda>_. []) (m_buckets m)\<rparr>)"

definition vtm_map_free :: "vtm_map option \<Rightarrow> map_freed list" where
  "vtm_map_free m = (case m of None \<Rightarrow> [] | Some m \<Rightarrow> fst (vtm_map_clear m))"

text \<open>The comparison of a map without one is a call through a NULL pointer.\<close>

definition vtm_map_find_bucket_node_pos :: "vtm_map \<Rightarrow> vtm_map_entry list \<Rightarrow> vtm_elem \<Rightarrow> nat option" where
  "vtm_map_find_bucket_node_pos m chain key = chain_pos (the (m_key_cmp m)) me_key key chain"

definition vtm_map_find_node_pos :: "vtm_map \<Rightarrow> vtm_elem \<Rightarrow> u32 \<Rightarrow> (nat \<times> nat) option" where
  "vtm_map_find_node_pos m key hash =
     (let index = unat (vtm_map_calc_index m hash); chain = m_buckets m ! index
      in if chain = [] then None
         else map_option (Pair index) (vtm_map_find_bucket_node_pos m chain key))"

definition vtm_map_get_node_pos :: "vtm_map \<Rightarrow> vtm_map_key \<Rightarrow> (nat \<times> nat) option" where
  "vtm_map_get_node_pos m key = vtm_map_find_node_pos m (var_data (mk_var key)) (mk_hash key)"

definition vtm_map_put_internal ::
    "bool \<Rightarrow> vtm_map \<Rightarrow> vtm_map_key \<Rightarrow> vtm_elem \<Rightarrow> vtm_rc \<times> vtm_map \<times> map_freed list" where
  "vtm_map_put_internal mem m key value =
     (if \<not> mem then (VTM_E_MALLOC, m, [])
      else
        let node = \<lparr>me_key = var_data (mk_var key), me_value = value\<rparr>;
            index = unat (vtm_map_calc_index m (mk_hash key));
            chain = m_buckets m ! index
        in if chain = [] then (VTM_OK, m\<lparr>m_buckets := (m_buckets m)[index := [node]]\<rparr>, [])
           else
             case vtm_map_find_bucket_node_pos m chain (me_key node) of
               Some pos \<Rightarrow>
                 (VTM_OK, m\<lparr>m_buckets := (m_buckets m)[index := chain[pos := node]]\<rparr>,
                  vtm_map_node_free m (chain ! pos))
             | None \<Rightarrow>
                 (VTM_OK, m\<lparr>m_buckets := (m_buckets m)[index := node # chain]\<rparr>, []))"

definition vtm_map_put ::
    "bool \<Rightarrow> vtm_map \<Rightarrow> vtm_map_key \<Rightarrow> vtm_variant \<Rightarrow> vtm_rc \<times> vtm_map \<times> map_freed list" where
  "vtm_map_put mem m key value = vtm_map_put_internal mem m key (var_data value)"

text \<open>
  The key and the value are read from the arguments; string keys are copied when they are to be
  stored, and string values always.
\<close>

definition vtm_map_parse_key ::
    "vtm_map \<Rightarrow> vtm_va list \<Rightarrow> bool \<Rightarrow> conv_err + vtm_map_key \<times> vtm_va list" where
  "vtm_map_parse_key m ap copy =
     (case vtm_elem_parse (m_keytype m) ap of
        Inl e \<Rightarrow> Inl e
      | Inr (data, ap') \<Rightarrow>
          let data' = (if copy \<and> m_keytype m = VTM_ELEM_STRING
                       then Elem_str (vtm_str_copy (elem_str data)) else data)
          in Inr (\<lparr>mk_var = \<lparr>var_data = data', var_type = m_keytype m, var_str = None\<rparr>,
                   mk_hash = the (vtm_hash_elem_get_fn (m_keytype m)) data\<rparr>, ap'))"

definition vtm_map_parse_value :: "vtm_map \<Rightarrow> vtm_va list \<Rightarrow> conv_err + vtm_elem" where
  "vtm_map_parse_value m ap =
     (case vtm_elem_parse (m_valuetype m) ap of
        Inl e \<Rightarrow> Inl e
      | Inr (data, _) \<Rightarrow>
          Inr (if m_valuetype m = VTM_ELEM_STRING
               then Elem_str (vtm_str_copy (elem_str data)) else data))"

definition vtm_map_put_va ::
    "bool \<Rightarrow> vtm_map \<Rightarrow> vtm_va list \<Rightarrow> conv_err + vtm_rc \<times> vtm_map \<times> map_freed list" where
  "vtm_map_put_va mem m ap =
     (case vtm_map_parse_key m ap True of
        Inl e \<Rightarrow> Inl e
      | Inr (key, ap') \<Rightarrow>
          (case vtm_map_parse_value m ap' of
             Inl e \<Rightarrow> Inl e
           | Inr value \<Rightarrow> Inr (vtm_map_put_internal mem m key value)))"

definition vtm_map_get_node_pos_va :: "vtm_map \<Rightarrow> vtm_va list \<Rightarrow> conv_err + (nat \<times> nat) option" where
  "vtm_map_get_node_pos_va m ap =
     (case vtm_map_parse_key m ap False of
        Inl e \<Rightarrow> Inl e
      | Inr (key, _) \<Rightarrow> Inr (vtm_map_get_node_pos m key))"

definition vtm_map_get_internal :: "vtm_map \<Rightarrow> (nat \<times> nat) option \<Rightarrow> vtm_elem option" where
  "vtm_map_get_internal m pos =
     (case pos of None \<Rightarrow> None | Some (b, i) \<Rightarrow> Some (me_value (m_buckets m ! b ! i)))"

definition vtm_map_get :: "vtm_map \<Rightarrow> vtm_map_key \<Rightarrow> vtm_elem option" where
  "vtm_map_get m key = vtm_map_get_internal m (vtm_map_get_node_pos m key)"

definition vtm_map_get_va :: "vtm_map \<Rightarrow> vtm_va list \<Rightarrow> conv_err + vtm_elem option" where
  "vtm_map_get_va m ap =
     map_sum id (vtm_map_get_internal m) (vtm_map_get_node_pos_va m ap)"

text \<open>A pointer value is the string, block or address it leads to; \<open>None\<close> is NULL.\<close>

definition vtm_map_get_pointer_internal :: "vtm_map \<Rightarrow> (nat \<times> nat) option \<Rightarrow> vtm_elem option" where
  "vtm_map_get_pointer_internal m pos =
     (case pos of None \<Rightarrow> None | Some (b, i) \<Rightarrow> Some (me_value (m_buckets m ! b ! i)))"

definition vtm_map_get_pointer :: "vtm_map \<Rightarrow> vtm_map_key \<Rightarrow> vtm_elem option" where
  "vtm_map_get_pointer m key = vtm_map_get_pointer_internal m (vtm_map_get_node_pos m key)"

definition vtm_map_get_pointer_va :: "vtm_map \<Rightarrow> vtm_va list \<Rightarrow> conv_err + vtm_elem option" where
  "vtm_map_get_pointer_va m ap =
     map_sum id (vtm_map_get_pointer_internal m) (vtm_map_get_node_pos_va m ap)"

definition vtm_map_remove_internal ::
    "vtm_map \<Rightarrow> (nat \<times> nat) option \<Rightarrow> bool \<times> vtm_map \<times> map_freed list" where
  "vtm_map_remove_internal m pos =
     (case pos of
        None \<Rightarrow> (False, m, [])
      | Some (b, i) \<Rightarrow>
          let chain = m_buckets m ! b
          in (True, m\<lparr>m_buckets := (m_buckets m)[b := take i chain @ drop (Suc i) chain]\<rparr>,
              vtm_map_node_free m (chain ! i)))"

definition vtm_map_remove :: "vtm_map \<Rightarrow> vtm_map_key \<Rightarrow> bool \<times> vtm_map \<times> map_freed list" where
  "vtm_map_remove m key = vtm_map_remove_internal m (vtm_map_get_node_pos m key)"

definition vtm_map_remove_va :: "vtm_map \<Rightarrow> vtm_va list \<Rightarrow> conv_err + bool \<times> vtm_map \<times> map_freed list" where
  "vtm_map_remove_va m ap =
     map_sum id (vtm_map_remove_internal m) (vtm_map_get_node_pos_va m ap)"

definition vtm_map_contains_key :: "vtm_map \<Rightarrow> vtm_map_key \<Rightarrow> bool" where
  "vtm_map_contains_key m key \<longleftrightarrow> vtm_map_get_node_pos m key \<noteq> None"

definition vtm_map_contains_key_va :: "vtm_map \<Rightarrow> vtm_va list \<Rightarrow> conv_err + bool" where
  "vtm_map_contains_key_va m ap = map_sum id (\<lambda>pos. pos \<noteq> None) (vtm_map_get_node_pos_va m ap)"

text \<open>The list of pointers to the entries is modelled by the entries it leads to.\<close>

definition vtm_map_entryset :: "vtm_map \<Rightarrow> vtm_map_entry list" where
  "vtm_map_entryset m = concat (m_buckets m)"

subsection \<open>Making keys\<close>

definition VTM_MAP_KEY_NUM :: "vtm_elem \<Rightarrow> vtm_elem_type \<Rightarrow> (vtm_elem \<Rightarrow> u32) \<Rightarrow> vtm_map_key" where
  "VTM_MAP_KEY_NUM data type hash =
     \<lparr>mk_var = \<lparr>var_data = data, var_type = type, var_str = None\<rparr>, mk_hash = hash data\<rparr>"

definition vtm_map_key_from_int8 :: "8 word \<Rightarrow> vtm_map_key" where
  "vtm_map_key_from_int8 val = VTM_MAP_KEY_NUM (Elem_int8 val) VTM_ELEM_INT8 vtm_hash_elem_int8"

definition vtm_map_key_from_uint8 :: "8 word \<Rightarrow> vtm_map_key" where
  "vtm_map_key_from_uint8 val = VTM_MAP_KEY_NUM (Elem_uint8 val) VTM_ELEM_UINT8 vtm_hash_elem_uint8"

definition vtm_map_key_from_int16 :: "16 word \<Rightarrow> vtm_map_key" where
  "vtm_map_key_from_int16 val = VTM_MAP_KEY_NUM (Elem_int16 val) VTM_ELEM_INT16 vtm_hash_elem_int16"

definition vtm_map_key_from_uint16 :: "16 word \<Rightarrow> vtm_map_key" where
  "vtm_map_key_from_uint16 val = VTM_MAP_KEY_NUM (Elem_uint16 val) VTM_ELEM_UINT16 vtm_hash_elem_uint16"

definition vtm_map_key_from_int32 :: "32 word \<Rightarrow> vtm_map_key" where
  "vtm_map_key_from_int32 val = VTM_MAP_KEY_NUM (Elem_int32 val) VTM_ELEM_INT32 vtm_hash_elem_int32"

definition vtm_map_key_from_uint32 :: "32 word \<Rightarrow> vtm_map_key" where
  "vtm_map_key_from_uint32 val = VTM_MAP_KEY_NUM (Elem_uint32 val) VTM_ELEM_UINT32 vtm_hash_elem_uint32"

definition vtm_map_key_from_int64 :: "64 word \<Rightarrow> vtm_map_key" where
  "vtm_map_key_from_int64 val = VTM_MAP_KEY_NUM (Elem_int64 val) VTM_ELEM_INT64 vtm_hash_elem_int64"

definition vtm_map_key_from_uint64 :: "64 word \<Rightarrow> vtm_map_key" where
  "vtm_map_key_from_uint64 val = VTM_MAP_KEY_NUM (Elem_uint64 val) VTM_ELEM_UINT64 vtm_hash_elem_uint64"

definition vtm_map_key_from_bool :: "bool \<Rightarrow> vtm_map_key" where
  "vtm_map_key_from_bool val = VTM_MAP_KEY_NUM (Elem_bool val) VTM_ELEM_BOOL vtm_hash_elem_bool"

definition vtm_map_key_from_char :: "8 word \<Rightarrow> vtm_map_key" where
  "vtm_map_key_from_char val = VTM_MAP_KEY_NUM (Elem_char val) VTM_ELEM_CHAR vtm_hash_elem_char"

definition vtm_map_key_from_schar :: "8 word \<Rightarrow> vtm_map_key" where
  "vtm_map_key_from_schar val = VTM_MAP_KEY_NUM (Elem_schar val) VTM_ELEM_SCHAR vtm_hash_elem_schar"

definition vtm_map_key_from_uchar :: "8 word \<Rightarrow> vtm_map_key" where
  "vtm_map_key_from_uchar val = VTM_MAP_KEY_NUM (Elem_uchar val) VTM_ELEM_UCHAR vtm_hash_elem_uchar"

definition vtm_map_key_from_short :: "16 word \<Rightarrow> vtm_map_key" where
  "vtm_map_key_from_short val = VTM_MAP_KEY_NUM (Elem_short val) VTM_ELEM_SHORT vtm_hash_elem_short"

definition vtm_map_key_from_ushort :: "16 word \<Rightarrow> vtm_map_key" where
  "vtm_map_key_from_ushort val = VTM_MAP_KEY_NUM (Elem_ushort val) VTM_ELEM_USHORT vtm_hash_elem_ushort"

definition vtm_map_key_from_int :: "32 word \<Rightarrow> vtm_map_key" where
  "vtm_map_key_from_int val = VTM_MAP_KEY_NUM (Elem_int val) VTM_ELEM_INT vtm_hash_elem_int"

definition vtm_map_key_from_uint :: "32 word \<Rightarrow> vtm_map_key" where
  "vtm_map_key_from_uint val = VTM_MAP_KEY_NUM (Elem_uint val) VTM_ELEM_UINT vtm_hash_elem_uint"

definition vtm_map_key_from_long :: "64 word \<Rightarrow> vtm_map_key" where
  "vtm_map_key_from_long val = VTM_MAP_KEY_NUM (Elem_long val) VTM_ELEM_LONG vtm_hash_elem_long"

definition vtm_map_key_from_ulong :: "64 word \<Rightarrow> vtm_map_key" where
  "vtm_map_key_from_ulong val = VTM_MAP_KEY_NUM (Elem_ulong val) VTM_ELEM_ULONG vtm_hash_elem_ulong"

definition vtm_map_key_from_float :: "u32 \<Rightarrow> vtm_map_key" where
  "vtm_map_key_from_float val = VTM_MAP_KEY_NUM (Elem_float val) VTM_ELEM_FLOAT vtm_hash_elem_float"

definition vtm_map_key_from_double :: "u64 \<Rightarrow> vtm_map_key" where
  "vtm_map_key_from_double val = VTM_MAP_KEY_NUM (Elem_double val) VTM_ELEM_DOUBLE vtm_hash_elem_double"

definition vtm_map_key_from_str :: "cstr \<Rightarrow> vtm_map_key" where
  "vtm_map_key_from_str val =
     \<lparr>mk_var = \<lparr>var_data = Elem_str val, var_type = VTM_ELEM_STRING, var_str = None\<rparr>,
      mk_hash = vtm_hash_str val\<rparr>"

definition vtm_map_key_from_blob :: "vtm_blob \<Rightarrow> vtm_map_key" where
  "vtm_map_key_from_blob val =
     \<lparr>mk_var = \<lparr>var_data = Elem_blob (Some val), var_type = VTM_ELEM_BLOB, var_str = None\<rparr>,
      mk_hash = vtm_hash_mem (take (unat (vtm_blob_size val)) (blob_mem val))\<rparr>"

definition vtm_map_key_from_ptr :: "u64 \<Rightarrow> vtm_map_key" where
  "vtm_map_key_from_ptr val =
     \<lparr>mk_var = \<lparr>var_data = Elem_ptr val, var_type = VTM_ELEM_POINTER, var_str = None\<rparr>,
      mk_hash = vtm_hash_ptr val\<rparr>"

subsection \<open>Creating a map\<close>

lemma push_bit_1_double: "push_bit 1 (w :: 'a::len word) = 2 * w"
  by (simp add: push_bit_eq_mult)

lemma map_bucket_count_zero: "0 < capacity \<Longrightarrow> map_bucket_count 0 capacity \<noteq> Some r"
proof
  assume cap: "0 < capacity" and "map_bucket_count 0 capacity = Some r"
  from this(2) have "(0 :: size_t) = 0 \<and> 0 < capacity \<longrightarrow> False"
  proof (rule map_bucket_count.raw_induct [where P = "\<lambda>n c r. n = 0 \<and> 0 < c \<longrightarrow> False", rotated])
    fix f :: "size_t \<Rightarrow> size_t \<Rightarrow> size_t option" and n c r
    assume IH: "\<And>n c r. f n c = Some r \<Longrightarrow> n = 0 \<and> 0 < c \<longrightarrow> False"
      and eq: "(if n < c then f (push_bit 1 n) c else Some n) = Some r"
    show "(n :: size_t) = 0 \<and> 0 < (c :: size_t) \<longrightarrow> False"
    proof
      assume "n = 0 \<and> 0 < c"
      then have "f 0 c = Some r" using eq by simp
      then show False using IH [of 0 c r] \<open>n = 0 \<and> 0 < c\<close> by simp
    qed
  qed
  then show False using cap by simp
qed

lemma map_bucket_count_pow:
  assumes "k \<le> 63" and "unat capacity \<le> 2 ^ 63" and "k = 0 \<or> 2 ^ (k - 1) < unat capacity"
  shows "\<exists>j \<le> 63. map_bucket_count (of_nat (2 ^ k)) capacity = Some (of_nat (2 ^ j))
     \<and> unat capacity \<le> 2 ^ j \<and> (j = 0 \<or> 2 ^ (j - 1) < unat capacity)"
  using assms(1, 3)
proof (induction "63 - k" arbitrary: k)
  case 0
  have "unat (of_nat (2 ^ 63) :: size_t) = 2 ^ 63" by (rule unat_of_nat_small) simp
  then have "map_bucket_count (of_nat (2 ^ 63)) capacity = Some (of_nat (2 ^ 63))"
    using assms(2) by (subst map_bucket_count.simps) (simp add: word_less_nat_alt)
  then show ?case using 0 assms(2) by (intro exI [of _ 63]) simp
next
  case (Suc d)
  have k: "k < 63" using Suc.hyps(2) by simp
  have "(2 :: nat) ^ k < 2 ^ 64" using k by (intro power_strict_increasing) auto
  then have u: "unat (of_nat (2 ^ k) :: size_t) = 2 ^ k" by (intro unat_of_nat_small) simp
  show ?case
  proof (cases "2 ^ k < unat capacity")
    case True
    have dbl: "push_bit 1 (of_nat (2 ^ k) :: size_t) = of_nat (2 ^ Suc k)"
      by (simp add: push_bit_1_double)
    have "map_bucket_count (of_nat (2 ^ k)) capacity = map_bucket_count (of_nat (2 ^ Suc k)) capacity"
      using True u dbl by (subst map_bucket_count.simps) (simp add: word_less_nat_alt del: of_nat_power power_Suc)
    then show ?thesis using Suc.hyps(1) [of "Suc k"] Suc.hyps(2) k True by simp
  next
    case False
    then have "map_bucket_count (of_nat (2 ^ k)) capacity = Some (of_nat (2 ^ k))"
      using u by (subst map_bucket_count.simps) (simp add: word_less_nat_alt del: of_nat_power)
    then show ?thesis using False Suc.prems by (intro exI [of _ k]) simp
  qed
qed

lemma map_bucket_count_big:
  assumes "unat capacity > 2 ^ 63"
  shows "map_bucket_count 1 capacity = None"
proof -
  have step: "map_bucket_count (of_nat (2 ^ k)) capacity = map_bucket_count (of_nat (2 ^ Suc k)) capacity"
    if "k \<le> 63" for k
  proof -
    have "(2 :: nat) ^ k \<le> 2 ^ 63" using that by (intro power_increasing) auto
    moreover have "(2 :: nat) ^ k < 2 ^ 64" using that by (intro power_strict_increasing) auto
    ultimately have "(of_nat (2 ^ k) :: size_t) < capacity"
      using assms by (simp add: word_less_nat_alt unat_of_nat_small del: of_nat_power)
    then show ?thesis
      by (subst map_bucket_count.simps) (simp add: push_bit_1_double mult.commute)
  qed
  have "map_bucket_count 1 capacity = map_bucket_count (of_nat (2 ^ k)) capacity" if "k \<le> 64" for k
    using that by (induction k) (use step in auto)
  moreover have "(of_nat (2 ^ 64) :: size_t) = 0"
    by (rule word_unat_eq_iff [THEN iffD2]) (simp add: unat_of_nat take_bit_eq_mod del: of_nat_power of_nat_numeral)
  ultimately have "map_bucket_count 1 capacity = map_bucket_count 0 capacity" by (metis order_refl)
  then show ?thesis using map_bucket_count_zero [of capacity] assms
    by (cases "map_bucket_count 0 capacity") (auto simp: word_less_nat_alt)
qed

text \<open>
  C31. \<open>vtm_map_new\<close> returns exactly for capacities up to \<open>2 ^ 63\<close>; beyond, the doubling of the bucket
  count runs to 0 and goes on forever. Where it succeeds, the bucket count is the least power of two
  that is not below the capacity, and every bucket is empty.
\<close>

theorem map_new_spec:
  "(case vtm_map_new True ma kt vt capacity of
      None \<Rightarrow> 2 ^ 63 < unat capacity
    | Some r \<Rightarrow>
        unat capacity \<le> 2 ^ 63
        \<and> (case r of
             Inl e \<Rightarrow> e = VTM_E_MALLOC
           | Inr m \<Rightarrow>
               (\<exists>j \<le> 63. unat (m_bucket_count m) = 2 ^ j \<and> unat capacity \<le> 2 ^ j
                  \<and> (j = 0 \<or> 2 ^ (j - 1) < unat capacity))
               \<and> m_buckets m = replicate (unat (m_bucket_count m)) []))"
proof (cases "unat capacity \<le> 2 ^ 63")
  case True
  obtain j where j: "j \<le> 63" "map_bucket_count 1 capacity = Some (of_nat (2 ^ j))"
    "unat capacity \<le> 2 ^ j" "j = 0 \<or> 2 ^ (j - 1) < unat capacity"
    using map_bucket_count_pow [of 0 capacity] True by auto
  have "(2 :: nat) ^ j < 2 ^ 64" using j(1) by (intro power_strict_increasing) auto
  then have "unat (of_nat (2 ^ j) :: size_t) = 2 ^ j" by (intro unat_of_nat_small) simp
  then show ?thesis using True j by (auto simp: vtm_map_new_def simp del: of_nat_power)
next
  case False
  then show ?thesis by (simp add: vtm_map_new_def map_bucket_count_big)
qed

subsection \<open>The map as a store\<close>

interpretation mt: hash_table "elem_key_ok t" "elem_cmp t" "elem_hash t" id me_key for t
  by unfold_locales

definition vmap_inv :: "vtm_elem_type \<Rightarrow> vtm_map \<Rightarrow> bool" where
  "vmap_inv t m \<longleftrightarrow>
     m_keytype m = t \<and> m_key_cmp m = vtm_elem_get_cmp_fn t
     \<and> unat (m_bucket_count m) = length (m_buckets m)
     \<and> table_inv (elem_key_ok t) (elem_hash t) id me_key (m_buckets m)"

text \<open>A key made for a map of key type \<open>t\<close>, with the hash that type's function computes.\<close>

definition map_key_ok :: "vtm_elem_type \<Rightarrow> vtm_map_key \<Rightarrow> bool" where
  "map_key_ok t k \<longleftrightarrow>
     elem_key_ok t (var_data (mk_var k)) \<and> mk_hash k = elem_hash t (var_data (mk_var k))"

definition mk_data :: "vtm_map_key \<Rightarrow> vtm_elem" where
  "mk_data k = var_data (mk_var k)"

definition map_store_put :: "bool \<Rightarrow> vtm_map_key \<Rightarrow> vtm_elem \<Rightarrow> vtm_map \<Rightarrow> vtm_map option" where
  "map_store_put mem k v m =
     (let (rc, m', fr) = vtm_map_put_internal mem m k v in if rc = VTM_OK then Some m' else None)"

definition map_store_del :: "vtm_map_key \<Rightarrow> vtm_map \<Rightarrow> vtm_map" where
  "map_store_del k m = fst (snd (vtm_map_remove m k))"

lemma calc_index:
  "vmap_inv t m \<Longrightarrow> unat (vtm_map_calc_index m h) = bucket_index h (length (m_buckets m))"
  by (simp add: vtm_map_calc_index_def vmap_inv_def bucket_index_def unat_mod_distrib unat_ucast_up)

lemma find_bucket_pos:
  "vmap_inv t m \<Longrightarrow> vtm_map_find_bucket_node_pos m es k = chain_pos (elem_cmp t) me_key k es"
  by (simp add: vtm_map_find_bucket_node_pos_def vmap_inv_def elem_cmp_def)

lemma node_pos:
  assumes "vmap_inv t m" and "map_key_ok t k"
  defines "i \<equiv> bucket_index (elem_hash t (mk_data k)) (length (m_buckets m))"
  shows "vtm_map_get_node_pos m k =
    map_option (Pair i) (chain_pos (elem_cmp t) me_key (mk_data k) (m_buckets m ! i))"
  using assms(2)
  by (simp add: vtm_map_get_node_pos_def vtm_map_find_node_pos_def calc_index [OF assms(1)] i_def
      find_bucket_pos [OF assms(1)] map_key_ok_def mk_data_def Let_def)

lemma map_get_table:
  assumes "vmap_inv t m" and "map_key_ok t k"
  shows "vtm_map_get m k =
    map_option me_value (table_get (elem_cmp t) (elem_hash t) me_key (m_buckets m) (mk_data k))"
  by (simp add: vtm_map_get_def vtm_map_get_internal_def node_pos [OF assms] table_get_def
      chain_get_def option.map_comp o_def split: option.split)

text \<open>The chain \<open>vtm_map_put_internal\<close> leaves in the bucket of the key.\<close>

definition map_put_chain :: "vtm_elem_type \<Rightarrow> vtm_map_entry \<Rightarrow> vtm_map_entry list \<Rightarrow> vtm_map_entry list" where
  "map_put_chain t e es =
     (case chain_pos (elem_cmp t) me_key (me_key e) es of Some i \<Rightarrow> es[i := e] | None \<Rightarrow> e # es)"

lemma map_put_eq:
  fixes v
  assumes "vmap_inv t m" and "map_key_ok t k"
  defines "i \<equiv> bucket_index (elem_hash t (mk_data k)) (length (m_buckets m))"
    and "e \<equiv> \<lparr>me_key = mk_data k, me_value = v\<rparr>"
  shows "vtm_map_put_internal True m k v =
    (VTM_OK, m\<lparr>m_buckets := (m_buckets m)[i := map_put_chain t e (m_buckets m ! i)]\<rparr>,
     case chain_pos (elem_cmp t) me_key (mk_data k) (m_buckets m ! i) of
       Some p \<Rightarrow> vtm_map_node_free m (m_buckets m ! i ! p)
     | None \<Rightarrow> [])"
  using assms(2)
  by (auto simp: vtm_map_put_internal_def calc_index [OF assms(1)] find_bucket_pos [OF assms(1)] i_def
      e_def map_key_ok_def mk_data_def map_put_chain_def Let_def split: option.split)

lemma put_chain_upd:
  assumes "distinct (map (id \<circ> me_key) es)" and "\<forall>e \<in> set es. elem_key_ok t (me_key e)"
    and "elem_key_ok t (me_key e)"
  shows "chain_upd id me_key (me_key e) (Some e) es (map_put_chain t e es)"
  using mt.chain_upd_replace [OF assms] mt.chain_upd_add(1) [OF assms]
  by (auto simp: map_put_chain_def split: option.split)

lemma map_put_law:
  assumes inv: "vmap_inv t m" and k: "map_key_ok t k" and put: "map_store_put mem k v m = Some m'"
  shows "vmap_inv t m' \<and>
    (\<forall>k'. map_key_ok t k' \<longrightarrow> vtm_map_get m' k' = (if mk_data k' = mk_data k then Some v else vtm_map_get m k'))"
proof -
  define i where "i = bucket_index (elem_hash t (mk_data k)) (length (m_buckets m))"
  define e where "e = \<lparr>me_key = mk_data k, me_value = v\<rparr>"
  have mem: "mem" using put by (cases mem) (auto simp: map_store_put_def vtm_map_put_internal_def)
  have m': "m' = m\<lparr>m_buckets := (m_buckets m)[i := map_put_chain t e (m_buckets m ! i)]\<rparr>"
    using put mem map_put_eq [OF inv k, of v] by (simp add: map_store_put_def i_def e_def)
  have tinv: "table_inv (elem_key_ok t) (elem_hash t) id me_key (m_buckets m)"
    using inv by (simp add: vmap_inv_def)
  have ok: "elem_key_ok t (mk_data k)" using k by (simp add: map_key_ok_def mk_data_def)
  have upd: "chain_upd id me_key (mk_data k) (Some e) (m_buckets m ! i) (map_put_chain t e (m_buckets m ! i))"
    using put_chain_upd [of "m_buckets m ! i" t e] mt.table_chain [OF tinv, of "mk_data k"] ok
    by (simp add: e_def i_def)
  note tab = mt.table_upd [OF tinv ok upd [unfolded i_def], folded i_def]
  have inv': "vmap_inv t m'" using inv tab(1) ok by (simp add: vmap_inv_def m' e_def)
  have "vtm_map_get m' k' = (if mk_data k' = mk_data k then Some v else vtm_map_get m k')"
    if k': "map_key_ok t k'" for k'
    using tab(2) [of "mk_data k'"] k' ok map_get_table [OF inv' k'] map_get_table [OF inv k']
    by (simp add: m' e_def map_key_ok_def mk_data_def)
  then show ?thesis using inv' by blast
qed

lemma map_del_law:
  assumes inv: "vmap_inv t m" and k: "map_key_ok t k"
  shows "vmap_inv t (map_store_del k m) \<and>
    (\<forall>k'. map_key_ok t k' \<longrightarrow> vtm_map_get (map_store_del k m) k'
       = (if mk_data k' = mk_data k then None else vtm_map_get m k'))"
proof -
  define i where "i = bucket_index (elem_hash t (mk_data k)) (length (m_buckets m))"
  define es where "es = (case chain_pos (elem_cmp t) me_key (mk_data k) (m_buckets m ! i) of
      Some p \<Rightarrow> take p (m_buckets m ! i) @ drop (Suc p) (m_buckets m ! i) | None \<Rightarrow> m_buckets m ! i)"
  define m' where "m' = m\<lparr>m_buckets := (m_buckets m)[i := es]\<rparr>"
  have del: "map_store_del k m = m'"
    by (auto simp: map_store_del_def vtm_map_remove_def vtm_map_remove_internal_def node_pos [OF inv k]
        m'_def es_def i_def Let_def split: option.split)
  have tinv: "table_inv (elem_key_ok t) (elem_hash t) id me_key (m_buckets m)"
    using inv by (simp add: vmap_inv_def)
  note ch = mt.table_chain [OF tinv, of "mk_data k", folded i_def]
  have ok: "elem_key_ok t (mk_data k)" using k by (simp add: map_key_ok_def mk_data_def)
  have upd: "chain_upd id me_key (mk_data k) None (m_buckets m ! i) es"
    using mt.chain_upd_remove [OF ch(2, 3) ok] mt.chain_upd_none [OF ch(2, 3) ok]
    by (auto simp: es_def split: option.split)
  note tab = mt.table_upd [OF tinv ok upd [unfolded i_def], folded i_def]
  have inv': "vmap_inv t m'" using inv tab(1) by (simp add: vmap_inv_def m'_def)
  have "vtm_map_get m' k' = (if mk_data k' = mk_data k then None else vtm_map_get m k')"
    if k': "map_key_ok t k'" for k'
    using tab(2) [of "mk_data k'"] k' map_get_table [OF inv' k'] map_get_table [OF inv k']
    by (simp add: m'_def map_key_ok_def mk_data_def)
  then show ?thesis using inv' del by simp
qed

interpretation vm: kv_store "vmap_inv t" "map_key_ok t" mk_data vtm_map_get "map_store_put mem"
  map_store_del for t mem
  by unfold_locales (simp_all add: map_put_law map_del_law)

lemma map_new_inv:
  assumes "vtm_map_new mem ma t vt capacity = Some (Inr m)"
  shows "vmap_inv t m" and "\<forall>k. map_key_ok t k \<longrightarrow> vtm_map_get m k = Map.empty (mk_data k)"
proof -
  obtain bc where bc: "map_bucket_count 1 capacity = Some bc"
    and m: "m = \<lparr>m_keytype = t, m_valuetype = vt, m_buckets = replicate (unat bc) [],
      m_bucket_count = bc, m_key_cmp = vtm_elem_get_cmp_fn t, m_free_val = False\<rparr>"
    using assms by (auto simp: vtm_map_new_def split: if_splits option.splits)
  have "unat bc \<noteq> 0"
  proof (cases "unat capacity \<le> 2 ^ 63")
    case True
    then obtain j where j: "j \<le> 63" "bc = of_nat (2 ^ j)"
      using map_bucket_count_pow [of 0 capacity] bc by auto
    have "(2 :: nat) ^ j < 2 ^ 64" using j(1) by (intro power_strict_increasing) auto
    then have "unat bc = 2 ^ j" unfolding j(2) by (intro unat_of_nat_small) simp
    then show ?thesis by simp
  next
    case False
    then show ?thesis using bc map_bucket_count_big by simp
  qed
  then show inv: "vmap_inv t m" by (simp add: m vmap_inv_def table_inv_def)
  have "m_buckets m ! bucket_index h (length (m_buckets m)) = []" for h
    using \<open>unat bc \<noteq> 0\<close> by (simp add: m bucket_index_def)
  then show "\<forall>k. map_key_ok t k \<longrightarrow> vtm_map_get m k = Map.empty (mk_data k)"
    using map_get_table [OF inv] by (simp add: table_get_def chain_get_def)
qed

lemma map_run_total: "\<exists>m'. kv_run (map_store_put True) map_store_del ops m = Some m'"
proof (induction ops arbitrary: m)
  case Nil
  then show ?case by simp
next
  case (Cons op ops)
  have "map_store_put True k v m \<noteq> None" for k v
    by (auto simp: map_store_put_def vtm_map_put_internal_def Let_def split: option.splits)
  then show ?case using Cons by (cases op) (auto split: option.splits)
qed

text \<open>
  C2. A map refines a finite map: after any sequence of puts and removals on a new map, looking up a
  key finds exactly the value last put under it and not removed since, whatever the bucket count and
  however keys collide. Integer, boolean, string, block and pointer keys are covered.
\<close>

theorem map_refines:
  assumes "vtm_map_new True ma t vt capacity = Some (Inr m)"
    and "list_all (map_key_ok t \<circ> kv_key) ops" and "map_key_ok t k"
  shows "\<exists>m'. kv_run (map_store_put True) map_store_del ops m = Some m'
    \<and> vmap_inv t m' \<and> vtm_map_get m' k = kv_spec mk_data ops Map.empty (mk_data k)"
proof -
  obtain m' where m': "kv_run (map_store_put True) map_store_del ops m = Some m'"
    using map_run_total by blast
  then show ?thesis
    using vm.run_refines [OF map_new_inv(1) [OF assms(1)] assms(2) map_new_inv(2) [OF assms(1)] m'] assms(3)
    by blast
qed

lemma map_key_from_int_ok: "map_key_ok VTM_ELEM_INT (vtm_map_key_from_int v)"
  by (simp add: map_key_ok_def vtm_map_key_from_int_def VTM_MAP_KEY_NUM_def elem_key_ok_def elem_hash_def)

lemma map_key_from_str_ok: "map_key_ok VTM_ELEM_STRING (vtm_map_key_from_str v)"
  by (simp add: map_key_ok_def vtm_map_key_from_str_def elem_key_ok_def elem_hash_def vtm_hash_elem_str_def)

lemma mk_data_from_int [simp]: "mk_data (vtm_map_key_from_int v) = Elem_int v"
  by (simp add: mk_data_def vtm_map_key_from_int_def VTM_MAP_KEY_NUM_def)

theorem map_refines_witness:
  "\<exists>m m'. vtm_map_new True alloc_all VTM_ELEM_INT VTM_ELEM_INT 1 = Some (Inr m)
     \<and> kv_run (map_store_put True) map_store_del
         [KPut (vtm_map_key_from_int 1) (Elem_int 7), KPut (vtm_map_key_from_int 2) (Elem_int 8),
          KDel (vtm_map_key_from_int 1)] m = Some m'
     \<and> vtm_map_get m' (vtm_map_key_from_int 2) = Some (Elem_int 8)"
proof -
  define m where "m = \<lparr>m_keytype = VTM_ELEM_INT, m_valuetype = VTM_ELEM_INT, m_buckets = [[]],
    m_bucket_count = 1, m_key_cmp = vtm_elem_get_cmp_fn VTM_ELEM_INT, m_free_val = False\<rparr>"
  have new: "vtm_map_new True alloc_all VTM_ELEM_INT VTM_ELEM_INT 1 = Some (Inr m)"
    by (simp add: vtm_map_new_def map_bucket_count.simps alloc_all_def m_def)
  show ?thesis
    using map_refines [OF new, of "[KPut (vtm_map_key_from_int 1) (Elem_int 7),
      KPut (vtm_map_key_from_int 2) (Elem_int 8), KDel (vtm_map_key_from_int 1)]" "vtm_map_key_from_int 2"] new
    by (auto simp: map_key_from_int_ok simp del: kv_run.simps)
qed

subsection \<open>Memory\<close>

text \<open>The nodes among what was freed.\<close>

fun freed_nodes :: "map_freed list \<Rightarrow> vtm_map_entry multiset" where
  "freed_nodes [] = {#}"
| "freed_nodes (Freed_node e # fs) = add_mset e (freed_nodes fs)"
| "freed_nodes (f # fs) = freed_nodes fs"

lemma freed_nodes_append [simp]: "freed_nodes (xs @ ys) = freed_nodes xs + freed_nodes ys"
  by (induction xs rule: freed_nodes.induct) auto

lemma freed_nodes_free [simp]: "freed_nodes (vtm_map_node_free m e) = {#e#}"
  by (simp add: vtm_map_node_free_def)

lemma freed_nodes_concat: "freed_nodes (concat (map (vtm_map_node_free m) es)) = mset es"
  by (induction es) auto

lemma mset_put_chain:
  "mset (map_put_chain t e es)
     + (case chain_pos (elem_cmp t) me_key (me_key e) es of Some p \<Rightarrow> {#es ! p#} | None \<Rightarrow> {#})
   = mset es + {#e#}"
  by (auto simp: map_put_chain_def mset_update dest: chain_pos_SomeD split: option.split)

lemma map_conserves_aux:
  assumes "vmap_inv t m" and "map_key_ok t k"
  shows "vtm_map_put_internal True m k v = (rc, m', fr) \<Longrightarrow>
      mset (vtm_map_entryset m') + freed_nodes fr
        = mset (vtm_map_entryset m) + {#\<lparr>me_key = mk_data k, me_value = v\<rparr>#}"
    and "vtm_map_remove m k = (r, m'', fr') \<Longrightarrow>
      mset (vtm_map_entryset m'') + freed_nodes fr' = mset (vtm_map_entryset m)"
    and "freed_nodes (fst (vtm_map_clear m)) = mset (vtm_map_entryset m)"
proof -
  define i where "i = bucket_index (elem_hash t (mk_data k)) (length (m_buckets m))"
  define e where "e = \<lparr>me_key = mk_data k, me_value = v\<rparr>"
  have tinv: "table_inv (elem_key_ok t) (elem_hash t) id me_key (m_buckets m)"
    using assms(1) by (simp add: vmap_inv_def)
  have i: "i < length (m_buckets m)" using mt.table_chain(1) [OF tinv] by (simp add: i_def)
  note upd = mset_concat_update [OF i]
  show "freed_nodes (fst (vtm_map_clear m)) = mset (vtm_map_entryset m)"
    by (simp add: vtm_map_clear_def vtm_map_entryset_def freed_nodes_concat)
  show "mset (vtm_map_entryset m') + freed_nodes fr = mset (vtm_map_entryset m) + {#e#}"
    if "vtm_map_put_internal True m k v = (rc, m', fr)"
  proof -
    have fr: "freed_nodes fr = (case chain_pos (elem_cmp t) me_key (mk_data k) (m_buckets m ! i) of
        Some p \<Rightarrow> {#m_buckets m ! i ! p#} | None \<Rightarrow> {#})"
      and m': "m_buckets m' = (m_buckets m)[i := map_put_chain t e (m_buckets m ! i)]"
      using that map_put_eq [OF assms, of v] by (auto simp: i_def e_def split: option.split)
    have "mset (concat (m_buckets m')) + freed_nodes fr = mset (concat (m_buckets m)) + {#e#}"
      unfolding m' fr using mset_put_chain [of t e "m_buckets m ! i"]
      by (intro mset_balance [OF upd]) (simp add: e_def)
    then show ?thesis by (simp add: vtm_map_entryset_def)
  qed
  show "mset (vtm_map_entryset m'') + freed_nodes fr' = mset (vtm_map_entryset m)"
    if "vtm_map_remove m k = (r, m'', fr')"
  proof (cases "chain_pos (elem_cmp t) me_key (mk_data k) (m_buckets m ! i)")
    case None
    then show ?thesis using that
      by (auto simp: vtm_map_remove_def vtm_map_remove_internal_def node_pos [OF assms] i_def)
  next
    case (Some p)
    let ?es = "m_buckets m ! i"
    have p: "p < length ?es" using chain_pos_SomeD [OF Some] by simp
    have "m_buckets m'' = (m_buckets m)[i := take p ?es @ drop (Suc p) ?es]"
      "freed_nodes fr' = {#?es ! p#}"
      using that Some
      by (auto simp: vtm_map_remove_def vtm_map_remove_internal_def node_pos [OF assms] i_def Let_def)
    then have "mset (concat (m_buckets m'')) + freed_nodes fr' = mset (concat (m_buckets m)) + {#}"
      using mset_remove_nth [OF p] by (simp only:) (intro mset_balance [OF upd], simp)
    then show ?thesis by (simp add: vtm_map_entryset_def)
  qed
qed

text \<open>A cleared map is an empty map of the same kind, and releasing it releases no node again.\<close>

lemma map_clear_empty:
  assumes "vmap_inv t m"
  shows "vmap_inv t (snd (vtm_map_clear m))" and "vtm_map_entryset (snd (vtm_map_clear m)) = []"
    and "vtm_map_free (Some (snd (vtm_map_clear m))) = []"
proof -
  have "concat (map (\<lambda>_. []) bs) = []" for bs :: "vtm_map_entry list list" by (induction bs) simp_all
  then show "vtm_map_entryset (snd (vtm_map_clear m)) = []" "vtm_map_free (Some (snd (vtm_map_clear m))) = []"
    by (simp_all add: vtm_map_clear_def vtm_map_entryset_def vtm_map_free_def)
  show "vmap_inv t (snd (vtm_map_clear m))"
    using assms by (auto simp: vmap_inv_def table_inv_def vtm_map_clear_def)
qed

text \<open>
  C27. No node is lost and none is freed that is still in use: the entries after a put, together with
  the nodes freed by it, are the entries before and the new one; the entries after a removal, together
  with the nodes freed by it, are the entries before; clearing the map frees every entry once and leaves
  an empty map that keeps the invariant, so that freeing it later frees nothing a second time; and freeing a
  map that has not been cleared frees every entry once.
\<close>

theorem map_conserves_nodes:
  assumes "vmap_inv t m" and "map_key_ok t k"
  shows "(let (rc, m', fr) = vtm_map_put_internal True m k v
          in mset (vtm_map_entryset m') + freed_nodes fr
               = mset (vtm_map_entryset m) + {#\<lparr>me_key = mk_data k, me_value = v\<rparr>#})
     \<and> (let (r, m', fr) = vtm_map_remove m k
         in mset (vtm_map_entryset m') + freed_nodes fr = mset (vtm_map_entryset m))
     \<and> freed_nodes (fst (vtm_map_clear m)) = mset (vtm_map_entryset m)
     \<and> vtm_map_entryset (snd (vtm_map_clear m)) = [] \<and> vmap_inv t (snd (vtm_map_clear m))
     \<and> vtm_map_free (Some (snd (vtm_map_clear m))) = []
     \<and> freed_nodes (vtm_map_free (Some m)) = mset (vtm_map_entryset m)"
  using map_conserves_aux [OF assms] map_clear_empty [OF assms(1)] by (auto simp: vtm_map_free_def split: prod.split)

definition map_example :: vtm_map where
  "map_example =
     \<lparr>m_keytype = VTM_ELEM_INT, m_valuetype = VTM_ELEM_INT,
      m_buckets = [[\<lparr>me_key = Elem_int 1, me_value = Elem_int 7\<rparr>]],
      m_bucket_count = 1, m_key_cmp = vtm_elem_get_cmp_fn VTM_ELEM_INT, m_free_val = False\<rparr>"

theorem map_conserves_nodes_witness:
  "let (rc, m', fr) = vtm_map_put_internal True map_example (vtm_map_key_from_int 1) (Elem_int 8)
   in mset (vtm_map_entryset m') + freed_nodes fr
        = mset (vtm_map_entryset map_example) + {#\<lparr>me_key = Elem_int 1, me_value = Elem_int 8\<rparr>#}
     \<and> freed_nodes (fst (vtm_map_clear map_example)) = {#\<lparr>me_key = Elem_int 1, me_value = Elem_int 7\<rparr>#}
     \<and> vtm_map_free (Some (snd (vtm_map_clear map_example))) = []"
proof -
  have "vmap_inv VTM_ELEM_INT map_example"
    by (simp add: map_example_def vmap_inv_def table_inv_def elem_key_ok_def bucket_index_def)
  moreover have "mset (vtm_map_entryset map_example) = {#\<lparr>me_key = Elem_int 1, me_value = Elem_int 7\<rparr>#}"
    by (simp add: map_example_def vtm_map_entryset_def)
  ultimately show ?thesis using map_conserves_nodes [OF _ map_key_from_int_ok, of map_example 1 "Elem_int 8"]
    by (simp add: split_beta)
qed

subsection \<open>Floating point keys\<close>

text \<open>
  A map with \<open>float\<close> keys can lose an entry: \<open>0.0\<close> and \<open>-0.0\<close> compare equal, but they hash
  differently, so a value put under one is not found under the other in a map of 256 buckets.
\<close>

theorem map_float_key_lost:
  "vtm_elem_cmp_float (Elem_float 0) (Elem_float 0x80000000)
   \<and> (\<exists>m m'. vtm_map_new True alloc_all VTM_ELEM_FLOAT VTM_ELEM_INT 256 = Some (Inr m)
       \<and> map_store_put True (vtm_map_key_from_float 0) (Elem_int 1) m = Some m'
       \<and> vtm_map_get m' (vtm_map_key_from_float 0) = Some (Elem_int 1)
       \<and> vtm_map_get m' (vtm_map_key_from_float 0x80000000) = None)"
proof -
  have h0: "vtm_hash_elem_float (Elem_float 0) = 0xa31c89c7"
    and h1: "vtm_hash_elem_float (Elem_float 0x80000000) = 0x5ce37647"
    by (simp_all add: vtm_hash_elem_float_def vtm_hash_mem_def mem_of_def hash_step_def
        VTM_HASH_INIT_def)
  have bc: "map_bucket_count 1 256 = Some 256"
    by (simp add: map_bucket_count.simps [of 1] map_bucket_count.simps [of 2]
        map_bucket_count.simps [of 4] map_bucket_count.simps [of 8] map_bucket_count.simps [of 16]
        map_bucket_count.simps [of 32] map_bucket_count.simps [of 64] map_bucket_count.simps [of 128]
        map_bucket_count.simps [of 256])
  define m where "m = \<lparr>m_keytype = VTM_ELEM_FLOAT, m_valuetype = VTM_ELEM_INT,
    m_buckets = replicate 256 [], m_bucket_count = 256,
    m_key_cmp = vtm_elem_get_cmp_fn VTM_ELEM_FLOAT, m_free_val = False\<rparr>"
  have new: "vtm_map_new True alloc_all VTM_ELEM_FLOAT VTM_ELEM_INT 256 = Some (Inr m)"
    by (simp add: vtm_map_new_def bc alloc_all_def m_def)
  show ?thesis
    using new
    by (simp add: m_def map_store_put_def vtm_map_put_internal_def vtm_map_key_from_float_def
        VTM_MAP_KEY_NUM_def h0 h1 vtm_map_calc_index_def Let_def vtm_map_get_def vtm_map_get_internal_def
        vtm_map_get_node_pos_def vtm_map_find_node_pos_def vtm_map_find_bucket_node_pos_def
        vtm_elem_cmp_float_def f32_eq_def f32_decode_def f_is_zero_def)
qed

end
