(* ===== verification/Squeue.thy ===== *)
theory Squeue
  imports Interfaces
begin

text \<open>
  The intrusive queue of \<open>core/squeue.h\<close>, which the socket servers keep their events and sockets in.
  Nodes are addresses (NULL is 0), and the store holds the \<open>next\<close> member of every node.
\<close>

record vtm_squeue =
  sq_next :: "u64 \<Rightarrow> u64"
  sq_head :: u64
  sq_tail :: u64

definition VTM_SQUEUE_INIT :: "vtm_squeue \<Rightarrow> vtm_squeue" where
  "VTM_SQUEUE_INIT q = q\<lparr>sq_head := 0, sq_tail := 0\<rparr>"

definition VTM_SQUEUE_ADD :: "u64 \<Rightarrow> vtm_squeue \<Rightarrow> vtm_squeue" where
  "VTM_SQUEUE_ADD node q =
     (let nx = (sq_next q)(node := 0);
          nx = (if sq_tail q \<noteq> 0 then nx(sq_tail q := node) else nx)
      in \<lparr>sq_next = nx, sq_head = (if sq_head q = 0 then node else sq_head q), sq_tail = node\<rparr>)"

definition VTM_SQUEUE_POLL :: "vtm_squeue \<Rightarrow> u64 \<times> vtm_squeue" where
  "VTM_SQUEUE_POLL q =
     (let node = sq_head q
      in (node,
          if sq_head q \<noteq> 0
          then q\<lparr>sq_head := sq_next q (sq_head q), sq_tail := (if sq_tail q = node then 0 else sq_tail q)\<rparr>
          else q))"

text \<open>The function called with the removed node is left to the caller.\<close>

definition VTM_SQUEUE_REMOVE :: "u64 \<Rightarrow> u64 \<Rightarrow> vtm_squeue \<Rightarrow> vtm_squeue" where
  "VTM_SQUEUE_REMOVE node prev q =
     (let q1 = (if prev \<noteq> 0 then q\<lparr>sq_next := (sq_next q)(prev := sq_next q node)\<rparr>
                else q\<lparr>sq_head := sq_next q node\<rparr>)
      in if node = sq_tail q1 then q1\<lparr>sq_tail := prev\<rparr> else q1)"

definition VTM_SQUEUE_IS_EMPTY :: "vtm_squeue \<Rightarrow> bool" where
  "VTM_SQUEUE_IS_EMPTY q \<longleftrightarrow> sq_head q = 0"

text \<open>The nodes a walk along the \<open>next\<close> members visits; \<open>None\<close> when it never ends.\<close>

partial_function (option) sq_walk :: "(u64 \<Rightarrow> u64) \<Rightarrow> u64 \<Rightarrow> u64 list option" where
  "sq_walk nx p =
     (if p = 0 then Some [] else Option.bind (sq_walk nx (nx p)) (\<lambda>ps. Some (p # ps)))"

definition VTM_SQUEUE_FOR_EACH :: "vtm_squeue \<Rightarrow> u64 list option" where
  "VTM_SQUEUE_FOR_EACH q = sq_walk (sq_next q) (sq_head q)"

text \<open>\<open>VTM_SQUEUE_CLEAR\<close> also returns the nodes its function is called with.\<close>

definition VTM_SQUEUE_CLEAR :: "vtm_squeue \<Rightarrow> u64 list option \<times> vtm_squeue" where
  "VTM_SQUEUE_CLEAR q = (VTM_SQUEUE_FOR_EACH q, q\<lparr>sq_head := 0, sq_tail := 0\<rparr>)"

subsection \<open>Paths\<close>

fun sq_path :: "(u64 \<Rightarrow> u64) \<Rightarrow> u64 \<Rightarrow> u64 list \<Rightarrow> u64 \<Rightarrow> bool" where
  "sq_path nx p [] q \<longleftrightarrow> p = q"
| "sq_path nx p (x # xs) q \<longleftrightarrow> p = x \<and> x \<noteq> 0 \<and> sq_path nx (nx x) xs q"

lemma sq_path_append:
  "sq_path nx p (xs @ ys) q \<longleftrightarrow> (\<exists>r. sq_path nx p xs r \<and> sq_path nx r ys q)"
  by (induction xs arbitrary: p) auto

lemma sq_path_upd [simp]: "x \<notin> set xs \<Longrightarrow> sq_path (nx(x := v)) p xs q = sq_path nx p xs q"
  by (induction xs arbitrary: p) auto

lemma sq_walk_path: "sq_path nx p xs 0 \<Longrightarrow> sq_walk nx p = Some xs"
  by (induction xs arbitrary: p) (auto simp: sq_walk.simps)

definition sq_queue :: "vtm_squeue \<Rightarrow> u64 list \<Rightarrow> bool" where
  "sq_queue q xs \<longleftrightarrow>
     sq_path (sq_next q) (sq_head q) xs 0 \<and> distinct xs
     \<and> sq_tail q = (if xs = [] then 0 else last xs)"

definition sq_inv :: "vtm_squeue \<Rightarrow> bool" where
  "sq_inv q \<longleftrightarrow> (\<exists>xs. sq_queue q xs)"

definition sq_items :: "vtm_squeue \<Rightarrow> u64 list" where
  "sq_items q = (case VTM_SQUEUE_FOR_EACH q of None \<Rightarrow> [] | Some xs \<Rightarrow> xs)"

lemma sq_queue_items: "sq_queue q xs \<Longrightarrow> sq_items q = xs"
  using sq_walk_path by (auto simp: sq_queue_def sq_items_def VTM_SQUEUE_FOR_EACH_def)

lemma sq_inv_queue: "sq_inv q \<Longrightarrow> sq_queue q (sq_items q)"
  using sq_queue_items by (auto simp: sq_inv_def)

lemma sq_queue_nonzero: "sq_path nx p xs q \<Longrightarrow> 0 \<notin> set xs"
  by (induction xs arbitrary: p) auto

lemma sq_add_queue:
  assumes "sq_queue q xs" and "x \<noteq> 0" and "x \<notin> set xs"
  shows "sq_queue (VTM_SQUEUE_ADD x q) (xs @ [x])"
proof (cases "xs = []")
  case True
  then show ?thesis using assms by (simp add: sq_queue_def VTM_SQUEUE_ADD_def Let_def)
next
  case False
  then obtain ys t where xs: "xs = ys @ [t]" by (metis append_butlast_last_id)
  then have t: "t \<noteq> 0" "t \<noteq> x" "t \<notin> set ys" "x \<notin> set ys"
    using assms sq_queue_nonzero [of "sq_next q" "sq_head q" xs 0] by (auto simp: sq_queue_def)
  have "sq_path (sq_next q) (sq_head q) ys t" "sq_tail q = t" "sq_head q \<noteq> 0"
    using assms(1) t(1) by (cases ys; auto simp: sq_queue_def xs sq_path_append)+
  then show ?thesis using assms t
    by (auto simp: sq_queue_def VTM_SQUEUE_ADD_def Let_def xs sq_path_append)
qed

lemma sq_poll_queue:
  assumes "sq_queue q (x # xs)"
  shows "fst (VTM_SQUEUE_POLL q) = x" and "sq_queue (snd (VTM_SQUEUE_POLL q)) xs"
proof -
  have "x \<notin> set xs" using assms by (simp add: sq_queue_def)
  then have "xs \<noteq> [] \<Longrightarrow> last xs \<noteq> x" using last_in_set by metis
  then show "fst (VTM_SQUEUE_POLL q) = x" and "sq_queue (snd (VTM_SQUEUE_POLL q)) xs"
    using assms by (auto simp: sq_queue_def VTM_SQUEUE_POLL_def Let_def)
qed

lemma sq_remove_queue:
  assumes "sq_queue q (xs @ x # ys)"
  shows "sq_queue (VTM_SQUEUE_REMOVE x (if xs = [] then 0 else last xs) q) (xs @ ys)"
proof (cases "xs = []")
  case True
  then show ?thesis using assms
    by (auto simp: sq_queue_def VTM_SQUEUE_REMOVE_def Let_def)
next
  case False
  then obtain zs t where xs: "xs = zs @ [t]" by (metis append_butlast_last_id)
  then have t: "t \<noteq> 0" "t \<noteq> x" "t \<notin> set zs" "t \<notin> set ys" "x \<notin> set ys"
    using assms sq_queue_nonzero [of "sq_next q" "sq_head q" "xs @ x # ys" 0] by (auto simp: sq_queue_def)
  then show ?thesis using assms
    by (auto simp: sq_queue_def VTM_SQUEUE_REMOVE_def Let_def xs sq_path_append)
qed

subsection \<open>First in, first out\<close>

definition sq_poll :: "vtm_squeue \<Rightarrow> u64 option \<times> vtm_squeue" where
  "sq_poll q = (let (node, q') = VTM_SQUEUE_POLL q in (if node = 0 then None else Some node, q'))"

interpretation sq: fifo_queue sq_inv sq_items VTM_SQUEUE_INIT VTM_SQUEUE_ADD sq_poll "\<lambda>x. x \<noteq> 0"
proof unfold_locales
  fix q :: vtm_squeue and x xs
  have "sq_queue (VTM_SQUEUE_INIT q) []" by (simp add: sq_queue_def VTM_SQUEUE_INIT_def)
  then show "sq_inv (VTM_SQUEUE_INIT q) \<and> sq_items (VTM_SQUEUE_INIT q) = []"
    using sq_queue_items sq_inv_def by blast
  assume inv: "sq_inv q"
  note q = sq_inv_queue [OF inv]
  show "sq_inv (VTM_SQUEUE_ADD x q) \<and> sq_items (VTM_SQUEUE_ADD x q) = sq_items q @ [x]"
    if "x \<noteq> 0" "x \<notin> set (sq_items q)"
    using sq_add_queue [OF q that] sq_queue_items sq_inv_def by blast
  show "fst (sq_poll q) = None \<and> sq_inv (snd (sq_poll q)) \<and> sq_items (snd (sq_poll q)) = []"
    if "sq_items q = []"
    using q that inv by (simp add: sq_poll_def VTM_SQUEUE_POLL_def sq_queue_def)
  show "fst (sq_poll q) = Some x \<and> sq_inv (snd (sq_poll q)) \<and> sq_items (snd (sq_poll q)) = xs"
    if "sq_items q = x # xs"
  proof -
    have "x \<noteq> 0" using q that by (simp add: sq_queue_def)
    then show ?thesis using sq_poll_queue [OF q [unfolded that]] sq_queue_items
      by (auto simp: sq_poll_def split_beta sq_inv_def)
  qed
qed

text \<open>
  C12. The queue is first in, first out: after initialising it over any memory and adding distinct
  nodes, polling returns the nodes in the order they were added, and NULL from then on.
\<close>

theorem squeue_fifo:
  assumes "distinct xs" and "list_all (\<lambda>x. x \<noteq> 0) xs"
  shows "poll_n sq_poll (length xs + n) (fold VTM_SQUEUE_ADD xs (VTM_SQUEUE_INIT q))
    = map Some xs @ replicate n None"
  using assms by (rule sq.poll_after_add_all)

theorem squeue_fifo_witness:
  "poll_n sq_poll (length [16, 32, 24 :: u64] + 1) (fold VTM_SQUEUE_ADD [16, 32, 24]
     (VTM_SQUEUE_INIT \<lparr>sq_next = (\<lambda>_. 7), sq_head = 1, sq_tail = 2\<rparr>))
   = map Some [16, 32, 24] @ replicate 1 None"
  by (rule squeue_fifo) simp_all

text \<open>
  Removing a node, given its predecessor, takes exactly that node out of the queue and keeps the
  head, the tail and the order of the others right, wherever in the queue the node was.
\<close>

theorem squeue_remove:
  assumes "sq_inv q" and "sq_items q = xs @ x # ys"
  shows "sq_inv (VTM_SQUEUE_REMOVE x (if xs = [] then 0 else last xs) q)
    \<and> VTM_SQUEUE_FOR_EACH (VTM_SQUEUE_REMOVE x (if xs = [] then 0 else last xs) q) = Some (xs @ ys)"
proof -
  let ?q = "VTM_SQUEUE_REMOVE x (if xs = [] then 0 else last xs) q"
  have q: "sq_queue ?q (xs @ ys)"
    using sq_remove_queue sq_inv_queue [OF assms(1)] unfolding assms(2) by blast
  then have "VTM_SQUEUE_FOR_EACH ?q = Some (xs @ ys)"
    unfolding sq_queue_def VTM_SQUEUE_FOR_EACH_def by (intro sq_walk_path) simp
  then show ?thesis using q by (auto simp only: sq_inv_def)
qed

theorem squeue_remove_witness:
  "VTM_SQUEUE_FOR_EACH (VTM_SQUEUE_REMOVE 24 16
     \<lparr>sq_next = (\<lambda>_. 0)(16 := 24), sq_head = 16, sq_tail = 24\<rparr>) = Some [16]"
proof -
  have "sq_queue \<lparr>sq_next = (\<lambda>_. 0)(16 := 24), sq_head = 16, sq_tail = 24\<rparr> [16, 24]"
    by (simp add: sq_queue_def)
  then have "sq_inv \<lparr>sq_next = (\<lambda>_. 0)(16 := 24), sq_head = 16, sq_tail = 24\<rparr>"
    and "sq_items \<lparr>sq_next = (\<lambda>_. 0)(16 := 24), sq_head = 16, sq_tail = 24\<rparr> = [16] @ 24 # []"
    by (auto simp only: sq_inv_def append.simps dest: sq_queue_items)
  from squeue_remove [OF this] show ?thesis by simp
qed

end
