(* ===== verification/WsFrame.thy ===== *)
theory WsFrame
  imports Reader
begin

text \<open>
  The frames of the WebSocket protocol: \<open>net/http/ws.h\<close>, \<open>ws_frame.c\<close> and \<open>ws_message.c\<close>. A bit field
  of one bit is a \<open>bool\<close>, the opcode a word of four bits.
\<close>

definition VTM_WS_OPCODE_CONTINUE :: "4 word" where "VTM_WS_OPCODE_CONTINUE = 0"
definition VTM_WS_OPCODE_TEXT :: "4 word" where "VTM_WS_OPCODE_TEXT = 1"
definition VTM_WS_OPCODE_BINARY :: "4 word" where "VTM_WS_OPCODE_BINARY = 2"
definition VTM_WS_OPCODE_CLOSE :: "4 word" where "VTM_WS_OPCODE_CLOSE = 8"
definition VTM_WS_OPCODE_PING :: "4 word" where "VTM_WS_OPCODE_PING = 9"
definition VTM_WS_OPCODE_PONG :: "4 word" where "VTM_WS_OPCODE_PONG = 10"

definition VTM_WS_LEN7_MAX :: size_t where "VTM_WS_LEN7_MAX = 125"
definition VTM_WS_LEN16_MAX :: size_t where "VTM_WS_LEN16_MAX = 65535"
definition VTM_WS_LEN64_MAX :: size_t where "VTM_WS_LEN64_MAX = 9223372036854775807"
definition VTM_WS_LEN16_ID :: byte where "VTM_WS_LEN16_ID = 126"
definition VTM_WS_LEN64_ID :: byte where "VTM_WS_LEN64_ID = 127"

lemmas ws_consts =
  VTM_WS_OPCODE_CONTINUE_def VTM_WS_OPCODE_TEXT_def VTM_WS_OPCODE_BINARY_def VTM_WS_OPCODE_CLOSE_def
  VTM_WS_OPCODE_PING_def VTM_WS_OPCODE_PONG_def VTM_WS_LEN7_MAX_def VTM_WS_LEN16_MAX_def
  VTM_WS_LEN64_MAX_def VTM_WS_LEN16_ID_def VTM_WS_LEN64_ID_def

datatype vtm_ws_mode = VTM_WS_MODE_SERVER | VTM_WS_MODE_CLIENT

datatype vtm_ws_msg_type =
    VTM_WS_MSG_TEXT | VTM_WS_MSG_BINARY | VTM_WS_MSG_CLOSE | VTM_WS_MSG_PING | VTM_WS_MSG_PONG

text \<open>The value of an enumerator.\<close>

fun ws_msg_type_num :: "vtm_ws_msg_type \<Rightarrow> 4 word" where
  "ws_msg_type_num VTM_WS_MSG_TEXT = VTM_WS_OPCODE_TEXT"
| "ws_msg_type_num VTM_WS_MSG_BINARY = VTM_WS_OPCODE_BINARY"
| "ws_msg_type_num VTM_WS_MSG_CLOSE = VTM_WS_OPCODE_CLOSE"
| "ws_msg_type_num VTM_WS_MSG_PING = VTM_WS_OPCODE_PING"
| "ws_msg_type_num VTM_WS_MSG_PONG = VTM_WS_OPCODE_PONG"

text \<open>The connection a message came from is not part of the model.\<close>

record vtm_ws_msg =
  wm_type :: vtm_ws_msg_type
  wm_data :: "byte list"
  wm_len :: size_t

definition vtm_ws_msg_init :: "vtm_ws_msg_type \<Rightarrow> byte list \<Rightarrow> size_t \<Rightarrow> vtm_ws_msg" where
  "vtm_ws_msg_init type data len = \<lparr>wm_type = type, wm_data = data, wm_len = len\<rparr>"

text \<open>What is freed.\<close>

definition vtm_ws_msg_release :: "vtm_ws_msg \<Rightarrow> byte list" where
  "vtm_ws_msg_release msg = wm_data msg"

record vtm_ws_frame_desc =
  wf_fin :: bool
  wf_rsv1 :: bool
  wf_rsv2 :: bool
  wf_rsv3 :: bool
  wf_opcode :: "4 word"
  wf_masked :: bool
  wf_mask :: u32
  wf_len :: size_t

definition ws_len7 :: "size_t \<Rightarrow> byte" where
  "ws_len7 len =
     (if len > VTM_WS_LEN16_MAX then VTM_WS_LEN64_ID
      else if len > VTM_WS_LEN7_MAX then VTM_WS_LEN16_ID
      else ucast len)"

text \<open>The array \<open>header\<close> up to \<open>header_len\<close>.\<close>

definition ws_header :: "vtm_ws_frame_desc \<Rightarrow> byte list" where
  "ws_header desc =
     (let len7 = ws_len7 (wf_len desc);
          len16 = ucast (wf_len desc) :: u16;
          len64 = wf_len desc
      in [push_bit 7 (of_bool (wf_fin desc)) OR push_bit 6 (of_bool (wf_rsv1 desc))
            OR push_bit 5 (of_bool (wf_rsv2 desc)) OR push_bit 4 (of_bool (wf_rsv3 desc))
            OR (ucast (wf_opcode desc) AND 0x0f),
          push_bit 7 (of_bool (wf_masked desc)) OR (len7 AND 0x7f)]
         @ (if len7 = VTM_WS_LEN16_ID then [ucast (drop_bit 8 len16 AND 0xff), ucast (len16 AND 0xff)] else [])
         @ (if len7 = VTM_WS_LEN64_ID
            then [ucast (drop_bit 56 len64 AND 0xff), ucast (drop_bit 48 len64 AND 0xff),
                  ucast (drop_bit 40 len64 AND 0xff), ucast (drop_bit 32 len64 AND 0xff),
                  ucast (drop_bit 24 len64 AND 0xff), ucast (drop_bit 16 len64 AND 0xff),
                  ucast (drop_bit 8 len64 AND 0xff), ucast (len64 AND 0xff)]
            else [])
         @ (if wf_masked desc
            then [ucast (drop_bit 24 (wf_mask desc) AND 0xff), ucast (drop_bit 16 (wf_mask desc) AND 0xff),
                  ucast (drop_bit 8 (wf_mask desc) AND 0xff), ucast (wf_mask desc AND 0xff)]
            else []))"

definition vtm_ws_frame_write_header ::
    "allocator \<Rightarrow> vtm_buf \<Rightarrow> vtm_ws_frame_desc \<Rightarrow> vtm_rc \<times> vtm_buf" where
  "vtm_ws_frame_write_header ma buf desc =
     (if wf_len desc > VTM_WS_LEN64_MAX then (VTM_E_WS_INVALID_PAYLOAD_LEN, buf)
      else vtm_buf_putm ma buf (ws_header desc))"

definition ws_mask_uc :: "u32 \<Rightarrow> nat \<Rightarrow> byte" where
  "ws_mask_uc key i = ucast (drop_bit (24 - 8 * i) key AND 0xff)"

definition vtm_ws_frame_mask_payload :: "byte list \<Rightarrow> u32 \<Rightarrow> byte list" where
  "vtm_ws_frame_mask_payload dst key =
     map (\<lambda>i. dst ! i XOR ws_mask_uc key (i mod 4)) [0..<length dst]"

text \<open>Masking twice with the same key restores the payload.\<close>

lemma length_mask_payload [simp]: "length (vtm_ws_frame_mask_payload bs key) = length bs"
  by (simp add: vtm_ws_frame_mask_payload_def)

lemma mask_payload_twice: "vtm_ws_frame_mask_payload (vtm_ws_frame_mask_payload bs key) key = bs"
  by (rule nth_equalityI) (simp_all add: vtm_ws_frame_mask_payload_def xor.assoc)

text \<open>The bytes of a word, most significant first, and the word they make up.\<close>

lemma unat_drop_bit: "unat (drop_bit n (w :: 'a::len word)) = unat w div 2 ^ n"
proof -
  have "unat (drop_bit n w) = drop_bit n (take_bit LENGTH('a) (unat w))" by (rule unsigned_drop_bit_eq)
  then show ?thesis by (simp add: drop_bit_eq_div take_bit_nat_eq_self unat_less_2p)
qed

lemma ucast_byte: "(ucast (drop_bit n w AND 0xff) :: byte) = of_nat (unat (w :: 'a::len word) div 2 ^ n)"
proof -
  have "drop_bit n w AND 0xff = take_bit 8 (drop_bit n w)" by (simp add: take_bit_eq_mask mask_eq_exp_minus_1)
  then have "unat (ucast (drop_bit n w AND 0xff) :: byte) = unat (take_bit 8 (drop_bit n w)) mod 256"
    by (simp only: unsigned_ucast_eq len_num1 len_of_numeral_defs take_bit_eq_mod) simp
  also have "\<dots> = unat w div 2 ^ n mod 256"
    by (simp only: unsigned_take_bit_eq unat_drop_bit) (simp add: take_bit_eq_mod)
  finally show ?thesis by (intro word_unat_eq_iff [THEN iffD2]) simp
qed

lemma be_bytes_16: "[ucast (drop_bit 8 w AND 0xff), ucast (w AND 0xff)] = mem_of VTM_BYTEORDER_BE (w :: u16)"
  using ucast_byte [of 8 w] ucast_byte [of 0 w] by (simp add: mem_of_def)

lemma be_bytes_32:
  "[ucast (drop_bit 24 w AND 0xff), ucast (drop_bit 16 w AND 0xff), ucast (drop_bit 8 w AND 0xff), ucast (w AND 0xff)] = mem_of VTM_BYTEORDER_BE (w :: u32)"
  using ucast_byte [of 24 w] ucast_byte [of 16 w] ucast_byte [of 8 w] ucast_byte [of 0 w]
  by (simp add: mem_of_def div_mult2_eq [symmetric])

lemma be_bytes_64:
  "[ucast (drop_bit 56 w AND 0xff), ucast (drop_bit 48 w AND 0xff), ucast (drop_bit 40 w AND 0xff),
    ucast (drop_bit 32 w AND 0xff), ucast (drop_bit 24 w AND 0xff), ucast (drop_bit 16 w AND 0xff), ucast (drop_bit 8 w AND 0xff), ucast (w AND 0xff)] = mem_of VTM_BYTEORDER_BE (w :: u64)"
  using ucast_byte [of 56 w] ucast_byte [of 48 w] ucast_byte [of 40 w] ucast_byte [of 32 w]
    ucast_byte [of 24 w] ucast_byte [of 16 w] ucast_byte [of 8 w] ucast_byte [of 0 w]
  by (simp add: mem_of_def div_mult2_eq [symmetric])

lemma be_word_16: "push_bit 8 (ucast b0) + ucast b1 = (ucast (mem_read VTM_BYTEORDER_BE [b0, b1] :: u16) :: size_t)"
proof -
  have "unat b1 + 256 * unat b0 < 2 ^ 16" 
  proof -
    have "unat b1 + 256 * unat b0 < 65536" using unat_byte_less [of b0] unat_byte_less [of b1] by linarith
    then show ?thesis by simp
  qed
  then have u: "unat (mem_read VTM_BYTEORDER_BE [b0, b1] :: u16) = unat b1 + 256 * unat b0"
    by (simp add: mem_read_def del: of_nat_add of_nat_mult)
  have "(ucast (mem_read VTM_BYTEORDER_BE [b0, b1] :: u16) :: size_t) = of_nat (unat (mem_read VTM_BYTEORDER_BE [b0, b1] :: u16))"
    by simp
  also have "\<dots> = push_bit 8 (ucast b0) + ucast b1" unfolding u by (simp add: push_bit_eq_mult)
  finally show ?thesis by simp
qed

lemma be_word_32: "push_bit 24 (ucast b0) + push_bit 16 (ucast b1) + push_bit 8 (ucast b2) + ucast b3
   = (mem_read VTM_BYTEORDER_BE [b0, b1, b2, b3] :: u32)"
  by (simp add: mem_read_def push_bit_eq_mult distrib_left)

lemma be_word_64: "push_bit 56 (ucast b0) + push_bit 48 (ucast b1) + push_bit 40 (ucast b2) + push_bit 32 (ucast b3)
    + push_bit 24 (ucast b4) + push_bit 16 (ucast b5) + push_bit 8 (ucast b6) + ucast b7
   = (mem_read VTM_BYTEORDER_BE [b0, b1, b2, b3, b4, b5, b6, b7] :: u64)"
  by (simp add: mem_read_def push_bit_eq_mult distrib_left)

end
