(* ===== verification/WsParser.thy ===== *)
theory WsParser
  imports WsFrame
begin

text \<open>
  The parser of \<open>net/http/ws_parser.c\<close>: a state machine that collects the frames of a message, with
  control messages in between. \<open>wp_err\<close> is what \<open>vtm_err_set\<close> last stored. The memory of the message
  buffer is its bytes written so far; \<open>PFault\<close> is a copy that leaves the memory of the buffers.
\<close>

definition VTM_WS_PARSER_MSG_BUF_INIT :: size_t where
  "VTM_WS_PARSER_MSG_BUF_INIT = 1024"

definition VTM_WS_PARSER_MSG_BUF_MAX :: size_t where
  "VTM_WS_PARSER_MSG_BUF_MAX = 65536"

datatype vtm_ws_parser_stage =
    VTM_WS_PARSE_MSG_BEGIN | VTM_WS_PARSE_FRAME_BEGIN | VTM_WS_PARSE_FRAME_FIN_OPCODE
  | VTM_WS_PARSE_FRAME_MASK_LEN7 | VTM_WS_PARSE_FRAME_LEN16 | VTM_WS_PARSE_FRAME_LEN64
  | VTM_WS_PARSE_FRAME_MASK32 | VTM_WS_PARSE_FRAME_PAYLOAD | VTM_WS_PARSE_FRAME_FINISH_CTRL
  | VTM_WS_PARSE_FRAME_FINISH_DATA | VTM_WS_PARSE_FRAME_COMPLETE | VTM_WS_PARSE_MSG_COMPLETE
  | VTM_WS_PARSE_ERROR

record vtm_ws_parser =
  wp_mode :: vtm_ws_mode
  wp_stage :: vtm_ws_parser_stage
  wp_fin :: bool
  wp_rsv1 :: bool
  wp_rsv2 :: bool
  wp_rsv3 :: bool
  wp_opcode :: "4 word"
  wp_masked :: bool
  wp_payload_len :: size_t
  wp_payload_begin :: size_t
  wp_mask :: u32
  wp_msg_buf :: "byte list option"
  wp_msg_buf_size :: size_t
  wp_msg_buf_used :: size_t
  wp_msg_frame_count :: size_t
  wp_msg_type :: vtm_ws_msg_type
  wp_has_ctrl_msg :: bool
  wp_ctrl_msg :: vtm_ws_msg
  wp_err :: vtm_rc

definition vtm_ws_parser_init ::
    "allocator \<Rightarrow> vtm_ws_parser \<Rightarrow> vtm_ws_mode \<Rightarrow> vtm_rc \<times> vtm_ws_parser" where
  "vtm_ws_parser_init ma par mode =
     (if \<not> ma VTM_WS_PARSER_MSG_BUF_INIT
      then (VTM_E_MALLOC, par\<lparr>wp_msg_buf := None, wp_err := VTM_E_MALLOC\<rparr>)
      else (VTM_OK, par\<lparr>wp_msg_buf := Some [], wp_mode := mode, wp_stage := VTM_WS_PARSE_MSG_BEGIN,
              wp_msg_buf_size := VTM_WS_PARSER_MSG_BUF_INIT, wp_msg_buf_used := 0,
              wp_has_ctrl_msg := False\<rparr>))"

text \<open>What is freed.\<close>

definition vtm_ws_parser_release :: "vtm_ws_parser \<Rightarrow> byte list option" where
  "vtm_ws_parser_release par = wp_msg_buf par"

definition vtm_ws_parser_reset :: "vtm_ws_parser \<Rightarrow> vtm_ws_parser \<times> byte list option" where
  "vtm_ws_parser_reset par =
     (let par' = par\<lparr>wp_stage := VTM_WS_PARSE_MSG_BEGIN, wp_msg_buf_used := 0\<rparr>
      in if wp_has_ctrl_msg par
         then (par'\<lparr>wp_has_ctrl_msg := False\<rparr>, Some (vtm_ws_msg_release (wp_ctrl_msg par)))
         else (par', None))"

definition vtm_ws_parser_is_valid_opcode :: "4 word \<Rightarrow> bool" where
  "vtm_ws_parser_is_valid_opcode opcode \<longleftrightarrow>
     opcode = VTM_WS_OPCODE_CONTINUE \<or> opcode = VTM_WS_OPCODE_TEXT \<or> opcode = VTM_WS_OPCODE_BINARY
     \<or> opcode = VTM_WS_OPCODE_CLOSE \<or> opcode = VTM_WS_OPCODE_PING \<or> opcode = VTM_WS_OPCODE_PONG"

definition vtm_ws_parser_is_control_opcode :: "4 word \<Rightarrow> bool" where
  "vtm_ws_parser_is_control_opcode opcode \<longleftrightarrow>
     opcode = VTM_WS_OPCODE_CLOSE \<or> opcode = VTM_WS_OPCODE_PING \<or> opcode = VTM_WS_OPCODE_PONG"

text \<open>\<open>None\<close>: the program is aborted.\<close>

definition vtm_ws_parser_convert_opcode :: "4 word \<Rightarrow> vtm_ws_msg_type option" where
  "vtm_ws_parser_convert_opcode opcode =
     (if opcode = VTM_WS_OPCODE_TEXT then Some VTM_WS_MSG_TEXT
      else if opcode = VTM_WS_OPCODE_BINARY then Some VTM_WS_MSG_BINARY
      else if opcode = VTM_WS_OPCODE_CLOSE then Some VTM_WS_MSG_CLOSE
      else if opcode = VTM_WS_OPCODE_PING then Some VTM_WS_MSG_PING
      else if opcode = VTM_WS_OPCODE_PONG then Some VTM_WS_MSG_PONG
      else None)"

text \<open>\<open>goto invalid\<close>, after \<open>vtm_err_set (rc)\<close>.\<close>

definition ws_invalid :: "vtm_rc \<Rightarrow> vtm_ws_parser \<Rightarrow> vtm_buf \<Rightarrow> (vtm_ws_parser, vtm_buf) pstep" where
  "ws_invalid rc par =
     PStop VTM_NET_RECV_STAT_INVALID (par\<lparr>wp_err := rc, wp_stage := VTM_WS_PARSE_ERROR\<rparr>)"

text \<open>The checks of the first byte of a frame, in their order.\<close>

definition ws_check_opcode :: "vtm_ws_parser \<Rightarrow> vtm_rc" where
  "ws_check_opcode par =
     (if wp_rsv1 par \<or> wp_rsv2 par \<or> wp_rsv3 par then VTM_E_WS_RSV_NONZERO
      else if \<not> vtm_ws_parser_is_valid_opcode (wp_opcode par) then VTM_E_WS_INVALID_OPCODE
      else if wp_opcode par \<ge> VTM_WS_OPCODE_CLOSE \<and> \<not> wp_fin par then VTM_E_WS_CTRL_MSG_FRAGMENTED
      else if wp_opcode par = VTM_WS_OPCODE_CONTINUE \<and> wp_msg_frame_count par < 1
      then VTM_E_WS_BAD_CONTINUE_FRAME
      else if wp_msg_frame_count par > 0 \<and> wp_opcode par > VTM_WS_OPCODE_CONTINUE
              \<and> wp_opcode par < VTM_WS_OPCODE_CLOSE
      then VTM_E_WS_MSG_NOT_CONTINUED
      else VTM_OK)"

definition ws_fin_opcode :: "vtm_ws_parser \<Rightarrow> byte \<Rightarrow> vtm_buf \<Rightarrow> (vtm_ws_parser, vtm_buf) pstep" where
  "ws_fin_opcode par c =
     (let par = par\<lparr>wp_fin := bit c 7, wp_rsv1 := bit c 6, wp_rsv2 := bit c 5, wp_rsv3 := bit c 4,
                    wp_opcode := ucast (c AND 0x0f)\<rparr>
      in if ws_check_opcode par \<noteq> VTM_OK then ws_invalid (ws_check_opcode par) par
         else if wp_msg_frame_count par = 0 \<and> wp_opcode par < VTM_WS_OPCODE_CLOSE
         then (case vtm_ws_parser_convert_opcode (wp_opcode par) of
                 None \<Rightarrow> (\<lambda>b. PFault)
               | Some t \<Rightarrow> PNext (par\<lparr>wp_msg_type := t, wp_stage := VTM_WS_PARSE_FRAME_MASK_LEN7\<rparr>))
         else PNext (par\<lparr>wp_stage := VTM_WS_PARSE_FRAME_MASK_LEN7\<rparr>))"

definition ws_mask_len7 :: "vtm_ws_parser \<Rightarrow> byte \<Rightarrow> vtm_buf \<Rightarrow> (vtm_ws_parser, vtm_buf) pstep" where
  "ws_mask_len7 par c =
     (let par = par\<lparr>wp_masked := bit c 7, wp_payload_len := ucast (c AND 0x7f)\<rparr>
      in if wp_mode par = VTM_WS_MODE_SERVER \<and> \<not> wp_masked par
         then ws_invalid VTM_E_WS_CLIENT_MSG_UNMASKED par
         else if wp_mode par = VTM_WS_MODE_CLIENT \<and> wp_masked par
         then ws_invalid VTM_E_WS_SERVER_MSG_MASKED par
         else PNext (par\<lparr>wp_stage :=
                (if wp_payload_len par = ucast VTM_WS_LEN16_ID then VTM_WS_PARSE_FRAME_LEN16
                 else if wp_payload_len par = ucast VTM_WS_LEN64_ID then VTM_WS_PARSE_FRAME_LEN64
                 else VTM_WS_PARSE_FRAME_MASK32)\<rparr>))"

text \<open>\<open>n\<close> times \<open>VTM_BUF_GETC\<close>.\<close>

primrec ws_getc_n :: "nat \<Rightarrow> vtm_buf \<Rightarrow> (byte list \<times> vtm_buf) option" where
  "ws_getc_n 0 b = Some ([], b)"
| "ws_getc_n (Suc n) b =
     (case VTM_BUF_GETC b of
        None \<Rightarrow> None
      | Some (c, b') \<Rightarrow> map_option (\<lambda>(cs, b''). (c # cs, b'')) (ws_getc_n n b'))"

definition ws_len16 :: "vtm_ws_parser \<Rightarrow> byte list \<Rightarrow> vtm_buf \<Rightarrow> (vtm_ws_parser, vtm_buf) pstep" where
  "ws_len16 par cs =
     (let par = par\<lparr>wp_payload_len := push_bit 8 (ucast (cs ! 0)) + ucast (cs ! 1)\<rparr>
      in if wp_payload_len par \<le> VTM_WS_LEN7_MAX then ws_invalid VTM_E_WS_INVALID_PAYLOAD_LEN par
         else PNext (par\<lparr>wp_stage := VTM_WS_PARSE_FRAME_MASK32\<rparr>))"

definition ws_len64 :: "vtm_ws_parser \<Rightarrow> byte list \<Rightarrow> vtm_buf \<Rightarrow> (vtm_ws_parser, vtm_buf) pstep" where
  "ws_len64 par cs =
     (let payload64 = push_bit 56 (ucast (cs ! 0)) + push_bit 48 (ucast (cs ! 1))
            + push_bit 40 (ucast (cs ! 2)) + push_bit 32 (ucast (cs ! 3)) + push_bit 24 (ucast (cs ! 4))
            + push_bit 16 (ucast (cs ! 5)) + push_bit 8 (ucast (cs ! 6)) + ucast (cs ! 7) :: u64
      in if bit payload64 31 then ws_invalid VTM_E_WS_INVALID_PAYLOAD_LEN par
         else if payload64 \<le> VTM_WS_LEN16_MAX then ws_invalid VTM_E_WS_INVALID_PAYLOAD_LEN par
         else if payload64 > SIZE_MAX then ws_invalid VTM_E_WS_INVALID_PAYLOAD_LEN par
         else PNext (par\<lparr>wp_payload_len := payload64, wp_stage := VTM_WS_PARSE_FRAME_MASK32\<rparr>))"

definition ws_mask32 :: "byte list \<Rightarrow> u32" where
  "ws_mask32 cs =
     push_bit 24 (ucast (cs ! 0)) + push_bit 16 (ucast (cs ! 1)) + push_bit 8 (ucast (cs ! 2)) + ucast (cs ! 3)"

text \<open>Unmasking \<open>len\<close> bytes of the buffer from \<open>begin\<close> on, and reading them.\<close>

definition ws_unmask :: "size_t \<Rightarrow> size_t \<Rightarrow> u32 \<Rightarrow> vtm_buf \<Rightarrow> (unit \<times> vtm_buf) option" where
  "ws_unmask begin len key b =
     (let i = unat begin; n = unat len
      in if i + n \<le> length (buf_data b)
         then Some ((), b\<lparr>buf_data := take i (buf_data b)
                 @ vtm_ws_frame_mask_payload (take n (drop i (buf_data b))) key
                 @ drop (i + n) (buf_data b)\<rparr>)
         else None)"

definition ws_payload :: "size_t \<Rightarrow> size_t \<Rightarrow> vtm_buf \<Rightarrow> (byte list \<times> vtm_buf) option" where
  "ws_payload begin len b =
     (if unat begin + unat len \<le> length (buf_data b)
      then Some (take (unat len) (drop (unat begin) (buf_data b)), b) else None)"

definition ws_frame_payload :: "vtm_ws_parser \<Rightarrow> vtm_buf \<Rightarrow> (vtm_ws_parser, vtm_buf) pstep" where
  "ws_frame_payload par b =
     (let (rc, b') = vtm_buf_mark_processed b (wp_payload_len par);
          par' = par\<lparr>wp_stage := (if vtm_ws_parser_is_control_opcode (wp_opcode par)
                                  then VTM_WS_PARSE_FRAME_FINISH_CTRL else VTM_WS_PARSE_FRAME_FINISH_DATA)\<rparr>
      in if rc \<noteq> VTM_OK then PStop VTM_NET_RECV_STAT_ERROR par b'
         else if wp_masked par
         then fetch (ws_unmask (wp_payload_begin par) (wp_payload_len par) (wp_mask par)) (\<lambda>_. PNext par') b'
         else PNext par' b')"

definition ws_finish_ctrl :: "allocator \<Rightarrow> vtm_ws_parser \<Rightarrow> vtm_buf \<Rightarrow> (vtm_ws_parser, vtm_buf) pstep" where
  "ws_finish_ctrl ma par =
     (if wp_has_ctrl_msg par then ws_invalid VTM_ERROR par
      else if \<not> ma (wp_payload_len par)
      then PStop VTM_NET_RECV_STAT_ERROR (par\<lparr>wp_err := VTM_E_MALLOC\<rparr>)
      else fetch (ws_payload (wp_payload_begin par) (wp_payload_len par)) (\<lambda>bs.
             case vtm_ws_parser_convert_opcode (wp_opcode par) of
               None \<Rightarrow> (\<lambda>b. PFault)
             | Some t \<Rightarrow>
                 PNext (par\<lparr>wp_ctrl_msg := vtm_ws_msg_init t bs (wp_payload_len par),
                            wp_has_ctrl_msg := True, wp_stage := VTM_WS_PARSE_FRAME_COMPLETE\<rparr>)))"

text \<open>\<open>memcpy\<close> to the message buffer, and the counters behind it.\<close>

definition ws_append :: "vtm_ws_parser \<Rightarrow> vtm_buf \<Rightarrow> (vtm_ws_parser, vtm_buf) pstep" where
  "ws_append par =
     (case wp_msg_buf par of
        None \<Rightarrow> (\<lambda>b. PFault)
      | Some m \<Rightarrow>
          if unat (wp_msg_buf_used par) + unat (wp_payload_len par) > unat (wp_msg_buf_size par)
          then (\<lambda>b. PFault)
          else fetch (ws_payload (wp_payload_begin par) (wp_payload_len par)) (\<lambda>bs.
                 PNext (par\<lparr>wp_msg_buf := Some (take (unat (wp_msg_buf_used par)) m @ bs),
                            wp_msg_buf_used := wp_msg_buf_used par + wp_payload_len par,
                            wp_msg_frame_count := wp_msg_frame_count par + 1,
                            wp_stage := VTM_WS_PARSE_FRAME_COMPLETE\<rparr>)))"

definition ws_finish_data :: "allocator \<Rightarrow> vtm_ws_parser \<Rightarrow> vtm_buf \<Rightarrow> (vtm_ws_parser, vtm_buf) pstep" where
  "ws_finish_data ma par =
     (if wp_msg_buf_size par - wp_msg_buf_used par < wp_payload_len par
      then
        if wp_msg_buf_size par < VTM_WS_PARSER_MSG_BUF_MAX
        then
          let par = par\<lparr>wp_msg_buf_size := wp_msg_buf_size par * 2\<rparr>
          in if \<not> ma (wp_msg_buf_size par)
             then PStop VTM_NET_RECV_STAT_ERROR (par\<lparr>wp_msg_buf := None, wp_err := VTM_E_MALLOC\<rparr>)
             else ws_append par
        else PStop VTM_NET_RECV_STAT_ERROR par
      else ws_append par)"

definition ws_parser_step :: "allocator \<Rightarrow> vtm_ws_parser \<Rightarrow> vtm_buf \<Rightarrow> (vtm_ws_parser, vtm_buf) pstep" where
  "ws_parser_step ma par buf =
     (case wp_stage par of
        VTM_WS_PARSE_MSG_BEGIN \<Rightarrow>
          PNext (par\<lparr>wp_msg_buf_used := 0, wp_msg_frame_count := 0, wp_msg_type := VTM_WS_MSG_CLOSE,
                     wp_stage := VTM_WS_PARSE_FRAME_BEGIN\<rparr>) buf
      | VTM_WS_PARSE_FRAME_BEGIN \<Rightarrow>
          PNext (par\<lparr>wp_payload_begin := 0, wp_payload_len := 0,
                     wp_stage := VTM_WS_PARSE_FRAME_FIN_OPCODE\<rparr>) buf
      | VTM_WS_PARSE_FRAME_FIN_OPCODE \<Rightarrow>
          need 1 (PStop VTM_NET_RECV_STAT_INVALID par buf) (fetch VTM_BUF_GETC (ws_fin_opcode par)) buf
      | VTM_WS_PARSE_FRAME_MASK_LEN7 \<Rightarrow>
          need 1 (PStop VTM_NET_RECV_STAT_AGAIN par buf) (fetch VTM_BUF_GETC (ws_mask_len7 par)) buf
      | VTM_WS_PARSE_FRAME_LEN16 \<Rightarrow>
          need 2 (PStop VTM_NET_RECV_STAT_AGAIN par buf) (fetch (ws_getc_n 2) (ws_len16 par)) buf
      | VTM_WS_PARSE_FRAME_LEN64 \<Rightarrow>
          need 8 (PStop VTM_NET_RECV_STAT_AGAIN par buf) (fetch (ws_getc_n 8) (ws_len64 par)) buf
      | VTM_WS_PARSE_FRAME_MASK32 \<Rightarrow>
          (let go = (\<lambda>key b. PNext (par\<lparr>wp_mask := key, wp_payload_begin := buf_read b,
                                        wp_stage := VTM_WS_PARSE_FRAME_PAYLOAD\<rparr>) b)
           in if wp_masked par
              then need 4 (PStop VTM_NET_RECV_STAT_AGAIN par buf)
                     (fetch (ws_getc_n 4) (\<lambda>cs. go (ws_mask32 cs))) buf
              else go (wp_mask par) buf)
      | VTM_WS_PARSE_FRAME_PAYLOAD \<Rightarrow>
          need (wp_payload_len par) (PStop VTM_NET_RECV_STAT_AGAIN par buf) (ws_frame_payload par) buf
      | VTM_WS_PARSE_FRAME_FINISH_CTRL \<Rightarrow> ws_finish_ctrl ma par buf
      | VTM_WS_PARSE_FRAME_FINISH_DATA \<Rightarrow> ws_finish_data ma par buf
      | VTM_WS_PARSE_FRAME_COMPLETE \<Rightarrow>
          (let buf = vtm_buf_discard_processed buf
           in if wp_has_ctrl_msg par
              then PStop VTM_NET_RECV_STAT_COMPLETE (par\<lparr>wp_stage := VTM_WS_PARSE_FRAME_BEGIN\<rparr>) buf
              else PNext (par\<lparr>wp_stage := (if wp_fin par then VTM_WS_PARSE_MSG_COMPLETE
                                           else VTM_WS_PARSE_FRAME_BEGIN)\<rparr>) buf)
      | VTM_WS_PARSE_MSG_COMPLETE \<Rightarrow>
          PStop VTM_NET_RECV_STAT_COMPLETE (par\<lparr>wp_stage := VTM_WS_PARSE_MSG_BEGIN\<rparr>) buf
      | VTM_WS_PARSE_ERROR \<Rightarrow> PStop VTM_NET_RECV_STAT_ERROR par buf)"

partial_function (option) vtm_ws_parser_run ::
    "allocator \<Rightarrow> vtm_ws_parser \<Rightarrow> vtm_buf \<Rightarrow> (vtm_net_recv_stat \<times> vtm_ws_parser \<times> vtm_buf) option" where
  "vtm_ws_parser_run ma par buf =
     (case ws_parser_step ma par buf of
        PNext par' buf' \<Rightarrow> vtm_ws_parser_run ma par' buf'
      | PStop stat par' buf' \<Rightarrow> Some (stat, par', buf')
      | PFault \<Rightarrow> None)"

text \<open>The message takes over the message buffer, and the parser gets a new one of the same size.\<close>

definition vtm_ws_parser_get_msg ::
    "allocator \<Rightarrow> vtm_ws_parser \<Rightarrow> vtm_rc \<times> vtm_ws_msg \<times> vtm_ws_parser" where
  "vtm_ws_parser_get_msg ma par =
     (if wp_has_ctrl_msg par then (VTM_OK, wp_ctrl_msg par, par\<lparr>wp_has_ctrl_msg := False\<rparr>)
      else
        let msg = vtm_ws_msg_init (wp_msg_type par)
              (case wp_msg_buf par of Some m \<Rightarrow> take (unat (wp_msg_buf_used par)) m | None \<Rightarrow> [])
              (wp_msg_buf_used par)
        in if \<not> ma (wp_msg_buf_size par)
           then (VTM_E_MALLOC, msg, par\<lparr>wp_msg_buf := None, wp_err := VTM_E_MALLOC\<rparr>)
           else (VTM_OK, msg, par\<lparr>wp_msg_buf := Some []\<rparr>))"

subsection \<open>Resuming\<close>

lemma ws_getc_n_mono [mono_intros]: "get_mono (ws_getc_n n)"
proof (induction n)
  case 0
  then show ?case by (auto simp: get_mono_def)
next
  case (Suc n)
  show ?case
    unfolding get_mono_def
  proof (intro allI impI)
    fix b d c x b'
    assume "vtm_buf_inv b" "buf_ext b d c" "ws_getc_n (Suc n) b = Some (x, b')"
    moreover from this obtain y b1 ys where "VTM_BUF_GETC b = Some (y, b1)" "ws_getc_n n b1 = Some (ys, b')" "x = y # ys"
      by (auto split: option.splits)
    moreover from calculation obtain c1 where "vtm_buf_inv b1" "buf_ext b1 d c1" "VTM_BUF_GETC c = Some (y, c1)"
      using get_mono_getc [unfolded get_mono_def] by blast
    moreover from calculation obtain c' where "vtm_buf_inv b'" "buf_ext b' d c'" "ws_getc_n n c1 = Some (ys, c')"
      using Suc.IH [unfolded get_mono_def] by blast
    ultimately show "vtm_buf_inv b' \<and> (\<exists>c'. buf_ext b' d c' \<and> ws_getc_n (Suc n) c = Some (x, c'))" by simp
  qed
qed

lemma ws_unmask_mono [mono_intros]: "get_mono (ws_unmask begin len key)"
  by (auto simp: get_mono_def ws_unmask_def Let_def buf_ext_def vtm_buf_inv_def split: if_splits)

lemma ws_payload_mono [mono_intros]: "get_mono (ws_payload begin len)"
  by (auto simp: get_mono_def ws_payload_def buf_ext_def split: if_splits)

text \<open>After the check, marking the payload as processed cannot overflow.\<close>

definition ws_take_payload :: "vtm_ws_parser \<Rightarrow> vtm_buf \<Rightarrow> (vtm_ws_parser, vtm_buf) pstep" where
  "ws_take_payload par =
     fetch (\<lambda>b. vtm_buf_getm b (wp_payload_len par)) (\<lambda>_.
       let par' = par\<lparr>wp_stage := (if vtm_ws_parser_is_control_opcode (wp_opcode par)
                        then VTM_WS_PARSE_FRAME_FINISH_CTRL else VTM_WS_PARSE_FRAME_FINISH_DATA)\<rparr>
       in if wp_masked par
          then fetch (ws_unmask (wp_payload_begin par) (wp_payload_len par) (wp_mask par)) (\<lambda>_. PNext par')
          else PNext par')"

lemma ws_frame_payload_eq:
  assumes "vtm_buf_inv b"
  shows "need (wp_payload_len par) stop (ws_frame_payload par) b =
    need (wp_payload_len par) stop (ws_take_payload par) b"
  using assms
  by (simp add: need_eq ws_frame_payload_def ws_take_payload_def vtm_buf_mark_processed_ok fetch_eq(2)
      buf_adv_def Let_def)

lemma ws_steps_mono [mono_intros]:
  "step_mono (ws_invalid rc par)" "step_mono (ws_fin_opcode par c)" "step_mono (ws_mask_len7 par c)"
  "step_mono (ws_len16 par cs)" "step_mono (ws_len64 par cs)" "step_mono (ws_take_payload par)"
  "step_mono (ws_finish_ctrl ma par)" "step_mono (ws_append par)"
proof -
  show inv: "step_mono (ws_invalid rc par)" for rc par unfolding ws_invalid_def by (intro mono_intros)
  note intros = mono_intros inv
  show "step_mono (ws_fin_opcode par c)" unfolding ws_fin_opcode_def Let_def by (intro intros)
  show "step_mono (ws_mask_len7 par c)" unfolding ws_mask_len7_def Let_def by (intro intros)
  show "step_mono (ws_len16 par cs)" unfolding ws_len16_def Let_def by (intro intros)
  show "step_mono (ws_len64 par cs)" unfolding ws_len64_def Let_def by (intro intros)
  show "step_mono (ws_take_payload par)" unfolding ws_take_payload_def Let_def by (intro intros)
  show "step_mono (ws_finish_ctrl ma par)" unfolding ws_finish_ctrl_def by (intro intros)
  show "step_mono (ws_append par)" unfolding ws_append_def by (intro intros)
qed

lemma ws_finish_data_mono: "step_mono (ws_finish_data ma par)"
  unfolding ws_finish_data_def Let_def by (intro mono_intros)

lemma ws_step_ext:
  assumes inv: "vtm_buf_inv b" and ext: "buf_ext b d c" and "ws_parser_step ma par b = PNext par' b'"
  shows "\<exists>c'. buf_ext b' d c' \<and> ws_parser_step ma par c = PNext par' c'"
proof -
  have inv': "vtm_buf_inv c" using ext by (simp add: buf_ext_def)
  have go: ?thesis if "ws_parser_step ma par b = need n (PStop st par b) k b"
    "ws_parser_step ma par c = need n (PStop st par c) k c" "step_mono k" for n k st
    using need_ext [OF inv ext that(3)] assms(3) that(1, 2) by metis
  have go1: ?thesis if "ws_parser_step ma par b = k b" "ws_parser_step ma par c = k c" "step_mono k" for k
    using that assms(3) inv ext unfolding step_mono_def by metis
  note step = ws_parser_step_def Let_def
  show ?thesis
  proof (cases "wp_stage par")
    case VTM_WS_PARSE_FRAME_FIN_OPCODE
    show ?thesis by (rule go, simp add: step VTM_WS_PARSE_FRAME_FIN_OPCODE,
          simp add: step VTM_WS_PARSE_FRAME_FIN_OPCODE) (intro mono_intros)
  next
    case VTM_WS_PARSE_FRAME_MASK_LEN7
    show ?thesis by (rule go, simp add: step VTM_WS_PARSE_FRAME_MASK_LEN7,
          simp add: step VTM_WS_PARSE_FRAME_MASK_LEN7) (intro mono_intros)
  next
    case VTM_WS_PARSE_FRAME_LEN16
    show ?thesis by (rule go, simp add: step VTM_WS_PARSE_FRAME_LEN16,
          simp add: step VTM_WS_PARSE_FRAME_LEN16) (intro mono_intros)
  next
    case VTM_WS_PARSE_FRAME_LEN64
    show ?thesis by (rule go, simp add: step VTM_WS_PARSE_FRAME_LEN64,
          simp add: step VTM_WS_PARSE_FRAME_LEN64) (intro mono_intros)
  next
    case VTM_WS_PARSE_FRAME_MASK32
    show ?thesis
    proof (cases "wp_masked par")
      case True
      show ?thesis by (rule go, simp add: step VTM_WS_PARSE_FRAME_MASK32 True,
            simp add: step VTM_WS_PARSE_FRAME_MASK32 True) (intro mono_intros)
    next
      case False
      then show ?thesis using assms(3) ext VTM_WS_PARSE_FRAME_MASK32 by (auto simp: step buf_ext_def)
    qed
  next
    case VTM_WS_PARSE_FRAME_PAYLOAD
    show ?thesis by (rule go, simp add: step VTM_WS_PARSE_FRAME_PAYLOAD ws_frame_payload_eq [OF inv],
          simp add: step VTM_WS_PARSE_FRAME_PAYLOAD ws_frame_payload_eq [OF inv']) (intro mono_intros)
  next
    case VTM_WS_PARSE_FRAME_FINISH_CTRL
    show ?thesis by (rule go1 [of "ws_finish_ctrl ma par"])
        (simp_all add: step VTM_WS_PARSE_FRAME_FINISH_CTRL mono_intros)
  next
    case VTM_WS_PARSE_FRAME_FINISH_DATA
    show ?thesis by (rule go1 [of "ws_finish_data ma par"])
        (simp_all add: step VTM_WS_PARSE_FRAME_FINISH_DATA ws_finish_data_mono)
  next
    case VTM_WS_PARSE_FRAME_COMPLETE
    show ?thesis
    proof (cases "wp_has_ctrl_msg par")
      case True
      then show ?thesis using assms(3) VTM_WS_PARSE_FRAME_COMPLETE by (simp add: step)
    next
      case False
      show ?thesis by (rule go1, simp add: step VTM_WS_PARSE_FRAME_COMPLETE False,
            simp add: step VTM_WS_PARSE_FRAME_COMPLETE False) (intro mono_intros)
    qed
  qed (use assms(3) ext in \<open>auto simp: step\<close>)
qed

subsection \<open>Progress\<close>

fun ws_rank :: "vtm_ws_parser_stage \<Rightarrow> nat" where
  "ws_rank VTM_WS_PARSE_FRAME_MASK32 = 9"
| "ws_rank VTM_WS_PARSE_FRAME_PAYLOAD = 8"
| "ws_rank VTM_WS_PARSE_FRAME_FINISH_CTRL = 7"
| "ws_rank VTM_WS_PARSE_FRAME_FINISH_DATA = 7"
| "ws_rank VTM_WS_PARSE_FRAME_COMPLETE = 6"
| "ws_rank VTM_WS_PARSE_MSG_BEGIN = 6"
| "ws_rank VTM_WS_PARSE_FRAME_BEGIN = 5"
| "ws_rank VTM_WS_PARSE_FRAME_FIN_OPCODE = 4"
| "ws_rank VTM_WS_PARSE_MSG_COMPLETE = 0"
| "ws_rank VTM_WS_PARSE_ERROR = 0"
| "ws_rank _ = 1"

definition ws_msr :: "vtm_ws_parser \<Rightarrow> vtm_buf \<Rightarrow> nat" where
  "ws_msr par b = 16 * length (buf_unread b) + ws_rank (wp_stage par)"

lemma ws_getc_n_eq:
  "vtm_buf_inv b \<Longrightarrow> n \<le> length (buf_unread b) \<Longrightarrow>
     ws_getc_n n b = Some (take n (buf_unread b), buf_adv (of_nat n) b)"
proof (induction n arbitrary: b)
  case 0
  then show ?case by (simp add: buf_adv_def)
next
  case (Suc n)
  then obtain c cs where un: "buf_unread b = c # cs" by (cases "buf_unread b") auto
  note getc = vtm_buf_getc_ok [OF Suc.prems(1) un, folded buf_adv_def]
  then have "ws_getc_n n (buf_adv 1 b) = Some (take n cs, buf_adv (of_nat n) (buf_adv 1 b))"
    using Suc.IH [of "buf_adv 1 b"] Suc.prems(2) un by simp
  then show ?case using getc un by (simp add: buf_adv_adv)
qed

lemma fetch_getc_n_eq:
  "vtm_buf_inv b \<Longrightarrow> n \<le> length (buf_unread b) \<Longrightarrow>
     fetch (ws_getc_n n) k b = k (take n (buf_unread b)) (buf_adv (of_nat n) b)"
  by (simp add: fetch_def ws_getc_n_eq)

lemma ws_next:
  "ws_fin_opcode par c b = PNext par' b' \<Longrightarrow> b' = b \<and> wp_stage par' = VTM_WS_PARSE_FRAME_MASK_LEN7"
  "ws_mask_len7 par c b = PNext par' b' \<Longrightarrow> b' = b \<and> ws_rank (wp_stage par') \<le> 9"
  "ws_len16 par cs b = PNext par' b' \<Longrightarrow> b' = b \<and> wp_stage par' = VTM_WS_PARSE_FRAME_MASK32"
  "ws_len64 par cs b = PNext par' b' \<Longrightarrow> b' = b \<and> wp_stage par' = VTM_WS_PARSE_FRAME_MASK32"
  "ws_finish_ctrl ma par b = PNext par' b' \<Longrightarrow> b' = b \<and> wp_stage par' = VTM_WS_PARSE_FRAME_COMPLETE"
  "ws_append par b = PNext par' b' \<Longrightarrow> b' = b \<and> wp_stage par' = VTM_WS_PARSE_FRAME_COMPLETE"
  by (auto simp: ws_fin_opcode_def ws_mask_len7_def ws_len16_def ws_len64_def ws_invalid_def ws_finish_ctrl_def
      ws_append_def fetch_def ws_payload_def Let_def split: if_splits option.splits)

lemma ws_finish_data_next:
  "ws_finish_data ma par b = PNext par' b' \<Longrightarrow> b' = b \<and> wp_stage par' = VTM_WS_PARSE_FRAME_COMPLETE"
  by (auto simp: ws_finish_data_def Let_def dest: ws_next(6) split: if_splits)

lemma ws_unmask_ok:
  assumes "vtm_buf_inv b" and "ws_unmask begin len key b = Some (u, b')"
  shows "vtm_buf_inv b'" and "length (buf_unread b') = length (buf_unread b)"
proof -
  have "length (buf_data b') = length (buf_data b)" "buf_used b' = buf_used b" "buf_read b' = buf_read b"
    "buf_len b' = buf_len b" "buf_dyn b' = buf_dyn b"
    using assms(2) by (auto simp: ws_unmask_def Let_def split: if_splits)
  then show "vtm_buf_inv b'" "length (buf_unread b') = length (buf_unread b)"
    using assms(1) by (auto simp: vtm_buf_inv_def buf_unread_def)
qed

lemma ws_take_payload_next:
  assumes "vtm_buf_inv b" and "unat (wp_payload_len par) \<le> length (buf_unread b)"
    and "ws_take_payload par b = PNext par' b'"
  shows "vtm_buf_inv b' \<and> length (buf_unread b') \<le> length (buf_unread b) \<and> ws_rank (wp_stage par') = 7"
proof -
  note adv = buf_adv_ok [OF assms(1, 2)]
  show ?thesis using assms(3) adv ws_unmask_ok [OF adv(1)]
    unfolding ws_take_payload_def fetch_eq(2) [OF assms(1, 2)]
    by (auto simp: fetch_def Let_def split: if_splits option.splits)
qed

lemma ws_step_next:
  assumes inv: "vtm_buf_inv b" and "ws_parser_step ma par b = PNext par' b'"
  shows "vtm_buf_inv b' \<and> ws_msr par' b' < ws_msr par b"
proof -
  note rd = need_fetch_eq(3) [OF inv] buf_adv_ok [OF inv]
  note step = ws_parser_step_def Let_def
  have getn: "need (of_nat n) stop (fetch (ws_getc_n n) k) b =
      (if n \<le> length (buf_unread b) then k (take n (buf_unread b)) (buf_adv (of_nat n) b) else stop)"
    if "n < 2 ^ 64" for n stop and k :: "byte list \<Rightarrow> vtm_buf \<Rightarrow> (vtm_ws_parser, vtm_buf) pstep"
    using that by (simp add: need_eq [OF inv] fetch_getc_n_eq [OF inv])
  show ?thesis
  proof (cases "wp_stage par")
    case VTM_WS_PARSE_FRAME_FIN_OPCODE
    then show ?thesis using assms(2) rd(2, 3) [of 1] by (auto simp: step rd(1) ws_msr_def dest!: ws_next(1) split: if_splits)
  next
    case VTM_WS_PARSE_FRAME_MASK_LEN7
    then show ?thesis using assms(2) rd(2, 3) [of 1] by (auto simp: step rd(1) ws_msr_def dest!: ws_next(2) split: if_splits)
  next
    case VTM_WS_PARSE_FRAME_LEN16
    then show ?thesis using assms(2) rd(2, 3) [of 2] getn [of 2]
      by (auto simp: step ws_msr_def dest!: ws_next(3) split: if_splits)
  next
    case VTM_WS_PARSE_FRAME_LEN64
    then show ?thesis using assms(2) rd(2, 3) [of 8] getn [of 8]
      by (auto simp: step ws_msr_def dest!: ws_next(4) split: if_splits)
  next
    case VTM_WS_PARSE_FRAME_MASK32
    then show ?thesis using assms rd(2, 3) [of 4] getn [of 4]
      by (auto simp: step ws_msr_def split: if_splits)
  next
    case VTM_WS_PARSE_FRAME_PAYLOAD
    then have "need (wp_payload_len par) (PStop VTM_NET_RECV_STAT_AGAIN par b) (ws_take_payload par) b = PNext par' b'"
      using assms(2) by (simp add: step ws_frame_payload_eq [OF inv])
    then show ?thesis using VTM_WS_PARSE_FRAME_PAYLOAD ws_take_payload_next [OF inv, of par par' b']
      by (auto simp: need_eq [OF inv] ws_msr_def split: if_splits)
  next
    case VTM_WS_PARSE_FRAME_FINISH_CTRL
    then show ?thesis using assms by (auto simp: step ws_msr_def dest!: ws_next(5))
  next
    case VTM_WS_PARSE_FRAME_FINISH_DATA
    then show ?thesis using assms by (auto simp: step ws_msr_def dest!: ws_finish_data_next)
  next
    case VTM_WS_PARSE_FRAME_COMPLETE
    then show ?thesis using assms vtm_buf_discard_ok [OF inv] by (auto simp: step ws_msr_def split: if_splits)
  qed (use assms in \<open>auto simp: step ws_msr_def\<close>)
qed

lemma ws_step_again:
  assumes "ws_parser_step ma par b = PStop VTM_NET_RECV_STAT_AGAIN par' b'"
  shows "par' = par \<and> b' = b"
proof -
  have no: "ws_fin_opcode par c x \<noteq> PStop VTM_NET_RECV_STAT_AGAIN p y"
    "ws_mask_len7 par c x \<noteq> PStop VTM_NET_RECV_STAT_AGAIN p y"
    "ws_len16 par cs x \<noteq> PStop VTM_NET_RECV_STAT_AGAIN p y" "ws_len64 par cs x \<noteq> PStop VTM_NET_RECV_STAT_AGAIN p y"
    "ws_finish_ctrl ma par x \<noteq> PStop VTM_NET_RECV_STAT_AGAIN p y"
    "ws_append q x \<noteq> PStop VTM_NET_RECV_STAT_AGAIN p y" for c cs x p y q
    by (auto simp: ws_fin_opcode_def ws_mask_len7_def ws_len16_def ws_len64_def ws_invalid_def ws_finish_ctrl_def
        ws_append_def fetch_def Let_def split: if_splits option.splits)
  have no': "ws_frame_payload par x \<noteq> PStop VTM_NET_RECV_STAT_AGAIN p y"
    "ws_finish_data ma par x \<noteq> PStop VTM_NET_RECV_STAT_AGAIN p y" for x p y
    using no(6) by (auto simp: ws_frame_payload_def ws_finish_data_def fetch_def Let_def split: if_splits option.splits prod.splits)
  show ?thesis using assms no no'
    by (cases "wp_stage par") (auto simp: ws_parser_step_def need_def fetch_def Let_def split: if_splits option.splits)
qed

interpretation wsp: resumable_parser "ws_parser_step ma" "vtm_ws_parser_run ma" "\<lambda>s. vtm_buf_inv" ws_msr buf_ext
  for ma
  using vtm_ws_parser_run.simps ws_step_next ws_step_again ws_step_ext by unfold_locales blast+

end
