(* ===== verification/WsMessage.thy ===== *)
theory WsMessage
  imports WsParser
begin

text \<open>
  Sending and receiving WebSocket messages: \<open>vtm_ws_client_send\<close> and \<open>vtm_ws_client_recv\<close> of
  \<open>ws_client.c\<close>, and the server side in \<open>ws_connection.c\<close>. What a socket accepts is a function
  argument, what it delivers a list of the results of the reads.
\<close>

text \<open>The frame a client hands to \<open>vtm_socket_write\<close>; \<open>key\<close> is the hash of the time.\<close>

definition ws_client_desc :: "vtm_ws_msg_type \<Rightarrow> u32 \<Rightarrow> size_t \<Rightarrow> vtm_ws_frame_desc" where
  "ws_client_desc type key len =
     \<lparr>wf_fin = True, wf_rsv1 = False, wf_rsv2 = False, wf_rsv3 = False, wf_opcode = ws_msg_type_num type,
      wf_masked = True, wf_mask = key, wf_len = len\<rparr>"

definition ws_client_frame ::
    "allocator \<Rightarrow> vtm_ws_msg_type \<Rightarrow> u32 \<Rightarrow> byte list \<Rightarrow> vtm_rc \<times> vtm_buf" where
  "ws_client_frame ma type key src =
     (let (rc, buf) = vtm_ws_frame_write_header ma (vtm_buf_init VTM_BYTEORDER_LE)
                        (ws_client_desc type key (of_nat (length src)))
      in if rc \<noteq> VTM_OK then (rc, buf)
         else
           let payload_begin = unat (buf_used buf); (rc, buf) = vtm_buf_putm ma buf src
           in if rc \<noteq> VTM_OK then (rc, buf)
              else (VTM_OK, buf\<lparr>buf_data := take payload_begin (buf_data buf)
                      @ vtm_ws_frame_mask_payload (drop payload_begin (buf_data buf)) key\<rparr>))"

text \<open>\<open>write\<close> returns what \<open>vtm_socket_write\<close> returns and stores in \<open>*written\<close>.\<close>

definition vtm_ws_client_send ::
    "allocator \<Rightarrow> (byte list \<Rightarrow> vtm_rc \<times> size_t) \<Rightarrow> bool \<Rightarrow> vtm_ws_msg_type \<Rightarrow> u32 \<Rightarrow> byte list \<Rightarrow> vtm_rc" where
  "vtm_ws_client_send ma write sock type key src =
     (if \<not> sock then VTM_E_INVALID_STATE
      else
        let (rc, buf) = ws_client_frame ma type key src
        in if rc \<noteq> VTM_OK then rc
           else
             let (rc, written) = write (buf_data buf)
             in if rc = VTM_OK \<and> written \<noteq> buf_used buf then VTM_E_IO_UNKNOWN else rc)"

text \<open>\<open>start\<close> is the result of \<open>vtm_socket_con_write_start\<close>.\<close>

definition vtm_ws_con_send_msg ::
    "allocator \<Rightarrow> vtm_rc \<Rightarrow> vtm_ws_msg_type \<Rightarrow> byte list \<Rightarrow> vtm_buf \<Rightarrow> vtm_rc \<times> vtm_buf" where
  "vtm_ws_con_send_msg ma start type data sendbuf =
     (let desc = \<lparr>wf_fin = True, wf_rsv1 = False, wf_rsv2 = False, wf_rsv3 = False,
                  wf_opcode = ws_msg_type_num type, wf_masked = False, wf_mask = 0,
                  wf_len = of_nat (length data)\<rparr>;
          (rc, buf) = vtm_ws_frame_write_header ma sendbuf desc
      in if rc \<noteq> VTM_OK then (rc, buf)
         else
           let (rc, buf) = vtm_buf_putm ma buf data
           in if rc \<noteq> VTM_OK then (rc, buf)
              else (if start = VTM_E_IO_AGAIN then VTM_OK else start, buf))"

text \<open>A result of \<open>vtm_socket_read\<close>: its return code and the bytes read.\<close>

definition ws_read_some :: "allocator \<Rightarrow> vtm_rc \<times> byte list \<Rightarrow> vtm_buf \<Rightarrow> vtm_rc \<times> vtm_buf" where
  "ws_read_some ma rd recvbuf =
     (let (rc, buf) = vtm_buf_ensure ma recvbuf 512
      in if rc \<noteq> VTM_OK then (VTM_ERROR, buf)
         else
           let buf = VTM_BUF_PUT_INC buf (snd rd)
           in if fst rd \<noteq> VTM_OK \<and> fst rd \<noteq> VTM_E_IO_AGAIN then (VTM_ERROR, buf) else (VTM_OK, buf))"

definition vtm_ws_con_read ::
    "allocator \<Rightarrow> vtm_rc \<times> byte list \<Rightarrow> vtm_ws_parser \<Rightarrow> vtm_buf
     \<Rightarrow> (vtm_net_recv_stat \<times> vtm_ws_parser \<times> vtm_buf) option" where
  "vtm_ws_con_read ma rd par recvbuf =
     (let (rc, buf) = ws_read_some ma rd recvbuf
      in if rc \<noteq> VTM_OK then Some (VTM_NET_RECV_STAT_ERROR, par, buf) else vtm_ws_parser_run ma par buf)"

definition vtm_ws_con_get_msg :: "allocator \<Rightarrow> vtm_ws_parser \<Rightarrow> vtm_rc \<times> vtm_ws_msg \<times> vtm_ws_parser" where
  "vtm_ws_con_get_msg ma par = vtm_ws_parser_get_msg ma par"

text \<open>
  What \<open>vtm_ws_client_recv\<close> returns: a return code (with the message when it is from
  \<open>vtm_ws_parser_get_msg\<close>), or, when reading fails, a receive status in its place.
\<close>

datatype ws_recv = WsRc vtm_rc "vtm_ws_msg option" | WsStat vtm_net_recv_stat

text \<open>The loop, with whether the client keeps its socket; \<open>None\<close> when the parser leaves its memory or the reads are used up.\<close>

function ws_recv_loop ::
    "allocator \<Rightarrow> (vtm_rc \<times> byte list) list \<Rightarrow> bool \<Rightarrow> vtm_ws_parser \<Rightarrow> vtm_buf
     \<Rightarrow> (ws_recv \<times> bool \<times> vtm_ws_parser \<times> vtm_buf) option" where
  "ws_recv_loop ma rds True par buf =
     (case vtm_ws_parser_run ma par buf of
        None \<Rightarrow> None
      | Some (stat, par, buf) \<Rightarrow>
          (case stat of
             VTM_NET_RECV_STAT_COMPLETE \<Rightarrow>
               let (rc, msg, par) = vtm_ws_parser_get_msg ma par in Some (WsRc rc (Some msg), True, par, buf)
           | VTM_NET_RECV_STAT_AGAIN \<Rightarrow> ws_recv_loop ma rds False par buf
           | VTM_NET_RECV_STAT_CLOSED \<Rightarrow> Some (WsRc VTM_E_IO_CLOSED None, False, par, buf)
           | _ \<Rightarrow> Some (WsRc VTM_E_IO_UNKNOWN None, True, par, buf)))"
| "ws_recv_loop ma [] False par buf = None"
| "ws_recv_loop ma (rd # rds) False par buf =
     (let (rc, buf) = ws_read_some ma rd buf
      in if rc \<noteq> VTM_OK then Some (WsStat VTM_NET_RECV_STAT_ERROR, True, par, buf)
         else ws_recv_loop ma rds True par buf)"
  by pat_completeness auto
termination by (relation "measure (\<lambda>(ma, rds, parse, par, buf). 2 * length rds + of_bool parse)") auto

definition vtm_ws_client_recv ::
    "allocator \<Rightarrow> (vtm_rc \<times> byte list) list \<Rightarrow> bool \<Rightarrow> vtm_ws_parser \<Rightarrow> vtm_buf
     \<Rightarrow> (ws_recv \<times> bool \<times> vtm_ws_parser \<times> vtm_buf) option" where
  "vtm_ws_client_recv ma rds sock par recvbuf =
     (if \<not> sock then Some (WsRc VTM_E_INVALID_STATE None, False, par, recvbuf)
      else ws_recv_loop ma rds (VTM_BUF_GET_AVAIL_TOTAL recvbuf > 0) par recvbuf)"

subsection \<open>The header of a frame\<close>

lemma ws_len7_less: "unat (ws_len7 len) < 128"
proof (cases "len > VTM_WS_LEN7_MAX")
  case True
  then show ?thesis by (simp add: ws_len7_def ws_consts)
next
  case False
  then have "unat len \<le> 125" by (simp add: ws_consts word_less_nat_alt not_less)
  then show ?thesis using False by (auto simp: ws_len7_def ws_consts unsigned_ucast_eq take_bit_nat_eq_self)
qed

lemma ws_second_byte:
  fixes l :: byte
  assumes "unat l < 128"
  shows "bit (push_bit 7 (of_bool m) OR (l AND 0x7f)) 7 \<longleftrightarrow> m"
    and "(push_bit 7 (of_bool m) OR (l AND 0x7f)) AND 0x7f = l"
proof -
  have 7: "w AND 0x7f = take_bit 7 w" for w :: byte by (simp add: take_bit_eq_mask mask_eq_exp_minus_1)
  show "bit (push_bit 7 (of_bool m) OR (l AND 0x7f)) 7 \<longleftrightarrow> m"
    unfolding 7 by (simp add: bit_simps)
  have "take_bit 7 l = l"
    using assms by (intro word_unat_eq_iff [THEN iffD2]) (simp add: unsigned_take_bit_eq take_bit_nat_eq_self)
  moreover have "take_bit 7 (push_bit 7 (of_bool m) OR take_bit 7 l) = take_bit 7 l"
    by (rule bit_word_eqI) (auto simp: bit_simps)
  ultimately show "(push_bit 7 (of_bool m) OR (l AND 0x7f)) AND 0x7f = l" unfolding 7 by simp
qed

definition ws_len_bytes :: "size_t \<Rightarrow> byte list" where
  "ws_len_bytes len =
     (if len > VTM_WS_LEN16_MAX then mem_of VTM_BYTEORDER_BE len
      else if len > VTM_WS_LEN7_MAX then mem_of VTM_BYTEORDER_BE (ucast len :: u16)
      else [])"

definition ws_first_byte :: "vtm_ws_msg_type \<Rightarrow> byte" where
  "ws_first_byte type = 0x80 OR (ucast (ws_msg_type_num type) AND 0x0f)"

definition ws_desc :: "vtm_ws_msg_type \<Rightarrow> bool \<Rightarrow> u32 \<Rightarrow> size_t \<Rightarrow> vtm_ws_frame_desc" where
  "ws_desc type m key len =
     \<lparr>wf_fin = True, wf_rsv1 = False, wf_rsv2 = False, wf_rsv3 = False, wf_opcode = ws_msg_type_num type,
      wf_masked = m, wf_mask = key, wf_len = len\<rparr>"

lemma ws_header_eq:
  "ws_header (ws_desc type m key len) =
     ws_first_byte type # (push_bit 7 (of_bool m) OR (ws_len7 len AND 0x7f)) # ws_len_bytes len
     @ (if m then mem_of VTM_BYTEORDER_BE key else [])"
proof -
  have "(ws_len7 len = VTM_WS_LEN64_ID) = (len > VTM_WS_LEN16_MAX)"
    "(ws_len7 len = VTM_WS_LEN16_ID) = (len > VTM_WS_LEN7_MAX \<and> \<not> len > VTM_WS_LEN16_MAX)"
  proof -
    have "ucast len \<noteq> VTM_WS_LEN64_ID \<and> ucast len \<noteq> VTM_WS_LEN16_ID" if "\<not> len > VTM_WS_LEN7_MAX"
    proof -
      have "unat len \<le> 125" using that by (simp add: ws_consts word_less_nat_alt not_less)
      then have "unat (ucast len :: byte) \<le> 125" by (simp add: unsigned_ucast_eq take_bit_nat_eq_self)
      then show ?thesis by (auto simp: ws_consts)
    qed
    then show "(ws_len7 len = VTM_WS_LEN64_ID) = (len > VTM_WS_LEN16_MAX)"
      "(ws_len7 len = VTM_WS_LEN16_ID) = (len > VTM_WS_LEN7_MAX \<and> \<not> len > VTM_WS_LEN16_MAX)"
      by (auto simp: ws_len7_def ws_consts)
  qed
  then show ?thesis
    by (simp add: ws_header_def ws_desc_def ws_first_byte_def ws_len_bytes_def Let_def be_bytes_16 be_bytes_32
        be_bytes_64 push_bit_eq_mult)
qed

subsection \<open>Reading a frame\<close>

definition ws_input :: "vtm_buf \<Rightarrow> byte list \<Rightarrow> bool" where
  "ws_input b ys \<longleftrightarrow> vtm_buf_inv b \<and> buf_unread b = ys"

lemma ws_input_adv: "ws_input b (xs @ ys) \<Longrightarrow> unat n = length xs \<Longrightarrow> ws_input (buf_adv n b) ys"
  using buf_adv_ok [of b n] by (simp add: ws_input_def)

lemma ws_read_first:
  assumes "ws_input b (ws_first_byte type # ys)" and "wp_stage par = VTM_WS_PARSE_FRAME_FIN_OPCODE"
    and "wp_msg_frame_count par = 0"
  shows "\<exists>t b'. ws_input b' ys \<and> vtm_ws_parser_run ma par b = vtm_ws_parser_run ma
      (par\<lparr>wp_fin := True, wp_rsv1 := False, wp_rsv2 := False, wp_rsv3 := False,
           wp_opcode := ws_msg_type_num type, wp_msg_type := t, wp_stage := VTM_WS_PARSE_FRAME_MASK_LEN7\<rparr>) b'
    \<and> (t = type \<or> vtm_ws_parser_is_control_opcode (ws_msg_type_num type))"
proof -
  let ?c = "ws_first_byte type"
  have inv: "vtm_buf_inv b" and un: "buf_unread b = ?c # ys" using assms(1) by (simp_all add: ws_input_def)
  have bits: "bit ?c 7" "\<not> bit ?c 6" "\<not> bit ?c 5" "\<not> bit ?c 4" "ucast (?c AND 0x0f) = ws_msg_type_num type"
    by (cases type; simp add: ws_first_byte_def ws_consts)+
  let ?t = "if vtm_ws_parser_is_control_opcode (ws_msg_type_num type) then wp_msg_type par else type"
  have "ws_parser_step ma par b = ws_fin_opcode par ?c (buf_adv 1 b)"
    using assms(2) un by (simp add: ws_parser_step_def need_fetch_eq(3) [OF inv])
  also have "\<dots> = PNext (par\<lparr>wp_fin := True, wp_rsv1 := False, wp_rsv2 := False, wp_rsv3 := False,
           wp_opcode := ws_msg_type_num type, wp_msg_type := ?t, wp_stage := VTM_WS_PARSE_FRAME_MASK_LEN7\<rparr>) (buf_adv 1 b)"
    using assms(3) bits by (cases type) (simp_all add: ws_fin_opcode_def ws_check_opcode_def Let_def ws_consts
        vtm_ws_parser_is_valid_opcode_def vtm_ws_parser_is_control_opcode_def vtm_ws_parser_convert_opcode_def)
  finally have "vtm_ws_parser_run ma par b = vtm_ws_parser_run ma (par\<lparr>wp_fin := True, wp_rsv1 := False,
      wp_rsv2 := False, wp_rsv3 := False, wp_opcode := ws_msg_type_num type, wp_msg_type := ?t,
      wp_stage := VTM_WS_PARSE_FRAME_MASK_LEN7\<rparr>) (buf_adv 1 b)" by (rule wsp.run_next)
  moreover have "ws_input (buf_adv 1 b) ys" using ws_input_adv [of b "[?c]" ys 1] assms(1) by simp
  ultimately show ?thesis by (intro exI [of _ ?t] exI [of _ "buf_adv 1 b"]) auto
qed

lemma ws_sums:
  "length cs = 2 \<Longrightarrow> push_bit 8 (ucast (cs ! 0)) + ucast (cs ! 1) = (ucast (mem_read VTM_BYTEORDER_BE cs :: u16) :: size_t)"
  "length cs = 4 \<Longrightarrow> ws_mask32 cs = mem_read VTM_BYTEORDER_BE cs"
  "length cs = 8 \<Longrightarrow> push_bit 56 (ucast (cs ! 0)) + push_bit 48 (ucast (cs ! 1))
            + push_bit 40 (ucast (cs ! 2)) + push_bit 32 (ucast (cs ! 3)) + push_bit 24 (ucast (cs ! 4))
            + push_bit 16 (ucast (cs ! 5)) + push_bit 8 (ucast (cs ! 6)) + ucast (cs ! 7)
        = (mem_read VTM_BYTEORDER_BE cs :: u64)"
proof -
  assume "length cs = 2"
  then obtain b0 b1 where "cs = [b0, b1]" by (auto simp: numeral_2_eq_2 length_Suc_conv)
  then show "push_bit 8 (ucast (cs ! 0)) + ucast (cs ! 1) = (ucast (mem_read VTM_BYTEORDER_BE cs :: u16) :: size_t)"
    using be_word_16 [of b0 b1] by simp
next
  assume "length cs = 4"
  then obtain b0 b1 b2 b3 where "cs = [b0, b1, b2, b3]" by (auto simp: numeral_eq_Suc length_Suc_conv)
  then show "ws_mask32 cs = mem_read VTM_BYTEORDER_BE cs"
    using be_word_32 [of b0 b1 b2 b3] by (simp add: ws_mask32_def numeral_2_eq_2 numeral_3_eq_3)
next
  assume "length cs = 8"
  then obtain b0 b1 b2 b3 b4 b5 b6 b7 where "cs = [b0, b1, b2, b3, b4, b5, b6, b7]"
    by (auto simp: numeral_eq_Suc length_Suc_conv)
  then show "push_bit 56 (ucast (cs ! 0)) + push_bit 48 (ucast (cs ! 1))
            + push_bit 40 (ucast (cs ! 2)) + push_bit 32 (ucast (cs ! 3)) + push_bit 24 (ucast (cs ! 4))
            + push_bit 16 (ucast (cs ! 5)) + push_bit 8 (ucast (cs ! 6)) + ucast (cs ! 7)
        = (mem_read VTM_BYTEORDER_BE cs :: u64)"
    using be_word_64 [of b0 b1 b2 b3 b4 b5 b6 b7] by simp
qed

lemma ucast_byte_inj: "(ucast (a :: byte) :: size_t) = ucast b \<longleftrightarrow> a = b"
  by (simp add: word_unat_eq_iff unat_ucast_up)

lemma ws_getn_step:
  assumes "ws_input b (cs @ ys)" and "length cs = n" and "n < 2 ^ 64"
  shows "need (of_nat n) stop (fetch (ws_getc_n n) k) b = k cs (buf_adv (of_nat n) b)"
    and "ws_input (buf_adv (of_nat n) b) ys"
  using assms ws_input_adv [OF assms(1), of "of_nat n"]
  by (simp_all add: need_eq ws_input_def fetch_getc_n_eq)

lemma ws_read_len:
  assumes "ws_input b ((push_bit 7 (of_bool m) OR (ws_len7 len AND 0x7f)) # ws_len_bytes len @ ys)"
    and "wp_stage par = VTM_WS_PARSE_FRAME_MASK_LEN7" and "m \<longleftrightarrow> wp_mode par = VTM_WS_MODE_SERVER"
    and "unat len < 2 ^ 31"
  shows "\<exists>b'. ws_input b' ys \<and> vtm_ws_parser_run ma par b = vtm_ws_parser_run ma
      (par\<lparr>wp_masked := m, wp_payload_len := len, wp_stage := VTM_WS_PARSE_FRAME_MASK32\<rparr>) b'"
proof -
  let ?c = "push_bit 7 (of_bool m) OR (ws_len7 len AND 0x7f) :: byte" and ?b1 = "buf_adv 1 b"
  have inv: "vtm_buf_inv b" and un: "buf_unread b = ?c # ws_len_bytes len @ ys"
    using assms(1) by (simp_all add: ws_input_def)
  note c = ws_second_byte [OF ws_len7_less, of m len]
  have i1: "ws_input ?b1 (ws_len_bytes len @ ys)" using ws_input_adv [of b "[?c]" _ 1] assms(1) by simp
  then have inv1: "vtm_buf_inv ?b1" and un1: "buf_unread ?b1 = ws_len_bytes len @ ys" by (simp_all add: ws_input_def)
  let ?p = "\<lambda>n st. par\<lparr>wp_masked := m, wp_payload_len := n, wp_stage := st\<rparr>"
  have "ws_parser_step ma par b = ws_mask_len7 par ?c ?b1"
    using assms(2) un by (simp add: ws_parser_step_def need_fetch_eq(3) [OF inv])
  moreover have mode: "wp_mode par = VTM_WS_MODE_CLIENT \<longleftrightarrow> \<not> m" using assms(3) by (cases "wp_mode par") auto
  ultimately have s1: "ws_parser_step ma par b = PNext (?p (ucast (ws_len7 len))
      (if ws_len7 len = VTM_WS_LEN16_ID then VTM_WS_PARSE_FRAME_LEN16
       else if ws_len7 len = VTM_WS_LEN64_ID then VTM_WS_PARSE_FRAME_LEN64 else VTM_WS_PARSE_FRAME_MASK32)) ?b1"
    using c mode assms(3) by (simp add: ws_mask_len7_def Let_def ucast_byte_inj)
  consider (big) "len > VTM_WS_LEN16_MAX" | (mid) "len > VTM_WS_LEN7_MAX" "\<not> len > VTM_WS_LEN16_MAX"
    | (small) "\<not> len > VTM_WS_LEN7_MAX" by blast
  then show ?thesis
  proof cases
    case big
    let ?cs = "mem_of VTM_BYTEORDER_BE len"
    have l: "ws_len7 len = VTM_WS_LEN64_ID" "ws_len_bytes len = ?cs" using big by (simp_all add: ws_len7_def ws_len_bytes_def)
    note rd = ws_getn_step [OF i1 [unfolded l], of 8]
    have "\<not> bit (unat len) 31" using assms(4) by (simp add: bit_iff_odd)
    then have "\<not> bit len 31" by (simp add: bit_unsigned_iff)
    moreover have "mem_read VTM_BYTEORDER_BE ?cs = len" by (rule mem_read_mem_of) simp
    moreover have "\<not> len > SIZE_MAX" by (simp add: SIZE_MAX_max)
    ultimately have "ws_len64 (?p 127 VTM_WS_PARSE_FRAME_LEN64) ?cs b' = PNext (?p len VTM_WS_PARSE_FRAME_MASK32) b'" for b'
      using not_le [THEN iffD2, OF big] ws_sums(3) [of ?cs] by (simp add: ws_len64_def Let_def)
    then have "ws_parser_step ma (?p 127 VTM_WS_PARSE_FRAME_LEN64) ?b1 = PNext (?p len VTM_WS_PARSE_FRAME_MASK32) (buf_adv 8 ?b1)"
      by (simp add: ws_parser_step_def rd(1) [simplified])
    then show ?thesis using wsp.run_next [OF s1] wsp.run_next rd(2) by (auto simp: l ws_consts)
  next
    case mid
    let ?cs = "mem_of VTM_BYTEORDER_BE (ucast len :: u16)"
    have l: "ws_len7 len = VTM_WS_LEN16_ID" "ws_len_bytes len = ?cs" using mid by (simp_all add: ws_len7_def ws_len_bytes_def)
    note rd = ws_getn_step [OF i1 [unfolded l], of 2]
    have "unat len < 65536" using mid by (simp add: ws_consts word_less_nat_alt)
    then have "ucast (ucast len :: u16) = len"
      by (intro word_unat_eq_iff [THEN iffD2]) (simp add: unat_ucast_up unsigned_ucast_eq unsigned_take_bit_eq take_bit_nat_eq_self)
    moreover have "mem_read VTM_BYTEORDER_BE ?cs = (ucast len :: u16)" by (rule mem_read_mem_of) simp
    ultimately have "ws_len16 (?p 126 VTM_WS_PARSE_FRAME_LEN16) ?cs b' = PNext (?p len VTM_WS_PARSE_FRAME_MASK32) b'" for b'
      using not_le [THEN iffD2, OF mid(1)] ws_sums(1) [of ?cs] by (simp add: ws_len16_def Let_def)
    then have "ws_parser_step ma (?p 126 VTM_WS_PARSE_FRAME_LEN16) ?b1 = PNext (?p len VTM_WS_PARSE_FRAME_MASK32) (buf_adv 2 ?b1)"
      by (simp add: ws_parser_step_def rd(1) [simplified])
    then show ?thesis using wsp.run_next [OF s1] wsp.run_next rd(2) by (auto simp: l ws_consts)
  next
    case small
    then have "unat len \<le> 125" by (simp add: ws_consts word_less_nat_alt)
    then have u: "unat (ucast len :: byte) = unat len" by (simp add: unsigned_ucast_eq take_bit_nat_eq_self)
    have l: "ws_len7 len = ucast len" "ws_len_bytes len = []"
      using small \<open>unat len \<le> 125\<close> by (auto simp: ws_len7_def ws_len_bytes_def ws_consts word_less_nat_alt)
    have "ucast (ucast len :: byte) = len" using u by (intro word_unat_eq_iff [THEN iffD2]) (simp add: unat_ucast_up)
    moreover have "(ucast len :: byte) \<noteq> VTM_WS_LEN16_ID" "(ucast len :: byte) \<noteq> VTM_WS_LEN64_ID"
      using u \<open>unat len \<le> 125\<close> by (auto simp: ws_consts)
    ultimately show ?thesis using wsp.run_next [OF s1] i1 by (auto simp: l)
  qed
qed

lemma ws_read_mask:
  assumes "ws_input b ((if wp_masked par then mem_of VTM_BYTEORDER_BE key else []) @ ys)"
    and "wp_stage par = VTM_WS_PARSE_FRAME_MASK32"
  shows "\<exists>k b'. ws_input b' ys \<and> (wp_masked par \<longrightarrow> k = key)
    \<and> vtm_ws_parser_run ma par b = vtm_ws_parser_run ma
      (par\<lparr>wp_mask := k, wp_payload_begin := buf_read b', wp_stage := VTM_WS_PARSE_FRAME_PAYLOAD\<rparr>) b'"
proof (cases "wp_masked par")
  case True
  let ?cs = "mem_of VTM_BYTEORDER_BE key"
  have i: "ws_input b (?cs @ ys)" using assms(1) True by simp
  note rd = ws_getn_step [OF i, of 4]
  have "ws_mask32 ?cs = key" using ws_sums(2) [of ?cs] by (simp add: mem_read_mem_of)
  then have "ws_parser_step ma par b = PNext (par\<lparr>wp_mask := key, wp_payload_begin := buf_read (buf_adv 4 b),
      wp_stage := VTM_WS_PARSE_FRAME_PAYLOAD\<rparr>) (buf_adv 4 b)"
    using assms(2) True by (simp add: ws_parser_step_def Let_def rd(1) [simplified])
  then show ?thesis using wsp.run_next rd(2) by (intro exI [of _ key] exI [of _ "buf_adv 4 b"]) simp
next
  case False
  then have "ws_parser_step ma par b = PNext (par\<lparr>wp_mask := wp_mask par, wp_payload_begin := buf_read b,
      wp_stage := VTM_WS_PARSE_FRAME_PAYLOAD\<rparr>) b"
    using assms(2) by (simp add: ws_parser_step_def Let_def)
  then show ?thesis using wsp.run_next assms(1) False by (intro exI [of _ "wp_mask par"] exI [of _ b]) simp
qed


definition ws_unmasked :: "vtm_ws_parser \<Rightarrow> byte list \<Rightarrow> byte list" where
  "ws_unmasked par xs = (if wp_masked par then vtm_ws_frame_mask_payload xs (wp_mask par) else xs)"

lemma ws_read_payload:
  assumes "ws_input b (xs @ ys)" and "wp_stage par = VTM_WS_PARSE_FRAME_PAYLOAD"
    and "wp_payload_begin par = buf_read b" and "length xs = unat (wp_payload_len par)"
  shows "\<exists>b'. ws_input b' ys
    \<and> ws_payload (wp_payload_begin par) (wp_payload_len par) b' = Some (ws_unmasked par xs, b')
    \<and> vtm_ws_parser_run ma par b = vtm_ws_parser_run ma
      (par\<lparr>wp_stage := (if vtm_ws_parser_is_control_opcode (wp_opcode par)
                        then VTM_WS_PARSE_FRAME_FINISH_CTRL else VTM_WS_PARSE_FRAME_FINISH_DATA)\<rparr>) b'"
proof -
  have inv: "vtm_buf_inv b" and un: "buf_unread b = xs @ ys" using assms(1) by (simp_all add: ws_input_def)
  let ?r = "unat (buf_read b)" and ?d = "buf_data b" and ?b1 = "buf_adv (wp_payload_len par) b"
  let ?d' = "take ?r ?d @ ws_unmasked par xs @ ys"
  have d: "?d = take ?r ?d @ xs @ ys" using un by (metis append_take_drop_id buf_unread_def)
  have r: "?r \<le> length ?d" using vtm_buf_invD [OF inv] by simp
  then have lt: "length (take ?r ?d) = ?r" by simp
  have adv: "vtm_buf_inv ?b1" "buf_unread ?b1 = ys"
    using buf_adv_ok [OF inv, of "wp_payload_len par"] un assms(4) by simp_all
  define b' where "b' = ?b1\<lparr>buf_data := ?d'\<rparr>"
  have len: "length (ws_unmasked par xs) = length xs" by (simp add: ws_unmasked_def)
  have r1: "unat (buf_read ?b1) = ?r + length xs"
  proof -
    have "length (buf_unread ?b1) = length ?d - unat (buf_read ?b1)" "unat (buf_read ?b1) \<le> length ?d"
      using vtm_buf_invD [OF adv(1)] by (simp_all add: buf_unread_def buf_adv_def)
    moreover have "length ?d = ?r + length xs + length ys" using arg_cong [OF d, of length] lt by simp
    ultimately show ?thesis using adv(2) by simp
  qed
  have "length ?d' = length ?d" using arg_cong [OF d, of length] len by simp
  then have "vtm_buf_inv b'" using adv(1) by (auto simp: b'_def vtm_buf_inv_def buf_adv_def)
  moreover have "buf_unread b' = ys" using r1 r len by (simp add: b'_def buf_unread_def)
  moreover have "ws_payload (wp_payload_begin par) (wp_payload_len par) b' = Some (ws_unmasked par xs, b')"
    using assms(3, 4) r len by (simp add: ws_payload_def b'_def)
  moreover have "ws_take_payload par b = PNext (par\<lparr>wp_stage := (if vtm_ws_parser_is_control_opcode (wp_opcode par)
        then VTM_WS_PARSE_FRAME_FINISH_CTRL else VTM_WS_PARSE_FRAME_FINISH_DATA)\<rparr>) b'"
  proof (cases "wp_masked par")
    case True
    have "take (unat (wp_payload_len par)) (drop ?r ?d) = xs" "drop (?r + unat (wp_payload_len par)) ?d = ys"
      using un assms(4) by (simp_all add: buf_unread_def add.commute [of ?r] flip: drop_drop)
    moreover have "?r + unat (wp_payload_len par) \<le> length ?d" using arg_cong [OF d, of length] lt assms(4) by simp
    ultimately have "ws_unmask (wp_payload_begin par) (wp_payload_len par) (wp_mask par) ?b1 = Some ((), b')"
      using True assms(3) by (simp add: ws_unmask_def Let_def buf_adv_def b'_def ws_unmasked_def)
    then show ?thesis using True un assms(4)
      by (simp add: ws_take_payload_def fetch_eq(2) [OF inv] Let_def) (simp add: fetch_def)
  next
    case False
    then have "b' = ?b1" using d by (simp add: b'_def ws_unmasked_def buf_adv_def)
    then show ?thesis using False un assms(4) by (simp add: ws_take_payload_def fetch_eq(2) [OF inv] Let_def)
  qed
  moreover have "ws_frame_payload par b = ws_take_payload par b"
    using ws_frame_payload_eq [OF inv, of par undefined] assms(4) un by (simp add: need_eq [OF inv])
  ultimately show ?thesis using assms(2, 4) un
    by (intro exI [of _ b'] conjI wsp.run_next) (simp_all add: ws_input_def ws_parser_step_def need_eq [OF inv])
qed


text \<open>A parser between two messages, with room for a message of \<open>n\<close> bytes.\<close>

definition ws_idle :: "vtm_ws_parser \<Rightarrow> bool" where
  "ws_idle par \<longleftrightarrow>
     (wp_stage par = VTM_WS_PARSE_MSG_BEGIN
      \<or> wp_stage par = VTM_WS_PARSE_FRAME_BEGIN \<and> wp_msg_buf_used par = 0 \<and> wp_msg_frame_count par = 0)
     \<and> wp_msg_buf par \<noteq> None \<and> \<not> wp_has_ctrl_msg par
     \<and> VTM_WS_PARSER_MSG_BUF_INIT \<le> wp_msg_buf_size par \<and> wp_msg_buf_size par \<le> VTM_WS_PARSER_MSG_BUF_MAX"

definition ws_room :: "vtm_ws_parser \<Rightarrow> vtm_ws_msg_type \<Rightarrow> nat \<Rightarrow> bool" where
  "ws_room par type n \<longleftrightarrow>
     vtm_ws_parser_is_control_opcode (ws_msg_type_num type)
     \<or> n \<le> unat (wp_msg_buf_size par)
     \<or> unat (wp_msg_buf_size par) \<le> 32768 \<and> n \<le> 2 * unat (wp_msg_buf_size par)"

text \<open>Up to the payload of the first frame, the parser keeps its message buffer.\<close>

lemma ws_read_begin:
  assumes "ws_idle par"
  shows "\<exists>par'. vtm_ws_parser_run ma par b = vtm_ws_parser_run ma par' b
    \<and> wp_stage par' = VTM_WS_PARSE_FRAME_FIN_OPCODE \<and> wp_msg_frame_count par' = 0
    \<and> wp_msg_buf_used par' = 0 \<and> wp_msg_buf par' = wp_msg_buf par \<and> wp_mode par' = wp_mode par
    \<and> wp_msg_buf_size par' = wp_msg_buf_size par \<and> \<not> wp_has_ctrl_msg par'"
proof -
  let ?p1 = "par\<lparr>wp_msg_buf_used := 0, wp_msg_frame_count := 0, wp_msg_type := VTM_WS_MSG_CLOSE,
                 wp_stage := VTM_WS_PARSE_FRAME_BEGIN\<rparr>"
  let ?p2 = "\<lambda>p. p\<lparr>wp_payload_begin := 0, wp_payload_len := 0, wp_stage := VTM_WS_PARSE_FRAME_FIN_OPCODE\<rparr>"
  have frame: "vtm_ws_parser_run ma p b = vtm_ws_parser_run ma (?p2 p) b" if "wp_stage p = VTM_WS_PARSE_FRAME_BEGIN" for p
    by (rule wsp.run_next) (simp add: ws_parser_step_def that)
  have "vtm_ws_parser_run ma par b = vtm_ws_parser_run ma ?p1 b" if "wp_stage par = VTM_WS_PARSE_MSG_BEGIN"
    by (rule wsp.run_next) (simp add: ws_parser_step_def that)
  then show ?thesis using assms frame [of ?p1] frame [of par]
    by (cases "wp_stage par = VTM_WS_PARSE_MSG_BEGIN") (force simp: ws_idle_def)+
qed

text \<open>After the payload: a message of the parser, which is idle again.\<close>

definition ws_delivers ::
    "allocator \<Rightarrow> vtm_ws_parser \<Rightarrow> vtm_buf \<Rightarrow> vtm_ws_msg_type \<Rightarrow> byte list \<Rightarrow> byte list \<Rightarrow> bool" where
  "ws_delivers ma par b type src rest \<longleftrightarrow>
     (\<exists>par' b' par''. vtm_ws_parser_run ma par b = Some (VTM_NET_RECV_STAT_COMPLETE, par', b')
        \<and> vtm_ws_parser_get_msg ma par' = (VTM_OK, vtm_ws_msg_init type src (of_nat (length src)), par'')
        \<and> vtm_buf_inv b' \<and> buf_unread b' = rest \<and> ws_idle par''
        \<and> wp_mode par'' = wp_mode par \<and> wp_msg_buf_size par \<le> wp_msg_buf_size par'')"

lemma ws_finish_ctrl_delivers:
  assumes "ws_input b rest" and "wp_stage par = VTM_WS_PARSE_FRAME_FINISH_CTRL"
    and "ws_payload (wp_payload_begin par) (wp_payload_len par) b = Some (src, b)"
    and "wp_opcode par = ws_msg_type_num type" and "vtm_ws_parser_is_control_opcode (wp_opcode par)"
    and "wp_payload_len par = of_nat (length src)" and "ma (wp_payload_len par)" and "\<not> wp_has_ctrl_msg par"
    and "wp_msg_buf par \<noteq> None" "wp_msg_buf_used par = 0" "wp_msg_frame_count par = 0"
    and "VTM_WS_PARSER_MSG_BUF_INIT \<le> wp_msg_buf_size par" "wp_msg_buf_size par \<le> VTM_WS_PARSER_MSG_BUF_MAX"
  shows "ws_delivers ma par b type src rest"
proof -
  let ?m = "vtm_ws_msg_init type src (of_nat (length src))"
  let ?p = "par\<lparr>wp_ctrl_msg := ?m, wp_has_ctrl_msg := True, wp_stage := VTM_WS_PARSE_FRAME_COMPLETE\<rparr>"
  have "vtm_ws_parser_convert_opcode (wp_opcode par) = Some type"
    using assms(4, 5) by (cases type) (simp_all add: vtm_ws_parser_convert_opcode_def ws_consts
        vtm_ws_parser_is_control_opcode_def)
  then have "ws_parser_step ma par b = PNext ?p b"
    using assms(2, 3, 6, 7, 8) by (simp add: ws_parser_step_def ws_finish_ctrl_def fetch_def)
  then have "vtm_ws_parser_run ma par b = vtm_ws_parser_run ma ?p b" by (rule wsp.run_next)
  also have "\<dots> = Some (VTM_NET_RECV_STAT_COMPLETE, ?p\<lparr>wp_stage := VTM_WS_PARSE_FRAME_BEGIN\<rparr>, vtm_buf_discard_processed b)"
    by (subst vtm_ws_parser_run.simps) (simp add: ws_parser_step_def)
  finally show ?thesis
    using assms vtm_buf_discard_ok [of b] unfolding ws_delivers_def
    by (simp add: vtm_ws_parser_get_msg_def ws_idle_def ws_input_def)
qed

lemma ws_finish_data_delivers:
  assumes "ws_input b rest" and "wp_stage par = VTM_WS_PARSE_FRAME_FINISH_DATA" and "wp_fin par"
    and "ws_payload (wp_payload_begin par) (wp_payload_len par) b = Some (src, b)"
    and "wp_msg_type par = type" and "\<not> vtm_ws_parser_is_control_opcode (ws_msg_type_num type)"
    and "wp_payload_len par = of_nat (length src)" and "length src < 2 ^ 64" and "\<And>n. ma n"
    and "\<not> wp_has_ctrl_msg par" and "wp_msg_buf par \<noteq> None" "wp_msg_buf_used par = 0"
    and "VTM_WS_PARSER_MSG_BUF_INIT \<le> wp_msg_buf_size par" "wp_msg_buf_size par \<le> VTM_WS_PARSER_MSG_BUF_MAX"
    and "ws_room par type (length src)"
  shows "ws_delivers ma par b type src rest"
proof -
  let ?grow = "wp_msg_buf_size par < wp_payload_len par"
  define size where "size = (if ?grow then wp_msg_buf_size par * 2 else wp_msg_buf_size par)"
  have len: "unat (wp_payload_len par) = length src" using assms(7, 8) by (simp add: unat_of_nat_small)
  have sz: "unat (wp_msg_buf_size par) \<le> 65536"
    using assms(14) by (simp add: word_le_nat_alt VTM_WS_PARSER_MSG_BUF_MAX_def)
  have dbl: "unat (wp_msg_buf_size par * 2) = 2 * unat (wp_msg_buf_size par)"
    using sz unat_mult_lem [of "wp_msg_buf_size par" 2] by simp
  have room: "unat (wp_msg_buf_size par) \<le> 32768 \<and> length src \<le> 2 * unat (wp_msg_buf_size par)" if ?grow
    using that assms(6, 15) len by (auto simp: ws_room_def word_less_nat_alt)
  then have size: "length src \<le> unat size" "wp_msg_buf_size par \<le> size" "size \<le> VTM_WS_PARSER_MSG_BUF_MAX"
    using len sz dbl by (auto simp: size_def word_le_nat_alt word_less_nat_alt VTM_WS_PARSER_MSG_BUF_MAX_def)
  let ?p = "par\<lparr>wp_msg_buf_size := size, wp_msg_buf := Some src, wp_msg_buf_used := of_nat (length src),
      wp_msg_frame_count := wp_msg_frame_count par + 1, wp_stage := VTM_WS_PARSE_FRAME_COMPLETE\<rparr>"
  obtain m where m: "wp_msg_buf par = Some m" using assms(11) by auto
  have "?grow \<Longrightarrow> wp_msg_buf_size par < VTM_WS_PARSER_MSG_BUF_MAX"
    using room by (simp add: word_less_nat_alt VTM_WS_PARSER_MSG_BUF_MAX_def)
  then have "ws_finish_data ma par b = ws_append (par\<lparr>wp_msg_buf_size := size\<rparr>) b"
    using assms(9, 12) by (auto simp: ws_finish_data_def size_def)
  also have "\<dots> = PNext ?p b" using m assms(4, 7, 12) size(1) len by (simp add: ws_append_def fetch_def)
  finally have "vtm_ws_parser_run ma par b = vtm_ws_parser_run ma ?p b"
    using assms(2) by (intro wsp.run_next) (simp add: ws_parser_step_def)
  also have "\<dots> = vtm_ws_parser_run ma (?p\<lparr>wp_stage := VTM_WS_PARSE_MSG_COMPLETE\<rparr>) (vtm_buf_discard_processed b)"
    using assms(3, 10) by (intro wsp.run_next) (simp add: ws_parser_step_def)
  also have "\<dots> = Some (VTM_NET_RECV_STAT_COMPLETE, ?p\<lparr>wp_stage := VTM_WS_PARSE_MSG_BEGIN\<rparr>, vtm_buf_discard_processed b)"
    by (subst vtm_ws_parser_run.simps) (simp add: ws_parser_step_def)
  finally show ?thesis
    using assms vtm_buf_discard_ok [of b] size len unfolding ws_delivers_def
    by (simp add: vtm_ws_parser_get_msg_def ws_idle_def ws_input_def)
qed


lemma ws_read_frame:
  assumes "ws_idle par" and "m \<longleftrightarrow> wp_mode par = VTM_WS_MODE_SERVER" and "vtm_buf_inv b"
    and un: "buf_unread b = ws_header (ws_desc type m key (of_nat (length src)))
      @ (if m then vtm_ws_frame_mask_payload src key else src) @ rest"
    and len: "length src < 2 ^ 31"
  obtains p b' where "vtm_ws_parser_run ma par b = vtm_ws_parser_run ma p b'" and "ws_input b' rest"
    and "ws_payload (wp_payload_begin p) (of_nat (length src)) b' = Some (src, b')" "wp_fin p"
    "wp_stage p = (if vtm_ws_parser_is_control_opcode (ws_msg_type_num type)
       then VTM_WS_PARSE_FRAME_FINISH_CTRL else VTM_WS_PARSE_FRAME_FINISH_DATA)"
    "wp_opcode p = ws_msg_type_num type" "wp_payload_len p = of_nat (length src)"
    "wp_msg_type p = type \<or> vtm_ws_parser_is_control_opcode (ws_msg_type_num type)"
    "wp_msg_frame_count p = 0" "wp_msg_buf_used p = 0" "wp_msg_buf p = wp_msg_buf par" "wp_mode p = wp_mode par"
    "wp_msg_buf_size p = wp_msg_buf_size par" "\<not> wp_has_ctrl_msg p"
proof -
  let ?len = "of_nat (length src) :: size_t" and ?pl = "(if m then vtm_ws_frame_mask_payload src key else src)"
  have ul: "unat ?len = length src" using len by simp
  obtain p0 where p0: "vtm_ws_parser_run ma par b = vtm_ws_parser_run ma p0 b"
    "wp_stage p0 = VTM_WS_PARSE_FRAME_FIN_OPCODE" "wp_msg_frame_count p0 = 0"
    and keep: "wp_msg_buf_used p0 = 0" "wp_msg_buf p0 = wp_msg_buf par" "wp_mode p0 = wp_mode par"
    "wp_msg_buf_size p0 = wp_msg_buf_size par" "\<not> wp_has_ctrl_msg p0"
    using ws_read_begin [OF assms(1), of ma b] by blast
  have i0: "ws_input b (ws_first_byte type # (push_bit 7 (of_bool m) OR (ws_len7 ?len AND 0x7f)) # ws_len_bytes ?len
      @ (if m then mem_of VTM_BYTEORDER_BE key else []) @ ?pl @ rest)"
    using un assms(3) by (simp add: ws_input_def ws_header_eq)
  obtain t b1 where i1: "ws_input b1 ((push_bit 7 (of_bool m) OR (ws_len7 ?len AND 0x7f)) # ws_len_bytes ?len
      @ (if m then mem_of VTM_BYTEORDER_BE key else []) @ ?pl @ rest)"
    and r1: "vtm_ws_parser_run ma p0 b = vtm_ws_parser_run ma
      (p0\<lparr>wp_fin := True, wp_rsv1 := False, wp_rsv2 := False, wp_rsv3 := False,
           wp_opcode := ws_msg_type_num type, wp_msg_type := t, wp_stage := VTM_WS_PARSE_FRAME_MASK_LEN7\<rparr>) b1"
    (is "_ = vtm_ws_parser_run ma ?p1 b1")
    and t: "t = type \<or> vtm_ws_parser_is_control_opcode (ws_msg_type_num type)"
    using ws_read_first [OF i0 p0(2, 3)] by blast
  let ?p2 = "?p1\<lparr>wp_masked := m, wp_payload_len := ?len, wp_stage := VTM_WS_PARSE_FRAME_MASK32\<rparr>"
  obtain b2 where i2: "ws_input b2 ((if m then mem_of VTM_BYTEORDER_BE key else []) @ ?pl @ rest)"
    and r2: "vtm_ws_parser_run ma ?p1 b1 = vtm_ws_parser_run ma ?p2 b2"
    using ws_read_len [OF i1, of ?p1 ma] assms(2) keep(3) len ul by auto
  obtain k b3 where i3: "ws_input b3 (?pl @ rest)" and k: "m \<longrightarrow> k = key"
    and r3: "vtm_ws_parser_run ma ?p2 b2 = vtm_ws_parser_run ma
      (?p2\<lparr>wp_mask := k, wp_payload_begin := buf_read b3, wp_stage := VTM_WS_PARSE_FRAME_PAYLOAD\<rparr>) b3"
    (is "_ = vtm_ws_parser_run ma ?p3 b3")
    using ws_read_mask [of b2 ?p2 key "?pl @ rest" ma] i2 by auto
  have "length ?pl = length src" "ws_unmasked ?p3 ?pl = src"
    using k by (auto simp: ws_unmasked_def mask_payload_twice)
  then obtain b4 where i4: "ws_input b4 rest" and pay: "ws_payload (buf_read b3) ?len b4 = Some (src, b4)"
    and r4: "vtm_ws_parser_run ma ?p3 b3 = vtm_ws_parser_run ma
      (?p3\<lparr>wp_stage := (if vtm_ws_parser_is_control_opcode (ws_msg_type_num type)
                        then VTM_WS_PARSE_FRAME_FINISH_CTRL else VTM_WS_PARSE_FRAME_FINISH_DATA)\<rparr>) b4"
    (is "_ = vtm_ws_parser_run ma ?p4 b4")
    using ws_read_payload [OF i3, of ?p3 ma] ul by auto
  show thesis by (rule that [of ?p4 b4]) (use p0 r1 r2 r3 r4 keep i4 pay t in simp_all)
qed

lemma ws_frame_delivers:
  assumes "ws_idle par" and "m \<longleftrightarrow> wp_mode par = VTM_WS_MODE_SERVER" and "vtm_buf_inv b"
    and "buf_unread b = ws_header (ws_desc type m key (of_nat (length src)))
      @ (if m then vtm_ws_frame_mask_payload src key else src) @ rest"
    and len: "length src < 2 ^ 31" and ma: "\<And>n. ma n" and "ws_room par type (length src)"
  shows "ws_delivers ma par b type src rest"
proof -
  obtain p b' where p: "vtm_ws_parser_run ma par b = vtm_ws_parser_run ma p b'" "ws_input b' rest"
    "ws_payload (wp_payload_begin p) (of_nat (length src)) b' = Some (src, b')" "wp_fin p"
    "wp_stage p = (if vtm_ws_parser_is_control_opcode (ws_msg_type_num type)
       then VTM_WS_PARSE_FRAME_FINISH_CTRL else VTM_WS_PARSE_FRAME_FINISH_DATA)"
    "wp_opcode p = ws_msg_type_num type" "wp_payload_len p = of_nat (length src)"
    "wp_msg_type p = type \<or> vtm_ws_parser_is_control_opcode (ws_msg_type_num type)"
    "wp_msg_frame_count p = 0" "wp_msg_buf_used p = 0" "wp_msg_buf p = wp_msg_buf par" "wp_mode p = wp_mode par"
    "wp_msg_buf_size p = wp_msg_buf_size par" "\<not> wp_has_ctrl_msg p"
    by (rule ws_read_frame [OF assms(1-5), of ma])
  have "ws_delivers ma p b' type src rest"
  proof (cases "vtm_ws_parser_is_control_opcode (ws_msg_type_num type)")
    case True
    then show ?thesis using p assms(1) ma
      by (intro ws_finish_ctrl_delivers) (simp_all add: ws_idle_def)
  next
    case False
    then show ?thesis using p assms(1, 7) ma len
      by (intro ws_finish_data_delivers) (simp_all add: ws_idle_def ws_room_def)
  qed
  then show ?thesis using p by (simp add: ws_delivers_def)
qed

subsection \<open>Messages between client and server\<close>

lemma ws_header_length: "length (ws_header desc) \<le> 14"
  by (simp add: ws_header_def Let_def ws_consts)

lemma ws_frame_written:
  assumes ma: "\<forall>n. ma n" and "length src < 2 ^ 31" and room: "buf_room b (14 + length src)"
  obtains b1 b2 where "vtm_ws_frame_write_header ma b (ws_desc type m key (of_nat (length src))) = (VTM_OK, b1)"
    "vtm_buf_putm ma b1 src = (VTM_OK, b2)" "buf_ext b (ws_header (ws_desc type m key (of_nat (length src)))) b1"
    "buf_ext b1 src b2"
proof -
  let ?h = "ws_header (ws_desc type m key (of_nat (length src)))"
  have "buf_room b (length ?h + length src)"
    by (rule buf_room_mono [OF room]) (simp add: ws_header_length)
  then obtain b1 where b1: "vtm_buf_putm ma b ?h = (VTM_OK, b1)" "buf_ext b ?h b1" "buf_room b1 (length src)"
    using room_putm ma by blast
  then obtain b2 where "vtm_buf_putm ma b1 src = (VTM_OK, b2)" "buf_ext b1 src b2"
    using room_putm [of b1 src 0 ma] ma by auto
  moreover have "\<not> of_nat (length src) > VTM_WS_LEN64_MAX"
    using assms(2) by (simp add: ws_consts word_less_nat_alt)
  ultimately show thesis using b1 that by (simp add: vtm_ws_frame_write_header_def ws_desc_def)
qed

text \<open>
  C7. A message that a client sends (\<open>vtm_ws_client_send\<close>: one masked frame) is what the parser of a
  server delivers: type, payload and length are those of the sender, the bytes behind the frame are
  left in the buffer, and the parser is ready for the next message. The payload is at most as long
  as the message buffer, or twice as long when that has at most 32768 bytes and may grow; a control
  message may have any length below \<open>2 ^ 31\<close>. The parser is between two messages, and allocations are granted.
\<close>

theorem ws_client_message:
  assumes "\<forall>n. ma n" and "length src < 2 ^ 31" and "ws_idle par" "wp_mode par = VTM_WS_MODE_SERVER"
    and "ws_room par type (length src)"
  shows "\<exists>frame. ws_client_frame ma type key src = (VTM_OK, frame)
    \<and> (\<forall>b rest. vtm_buf_inv b \<longrightarrow> buf_unread b = buf_data frame @ rest \<longrightarrow>
         ws_delivers ma par b type src rest)"
proof -
  let ?i = "vtm_buf_init VTM_BYTEORDER_LE" and ?h = "ws_header (ws_desc type True key (of_nat (length src)))"
  have "buf_room ?i (14 + length src)" using assms(2) by (intro buf_room_init) simp
  from ws_frame_written [OF assms(1, 2) this, of type True key] obtain b1 b2 where
    w: "vtm_ws_frame_write_header ma ?i (ws_desc type True key (of_nat (length src))) = (VTM_OK, b1)"
    "vtm_buf_putm ma b1 src = (VTM_OK, b2)" "buf_ext ?i ?h b1" "buf_ext b1 src b2" by blast
  have d: "buf_data b1 = ?h" "buf_data b2 = ?h @ src" "unat (buf_used b1) = length ?h"
    using w(3, 4) vtm_buf_invD(1) [of b1] by (simp_all add: buf_ext_def vtm_buf_init_def)
  have "ws_client_frame ma type key src = (VTM_OK, b2\<lparr>buf_data := ?h @ vtm_ws_frame_mask_payload src key\<rparr>)"
    using w(1, 2) d by (simp add: ws_client_frame_def ws_client_desc_def ws_desc_def)
  moreover have "ws_delivers ma par b type src rest"
    if "vtm_buf_inv b" "buf_unread b = (?h @ vtm_ws_frame_mask_payload src key) @ rest" for b rest
    using that assms by (intro ws_frame_delivers [of par True b type key]) simp_all
  ultimately show ?thesis by auto
qed

text \<open>
  A message that a server sends (\<open>vtm_ws_con_send_msg\<close>) is appended to the send buffer of the
  connection as one unmasked frame, and the parser of a client delivers it, under the same bounds.
\<close>

theorem ws_server_message:
  assumes "\<forall>n. ma n" and "length src < 2 ^ 31" and "ws_idle par" "wp_mode par = VTM_WS_MODE_CLIENT"
    and "ws_room par type (length src)" and "buf_room sendbuf (14 + length src)"
  shows "\<exists>frame sendbuf'. vtm_ws_con_send_msg ma VTM_E_IO_AGAIN type src sendbuf = (VTM_OK, sendbuf')
    \<and> buf_ext sendbuf frame sendbuf'
    \<and> (\<forall>b rest. vtm_buf_inv b \<longrightarrow> buf_unread b = frame @ rest \<longrightarrow> ws_delivers ma par b type src rest)"
proof -
  let ?h = "ws_header (ws_desc type False 0 (of_nat (length src)))"
  from ws_frame_written [OF assms(1, 2, 6), of type False 0] obtain b1 b2 where
    w: "vtm_ws_frame_write_header ma sendbuf (ws_desc type False 0 (of_nat (length src))) = (VTM_OK, b1)"
    "vtm_buf_putm ma b1 src = (VTM_OK, b2)" "buf_ext sendbuf ?h b1" "buf_ext b1 src b2" by blast
  have "vtm_ws_con_send_msg ma VTM_E_IO_AGAIN type src sendbuf = (VTM_OK, b2)"
    using w(1, 2) by (simp add: vtm_ws_con_send_msg_def ws_desc_def)
  moreover have "buf_ext sendbuf (?h @ src) b2" using w(3, 4) by (auto simp: buf_ext_def)
  moreover have "ws_delivers ma par b type src rest"
    if "vtm_buf_inv b" "buf_unread b = (?h @ src) @ rest" for b rest
    using that assms by (intro ws_frame_delivers [of par False b type 0]) simp_all
  ultimately show ?thesis by blast
qed

lemma ws_idle_init:
  "ma VTM_WS_PARSER_MSG_BUF_INIT \<Longrightarrow> ws_idle (snd (vtm_ws_parser_init ma par mode))"
  "ma VTM_WS_PARSER_MSG_BUF_INIT \<Longrightarrow> wp_mode (snd (vtm_ws_parser_init ma par mode)) = mode"
  "ma VTM_WS_PARSER_MSG_BUF_INIT \<Longrightarrow> wp_msg_buf_size (snd (vtm_ws_parser_init ma par mode)) = 1024"
  by (simp_all add: vtm_ws_parser_init_def ws_idle_def VTM_WS_PARSER_MSG_BUF_INIT_def VTM_WS_PARSER_MSG_BUF_MAX_def)

theorem ws_client_message_witness:
  "\<exists>frame. ws_client_frame alloc_all VTM_WS_MSG_TEXT 0x12345678 (bytes_of ''hello'') = (VTM_OK, frame)
    \<and> (\<forall>b rest. vtm_buf_inv b \<longrightarrow> buf_unread b = buf_data frame @ rest \<longrightarrow>
         ws_delivers alloc_all (snd (vtm_ws_parser_init alloc_all undefined VTM_WS_MODE_SERVER)) b
           VTM_WS_MSG_TEXT (bytes_of ''hello'') rest)"
  by (rule ws_client_message) (simp_all add: ws_idle_init alloc_all_def ws_room_def bytes_of_def)

theorem ws_server_message_witness:
  "\<exists>frame sendbuf'. vtm_ws_con_send_msg alloc_all VTM_E_IO_AGAIN VTM_WS_MSG_PING [1, 2, 3]
       (vtm_buf_init VTM_BYTEORDER_LE) = (VTM_OK, sendbuf')
    \<and> buf_ext (vtm_buf_init VTM_BYTEORDER_LE) frame sendbuf'
    \<and> (\<forall>b rest. vtm_buf_inv b \<longrightarrow> buf_unread b = frame @ rest \<longrightarrow>
         ws_delivers alloc_all (snd (vtm_ws_parser_init alloc_all undefined VTM_WS_MODE_CLIENT)) b
           VTM_WS_MSG_PING [1, 2, 3] rest)"
  by (rule ws_server_message) (simp_all add: ws_idle_init alloc_all_def ws_room_def buf_room_init)

text \<open>
  C8. A frame may arrive in pieces: when the parser has returned \<open>VTM_NET_RECV_STAT_AGAIN\<close>, calling it
  again once more bytes have arrived gives what a single call on all the bytes would have given.
\<close>

theorem ws_parser_resumes:
  assumes "vtm_buf_inv b" and "buf_ext b bs c"
    and "vtm_ws_parser_run ma par b = Some (VTM_NET_RECV_STAT_AGAIN, par', b')"
  shows "\<exists>c'. buf_ext b' bs c' \<and> vtm_ws_parser_run ma par c = vtm_ws_parser_run ma par' c'"
  using wsp.resume [OF assms] by blast

theorem ws_parser_resumes_witness:
  "\<exists>par par' b' c'. vtm_ws_parser_run alloc_all par (vtm_buf_init VTM_BYTEORDER_LE) =
       Some (VTM_NET_RECV_STAT_AGAIN, par', b')
     \<and> vtm_ws_parser_run alloc_all par (snd (vtm_buf_putm alloc_all (vtm_buf_init VTM_BYTEORDER_LE) [129])) =
       vtm_ws_parser_run alloc_all par' c'"
proof -
  let ?b = "vtm_buf_init VTM_BYTEORDER_LE" and ?p = "undefined\<lparr>wp_stage := VTM_WS_PARSE_FRAME_MASK_LEN7\<rparr>"
  have "vtm_ws_parser_run alloc_all ?p ?b = Some (VTM_NET_RECV_STAT_AGAIN, ?p, ?b)"
    by (simp add: vtm_ws_parser_run.simps ws_parser_step_def need_eq)
  moreover obtain c where "vtm_buf_putm alloc_all ?b [129] = (VTM_OK, c)" "buf_ext ?b [129] c"
    using room_putm [of ?b "[129]" 0 alloc_all] buf_room_init [of 1] by (auto simp: alloc_all_def)
  ultimately show ?thesis using ws_parser_resumes [of ?b "[129]" c alloc_all ?p ?p ?b] by auto
qed

text \<open>
  C39. The message buffer is doubled at most once for a frame: a data frame of more than twice the
  buffer's size is copied beyond its end. In the model that is \<open>None\<close>.
\<close>

theorem ws_data_overflow:
  assumes "\<forall>n. ma n" and "length src < 2 ^ 31" and "ws_idle par" "m \<longleftrightarrow> wp_mode par = VTM_WS_MODE_SERVER"
    and "\<not> vtm_ws_parser_is_control_opcode (ws_msg_type_num type)"
    and "wp_msg_buf_size par < VTM_WS_PARSER_MSG_BUF_MAX" and "2 * unat (wp_msg_buf_size par) < length src"
    and "vtm_buf_inv b"
    and "buf_unread b = ws_header (ws_desc type m key (of_nat (length src)))
      @ (if m then vtm_ws_frame_mask_payload src key else src) @ rest"
  shows "vtm_ws_parser_run ma par b = None"
proof -
  obtain p b' where p: "vtm_ws_parser_run ma par b = vtm_ws_parser_run ma p b'" "ws_input b' rest"
    "ws_payload (wp_payload_begin p) (of_nat (length src)) b' = Some (src, b')" "wp_fin p"
    "wp_stage p = (if vtm_ws_parser_is_control_opcode (ws_msg_type_num type)
       then VTM_WS_PARSE_FRAME_FINISH_CTRL else VTM_WS_PARSE_FRAME_FINISH_DATA)"
    "wp_opcode p = ws_msg_type_num type" "wp_payload_len p = of_nat (length src)"
    "wp_msg_type p = type \<or> vtm_ws_parser_is_control_opcode (ws_msg_type_num type)"
    "wp_msg_frame_count p = 0" "wp_msg_buf_used p = 0" "wp_msg_buf p = wp_msg_buf par" "wp_mode p = wp_mode par"
    "wp_msg_buf_size p = wp_msg_buf_size par" "\<not> wp_has_ctrl_msg p"
    by (rule ws_read_frame [OF assms(3, 4, 8, 9, 2), of ma])
  have small: "unat (wp_msg_buf_size par) < 65536"
    using assms(6) by (simp add: word_less_nat_alt VTM_WS_PARSER_MSG_BUF_MAX_def)
  then have dbl: "unat (wp_msg_buf_size par * 2) = 2 * unat (wp_msg_buf_size par)"
    using unat_mult_lem [of "wp_msg_buf_size par" 2] by simp
  have ul: "unat (of_nat (length src) :: size_t) = length src" using assms(2) by simp
  then have "wp_msg_buf_size par < of_nat (length src)" using assms(7) by (simp add: word_less_nat_alt)
  then have "ws_finish_data ma p b' = PFault"
    using p assms(1, 6, 7) ul dbl by (simp add: ws_finish_data_def ws_append_def Let_def split: option.splits)
  then show ?thesis using p(1, 5) assms(5) by (simp add: vtm_ws_parser_run.simps [of ma p] ws_parser_step_def)
qed

theorem ws_data_overflow_witness:
  "\<exists>b. vtm_buf_inv b \<and> vtm_ws_parser_run alloc_all
     (snd (vtm_ws_parser_init alloc_all undefined VTM_WS_MODE_CLIENT)) b = None"
proof -
  let ?i = "vtm_buf_init VTM_BYTEORDER_LE" and ?src = "replicate 2049 0" and ?m = VTM_WS_MODE_CLIENT
  have ma: "\<forall>n. alloc_all n" by (simp add: alloc_all_def)
  obtain b1 b2 where b: "buf_ext ?i (ws_header (ws_desc VTM_WS_MSG_TEXT False 0 (of_nat (length ?src)))) b1"
    "buf_ext b1 ?src b2"
    by (rule ws_frame_written [OF ma, of ?src ?i VTM_WS_MSG_TEXT False 0]) (simp_all add: buf_room_init)
  then have "buf_unread b2 = ws_header (ws_desc VTM_WS_MSG_TEXT False 0 (of_nat (length ?src))) @ ?src @ []"
    "vtm_buf_inv b2" using buf_ext_unread [of ?i] buf_ext_unread [of b1] by (simp_all add: buf_ext_def)
  then have "vtm_ws_parser_run alloc_all (snd (vtm_ws_parser_init alloc_all undefined ?m)) b2 = None"
    using ma by (intro ws_data_overflow [of _ ?src _ False VTM_WS_MSG_TEXT b2 0 "[]"])
      (simp_all add: ws_idle_init ws_consts vtm_ws_parser_is_control_opcode_def VTM_WS_PARSER_MSG_BUF_MAX_def)
  then show ?thesis using \<open>vtm_buf_inv b2\<close> by blast
qed

text \<open>
  A parser that waits for a frame and finds no byte reports \<open>VTM_NET_RECV_STAT_INVALID\<close>, where it
  reports \<open>VTM_NET_RECV_STAT_AGAIN\<close> for every other missing byte. So a message of two frames is
  refused when the second frame has not arrived with the first.
\<close>

theorem ws_empty_invalid:
  assumes "vtm_buf_inv b" and "buf_unread b = []" and "wp_stage par = VTM_WS_PARSE_FRAME_BEGIN"
  shows "\<exists>par'. vtm_ws_parser_run ma par b = Some (VTM_NET_RECV_STAT_INVALID, par', b)"
  using assms by (simp add: vtm_ws_parser_run.simps ws_parser_step_def need_eq)

theorem ws_empty_invalid_witness:
  "\<exists>par'. vtm_ws_parser_run alloc_all (undefined\<lparr>wp_stage := VTM_WS_PARSE_FRAME_BEGIN\<rparr>)
     (vtm_buf_init VTM_BYTEORDER_LE) = Some (VTM_NET_RECV_STAT_INVALID, par', vtm_buf_init VTM_BYTEORDER_LE)"
  by (rule ws_empty_invalid) simp_all

end
