(* ===== verification/Http.thy ===== *)
theory Http
  imports Dataset
begin

text \<open>
  The vocabulary of \<open>net/http/http.c\<close> and \<open>http.h\<close>: protocol versions, request methods, status
  codes and their phrases, and the names and values of header fields.
\<close>

subsection \<open>Versions\<close>

datatype vtm_http_version = VTM_HTTP_VER_1_0 | VTM_HTTP_VER_1_1

definition VTM_HTTP_VERSIONS :: "cstr option list" where
  "VTM_HTTP_VERSIONS = [Some (bytes_of ''HTTP/1.0''), Some (bytes_of ''HTTP/1.1''), None]"

fun vtm_http_get_version_string :: "vtm_http_version \<Rightarrow> cstr option" where
  "vtm_http_get_version_string VTM_HTTP_VER_1_0 = VTM_HTTP_VERSIONS ! 0"
| "vtm_http_get_version_string VTM_HTTP_VER_1_1 = VTM_HTTP_VERSIONS ! 1"

text \<open>\<open>None\<close> stands for \<open>VTM_E_NOT_FOUND\<close>, with \<open>*ver\<close> left as it is.\<close>

definition vtm_http_get_version :: "u32 \<Rightarrow> u32 \<Rightarrow> vtm_http_version option" where
  "vtm_http_get_version major minor =
     (if major = 1 then
        (if minor = 0 then Some VTM_HTTP_VER_1_0 else if minor = 1 then Some VTM_HTTP_VER_1_1 else None)
      else None)"

subsection \<open>Methods\<close>

datatype vtm_http_method =
    VTM_HTTP_METHOD_GET | VTM_HTTP_METHOD_POST | VTM_HTTP_METHOD_HEAD
  | VTM_HTTP_METHOD_PUT | VTM_HTTP_METHOD_PATCH | VTM_HTTP_METHOD_DELETE
  | VTM_HTTP_METHOD_TRACE | VTM_HTTP_METHOD_OPTIONS | VTM_HTTP_METHOD_CONNECT

text \<open>
  The table of names as the compiler sees it: behind \<open>"DELETE"\<close> and \<open>"TRACE"\<close> a comma is missing, and
  adjacent string literals are one string.
\<close>

definition VTM_HTTP_METHODS :: "cstr option list" where
  "VTM_HTTP_METHODS =
     [Some (bytes_of ''GET''), Some (bytes_of ''POST''), Some (bytes_of ''HEAD''), Some (bytes_of ''PUT''),
      Some (bytes_of ''PATCH''), Some (bytes_of ''DELETETRACEOPTIONS''), Some (bytes_of ''CONNECT''), None]"

text \<open>The cast of a number to the enumeration, and an enumerator as an index.\<close>

definition http_method_list :: "vtm_http_method list" where
  "http_method_list =
     [VTM_HTTP_METHOD_GET, VTM_HTTP_METHOD_POST, VTM_HTTP_METHOD_HEAD,
      VTM_HTTP_METHOD_PUT, VTM_HTTP_METHOD_PATCH, VTM_HTTP_METHOD_DELETE,
      VTM_HTTP_METHOD_TRACE, VTM_HTTP_METHOD_OPTIONS, VTM_HTTP_METHOD_CONNECT]"

fun http_method_num :: "vtm_http_method \<Rightarrow> nat" where
  "http_method_num VTM_HTTP_METHOD_GET = 0"
| "http_method_num VTM_HTTP_METHOD_POST = 1"
| "http_method_num VTM_HTTP_METHOD_HEAD = 2"
| "http_method_num VTM_HTTP_METHOD_PUT = 3"
| "http_method_num VTM_HTTP_METHOD_PATCH = 4"
| "http_method_num VTM_HTTP_METHOD_DELETE = 5"
| "http_method_num VTM_HTTP_METHOD_TRACE = 6"
| "http_method_num VTM_HTTP_METHOD_OPTIONS = 7"
| "http_method_num VTM_HTTP_METHOD_CONNECT = 8"

fun http_get_method_loop :: "cstr \<Rightarrow> nat \<Rightarrow> cstr option list \<Rightarrow> vtm_http_method option" where
  "http_get_method_loop str i [] = None"
| "http_get_method_loop str i (None # ms) = None"
| "http_get_method_loop str i (Some m # ms) =
     (if str = m then Some (http_method_list ! i) else http_get_method_loop str (Suc i) ms)"

text \<open>\<open>None\<close> stands for \<open>VTM_E_NOT_FOUND\<close>, with \<open>*method\<close> left as it is.\<close>

definition vtm_http_get_method :: "cstr \<Rightarrow> vtm_http_method option" where
  "vtm_http_get_method str = http_get_method_loop str 0 VTM_HTTP_METHODS"

subsection \<open>Status codes\<close>

definition vtm_http_get_status_phrase :: "int \<Rightarrow> cstr" where
  "vtm_http_get_status_phrase code =
     bytes_of (
       if code = 100 then ''Continue''
       else if code = 101 then ''Switching Protocols''
       else if code = 102 then ''Processing''
       else if code = 200 then ''OK''
       else if code = 300 then ''Multiple Choices''
       else if code = 301 then ''Moved Permanently''
       else if code = 302 then ''Moved Temporarily''
       else if code = 303 then ''See other''
       else if code = 304 then ''Not modified''
       else if code = 305 then ''Use proxy''
       else if code = 306 then ''Reserved''
       else if code = 307 then ''Temporary redirect''
       else if code = 308 then ''Permanent redirect''
       else if code = 400 then ''Bad request''
       else if code = 401 then ''Unauthorized''
       else if code = 402 then ''Reserved''
       else if code = 403 then ''Forbidden''
       else if code = 404 then ''Not found''
       else if code = 405 then ''Method not allowed''
       else if code = 500 then ''Internal server error''
       else if code = 501 then ''Not implemented''
       else if code = 502 then ''Bad gateway''
       else if code = 503 then ''Service unavailable''
       else if code = 504 then ''Gateway timeout''
       else if code = 505 then ''HTTP Version not supported''
       else ''Unknown'')"

subsection \<open>Header fields\<close>

definition VTM_HTTP_HEADER_AUTHORIZATION :: cstr where
  "VTM_HTTP_HEADER_AUTHORIZATION = bytes_of ''Authorization''"

definition VTM_HTTP_HEADER_CONNECTION :: cstr where
  "VTM_HTTP_HEADER_CONNECTION = bytes_of ''Connection''"

definition VTM_HTTP_HEADER_CONTENT_LENGTH :: cstr where
  "VTM_HTTP_HEADER_CONTENT_LENGTH = bytes_of ''Content-Length''"

definition VTM_HTTP_HEADER_CONTENT_TYPE :: cstr where
  "VTM_HTTP_HEADER_CONTENT_TYPE = bytes_of ''Content-Type''"

definition VTM_HTTP_HEADER_DATE :: cstr where
  "VTM_HTTP_HEADER_DATE = bytes_of ''Date''"

definition VTM_HTTP_HEADER_EXPIRES :: cstr where
  "VTM_HTTP_HEADER_EXPIRES = bytes_of ''Expires''"

definition VTM_HTTP_HEADER_HOST :: cstr where
  "VTM_HTTP_HEADER_HOST = bytes_of ''Host''"

definition VTM_HTTP_HEADER_SERVER :: cstr where
  "VTM_HTTP_HEADER_SERVER = bytes_of ''Server''"

definition VTM_HTTP_HEADER_TRANSFER_ENCODING :: cstr where
  "VTM_HTTP_HEADER_TRANSFER_ENCODING = bytes_of ''Transfer-Encoding''"

definition VTM_HTTP_HEADER_UPGRADE :: cstr where
  "VTM_HTTP_HEADER_UPGRADE = bytes_of ''Upgrade''"

definition VTM_HTTP_HEADER_USER_AGENT :: cstr where
  "VTM_HTTP_HEADER_USER_AGENT = bytes_of ''User-Agent''"

definition VTM_HTTP_HEADER_WWW_AUTHENTICATE :: cstr where
  "VTM_HTTP_HEADER_WWW_AUTHENTICATE = bytes_of ''WWW-Authenticate''"

definition VTM_HTTP_HEADER_SEC_WEBSOCKET_ACCEPT :: cstr where
  "VTM_HTTP_HEADER_SEC_WEBSOCKET_ACCEPT = bytes_of ''Sec-WebSocket-Accept''"

definition VTM_HTTP_HEADER_SEC_WEBSOCKET_KEY :: cstr where
  "VTM_HTTP_HEADER_SEC_WEBSOCKET_KEY = bytes_of ''Sec-WebSocket-Key''"

definition VTM_HTTP_HEADER_SEC_WEBSOCKET_PROTOCOL :: cstr where
  "VTM_HTTP_HEADER_SEC_WEBSOCKET_PROTOCOL = bytes_of ''Sec-WebSocket-Protocol''"

definition VTM_HTTP_HEADER_SEC_WEBSOCKET_VERSION :: cstr where
  "VTM_HTTP_HEADER_SEC_WEBSOCKET_VERSION = bytes_of ''Sec-WebSocket-Version''"

definition VTM_HTTP_VALUE_CHUNKED :: cstr where
  "VTM_HTTP_VALUE_CHUNKED = bytes_of ''chunked''"

definition VTM_HTTP_VALUE_CLOSE :: cstr where
  "VTM_HTTP_VALUE_CLOSE = bytes_of ''close''"

definition VTM_HTTP_VALUE_IDENTITY :: cstr where
  "VTM_HTTP_VALUE_IDENTITY = bytes_of ''identity''"

definition VTM_HTTP_VALUE_KEEP_ALIVE :: cstr where
  "VTM_HTTP_VALUE_KEEP_ALIVE = bytes_of ''keep-alive''"

definition VTM_HTTP_VALUE_UPGRADE :: cstr where
  "VTM_HTTP_VALUE_UPGRADE = bytes_of ''Upgrade''"

definition VTM_HTTP_VALUE_WEBSOCKET :: cstr where
  "VTM_HTTP_VALUE_WEBSOCKET = bytes_of ''websocket''"

lemmas http_names =
  VTM_HTTP_HEADER_AUTHORIZATION_def VTM_HTTP_HEADER_CONNECTION_def
  VTM_HTTP_HEADER_CONTENT_LENGTH_def VTM_HTTP_HEADER_CONTENT_TYPE_def
  VTM_HTTP_HEADER_DATE_def VTM_HTTP_HEADER_EXPIRES_def
  VTM_HTTP_HEADER_HOST_def VTM_HTTP_HEADER_SERVER_def
  VTM_HTTP_HEADER_TRANSFER_ENCODING_def VTM_HTTP_HEADER_UPGRADE_def
  VTM_HTTP_HEADER_USER_AGENT_def VTM_HTTP_HEADER_WWW_AUTHENTICATE_def
  VTM_HTTP_HEADER_SEC_WEBSOCKET_ACCEPT_def VTM_HTTP_HEADER_SEC_WEBSOCKET_KEY_def
  VTM_HTTP_HEADER_SEC_WEBSOCKET_PROTOCOL_def VTM_HTTP_HEADER_SEC_WEBSOCKET_VERSION_def
  VTM_HTTP_VALUE_CHUNKED_def VTM_HTTP_VALUE_CLOSE_def
  VTM_HTTP_VALUE_IDENTITY_def VTM_HTTP_VALUE_KEEP_ALIVE_def
  VTM_HTTP_VALUE_UPGRADE_def VTM_HTTP_VALUE_WEBSOCKET_def

subsection \<open>Methods and their names\<close>

lemmas http_methods_simps =
  vtm_http_get_method_def VTM_HTTP_METHODS_def http_method_list_def bytes_of_def

text \<open>
  The name that the client sends for a method is read back as this method for the first five; for
  the others the table has no entry or the entry of another method.
\<close>

lemma http_method_names:
  "vtm_http_get_method (bytes_of ''GET'') = Some VTM_HTTP_METHOD_GET"
  "vtm_http_get_method (bytes_of ''POST'') = Some VTM_HTTP_METHOD_POST"
  "vtm_http_get_method (bytes_of ''HEAD'') = Some VTM_HTTP_METHOD_HEAD"
  "vtm_http_get_method (bytes_of ''PUT'') = Some VTM_HTTP_METHOD_PUT"
  "vtm_http_get_method (bytes_of ''PATCH'') = Some VTM_HTTP_METHOD_PATCH"
  by (simp_all add: http_methods_simps)

text \<open>
  The table of method names lacks two commas: \<open>DELETE\<close>, \<open>TRACE\<close> and \<open>OPTIONS\<close> are refused, and
  \<open>CONNECT\<close> is taken for \<open>TRACE\<close>.
\<close>

theorem http_methods_broken:
  "vtm_http_get_method (bytes_of ''DELETE'') = None
   \<and> vtm_http_get_method (bytes_of ''TRACE'') = None
   \<and> vtm_http_get_method (bytes_of ''OPTIONS'') = None
   \<and> vtm_http_get_method (bytes_of ''CONNECT'') = Some VTM_HTTP_METHOD_TRACE"
  by (simp add: http_methods_simps)

end
