(* ===== verification/DatasetText.thy ===== *)
theory DatasetText
  imports Dataset
begin

text \<open>
  Datasets whose values are strings, as the HTTP code uses them for headers and parameters: what
  \<open>vtm_dataset_get_string\<close> and \<open>vtm_dataset_set_string\<close> do on them.
\<close>

text \<open>The text of a string value; asking for it once stores it in the variant.\<close>

definition var_text :: "vtm_variant \<Rightarrow> cstr" where
  "var_text v = (case var_str v of Some s \<Rightarrow> s | None \<Rightarrow> elem_str (var_data v))"

definition ds_text :: "vtm_dataset \<Rightarrow> cstr \<Rightarrow> cstr option" where
  "ds_text ds name = map_option (var_text \<circ> fst) (ds_store_get ds name)"

definition ds_strings :: "bool \<Rightarrow> vtm_dataset \<Rightarrow> bool" where
  "ds_strings nocase ds \<longleftrightarrow> vtm_dataset_inv nocase ds
     \<and> (\<forall>n v. no_nul n \<longrightarrow> ds_store_get ds n = Some v \<longrightarrow> var_type (fst v) = VTM_ELEM_STRING
          \<and> var_str (fst v) \<in> {None, Some (elem_str (var_data (fst v)))})"

text \<open>Changing the value of a node in place has the effect of putting a node with its key.\<close>

lemma chain_pos_cong:
  assumes "\<And>e. e \<in> set es \<Longrightarrow> cmp (key e) k = cmp (key e) k'"
  shows "chain_pos cmp key k es = chain_pos cmp key k' es"
  using assms by (induction es) auto

context smap_client
begin

lemma get_cong:
  assumes inv: "smap_inv ok cmp hash norm key sm" and ok: "ok (var_data k)" "ok (var_data k')"
    and eq: "norm (var_data k) = norm (var_data k')"
  shows "VTM_SMAP_GET key sm k = VTM_SMAP_GET key sm k'"
proof -
  have tinv: "table_inv ok hash norm (var_data \<circ> key) (sm_buckets sm)" and cmp: "sm_key_cmp sm = Some cmp"
    using inv by (simp_all add: smap_inv_def)
  have idx: "VTM_SMAP_INDEX sm k = VTM_SMAP_INDEX sm k'" using hash_resp [OF ok eq] by (simp add: index_eq [OF inv])
  note ch = tab.table_chain [OF tinv, of "var_data k'", folded index_eq [OF inv]]
  have "chain_pos cmp (var_data \<circ> key) (var_data k) (sm_buckets sm ! VTM_SMAP_INDEX sm k') =
      chain_pos cmp (var_data \<circ> key) (var_data k') (sm_buckets sm ! VTM_SMAP_INDEX sm k')"
    using ch(3) cmp_iff [OF _ ok(1)] cmp_iff [OF _ ok(2)] eq by (intro chain_pos_cong) simp
  then show ?thesis using cmp by (simp add: VTM_SMAP_GET_def idx Let_def)
qed

lemma put_at:
  assumes inv: "smap_inv ok cmp hash norm key sm" and ok: "ok (var_data k)"
    and p: "VTM_SMAP_GET key sm k = Some p" and node: "key node = key (smap_node sm p)"
  shows "VTM_SMAP_PUT key sm node =
      (sm\<lparr>sm_buckets := (sm_buckets sm)[fst p := (sm_buckets sm ! fst p)[snd p := node]]\<rparr>, Some (smap_node sm p))"
    and "ok (var_data (key node))" and "norm (var_data (key node)) = norm (var_data k)"
proof -
  define i where "i = VTM_SMAP_INDEX sm k"
  have tinv: "table_inv ok hash norm (var_data \<circ> key) (sm_buckets sm)" and cmp: "sm_key_cmp sm = Some cmp"
    using inv by (simp_all add: smap_inv_def)
  note ch = tab.table_chain [OF tinv, of "var_data k", folded index_eq [OF inv] i_def]
  obtain j where j: "chain_pos cmp (var_data \<circ> key) (var_data k) (sm_buckets sm ! i) = Some j" and pij: "p = (i, j)"
    using p cmp by (auto simp: VTM_SMAP_GET_def i_def Let_def)
  note at = chain_pos_SomeD [OF j]
  have n: "smap_node sm p = sm_buckets sm ! i ! j" by (simp add: smap_node_def pij)
  show okn: "ok (var_data (key node))" using ch(3) at by (simp add: node n)
  show eq: "norm (var_data (key node)) = norm (var_data k)" using at cmp_iff [OF okn ok] by (simp add: node n)
  have "hash (var_data (key node)) = hash (var_data k)" by (rule hash_resp [OF okn ok eq])
  then have idx: "VTM_SMAP_INDEX sm (key node) = i" by (simp add: index_eq [OF inv] i_def)
  have "chain_pos cmp (var_data \<circ> key) (var_data (key node)) (sm_buckets sm ! i) = Some j"
    using chain_pos_cong [of "sm_buckets sm ! i" cmp "var_data \<circ> key" "var_data (key node)" "var_data k"]
      ch(3) cmp_iff [OF _ okn] cmp_iff [OF _ ok] eq j by simp
  then show "VTM_SMAP_PUT key sm node =
      (sm\<lparr>sm_buckets := (sm_buckets sm)[fst p := (sm_buckets sm ! fst p)[snd p := node]]\<rparr>, Some (smap_node sm p))"
    using put_eq [OF inv, of node] by (simp add: idx smap_put_loop_eq pij n smap_node_def)
qed

end

lemma ds_update_value_law:
  assumes inv: "vtm_dataset_inv nocase ds" and "no_nul name" and p: "vtm_dataset_get_node ds name = Some p"
  shows "vtm_dataset_inv nocase (ds_update_value ds p v)
    \<and> (\<forall>n. no_nul n \<longrightarrow> ds_store_get (ds_update_value ds p v) n =
         (if ds_norm nocase n = ds_norm nocase name
          then Some (v, dn_free_val_ptr (smap_node (ds_vars ds) p)) else ds_store_get ds n))"
proof -
  let ?node = "smap_node (ds_vars ds) p"
  note sinv = inv [unfolded vtm_dataset_inv_def]
  note at = dk.put_at [OF sinv _ p [unfolded vtm_dataset_get_node_def], of "?node\<lparr>dn_value := v\<rparr>"]
  have put: "VTM_SMAP_PUT dn_key (ds_vars ds) (?node\<lparr>dn_value := v\<rparr>) = (ds_vars (ds_update_value ds p v), Some ?node)"
    using at(1) assms(2) by (simp add: ds_update_value_def smap_node_def Let_def)
  note law = dk.put_law [OF sinv _ put]
  show ?thesis
    using law(1) law(2) [of "vtm_variant_from_str n" for n] at(2, 3) assms(2)
    by (simp add: vtm_dataset_inv_def ds_store_get_eq)
qed

lemma ds_strings_init: "ds_strings True (vtm_dataset_newh VTM_DS_HINT_IGNORE_CASE)"
  "no_nul n \<Longrightarrow> ds_text (vtm_dataset_newh VTM_DS_HINT_IGNORE_CASE) n = None"
  using ds_init_inv [of VTM_DS_HINT_IGNORE_CASE]
  by (simp_all add: ds_strings_def ds_text_def vtm_dataset_newh_def VTM_DS_HINT_IGNORE_CASE_def)

lemma ds_set_string:
  assumes "ds_strings nocase ds" and "no_nul name" and "ds' = fst (vtm_dataset_set_string ds name (Some s))"
  shows "ds_strings nocase ds'"
    and "\<And>n. no_nul n \<Longrightarrow> ds_text ds' n = (if ds_norm nocase n = ds_norm nocase name then Some s else ds_text ds n)"
proof -
  have "vtm_dataset_inv nocase ds" using assms(1) by (simp add: ds_strings_def)
  from ds_put_law [OF this assms(2), of "(vtm_variant_from_str s, True)" ds']
  have law: "vtm_dataset_inv nocase ds'" "\<And>n. no_nul n \<Longrightarrow> ds_store_get ds' n =
      (if ds_norm nocase n = ds_norm nocase name then Some (vtm_variant_from_str s, True) else ds_store_get ds n)"
    by (simp_all add: assms(3) ds_store_put_def vtm_dataset_set_string_def VTM_DATASET_CHECK_NULL_VALUE_def
        vtm_str_copy_def)
  then show "ds_strings nocase ds'"
    using assms(1) by (auto simp: ds_strings_def vtm_variant_from_str_def)
  show "ds_text ds' n = (if ds_norm nocase n = ds_norm nocase name then Some s else ds_text ds n)"
    if "no_nul n" for n using law(2) [OF that] by (simp add: ds_text_def var_text_def vtm_variant_from_str_def)
qed

lemma ds_get_string:
  assumes "ds_strings nocase ds" and "no_nul name"
  obtains ds' where "vtm_dataset_get_string ma ds name = Inr (ds_text ds name, ds')" "ds_strings nocase ds'"
    "\<And>n. no_nul n \<Longrightarrow> ds_text ds' n = ds_text ds n"
proof (cases "vtm_dataset_get_node ds name")
  case None
  then have "vtm_dataset_get_string ma ds name = Inr (ds_text ds name, ds)"
    by (simp add: vtm_dataset_get_string_def ds_text_def ds_store_get_def)
  then show thesis using that assms(1) by blast
next
  case (Some p)
  have inv: "vtm_dataset_inv nocase ds" using assms(1) by (simp add: ds_strings_def)
  define v where "v = dn_value (smap_node (ds_vars ds) p)"
  define v' where "v' = v\<lparr>var_str := Some (var_text v)\<rparr>"
  have get: "ds_store_get ds name = Some (v, dn_free_val_ptr (smap_node (ds_vars ds) p))"
    using Some by (simp add: ds_store_get_def v_def Let_def)
  then have v: "var_type v = VTM_ELEM_STRING" "var_str v \<in> {None, Some (elem_str (var_data v))}"
    using assms by (force simp: ds_strings_def)+
  then have str: "vtm_variant_as_str ma v = Inr (Some (var_text v), v')"
    by (auto simp: vtm_variant_as_str_def vtm_elem_as_str_def var_text_def v'_def)
  note law = ds_update_value_law [OF inv assms(2) Some, of v']
  have t: "var_text v' = var_text v" by (simp add: var_text_def v'_def)
  show thesis
  proof (rule that [of "ds_update_value ds p v'"])
    show "vtm_dataset_get_string ma ds name = Inr (ds_text ds name, ds_update_value ds p v')"
      using Some str get by (simp add: vtm_dataset_get_string_def ds_text_def flip: v_def)
    show "ds_strings nocase (ds_update_value ds p v')"
      using law assms(1) v by (auto simp: ds_strings_def v'_def var_text_def)
    fix n
    assume n: "no_nul n"
    have "ds_store_get ds n = ds_store_get ds name" if "ds_norm nocase n = ds_norm nocase name"
      using dk.get_cong [OF inv [unfolded vtm_dataset_inv_def], of "vtm_variant_from_str n" "vtm_variant_from_str name"]
        n assms(2) that by (simp add: ds_store_get_eq)
    then show "ds_text (ds_update_value ds p v') n = ds_text ds n"
      using law n get t by (simp add: ds_text_def)
  qed
qed

lemma ds_text_uint64:
  assumes "ds_strings nocase ds" and "no_nul name" and "ds_text ds name = Some s"
  shows "vtm_dataset_get_uint64 ds name = Inr (vtm_conv_str_int64 s)"
proof -
  obtain p where p: "vtm_dataset_get_node ds name = Some p" using assms(3) by (auto simp: ds_text_def ds_store_get_def split: option.splits)
  define v where "v = dn_value (smap_node (ds_vars ds) p)"
  have get: "ds_store_get ds name = Some (v, dn_free_val_ptr (smap_node (ds_vars ds) p))"
    using p by (simp add: ds_store_get_def v_def Let_def)
  then have "var_type v = VTM_ELEM_STRING" "var_str v \<in> {None, Some (elem_str (var_data v))}" "var_text v = s"
    using assms by (force simp: ds_strings_def ds_text_def)+
  then show ?thesis using p
    by (auto simp: vtm_dataset_get_uint64_def VTM_DATASET_GET_def vtm_dataset_get_variant_def vtm_variant_as_int64_def
        vtm_elem_as_int64_def VTM_ELEM_CONV_NUMERIC_def var_text_def simp flip: v_def)
qed

end
