(* ===== verification/HttpParser.thy ===== *)
theory HttpParser
  imports Http DatasetText Reader
begin

text \<open>
  The parser of \<open>net/http/http_parser.c\<close>. It looks at every byte once, in a loop over the bytes of the
  buffer, with a jump back (\<open>goto eval\<close>) when a byte is to be looked at again in another state. The
  strings it returns are in the buffer, where it overwrites separators with 0; a pointer into the
  buffer is its offset. Whether a dataset can be allocated is the argument \<open>mem\<close>.
\<close>

definition VTM_HTTP_DEF_MAX_HEADER_SIZE :: size_t where
  "VTM_HTTP_DEF_MAX_HEADER_SIZE = 8192"

definition VTM_HTTP_DEF_MAX_BODY_SIZE :: size_t where
  "VTM_HTTP_DEF_MAX_BODY_SIZE = 8 * 1024 * 1024"

datatype vtm_http_parser_mode = VTM_HTTP_PM_REQUEST | VTM_HTTP_PM_RESPONSE

datatype vtm_http_parser_state =
    VTM_HTTP_PARSE_BEGIN | VTM_HTTP_PARSE_REQ_METHOD | VTM_HTTP_PARSE_REQ_PATH
  | VTM_HTTP_PARSE_REQ_PARAM_BEGIN | VTM_HTTP_PARSE_REQ_PARAM_NAME | VTM_HTTP_PARSE_REQ_PARAM_VALUE
  | VTM_HTTP_PARSE_REQ_LINE_LF | VTM_HTTP_PARSE_RES_STATUS_CODE | VTM_HTTP_PARSE_RES_STATUS_MSG_CR
  | VTM_HTTP_PARSE_RES_STATUS_MSG_LF | VTM_HTTP_PARSE_VERSION_H | VTM_HTTP_PARSE_VERSION_HT
  | VTM_HTTP_PARSE_VERSION_HTT | VTM_HTTP_PARSE_VERSION_HTTP | VTM_HTTP_PARSE_VERSION_SLASH
  | VTM_HTTP_PARSE_VERSION_MAJOR | VTM_HTTP_PARSE_VERSION_MINOR | VTM_HTTP_PARSE_HEADER_LINE_BEGIN
  | VTM_HTTP_PARSE_HEADER_NAME | VTM_HTTP_PARSE_HEADER_VALUE | VTM_HTTP_PARSE_HEADER_LINE_LF
  | VTM_HTTP_PARSE_HEADER_LINE_COMPLETE | VTM_HTTP_PARSE_HEADERS_END_LF | VTM_HTTP_PARSE_BODY
  | VTM_HTTP_PARSE_BODY_READALL | VTM_HTTP_PARSE_BODY_FIXEDLENGTH | VTM_HTTP_PARSE_BODY_CHUNKED
  | VTM_HTTP_PARSE_BODY_CHUNK_SIZE | VTM_HTTP_PARSE_BODY_CHUNK_SIZE_LF | VTM_HTTP_PARSE_BODY_CHUNK_CONTENT
  | VTM_HTTP_PARSE_BODY_CHUNK_END_LF | VTM_HTTP_PARSE_COMPLETE

text \<open>\<open>state >= VTM_HTTP_PARSE_BODY\<close> in the order of the enumeration.\<close>

definition http_in_body :: "vtm_http_parser_state \<Rightarrow> bool" where
  "http_in_body st \<longleftrightarrow> st \<in> {VTM_HTTP_PARSE_BODY, VTM_HTTP_PARSE_BODY_READALL, VTM_HTTP_PARSE_BODY_FIXEDLENGTH,
     VTM_HTTP_PARSE_BODY_CHUNKED, VTM_HTTP_PARSE_BODY_CHUNK_SIZE, VTM_HTTP_PARSE_BODY_CHUNK_SIZE_LF,
     VTM_HTTP_PARSE_BODY_CHUNK_CONTENT, VTM_HTTP_PARSE_BODY_CHUNK_END_LF, VTM_HTTP_PARSE_COMPLETE}"

record vtm_http_parser =
  hp_mode :: vtm_http_parser_mode
  hp_state :: vtm_http_parser_state
  hp_max_header_size :: size_t
  hp_max_body_size :: size_t
  hp_req_method :: vtm_http_method
  hp_req_path :: "size_t option"
  hp_req_params :: "vtm_dataset option"
  hp_req_params_free :: bool
  hp_res_status_code :: int
  hp_res_status_msg :: "size_t option"
  hp_version :: vtm_http_version
  hp_headers :: "vtm_dataset option"
  hp_headers_free :: bool
  hp_body :: "size_t option"
  hp_body_len :: u64
  hp_version_major :: u32
  hp_version_minor :: u32
  hp_state_chars :: size_t
  hp_status_msg_begin :: size_t
  hp_path_begin :: size_t
  hp_param_name_begin :: size_t
  hp_header_name_begin :: size_t
  hp_header_value_begin :: size_t
  hp_body_begin :: size_t
  hp_chunk_dst :: size_t
  hp_chunk_begin :: size_t
  hp_chunk_size :: size_t

definition vtm_http_parser_reset :: "vtm_http_parser \<Rightarrow> vtm_http_parser" where
  "vtm_http_parser_reset par = par\<lparr>
     hp_state := VTM_HTTP_PARSE_BEGIN, hp_state_chars := 0,
     hp_req_method := VTM_HTTP_METHOD_GET, hp_req_path := None, hp_req_params := None,
     hp_req_params_free := False, hp_res_status_code := 0, hp_res_status_msg := None,
     hp_version := VTM_HTTP_VER_1_0, hp_version_major := 0, hp_version_minor := 0,
     hp_headers := None, hp_headers_free := False, hp_body := None, hp_body_len := 0,
     hp_status_msg_begin := 0, hp_path_begin := 0, hp_param_name_begin := 0,
     hp_header_name_begin := 0, hp_header_value_begin := 0,
     hp_body_begin := 0, hp_chunk_dst := 0, hp_chunk_begin := 0, hp_chunk_size := 0\<rparr>"

definition vtm_http_parser_init :: "vtm_http_parser \<Rightarrow> vtm_http_parser_mode \<Rightarrow> vtm_http_parser" where
  "vtm_http_parser_init par mode =
     vtm_http_parser_reset (par\<lparr>hp_mode := mode, hp_max_header_size := VTM_HTTP_DEF_MAX_HEADER_SIZE,
       hp_max_body_size := VTM_HTTP_DEF_MAX_BODY_SIZE\<rparr>)"

text \<open>What is freed: the body, the headers and the parameters.\<close>

definition vtm_http_parser_release ::
    "vtm_http_parser \<Rightarrow> size_t option \<times> vtm_dataset option \<times> vtm_dataset option" where
  "vtm_http_parser_release par =
     (hp_body par,
      if hp_headers_free par then hp_headers par else None,
      if hp_req_params_free par then hp_req_params par else None)"

definition VTM_HTTP_PARSER_MARK_BODY :: "vtm_http_parser \<Rightarrow> vtm_http_parser" where
  "VTM_HTTP_PARSER_MARK_BODY par =
     (if hp_body_len par > 0 then par\<lparr>hp_body := Some (hp_body_begin par)\<rparr> else par)"

definition vtm_http_parser_isspace :: "byte \<Rightarrow> bool" where
  "vtm_http_parser_isspace c \<longleftrightarrow> c = byte_of CHR '' '' \<or> c = 9"

subsection \<open>Accesses to the data of the buffer\<close>

text \<open>\<open>buf->data[i] = v\<close> and the C string at \<open>buf->data + i\<close>; \<open>None\<close> is an access behind the used bytes.\<close>

definition buf_poke :: "size_t \<Rightarrow> byte \<Rightarrow> vtm_buf \<Rightarrow> vtm_buf option" where
  "buf_poke i v b =
     (if unat i < length (buf_data b) then Some (b\<lparr>buf_data := (buf_data b)[unat i := v]\<rparr>) else None)"

definition buf_cstr :: "size_t \<Rightarrow> vtm_buf \<Rightarrow> cstr option" where
  "buf_cstr i b =
     (if 0 \<in> set (drop (unat i) (buf_data b))
      then Some (takeWhile (\<lambda>c. c \<noteq> 0) (drop (unat i) (buf_data b))) else None)"

definition buf_memmove :: "size_t \<Rightarrow> size_t \<Rightarrow> size_t \<Rightarrow> vtm_buf \<Rightarrow> vtm_buf option" where
  "buf_memmove dst src n b =
     (let d = buf_data b; i = unat dst; j = unat src; k = unat n
      in if i + k \<le> length d \<and> j + k \<le> length d
         then Some (b\<lparr>buf_data := take i d @ take k (drop j d) @ drop (i + k) d\<rparr>) else None)"

text \<open>\<open>while (vtm_http_parser_isspace (buf->data[j])) j--;\<close>\<close>

fun http_trim_end :: "byte list \<Rightarrow> nat \<Rightarrow> nat option" where
  "http_trim_end d j =
     (if j < length d then
        (if vtm_http_parser_isspace (d ! j)
         then (case j of 0 \<Rightarrow> None | Suc i \<Rightarrow> http_trim_end d i)
         else Some j)
      else None)"

declare http_trim_end.simps [simp del]

subsection \<open>One byte\<close>

text \<open>
  How the evaluation of a byte ends: with the next byte (\<open>break\<close> and \<open>continue\<close>), with \<open>goto eval\<close>, or with
  a \<open>return\<close>.
\<close>

datatype http_act =
    HNext vtm_http_parser vtm_buf
  | HEval vtm_http_parser vtm_buf
  | HStop vtm_net_recv_stat vtm_http_parser vtm_buf
  | HFault

definition http_try :: "'a option \<Rightarrow> ('a \<Rightarrow> http_act) \<Rightarrow> http_act" where
  "http_try x k = (case x of None \<Rightarrow> HFault | Some y \<Rightarrow> k y)"

definition http_expect :: "byte \<Rightarrow> byte \<Rightarrow> vtm_http_parser_state \<Rightarrow> vtm_http_parser \<Rightarrow> vtm_buf \<Rightarrow> http_act" where
  "http_expect want c st par b =
     (if c \<noteq> want then HStop VTM_NET_RECV_STAT_INVALID par b else HNext (par\<lparr>hp_state := st\<rparr>) b)"

definition http_begin :: "vtm_http_parser \<Rightarrow> vtm_buf \<Rightarrow> http_act" where
  "http_begin par b =
     HEval (par\<lparr>hp_state := (case hp_mode par of
        VTM_HTTP_PM_REQUEST \<Rightarrow> VTM_HTTP_PARSE_REQ_METHOD
      | VTM_HTTP_PM_RESPONSE \<Rightarrow> VTM_HTTP_PARSE_VERSION_H)\<rparr>) b"

definition http_req_method :: "byte \<Rightarrow> vtm_http_parser \<Rightarrow> vtm_buf \<Rightarrow> http_act" where
  "http_req_method c par b =
     (if c \<noteq> byte_of CHR '' '' then HNext par b
      else http_try (buf_poke (buf_read b - 1) 0 b) (\<lambda>b.
             http_try (buf_cstr 0 b) (\<lambda>str.
               case vtm_http_get_method str of
                 None \<Rightarrow> HStop VTM_NET_RECV_STAT_INVALID par b
               | Some m \<Rightarrow> HNext (par\<lparr>hp_req_method := m, hp_state := VTM_HTTP_PARSE_REQ_PATH\<rparr>) b)))"

definition http_req_path :: "byte \<Rightarrow> vtm_http_parser \<Rightarrow> vtm_buf \<Rightarrow> http_act" where
  "http_req_path c par b =
     (let go = (\<lambda>st. http_try (buf_poke (buf_read b - 1) 0 b) (\<lambda>b.
                  HNext (par\<lparr>hp_state := st, hp_req_path := Some (buf_read b - hp_state_chars par)\<rparr>) b))
      in if c = byte_of CHR '' '' then go VTM_HTTP_PARSE_VERSION_H
         else if c = byte_of CHR ''?'' then go VTM_HTTP_PARSE_REQ_PARAM_BEGIN
         else HNext par b)"

definition http_param_name :: "byte \<Rightarrow> vtm_http_parser \<Rightarrow> vtm_buf \<Rightarrow> http_act" where
  "http_param_name c par b =
     (if c = byte_of CHR '' '' then HNext (par\<lparr>hp_state := VTM_HTTP_PARSE_VERSION_H\<rparr>) b
      else if c = byte_of CHR ''&'' then HNext (par\<lparr>hp_state := VTM_HTTP_PARSE_REQ_PARAM_BEGIN\<rparr>) b
      else if c = byte_of CHR ''=''
      then if hp_state_chars par > 1
           then http_try (buf_poke (buf_read b - 1) 0 b) (\<lambda>b.
                  HNext (par\<lparr>hp_param_name_begin := buf_read b - hp_state_chars par,
                             hp_state := VTM_HTTP_PARSE_REQ_PARAM_VALUE\<rparr>) b)
           else HNext (par\<lparr>hp_state := VTM_HTTP_PARSE_REQ_PARAM_VALUE\<rparr>) b
      else HNext par b)"

definition http_param_save :: "bool \<Rightarrow> vtm_http_parser \<Rightarrow> vtm_buf \<Rightarrow> http_act" where
  "http_param_save mem par b =
     http_try (buf_poke (buf_read b - 1) 0 b) (\<lambda>b.
       if hp_req_params par = None \<and> \<not> mem then HStop VTM_NET_RECV_STAT_ERROR par b
       else
         let params = (case hp_req_params par of None \<Rightarrow> vtm_dataset_new | Some ds \<Rightarrow> ds)
         in http_try (buf_cstr (hp_param_name_begin par) b) (\<lambda>name.
              http_try (buf_cstr (buf_read b - hp_state_chars par) b) (\<lambda>val.
                HNext (par\<lparr>hp_req_params := Some (fst (vtm_dataset_set_string params name (Some val)))\<rparr>) b)))"

definition http_param_value :: "bool \<Rightarrow> byte \<Rightarrow> vtm_http_parser \<Rightarrow> vtm_buf \<Rightarrow> http_act" where
  "http_param_value mem c par b =
     (let go = (\<lambda>st. let par = par\<lparr>hp_state := st\<rparr>
                in if hp_param_name_begin par = 0 then HNext par b else http_param_save mem par b)
      in if c = byte_of CHR '' '' then go VTM_HTTP_PARSE_VERSION_H
         else if c = byte_of CHR ''&'' then go VTM_HTTP_PARSE_REQ_PARAM_BEGIN
         else HNext par b)"

definition http_status_code :: "byte \<Rightarrow> vtm_http_parser \<Rightarrow> vtm_buf \<Rightarrow> http_act" where
  "http_status_code c par b =
     (if hp_state_chars par \<le> 3
      then if \<not> c_isdigit c then HStop VTM_NET_RECV_STAT_INVALID par b
           else HNext (par\<lparr>hp_res_status_code := hp_res_status_code par * 10 + (int (unat c) - 48)\<rparr>) b
      else if c \<noteq> byte_of CHR '' '' then HStop VTM_NET_RECV_STAT_INVALID par b
      else HNext (par\<lparr>hp_status_msg_begin := buf_read b, hp_state := VTM_HTTP_PARSE_RES_STATUS_MSG_CR\<rparr>) b)"

definition http_status_msg :: "byte \<Rightarrow> vtm_http_parser \<Rightarrow> vtm_buf \<Rightarrow> http_act" where
  "http_status_msg c par b =
     (if c \<noteq> 13 then HNext par b
      else http_try (buf_poke (buf_read b - 1) 0 b) (\<lambda>b.
             HNext (par\<lparr>hp_res_status_msg := Some (hp_status_msg_begin par),
                        hp_state := VTM_HTTP_PARSE_RES_STATUS_MSG_LF\<rparr>) b))"

definition http_status_msg_lf :: "byte \<Rightarrow> vtm_http_parser \<Rightarrow> vtm_buf \<Rightarrow> http_act" where
  "http_status_msg_lf c par b =
     (if c \<noteq> 10 then HStop VTM_NET_RECV_STAT_INVALID par b
      else HNext (par\<lparr>hp_header_name_begin := buf_read b, hp_state := VTM_HTTP_PARSE_HEADER_LINE_BEGIN\<rparr>) b)"

definition http_version_major :: "byte \<Rightarrow> vtm_http_parser \<Rightarrow> vtm_buf \<Rightarrow> http_act" where
  "http_version_major c par b =
     (if c_isdigit c then HNext (par\<lparr>hp_version_major := hp_version_major par * 10 + ucast (c - 48)\<rparr>) b
      else if c \<noteq> byte_of CHR ''.'' then HStop VTM_NET_RECV_STAT_INVALID par b
      else HNext (par\<lparr>hp_state := VTM_HTTP_PARSE_VERSION_MINOR\<rparr>) b)"

definition http_version_minor :: "byte \<Rightarrow> vtm_http_parser \<Rightarrow> vtm_buf \<Rightarrow> http_act" where
  "http_version_minor c par b =
     (if c_isdigit c then HNext (par\<lparr>hp_version_minor := hp_version_minor par * 10 + ucast (c - 48)\<rparr>) b
      else
        let (want, st) = (case hp_mode par of
              VTM_HTTP_PM_REQUEST \<Rightarrow> (13, VTM_HTTP_PARSE_REQ_LINE_LF)
            | VTM_HTTP_PM_RESPONSE \<Rightarrow> (byte_of CHR '' '', VTM_HTTP_PARSE_RES_STATUS_CODE))
        in if c \<noteq> want then HStop VTM_NET_RECV_STAT_INVALID par b
           else
             let par = par\<lparr>hp_state := st\<rparr>
             in case vtm_http_get_version (hp_version_major par) (hp_version_minor par) of
                  None \<Rightarrow> HStop VTM_NET_RECV_STAT_INVALID par b
                | Some ver \<Rightarrow> HNext (par\<lparr>hp_version := ver\<rparr>) b)"

definition http_header_name :: "byte \<Rightarrow> vtm_http_parser \<Rightarrow> vtm_buf \<Rightarrow> http_act" where
  "http_header_name c par b =
     (if c = 13 \<and> hp_state_chars par = 1 then HNext (par\<lparr>hp_state := VTM_HTTP_PARSE_HEADERS_END_LF\<rparr>) b
      else if c = 13 \<or> c = byte_of CHR '' '' \<or> c = 10 then HStop VTM_NET_RECV_STAT_INVALID par b
      else if c = byte_of CHR '':''
      then http_try (buf_poke (buf_read b - 1) 0 b) (HNext (par\<lparr>hp_state := VTM_HTTP_PARSE_HEADER_VALUE\<rparr>))
      else HNext par b)"

definition http_header_value :: "byte \<Rightarrow> vtm_http_parser \<Rightarrow> vtm_buf \<Rightarrow> http_act" where
  "http_header_value c par b =
     (if vtm_http_parser_isspace c \<and> hp_header_value_begin par = 0 then HNext par b
      else if c = 13
      then if hp_header_value_begin par = 0 then HStop VTM_NET_RECV_STAT_INVALID par b
           else http_try (http_trim_end (buf_data b) (unat (buf_read b - 1))) (\<lambda>j.
                  http_try (buf_poke (of_nat j) 0 b) (HNext (par\<lparr>hp_state := VTM_HTTP_PARSE_HEADER_LINE_LF\<rparr>)))
      else if c = 10 then HStop VTM_NET_RECV_STAT_INVALID par b
      else HNext (if hp_header_value_begin par = 0 then par\<lparr>hp_header_value_begin := buf_read b - 1\<rparr> else par) b)"

text \<open>
  The headers after saving a line; \<open>None\<close> when the allocation of the merged value fails, \<open>HFault\<close> when
  a string does not end in the buffer or a value cannot be converted to a string.
\<close>

definition vtm_http_parser_save_header ::
    "allocator \<Rightarrow> vtm_dataset \<Rightarrow> vtm_http_parser \<Rightarrow> vtm_buf \<Rightarrow> (vtm_dataset \<Rightarrow> bool \<Rightarrow> http_act) \<Rightarrow> http_act" where
  "vtm_http_parser_save_header ma headers par b k =
     http_try (buf_cstr (hp_header_name_begin par) b) (\<lambda>name.
       http_try (buf_cstr (hp_header_value_begin par) b) (\<lambda>val.
         case vtm_dataset_get_string ma headers name of
           Inl e \<Rightarrow> HFault
         | Inr (None, headers) \<Rightarrow> k (fst (vtm_dataset_set_string headers name (Some val))) True
         | Inr (Some prev, headers) \<Rightarrow>
             if \<not> ma (of_nat (length prev) + of_nat (length val) + 3) then k headers False
             else k (fst (vtm_dataset_set_string headers name
                       (Some (prev @ bytes_of '', '' @ val)))) True))"

definition http_header_complete :: "bool \<Rightarrow> allocator \<Rightarrow> vtm_http_parser \<Rightarrow> vtm_buf \<Rightarrow> http_act" where
  "http_header_complete mem ma par b =
     (if hp_headers par = None \<and> \<not> mem then HStop VTM_NET_RECV_STAT_ERROR par b
      else
        let (headers, free) = (case hp_headers par of
              None \<Rightarrow> (vtm_dataset_newh VTM_DS_HINT_IGNORE_CASE, True)
            | Some ds \<Rightarrow> (ds, hp_headers_free par))
        in vtm_http_parser_save_header ma headers par b (\<lambda>headers ok.
             let par = par\<lparr>hp_headers := Some headers, hp_headers_free := free\<rparr>
             in if ok then HNext (par\<lparr>hp_state := VTM_HTTP_PARSE_HEADER_LINE_BEGIN\<rparr>) b
                else HStop VTM_NET_RECV_STAT_ERROR par b))"

definition http_no_length :: "vtm_http_parser \<Rightarrow> vtm_buf \<Rightarrow> http_act" where
  "http_no_length par b =
     HEval (par\<lparr>hp_state := (case hp_mode par of
        VTM_HTTP_PM_REQUEST \<Rightarrow> VTM_HTTP_PARSE_COMPLETE
      | VTM_HTTP_PM_RESPONSE \<Rightarrow> VTM_HTTP_PARSE_BODY_READALL)\<rparr>) b"

definition http_body :: "allocator \<Rightarrow> vtm_http_parser \<Rightarrow> vtm_buf \<Rightarrow> http_act" where
  "http_body ma par b =
     (let par = par\<lparr>hp_body_begin := buf_read b\<rparr>
      in case hp_headers par of
           None \<Rightarrow> http_no_length par b
         | Some headers \<Rightarrow>
             (case vtm_dataset_get_string ma headers VTM_HTTP_HEADER_TRANSFER_ENCODING of
                Inl e \<Rightarrow> HFault
              | Inr (val, headers) \<Rightarrow>
                  let par = par\<lparr>hp_headers := Some headers\<rparr>
                  in if (case val of None \<Rightarrow> False
                         | Some v \<Rightarrow> vtm_str_list_contains v (bytes_of '','') VTM_HTTP_VALUE_CHUNKED True)
                     then HNext (par\<lparr>hp_state := VTM_HTTP_PARSE_BODY_CHUNKED\<rparr>) b
                     else if vtm_dataset_contains headers VTM_HTTP_HEADER_CONTENT_LENGTH
                     then (case vtm_dataset_get_uint64 headers VTM_HTTP_HEADER_CONTENT_LENGTH of
                             Inl e \<Rightarrow> HFault
                           | Inr len \<Rightarrow> HEval (par\<lparr>hp_body_len := len,
                                 hp_state := VTM_HTTP_PARSE_BODY_FIXEDLENGTH\<rparr>) b)
                     else http_no_length par b))"

definition http_readall :: "vtm_http_parser \<Rightarrow> vtm_buf \<Rightarrow> http_act" where
  "http_readall par b =
     (let b = VTM_BUF_PROCESS_ALL b
      in if buf_read b > hp_max_body_size par then HStop VTM_NET_RECV_STAT_INVALID par b
         else HStop VTM_NET_RECV_STAT_AGAIN par b)"

definition http_fixedlength :: "vtm_http_parser \<Rightarrow> vtm_buf \<Rightarrow> http_act" where
  "http_fixedlength par b =
     (if hp_state_chars par < hp_body_len par then HNext par b
      else HEval (par\<lparr>hp_state := VTM_HTTP_PARSE_COMPLETE\<rparr>) b)"

definition http_chunked :: "vtm_http_parser \<Rightarrow> vtm_buf \<Rightarrow> http_act" where
  "http_chunked par b =
     HEval (par\<lparr>hp_chunk_dst := (if hp_chunk_dst par = 0 then hp_body_begin par else hp_chunk_dst par),
                hp_chunk_size := 0, hp_state := VTM_HTTP_PARSE_BODY_CHUNK_SIZE\<rparr>) b"

definition http_hex_digit :: "byte \<Rightarrow> byte option" where
  "http_hex_digit c =
     (if 48 \<le> c \<and> c \<le> 57 then Some (c - 48)
      else if 65 \<le> c \<and> c \<le> 70 then Some (c - 65 + 10)
      else if 97 \<le> c \<and> c \<le> 102 then Some (c - 97 + 10)
      else None)"

definition http_chunk_size :: "byte \<Rightarrow> vtm_http_parser \<Rightarrow> vtm_buf \<Rightarrow> http_act" where
  "http_chunk_size c par b =
     (if c = 13 then HNext (par\<lparr>hp_state := VTM_HTTP_PARSE_BODY_CHUNK_SIZE_LF\<rparr>) b
      else case http_hex_digit c of
             None \<Rightarrow> HStop VTM_NET_RECV_STAT_INVALID par b
           | Some d \<Rightarrow> HNext (par\<lparr>hp_chunk_size := push_bit 4 (hp_chunk_size par) + ucast d\<rparr>) b)"

definition http_chunk_size_lf :: "byte \<Rightarrow> vtm_http_parser \<Rightarrow> vtm_buf \<Rightarrow> http_act" where
  "http_chunk_size_lf c par b =
     (if c \<noteq> 10 then HStop VTM_NET_RECV_STAT_INVALID par b
      else HNext (par\<lparr>hp_chunk_begin := buf_read b, hp_state := VTM_HTTP_PARSE_BODY_CHUNK_CONTENT\<rparr>) b)"

definition http_chunk_content :: "byte \<Rightarrow> vtm_http_parser \<Rightarrow> vtm_buf \<Rightarrow> http_act" where
  "http_chunk_content c par b =
     (if hp_state_chars par \<le> hp_chunk_size par then HNext par b
      else http_expect 13 c VTM_HTTP_PARSE_BODY_CHUNK_END_LF par b)"

definition http_chunk_end :: "byte \<Rightarrow> vtm_http_parser \<Rightarrow> vtm_buf \<Rightarrow> http_act" where
  "http_chunk_end c par b =
     (if c \<noteq> 10 then HStop VTM_NET_RECV_STAT_INVALID par b
      else if hp_chunk_size par = 0 then HEval (par\<lparr>hp_state := VTM_HTTP_PARSE_COMPLETE\<rparr>) b
      else http_try (buf_memmove (hp_chunk_dst par) (hp_chunk_begin par) (hp_chunk_size par) b)
             (HNext (par\<lparr>hp_chunk_dst := hp_chunk_dst par + hp_chunk_size par,
                         hp_body_len := hp_body_len par + hp_chunk_size par,
                         hp_state := VTM_HTTP_PARSE_BODY_CHUNKED\<rparr>)))"

text \<open>The \<open>switch\<close> of the loop.\<close>

definition http_eval :: "bool \<Rightarrow> allocator \<Rightarrow> byte \<Rightarrow> vtm_http_parser \<Rightarrow> vtm_buf \<Rightarrow> http_act" where
  "http_eval mem ma c par b =
     (case hp_state par of
        VTM_HTTP_PARSE_BEGIN \<Rightarrow> http_begin par b
      | VTM_HTTP_PARSE_REQ_METHOD \<Rightarrow> http_req_method c par b
      | VTM_HTTP_PARSE_REQ_PATH \<Rightarrow> http_req_path c par b
      | VTM_HTTP_PARSE_REQ_PARAM_BEGIN \<Rightarrow>
          HEval (par\<lparr>hp_param_name_begin := 0, hp_state := VTM_HTTP_PARSE_REQ_PARAM_NAME\<rparr>) b
      | VTM_HTTP_PARSE_REQ_PARAM_NAME \<Rightarrow> http_param_name c par b
      | VTM_HTTP_PARSE_REQ_PARAM_VALUE \<Rightarrow> http_param_value mem c par b
      | VTM_HTTP_PARSE_REQ_LINE_LF \<Rightarrow> http_expect 10 c VTM_HTTP_PARSE_HEADER_LINE_BEGIN par b
      | VTM_HTTP_PARSE_RES_STATUS_CODE \<Rightarrow> http_status_code c par b
      | VTM_HTTP_PARSE_RES_STATUS_MSG_CR \<Rightarrow> http_status_msg c par b
      | VTM_HTTP_PARSE_RES_STATUS_MSG_LF \<Rightarrow> http_status_msg_lf c par b
      | VTM_HTTP_PARSE_VERSION_H \<Rightarrow> http_expect (byte_of CHR ''H'') c VTM_HTTP_PARSE_VERSION_HT par b
      | VTM_HTTP_PARSE_VERSION_HT \<Rightarrow> http_expect (byte_of CHR ''T'') c VTM_HTTP_PARSE_VERSION_HTT par b
      | VTM_HTTP_PARSE_VERSION_HTT \<Rightarrow> http_expect (byte_of CHR ''T'') c VTM_HTTP_PARSE_VERSION_HTTP par b
      | VTM_HTTP_PARSE_VERSION_HTTP \<Rightarrow> http_expect (byte_of CHR ''P'') c VTM_HTTP_PARSE_VERSION_SLASH par b
      | VTM_HTTP_PARSE_VERSION_SLASH \<Rightarrow> http_expect (byte_of CHR ''/'') c VTM_HTTP_PARSE_VERSION_MAJOR par b
      | VTM_HTTP_PARSE_VERSION_MAJOR \<Rightarrow> http_version_major c par b
      | VTM_HTTP_PARSE_VERSION_MINOR \<Rightarrow> http_version_minor c par b
      | VTM_HTTP_PARSE_HEADER_LINE_BEGIN \<Rightarrow>
          HEval (par\<lparr>hp_header_name_begin := buf_read b - 1, hp_header_value_begin := 0,
                     hp_state := VTM_HTTP_PARSE_HEADER_NAME\<rparr>) b
      | VTM_HTTP_PARSE_HEADER_NAME \<Rightarrow> http_header_name c par b
      | VTM_HTTP_PARSE_HEADER_VALUE \<Rightarrow> http_header_value c par b
      | VTM_HTTP_PARSE_HEADER_LINE_LF \<Rightarrow>
          (if c \<noteq> 10 then HStop VTM_NET_RECV_STAT_INVALID par b
           else HEval (par\<lparr>hp_state := VTM_HTTP_PARSE_HEADER_LINE_COMPLETE\<rparr>) b)
      | VTM_HTTP_PARSE_HEADER_LINE_COMPLETE \<Rightarrow> http_header_complete mem ma par b
      | VTM_HTTP_PARSE_HEADERS_END_LF \<Rightarrow>
          (if c \<noteq> 10 then HStop VTM_NET_RECV_STAT_INVALID par b
           else HEval (par\<lparr>hp_state := VTM_HTTP_PARSE_BODY\<rparr>) b)
      | VTM_HTTP_PARSE_BODY \<Rightarrow> http_body ma par b
      | VTM_HTTP_PARSE_BODY_READALL \<Rightarrow> http_readall par b
      | VTM_HTTP_PARSE_BODY_FIXEDLENGTH \<Rightarrow> http_fixedlength par b
      | VTM_HTTP_PARSE_BODY_CHUNKED \<Rightarrow> http_chunked par b
      | VTM_HTTP_PARSE_BODY_CHUNK_SIZE \<Rightarrow> http_chunk_size c par b
      | VTM_HTTP_PARSE_BODY_CHUNK_SIZE_LF \<Rightarrow> http_chunk_size_lf c par b
      | VTM_HTTP_PARSE_BODY_CHUNK_CONTENT \<Rightarrow> http_chunk_content c par b
      | VTM_HTTP_PARSE_BODY_CHUNK_END_LF \<Rightarrow> http_chunk_end c par b
      | VTM_HTTP_PARSE_COMPLETE \<Rightarrow> HStop VTM_NET_RECV_STAT_COMPLETE (VTM_HTTP_PARSER_MARK_BODY par) b)"

subsection \<open>The loop\<close>

text \<open>
  The local variables of the function: \<open>oldstate\<close>, the number \<open>n - i\<close> of bytes left, and \<open>c\<close> when the
  program is at the label \<open>eval\<close>.
\<close>

record http_local =
  hl_par :: vtm_http_parser
  hl_oldstate :: vtm_http_parser_state
  hl_left :: nat
  hl_c :: "byte option"

definition http_next :: "http_local \<Rightarrow> vtm_buf \<Rightarrow> (http_local, vtm_buf) pstep" where
  "http_next l b =
     (let par = hl_par l
      in if hl_left l = 0 then PStop VTM_NET_RECV_STAT_AGAIN l b
         else if \<not> http_in_body (hp_state par) \<and> buf_read b > hp_max_header_size par
         then PStop VTM_NET_RECV_STAT_INVALID l b
         else if http_in_body (hp_state par) \<and> buf_read b > hp_max_body_size par
         then PStop VTM_NET_RECV_STAT_INVALID l b
         else case VTM_BUF_GETC b of
                None \<Rightarrow> PFault
              | Some (c, b') \<Rightarrow> PNext (l\<lparr>hl_left := hl_left l - 1, hl_c := Some c\<rparr>) b')"

definition http_count :: "http_local \<Rightarrow> http_local" where
  "http_count l =
     (let par = hl_par l;
          par = (if hp_state par \<noteq> hl_oldstate l then par\<lparr>hp_state_chars := 0\<rparr> else par)
      in l\<lparr>hl_par := par\<lparr>hp_state_chars := hp_state_chars par + 1\<rparr>, hl_oldstate := hp_state par\<rparr>)"

definition http_step :: "bool \<Rightarrow> allocator \<Rightarrow> http_local \<Rightarrow> vtm_buf \<Rightarrow> (http_local, vtm_buf) pstep" where
  "http_step mem ma l b =
     (case hl_c l of
        None \<Rightarrow> http_next l b
      | Some c \<Rightarrow>
          let l = http_count l
          in case http_eval mem ma c (hl_par l) b of
               HNext par b \<Rightarrow> PNext (l\<lparr>hl_par := par, hl_c := None\<rparr>) b
             | HEval par b \<Rightarrow> PNext (l\<lparr>hl_par := par\<rparr>) b
             | HStop stat par b \<Rightarrow> PStop stat (l\<lparr>hl_par := par\<rparr>) b
             | HFault \<Rightarrow> PFault)"

partial_function (option) http_loop ::
    "bool \<Rightarrow> allocator \<Rightarrow> http_local \<Rightarrow> vtm_buf \<Rightarrow> (vtm_net_recv_stat \<times> http_local \<times> vtm_buf) option" where
  "http_loop mem ma l b =
     (case http_step mem ma l b of
        PNext l' b' \<Rightarrow> http_loop mem ma l' b'
      | PStop stat l' b' \<Rightarrow> Some (stat, l', b')
      | PFault \<Rightarrow> None)"

definition vtm_http_parser_run ::
    "bool \<Rightarrow> allocator \<Rightarrow> vtm_http_parser \<Rightarrow> vtm_buf \<Rightarrow> (vtm_net_recv_stat \<times> vtm_http_parser \<times> vtm_buf) option" where
  "vtm_http_parser_run mem ma par buf =
     (let n = VTM_BUF_GET_AVAIL_TOTAL buf
      in if n = 0 then
           if hp_state par = VTM_HTTP_PARSE_BODY_READALL
           then Some (VTM_NET_RECV_STAT_COMPLETE,
                  (VTM_HTTP_PARSER_MARK_BODY (par\<lparr>hp_body_len := buf_used buf - hp_body_begin par\<rparr>))
                    \<lparr>hp_state := VTM_HTTP_PARSE_COMPLETE\<rparr>, buf)
           else Some (VTM_NET_RECV_STAT_AGAIN, par, buf)
         else
           map_option (\<lambda>(stat, l, b). (stat, hl_par l, b))
             (http_loop mem ma \<lparr>hl_par = par, hl_oldstate = hp_state par, hl_left = unat n, hl_c = None\<rparr> buf))"

end
