(* ===== verification/HttpSafe.thy ===== *)
theory HttpSafe
  imports HttpParser
begin

text \<open>
  The HTTP parser stays inside the bytes of the buffer and returns, when it is given a message from
  its beginning. The invariant relates the offsets it keeps to the number of bytes it has looked at.
\<close>

definition http_pos :: "http_local \<Rightarrow> vtm_buf \<Rightarrow> nat" where
  "http_pos l b = unat (buf_read b) - (if hl_c l = None then 0 else 1)"

definition http_chars :: "http_local \<Rightarrow> nat" where
  "http_chars l = (if hp_state (hl_par l) = hl_oldstate l then unat (hp_state_chars (hl_par l)) else 0)"

definition http_state_ok :: "vtm_http_parser \<Rightarrow> byte list \<Rightarrow> nat \<Rightarrow> nat \<Rightarrow> bool" where
  "http_state_ok par d p k \<longleftrightarrow> unat (hp_chunk_dst par) \<le> p \<and>
     (case hp_state par of
        VTM_HTTP_PARSE_REQ_PARAM_NAME \<Rightarrow> unat (hp_param_name_begin par) \<le> p
      | VTM_HTTP_PARSE_REQ_PARAM_VALUE \<Rightarrow> unat (hp_param_name_begin par) \<le> p
      | VTM_HTTP_PARSE_HEADER_NAME \<Rightarrow>
          unat (hp_header_name_begin par) \<le> p \<and> unat (hp_header_value_begin par) \<le> p
      | VTM_HTTP_PARSE_HEADER_VALUE \<Rightarrow>
          unat (hp_header_name_begin par) \<le> p \<and> unat (hp_header_value_begin par) \<le> p
      | VTM_HTTP_PARSE_HEADER_LINE_LF \<Rightarrow>
          unat (hp_header_name_begin par) < p \<and> unat (hp_header_value_begin par) < p \<and> d ! (p - 1) = 0
      | VTM_HTTP_PARSE_HEADER_LINE_COMPLETE \<Rightarrow>
          unat (hp_header_name_begin par) < p \<and> unat (hp_header_value_begin par) < p \<and> d ! (p - 1) = 0
      | VTM_HTTP_PARSE_BODY_CHUNKED \<Rightarrow> unat (hp_body_begin par) \<le> p
      | VTM_HTTP_PARSE_BODY_CHUNK_SIZE \<Rightarrow> unat (hp_body_begin par) \<le> p
      | VTM_HTTP_PARSE_BODY_CHUNK_SIZE_LF \<Rightarrow> unat (hp_body_begin par) \<le> p
      | VTM_HTTP_PARSE_BODY_CHUNK_CONTENT \<Rightarrow>
          unat (hp_chunk_dst par) \<le> unat (hp_chunk_begin par) \<and> unat (hp_body_begin par) \<le> p
          \<and> unat (hp_chunk_begin par) + k = p
      | VTM_HTTP_PARSE_BODY_CHUNK_END_LF \<Rightarrow>
          unat (hp_chunk_dst par) \<le> unat (hp_chunk_begin par) \<and> unat (hp_body_begin par) \<le> p
          \<and> unat (hp_chunk_begin par) + unat (hp_chunk_size par) \<le> p
      | _ \<Rightarrow> True)"

definition http_headers_ok :: "vtm_http_parser \<Rightarrow> bool" where
  "http_headers_ok par \<longleftrightarrow> (\<forall>ds. hp_headers par = Some ds \<longrightarrow> ds_strings True ds)"

definition http_inv :: "http_local \<Rightarrow> vtm_buf \<Rightarrow> bool" where
  "http_inv l b \<longleftrightarrow>
     vtm_buf_inv b \<and> hl_left l \<le> length (buf_unread b) \<and> (\<forall>c. hl_c l = Some c \<longrightarrow> 0 < unat (buf_read b) \<and> c = buf_data b ! (unat (buf_read b) - 1))
     \<and> http_chars l \<le> http_pos l b \<and> http_state_ok (hl_par l) (buf_data b) (http_pos l b) (http_chars l)
     \<and> http_headers_ok (hl_par l)"

fun http_rank :: "vtm_http_parser_state \<Rightarrow> nat" where
  "http_rank VTM_HTTP_PARSE_BEGIN = 2"
| "http_rank VTM_HTTP_PARSE_REQ_PARAM_BEGIN = 2"
| "http_rank VTM_HTTP_PARSE_HEADER_LINE_BEGIN = 2"
| "http_rank VTM_HTTP_PARSE_HEADER_LINE_LF = 2"
| "http_rank VTM_HTTP_PARSE_HEADERS_END_LF = 4"
| "http_rank VTM_HTTP_PARSE_BODY = 3"
| "http_rank VTM_HTTP_PARSE_BODY_FIXEDLENGTH = 2"
| "http_rank VTM_HTTP_PARSE_BODY_CHUNKED = 2"
| "http_rank VTM_HTTP_PARSE_BODY_CHUNK_END_LF = 2"
| "http_rank VTM_HTTP_PARSE_COMPLETE = 0"
| "http_rank _ = 1"

definition http_msr :: "http_local \<Rightarrow> vtm_buf \<Rightarrow> nat" where
  "http_msr l b = 8 * hl_left l + (case hl_c l of None \<Rightarrow> 0 | Some c \<Rightarrow> 1 + http_rank (hp_state (hl_par l)))"

subsection \<open>The accesses\<close>

lemma http_try_simps [simp]: "http_try (Some x) k = k x" "http_try None k = HFault"
  by (simp_all add: http_try_def)

lemma unat_pred: "0 < unat (w :: 'a::len word) \<Longrightarrow> unat (w - 1) = unat w - 1"
  by (metis unat_gt_0 unat_minus_one)

lemma buf_data_upd_ok:
  "vtm_buf_inv b \<Longrightarrow> length d = length (buf_data b) \<Longrightarrow>
     vtm_buf_inv (b\<lparr>buf_data := d\<rparr>) \<and> length (buf_unread (b\<lparr>buf_data := d\<rparr>)) = length (buf_unread b)"
  by (auto simp: vtm_buf_inv_def buf_unread_def)

lemma buf_poke_read:
  assumes "vtm_buf_inv b" and "0 < unat (buf_read b)"
  obtains b' where "buf_poke (buf_read b - 1) v b = Some b'" "vtm_buf_inv b'" "buf_read b' = buf_read b"
    "buf_used b' = buf_used b" "buf_unread b' = buf_unread b"
    "buf_data b' = (buf_data b)[unat (buf_read b) - 1 := v]" "b' = b\<lparr>buf_data := buf_data b'\<rparr>"
proof -
  have "unat (buf_read b) - 1 < length (buf_data b)" using vtm_buf_invD [OF assms(1)] assms(2) by simp
  then show thesis using assms that [of "b\<lparr>buf_data := (buf_data b)[unat (buf_read b) - 1 := v]\<rparr>"]
    by (auto simp: buf_poke_def unat_pred vtm_buf_inv_def buf_unread_def)
qed

lemma buf_cstr_ok:
  assumes "unat i \<le> j" and "j < length (buf_data b)" and "buf_data b ! j = 0"
  obtains s where "buf_cstr i b = Some s" "no_nul s"
proof -
  have "drop (unat i) (buf_data b) ! (j - unat i) = 0" using assms by simp
  moreover have "j - unat i < length (drop (unat i) (buf_data b))" using assms by simp
  ultimately have "0 \<in> set (drop (unat i) (buf_data b))" by (metis nth_mem)
  moreover have "no_nul (takeWhile (\<lambda>c. c \<noteq> 0) xs)" for xs :: cstr
    using set_takeWhileD by (fastforce simp: no_nul_def)
  ultimately show thesis using that by (simp add: buf_cstr_def)
qed

lemma http_names_ok:
  "no_nul VTM_HTTP_HEADER_TRANSFER_ENCODING" "no_nul VTM_HTTP_HEADER_CONTENT_LENGTH"
  by (simp_all add: http_names bytes_of_def)

lemma ds_get_uint64:
  assumes "ds_strings nocase ds" and "no_nul name"
  obtains v where "vtm_dataset_get_uint64 ds name = Inr v"
proof (cases "vtm_dataset_get_variant ds name")
  case None
  then show thesis using that by (simp add: vtm_dataset_get_uint64_def VTM_DATASET_GET_def)
next
  case (Some v)
  then obtain f where "ds_store_get ds name = Some (v, f)"
    by (auto simp: vtm_dataset_get_variant_def ds_store_get_def Let_def)
  then have "var_type v = VTM_ELEM_STRING" using assms by (force simp: ds_strings_def)
  then show thesis using that Some
    by (simp add: vtm_dataset_get_uint64_def VTM_DATASET_GET_def vtm_variant_as_int64_def vtm_elem_as_int64_def
        VTM_ELEM_CONV_NUMERIC_def)
qed

subsection \<open>One byte\<close>

text \<open>What the evaluation of a byte keeps; \<open>r\<close> bytes have been read and \<open>k\<close> of them in this state.\<close>

definition http_act_ok :: "vtm_http_parser \<Rightarrow> vtm_buf \<Rightarrow> http_act \<Rightarrow> bool" where
  "http_act_ok par b act \<longleftrightarrow>
     (case act of
        HNext par' b' \<Rightarrow> vtm_buf_inv b' \<and> buf_read b' = buf_read b \<and> length (buf_unread b') = length (buf_unread b)
          \<and> http_headers_ok par' \<and> hp_state_chars par' = hp_state_chars par
          \<and> http_state_ok par' (buf_data b') (unat (buf_read b))
              (if hp_state par' = hp_state par then unat (hp_state_chars par) else 0)
      | HEval par' b' \<Rightarrow> b' = b \<and> http_headers_ok par' \<and> http_rank (hp_state par') < http_rank (hp_state par)
          \<and> http_state_ok par' (buf_data b) (unat (buf_read b) - 1) 0
      | HStop stat par' b' \<Rightarrow> True
      | HFault \<Rightarrow> False)"

definition http_act_pre :: "vtm_http_parser \<Rightarrow> vtm_buf \<Rightarrow> bool" where
  "http_act_pre par b \<longleftrightarrow> vtm_buf_inv b \<and> 0 < unat (buf_read b) \<and> http_headers_ok par
     \<and> 0 < unat (hp_state_chars par) \<and> unat (hp_state_chars par) \<le> unat (buf_read b)
     \<and> http_state_ok par (buf_data b) (unat (buf_read b) - 1) (unat (hp_state_chars par) - 1)"

lemma poke_act_ok:
  assumes "http_act_pre par b" and "\<And>b'. vtm_buf_inv b' \<Longrightarrow> buf_read b' = buf_read b \<Longrightarrow>
      buf_unread b' = buf_unread b \<Longrightarrow> buf_data b' = (buf_data b)[unat (buf_read b) - 1 := 0] \<Longrightarrow>
      http_act_ok par b (k b')"
  shows "http_act_ok par b (http_try (buf_poke (buf_read b - 1) 0 b) k)"
proof -
  have "vtm_buf_inv b" "0 < unat (buf_read b)" using assms(1) by (simp_all add: http_act_pre_def)
  then show ?thesis using buf_poke_read assms(2) by (metis http_try_simps(1))
qed

lemma nul_at_read:
  assumes "http_act_pre par b" and "buf_data b' = (buf_data b)[unat (buf_read b) - 1 := 0]"
  shows "unat (buf_read b) - 1 < length (buf_data b')" "buf_data b' ! (unat (buf_read b) - 1) = 0"
  using assms vtm_buf_invD [of b] by (auto simp: http_act_pre_def)

lemmas http_ok_defs = http_act_ok_def http_act_pre_def http_state_ok_def http_headers_ok_def

lemma http_req_method_ok:
  assumes "http_act_pre par b" and "hp_state par = VTM_HTTP_PARSE_REQ_METHOD"
  shows "http_act_ok par b (http_req_method c par b)"
proof (cases "c = byte_of CHR '' ''")
  case True
  show ?thesis unfolding http_req_method_def using True
  proof (simp, intro poke_act_ok [OF assms(1)])
    fix b'
    assume b': "vtm_buf_inv b'" "buf_read b' = buf_read b" "buf_unread b' = buf_unread b"
      "buf_data b' = (buf_data b)[unat (buf_read b) - 1 := 0]"
    obtain s where "buf_cstr 0 b' = Some s" using buf_cstr_ok [OF _ nul_at_read [OF assms(1) b'(4)], of 0] by auto
    then show "http_act_ok par b (http_try (buf_cstr 0 b') (\<lambda>str. case vtm_http_get_method str of
        None \<Rightarrow> HStop VTM_NET_RECV_STAT_INVALID par b'
      | Some m \<Rightarrow> HNext (par\<lparr>hp_req_method := m, hp_state := VTM_HTTP_PARSE_REQ_PATH\<rparr>) b'))"
      using assms b' by (auto simp: http_ok_defs split: option.split)
  qed
next
  case False
  then show ?thesis using assms by (auto simp: http_req_method_def http_ok_defs)
qed

lemma http_req_path_ok:
  assumes "http_act_pre par b" and "hp_state par = VTM_HTTP_PARSE_REQ_PATH"
  shows "http_act_ok par b (http_req_path c par b)"
proof -
  have "http_act_ok par b (http_try (buf_poke (buf_read b - 1) 0 b) (\<lambda>b. HNext (par\<lparr>hp_state := st,
      hp_req_path := Some (buf_read b - hp_state_chars par)\<rparr>) b))"
    if "st \<in> {VTM_HTTP_PARSE_VERSION_H, VTM_HTTP_PARSE_REQ_PARAM_BEGIN}" for st
    using assms that by (intro poke_act_ok) (auto simp: http_ok_defs)
  then show ?thesis using assms by (simp add: http_req_path_def Let_def) (auto simp: http_ok_defs)
qed

lemma http_param_name_ok:
  assumes "http_act_pre par b" and "hp_state par = VTM_HTTP_PARSE_REQ_PARAM_NAME"
  shows "http_act_ok par b (http_param_name c par b)"
proof -
  have "unat (buf_read b - hp_state_chars par) \<le> unat (buf_read b)"
    using assms(1) by (simp add: http_act_pre_def unat_sub word_le_nat_alt)
  then have "http_act_ok par b (http_try (buf_poke (buf_read b - 1) 0 b) (\<lambda>b.
      HNext (par\<lparr>hp_param_name_begin := buf_read b - hp_state_chars par, hp_state := VTM_HTTP_PARSE_REQ_PARAM_VALUE\<rparr>) b))"
    using assms by (intro poke_act_ok) (auto simp: http_ok_defs)
  then show ?thesis using assms by (simp add: http_param_name_def) (auto simp: http_ok_defs)
qed

lemma http_param_value_ok:
  assumes pre: "http_act_pre par b" and st: "hp_state par = VTM_HTTP_PARSE_REQ_PARAM_VALUE"
  shows "http_act_ok par b (http_param_value mem c par b)"
proof -
  have "http_act_ok par b (http_param_save mem (par\<lparr>hp_state := s\<rparr>) b)"
    if s: "s \<in> {VTM_HTTP_PARSE_VERSION_H, VTM_HTTP_PARSE_REQ_PARAM_BEGIN}" for s
    unfolding http_param_save_def
  proof (intro poke_act_ok [OF pre])
    fix b'
    assume b': "vtm_buf_inv b'" "buf_read b' = buf_read b" "buf_unread b' = buf_unread b"
      "buf_data b' = (buf_data b)[unat (buf_read b) - 1 := 0]"
    note nul = nul_at_read [OF pre b'(4)]
    have "unat (hp_param_name_begin par) \<le> unat (buf_read b) - 1"
      "unat (buf_read b - hp_state_chars par) \<le> unat (buf_read b) - 1"
      using pre st by (auto simp: http_ok_defs unat_sub word_le_nat_alt)
    then obtain s1 s2 where "buf_cstr (hp_param_name_begin par) b' = Some s1"
      "buf_cstr (buf_read b - hp_state_chars par) b' = Some s2" using buf_cstr_ok [OF _ nul] by metis
    then show "http_act_ok par b
      (if hp_req_params (par\<lparr>hp_state := s\<rparr>) = None \<and> \<not> mem then HStop VTM_NET_RECV_STAT_ERROR (par\<lparr>hp_state := s\<rparr>) b'
       else let params = (case hp_req_params (par\<lparr>hp_state := s\<rparr>) of None \<Rightarrow> vtm_dataset_new | Some ds \<Rightarrow> ds)
         in http_try (buf_cstr (hp_param_name_begin (par\<lparr>hp_state := s\<rparr>)) b') (\<lambda>name.
              http_try (buf_cstr (buf_read b' - hp_state_chars (par\<lparr>hp_state := s\<rparr>)) b') (\<lambda>val.
                HNext (par\<lparr>hp_state := s, hp_req_params := Some (fst (vtm_dataset_set_string params name (Some val)))\<rparr>) b')))"
      using pre st s b' by (auto simp: http_ok_defs Let_def)
  qed
  then show ?thesis using assms by (simp add: http_param_value_def Let_def) (auto simp: http_ok_defs)
qed

lemma http_trim_end_CR: "j < length d \<Longrightarrow> d ! j = 13 \<Longrightarrow> http_trim_end d j = Some j"
  by (simp add: http_trim_end.simps vtm_http_parser_isspace_def byte_of_def)


lemma http_header_name_ok:
  assumes "http_act_pre par b" and "hp_state par = VTM_HTTP_PARSE_HEADER_NAME"
  shows "http_act_ok par b (http_header_name c par b)"
proof -
  have "http_act_ok par b (http_try (buf_poke (buf_read b - 1) 0 b) (HNext (par\<lparr>hp_state := VTM_HTTP_PARSE_HEADER_VALUE\<rparr>)))"
    using assms by (intro poke_act_ok) (auto simp: http_ok_defs)
  then show ?thesis using assms by (simp add: http_header_name_def) (auto simp: http_ok_defs)
qed

lemma http_header_value_ok:
  assumes "http_act_pre par b" and "hp_state par = VTM_HTTP_PARSE_HEADER_VALUE"
    and "c = buf_data b ! (unat (buf_read b) - 1)"
  shows "http_act_ok par b (http_header_value c par b)"
proof (cases "c = 13 \<and> hp_header_value_begin par \<noteq> 0")
  case True
  have r: "vtm_buf_inv b" "0 < unat (buf_read b)" using assms(1) by (simp_all add: http_act_pre_def)
  then have j: "unat (buf_read b - 1) = unat (buf_read b) - 1" "unat (buf_read b) - 1 < length (buf_data b)"
    using vtm_buf_invD [of b] by (simp_all add: unat_pred)
  then have "http_trim_end (buf_data b) (unat (buf_read b - 1)) = Some (unat (buf_read b) - 1)"
    using True assms(3) by (simp add: http_trim_end_CR)
  moreover have "(of_nat (unat (buf_read b) - 1) :: size_t) = buf_read b - 1"
    using j(1) unat_less_2p [of "buf_read b"] by (intro word_unat_eq_iff [THEN iffD2]) simp
  ultimately have "http_header_value c par b = http_try (buf_poke (buf_read b - 1) 0 b)
      (HNext (par\<lparr>hp_state := VTM_HTTP_PARSE_HEADER_LINE_LF\<rparr>))"
    using True by (simp add: http_header_value_def vtm_http_parser_isspace_def byte_of_def)
  moreover have "http_act_ok par b \<dots>"
    using assms(1, 2) j(2) by (intro poke_act_ok) (auto simp: http_ok_defs)
  ultimately show ?thesis by simp
next
  case False
  then show ?thesis using assms
    by (auto simp: http_header_value_def http_ok_defs unat_pred)
qed

lemma http_header_complete_ok:
  assumes pre: "http_act_pre par b" and st: "hp_state par = VTM_HTTP_PARSE_HEADER_LINE_COMPLETE"
  shows "http_act_ok par b (http_header_complete mem ma par b)"
proof -
  define hds where "hds = (case hp_headers par of None \<Rightarrow> (vtm_dataset_newh VTM_DS_HINT_IGNORE_CASE, True)
    | Some ds \<Rightarrow> (ds, hp_headers_free par))"
  have hs: "ds_strings True (fst hds)"
    using pre ds_strings_init(1) by (auto simp: hds_def http_act_pre_def http_headers_ok_def split: option.split)
  have nb: "unat (hp_header_name_begin par) \<le> unat (buf_read b) - 2" "unat (hp_header_value_begin par) \<le> unat (buf_read b) - 2"
    "buf_data b ! (unat (buf_read b) - 2) = 0" "unat (buf_read b) - 2 < length (buf_data b)"
    using pre st vtm_buf_invD [of b] by (auto simp: http_ok_defs numeral_2_eq_2)
  obtain name where name: "buf_cstr (hp_header_name_begin par) b = Some name" "no_nul name"
    by (rule buf_cstr_ok [OF nb(1, 4, 3)])
  obtain val where val: "buf_cstr (hp_header_value_begin par) b = Some val" "no_nul val"
    by (rule buf_cstr_ok [OF nb(2, 4, 3)])
  obtain ds where ds: "vtm_dataset_get_string ma (fst hds) name = Inr (ds_text (fst hds) name, ds)" "ds_strings True ds"
    by (rule ds_get_string [OF hs name(2)])
  have set: "ds_strings True (fst (vtm_dataset_set_string ds name (Some v)))" for v
    using ds_set_string(1) [OF ds(2) name(2)] by blast
  define k where "k = (\<lambda>headers ok. let par = par\<lparr>hp_headers := Some headers, hp_headers_free := snd hds\<rparr>
    in if ok then HNext (par\<lparr>hp_state := VTM_HTTP_PARSE_HEADER_LINE_BEGIN\<rparr>) b
       else HStop VTM_NET_RECV_STAT_ERROR par b)"
  have fin: "http_act_ok par b (k ds' ok)" if "ds_strings True ds'" for ds' ok
    using that pre st by (auto simp: k_def http_ok_defs Let_def)
  have "http_act_ok par b (vtm_http_parser_save_header ma (fst hds) par b k)"
    using name(1) val(1) ds(1) fin [OF set] fin [OF ds(2)]
    by (simp add: vtm_http_parser_save_header_def split: option.split)
  then show ?thesis
    by (simp add: http_header_complete_def hds_def [symmetric] k_def case_prod_beta)
      (simp add: http_act_ok_def)
qed

lemma http_no_length_ok:
  assumes "http_headers_ok par'" and "unat (hp_chunk_dst par') \<le> unat (buf_read b) - 1"
    and "hp_state par = VTM_HTTP_PARSE_BODY"
  shows "http_act_ok par b (http_no_length par' b)"
  using assms by (auto simp: http_no_length_def http_ok_defs split: vtm_http_parser_mode.split)

lemma http_body_ok:
  assumes pre: "http_act_pre par b" and st: "hp_state par = VTM_HTTP_PARSE_BODY"
  shows "http_act_ok par b (http_body ma par b)"
proof -
  have dst: "unat (hp_chunk_dst par) \<le> unat (buf_read b) - 1"
    using pre by (simp add: http_act_pre_def http_state_ok_def)
  show ?thesis
  proof (cases "hp_headers par")
    case None
    then show ?thesis using dst st
      by (simp add: http_body_def) (intro http_no_length_ok, simp_all add: http_headers_ok_def)
  next
    case (Some hs)
    then have "ds_strings True hs" using pre by (simp add: http_act_pre_def http_headers_ok_def)
    then obtain ds where ds: "vtm_dataset_get_string ma hs VTM_HTTP_HEADER_TRANSFER_ENCODING =
        Inr (ds_text hs VTM_HTTP_HEADER_TRANSFER_ENCODING, ds)" "ds_strings True ds"
      using ds_get_string [OF _ http_names_ok(1)] by metis
    obtain len where len: "vtm_dataset_get_uint64 ds VTM_HTTP_HEADER_CONTENT_LENGTH = Inr len"
      by (rule ds_get_uint64 [OF ds(2) http_names_ok(2)])
    let ?p = "par\<lparr>hp_body_begin := buf_read b, hp_headers := Some ds\<rparr>"
    have "http_act_ok par b (http_no_length ?p b)"
      using dst st ds(2) by (intro http_no_length_ok) (simp_all add: http_headers_ok_def)
    moreover have "http_act_ok par b (HNext (?p\<lparr>hp_state := VTM_HTTP_PARSE_BODY_CHUNKED\<rparr>) b)"
      "http_act_ok par b (HEval (?p\<lparr>hp_body_len := len, hp_state := VTM_HTTP_PARSE_BODY_FIXEDLENGTH\<rparr>) b)"
      using pre st ds(2) by (auto simp: http_ok_defs)
    ultimately show ?thesis using Some ds(1) len by (simp add: http_body_def Let_def)
  qed
qed

lemma http_chunk_ok:
  assumes "http_act_pre par b"
  shows "hp_state par = VTM_HTTP_PARSE_BODY_CHUNKED \<Longrightarrow> http_act_ok par b (http_chunked par b)"
    and "hp_state par = VTM_HTTP_PARSE_BODY_CHUNK_SIZE \<Longrightarrow> http_act_ok par b (http_chunk_size c par b)"
    and "hp_state par = VTM_HTTP_PARSE_BODY_CHUNK_SIZE_LF \<Longrightarrow> http_act_ok par b (http_chunk_size_lf c par b)"
    and "hp_state par = VTM_HTTP_PARSE_BODY_CHUNK_CONTENT \<Longrightarrow> http_act_ok par b (http_chunk_content c par b)"
  using assms
  by (auto simp: http_chunked_def http_chunk_size_def http_chunk_size_lf_def http_chunk_content_def
      http_expect_def http_ok_defs word_le_nat_alt split: option.split)

lemma http_chunk_end_ok:
  assumes pre: "http_act_pre par b" and st: "hp_state par = VTM_HTTP_PARSE_BODY_CHUNK_END_LF"
  shows "http_act_ok par b (http_chunk_end c par b)"
proof -
  let ?i = "unat (hp_chunk_dst par)" and ?j = "unat (hp_chunk_begin par)" and ?k = "unat (hp_chunk_size par)"
  let ?d = "buf_data b"
  have le: "?i \<le> ?j" "?j + ?k \<le> unat (buf_read b) - 1" "unat (buf_read b) \<le> length ?d" "vtm_buf_inv b"
    using pre st vtm_buf_invD [of b] by (auto simp: http_act_pre_def http_state_ok_def)
  let ?d' = "take ?i ?d @ take ?k (drop ?j ?d) @ drop (?i + ?k) ?d" and ?b' = "b\<lparr>buf_data := take ?i ?d @ take ?k (drop ?j ?d) @ drop (?i + ?k) ?d\<rparr>"
  have mv: "buf_memmove (hp_chunk_dst par) (hp_chunk_begin par) (hp_chunk_size par) b = Some ?b'"
    using le by (auto simp: buf_memmove_def Let_def)
  have "length ?d' = length ?d" using le by simp
  then have inv: "vtm_buf_inv ?b'" "length (buf_unread ?b') = length (buf_unread b)"
    using buf_data_upd_ok [OF le(4)] by blast+
  have "unat (hp_chunk_dst par + hp_chunk_size par) = ?i + ?k"
    using le unat_less_2p [of "buf_read b"] by (intro unat_add_no_wrap) simp
  then show ?thesis using pre st mv inv le
    by (auto simp: http_chunk_end_def http_ok_defs)
qed


lemma http_eval_ok:
  assumes pre: "http_act_pre par b" and c: "c = buf_data b ! (unat (buf_read b) - 1)"
  shows "http_act_ok par b (http_eval mem ma c par b)"
proof -
  note cases = http_req_method_ok http_req_path_ok http_param_name_ok http_param_value_ok http_header_name_ok
    http_header_value_ok [OF _ _ c] http_header_complete_ok http_body_ok http_chunk_ok http_chunk_end_ok
  note simple = http_begin_def http_expect_def http_status_code_def http_status_msg_def http_status_msg_lf_def
    http_version_major_def http_version_minor_def http_readall_def http_fixedlength_def
  have msg: "http_act_ok par b (http_status_msg c par b)" if "hp_state par = VTM_HTTP_PARSE_RES_STATUS_MSG_CR"
  proof -
    have "http_act_ok par b (http_try (buf_poke (buf_read b - 1) 0 b) (\<lambda>b. HNext (par\<lparr>hp_res_status_msg := Some (hp_status_msg_begin par),
        hp_state := VTM_HTTP_PARSE_RES_STATUS_MSG_LF\<rparr>) b))"
      using pre that by (intro poke_act_ok) (auto simp: http_ok_defs)
    then show ?thesis using pre that by (simp add: http_status_msg_def) (auto simp: http_ok_defs)
  qed
  show ?thesis
    using pre cases [OF pre] msg
    by (cases "hp_state par") (simp_all add: http_eval_def, (auto simp: simple http_ok_defs unat_pred Let_def
        split: vtm_http_parser_mode.splits option.splits)+)
qed


subsection \<open>The loop\<close>

lemma http_state_ok_chars [simp]: "http_state_ok (par\<lparr>hp_state_chars := k\<rparr>) = http_state_ok par"
  by (intro ext, cases "hp_state par") (simp_all add: http_state_ok_def)

lemma http_count_simps:
  assumes "http_chars l < 2 ^ 64 - 1"
  shows "unat (hp_state_chars (hl_par (http_count l))) = http_chars l + 1"
    and "hp_state (hl_par (http_count l)) = hp_state (hl_par l)"
    and "hl_oldstate (http_count l) = hp_state (hl_par l)"
    and "hl_left (http_count l) = hl_left l" and "hl_c (http_count l) = hl_c l"
    and "hp_headers (hl_par (http_count l)) = hp_headers (hl_par l)"
    and "http_state_ok (hl_par (http_count l)) = http_state_ok (hl_par l)"
  using assms unat_add_no_wrap [of "hp_state_chars (hl_par l)" 1]
  by (auto simp: http_count_def http_chars_def Let_def)

lemma http_eval_step:
  assumes inv: "http_inv l b" and c: "hl_c l = Some c"
  defines "par \<equiv> hl_par (http_count l)"
  shows "http_act_ok par b (http_eval mem ma c par b)" and "unat (hp_state_chars par) \<le> unat (buf_read b)"
    and "hp_state par = hp_state (hl_par l)" and "hl_oldstate (http_count l) = hp_state (hl_par l)"
    and "hl_left (http_count l) = hl_left l" and "hl_c (http_count l) = Some c"
proof -
  have r: "0 < unat (buf_read b)" "c = buf_data b ! (unat (buf_read b) - 1)" "vtm_buf_inv b"
    "http_chars l \<le> unat (buf_read b) - 1"
    "http_state_ok (hl_par l) (buf_data b) (unat (buf_read b) - 1) (http_chars l)" "http_headers_ok (hl_par l)"
    using inv c by (auto simp: http_inv_def http_pos_def)
  have "http_chars l < 2 ^ 64 - 1" using r(1, 4) unat_less_2p [of "buf_read b"] by simp
  note cnt = http_count_simps [OF this, folded par_def]
  show "hp_state par = hp_state (hl_par l)" "hl_oldstate (http_count l) = hp_state (hl_par l)"
    "hl_left (http_count l) = hl_left l" "hl_c (http_count l) = Some c" using cnt c by simp_all
  show k: "unat (hp_state_chars par) \<le> unat (buf_read b)" using cnt(1) r(1, 4) by simp
  have "http_act_pre par b" using r cnt k by (simp add: http_act_pre_def http_headers_ok_def)
  then show "http_act_ok par b (http_eval mem ma c par b)" by (rule http_eval_ok [OF _ r(2)])
qed

lemma http_step_next:
  assumes inv: "http_inv l b" and step: "http_step mem ma l b = PNext l' b'"
  shows "http_inv l' b' \<and> http_msr l' b' < http_msr l b"
proof (cases "hl_c l")
  case None
  have b: "vtm_buf_inv b" using inv by (simp add: http_inv_def)
  obtain c where left: "hl_left l \<noteq> 0" and c: "VTM_BUF_GETC b = Some (c, b')"
    and l': "l' = l\<lparr>hl_left := hl_left l - 1, hl_c := Some c\<rparr>"
    using step None by (auto simp: http_step_def http_next_def Let_def split: if_splits option.splits)
  have un: "buf_unread b \<noteq> []" using inv left by (auto simp: http_inv_def)
  then obtain cs where cs: "buf_unread b = c # cs" and b': "b' = b\<lparr>buf_read := buf_read b + 1\<rparr>" "vtm_buf_inv b'"
    "buf_unread b' = cs"
    using vtm_buf_getc_ok [OF b] c by (cases "buf_unread b") auto
  have "unat (buf_read b) < length (buf_data b)" using c by (auto simp: VTM_BUF_GETC_def split: if_splits)
  then have r: "unat (buf_read b') = unat (buf_read b) + 1" "c = buf_data b ! unat (buf_read b)"
    using vtm_buf_invD(1) [OF b] unat_less_2p [of "buf_used b"] unat_add_no_wrap [of "buf_read b" 1] b'(1) c
    by (auto simp: VTM_BUF_GETC_def)
  then have "http_pos l' b' = http_pos l b" "http_chars l' = http_chars l" "buf_data b' = buf_data b"
    using None b'(1) by (simp_all add: http_pos_def http_chars_def l')
  then have "http_inv l' b'" using inv b' r cs left by (auto simp: http_inv_def l')
  moreover have "http_rank s \<le> 4" for s by (cases s) simp_all
  then have "http_rank (hp_state (hl_par l)) \<le> 4" .
  then have "http_msr l' b' < http_msr l b" using None left by (simp add: http_msr_def l')
  ultimately show ?thesis by blast
next
  case (Some c)
  note ev = http_eval_step(1) [OF inv Some, of mem ma] http_eval_step(2-6) [OF inv Some]
  let ?par = "hl_par (http_count l)" and ?act = "http_eval mem ma c (hl_par (http_count l)) b"
  have left: "hl_left l \<le> length (buf_unread b)" using inv by (simp add: http_inv_def)
  have r: "0 < unat (buf_read b)" "c = buf_data b ! (unat (buf_read b) - 1)" "vtm_buf_inv b"
    using inv Some by (auto simp: http_inv_def)
  consider (nxt) p where "?act = HNext p b'" "l' = (http_count l)\<lparr>hl_par := p, hl_c := None\<rparr>"
    | (evl) p where "?act = HEval p b'" "l' = (http_count l)\<lparr>hl_par := p\<rparr>"
    using step Some by (auto simp: http_step_def Let_def split: http_act.splits)
  then show ?thesis
  proof cases
    case nxt
    then show ?thesis using ev left Some
      by (auto simp: http_act_ok_def http_inv_def http_pos_def http_chars_def http_msr_def)
  next
    case evl
    then have "hp_state p \<noteq> hp_state ?par" using ev(1) by (auto simp: http_act_ok_def)
    then show ?thesis using evl ev left r Some
      by (auto simp: http_act_ok_def http_inv_def http_pos_def http_chars_def http_msr_def)
  qed
qed

lemma http_step_no_fault: "http_inv l b \<Longrightarrow> http_step mem ma l b \<noteq> PFault"
proof (cases "hl_c l")
  case None
  moreover assume inv: "http_inv l b"
  ultimately have "hl_left l = 0 \<or> buf_unread b \<noteq> []" "vtm_buf_inv b" by (auto simp: http_inv_def)
  then show ?thesis using None vtm_buf_getc_ok [of b]
    by (cases "buf_unread b") (auto simp: http_step_def http_next_def Let_def split: option.split)
next
  case (Some c)
  moreover assume "http_inv l b"
  ultimately show ?thesis using http_eval_step(1) [of l b c mem ma]
    by (auto simp: http_step_def http_act_ok_def Let_def split: http_act.splits)
qed

interpretation htp: safe_loop "http_step mem ma" "http_loop mem ma" http_inv http_msr for mem ma
  using http_loop.simps http_step_next http_step_no_fault by unfold_locales blast+

text \<open>
  C11. Given any bytes from the beginning of a message on, the HTTP parser returns: the loop with its
  jumps ends, every access is inside the used bytes of the buffer, the strings handed to the datasets
  end inside it, and the values of the headers can be read as strings and numbers.
\<close>

theorem http_parser_returns:
  assumes "vtm_buf_inv b"
  shows "\<exists>stat par' b'. vtm_http_parser_run mem ma (vtm_http_parser_reset par) b = Some (stat, par', b')"
proof -
  let ?par = "vtm_http_parser_reset par"
  let ?l = "\<lparr>hl_par = ?par, hl_oldstate = hp_state ?par, hl_left = unat (VTM_BUF_GET_AVAIL_TOTAL b), hl_c = None\<rparr>"
  have "unat (VTM_BUF_GET_AVAIL_TOTAL b) = length (buf_unread b)"
    using vtm_buf_invD [OF assms] by (simp add: VTM_BUF_GET_AVAIL_TOTAL_def buf_unread_def unat_sub word_le_nat_alt)
  then have "http_inv ?l b"
    using assms by (simp add: http_inv_def http_chars_def http_state_ok_def http_headers_ok_def vtm_http_parser_reset_def)
  from htp.run_total [OF this, of mem ma] show ?thesis
    by (auto simp: vtm_http_parser_run_def Let_def)
qed

theorem http_parser_returns_witness:
  "\<exists>stat par' b'. vtm_http_parser_run True alloc_all (vtm_http_parser_reset undefined)
     (vtm_buf_init VTM_BYTEORDER_LE) = Some (stat, par', b')"
  by (rule http_parser_returns) simp

end
