(* ===== verification/HttpLines.thy ===== *)
theory HttpLines
  imports HttpSafe
begin

text \<open>
  How the HTTP parser reads a message that is in the buffer as a whole. The buffer is split at the
  position of the parser: \<open>pre\<close> has been looked at, with separators overwritten, and \<open>suf\<close> has not.
\<close>

definition hbuf :: "vtm_buf \<Rightarrow> byte list \<Rightarrow> byte list \<Rightarrow> vtm_buf" where
  "hbuf b pre suf = b\<lparr>buf_data := pre @ suf, buf_read := of_nat (length pre)\<rparr>"

definition hbuf_ok :: "vtm_buf \<Rightarrow> byte list \<Rightarrow> byte list \<Rightarrow> bool" where
  "hbuf_ok b pre suf \<longleftrightarrow> vtm_buf_inv b \<and> length pre + length suf = length (buf_data b)"

lemma hbuf_ok_shift: "hbuf_ok b pre (c # suf) \<Longrightarrow> hbuf_ok b (pre @ [d]) suf"
  by (simp add: hbuf_ok_def)

lemma hbuf_ok_append: "hbuf_ok b pre (xs @ suf) \<Longrightarrow> length ys = length xs \<Longrightarrow> hbuf_ok b (pre @ ys) suf"
  by (simp add: hbuf_ok_def)

lemma hbuf_len: "hbuf_ok b pre suf \<Longrightarrow> length pre < 2 ^ 64"
  using vtm_buf_invD(1) [of b] unat_less_2p [of "buf_used b"] by (simp add: hbuf_ok_def)

lemma hbuf_simps [simp]:
  "buf_data (hbuf b pre suf) = pre @ suf" "buf_read (hbuf b pre suf) = of_nat (length pre)"
  by (simp_all add: hbuf_def)

lemma hbuf_poke:
  assumes "hbuf_ok b pre (c # suf)"
  shows "buf_poke (buf_read (hbuf b (pre @ [c]) suf) - 1) v (hbuf b (pre @ [c]) suf) = Some (hbuf b (pre @ [v]) suf)"
  using hbuf_len [OF assms] by (simp add: buf_poke_def hbuf_def)

lemma hbuf_getc:
  assumes "hbuf_ok b pre (c # suf)"
  shows "VTM_BUF_GETC (hbuf b pre (c # suf)) = Some (c, hbuf b (pre @ [c]) suf)"
  using hbuf_len [OF assms] by (simp add: VTM_BUF_GETC_def) (simp add: hbuf_def add.commute)

lemma hbuf_cstr:
  assumes "hbuf_ok b (pre @ s @ 0 # post) suf" and "no_nul s"
  shows "buf_cstr (of_nat (length pre)) (hbuf b (pre @ s @ 0 # post) suf) = Some s"
proof -
  have "length pre < 2 ^ 64" using hbuf_len [OF assms(1)] by simp
  then have "drop (unat (of_nat (length pre) :: size_t)) (buf_data (hbuf b (pre @ s @ 0 # post) suf)) = s @ 0 # post @ suf"
    by simp
  moreover have "takeWhile (\<lambda>c. c \<noteq> 0) (s @ 0 # post @ suf) = s"
    using assms(2) by (subst takeWhile_append2) (auto simp: no_nul_def)
  ultimately show ?thesis by (simp add: buf_cstr_def)
qed

subsection \<open>The loop on a split buffer\<close>

text \<open>
  The parser before the next byte, and at the label \<open>eval\<close> with the byte \<open>c\<close>, with \<open>k\<close> bytes already seen
  in its state.
\<close>

definition http_conf ::
    "bool \<Rightarrow> allocator \<Rightarrow> vtm_buf \<Rightarrow> vtm_http_parser \<Rightarrow> nat \<Rightarrow> byte list \<Rightarrow> byte list
     \<Rightarrow> (vtm_net_recv_stat \<times> http_local \<times> vtm_buf) option" where
  "http_conf mem ma b par k pre suf = http_loop mem ma
     \<lparr>hl_par = par\<lparr>hp_state_chars := of_nat k\<rparr>, hl_oldstate = hp_state par, hl_left = length suf, hl_c = None\<rparr>
     (hbuf b pre suf)"

definition http_char ::
    "bool \<Rightarrow> allocator \<Rightarrow> vtm_buf \<Rightarrow> vtm_http_parser \<Rightarrow> nat \<Rightarrow> byte \<Rightarrow> byte list \<Rightarrow> byte list
     \<Rightarrow> (vtm_net_recv_stat \<times> http_local \<times> vtm_buf) option" where
  "http_char mem ma b par k c pre suf = http_loop mem ma
     \<lparr>hl_par = par\<lparr>hp_state_chars := of_nat k\<rparr>, hl_oldstate = hp_state par, hl_left = length suf, hl_c = Some c\<rparr>
     (hbuf b (pre @ [c]) suf)"

definition http_limit :: "vtm_http_parser \<Rightarrow> nat \<Rightarrow> bool" where
  "http_limit par n \<longleftrightarrow> n \<le> unat (if http_in_body (hp_state par) then hp_max_body_size par else hp_max_header_size par)"

lemma http_conf_char:
  assumes "hbuf_ok b pre (c # suf)" and "http_limit par (length pre)"
  shows "http_conf mem ma b par k pre (c # suf) = http_char mem ma b par k c pre suf"
  unfolding http_conf_def http_char_def
  using assms hbuf_getc [OF assms(1)] hbuf_len [OF assms(1)]
  by (intro htp.run_next)
    (auto simp: http_step_def http_next_def http_limit_def word_less_nat_alt Let_def split: if_splits)

lemma http_char_eval:
  "http_char mem ma b par k c pre suf =
     (case http_eval mem ma c (par\<lparr>hp_state_chars := of_nat (Suc k)\<rparr>) (hbuf b (pre @ [c]) suf) of
        HNext par' b' \<Rightarrow> http_loop mem ma
          \<lparr>hl_par = par', hl_oldstate = hp_state par, hl_left = length suf, hl_c = None\<rparr> b'
      | HEval par' b' \<Rightarrow> http_loop mem ma
          \<lparr>hl_par = par', hl_oldstate = hp_state par, hl_left = length suf, hl_c = Some c\<rparr> b'
      | HStop stat par' b' \<Rightarrow>
          Some (stat, \<lparr>hl_par = par', hl_oldstate = hp_state par, hl_left = length suf, hl_c = Some c\<rparr>, b')
      | HFault \<Rightarrow> None)"
  unfolding http_char_def
  by (subst http_loop.simps)
    (simp add: http_step_def http_count_def Let_def add.commute split: http_act.split)

text \<open>A byte after which the parser stays in its state, changes it, or looks at the byte again.\<close>

lemma http_char_stay:
  assumes "http_eval mem ma c (par\<lparr>hp_state_chars := of_nat (Suc k)\<rparr>) (hbuf b (pre @ [c]) suf) =
      HNext (par'\<lparr>hp_state_chars := of_nat (Suc k)\<rparr>) (hbuf b (pre @ [d]) suf)" and "hp_state par' = hp_state par"
  shows "http_char mem ma b par k c pre suf = http_conf mem ma b par' (Suc k) (pre @ [d]) suf"
  using assms by (simp add: http_char_eval http_conf_def)

lemma http_loop_new_state:
  assumes "hp_state par' \<noteq> old"
  shows "http_loop mem ma \<lparr>hl_par = par'\<lparr>hp_state_chars := k\<rparr>, hl_oldstate = old, hl_left = n, hl_c = Some c\<rparr> b' =
    http_loop mem ma \<lparr>hl_par = par'\<lparr>hp_state_chars := 0\<rparr>, hl_oldstate = hp_state par', hl_left = n, hl_c = Some c\<rparr> b'"
  using assms by (subst (1 2) http_loop.simps) (simp add: http_step_def http_count_def Let_def)

lemma http_char_again:
  assumes "http_eval mem ma c (par\<lparr>hp_state_chars := of_nat (Suc k)\<rparr>) (hbuf b (pre @ [c]) suf) =
      HEval (par'\<lparr>hp_state_chars := of_nat (Suc k)\<rparr>) (hbuf b (pre @ [c]) suf)" and "hp_state par' \<noteq> hp_state par"
  shows "http_char mem ma b par k c pre suf = http_char mem ma b par' 0 c pre suf"
  using assms http_loop_new_state [OF assms(2)] by (simp add: http_char_eval [of mem ma b par] http_char_def [of mem ma b par'])

lemma http_char_go:
  assumes "http_eval mem ma c (par\<lparr>hp_state_chars := of_nat (Suc k)\<rparr>) (hbuf b (pre @ [c]) (c' # suf)) =
      HNext (par'\<lparr>hp_state_chars := of_nat (Suc k)\<rparr>) (hbuf b (pre @ [d]) (c' # suf))" and "hp_state par' \<noteq> hp_state par"
    and "hbuf_ok b (pre @ [d]) (c' # suf)" and "http_limit par' (Suc (length pre))"
  shows "http_char mem ma b par k c pre (c' # suf) = http_conf mem ma b par' 0 (pre @ [d]) (c' # suf)"
proof -
  let ?l = "\<lambda>p old. \<lparr>hl_par = p, hl_oldstate = old, hl_left = Suc (length suf), hl_c = None\<rparr>"
  have "http_loop mem ma (?l (par'\<lparr>hp_state_chars := x\<rparr>) old) (hbuf b (pre @ [d]) (c' # suf)) =
      http_loop mem ma \<lparr>hl_par = par'\<lparr>hp_state_chars := x\<rparr>, hl_oldstate = old, hl_left = length suf, hl_c = Some c'\<rparr>
        (hbuf b ((pre @ [d]) @ [c']) suf)" for x old
    using assms(3, 4) hbuf_getc [OF assms(3)] hbuf_len [OF assms(3)]
    by (intro htp.run_next)
      (auto simp: http_step_def http_next_def http_limit_def word_less_nat_alt Let_def simp del: of_nat_Suc split: if_splits)
  then show ?thesis
    using assms(1) http_loop_new_state [OF assms(2)] by (simp add: http_char_eval http_conf_def)
qed

text \<open>Bytes that the parser skips.\<close>

lemma http_skip:
  assumes "\<And>c k pre suf. c \<in> set xs \<Longrightarrow> http_eval mem ma c (par\<lparr>hp_state_chars := of_nat (Suc k)\<rparr>) (hbuf b pre suf) =
      HNext (par\<lparr>hp_state_chars := of_nat (Suc k)\<rparr>) (hbuf b pre suf)"
    and "hbuf_ok b pre (xs @ suf)" and "http_limit par (length pre + length xs)"
  shows "http_conf mem ma b par k pre (xs @ suf) = http_conf mem ma b par (k + length xs) (pre @ xs) suf"
  using assms
proof (induction xs arbitrary: k pre)
  case (Cons c xs)
  have "http_conf mem ma b par k pre (c # xs @ suf) = http_char mem ma b par k c pre (xs @ suf)"
    using Cons.prems(2, 3) by (intro http_conf_char) (auto simp: http_limit_def)
  also have "\<dots> = http_conf mem ma b par (Suc k) (pre @ [c]) (xs @ suf)"
    using Cons.prems(1) by (intro http_char_stay) simp_all
  also have "\<dots> = http_conf mem ma b par (Suc k + length xs) ((pre @ [c]) @ xs) suf"
    using Cons.prems hbuf_ok_shift by (intro Cons.IH) auto
  finally show ?case by simp
qed simp


lemma http_again:
  assumes "http_eval mem ma c (par\<lparr>hp_state_chars := of_nat (Suc k)\<rparr>) (hbuf b (pre @ [c]) suf) =
      HEval (par'\<lparr>hp_state_chars := of_nat (Suc k)\<rparr>) (hbuf b (pre @ [c]) suf)" and "hp_state par' \<noteq> hp_state par"
    and "hbuf_ok b pre (c # suf)" and "http_limit par (length pre)" and "http_limit par' (length pre)"
  shows "http_conf mem ma b par k pre (c # suf) = http_conf mem ma b par' 0 pre (c # suf)"
  using http_conf_char [OF assms(3, 4)] http_conf_char [OF assms(3, 5)] http_char_again [OF assms(1, 2)] by simp

lemma http_go:
  assumes "http_eval mem ma c (par\<lparr>hp_state_chars := of_nat (Suc k)\<rparr>) (hbuf b (pre @ [c]) (c' # suf)) =
      HNext (par'\<lparr>hp_state_chars := of_nat (Suc k)\<rparr>) (hbuf b (pre @ [d]) (c' # suf))" and "hp_state par' \<noteq> hp_state par"
    and "hbuf_ok b pre (c # c' # suf)" and "http_limit par (length pre)" and "http_limit par' (Suc (length pre))"
  shows "http_conf mem ma b par k pre (c # c' # suf) = http_conf mem ma b par' 0 (pre @ [d]) (c' # suf)"
  using http_conf_char [OF assms(3, 4)] http_char_go [OF assms(1, 2) hbuf_ok_shift [OF assms(3)] assms(5)] by simp

subsection \<open>The request line\<close>

lemmas http_eval_simps = http_eval_def http_begin_def http_req_method_def http_req_path_def http_expect_def
  http_version_major_def http_version_minor_def byte_of_def Let_def

lemma http_read_method:
  assumes "hp_state par = VTM_HTTP_PARSE_BEGIN" "hp_mode par = VTM_HTTP_PM_REQUEST"
    and "vtm_http_get_method m = Some meth" and "no_nul m" "32 \<notin> set m"
    and ok: "hbuf_ok b [] (m @ 32 # c' # suf)" and lim: "length m + 1 \<le> unat (hp_max_header_size par)"
  shows "http_conf mem ma b par 0 [] (m @ 32 # c' # suf) =
    http_conf mem ma b (par\<lparr>hp_req_method := meth, hp_state := VTM_HTTP_PARSE_REQ_PATH\<rparr>) 0 (m @ [0]) (c' # suf)"
proof -
  let ?p1 = "par\<lparr>hp_state := VTM_HTTP_PARSE_REQ_METHOD\<rparr>"
  have l: "http_limit par n" "http_limit ?p1 n" if "n \<le> length m + 1" for n
    using that lim assms(1) by (simp_all add: http_limit_def http_in_body_def)
  have skip: "http_eval mem ma c (?p1\<lparr>hp_state_chars := of_nat (Suc k)\<rparr>) (hbuf b pre suf) =
      HNext (?p1\<lparr>hp_state_chars := of_nat (Suc k)\<rparr>) (hbuf b pre suf)" if "c \<in> set m" for c k b pre suf
    using that assms(5) by (auto simp: http_eval_simps)
  obtain x xs where x: "m @ 32 # c' # suf = x # xs" by (cases m) auto
  have "http_conf mem ma b par 0 [] (x # xs) = http_conf mem ma b ?p1 0 [] (x # xs)"
    using assms(1, 2) ok x l by (intro http_again) (simp_all add: http_eval_simps)
  also have "\<dots> = http_conf mem ma b ?p1 (length m) m (32 # c' # suf)"
    unfolding x [symmetric] using http_skip [OF skip, of m b "[]" "32 # c' # suf" 0] ok l by simp
  also have "\<dots> = http_conf mem ma b (par\<lparr>hp_req_method := meth, hp_state := VTM_HTTP_PARSE_REQ_PATH\<rparr>) 0 (m @ [0]) (c' # suf)"
  proof (rule http_go)
    have ok': "hbuf_ok b m (32 # c' # suf)" using hbuf_ok_append [OF ok, of m] by simp
    have "buf_cstr 0 (hbuf b (m @ [0]) (c' # suf)) = Some m"
      using hbuf_cstr [of b "[]" m "[]" "c' # suf"] hbuf_ok_shift [OF ok'] assms(4) by simp
    then show "http_eval mem ma 32 (?p1\<lparr>hp_state_chars := of_nat (Suc (length m))\<rparr>) (hbuf b (m @ [32]) (c' # suf)) =
      HNext (par\<lparr>hp_req_method := meth, hp_state := VTM_HTTP_PARSE_REQ_PATH,
        hp_state_chars := of_nat (Suc (length m))\<rparr>) (hbuf b (m @ [0]) (c' # suf))"
      using hbuf_poke [OF ok'] assms(3) by (simp add: http_eval_simps)
  qed (use ok l hbuf_ok_append [OF ok, of m] lim in \<open>simp_all add: http_limit_def http_in_body_def\<close>)
  finally show ?thesis using x by simp
qed

lemma http_read_path:
  assumes "hp_state par = VTM_HTTP_PARSE_REQ_PATH" and "32 \<notin> set path" "63 \<notin> set path"
    and ok: "hbuf_ok b pre (path @ 32 # c' # suf)" and lim: "length pre + length path + 1 \<le> unat (hp_max_header_size par)"
  shows "http_conf mem ma b par 0 pre (path @ 32 # c' # suf) =
    http_conf mem ma b (par\<lparr>hp_req_path := Some (of_nat (length pre)), hp_state := VTM_HTTP_PARSE_VERSION_H\<rparr>) 0
      (pre @ path @ [0]) (c' # suf)"
proof -
  have l: "http_limit par n" if "n \<le> length pre + length path + 1" for n
    using that lim assms(1) by (simp add: http_limit_def http_in_body_def)
  have skip: "http_eval mem ma c (par\<lparr>hp_state_chars := of_nat (Suc k)\<rparr>) (hbuf b pre suf) =
      HNext (par\<lparr>hp_state_chars := of_nat (Suc k)\<rparr>) (hbuf b pre suf)" if "c \<in> set path" for c k b pre suf
    using that assms(1, 2, 3) by (auto simp: http_eval_simps)
  have "http_conf mem ma b par 0 pre (path @ 32 # c' # suf) =
      http_conf mem ma b par (length path) (pre @ path) (32 # c' # suf)"
    using http_skip [OF skip, of path b pre "32 # c' # suf" 0] ok l by simp
  also have "\<dots> = http_conf mem ma b (par\<lparr>hp_req_path := Some (of_nat (length pre)), hp_state := VTM_HTTP_PARSE_VERSION_H\<rparr>) 0
      ((pre @ path) @ [0]) (c' # suf)"
  proof (rule http_go)
    have ok': "hbuf_ok b (pre @ path) (32 # c' # suf)" using hbuf_ok_append [OF ok, of path] by simp
    then show "http_eval mem ma 32 (par\<lparr>hp_state_chars := of_nat (Suc (length path))\<rparr>)
        (hbuf b ((pre @ path) @ [32]) (c' # suf)) =
      HNext (par\<lparr>hp_req_path := Some (of_nat (length pre)), hp_state := VTM_HTTP_PARSE_VERSION_H,
        hp_state_chars := of_nat (Suc (length path))\<rparr>) (hbuf b ((pre @ path) @ [0]) (c' # suf))"
      using hbuf_poke [OF ok'] assms(1) by (simp add: http_eval_simps)
  qed (use ok l hbuf_ok_append [OF ok, of path] lim assms(1) in \<open>simp_all add: http_limit_def http_in_body_def\<close>)
  finally show ?thesis by simp
qed


text \<open>One expected byte.\<close>

lemma http_read_expected:
  assumes "\<And>k pre suf. http_eval mem ma c (par\<lparr>hp_state_chars := k\<rparr>) (hbuf b pre suf) =
      HNext (par'\<lparr>hp_state_chars := k\<rparr>) (hbuf b pre suf)"
    and "hp_state par' \<noteq> hp_state par" "\<not> http_in_body (hp_state par)" "\<not> http_in_body (hp_state par')"
    and "hp_max_header_size par' = hp_max_header_size par"
    and "hbuf_ok b pre (c # c' # suf)" and "length pre + 1 \<le> unat (hp_max_header_size par)"
  shows "http_conf mem ma b par k pre (c # c' # suf) = http_conf mem ma b par' 0 (pre @ [c]) (c' # suf)"
  using assms by (intro http_go) (simp_all add: http_limit_def)

lemma http_stay_eval:
  assumes "http_eval mem ma c (par\<lparr>hp_state_chars := of_nat (Suc k)\<rparr>) (hbuf b (pre @ [c]) suf) =
      HNext (par'\<lparr>hp_state_chars := of_nat (Suc k)\<rparr>) (hbuf b (pre @ [c]) suf)" and "hp_state par' = hp_state par"
    and "hbuf_ok b pre (c # suf)" and "http_limit par (length pre)"
  shows "http_conf mem ma b par k pre (c # suf) = http_conf mem ma b par' (Suc k) (pre @ [c]) suf"
  using http_conf_char [OF assms(3, 4)] http_char_stay [OF assms(1, 2)] by simp

definition http_minor :: "vtm_http_version \<Rightarrow> byte" where
  "http_minor ver = (if ver = VTM_HTTP_VER_1_0 then 48 else 49)"

lemma http_read_version:
  assumes st: "hp_state par = VTM_HTTP_PARSE_VERSION_H" "hp_mode par = VTM_HTTP_PM_REQUEST"
    "hp_version_major par = 0" "hp_version_minor par = 0"
    and ok: "hbuf_ok b pre ([72, 84, 84, 80, 47, 49, 46, http_minor ver, 13, 10] @ c' # suf)"
    and lim: "length pre + 10 \<le> unat (hp_max_header_size par)"
  shows "http_conf mem ma b par 0 pre ([72, 84, 84, 80, 47, 49, 46, http_minor ver, 13, 10] @ c' # suf) =
    http_conf mem ma b (par\<lparr>hp_version_major := 1, hp_version_minor := ucast (http_minor ver - 48), hp_version := ver,
        hp_state := VTM_HTTP_PARSE_HEADER_LINE_BEGIN\<rparr>) 0
      (pre @ [72, 84, 84, 80, 47, 49, 46, http_minor ver, 13, 10]) (c' # suf)"
proof -
  let ?s = "\<lambda>st. par\<lparr>hp_state := st\<rparr>" and ?m = "http_minor ver"
  let ?M = "\<lambda>st. par\<lparr>hp_version_major := 1, hp_state := st\<rparr>"
  let ?N = "\<lambda>st. par\<lparr>hp_version_major := 1, hp_version_minor := ucast (?m - 48), hp_state := st\<rparr>"
  let ?V = "\<lambda>st. par\<lparr>hp_version_major := 1, hp_version_minor := ucast (?m - 48), hp_version := ver, hp_state := st\<rparr>"
  have okn: "hbuf_ok b (pre @ ys) zs" if "[72, 84, 84, 80, 47, 49, 46, ?m, 13, 10] @ c' # suf = xs @ zs" "length ys = length xs" for xs ys zs
    using hbuf_ok_append [OF ok [unfolded that(1)] that(2)] .
  note ev = http_eval_simps http_in_body_def
  have d: "c_isdigit 49" "c_isdigit ?m" "\<not> c_isdigit 46" "\<not> c_isdigit 13"
    by (simp_all add: c_isdigit_def http_minor_def)
  have gv: "vtm_http_get_version 1 (ucast (?m - 48)) = Some ver" by (cases ver) (simp_all add: http_minor_def vtm_http_get_version_def)
  have p: "par = ?s VTM_HTTP_PARSE_VERSION_H" using st(1) by simp
  have "http_conf mem ma b par 0 pre ([72, 84, 84, 80, 47, 49, 46, ?m, 13, 10] @ c' # suf) =
      http_conf mem ma b (?s VTM_HTTP_PARSE_VERSION_HT) 0 (pre @ [72]) (84 # [84, 80, 47, 49, 46, ?m, 13, 10] @ c' # suf)"
    unfolding append_Cons by (rule http_read_expected) (use st ok lim in \<open>simp_all add: ev\<close>)
  also have "\<dots> = http_conf mem ma b (?s VTM_HTTP_PARSE_VERSION_HTT) 0 ((pre @ [72]) @ [84]) (84 # [80, 47, 49, 46, ?m, 13, 10] @ c' # suf)"
    unfolding append_Cons by (rule http_read_expected) (use okn [of "[72]"] lim in \<open>simp_all add: ev\<close>)
  also have "\<dots> = http_conf mem ma b (?s VTM_HTTP_PARSE_VERSION_HTTP) 0 (((pre @ [72]) @ [84]) @ [84]) (80 # [47, 49, 46, ?m, 13, 10] @ c' # suf)"
    unfolding append_Cons by (rule http_read_expected) (use okn [of "[72, 84]"] lim in \<open>simp_all add: ev\<close>)
  also have "\<dots> = http_conf mem ma b (?s VTM_HTTP_PARSE_VERSION_SLASH) 0 ((((pre @ [72]) @ [84]) @ [84]) @ [80]) (47 # [49, 46, ?m, 13, 10] @ c' # suf)"
    unfolding append_Cons by (rule http_read_expected) (use okn [of "[72, 84, 84]"] lim in \<open>simp_all add: ev\<close>)
  also have "\<dots> = http_conf mem ma b (?s VTM_HTTP_PARSE_VERSION_MAJOR) 0 (pre @ [72, 84, 84, 80, 47]) (49 # [46, ?m, 13, 10] @ c' # suf)"
    unfolding append_Cons by (subst http_read_expected [where par' = "?s VTM_HTTP_PARSE_VERSION_MAJOR"])
      (use okn [of "[72, 84, 84, 80]"] lim in \<open>simp_all add: ev\<close>)
  also have "\<dots> = http_conf mem ma b (?M VTM_HTTP_PARSE_VERSION_MAJOR) 1 (pre @ [72, 84, 84, 80, 47, 49]) (46 # [?m, 13, 10] @ c' # suf)"
    unfolding append_Cons by (subst http_stay_eval [where par' = "?M VTM_HTTP_PARSE_VERSION_MAJOR"])
      (use okn [of "[72, 84, 84, 80, 47]"] lim d st in \<open>simp_all add: ev http_limit_def\<close>)
  also have "\<dots> = http_conf mem ma b (?M VTM_HTTP_PARSE_VERSION_MINOR) 0 (pre @ [72, 84, 84, 80, 47, 49, 46]) (?m # [13, 10] @ c' # suf)"
    unfolding append_Cons by (subst http_read_expected [where par' = "?M VTM_HTTP_PARSE_VERSION_MINOR"])
      (use okn [of "[72, 84, 84, 80, 47, 49]"] lim d in \<open>simp_all add: ev\<close>)
  also have "\<dots> = http_conf mem ma b (?N VTM_HTTP_PARSE_VERSION_MINOR) 1 (pre @ [72, 84, 84, 80, 47, 49, 46, ?m]) (13 # [10] @ c' # suf)"
    unfolding append_Cons by (subst http_stay_eval [where par' = "?N VTM_HTTP_PARSE_VERSION_MINOR"])
      (use okn [of "[72, 84, 84, 80, 47, 49, 46]"] lim d st in \<open>simp_all add: ev http_limit_def\<close>)
  also have "\<dots> = http_conf mem ma b (?V VTM_HTTP_PARSE_REQ_LINE_LF) 0 (pre @ [72, 84, 84, 80, 47, 49, 46, ?m, 13]) (10 # [] @ c' # suf)"
    unfolding append_Cons by (subst http_read_expected [where par' = "?V VTM_HTTP_PARSE_REQ_LINE_LF"])
      (use okn [of "[72, 84, 84, 80, 47, 49, 46, ?m]"] lim d st gv in \<open>simp_all add: ev\<close>)
  also have "\<dots> = http_conf mem ma b (?V VTM_HTTP_PARSE_HEADER_LINE_BEGIN) 0 (pre @ [72, 84, 84, 80, 47, 49, 46, ?m, 13, 10]) (c' # suf)"
    unfolding append_Nil by (subst http_read_expected [where par' = "?V VTM_HTTP_PARSE_HEADER_LINE_BEGIN"])
      (use okn [of "[72, 84, 84, 80, 47, 49, 46, ?m, 13]"] lim in \<open>simp_all add: ev\<close>)
  finally show ?thesis .
qed


subsection \<open>Header lines\<close>

definition http_line :: "cstr \<times> cstr \<Rightarrow> byte list" where
  "http_line h = fst h @ [58, 32] @ snd h @ [13, 10]"

definition http_line_ok :: "cstr \<times> cstr \<Rightarrow> bool" where
  "http_line_ok h \<longleftrightarrow> fst h \<noteq> [] \<and> set (fst h) \<inter> {0, 10, 13, 32, 58} = {}
     \<and> snd h \<noteq> [] \<and> set (snd h) \<inter> {0, 10, 13} = {} \<and> hd (snd h) \<noteq> 32 \<and> hd (snd h) \<noteq> 9"

lemmas http_header_simps = http_eval_def http_header_name_def http_header_value_def byte_of_def
  vtm_http_parser_isspace_def Let_def

definition http_header_dataset :: "vtm_http_parser \<Rightarrow> vtm_dataset" where
  "http_header_dataset par = (case hp_headers par of None \<Rightarrow> vtm_dataset_newh VTM_DS_HINT_IGNORE_CASE | Some ds \<Rightarrow> ds)"

text \<open>The name of a header.\<close>

lemma http_read_header_name:
  assumes st: "hp_state par = VTM_HTTP_PARSE_HEADER_LINE_BEGIN" and n: "n \<noteq> []" "set n \<inter> {10, 13, 32, 58} = {}"
    and ok: "hbuf_ok b pre (n @ 58 # c' # suf)" and lim: "length pre + length n + 1 \<le> unat (hp_max_header_size par)"
  shows "http_conf mem ma b par 0 pre (n @ 58 # c' # suf) = http_conf mem ma b
    (par\<lparr>hp_header_name_begin := of_nat (length pre), hp_header_value_begin := 0, hp_state := VTM_HTTP_PARSE_HEADER_VALUE\<rparr>)
    0 (pre @ n @ [0]) (c' # suf)"
proof -
  let ?p = "\<lambda>st. par\<lparr>hp_header_name_begin := of_nat (length pre), hp_header_value_begin := 0, hp_state := st\<rparr>"
  let ?N = "?p VTM_HTTP_PARSE_HEADER_NAME"
  have l: "http_limit par i" "http_limit ?N i" "http_limit (?p VTM_HTTP_PARSE_HEADER_VALUE) i"
    if "i \<le> length pre + length n + 1" for i
    using that lim st by (simp_all add: http_limit_def http_in_body_def)
  have skip: "http_eval mem ma c (?N\<lparr>hp_state_chars := of_nat (Suc k)\<rparr>) (hbuf b pre suf) =
      HNext (?N\<lparr>hp_state_chars := of_nat (Suc k)\<rparr>) (hbuf b pre suf)" if "c \<in> set n" for c k b pre suf
    using that n(2) by (auto simp: http_header_simps)
  obtain x xs where x: "n @ 58 # c' # suf = x # xs" by (cases n) auto
  have "http_conf mem ma b par 0 pre (x # xs) = http_conf mem ma b ?N 0 pre (x # xs)"
    using ok l st unfolding x by (intro http_again) (simp_all add: http_header_simps)
  also have "\<dots> = http_conf mem ma b ?N (length n) (pre @ n) (58 # c' # suf)"
    unfolding x [symmetric] using http_skip [OF skip, of n b pre "58 # c' # suf" 0] ok l by simp
  also have "\<dots> = http_conf mem ma b (?p VTM_HTTP_PARSE_HEADER_VALUE) 0 ((pre @ n) @ [0]) (c' # suf)"
  proof (rule http_go)
    have ok': "hbuf_ok b (pre @ n) (58 # c' # suf)" using hbuf_ok_append [OF ok, of n] by simp
    then show "http_eval mem ma 58 (?N\<lparr>hp_state_chars := of_nat (Suc (length n))\<rparr>) (hbuf b ((pre @ n) @ [58]) (c' # suf)) =
      HNext (?p VTM_HTTP_PARSE_HEADER_VALUE\<lparr>hp_state_chars := of_nat (Suc (length n))\<rparr>) (hbuf b ((pre @ n) @ [0]) (c' # suf))"
      using hbuf_poke [OF ok'] by (simp add: http_header_simps)
  qed (use l hbuf_ok_append [OF ok, of n] in simp_all)
  finally show ?thesis using x by simp
qed

lemma of_nat_size_nz: "0 < n \<Longrightarrow> n < 2 ^ 64 \<Longrightarrow> (of_nat n :: size_t) \<noteq> 0"
  using unat_of_nat_small [of n, where ?'a = 64] by (auto simp del: unat_of_nat_small)

text \<open>Its value, up to the carriage return.\<close>

lemma http_read_header_value:
  assumes st: "hp_state par = VTM_HTTP_PARSE_HEADER_VALUE" "hp_header_value_begin par = 0"
    and v: "v \<noteq> []" "set v \<inter> {10, 13} = {}" "hd v \<noteq> 32" "hd v \<noteq> 9" and pre: "pre \<noteq> []"
    and ok: "hbuf_ok b pre (32 # v @ 13 # c' # suf)" and lim: "length pre + length v + 2 \<le> unat (hp_max_header_size par)"
  shows "http_conf mem ma b par 0 pre (32 # v @ 13 # c' # suf) = http_conf mem ma b
    (par\<lparr>hp_header_value_begin := of_nat (length pre + 1), hp_state := VTM_HTTP_PARSE_HEADER_LINE_LF\<rparr>)
    0 (pre @ 32 # v @ [0]) (c' # suf)"
proof -
  let ?V = "par\<lparr>hp_header_value_begin := of_nat (length pre + 1)\<rparr>"
  have l: "http_limit par i" "http_limit ?V i" "http_limit (?V\<lparr>hp_state := VTM_HTTP_PARSE_HEADER_LINE_LF\<rparr>) i"
    if "i \<le> length pre + length v + 2" for i
    using that lim st by (simp_all add: http_limit_def http_in_body_def)
  obtain x xs where x: "v = x # xs" using v(1) by (cases v) auto
  have "length pre + 1 < 2 ^ 64" using ok hbuf_len [OF hbuf_ok_append [OF ok [unfolded append_Cons [of 32 v, symmetric]], of "32 # v"]] x by simp
  then have nz: "(of_nat (length pre + 1) :: size_t) \<noteq> 0" by (intro of_nat_size_nz) simp_all
  have ok1: "hbuf_ok b (pre @ [32]) (x # xs @ 13 # c' # suf)" using hbuf_ok_shift [OF ok] x by simp
  have skip: "http_eval mem ma c (?V\<lparr>hp_state_chars := of_nat (Suc k)\<rparr>) (hbuf b pre suf) =
      HNext (?V\<lparr>hp_state_chars := of_nat (Suc k)\<rparr>) (hbuf b pre suf)" if "c \<in> set xs" for c k b pre suf
    using that v(2) st nz x by (auto simp: http_header_simps)
  have "http_conf mem ma b par 0 pre (32 # v @ 13 # c' # suf) = http_conf mem ma b par 1 (pre @ [32]) (v @ 13 # c' # suf)"
    by (subst http_stay_eval [where par' = par]) (use ok l st in \<open>simp_all add: http_header_simps\<close>)
  also have "\<dots> = http_conf mem ma b ?V 2 (pre @ [32, x]) (xs @ 13 # c' # suf)"
    unfolding x append_Cons by (subst http_stay_eval [where par' = ?V])
      (use ok1 l st v x in \<open>simp_all add: http_header_simps numeral_2_eq_2\<close>)
  also have "\<dots> = http_conf mem ma b ?V (2 + length xs) ((pre @ [32, x]) @ xs) (13 # c' # suf)"
    using http_skip [OF skip, of xs b "pre @ [32, x]" "13 # c' # suf" 2] hbuf_ok_shift [OF ok1, of x] l x by simp
  also have "\<dots> = http_conf mem ma b (?V\<lparr>hp_state := VTM_HTTP_PARSE_HEADER_LINE_LF\<rparr>) 0 ((pre @ 32 # v) @ [0]) (c' # suf)"
  proof -
    have ok': "hbuf_ok b (pre @ 32 # v) (13 # c' # suf)"
      using hbuf_ok_append [of b pre "32 # v" "13 # c' # suf" "32 # v"] ok by simp
    have t: "http_trim_end ((pre @ 32 # v @ [13]) @ c' # suf) (length pre + Suc (length v)) = Some (length pre + Suc (length v))"
      by (rule http_trim_end_CR) (simp_all add: nth_append)
    have e: "(of_nat (Suc (length pre + Suc (length v))) - 1 :: size_t) = of_nat (length pre + Suc (length v))" by simp
    have r: "unat (of_nat (Suc (length pre + Suc (length v))) - 1 :: size_t) = length pre + Suc (length v)"
      unfolding e using hbuf_len [OF hbuf_ok_shift [OF ok', of 0]] by (intro unat_of_nat_small) simp
    note e = e [symmetric]
    have "http_eval mem ma 13 (?V\<lparr>hp_state_chars := of_nat (Suc (2 + length xs))\<rparr>) (hbuf b ((pre @ 32 # v) @ [13]) (c' # suf)) =
      HNext (?V\<lparr>hp_state := VTM_HTTP_PARSE_HEADER_LINE_LF, hp_state_chars := of_nat (Suc (2 + length xs))\<rparr>)
        (hbuf b ((pre @ 32 # v) @ [0]) (c' # suf))"
      using hbuf_poke [OF ok', of 0] r t e nz st by (simp add: http_header_simps del: of_nat_Suc of_nat_add)
    from http_go [OF this _ ok'] show ?thesis using l x st by simp
  qed
  finally show ?thesis by simp
qed


text \<open>
  The fields that a list of header lines stands for: names without regard to case, and the values of
  repeated names joined by commas.
\<close>

fun http_fields :: "(cstr \<times> cstr) list \<Rightarrow> (cstr \<Rightarrow> cstr option) \<Rightarrow> cstr \<Rightarrow> cstr option" where
  "http_fields [] f = f"
| "http_fields (h # hs) f =
     http_fields hs (f(ds_norm True (fst h) \<mapsto>
       (case f (ds_norm True (fst h)) of None \<Rightarrow> snd h | Some prev \<Rightarrow> prev @ bytes_of '', '' @ snd h)))"

definition ds_fields :: "vtm_dataset \<Rightarrow> (cstr \<Rightarrow> cstr option) \<Rightarrow> bool" where
  "ds_fields ds f \<longleftrightarrow> ds_strings True ds \<and> (\<forall>n. no_nul n \<longrightarrow> ds_text ds n = f (ds_norm True n))"

lemma http_save_header:
  assumes f: "ds_fields ds f" and name: "buf_cstr (hp_header_name_begin par) b = Some n" "no_nul n"
    and val: "buf_cstr (hp_header_value_begin par) b = Some v" and ma: "\<And>m. ma m"
  obtains ds' where "\<And>k. vtm_http_parser_save_header ma ds par b k = k ds' True" "ds_fields ds' (http_fields [(n, v)] f)"
proof -
  have s: "ds_strings True ds" using f by (simp add: ds_fields_def)
  obtain d1 where d1: "vtm_dataset_get_string ma ds n = Inr (ds_text ds n, d1)" "ds_strings True d1"
    "\<And>m. no_nul m \<Longrightarrow> ds_text d1 m = ds_text ds m" using ds_get_string [OF s name(2), of ma] by blast
  let ?v = "case ds_text ds n of None \<Rightarrow> v | Some prev \<Rightarrow> prev @ bytes_of '', '' @ v"
  let ?d = "fst (vtm_dataset_set_string d1 n (Some ?v))"
  have "ds_fields ?d (http_fields [(n, v)] f)"
    using ds_set_string [OF d1(2) name(2) refl] d1(3) f name(2) by (simp add: ds_fields_def split: option.split)
  moreover have "vtm_http_parser_save_header ma ds par b k = k ?d True" for k
    using name(1) val d1(1) ma by (simp add: vtm_http_parser_save_header_def split: option.split)
  ultimately show thesis using that by blast
qed

text \<open>What a header line changes in the parser.\<close>

definition http_par_upd :: "vtm_http_parser \<Rightarrow> vtm_http_parser \<Rightarrow> bool" where
  "http_par_upd par par' \<longleftrightarrow> (\<exists>h fr n v. par' = par\<lparr>hp_headers := h, hp_headers_free := fr,
     hp_header_name_begin := n, hp_header_value_begin := v\<rparr>)"

lemma http_par_upd_refl: "http_par_upd par par"
  unfolding http_par_upd_def
  by (rule exI [of _ "hp_headers par"], rule exI [of _ "hp_headers_free par"],
      rule exI [of _ "hp_header_name_begin par"], rule exI [of _ "hp_header_value_begin par"]) simp

lemma http_par_upd_trans: "http_par_upd par par' \<Longrightarrow> http_par_upd par' par'' \<Longrightarrow> http_par_upd par par''"
  unfolding http_par_upd_def by fastforce

lemma http_read_line:
  assumes st: "hp_state par = VTM_HTTP_PARSE_HEADER_LINE_BEGIN" and h: "http_line_ok (n, v)" and pre: "pre \<noteq> []"
    and ok: "hbuf_ok b pre (http_line (n, v) @ c' # suf)"
    and lim: "length pre + length (http_line (n, v)) \<le> unat (hp_max_header_size par)"
    and f: "ds_fields (http_header_dataset par) f" and ma: "\<And>m. ma m"
  obtains par' ds where "http_conf True ma b par 0 pre (http_line (n, v) @ c' # suf) =
      http_conf True ma b par' 0 (pre @ n @ [0, 32] @ v @ [0, 10]) (c' # suf)"
    and "http_par_upd par par'" "hp_headers par' = Some ds" "ds_fields ds (http_fields [(n, v)] f)"
proof -
  let ?p1 = "par\<lparr>hp_header_name_begin := of_nat (length pre), hp_header_value_begin := 0, hp_state := VTM_HTTP_PARSE_HEADER_VALUE\<rparr>"
  let ?p2 = "\<lambda>st. par\<lparr>hp_header_name_begin := of_nat (length pre),
      hp_header_value_begin := of_nat (length (pre @ n @ [0]) + 1), hp_state := st\<rparr>"
  let ?pre = "pre @ n @ [0, 32] @ v @ [0]"
  let ?LF = VTM_HTTP_PARSE_HEADER_LINE_LF and ?LC = VTM_HTTP_PARSE_HEADER_LINE_COMPLETE
  have nv: "n \<noteq> []" "set n \<inter> {10, 13, 32, 58} = {}" "no_nul n" "v \<noteq> []" "set v \<inter> {10, 13} = {}" "hd v \<noteq> 32" "hd v \<noteq> 9" "no_nul v"
    using h by (auto simp: http_line_ok_def no_nul_def)
  have line: "http_line (n, v) @ c' # suf = n @ 58 # 32 # v @ 13 # 10 # c' # suf" by (simp add: http_line_def)
  have len: "length pre + length n + length v + 4 \<le> unat (hp_max_header_size par)" using lim by (simp add: http_line_def)
  have ok1: "hbuf_ok b pre (n @ 58 # 32 # v @ 13 # 10 # c' # suf)" using ok line by simp
  have ok2: "hbuf_ok b (pre @ n @ [0]) (32 # v @ 13 # 10 # c' # suf)"
    using hbuf_ok_append [of b pre "n @ [58]" "32 # v @ 13 # 10 # c' # suf" "n @ [0]"] ok1 by simp
  have ok3: "hbuf_ok b ?pre (10 # c' # suf)"
    using hbuf_ok_append [of b "pre @ n @ [0]" "32 # v @ [13]" "10 # c' # suf" "32 # v @ [0]"] ok2 by simp
  have "http_conf True ma b par 0 pre (n @ 58 # 32 # v @ 13 # 10 # c' # suf) =
      http_conf True ma b ?p1 0 (pre @ n @ [0]) (32 # v @ 13 # 10 # c' # suf)"
    using http_read_header_name [OF st nv(1, 2) ok1] len by simp
  also have "\<dots> = http_conf True ma b (?p2 ?LF) 0 ?pre (10 # c' # suf)"
    using http_read_header_value [OF _ _ nv(4-7) _ ok2, of ?p1] len by simp
  also have "\<dots> = http_conf True ma b (?p2 ?LC) 0 ?pre (10 # c' # suf)"
    using ok3 len by (intro http_again) (simp_all add: http_eval_def http_limit_def http_in_body_def)
  finally have r: "http_conf True ma b par 0 pre (n @ 58 # 32 # v @ 13 # 10 # c' # suf) =
      http_conf True ma b (?p2 ?LC) 0 ?pre (10 # c' # suf)" .
  let ?b = "hbuf b (?pre @ [10]) (c' # suf)"
  have c1: "buf_cstr (of_nat (length pre)) ?b = Some n"
    using hbuf_cstr [of b pre n "[32] @ v @ [0, 10]" "c' # suf"] hbuf_ok_shift [OF ok3, of 10] nv(3) by simp
  have c2: "buf_cstr (of_nat (length (pre @ n @ [0]) + 1)) ?b = Some v"
    using hbuf_cstr [of b "pre @ n @ [0, 32]" v "[10]" "c' # suf"] hbuf_ok_shift [OF ok3, of 10] nv(8) by simp
  obtain ds where ds: "\<And>k. vtm_http_parser_save_header ma (http_header_dataset par) (?p2 ?LC\<lparr>hp_state_chars := 1\<rparr>) ?b k = k ds True"
    "ds_fields ds (http_fields [(n, v)] f)"
    by (rule http_save_header [OF f, of "?p2 ?LC\<lparr>hp_state_chars := 1\<rparr>" ?b n v ma]) (use c1 c2 nv(3) ma in simp_all)
  define fr where "fr = (case hp_headers par of None \<Rightarrow> True | Some x \<Rightarrow> hp_headers_free par)"
  let ?p' = "?p2 VTM_HTTP_PARSE_HEADER_LINE_BEGIN\<lparr>hp_headers := Some ds, hp_headers_free := fr\<rparr>"
  have "http_eval True ma 10 (?p2 ?LC\<lparr>hp_state_chars := of_nat (Suc 0)\<rparr>) ?b = HNext (?p'\<lparr>hp_state_chars := of_nat (Suc 0)\<rparr>) ?b"
    using ds(1) by (cases "hp_headers par") (simp_all add: http_eval_def http_header_complete_def http_header_dataset_def fr_def Let_def)
  from http_go [OF this _ ok3] have "http_conf True ma b (?p2 ?LC) 0 ?pre (10 # c' # suf) = http_conf True ma b ?p' 0 (?pre @ [10]) (c' # suf)"
    using len by (simp add: http_limit_def http_in_body_def)
  moreover have "?p' = par\<lparr>hp_headers := Some ds, hp_headers_free := fr, hp_header_name_begin := of_nat (length pre),
      hp_header_value_begin := of_nat (length (pre @ n @ [0]) + 1)\<rparr>" 
    by (intro vtm_http_parser.equality) (use st in simp_all)
  then have "http_par_upd par ?p'" unfolding http_par_upd_def by blast
  ultimately show thesis using that [of ?p' ds] r ds(2) line by simp
qed


lemma http_read_lines:
  assumes "hp_state par = VTM_HTTP_PARSE_HEADER_LINE_BEGIN" and "list_all http_line_ok hs" and "pre \<noteq> []"
    and "hbuf_ok b pre (concat (map http_line hs) @ c' # suf)"
    and "length pre + length (concat (map http_line hs)) \<le> unat (hp_max_header_size par)"
    and "ds_fields (http_header_dataset par) f" and ma: "\<And>m. ma m"
  obtains par' pre' where "http_conf True ma b par 0 pre (concat (map http_line hs) @ c' # suf) =
      http_conf True ma b par' 0 (pre @ pre') (c' # suf)"
    and "length pre' = length (concat (map http_line hs))"
    and "http_par_upd par par'" "hs \<noteq> [] \<Longrightarrow> hp_headers par' \<noteq> None" "ds_fields (http_header_dataset par') (http_fields hs f)"
proof -
  have "\<exists>par' pre'. http_conf True ma b par 0 pre (concat (map http_line hs) @ c' # suf) =
      http_conf True ma b par' 0 (pre @ pre') (c' # suf) \<and> length pre' = length (concat (map http_line hs))
    \<and> http_par_upd par par' \<and> (hs \<noteq> [] \<or> hp_headers par \<noteq> None \<longrightarrow> hp_headers par' \<noteq> None) \<and> ds_fields (http_header_dataset par') (http_fields hs f)"
    using assms(1-6)
  proof (induction hs arbitrary: par pre f)
    case Nil
    show ?case by (rule exI [of _ par], rule exI [of _ "[]"]) (use Nil http_par_upd_refl in simp)
  next
    case (Cons h hs)
    obtain n v where nv: "h = (n, v)" by (cases h)
    obtain d suf' where d: "concat (map http_line hs) @ c' # suf = d # suf'" by (cases "concat (map http_line hs)") auto
    let ?pre = "n @ [0, 32] @ v @ [0, 10]"
    have len: "length ?pre = length (http_line h)" by (simp add: http_line_def nv)
    obtain p1 ds where p1: "http_conf True ma b par 0 pre (http_line h @ d # suf') =
        http_conf True ma b p1 0 (pre @ ?pre) (d # suf')"
      "http_par_upd par p1" "hp_headers p1 = Some ds" "ds_fields ds (http_fields [h] f)"
      using http_read_line [of par n v pre b d suf' f ma] Cons.prems ma d nv by auto
    from p1(2) have p1': "hp_state p1 = hp_state par" "hp_max_header_size p1 = hp_max_header_size par"
      by (auto simp: http_par_upd_def)
    have hd: "http_header_dataset p1 = ds" using p1(3) by (simp add: http_header_dataset_def)
    have "\<exists>par' pre'. http_conf True ma b p1 0 (pre @ ?pre) (concat (map http_line hs) @ c' # suf) =
        http_conf True ma b par' 0 ((pre @ ?pre) @ pre') (c' # suf) \<and> length pre' = length (concat (map http_line hs))
      \<and> http_par_upd p1 par' \<and> (hs \<noteq> [] \<or> hp_headers p1 \<noteq> None \<longrightarrow> hp_headers par' \<noteq> None)
      \<and> ds_fields (http_header_dataset par') (http_fields hs (http_fields [h] f))"
      by (rule Cons.IH) (use Cons.prems p1 p1' len hd
          hbuf_ok_append [of b pre "http_line h" "concat (map http_line hs) @ c' # suf" ?pre] in \<open>simp_all del: fun_upd_apply\<close>)
    then obtain par' pre' where "http_conf True ma b p1 0 (pre @ ?pre) (concat (map http_line hs) @ c' # suf) =
        http_conf True ma b par' 0 ((pre @ ?pre) @ pre') (c' # suf)" "length pre' = length (concat (map http_line hs))"
      "http_par_upd p1 par'" "hp_headers par' \<noteq> None" "ds_fields (http_header_dataset par') (http_fields hs (http_fields [h] f))"
      using p1(3) by blast
    then show ?case using p1 d len http_par_upd_trans [OF p1(2)]
      by (intro exI [of _ par'] exI [of _ "?pre @ pre'"]) auto
  qed
  then show thesis using that by blast
qed

subsection \<open>The end of the headers\<close>

lemma ds_contains_text: "vtm_dataset_contains ds n \<longleftrightarrow> ds_text ds n \<noteq> None"
  by (simp add: vtm_dataset_contains_def ds_text_def ds_store_get_def)

lemma http_read_end:
  assumes st: "hp_state par = VTM_HTTP_PARSE_HEADER_LINE_BEGIN" and ok: "hbuf_ok b pre (13 # 10 # suf)"
    and lim: "length pre + 2 \<le> unat (hp_max_header_size par)" "length pre + 2 \<le> unat (hp_max_body_size par)"
  shows "http_conf mem ma b par 0 pre (13 # 10 # suf) = http_char mem ma b
    (par\<lparr>hp_header_name_begin := of_nat (length pre), hp_header_value_begin := 0, hp_state := VTM_HTTP_PARSE_BODY\<rparr>)
    0 10 (pre @ [13]) suf"
proof -
  let ?p = "\<lambda>st. par\<lparr>hp_header_name_begin := of_nat (length pre), hp_header_value_begin := 0, hp_state := st\<rparr>"
  have l: "http_limit par i" "http_limit (?p VTM_HTTP_PARSE_HEADER_NAME) i" "http_limit (?p VTM_HTTP_PARSE_HEADERS_END_LF) i"
    if "i \<le> length pre + 2" for i
    using that lim st by (simp_all add: http_limit_def http_in_body_def)
  have "http_conf mem ma b par 0 pre (13 # 10 # suf) = http_conf mem ma b (?p VTM_HTTP_PARSE_HEADER_NAME) 0 pre (13 # 10 # suf)"
    using ok l st by (intro http_again) (simp_all add: http_header_simps)
  also have "\<dots> = http_conf mem ma b (?p VTM_HTTP_PARSE_HEADERS_END_LF) 0 (pre @ [13]) (10 # suf)"
    using ok l by (intro http_go) (simp_all add: http_header_simps)
  also have "\<dots> = http_char mem ma b (?p VTM_HTTP_PARSE_HEADERS_END_LF) 0 10 (pre @ [13]) suf"
    using hbuf_ok_shift [OF ok] l by (intro http_conf_char) simp_all
  also have "\<dots> = http_char mem ma b (?p VTM_HTTP_PARSE_BODY) 0 10 (pre @ [13]) suf"
    by (intro http_char_again) (simp_all add: http_eval_def)
  finally show ?thesis .
qed

end
