(* ===== verification/HttpMessage.thy ===== *)
theory HttpMessage
  imports HttpLines
begin

text \<open>Whole requests: what the HTTP parser makes of a request that has arrived in one piece.\<close>

definition http_head :: "cstr \<Rightarrow> cstr \<Rightarrow> vtm_http_version \<Rightarrow> (cstr \<times> cstr) list \<Rightarrow> byte list" where
  "http_head m path ver hs =
     m @ 32 # path @ 32 # [72, 84, 84, 80, 47, 49, 46, http_minor ver, 13, 10]
     @ concat (map http_line hs) @ [13, 10]"

lemma http_method_name_ok: "vtm_http_get_method m = Some meth \<Longrightarrow> no_nul m \<and> 32 \<notin> set m"
  by (auto simp: http_methods_simps no_nul_def split: if_splits)

text \<open>The fields of a parser that has read the headers and looks at the last line feed again.\<close>

lemma http_read_head:
  assumes fresh: "par = vtm_http_parser_init par0 VTM_HTTP_PM_REQUEST"
    and m: "vtm_http_get_method m = Some meth" and path: "no_nul path" "32 \<notin> set path" "63 \<notin> set path"
    and hs: "list_all http_line_ok hs" and ok: "hbuf_ok b [] (http_head m path ver hs @ rest)"
    and len: "length (http_head m path ver hs) \<le> 8192" and ma: "\<And>n. ma n"
  obtains par' pre where "http_conf True ma b par 0 [] (http_head m path ver hs @ rest) = http_char True ma b par' 0 10 (pre @ [13]) rest"
    and "hp_state par' = VTM_HTTP_PARSE_BODY" "hp_mode par' = VTM_HTTP_PM_REQUEST" "hp_req_method par' = meth" "hp_version par' = ver"
    "hp_body_len par' = 0" "hp_body par' = None" "hp_max_body_size par' = VTM_HTTP_DEF_MAX_BODY_SIZE"
    "hp_req_path par' = Some (of_nat (length m + 1))"
    "hs \<noteq> [] \<longrightarrow> hp_headers par' \<noteq> None" "ds_fields (http_header_dataset par') (http_fields hs Map.empty)"
    and "length pre + 2 = length (http_head m path ver hs)" "\<exists>pre'. pre = m @ 0 # path @ 0 # pre'"
proof -
  let ?v = "[72, 84, 84, 80, 47, 49, 46, http_minor ver, 13, 10] :: byte list" and ?ls = "concat (map http_line hs)"
  let ?p1 = "par\<lparr>hp_req_method := meth, hp_state := VTM_HTTP_PARSE_REQ_PATH\<rparr>"
  let ?p2 = "par\<lparr>hp_req_method := meth, hp_req_path := Some (of_nat (length (m @ [0]))), hp_state := VTM_HTTP_PARSE_VERSION_H\<rparr>"
  let ?p3 = "par\<lparr>hp_req_method := meth, hp_req_path := Some (of_nat (length (m @ [0]))), hp_version_major := 1,
      hp_version_minor := ucast (http_minor ver - 48), hp_version := ver, hp_state := VTM_HTTP_PARSE_HEADER_LINE_BEGIN\<rparr>"
  have par: "hp_state par = VTM_HTTP_PARSE_BEGIN" "hp_mode par = VTM_HTTP_PM_REQUEST" "hp_version_major par = 0"
    "hp_version_minor par = 0" "hp_headers par = None" "hp_body_len par = 0" "hp_body par = None"
    "hp_max_body_size par = VTM_HTTP_DEF_MAX_BODY_SIZE" "unat (hp_max_header_size par) = 8192"
    by (simp_all add: fresh vtm_http_parser_init_def vtm_http_parser_reset_def VTM_HTTP_DEF_MAX_HEADER_SIZE_def)
  have lim: "length m + length path + 12 + length ?ls + 2 \<le> 8192" using len by (simp add: http_head_def)
  obtain c suf where c: "path @ 32 # ?v @ ?ls @ 13 # 10 # rest = c # suf" by (cases path) auto
  obtain d suf' where d: "?ls @ 13 # 10 # rest = d # suf'" by (cases ?ls) auto
  have bytes: "http_head m path ver hs @ rest = m @ 32 # path @ 32 # ?v @ ?ls @ 13 # 10 # rest" by (simp add: http_head_def)
  have ok1: "hbuf_ok b (m @ [0]) (path @ 32 # ?v @ d # suf')"
    using hbuf_ok_append [of b "[]" "m @ [32]" _ "m @ [0]"] ok bytes d by simp
  have ok2: "hbuf_ok b (m @ 0 # path @ [0]) (?v @ d # suf')"
    using hbuf_ok_append [of b "m @ [0]" "path @ [32]" _ "path @ [0]"] ok1 by simp
  let ?pre = "m @ 0 # path @ 0 # ?v"
  have ok3: "hbuf_ok b ?pre (?ls @ 13 # 10 # rest)"
    using hbuf_ok_append [of b "m @ 0 # path @ [0]" ?v "d # suf'" ?v] ok2 d by simp
  have r1: "http_conf True ma b par 0 [] (m @ 32 # path @ 32 # ?v @ ?ls @ 13 # 10 # rest) =
      http_conf True ma b ?p1 0 (m @ [0]) (path @ 32 # ?v @ ?ls @ 13 # 10 # rest)"
    using http_read_method [OF par(1, 2) m, of b c suf True ma] http_method_name_ok [OF m] ok bytes c lim par(9) by simp
  also have "\<dots> = http_conf True ma b ?p2 0 ((m @ [0]) @ path @ [0]) (?v @ d # suf')"
    unfolding d using http_read_path [of ?p1 path b "m @ [0]" 72 "tl ?v @ d # suf'" True ma] path ok1 lim par(9) by simp
  also have "\<dots> = http_conf True ma b ?p3 0 ?pre (?ls @ 13 # 10 # rest)"
    unfolding d using http_read_version [of ?p2 b "m @ 0 # path @ [0]" ver d suf' True ma] ok2 par lim by simp
  finally have start: "http_conf True ma b par 0 [] (http_head m path ver hs @ rest) =
      http_conf True ma b ?p3 0 ?pre (?ls @ 13 # 10 # rest)" by (simp add: bytes)
  have f: "ds_fields (http_header_dataset ?p3) Map.empty"
    using ds_strings_init par(5) by (simp add: ds_fields_def http_header_dataset_def)
  obtain p4 pre' where p4: "http_conf True ma b ?p3 0 ?pre (?ls @ 13 # 10 # rest) = http_conf True ma b p4 0 (?pre @ pre') (13 # 10 # rest)"
    "length pre' = length ?ls" "http_par_upd ?p3 p4" "hs \<noteq> [] \<Longrightarrow> hp_headers p4 \<noteq> None" "ds_fields (http_header_dataset p4) (http_fields hs Map.empty)"
    using http_read_lines [of ?p3 hs ?pre b 13 "10 # rest" Map.empty ma] hs ok3 lim par(9) f ma by (auto simp: ac_simps)
  have p4f: "hp_state p4 = VTM_HTTP_PARSE_HEADER_LINE_BEGIN" "hp_mode p4 = VTM_HTTP_PM_REQUEST" "hp_req_method p4 = meth"
    "hp_version p4 = ver" "hp_body_len p4 = 0" "hp_body p4 = None" "hp_max_body_size p4 = VTM_HTTP_DEF_MAX_BODY_SIZE"
    "hp_req_path p4 = Some (of_nat (length m + 1))" "unat (hp_max_header_size p4) = 8192"
    using p4(3) par by (auto simp: http_par_upd_def)
  let ?p5 = "p4\<lparr>hp_header_name_begin := of_nat (length (?pre @ pre')), hp_header_value_begin := 0, hp_state := VTM_HTTP_PARSE_BODY\<rparr>"
  have "http_conf True ma b p4 0 (?pre @ pre') (13 # 10 # rest) = http_char True ma b ?p5 0 10 ((?pre @ pre') @ [13]) rest"
    using hbuf_ok_append [OF ok3 p4(2)] p4f lim p4(2) by (intro http_read_end) (simp_all add: VTM_HTTP_DEF_MAX_BODY_SIZE_def)
  then show thesis using start p4 p4f
    by (intro that [of ?p5 "?pre @ pre'"]) (simp_all add: http_header_dataset_def http_head_def)
qed


subsection \<open>The end of a request\<close>

text \<open>A stop in the state \<open>VTM_HTTP_PARSE_COMPLETE\<close>.\<close>

lemma http_char_complete:
  assumes "hp_state par = VTM_HTTP_PARSE_COMPLETE"
  obtains l where "http_char mem ma b par k c pre suf = Some (VTM_NET_RECV_STAT_COMPLETE, l, hbuf b (pre @ [c]) suf)"
    "hl_par l = (VTM_HTTP_PARSER_MARK_BODY par)\<lparr>hp_state_chars := of_nat (Suc k)\<rparr>"
  using assms that by (simp add: http_char_eval http_eval_def VTM_HTTP_PARSER_MARK_BODY_def)

lemma ds_fields_get_string:
  assumes "ds_fields ds f" and "no_nul n"
  obtains ds' where "vtm_dataset_get_string ma ds n = Inr (f (ds_norm True n), ds')" "ds_fields ds' f"
  using ds_get_string [of True ds n ma] assms by (auto simp: ds_fields_def) metis

lemma http_fields_some: "f n \<noteq> None \<Longrightarrow> http_fields hs f n \<noteq> None"
  by (induction hs f rule: http_fields.induct) auto

text \<open>Without a length, a request ends with its headers.\<close>

lemma http_body_none:
  assumes st: "hp_state par = VTM_HTTP_PARSE_BODY" "hp_mode par = VTM_HTTP_PM_REQUEST" and f: "ds_fields (http_header_dataset par) f"
    and no: "f (ds_norm True VTM_HTTP_HEADER_TRANSFER_ENCODING) = None" "f (ds_norm True VTM_HTTP_HEADER_CONTENT_LENGTH) = None"
  obtains hds where "http_char mem ma b par 0 c pre suf = http_char mem ma b (par\<lparr>hp_body_begin := of_nat (Suc (length pre)),
      hp_headers := hds, hp_state := VTM_HTTP_PARSE_COMPLETE\<rparr>) 0 c pre suf"
    "hds = None \<longleftrightarrow> hp_headers par = None" "\<forall>ds. hds = Some ds \<longrightarrow> ds_fields ds f"
proof (cases "hp_headers par")
  case None
  have "par\<lparr>hp_headers := None\<rparr> = par" unfolding None [symmetric] by simp
  then have "http_char mem ma b par 0 c pre suf = http_char mem ma b (par\<lparr>hp_body_begin := of_nat (Suc (length pre)),
      hp_headers := None, hp_state := VTM_HTTP_PARSE_COMPLETE\<rparr>) 0 c pre suf"
    using st None by (intro http_char_again) (simp_all add: http_eval_def http_body_def http_no_length_def vtm_http_parser.equality)
  then show thesis using that [of None] None by simp
next
  case (Some hs)
  then have hs: "ds_fields hs f" using f by (simp add: http_header_dataset_def)
  obtain ds where ds: "vtm_dataset_get_string ma hs VTM_HTTP_HEADER_TRANSFER_ENCODING = Inr (None, ds)" "ds_fields ds f"
    using ds_fields_get_string [OF hs http_names_ok(1), of ma] no(1) by auto
  have "\<not> vtm_dataset_contains ds VTM_HTTP_HEADER_CONTENT_LENGTH"
    using ds(2) no(2) http_names_ok(2) by (simp add: ds_contains_text ds_fields_def)
  then have "http_char mem ma b par 0 c pre suf = http_char mem ma b (par\<lparr>hp_body_begin := of_nat (Suc (length pre)),
      hp_headers := Some ds, hp_state := VTM_HTTP_PARSE_COMPLETE\<rparr>) 0 c pre suf"
    using st Some ds(1) by (intro http_char_again) (simp_all add: http_eval_def http_body_def http_no_length_def)
  then show thesis using that [of "Some ds"] Some ds(2) by simp
qed

lemma hbuf_unread: "hbuf_ok b pre suf \<Longrightarrow> buf_unread (hbuf b pre suf) = suf"
  using hbuf_len [of b pre suf] by (simp add: buf_unread_def)

lemma http_run_resume:
  assumes "vtm_buf_inv b" and "buf_read b = of_nat (length pre)" and "buf_data b = pre @ x # xs"
  shows "vtm_http_parser_run mem ma par b =
    map_option (\<lambda>(stat, l, b). (stat, hl_par l, b)) (http_conf mem ma b par (unat (hp_state_chars par)) pre (x # xs))"
proof -
  have len: "length pre + Suc (length xs) = unat (buf_used b)" using assms(3) vtm_buf_invD(1) [OF assms(1)] by simp
  then have pre: "unat (of_nat (length pre) :: size_t) = length pre" using unat_less_2p [of "buf_used b"] by simp
  have "buf_read b \<le> buf_used b" using assms(1) by (simp add: vtm_buf_inv_def)
  then have "unat (VTM_BUF_GET_AVAIL_TOTAL b) = Suc (length xs)"
    using len pre assms(2) by (simp add: VTM_BUF_GET_AVAIL_TOTAL_def unat_sub word_le_nat_alt)
  moreover from this have "VTM_BUF_GET_AVAIL_TOTAL b \<noteq> 0" by auto
  moreover have "hbuf b pre (x # xs) = b" using assms(2) by (simp add: hbuf_def flip: assms(2, 3))
  ultimately show ?thesis by (simp add: vtm_http_parser_run_def http_conf_def)
qed

lemma http_run_conf:
  assumes "vtm_buf_inv b" and "buf_read b = 0" and "buf_data b = x # xs"
  shows "vtm_http_parser_run mem ma (vtm_http_parser_init par0 mode) b =
    map_option (\<lambda>(stat, l, b). (stat, hl_par l, b)) (http_conf mem ma b (vtm_http_parser_init par0 mode) 0 [] (x # xs))"
  using http_run_resume [of b "[]" x xs mem ma "vtm_http_parser_init par0 mode"] assms
  by (simp add: vtm_http_parser_init_def vtm_http_parser_reset_def)

lemma http_parse_request_buf:
  assumes "vtm_buf_inv b" and "buf_read b = 0" and "buf_data b = http_head m path ver hs @ rest"
    and m: "vtm_http_get_method m = Some meth" and path: "no_nul path" "32 \<notin> set path" "63 \<notin> set path"
    and hs: "list_all http_line_ok hs" and len: "length (http_head m path ver hs) \<le> 8192" and ma: "\<forall>n. ma n"
    and no: "http_fields hs Map.empty (ds_norm True VTM_HTTP_HEADER_TRANSFER_ENCODING) = None"
      "http_fields hs Map.empty (ds_norm True VTM_HTTP_HEADER_CONTENT_LENGTH) = None"
  shows "\<exists>par b' off. vtm_http_parser_run True ma (vtm_http_parser_init par0 VTM_HTTP_PM_REQUEST) b =
        Some (VTM_NET_RECV_STAT_COMPLETE, par, b')
    \<and> hp_req_method par = meth \<and> hp_version par = ver \<and> hp_req_path par = Some off \<and> buf_cstr off b' = Some path
    \<and> hp_body par = None \<and> ds_fields (http_header_dataset par) (http_fields hs Map.empty) \<and> buf_unread b' = rest
    \<and> hp_state par = VTM_HTTP_PARSE_COMPLETE \<and> (\<exists>pre. b' = hbuf b pre rest \<and> hbuf_ok b pre rest)"
proof -
  let ?h = "http_head m path ver hs" and ?par = "vtm_http_parser_init par0 VTM_HTTP_PM_REQUEST"
  have ok: "hbuf_ok b [] (?h @ rest)" using assms(1, 3) by (simp add: hbuf_ok_def)
  obtain p pre where p: "http_conf True ma b ?par 0 [] (?h @ rest) = http_char True ma b p 0 10 (pre @ [13]) rest"
    "hp_state p = VTM_HTTP_PARSE_BODY" "hp_mode p = VTM_HTTP_PM_REQUEST" "hp_req_method p = meth" "hp_version p = ver"
    "hp_body_len p = 0" "hp_body p = None" "hp_max_body_size p = VTM_HTTP_DEF_MAX_BODY_SIZE"
    "hp_req_path p = Some (of_nat (length m + 1))" "hs \<noteq> [] \<longrightarrow> hp_headers p \<noteq> None"
    "ds_fields (http_header_dataset p) (http_fields hs Map.empty)" "length pre + 2 = length ?h" "\<exists>pre'. pre = m @ 0 # path @ 0 # pre'"
    by (rule http_read_head [where ma = ma and ?par0.0 = par0, OF refl m path hs ok len ma [rule_format]])
  obtain hds where h: "http_char True ma b p 0 10 (pre @ [13]) rest = http_char True ma b (p\<lparr>hp_body_begin := of_nat (Suc (length (pre @ [13]))),
      hp_headers := hds, hp_state := VTM_HTTP_PARSE_COMPLETE\<rparr>) 0 10 (pre @ [13]) rest"
    "hds = None \<longleftrightarrow> hp_headers p = None" "\<forall>ds. hds = Some ds \<longrightarrow> ds_fields ds (http_fields hs Map.empty)"
    by (rule http_body_none [OF p(2, 3, 11) no, of True ma b 10 "pre @ [13]" rest])
  let ?p = "p\<lparr>hp_body_begin := of_nat (Suc (length (pre @ [13]))), hp_headers := hds, hp_state := VTM_HTTP_PARSE_COMPLETE\<rparr>"
  let ?pre = "(pre @ [13]) @ [10]"
  obtain l where l: "http_char True ma b ?p 0 10 (pre @ [13]) rest = Some (VTM_NET_RECV_STAT_COMPLETE, l, hbuf b ?pre rest)"
    "hl_par l = (VTM_HTTP_PARSER_MARK_BODY ?p)\<lparr>hp_state_chars := of_nat (Suc 0)\<rparr>"
    by (rule http_char_complete [of ?p True ma b 0 10 "pre @ [13]" rest]) simp_all
  have ok': "hbuf_ok b ?pre rest" using ok p(12) by (simp add: hbuf_ok_def)
  obtain pre' where pre': "pre = m @ 0 # path @ 0 # pre'" using p(13) by blast
  have str: "buf_cstr (of_nat (length m + 1)) (hbuf b ?pre rest) = Some path"
    using hbuf_cstr [of b "m @ [0]" path "pre' @ [13, 10]" rest] ok' path(1) by (simp add: pre')
  have flds: "ds_fields (http_header_dataset (hl_par l)) (http_fields hs Map.empty)"
    using h(2, 3) p(11) p(6) by (cases hds) (auto simp: l(2) VTM_HTTP_PARSER_MARK_BODY_def http_header_dataset_def)
  obtain x xs where "?h @ rest = x # xs" by (cases "?h @ rest") (auto simp: http_head_def)
  moreover have "http_conf True ma b ?par 0 [] (?h @ rest) = Some (VTM_NET_RECV_STAT_COMPLETE, l, hbuf b ?pre rest)"
    by (simp only: p(1) h(1) l(1))
  ultimately have "vtm_http_parser_run True ma ?par b = Some (VTM_NET_RECV_STAT_COMPLETE, hl_par l, hbuf b ?pre rest)"
    using http_run_conf [OF assms(1, 2), of x xs True ma par0 VTM_HTTP_PM_REQUEST] assms(3) by simp
  moreover have "hp_req_method (hl_par l) = meth" "hp_version (hl_par l) = ver"
      "hp_req_path (hl_par l) = Some (of_nat (length m + 1))" "hp_body (hl_par l) = None" "hp_state (hl_par l) = VTM_HTTP_PARSE_COMPLETE"
    using p(4, 5, 6, 7, 9) by (simp_all add: l(2) VTM_HTTP_PARSER_MARK_BODY_def)
  ultimately show ?thesis using str flds hbuf_unread [OF ok'] ok' by blast
qed

lemma http_parse_request:
  assumes "vtm_buf_inv b" and "buf_read b = 0" and "buf_data b = http_head m path ver hs @ rest"
    and m: "vtm_http_get_method m = Some meth" and path: "no_nul path" "32 \<notin> set path" "63 \<notin> set path"
    and hs: "list_all http_line_ok hs" and len: "length (http_head m path ver hs) \<le> 8192" and ma: "\<forall>n. ma n"
    and no: "http_fields hs Map.empty (ds_norm True VTM_HTTP_HEADER_TRANSFER_ENCODING) = None"
      "http_fields hs Map.empty (ds_norm True VTM_HTTP_HEADER_CONTENT_LENGTH) = None"
  shows "\<exists>par b' off. vtm_http_parser_run True ma (vtm_http_parser_init par0 VTM_HTTP_PM_REQUEST) b =
        Some (VTM_NET_RECV_STAT_COMPLETE, par, b')
    \<and> hp_req_method par = meth \<and> hp_version par = ver \<and> hp_req_path par = Some off \<and> buf_cstr off b' = Some path
    \<and> hp_body par = None \<and> ds_fields (http_header_dataset par) (http_fields hs Map.empty) \<and> buf_unread b' = rest"
  using http_parse_request_buf [OF assms] by blast

text \<open>
  C9. A request without a body that is in the buffer as a whole is read as it was written: the parser
  reports it complete, with the method, the version, the path as a string in the buffer, and the
  header fields, names without regard to case and repeated ones joined; the bytes behind the request
  are left unread.
\<close>

theorem http_request_read:
  assumes "vtm_buf_inv b" and "buf_read b = 0" and "buf_data b = http_head m path ver hs @ rest"
    and m: "vtm_http_get_method m = Some meth" and path: "no_nul path" "32 \<notin> set path" "63 \<notin> set path"
    and hs: "list_all http_line_ok hs" and len: "length (http_head m path ver hs) \<le> 8192" and ma: "\<forall>n. ma n"
    and no: "http_fields hs Map.empty (ds_norm True VTM_HTTP_HEADER_TRANSFER_ENCODING) = None"
      "http_fields hs Map.empty (ds_norm True VTM_HTTP_HEADER_CONTENT_LENGTH) = None"
  shows "\<exists>par b' off. vtm_http_parser_run True ma (vtm_http_parser_init par0 VTM_HTTP_PM_REQUEST) b =
        Some (VTM_NET_RECV_STAT_COMPLETE, par, b')
    \<and> hp_req_method par = meth \<and> hp_version par = ver \<and> hp_req_path par = Some off \<and> buf_cstr off b' = Some path
    \<and> hp_body par = None \<and> ds_fields (http_header_dataset par) (http_fields hs Map.empty) \<and> buf_unread b' = rest"
  by (rule http_parse_request [OF assms])

definition buf_holding :: "byte list \<Rightarrow> vtm_buf" where
  "buf_holding d = (vtm_buf_init VTM_BYTEORDER_LE)\<lparr>buf_data := d, buf_used := of_nat (length d)\<rparr>"

lemma buf_holding_inv: "length d \<le> 1024 \<Longrightarrow> vtm_buf_inv (buf_holding d)"
  by (auto simp: buf_holding_def vtm_buf_inv_def vtm_buf_init_def VTM_BUF_SDATA_LEN_def word_le_nat_alt take_bit_nat_eq_self
      intro: exI [of _ 10])

lemma buf_holding_simps [simp]: "buf_data (buf_holding d) = d" "buf_read (buf_holding d) = 0"
  by (simp_all add: buf_holding_def vtm_buf_init_def)

theorem http_request_read_witness:
  "\<exists>par b' off. vtm_http_parser_run True alloc_all (vtm_http_parser_init undefined VTM_HTTP_PM_REQUEST)
        (buf_holding (bytes_of ''GET / HTTP/1.1'' @ [13, 10] @ bytes_of ''Host: a'' @ [13, 10, 13, 10])) =
        Some (VTM_NET_RECV_STAT_COMPLETE, par, b')
    \<and> hp_req_method par = VTM_HTTP_METHOD_GET \<and> hp_version par = VTM_HTTP_VER_1_1
    \<and> hp_req_path par = Some off \<and> buf_cstr off b' = Some (bytes_of ''/'')"
proof -
  let ?hs = "[(bytes_of ''Host'', bytes_of ''a'')]"
  let ?d = "http_head (bytes_of ''GET'') (bytes_of ''/'') VTM_HTTP_VER_1_1 ?hs"
  have d: "?d = bytes_of ''GET / HTTP/1.1'' @ [13, 10] @ bytes_of ''Host: a'' @ [13, 10, 13, 10]"
    by (simp add: http_head_def http_minor_def http_line_def bytes_of_def)
  have len: "length ?d = 27" unfolding d by (simp add: bytes_of_def)
  have m: "vtm_http_get_method (bytes_of ''GET'') = Some VTM_HTTP_METHOD_GET" by (simp add: http_methods_simps bytes_of_def)
  have hs: "list_all http_line_ok ?hs" by (simp add: http_line_ok_def bytes_of_def)
  have no: "http_fields ?hs Map.empty (ds_norm True VTM_HTTP_HEADER_TRANSFER_ENCODING) = None"
    "http_fields ?hs Map.empty (ds_norm True VTM_HTTP_HEADER_CONTENT_LENGTH) = None"
    by (simp_all add: ds_norm_def bytes_of_def http_names c_tolower_def)
  have all: "\<forall>n. alloc_all n" by (simp add: alloc_all_def)
  show ?thesis unfolding d [symmetric]
    using http_request_read [where b = "buf_holding ?d" and rest = "[]" and path = "bytes_of ''/''" and ver = VTM_HTTP_VER_1_1
        and ma = alloc_all and ?par0.0 = undefined, OF buf_holding_inv [of ?d] _ _ m _ _ _ hs _ all no]
    by (auto simp: len) (auto simp: bytes_of_def)
qed

subsection \<open>Bodies\<close>

text \<open>With a length, the line feed of the headers counts as the first byte of the body.\<close>

lemma http_fixed_body:
  assumes "hp_state par = VTM_HTTP_PARSE_BODY_FIXEDLENGTH" and "unat (hp_body_len par) = Suc (k + length body)"
    and "hbuf_ok b (pre @ [c]) (body @ suf)" and "length pre + length body \<le> unat (hp_max_body_size par)"
  obtains l where "http_char mem ma b par k c pre (body @ suf) = Some (VTM_NET_RECV_STAT_COMPLETE, l, hbuf b (pre @ c # body) suf)"
    "hl_par l = par\<lparr>hp_body := Some (hp_body_begin par), hp_state_chars := 1, hp_state := VTM_HTTP_PARSE_COMPLETE\<rparr>"
  using assms
proof (induction body arbitrary: k c pre thesis)
  case Nil
  then have len: "hp_body_len par = of_nat (Suc k)" "0 < hp_body_len par"
    by (simp_all add: word_less_nat_alt) (metis of_nat_Suc of_nat_unat ucast_id)
  let ?p = "par\<lparr>hp_state := VTM_HTTP_PARSE_COMPLETE\<rparr>"
  have "http_char mem ma b par k c pre suf = http_char mem ma b ?p 0 c pre suf"
    using Nil.prems(2) len by (intro http_char_again) (simp_all add: http_eval_def http_fixedlength_def)
  moreover obtain l where "http_char mem ma b ?p 0 c pre suf = Some (VTM_NET_RECV_STAT_COMPLETE, l, hbuf b (pre @ [c]) suf)"
    "hl_par l = (VTM_HTTP_PARSER_MARK_BODY ?p)\<lparr>hp_state_chars := of_nat (Suc 0)\<rparr>"
    by (rule http_char_complete [of ?p mem ma b 0 c pre suf]) simp_all
  ultimately show ?case using len(2) by (intro Nil.prems(1) [of l]) (simp_all add: VTM_HTTP_PARSER_MARK_BODY_def)
next
  case (Cons c' body)
  have k: "(of_nat (Suc k) :: size_t) < hp_body_len par"
    using Cons.prems(3) unat_less_2p [of "hp_body_len par"] by (simp add: word_less_nat_alt unat_of_nat_small del: of_nat_Suc)
  have "http_char mem ma b par k c pre (c' # body @ suf) = http_conf mem ma b par (Suc k) (pre @ [c]) (c' # body @ suf)"
    using Cons.prems(2) k by (intro http_char_stay) (simp_all add: http_eval_def http_fixedlength_def)
  also have "\<dots> = http_char mem ma b par (Suc k) c' (pre @ [c]) (body @ suf)"
    using Cons.prems by (intro http_conf_char) (simp_all add: http_limit_def http_in_body_def)
  finally have step: "http_char mem ma b par k c pre ((c' # body) @ suf) = \<dots>" by simp
  show ?case
    by (rule Cons.IH [of "Suc k" c' "pre @ [c]"])
      (use Cons.prems step hbuf_ok_shift [of b "pre @ [c]" c' "body @ suf" c'] in \<open>simp_all\<close>)
qed

lemma http_body_fixed:
  assumes st: "hp_state par = VTM_HTTP_PARSE_BODY" and f: "ds_fields (http_header_dataset par) f" "hp_headers par \<noteq> None"
    and te: "f (ds_norm True VTM_HTTP_HEADER_TRANSFER_ENCODING) = None"
    and cl: "f (ds_norm True VTM_HTTP_HEADER_CONTENT_LENGTH) = Some v" "vtm_conv_str_int64 v = len" "unat len = Suc (length body)"
    and ok: "hbuf_ok b (pre @ [c]) (body @ suf)" and lim: "Suc (length pre + length body) \<le> unat (hp_max_body_size par)"
  obtains l ds where "http_char mem ma b par 0 c pre (body @ suf) = Some (VTM_NET_RECV_STAT_COMPLETE, l, hbuf b (pre @ c # body) suf)"
    "hl_par l = par\<lparr>hp_body_begin := of_nat (Suc (length pre)), hp_body := Some (of_nat (Suc (length pre))), hp_body_len := len,
       hp_headers := Some ds, hp_state_chars := 1, hp_state := VTM_HTTP_PARSE_COMPLETE\<rparr>" "ds_fields ds f"
proof -
  obtain hs where hs: "hp_headers par = Some hs" "ds_fields hs f" using f by (auto simp: http_header_dataset_def)
  obtain ds where ds: "vtm_dataset_get_string ma hs VTM_HTTP_HEADER_TRANSFER_ENCODING = Inr (None, ds)" "ds_fields ds f"
    using ds_fields_get_string [OF hs(2) http_names_ok(1), of ma] te by auto
  have has: "vtm_dataset_contains ds VTM_HTTP_HEADER_CONTENT_LENGTH"
    using ds(2) cl(1) http_names_ok(2) by (simp add: ds_contains_text ds_fields_def)
  have get: "vtm_dataset_get_uint64 ds VTM_HTTP_HEADER_CONTENT_LENGTH = Inr len"
    using ds(2) cl(1, 2) http_names_ok(2) ds_text_uint64 [of True ds] by (simp add: ds_fields_def)
  let ?p = "par\<lparr>hp_body_begin := of_nat (Suc (length pre)), hp_headers := Some ds, hp_body_len := len,
      hp_state := VTM_HTTP_PARSE_BODY_FIXEDLENGTH\<rparr>"
  have "http_char mem ma b par 0 c pre (body @ suf) = http_char mem ma b ?p 0 c pre (body @ suf)"
    using st hs(1) ds(1) has get by (intro http_char_again) (simp_all add: http_eval_def http_body_def)
  moreover obtain l where "http_char mem ma b ?p 0 c pre (body @ suf) = Some (VTM_NET_RECV_STAT_COMPLETE, l, hbuf b (pre @ c # body) suf)"
    "hl_par l = ?p\<lparr>hp_body := Some (hp_body_begin ?p), hp_state_chars := 1, hp_state := VTM_HTTP_PARSE_COMPLETE\<rparr>"
    by (rule http_fixed_body [of ?p 0 body b pre c suf]) (use cl ok lim in simp_all)
  ultimately show thesis using ds(2) by (intro that [of l ds]) simp_all
qed

text \<open>
  C40. A request with a content length \<open>n > 0\<close> is reported complete one byte too early, after \<open>n - 1\<close> bytes
  of the body: the line feed that ends the headers is counted as a byte of the body. The length and
  the begin of the body are right, but its last byte has not been read and may not have arrived; when it
  has, it stays in the buffer as the begin of the next request.
\<close>

theorem http_body_short:
  assumes "vtm_buf_inv b" and "buf_read b = 0" and "buf_data b = http_head m path ver hs @ body @ rest"
    and m: "vtm_http_get_method m = Some meth" and path: "no_nul path" "32 \<notin> set path" "63 \<notin> set path"
    and hs: "list_all http_line_ok hs" and len: "length (http_head m path ver hs) \<le> 8192" and ma: "\<forall>n. ma n"
    and te: "http_fields hs Map.empty (ds_norm True VTM_HTTP_HEADER_TRANSFER_ENCODING) = None"
    and cl: "http_fields hs Map.empty (ds_norm True VTM_HTTP_HEADER_CONTENT_LENGTH) = Some v" "unat (vtm_conv_str_int64 v) = Suc (length body)"
    and max: "length body \<le> 8000000"
  shows "\<exists>par b'. vtm_http_parser_run True ma (vtm_http_parser_init par0 VTM_HTTP_PM_REQUEST) b =
        Some (VTM_NET_RECV_STAT_COMPLETE, par, b')
    \<and> hp_req_method par = meth \<and> unat (hp_body_len par) = Suc (length body)
    \<and> hp_body par = Some (of_nat (length (http_head m path ver hs)))
    \<and> take (length body) (drop (length (http_head m path ver hs)) (buf_data b')) = body \<and> buf_unread b' = rest"
proof -
  let ?h = "http_head m path ver hs" and ?par = "vtm_http_parser_init par0 VTM_HTTP_PM_REQUEST"
  have ok: "hbuf_ok b [] (?h @ body @ rest)" using assms(1, 3) by (simp add: hbuf_ok_def)
  obtain p pre where p: "http_conf True ma b ?par 0 [] (?h @ body @ rest) = http_char True ma b p 0 10 (pre @ [13]) (body @ rest)"
    "hp_state p = VTM_HTTP_PARSE_BODY" "hp_mode p = VTM_HTTP_PM_REQUEST" "hp_req_method p = meth" "hp_version p = ver"
    "hp_body_len p = 0" "hp_body p = None" "hp_max_body_size p = VTM_HTTP_DEF_MAX_BODY_SIZE"
    "hp_req_path p = Some (of_nat (length m + 1))" "hs \<noteq> [] \<longrightarrow> hp_headers p \<noteq> None"
    "ds_fields (http_header_dataset p) (http_fields hs Map.empty)" "length pre + 2 = length ?h" "\<exists>pre'. pre = m @ 0 # path @ 0 # pre'"
    by (rule http_read_head [where ma = ma and ?par0.0 = par0, OF refl m path hs ok len ma [rule_format]])
  have some: "hp_headers p \<noteq> None" using p(10) cl(1) by (cases hs) auto
  have ok': "hbuf_ok b ((pre @ [13]) @ [10]) (body @ rest)" using ok p(12) by (simp add: hbuf_ok_def)
  obtain l ds where l: "http_char True ma b p 0 10 (pre @ [13]) (body @ rest) =
      Some (VTM_NET_RECV_STAT_COMPLETE, l, hbuf b ((pre @ [13]) @ 10 # body) rest)"
    "hl_par l = p\<lparr>hp_body_begin := of_nat (Suc (length (pre @ [13]))), hp_body := Some (of_nat (Suc (length (pre @ [13])))),
       hp_body_len := vtm_conv_str_int64 v, hp_headers := Some ds, hp_state_chars := 1, hp_state := VTM_HTTP_PARSE_COMPLETE\<rparr>"
    "ds_fields ds (http_fields hs Map.empty)"
    by (rule http_body_fixed [OF p(2) p(11) some te cl(1) refl cl(2) ok', of True ma])
      (use p(8, 12) len max in \<open>simp_all add: VTM_HTTP_DEF_MAX_BODY_SIZE_def\<close>)
  obtain x xs where x: "?h @ body @ rest = x # xs" by (cases "?h @ body @ rest") (auto simp: http_head_def)
  have "http_conf True ma b ?par 0 [] (?h @ body @ rest) = Some (VTM_NET_RECV_STAT_COMPLETE, l, hbuf b ((pre @ [13]) @ 10 # body) rest)"
    by (simp only: p(1) l(1))
  then have "vtm_http_parser_run True ma ?par b = Some (VTM_NET_RECV_STAT_COMPLETE, hl_par l, hbuf b ((pre @ [13]) @ 10 # body) rest)"
    using http_run_conf [OF assms(1, 2), of x xs True ma par0 VTM_HTTP_PM_REQUEST] assms(3) x by simp
  moreover have "buf_unread (hbuf b ((pre @ [13]) @ 10 # body) rest) = rest" using ok' by (intro hbuf_unread) (simp add: hbuf_ok_def)
  moreover have "take (length body) (drop (length ?h) (buf_data (hbuf b ((pre @ [13]) @ 10 # body) rest))) = body"
    unfolding p(12) [symmetric] by (simp add: hbuf_def)
  moreover have "of_nat (Suc (length (pre @ [13]))) = (of_nat (length ?h) :: size_t)" unfolding p(12) [symmetric] by simp
  ultimately show ?thesis using p(4) cl(2) by (simp add: l(2) del: of_nat_Suc)
qed

theorem http_body_short_witness:
  "\<exists>par b'. vtm_http_parser_run True alloc_all (vtm_http_parser_init undefined VTM_HTTP_PM_REQUEST)
        (buf_holding (bytes_of ''PUT / HTTP/1.1'' @ [13, 10] @ bytes_of ''Content-Length: 3'' @ [13, 10, 13, 10] @ bytes_of ''xyz'')) =
        Some (VTM_NET_RECV_STAT_COMPLETE, par, b')
    \<and> hp_body_len par = 3 \<and> buf_unread b' = bytes_of ''z''"
proof -
  let ?hs = "[(bytes_of ''Content-Length'', bytes_of ''3'')]"
  let ?h = "http_head (bytes_of ''PUT'') (bytes_of ''/'') VTM_HTTP_VER_1_1 ?hs" and ?xy = "bytes_of ''xy''" and ?z = "bytes_of ''z''"
  have d: "?h @ ?xy @ ?z = bytes_of ''PUT / HTTP/1.1'' @ [13, 10] @ bytes_of ''Content-Length: 3'' @ [13, 10, 13, 10] @ bytes_of ''xyz''"
    by (simp add: http_head_def http_minor_def http_line_def bytes_of_def)
  have h: "length ?h \<le> 8192" by (simp add: http_head_def http_line_def bytes_of_def)
  have inv: "vtm_buf_inv (buf_holding (?h @ ?xy @ ?z))" unfolding d by (rule buf_holding_inv) (simp add: bytes_of_def)
  have m: "vtm_http_get_method (bytes_of ''PUT'') = Some VTM_HTTP_METHOD_PUT" by (simp add: http_methods_simps bytes_of_def)
  have hs: "list_all http_line_ok ?hs" by (simp add: http_line_ok_def bytes_of_def)
  have f: "http_fields ?hs Map.empty (ds_norm True VTM_HTTP_HEADER_TRANSFER_ENCODING) = None"
    "http_fields ?hs Map.empty (ds_norm True VTM_HTTP_HEADER_CONTENT_LENGTH) = Some (bytes_of ''3'')"
    by (simp_all add: ds_norm_def bytes_of_def http_names c_tolower_def)
  have v: "unat (vtm_conv_str_int64 (bytes_of ''3'')) = Suc (length ?xy)"
    by (simp add: vtm_conv_str_int64_def c_strtoll_def c_isspace_def c_hd_def c_digits_def c_isdigit_def Let_def bytes_of_def)
  have slash: "no_nul (bytes_of ''/'')" "32 \<notin> set (bytes_of ''/'')" "63 \<notin> set (bytes_of ''/'')" and len: "length ?xy \<le> 8000000"
    by (simp_all add: bytes_of_def no_nul_def)
  have all: "\<forall>n. alloc_all n" by (simp add: alloc_all_def)
  obtain par b' where r: "vtm_http_parser_run True alloc_all (vtm_http_parser_init undefined VTM_HTTP_PM_REQUEST) (buf_holding (?h @ ?xy @ ?z)) =
      Some (VTM_NET_RECV_STAT_COMPLETE, par, b')" "unat (hp_body_len par) = Suc (length ?xy)" "buf_unread b' = ?z"
    using http_body_short [where ?par0.0 = undefined and path = "bytes_of ''/''", OF inv buf_holding_simps(2, 1) m slash hs h all f v len] by blast
  from r(2) have "hp_body_len par = 3" by (simp add: word_unat_eq_iff bytes_of_def)
  then show ?thesis using r unfolding d by blast
qed


subsection \<open>Requests in pieces\<close>

text \<open>When the received bytes end, the parser waits in the state it has reached.\<close>

lemma http_char_end:
  assumes "http_eval mem ma c (par\<lparr>hp_state_chars := of_nat (Suc k)\<rparr>) (hbuf b (pre @ [c]) []) = HNext par' b'"
  shows "http_char mem ma b par k c pre [] =
    Some (VTM_NET_RECV_STAT_AGAIN, \<lparr>hl_par = par', hl_oldstate = hp_state par, hl_left = 0, hl_c = None\<rparr>, b')"
  using assms by (simp add: http_char_eval) (subst http_loop.simps, simp add: http_step_def http_next_def)

lemma http_end_path:
  assumes st: "hp_state par = VTM_HTTP_PARSE_REQ_PATH" and path: "32 \<notin> set path" "63 \<notin> set path"
    and ok: "hbuf_ok b pre (path @ [32])" and lim: "length pre + length path + 1 \<le> unat (hp_max_header_size par)"
  obtains l where "http_conf mem ma b par k pre (path @ [32]) = Some (VTM_NET_RECV_STAT_AGAIN, l, hbuf b (pre @ path @ [0]) [])"
    "hl_par l = par\<lparr>hp_state := VTM_HTTP_PARSE_VERSION_H, hp_state_chars := of_nat (k + length path + 1),
       hp_req_path := Some (of_nat (length pre) - of_nat k)\<rparr>"
proof -
  have l: "http_limit par n" if "n \<le> length pre + length path + 1" for n
    using that lim st by (simp add: http_limit_def http_in_body_def)
  have skip: "http_eval mem ma c (par\<lparr>hp_state_chars := of_nat (Suc k)\<rparr>) (hbuf b pre suf) =
      HNext (par\<lparr>hp_state_chars := of_nat (Suc k)\<rparr>) (hbuf b pre suf)" if "c \<in> set path" for c k b pre suf
    using that st path by (auto simp: http_eval_simps)
  have ok': "hbuf_ok b (pre @ path) [32]" using hbuf_ok_append [OF ok, of path] by simp
  have "http_conf mem ma b par k pre (path @ [32]) = http_conf mem ma b par (k + length path) (pre @ path) [32]"
    using http_skip [OF skip, of path b pre "[32]" k] ok l by simp
  also have "\<dots> = http_char mem ma b par (k + length path) 32 (pre @ path) []"
    using ok' l by (intro http_conf_char) simp_all
  finally have run: "http_conf mem ma b par k pre (path @ [32]) = \<dots>" .
  let ?p = "par\<lparr>hp_state := VTM_HTTP_PARSE_VERSION_H, hp_state_chars := of_nat (Suc (k + length path)),
       hp_req_path := Some (of_nat (length pre) - of_nat k)\<rparr>"
  have "http_eval mem ma 32 (par\<lparr>hp_state_chars := of_nat (Suc (k + length path))\<rparr>) (hbuf b ((pre @ path) @ [32]) []) =
      HNext ?p (hbuf b ((pre @ path) @ [0]) [])"
    using hbuf_poke [OF ok'] st by (simp add: http_eval_simps)
  from http_char_end [OF this] run show thesis
    by (intro that [of "\<lparr>hl_par = ?p, hl_oldstate = hp_state par, hl_left = 0, hl_c = None\<rparr>"]) simp_all
qed

text \<open>The parser after a buffer that ends behind the method.\<close>

lemma http_run_method:
  assumes b: "vtm_buf_inv b" "buf_read b = 0" "buf_data b = m @ [32]" and m: "vtm_http_get_method m = Some meth"
  shows "vtm_http_parser_run mem ma (vtm_http_parser_init par0 VTM_HTTP_PM_REQUEST) b = Some (VTM_NET_RECV_STAT_AGAIN,
    (vtm_http_parser_init par0 VTM_HTTP_PM_REQUEST)\<lparr>hp_state := VTM_HTTP_PARSE_REQ_PATH, hp_req_method := meth,
      hp_state_chars := of_nat (Suc (length m))\<rparr>, hbuf b (m @ [0]) [])"
proof -
  let ?par = "vtm_http_parser_init par0 VTM_HTTP_PM_REQUEST"
  let ?p1 = "?par\<lparr>hp_state := VTM_HTTP_PARSE_REQ_METHOD\<rparr>"
  let ?p2 = "?par\<lparr>hp_state := VTM_HTTP_PARSE_REQ_PATH, hp_req_method := meth, hp_state_chars := of_nat (Suc (length m))\<rparr>"
  have par: "hp_state ?par = VTM_HTTP_PARSE_BEGIN" "hp_mode ?par = VTM_HTTP_PM_REQUEST" "unat (hp_max_header_size ?par) = 8192"
    by (simp_all add: vtm_http_parser_init_def vtm_http_parser_reset_def VTM_HTTP_DEF_MAX_HEADER_SIZE_def)
  have ok: "hbuf_ok b [] (m @ [32])" and ok': "hbuf_ok b m [32]" using b(1, 3) by (simp_all add: hbuf_ok_def)
  have m': "no_nul m" "32 \<notin> set m" "length m \<le> 18" using http_method_name_ok [OF m] m by (auto simp: http_methods_simps split: if_splits)
  have l: "http_limit ?par n" "http_limit ?p1 n" if "n \<le> 19" for n using that par by (simp_all add: http_limit_def http_in_body_def)
  have skip: "http_eval mem ma c (?p1\<lparr>hp_state_chars := of_nat (Suc k)\<rparr>) (hbuf b pre suf) =
      HNext (?p1\<lparr>hp_state_chars := of_nat (Suc k)\<rparr>) (hbuf b pre suf)" if "c \<in> set m" for c k b pre suf
    using that m' by (auto simp: http_eval_simps)
  obtain x xs where x: "m @ [32] = x # xs" by (cases m) auto
  have "http_conf mem ma b ?par 0 [] (m @ [32]) = http_conf mem ma b ?p1 0 [] (m @ [32])"
    unfolding x using par ok x l by (intro http_again) (simp_all add: http_eval_simps)
  also have "\<dots> = http_conf mem ma b ?p1 (length m) m [32]" using http_skip [OF skip, of m b "[]" "[32]" 0] ok l m' by simp
  also have "\<dots> = http_char mem ma b ?p1 (length m) 32 m []" using ok' l m' by (intro http_conf_char) simp_all
  also have "\<dots> = Some (VTM_NET_RECV_STAT_AGAIN,
      \<lparr>hl_par = ?p2, hl_oldstate = hp_state ?p1, hl_left = 0, hl_c = None\<rparr>, hbuf b (m @ [0]) [])"
  proof (rule http_char_end)
    have "buf_cstr 0 (hbuf b (m @ [0]) []) = Some m"
      using hbuf_cstr [of b "[]" m "[]" "[]"] hbuf_ok_shift [OF ok'] m'(1) by simp
    then show "http_eval mem ma 32 (?p1\<lparr>hp_state_chars := of_nat (Suc (length m))\<rparr>) (hbuf b (m @ [32]) []) = HNext ?p2 (hbuf b (m @ [0]) [])"
      using hbuf_poke [OF ok'] m by (simp add: http_eval_simps)
  qed
  finally show ?thesis
    using http_run_conf [OF b(1, 2), of x xs mem ma par0 VTM_HTTP_PM_REQUEST] b(3) x by simp
qed

text \<open>
  What the parser makes of a request depends on where the received bytes end. When the first bytes
  are the method and the space behind it and the path arrives later, the number of bytes seen in the
  new state has not been reset, so the path is taken from the begin of the buffer: it is the method.
\<close>

theorem http_split_path:
  assumes b: "vtm_buf_inv b" "buf_read b = 0" "buf_data b = m @ [32]" and m: "vtm_http_get_method m = Some meth"
  shows "\<exists>par1 b1. vtm_http_parser_run mem ma (vtm_http_parser_init par0 VTM_HTTP_PM_REQUEST) b = Some (VTM_NET_RECV_STAT_AGAIN, par1, b1)
    \<and> b1 = b\<lparr>buf_data := m @ [0], buf_read := of_nat (length m + 1)\<rparr>
    \<and> (\<forall>path b2. no_nul path \<longrightarrow> 32 \<notin> set path \<longrightarrow> 63 \<notin> set path \<longrightarrow> length path \<le> 8000
        \<longrightarrow> vtm_buf_inv b2 \<longrightarrow> buf_read b2 = buf_read b1 \<longrightarrow> buf_data b2 = buf_data b1 @ path @ [32]
        \<longrightarrow> (\<exists>par2 b3. vtm_http_parser_run mem ma par1 b2 = Some (VTM_NET_RECV_STAT_AGAIN, par2, b3)
              \<and> hp_req_path par2 = Some 0 \<and> buf_cstr 0 b3 = Some m))"
proof -
  let ?p2 = "(vtm_http_parser_init par0 VTM_HTTP_PM_REQUEST)\<lparr>hp_state := VTM_HTTP_PARSE_REQ_PATH, hp_req_method := meth,
      hp_state_chars := of_nat (Suc (length m))\<rparr>"
  have max: "unat (hp_max_header_size ?p2) = 8192"
    by (simp add: vtm_http_parser_init_def vtm_http_parser_reset_def VTM_HTTP_DEF_MAX_HEADER_SIZE_def)
  have m': "no_nul m" "length m \<le> 18" using http_method_name_ok [OF m] m by (auto simp: http_methods_simps split: if_splits)
  note run1 = http_run_method [OF b m, of mem ma par0]
  show ?thesis
  proof (rule exI [of _ ?p2], rule exI [of _ "hbuf b (m @ [0]) []"], intro conjI allI impI, rule run1, simp add: hbuf_def)
    fix path b2
    assume path: "no_nul path" "32 \<notin> set path" "63 \<notin> set path" "length path \<le> 8000"
      and b2: "vtm_buf_inv b2" "buf_read b2 = buf_read (hbuf b (m @ [0]) [])" "buf_data b2 = buf_data (hbuf b (m @ [0]) []) @ path @ [32]"
    have ok2: "hbuf_ok b2 (m @ [0]) (path @ [32])" using b2 by (simp add: hbuf_ok_def)
    have chars: "unat (hp_state_chars ?p2) = Suc (length m)" using m'(2) by (simp del: of_nat_Suc)
    obtain y ys where y: "path @ [32] = y # ys" by (cases path) auto
    obtain l where l: "http_conf mem ma b2 ?p2 (Suc (length m)) (m @ [0]) (path @ [32]) =
        Some (VTM_NET_RECV_STAT_AGAIN, l, hbuf b2 ((m @ [0]) @ path @ [0]) [])"
      "hl_par l = ?p2\<lparr>hp_state := VTM_HTTP_PARSE_VERSION_H, hp_state_chars := of_nat (Suc (length m) + length path + 1),
         hp_req_path := Some (of_nat (length (m @ [0])) - of_nat (Suc (length m)))\<rparr>"
      by (rule http_end_path [of ?p2 path b2 "m @ [0]" mem ma "Suc (length m)"]) (use path ok2 max m' in simp_all)
    have "vtm_http_parser_run mem ma ?p2 b2 = Some (VTM_NET_RECV_STAT_AGAIN, hl_par l, hbuf b2 ((m @ [0]) @ path @ [0]) [])"
      using http_run_resume [of b2 "m @ [0]" y ys mem ma ?p2] b2 y l(1) chars by simp
    moreover have "buf_cstr 0 (hbuf b2 ((m @ [0]) @ path @ [0]) []) = Some m"
      using hbuf_cstr [of b2 "[]" m "path @ [0]" "[]"] ok2 m'(1) by (simp add: hbuf_ok_def)
    ultimately show "\<exists>par2 b3. vtm_http_parser_run mem ma ?p2 b2 = Some (VTM_NET_RECV_STAT_AGAIN, par2, b3)
        \<and> hp_req_path par2 = Some 0 \<and> buf_cstr 0 b3 = Some m"
      by (intro exI conjI) (assumption, simp_all add: l(2))
  qed
qed

theorem http_split_path_witness:
  "\<exists>par1 b1 par2 b3. vtm_http_parser_run True alloc_all (vtm_http_parser_init undefined VTM_HTTP_PM_REQUEST) (buf_holding (bytes_of ''GET '')) =
      Some (VTM_NET_RECV_STAT_AGAIN, par1, b1)
    \<and> vtm_http_parser_run True alloc_all par1 (b1\<lparr>buf_data := buf_data b1 @ bytes_of ''/a '', buf_used := 7\<rparr>) =
      Some (VTM_NET_RECV_STAT_AGAIN, par2, b3)
    \<and> hp_req_path par2 = Some 0 \<and> buf_cstr 0 b3 = Some (bytes_of ''GET'')"
proof -
  let ?b = "buf_holding (bytes_of ''GET'' @ [32])"
  let ?b1 = "?b\<lparr>buf_data := bytes_of ''GET'' @ [0], buf_read := of_nat (length (bytes_of ''GET'') + 1)\<rparr>"
  let ?b2 = "?b1\<lparr>buf_data := buf_data ?b1 @ bytes_of ''/a'' @ [32], buf_used := 7\<rparr>"
  have inv: "vtm_buf_inv ?b" by (rule buf_holding_inv) (simp add: bytes_of_def)
  have m: "vtm_http_get_method (bytes_of ''GET'') = Some VTM_HTTP_METHOD_GET" by (simp add: http_methods_simps bytes_of_def)
  have inv2: "vtm_buf_inv ?b2"
    by (auto simp: vtm_buf_inv_def buf_holding_def vtm_buf_init_def VTM_BUF_SDATA_LEN_def bytes_of_def intro: exI [of _ 10])
  from http_split_path [OF inv buf_holding_simps(2, 1) m, of True alloc_all undefined]
  obtain par1 where run: "vtm_http_parser_run True alloc_all (vtm_http_parser_init undefined VTM_HTTP_PM_REQUEST) ?b =
      Some (VTM_NET_RECV_STAT_AGAIN, par1, ?b1)"
    and all: "\<forall>path b2. no_nul path \<longrightarrow> 32 \<notin> set path \<longrightarrow> 63 \<notin> set path \<longrightarrow> length path \<le> 8000
      \<longrightarrow> vtm_buf_inv b2 \<longrightarrow> buf_read b2 = buf_read ?b1 \<longrightarrow> buf_data b2 = buf_data ?b1 @ path @ [32]
      \<longrightarrow> (\<exists>par2 b3. vtm_http_parser_run True alloc_all par1 b2 = Some (VTM_NET_RECV_STAT_AGAIN, par2, b3)
            \<and> hp_req_path par2 = Some 0 \<and> buf_cstr 0 b3 = Some (bytes_of ''GET''))" by blast
  have "\<exists>par2 b3. vtm_http_parser_run True alloc_all par1 ?b2 = Some (VTM_NET_RECV_STAT_AGAIN, par2, b3)
      \<and> hp_req_path par2 = Some 0 \<and> buf_cstr 0 b3 = Some (bytes_of ''GET'')"
    by (rule all [rule_format, of "bytes_of ''/a''"]) (use inv2 in \<open>simp_all add: bytes_of_def no_nul_def\<close>)
  with run show ?thesis by (auto simp: bytes_of_def)
qed

end
