(* ===== verification/Socket.thy ===== *)
theory Socket
  imports Dataset
begin

text \<open>
  Sockets: the state flags, the reference count and the operations of \<open>net/socket.c\<close>, which dispatch
  through a table of functions, and the functions of plain sockets in \<open>sys/base/net/socket_plain.c\<close> and
  \<open>socket_util.c\<close>. A call of the operating system is an argument that maps a state \<open>'w\<close> of the system to
  a result and the next state. Every operation of \<open>socket.c\<close> holds the mutex of the socket from its
  begin to its end, so it is one step.
\<close>

subsection \<open>States\<close>

definition VTM_SOCK_STAT_DEFAULT :: u32 where "VTM_SOCK_STAT_DEFAULT = 0"

definition VTM_SOCK_STAT_ERR :: u32 where "VTM_SOCK_STAT_ERR = 1"

definition VTM_SOCK_STAT_CLOSED :: u32 where "VTM_SOCK_STAT_CLOSED = 2"

definition VTM_SOCK_STAT_HUP :: u32 where "VTM_SOCK_STAT_HUP = 4"

definition VTM_SOCK_STAT_READ_AGAIN :: u32 where "VTM_SOCK_STAT_READ_AGAIN = 8"

definition VTM_SOCK_STAT_READ_AGAIN_WHEN_WRITEABLE :: u32 where "VTM_SOCK_STAT_READ_AGAIN_WHEN_WRITEABLE = 16"

definition VTM_SOCK_STAT_WRITE_AGAIN :: u32 where "VTM_SOCK_STAT_WRITE_AGAIN = 32"

definition VTM_SOCK_STAT_WRITE_AGAIN_WHEN_READABLE :: u32 where "VTM_SOCK_STAT_WRITE_AGAIN_WHEN_READABLE = 64"

definition VTM_SOCK_STAT_READ_LOCKED :: u32 where "VTM_SOCK_STAT_READ_LOCKED = 128"

definition VTM_SOCK_STAT_WRITE_LOCKED :: u32 where "VTM_SOCK_STAT_WRITE_LOCKED = 256"

definition VTM_SOCK_STAT_FREE_ON_UNREF :: u32 where "VTM_SOCK_STAT_FREE_ON_UNREF = 512"

definition VTM_SOCK_STAT_NONBLOCKING :: u32 where "VTM_SOCK_STAT_NONBLOCKING = 1024"

definition VTM_SOCK_STAT_NBL_READ :: u32 where "VTM_SOCK_STAT_NBL_READ = 2048"

definition VTM_SOCK_STAT_NBL_WRITE :: u32 where "VTM_SOCK_STAT_NBL_WRITE = 4096"

definition VTM_SOCK_STAT_NBL_AUTO :: u32 where "VTM_SOCK_STAT_NBL_AUTO = 8192"

lemmas sock_stat_defs = VTM_SOCK_STAT_DEFAULT_def VTM_SOCK_STAT_ERR_def VTM_SOCK_STAT_CLOSED_def VTM_SOCK_STAT_HUP_def
  VTM_SOCK_STAT_READ_AGAIN_def VTM_SOCK_STAT_READ_AGAIN_WHEN_WRITEABLE_def VTM_SOCK_STAT_WRITE_AGAIN_def
  VTM_SOCK_STAT_WRITE_AGAIN_WHEN_READABLE_def VTM_SOCK_STAT_READ_LOCKED_def VTM_SOCK_STAT_WRITE_LOCKED_def
  VTM_SOCK_STAT_FREE_ON_UNREF_def VTM_SOCK_STAT_NONBLOCKING_def VTM_SOCK_STAT_NBL_READ_def
  VTM_SOCK_STAT_NBL_WRITE_def VTM_SOCK_STAT_NBL_AUTO_def

definition vtm_flag_set :: "u32 \<Rightarrow> u32 \<Rightarrow> u32" where
  "vtm_flag_set val flag = val OR flag"

definition vtm_flag_unset :: "u32 \<Rightarrow> u32 \<Rightarrow> u32" where
  "vtm_flag_unset val flag = val AND NOT flag"

datatype vtm_socket_family = VTM_SOCK_FAM_IN4 | VTM_SOCK_FAM_IN6

text \<open>\<open>sk_mtx\<close> says whether the socket has a mutex, \<open>sk_stream_srv\<close> whether a server has set its callback.\<close>

record vtm_socket =
  sk_fd :: nat
  sk_family :: vtm_socket_family
  sk_type :: int
  sk_mtx :: bool
  sk_state :: u32
  sk_refcount :: byte
  sk_usr_data :: u64
  sk_stream_srv :: bool

definition vtm_socket_set_state :: "vtm_socket \<Rightarrow> u32 \<Rightarrow> vtm_socket" where
  "vtm_socket_set_state sock flags = sock\<lparr>sk_state := vtm_flag_set (sk_state sock) flags\<rparr>"

definition vtm_socket_unset_state :: "vtm_socket \<Rightarrow> u32 \<Rightarrow> vtm_socket" where
  "vtm_socket_unset_state sock flags = sock\<lparr>sk_state := vtm_flag_unset (sk_state sock) flags\<rparr>"

definition vtm_socket_get_state :: "vtm_socket \<Rightarrow> u32" where
  "vtm_socket_get_state sock = sk_state sock"

definition VTM_SOCKET_IS_CLOSED :: "vtm_socket \<Rightarrow> bool" where
  "VTM_SOCKET_IS_CLOSED sock \<longleftrightarrow> vtm_flag_is_set (sk_state sock) VTM_SOCK_STAT_CLOSED"

definition vtm_socket_base_init :: "vtm_socket \<Rightarrow> vtm_rc \<times> vtm_socket" where
  "vtm_socket_base_init sock =
     (VTM_OK, sock\<lparr>sk_state := VTM_SOCK_STAT_DEFAULT, sk_mtx := False, sk_usr_data := 0, sk_refcount := 0\<rparr>)"

text \<open>\<open>mem\<close> says whether the mutex can be allocated.\<close>

definition vtm_socket_make_threadsafe :: "bool \<Rightarrow> vtm_socket \<Rightarrow> vtm_rc \<times> vtm_socket" where
  "vtm_socket_make_threadsafe mem sock =
     (if sk_mtx sock then (VTM_E_INVALID_STATE, sock)
      else if \<not> mem then (VTM_E_MALLOC, sock)
      else (VTM_OK, sock\<lparr>sk_mtx := True\<rparr>))"

definition vtm_socket_set_usr_data :: "vtm_socket \<Rightarrow> u64 \<Rightarrow> vtm_socket" where
  "vtm_socket_set_usr_data sock data = sock\<lparr>sk_usr_data := data\<rparr>"

definition vtm_socket_get_usr_data :: "vtm_socket \<Rightarrow> u64" where
  "vtm_socket_get_usr_data sock = sk_usr_data sock"

definition vtm_socket_get_family :: "vtm_socket \<Rightarrow> vtm_socket_family" where
  "vtm_socket_get_family sock = sk_family sock"

definition vtm_socket_get_type :: "vtm_socket \<Rightarrow> int" where
  "vtm_socket_get_type sock = sk_type sock"

subsection \<open>References\<close>

text \<open>\<open>None\<close> is a failed assertion; the second component says whether the socket is freed.\<close>

definition vtm_socket_ref :: "vtm_socket \<Rightarrow> vtm_socket option" where
  "vtm_socket_ref sock =
     (if sk_refcount sock = 255 then None else Some (sock\<lparr>sk_refcount := sk_refcount sock + 1\<rparr>))"

definition vtm_socket_unref :: "vtm_socket \<Rightarrow> (vtm_socket \<times> bool) option" where
  "vtm_socket_unref sock =
     (if sk_refcount sock = 0 then None
      else let sock = sock\<lparr>sk_refcount := sk_refcount sock - 1\<rparr>
           in Some (sock, sk_refcount sock = 0 \<and> sk_state sock AND VTM_SOCK_STAT_FREE_ON_UNREF \<noteq> 0))"

definition vtm_socket_enable_free_on_unref :: "vtm_socket \<Rightarrow> vtm_socket \<times> bool" where
  "vtm_socket_enable_free_on_unref sock =
     (let sock = sock\<lparr>sk_state := sk_state sock OR VTM_SOCK_STAT_FREE_ON_UNREF\<rparr>
      in (sock, sk_refcount sock = 0))"

subsection \<open>Dispatch\<close>

text \<open>An operation of the table of functions gets the socket and a state of the system.\<close>

type_synonym ('w, 'r) sock_op = "vtm_socket \<Rightarrow> 'w \<Rightarrow> 'r \<times> vtm_socket \<times> 'w"

definition sock_unless_closed :: "'r \<Rightarrow> ('w, 'r) sock_op \<Rightarrow> ('w, 'r) sock_op" where
  "sock_unless_closed r f sock w = (if VTM_SOCKET_IS_CLOSED sock then (r, sock, w) else f sock w)"

definition vtm_socket_bind :: "(cstr \<Rightarrow> u32 \<Rightarrow> ('w, vtm_rc) sock_op) \<Rightarrow> cstr \<Rightarrow> u32 \<Rightarrow> ('w, vtm_rc) sock_op" where
  "vtm_socket_bind vt_bind addr port = sock_unless_closed VTM_E_IO_CLOSED (vt_bind addr port)"

definition vtm_socket_listen :: "(u32 \<Rightarrow> ('w, vtm_rc) sock_op) \<Rightarrow> u32 \<Rightarrow> ('w, vtm_rc) sock_op" where
  "vtm_socket_listen vt_listen backlog = sock_unless_closed VTM_E_IO_CLOSED (vt_listen backlog)"

definition vtm_socket_accept ::
    "('w, vtm_rc \<times> vtm_socket option) sock_op \<Rightarrow> ('w, vtm_rc \<times> vtm_socket option) sock_op" where
  "vtm_socket_accept vt_accept =
     sock_unless_closed (VTM_E_IO_CLOSED, None)
       (\<lambda>sock. vt_accept (sock\<lparr>sk_state := vtm_flag_unset (sk_state sock) VTM_SOCK_STAT_READ_AGAIN\<rparr>))"

definition vtm_socket_connect :: "(cstr \<Rightarrow> u32 \<Rightarrow> ('w, vtm_rc) sock_op) \<Rightarrow> cstr \<Rightarrow> u32 \<Rightarrow> ('w, vtm_rc) sock_op" where
  "vtm_socket_connect vt_connect host port =
     sock_unless_closed VTM_E_IO_CLOSED
       (\<lambda>sock. vt_connect host port (sock\<lparr>sk_state := vtm_flag_unset (sk_state sock) VTM_SOCK_STAT_READ_AGAIN\<rparr>))"

definition vtm_socket_shutdown :: "(u32 \<Rightarrow> ('w, vtm_rc) sock_op) \<Rightarrow> u32 \<Rightarrow> ('w, vtm_rc) sock_op" where
  "vtm_socket_shutdown vt_shutdown dir = sock_unless_closed VTM_E_IO_CLOSED (vt_shutdown dir)"

definition vtm_socket_close :: "('w, vtm_rc) sock_op \<Rightarrow> ('w, vtm_rc) sock_op" where
  "vtm_socket_close vt_close =
     sock_unless_closed VTM_OK
       (\<lambda>sock w. let (rc, sock, w) = vt_close sock w
                in (rc, if rc = VTM_OK then sock\<lparr>sk_state := vtm_flag_set (sk_state sock) VTM_SOCK_STAT_CLOSED\<rparr> else sock, w))"

text \<open>The hints of a socket that switches between reading and writing.\<close>

definition sock_nbl :: "u32 \<Rightarrow> u32 \<Rightarrow> vtm_socket \<Rightarrow> vtm_socket" where
  "sock_nbl off on sock = sock\<lparr>sk_state := (sk_state sock AND NOT off) OR on\<rparr>"

definition sock_write_hints :: "vtm_socket \<Rightarrow> vtm_socket" where
  "sock_write_hints sock =
     (if sk_state sock AND VTM_SOCK_STAT_NBL_AUTO \<noteq> 0
      then if sk_state sock AND (VTM_SOCK_STAT_WRITE_AGAIN OR VTM_SOCK_STAT_READ_AGAIN_WHEN_WRITEABLE) \<noteq> 0
           then sock_nbl VTM_SOCK_STAT_NBL_READ VTM_SOCK_STAT_NBL_WRITE sock
           else sock_nbl VTM_SOCK_STAT_NBL_WRITE VTM_SOCK_STAT_NBL_READ sock
      else sock)"

text \<open>
  The results are the return code and what is stored for the number of bytes. Writing to a plain
  socket is a loop; \<open>None\<close> is a loop that does not end.
\<close>

definition vtm_socket_write ::
    "(byte list \<Rightarrow> vtm_socket \<Rightarrow> 'w \<Rightarrow> ((vtm_rc \<times> nat) \<times> vtm_socket \<times> 'w) option) \<Rightarrow> byte list
     \<Rightarrow> vtm_socket \<Rightarrow> 'w \<Rightarrow> ((vtm_rc \<times> nat) \<times> vtm_socket \<times> 'w) option" where
  "vtm_socket_write vt_write src sock w =
     (if VTM_SOCKET_IS_CLOSED sock then Some ((VTM_E_IO_CLOSED, 0), sock, w)
      else
        let sock = sock\<lparr>sk_state := vtm_flag_unset (sk_state sock)
                     (VTM_SOCK_STAT_WRITE_AGAIN OR VTM_SOCK_STAT_WRITE_AGAIN_WHEN_READABLE)\<rparr>
        in map_option (\<lambda>(r, sock, w). (r, sock_write_hints sock, w)) (vt_write src sock w))"

definition vtm_socket_read ::
    "(nat \<Rightarrow> ('w, vtm_rc \<times> byte list) sock_op) \<Rightarrow> nat \<Rightarrow> ('w, vtm_rc \<times> byte list) sock_op" where
  "vtm_socket_read vt_read len =
     sock_unless_closed (VTM_E_IO_CLOSED, [])
       (\<lambda>sock w.
          let sock = sock\<lparr>sk_state := vtm_flag_unset (sk_state sock)
                       (VTM_SOCK_STAT_READ_AGAIN OR VTM_SOCK_STAT_READ_AGAIN_WHEN_WRITEABLE)\<rparr>;
              (r, sock, w) = vt_read len sock w
          in (r,
              if sk_state sock AND VTM_SOCK_STAT_NBL_AUTO \<noteq> 0
                 \<and> sk_state sock AND VTM_SOCK_STAT_READ_AGAIN_WHEN_WRITEABLE \<noteq> 0
              then sock_nbl VTM_SOCK_STAT_NBL_READ VTM_SOCK_STAT_NBL_WRITE sock else sock, w))"

text \<open>An option with its value: \<open>None\<close> is a null pointer.\<close>

definition VTM_SOCK_OPT_NONBLOCKING :: int where "VTM_SOCK_OPT_NONBLOCKING = 2"

definition vtm_socket_set_opt ::
    "(int \<Rightarrow> 'v option \<Rightarrow> nat \<Rightarrow> ('w, vtm_rc) sock_op) \<Rightarrow> int \<Rightarrow> 'v option \<Rightarrow> nat \<Rightarrow> ('w, vtm_rc) sock_op" where
  "vtm_socket_set_opt vt_set_opt opt val len sock w =
     (let (rc, sock, w) = vt_set_opt opt val len sock w
      in if rc \<noteq> VTM_OK then (rc, sock, w)
         else (rc,
               if opt = VTM_SOCK_OPT_NONBLOCKING
               then if val \<noteq> None
                    then sock\<lparr>sk_state := vtm_flag_set (sk_state sock) VTM_SOCK_STAT_NONBLOCKING\<rparr>
                    else sock\<lparr>sk_state := vtm_flag_unset (sk_state sock) VTM_SOCK_STAT_NONBLOCKING\<rparr>
               else sock, w))"

text \<open>The option with its value of the size \<open>len\<close>; the answer for the nonblocking option is the flag.\<close>

definition vtm_socket_get_opt ::
    "(int \<Rightarrow> nat \<Rightarrow> ('w, vtm_rc \<times> bool) sock_op) \<Rightarrow> int \<Rightarrow> nat \<Rightarrow> ('w, vtm_rc \<times> bool) sock_op" where
  "vtm_socket_get_opt vt_get_opt opt len sock w =
     (if opt = VTM_SOCK_OPT_NONBLOCKING
      then if len \<noteq> 1 then ((VTM_E_INVALID_ARG, False), sock, w)
           else ((VTM_OK, sk_state sock AND VTM_SOCK_STAT_NONBLOCKING \<noteq> 0), sock, w)
      else vt_get_opt opt len sock w)"

text \<open>\<open>cb\<close> is the callback of the server the socket belongs to.\<close>

definition vtm_socket_update_srv :: "('w, vtm_rc) sock_op \<Rightarrow> ('w, vtm_rc) sock_op" where
  "vtm_socket_update_srv cb sock w =
     (if sk_stream_srv sock then cb sock w else (VTM_E_NOT_SUPPORTED, sock, w))"

definition vtm_socket_dgram_recv ::
    "(nat \<Rightarrow> ('w, vtm_rc \<times> byte list) sock_op) \<Rightarrow> nat \<Rightarrow> ('w, vtm_rc \<times> byte list) sock_op" where
  "vtm_socket_dgram_recv vt_recv maxlen = sock_unless_closed (VTM_E_IO_CLOSED, []) (vt_recv maxlen)"

definition vtm_socket_dgram_send ::
    "(byte list \<Rightarrow> ('w, vtm_rc \<times> nat) sock_op) \<Rightarrow> byte list \<Rightarrow> ('w, vtm_rc \<times> nat) sock_op" where
  "vtm_socket_dgram_send vt_send buf = sock_unless_closed (VTM_E_IO_CLOSED, 0) (vt_send buf)"

subsection \<open>Plain sockets\<close>

text \<open>The values of \<open>errno\<close> that \<open>vtm_socket_util_error\<close> tells apart.\<close>

datatype sock_errno =
    SOCK_ERR_AGAIN | SOCK_ERR_WOULDBLOCK | SOCK_ERR_CONNABORTED | SOCK_ERR_INTR | SOCK_ERR_NFILE | SOCK_ERR_MFILE
  | SOCK_ERR_NOMEM | SOCK_ERR_NOBUF | SOCK_ERR_PROTO | SOCK_ERR_PERM | SOCK_ERR_OTHER

fun sock_error_rc :: "sock_errno \<Rightarrow> vtm_rc \<times> u32" where
  "sock_error_rc SOCK_ERR_AGAIN = (VTM_E_IO_AGAIN, 0)"
| "sock_error_rc SOCK_ERR_WOULDBLOCK = (VTM_E_IO_AGAIN, 0)"
| "sock_error_rc SOCK_ERR_CONNABORTED = (VTM_E_IO_CANCELED, 0)"
| "sock_error_rc SOCK_ERR_INTR = (VTM_E_INTERRUPTED, 0)"
| "sock_error_rc SOCK_ERR_NFILE = (VTM_E_MAX_REACHED, 0)"
| "sock_error_rc SOCK_ERR_MFILE = (VTM_E_MAX_REACHED, 0)"
| "sock_error_rc SOCK_ERR_NOMEM = (VTM_E_MEMORY, 0)"
| "sock_error_rc SOCK_ERR_NOBUF = (VTM_E_MEMORY, 0)"
| "sock_error_rc SOCK_ERR_PROTO = (VTM_E_IO_PROTOCOL, VTM_SOCK_STAT_ERR)"
| "sock_error_rc SOCK_ERR_PERM = (VTM_E_PERMISSION, 0)"
| "sock_error_rc SOCK_ERR_OTHER = (VTM_E_IO_UNKNOWN, VTM_SOCK_STAT_ERR)"

definition vtm_socket_util_error :: "sock_errno \<Rightarrow> vtm_socket \<Rightarrow> vtm_rc \<times> vtm_socket" where
  "vtm_socket_util_error err sock =
     (let (rc, state) = sock_error_rc err
      in (rc, if state > 0 then sock\<lparr>sk_state := vtm_flag_set (sk_state sock) state\<rparr> else sock))"

definition vtm_socket_util_read_error :: "sock_errno \<Rightarrow> vtm_socket \<Rightarrow> vtm_rc \<times> vtm_socket" where
  "vtm_socket_util_read_error err sock =
     (let (rc, sock) = vtm_socket_util_error err sock
      in (rc, if rc = VTM_E_IO_AGAIN
              then sock\<lparr>sk_state := vtm_flag_set (sk_state sock) VTM_SOCK_STAT_READ_AGAIN\<rparr> else sock))"

definition vtm_socket_util_write_error :: "sock_errno \<Rightarrow> vtm_socket \<Rightarrow> vtm_rc \<times> vtm_socket" where
  "vtm_socket_util_write_error err sock =
     (let (rc, sock) = vtm_socket_util_error err sock
      in (rc, if rc = VTM_E_IO_AGAIN
              then sock\<lparr>sk_state := vtm_flag_set (sk_state sock) VTM_SOCK_STAT_WRITE_AGAIN\<rparr> else sock))"

text \<open>A new socket on a descriptor; \<open>mem\<close> says whether it can be allocated.\<close>

definition vtm_socket_plain_alloc :: "bool \<Rightarrow> vtm_socket_family \<Rightarrow> int \<Rightarrow> nat \<Rightarrow> vtm_socket option" where
  "vtm_socket_plain_alloc mem fam type fd =
     (if \<not> mem then None
      else Some \<lparr>sk_fd = fd, sk_family = fam, sk_type = type, sk_mtx = False, sk_state = VTM_SOCK_STAT_DEFAULT,
                 sk_refcount = 0, sk_usr_data = 0, sk_stream_srv = False\<rparr>)"

text \<open>The calls \<open>accept\<close>, \<open>close\<close>, \<open>send\<close> and \<open>recv\<close> of the system.\<close>

definition vtm_socket_plain_accept ::
    "(nat \<Rightarrow> 'w \<Rightarrow> (sock_errno + nat) \<times> 'w) \<Rightarrow> bool \<Rightarrow> ('w, vtm_rc \<times> vtm_socket option) sock_op" where
  "vtm_socket_plain_accept accept mem sock w =
     (case accept (sk_fd sock) w of
        (Inl e, w) \<Rightarrow>
          let (rc, st) = sock_error_rc e
          in ((rc, None),
              if rc = VTM_E_IO_AGAIN
              then sock\<lparr>sk_state := vtm_flag_set (sk_state sock) VTM_SOCK_STAT_READ_AGAIN\<rparr> else sock, w)
      | (Inr fd, w) \<Rightarrow>
          (case vtm_socket_plain_alloc mem (sk_family sock) (sk_type sock) fd of
             None \<Rightarrow> ((VTM_ERROR, None), sock, w)
           | Some out \<Rightarrow> ((VTM_OK, Some out), sock, w)))"

definition vtm_socket_plain_close :: "(nat \<Rightarrow> 'w \<Rightarrow> 'w) \<Rightarrow> ('w, vtm_rc) sock_op" where
  "vtm_socket_plain_close close sock w = (VTM_OK, sock, close (sk_fd sock) w)"

partial_function (option) plain_write_loop ::
    "(nat \<Rightarrow> byte list \<Rightarrow> 'w \<Rightarrow> (sock_errno + nat) \<times> 'w) \<Rightarrow> byte list \<Rightarrow> nat \<Rightarrow> vtm_socket \<Rightarrow> 'w
     \<Rightarrow> ((vtm_rc \<times> nat) \<times> vtm_socket \<times> 'w) option" where
  "plain_write_loop send src written sock w =
     (if written = length src then Some ((VTM_OK, written), sock, w)
      else case send (sk_fd sock) (drop written src) w of
             (Inl e, w) \<Rightarrow>
               let (rc, sock) = vtm_socket_util_error e sock
               in Some ((rc, written),
                        if rc = VTM_E_IO_AGAIN
                        then sock\<lparr>sk_state := vtm_flag_set (sk_state sock) VTM_SOCK_STAT_WRITE_AGAIN\<rparr> else sock, w)
           | (Inr num, w) \<Rightarrow> plain_write_loop send src (written + num) sock w)"

definition vtm_socket_plain_write ::
    "(nat \<Rightarrow> byte list \<Rightarrow> 'w \<Rightarrow> (sock_errno + nat) \<times> 'w) \<Rightarrow> byte list \<Rightarrow> vtm_socket \<Rightarrow> 'w
     \<Rightarrow> ((vtm_rc \<times> nat) \<times> vtm_socket \<times> 'w) option" where
  "vtm_socket_plain_write send src sock w = plain_write_loop send src 0 sock w"

definition vtm_socket_plain_read ::
    "(nat \<Rightarrow> nat \<Rightarrow> 'w \<Rightarrow> (sock_errno + byte list) \<times> 'w) \<Rightarrow> nat \<Rightarrow> ('w, vtm_rc \<times> byte list) sock_op" where
  "vtm_socket_plain_read recv len sock w =
     (case recv (sk_fd sock) len w of
        (Inl e, w) \<Rightarrow>
          let rc = fst (sock_error_rc e)
          in ((rc, []), vtm_socket_set_state sock
                (if rc = VTM_E_IO_AGAIN then VTM_SOCK_STAT_READ_AGAIN else VTM_SOCK_STAT_ERR), w)
      | (Inr bs, w) \<Rightarrow>
          if bs = [] then ((VTM_E_IO_EOF, []), vtm_socket_set_state sock VTM_SOCK_STAT_HUP, w)
          else ((VTM_OK, bs), vtm_socket_set_state sock 0, w))"

subsection \<open>What arrives at the other side\<close>

text \<open>
  The documented behaviour of \<open>send\<close>: it takes a non-empty part of the bytes, or none and reports an error.
  \<open>sent\<close> are the bytes the system has taken.
\<close>

definition send_takes :: "(nat \<Rightarrow> byte list \<Rightarrow> 'w \<Rightarrow> (sock_errno + nat) \<times> 'w) \<Rightarrow> ('w \<Rightarrow> byte list) \<Rightarrow> bool" where
  "send_takes send sent \<longleftrightarrow> (\<forall>fd bs w. bs \<noteq> [] \<longrightarrow>
     (case send fd bs w of
        (Inl e, w') \<Rightarrow> sent w' = sent w
      | (Inr n, w') \<Rightarrow> 0 < n \<and> n \<le> length bs \<and> sent w' = sent w @ take n bs))"

lemma util_error_not_ok: "fst (vtm_socket_util_error e sock) \<noteq> VTM_OK"
  by (cases e) (simp_all add: vtm_socket_util_error_def)

lemma plain_write_loop_sends:
  assumes os: "send_takes send sent" and "written \<le> length src" and "sent w = out @ take written src"
  shows "\<exists>rc n sock' w'. plain_write_loop send src written sock w = Some ((rc, n), sock', w')
    \<and> n \<le> length src \<and> sent w' = out @ take n src \<and> (rc = VTM_OK \<longleftrightarrow> n = length src)"
  using assms(2, 3)
proof (induction "length src - written" arbitrary: written w rule: less_induct)
  case less
  show ?case
  proof (cases "written = length src")
    case True
    then show ?thesis using less.prems by (subst plain_write_loop.simps) simp
  next
    case False
    then have ne: "drop written src \<noteq> []" using less.prems by simp
    obtain r w' where s: "send (sk_fd sock) (drop written src) w = (r, w')" by fastforce
    have law: "case (r, w') of (Inl e, w') \<Rightarrow> sent w' = sent w
      | (Inr n, w') \<Rightarrow> 0 < n \<and> n \<le> length (drop written src) \<and> sent w' = sent w @ take n (drop written src)"
      unfolding s [symmetric] using os ne by (simp add: send_takes_def)
    show ?thesis
    proof (cases r)
      case (Inl e)
      then show ?thesis using s False law less.prems util_error_not_ok [of e sock]
        by (subst plain_write_loop.simps) (auto split: prod.splits)
    next
      case (Inr n)
      then have n: "0 < n" "written + n \<le> length src" "sent w' = out @ take (written + n) src"
        using law less.prems by (auto simp: take_add)
      then show ?thesis using less.hyps [of "written + n" w'] s False Inr
        by (subst plain_write_loop.simps) simp
    qed
  qed
qed

lemma socket_write_law:
  assumes "send_takes send sent"
  shows "\<exists>rc n sock' w'. vtm_socket_write (vtm_socket_plain_write send) src sock w = Some ((rc, n), sock', w')
    \<and> n \<le> length src \<and> sent w' = sent w @ take n src
    \<and> (rc = VTM_OK \<longleftrightarrow> \<not> VTM_SOCKET_IS_CLOSED sock \<and> n = length src)"
proof (cases "VTM_SOCKET_IS_CLOSED sock")
  case True
  then show ?thesis by (simp add: vtm_socket_write_def)
next
  case False
  then show ?thesis
    using plain_write_loop_sends [OF assms, of 0 src w "sent w" "sock\<lparr>sk_state := vtm_flag_unset (sk_state sock)
        (VTM_SOCK_STAT_WRITE_AGAIN OR VTM_SOCK_STAT_WRITE_AGAIN_WHEN_READABLE)\<rparr>"]
    by (auto simp: vtm_socket_write_def vtm_socket_plain_write_def Let_def)
qed

text \<open>A system that takes up to two bytes at a time.\<close>

definition send_two :: "nat \<Rightarrow> byte list \<Rightarrow> byte list \<Rightarrow> (sock_errno + nat) \<times> byte list" where
  "send_two fd bs w = (Inr (min 2 (length bs)), w @ take 2 bs)"

lemma send_two_takes: "send_takes send_two (\<lambda>w. w)"
  by (simp add: send_takes_def send_two_def min_def Suc_le_eq)

end
