(* ===== verification/SocketWriter.thy ===== *)
theory SocketWriter
  imports Socket "HOL-Library.Sublist"
begin

text \<open>
  The buffered writer of \<open>net/socket_writer.c\<close>. \<open>wr\<close> is \<open>vtm_socket_write\<close> on the socket of the writer; the
  socket and the system are the state \<open>'s\<close>. The first \<open>index\<close> bytes of the array are a list; \<open>None\<close> is a
  copy that ends outside the array, or a write that does not return.
\<close>

type_synonym 's sock_write = "byte list \<Rightarrow> 's \<Rightarrow> ((vtm_rc \<times> nat) \<times> 's) option"

record vtm_socket_writer =
  sw_buf :: "byte list"
  sw_lrc :: vtm_rc

definition VTM_SOCKET_WRITER_LEN :: nat where
  "VTM_SOCKET_WRITER_LEN = 1024"

definition vtm_socket_writer_reset :: "vtm_socket_writer \<Rightarrow> vtm_socket_writer" where
  "vtm_socket_writer_reset sw = sw\<lparr>sw_buf := [], sw_lrc := VTM_OK\<rparr>"

definition vtm_socket_writer_flush :: "'s sock_write \<Rightarrow> vtm_socket_writer \<Rightarrow> 's \<Rightarrow> (vtm_rc \<times> vtm_socket_writer \<times> 's) option" where
  "vtm_socket_writer_flush wr sw s =
     (if sw_lrc sw \<noteq> VTM_OK then Some (sw_lrc sw, sw, s)
      else map_option (\<lambda>((rc, written), s).
             if rc \<noteq> VTM_OK then (rc, sw\<lparr>sw_lrc := rc\<rparr>, s)
             else if written \<noteq> length (sw_buf sw) then (VTM_E_IO_UNKNOWN, sw\<lparr>sw_lrc := VTM_E_IO_UNKNOWN\<rparr>, s)
             else (VTM_OK, sw\<lparr>sw_buf := [], sw_lrc := VTM_OK\<rparr>, s)) (wr (sw_buf sw) s))"

definition vtm_socket_writer_ensure_space ::
    "'s sock_write \<Rightarrow> vtm_socket_writer \<Rightarrow> nat \<Rightarrow> 's \<Rightarrow> (vtm_rc \<times> vtm_socket_writer \<times> 's) option" where
  "vtm_socket_writer_ensure_space wr sw len s =
     (if length (sw_buf sw) + len \<ge> VTM_SOCKET_WRITER_LEN then vtm_socket_writer_flush wr sw s
      else Some (VTM_OK, sw, s))"

definition vtm_socket_writer_putm ::
    "'s sock_write \<Rightarrow> vtm_socket_writer \<Rightarrow> byte list \<Rightarrow> 's \<Rightarrow> (vtm_rc \<times> vtm_socket_writer \<times> 's) option" where
  "vtm_socket_writer_putm wr sw src s =
     (if sw_lrc sw \<noteq> VTM_OK then Some (sw_lrc sw, sw, s)
      else case vtm_socket_writer_ensure_space wr sw (length src) s of
             None \<Rightarrow> None
           | Some (rc, sw, s) \<Rightarrow>
               let sw = sw\<lparr>sw_lrc := rc\<rparr>
               in if rc \<noteq> VTM_OK then Some (rc, sw, s)
                  else if length (sw_buf sw) + length src > VTM_SOCKET_WRITER_LEN then None
                  else Some (VTM_OK, sw\<lparr>sw_buf := sw_buf sw @ src\<rparr>, s))"

definition vtm_socket_writer_puts ::
    "'s sock_write \<Rightarrow> vtm_socket_writer \<Rightarrow> cstr \<Rightarrow> 's \<Rightarrow> (vtm_rc \<times> vtm_socket_writer \<times> 's) option" where
  "vtm_socket_writer_puts wr sw str s = vtm_socket_writer_putm wr sw str s"

definition vtm_socket_writer_putc ::
    "'s sock_write \<Rightarrow> vtm_socket_writer \<Rightarrow> byte \<Rightarrow> 's \<Rightarrow> (vtm_rc \<times> vtm_socket_writer \<times> 's) option" where
  "vtm_socket_writer_putc wr sw c s =
     (if sw_lrc sw \<noteq> VTM_OK then Some (sw_lrc sw, sw, s)
      else case vtm_socket_writer_ensure_space wr sw 1 s of
             None \<Rightarrow> None
           | Some (rc, sw, s) \<Rightarrow>
               let sw = sw\<lparr>sw_lrc := rc\<rparr>
               in if rc \<noteq> VTM_OK then Some (rc, sw, s)
                  else if length (sw_buf sw) + 1 > VTM_SOCKET_WRITER_LEN then None
                  else Some (VTM_OK, sw\<lparr>sw_buf := sw_buf sw @ [c]\<rparr>, s))"

lemma vtm_socket_writer_putc_eq: "vtm_socket_writer_putc wr sw c s = vtm_socket_writer_putm wr sw [c] s"
  by (simp add: vtm_socket_writer_putc_def vtm_socket_writer_putm_def Let_def split: option.split prod.split)

subsection \<open>Writing a stream\<close>

text \<open>
  What the writer relies on: a write returns, the bytes taken are a prefix, and success means all of
  them.
\<close>

definition byte_sink :: "'s sock_write \<Rightarrow> ('s \<Rightarrow> byte list) \<Rightarrow> bool" where
  "byte_sink wr sent \<longleftrightarrow> (\<forall>bs s. \<exists>rc n s'. wr bs s = Some ((rc, n), s') \<and> n \<le> length bs
     \<and> sent s' = sent s @ take n bs \<and> (rc = VTM_OK \<longrightarrow> n = length bs))"

lemma byte_sinkE:
  assumes "byte_sink wr sent"
  obtains rc n s' where "wr bs s = Some ((rc, n), s')" "n \<le> length bs" "sent s' = sent s @ take n bs"
    "rc = VTM_OK \<longrightarrow> n = length bs"
  using assms unfolding byte_sink_def by blast

definition sock_write :: "(nat \<Rightarrow> byte list \<Rightarrow> 'w \<Rightarrow> (sock_errno + nat) \<times> 'w) \<Rightarrow> (vtm_socket \<times> 'w) sock_write" where
  "sock_write send bs s = vtm_socket_write (vtm_socket_plain_write send) bs (fst s) (snd s)"

text \<open>A sequence of writes, and the state it leads to.\<close>

text \<open>What has been handed over without an error: the bytes sent and those in the array.\<close>

definition sw_ok :: "('s \<Rightarrow> byte list) \<Rightarrow> byte list \<Rightarrow> vtm_socket_writer \<Rightarrow> 's \<Rightarrow> bool" where
  "sw_ok sent bs sw s \<longleftrightarrow> length (sw_buf sw) \<le> VTM_SOCKET_WRITER_LEN
     \<and> prefix (sent s) bs \<and> (sw_lrc sw = VTM_OK \<longrightarrow> sent s @ sw_buf sw = bs)"

lemma sw_flush:
  assumes "byte_sink wr sent" and "sw_ok sent bs sw s"
  obtains rc sw' s' where "vtm_socket_writer_flush wr sw s = Some (rc, sw', s')" "sw_ok sent bs sw' s'"
    "sw_lrc sw' = rc" "rc = VTM_OK \<longrightarrow> sent s' = bs \<and> sw_buf sw' = []"
proof (cases "sw_lrc sw = VTM_OK")
  case True
  obtain rc n s' where w: "wr (sw_buf sw) s = Some ((rc, n), s')" "n \<le> length (sw_buf sw)"
    "sent s' = sent s @ take n (sw_buf sw)" "rc = VTM_OK \<longrightarrow> n = length (sw_buf sw)"
    by (rule byte_sinkE [OF assms(1)])
  have bs: "bs = sent s @ sw_buf sw" using True assms(2) by (simp add: sw_ok_def)
  then have "prefix (sent s') bs" using w(3) by (simp add: take_is_prefix)
  then show thesis using w True assms(2) bs that [of rc "if rc = VTM_OK then sw\<lparr>sw_buf := [], sw_lrc := VTM_OK\<rparr> else sw\<lparr>sw_lrc := rc\<rparr>" s']
    by (simp add: vtm_socket_writer_flush_def sw_ok_def split: if_splits)
qed (use assms(2) that in \<open>auto simp: vtm_socket_writer_flush_def\<close>)

lemma sw_putm:
  assumes sink: "byte_sink wr sent" and ok: "sw_ok sent bs sw s" and len: "length src \<le> VTM_SOCKET_WRITER_LEN"
  obtains rc sw' s' where "vtm_socket_writer_putm wr sw src s = Some (rc, sw', s')" "sw_ok sent (bs @ src) sw' s'"
proof (cases "sw_lrc sw = VTM_OK")
  case True
  obtain rc sw' s' where r: "vtm_socket_writer_ensure_space wr sw (length src) s = Some (rc, sw', s')" "sw_ok sent bs sw' s'"
    "sw_lrc sw' = rc" "rc = VTM_OK \<longrightarrow> length (sw_buf sw') + length src \<le> VTM_SOCKET_WRITER_LEN"
  proof (cases "length (sw_buf sw) + length src \<ge> VTM_SOCKET_WRITER_LEN")
    case True
    show thesis
      by (rule sw_flush [OF sink ok]) (rule that, use True len in \<open>auto simp: vtm_socket_writer_ensure_space_def\<close>)
  qed (use ok True that [of VTM_OK sw s] in \<open>simp add: vtm_socket_writer_ensure_space_def\<close>)
  then show thesis
    using True that [of rc "if rc = VTM_OK then sw'\<lparr>sw_lrc := rc, sw_buf := sw_buf sw' @ src\<rparr> else sw'\<lparr>sw_lrc := rc\<rparr>" s']
    by (auto simp: vtm_socket_writer_putm_def sw_ok_def prefix_prefix Let_def split: if_splits)
qed (use ok that in \<open>auto simp: vtm_socket_writer_putm_def sw_ok_def prefix_prefix\<close>)

text \<open>Any number of pieces.\<close>

fun sw_put_all :: "'s sock_write \<Rightarrow> byte list list \<Rightarrow> vtm_socket_writer \<Rightarrow> 's \<Rightarrow> (vtm_socket_writer \<times> 's) option" where
  "sw_put_all wr [] sw s = Some (sw, s)"
| "sw_put_all wr (p # ps) sw s =
     (case vtm_socket_writer_putm wr sw p s of None \<Rightarrow> None | Some (_, sw, s) \<Rightarrow> sw_put_all wr ps sw s)"

lemma sw_put_all_ok:
  assumes sink: "byte_sink wr sent" and "sw_ok sent bs sw s" and "list_all (\<lambda>p. length p \<le> VTM_SOCKET_WRITER_LEN) ps"
  obtains sw' s' where "sw_put_all wr ps sw s = Some (sw', s')" "sw_ok sent (bs @ concat ps) sw' s'"
  using assms(2, 3)
proof (induction ps arbitrary: bs sw s thesis)
  case (Cons p ps)
  obtain rc sw1 s1 where p: "vtm_socket_writer_putm wr sw p s = Some (rc, sw1, s1)" "sw_ok sent (bs @ p) sw1 s1"
    by (rule sw_putm [OF sink Cons.prems(2), of p]) (use Cons.prems(3) in simp)
  obtain sw' s' where "sw_put_all wr ps sw1 s1 = Some (sw', s')" "sw_ok sent ((bs @ p) @ concat ps) sw' s'"
    by (rule Cons.IH [OF _ p(2)]) (use Cons.prems(3) in simp_all)
  then show ?case using p(1) Cons.prems(1) by simp
qed simp

lemma sw_reset_ok: "sw_ok sent (sent s) (vtm_socket_writer_reset sw) s"
  by (simp add: sw_ok_def vtm_socket_writer_reset_def)

lemma sock_write_sink: "send_takes send sent \<Longrightarrow> byte_sink (sock_write send) (\<lambda>s. sent (snd s))"
  unfolding byte_sink_def sock_write_def
proof (intro allI)
  fix bs and s :: "vtm_socket \<times> 'a"
  assume "send_takes send sent"
  from socket_write_law [OF this, of bs "fst s" "snd s"]
  show "\<exists>rc n s'. vtm_socket_write (vtm_socket_plain_write send) bs (fst s) (snd s) = Some ((rc, n), s')
    \<and> n \<le> length bs \<and> sent (snd s') = sent (snd s) @ take n bs \<and> (rc = VTM_OK \<longrightarrow> n = length bs)" by force
qed

text \<open>
  A sink that takes everything it is offered while \<open>P\<close> holds: a writer over it that has no error yet
  stays without one.
\<close>

definition sink_takes_all :: "'s sock_write \<Rightarrow> ('s \<Rightarrow> bool) \<Rightarrow> bool" where
  "sink_takes_all wr P \<longleftrightarrow> (\<forall>bs s. P s \<longrightarrow> (\<exists>s'. wr bs s = Some ((VTM_OK, length bs), s') \<and> P s'))"

lemma sink_takes_allE:
  assumes "sink_takes_all wr P" and "P s"
  obtains s' where "wr bs s = Some ((VTM_OK, length bs), s')" "P s'"
  using assms unfolding sink_takes_all_def by blast

lemma sw_flush_takes_all:
  assumes "sink_takes_all wr P" and "P s" and "sw_lrc sw = VTM_OK"
    and "vtm_socket_writer_flush wr sw s = Some (rc, sw', s')"
  shows "rc = VTM_OK \<and> sw_lrc sw' = VTM_OK \<and> P s'"
  by (rule sink_takes_allE [OF assms(1, 2), of "sw_buf sw"])
    (use assms(3, 4) in \<open>auto simp: vtm_socket_writer_flush_def\<close>)

lemma sw_putm_takes_all:
  assumes "sink_takes_all wr P" and "P s" and "sw_lrc sw = VTM_OK"
    and put: "vtm_socket_writer_putm wr sw src s = Some (rc, sw', s')"
  shows "sw_lrc sw' = VTM_OK \<and> P s'"
proof (cases "length (sw_buf sw) + length src \<ge> VTM_SOCKET_WRITER_LEN")
  case True
  obtain rc1 sw1 s1 where f: "vtm_socket_writer_flush wr sw s = Some (rc1, sw1, s1)"
    using put True assms(3) by (auto simp: vtm_socket_writer_putm_def vtm_socket_writer_ensure_space_def split: option.splits)
  then have "rc1 = VTM_OK \<and> sw_lrc sw1 = VTM_OK \<and> P s1" by (rule sw_flush_takes_all [OF assms(1-3)])
  then show ?thesis using put True assms(3) f
    by (auto simp: vtm_socket_writer_putm_def vtm_socket_writer_ensure_space_def Let_def split: if_splits)
qed (use put assms(2, 3) in \<open>auto simp: vtm_socket_writer_putm_def vtm_socket_writer_ensure_space_def Let_def split: if_splits\<close>)

lemma sw_put_all_takes_all:
  assumes "sink_takes_all wr P" and "P s" and "sw_lrc sw = VTM_OK" and "sw_put_all wr ps sw s = Some (sw', s')"
  shows "sw_lrc sw' = VTM_OK \<and> P s'"
  using assms(2-4)
proof (induction ps arbitrary: sw s)
  case (Cons p ps)
  then obtain rc1 sw1 s1 where p: "vtm_socket_writer_putm wr sw p s = Some (rc1, sw1, s1)"
    "sw_put_all wr ps sw1 s1 = Some (sw', s')" by (auto split: option.splits)
  then have "sw_lrc sw1 = VTM_OK \<and> P s1" using sw_putm_takes_all [OF assms(1) Cons.prems(1, 2)] by blast
  then show ?case using Cons.IH p(2) by blast
qed simp

text \<open>An open plain socket is such a sink as long as \<open>send\<close> reports no error.\<close>

definition send_works :: "(nat \<Rightarrow> byte list \<Rightarrow> 'w \<Rightarrow> (sock_errno + nat) \<times> 'w) \<Rightarrow> bool" where
  "send_works send \<longleftrightarrow> (\<forall>fd bs w. bs \<noteq> [] \<longrightarrow> (\<exists>n w'. send fd bs w = (Inr n, w')))"

lemma plain_write_loop_works:
  assumes "send_takes send sent" and "send_works send" and "written \<le> length src"
  shows "\<exists>w'. plain_write_loop send src written sock w = Some ((VTM_OK, length src), sock, w')"
  using assms(3)
proof (induction "length src - written" arbitrary: written w rule: less_induct)
  case less
  show ?case
  proof (cases "written = length src")
    case False
    then have ne: "drop written src \<noteq> []" using less.prems by simp
    then obtain n w' where s: "send (sk_fd sock) (drop written src) w = (Inr n, w')"
      using assms(2) unfolding send_works_def by blast
    have "0 < n \<and> n \<le> length (drop written src)"
      using assms(1) [unfolded send_takes_def, THEN spec, of "sk_fd sock", THEN spec, of "drop written src", THEN spec, of w, THEN mp, OF ne] s
      by simp
    then have "length src - (written + n) < length src - written" "written + n \<le> length src"
      using ne less.prems by auto
    then show ?thesis using less.hyps [of "written + n" w'] s False
      by (subst plain_write_loop.simps) simp
  qed (subst plain_write_loop.simps, simp)
qed

lemma write_keeps_open:
  "VTM_SOCKET_IS_CLOSED (sock_write_hints (sock\<lparr>sk_state := vtm_flag_unset (sk_state sock)
     (VTM_SOCK_STAT_WRITE_AGAIN OR VTM_SOCK_STAT_WRITE_AGAIN_WHEN_READABLE)\<rparr>)) = VTM_SOCKET_IS_CLOSED sock"
  unfolding VTM_SOCKET_IS_CLOSED_def sock_write_hints_def sock_nbl_def vtm_flag_is_set_def vtm_flag_unset_def
  by (simp add: sock_stat_defs bit.conj_disj_distrib bit.conj_disj_distrib2 and.assoc)

lemma sock_write_takes_all:
  assumes "send_takes send sent" and "send_works send"
  shows "sink_takes_all (sock_write send) (\<lambda>s. \<not> VTM_SOCKET_IS_CLOSED (fst s))"
  unfolding sink_takes_all_def
proof (intro allI impI)
  fix bs and s :: "vtm_socket \<times> 'a"
  assume "\<not> VTM_SOCKET_IS_CLOSED (fst s)"
  then show "\<exists>s'. sock_write send bs s = Some ((VTM_OK, length bs), s') \<and> \<not> VTM_SOCKET_IS_CLOSED (fst s')"
    using plain_write_loop_works [OF assms le0, of bs "(fst s)\<lparr>sk_state := vtm_flag_unset (sk_state (fst s))
        (VTM_SOCK_STAT_WRITE_AGAIN OR VTM_SOCK_STAT_WRITE_AGAIN_WHEN_READABLE)\<rparr>" "snd s"] write_keeps_open [of "fst s"]
    by (auto simp: sock_write_def vtm_socket_write_def vtm_socket_plain_write_def Let_def)
qed

lemma sw_stream:
  assumes "send_takes send sent" and "list_all (\<lambda>p. length p \<le> 1024) ps"
  shows "\<exists>sw1 s1 rc sw2 s2. sw_put_all (sock_write send) ps (vtm_socket_writer_reset sw) (sock, w) = Some (sw1, s1)
    \<and> vtm_socket_writer_flush (sock_write send) sw1 s1 = Some (rc, sw2, s2)
    \<and> prefix (sent (snd s2)) (sent w @ concat ps) \<and> (rc = VTM_OK \<longrightarrow> sent (snd s2) = sent w @ concat ps)
    \<and> (\<not> VTM_SOCKET_IS_CLOSED sock \<and> send_works send \<longrightarrow> rc = VTM_OK)"
proof -
  note sink = sock_write_sink [OF assms(1)]
  have ps: "list_all (\<lambda>p. length p \<le> VTM_SOCKET_WRITER_LEN) ps" using assms(2) by (simp add: VTM_SOCKET_WRITER_LEN_def)
  obtain sw1 s1 where 1: "sw_put_all (sock_write send) ps (vtm_socket_writer_reset sw) (sock, w) = Some (sw1, s1)"
    "sw_ok (\<lambda>s. sent (snd s)) (sent w @ concat ps) sw1 s1"
    by (rule sw_put_all_ok [OF sink sw_reset_ok ps, of sw "(sock, w)"]) simp
  obtain rc sw2 s2 where 2: "vtm_socket_writer_flush (sock_write send) sw1 s1 = Some (rc, sw2, s2)"
    "sw_ok (\<lambda>s. sent (snd s)) (sent w @ concat ps) sw2 s2" "sw_lrc sw2 = rc"
    "rc = VTM_OK \<longrightarrow> sent (snd s2) = sent w @ concat ps \<and> sw_buf sw2 = []"
    by (rule sw_flush [OF sink 1(2)])
  have "rc = VTM_OK" if "\<not> VTM_SOCKET_IS_CLOSED sock" "send_works send"
  proof -
    note all = sock_write_takes_all [OF assms(1) that(2)]
    have "sw_lrc sw1 = VTM_OK \<and> \<not> VTM_SOCKET_IS_CLOSED (fst s1)"
      by (rule sw_put_all_takes_all [OF all _ _ 1(1)]) (simp_all add: that vtm_socket_writer_reset_def)
    then show ?thesis using sw_flush_takes_all [OF all _ _ 2(1)] by blast
  qed
  then show ?thesis using 1(1) 2 unfolding sw_ok_def by (intro exI conjI) auto
qed

text \<open>
  C30. Pieces of at most 1024 bytes that are put into a writer over a plain socket and then flushed
  arrive as one stream: the writer never copies outside its array, it returns, and when it reports
  success the system has taken exactly the bytes of the pieces, in their order; in any case it has
  taken a prefix of them. It does report success when the socket is open and \<open>send\<close> reports no error.
\<close>

theorem socket_writer_stream:
  assumes "send_takes send sent" and "list_all (\<lambda>p. length p \<le> 1024) ps"
  shows "\<exists>sw1 s1 rc sw2 s2. sw_put_all (sock_write send) ps (vtm_socket_writer_reset sw) (sock, w) = Some (sw1, s1)
    \<and> vtm_socket_writer_flush (sock_write send) sw1 s1 = Some (rc, sw2, s2)
    \<and> prefix (sent (snd s2)) (sent w @ concat ps) \<and> (rc = VTM_OK \<longrightarrow> sent (snd s2) = sent w @ concat ps)
    \<and> (\<not> VTM_SOCKET_IS_CLOSED sock \<and> send_works send \<longrightarrow> rc = VTM_OK)"
  by (rule sw_stream [OF assms])

text \<open>An open socket, and a system that takes two bytes at a time: all the pieces have been sent.\<close>

definition sample_socket :: vtm_socket where
  "sample_socket = \<lparr>sk_fd = 3, sk_family = VTM_SOCK_FAM_IN4, sk_type = 1, sk_mtx = False, sk_state = 0,
     sk_refcount = 0, sk_usr_data = 0, sk_stream_srv = False\<rparr>"

lemma sample_socket_open [simp]: "\<not> VTM_SOCKET_IS_CLOSED sample_socket"
  by (simp add: sample_socket_def VTM_SOCKET_IS_CLOSED_def vtm_flag_is_set_def sock_stat_defs)

lemma send_two_works [simp]: "send_works send_two"
  by (simp add: send_works_def send_two_def)

theorem socket_writer_stream_witness:
  "\<exists>sw1 s1 sw2 s2. sw_put_all (sock_write send_two) [[1, 2, 3], replicate 1022 7, [4]]
      \<lparr>sw_buf = [], sw_lrc = VTM_OK\<rparr> (sample_socket, [9]) = Some (sw1, s1)
    \<and> vtm_socket_writer_flush (sock_write send_two) sw1 s1 = Some (VTM_OK, sw2, s2)
    \<and> snd s2 = [9, 1, 2, 3] @ replicate 1022 7 @ [4]"
  using socket_writer_stream [OF send_two_takes, of "[[1, 2, 3], replicate 1022 7, [4]]" "\<lparr>sw_buf = [], sw_lrc = VTM_OK\<rparr>" sample_socket "[9]"]
  by (auto simp: vtm_socket_writer_reset_def)

text \<open>
  A piece of more than 1024 bytes is copied outside the array of the writer: the room is made by
  sending what is in the array, whatever the length of the piece is.
\<close>

theorem socket_writer_overflow:
  assumes "\<not> VTM_SOCKET_IS_CLOSED sock" and "1024 < length src"
  shows "vtm_socket_writer_putm (sock_write send) (vtm_socket_writer_reset sw) src (sock, w) = None"
  using assms plain_write_loop.simps [of send "[]" 0]
  by (simp add: vtm_socket_writer_putm_def vtm_socket_writer_reset_def vtm_socket_writer_ensure_space_def
      vtm_socket_writer_flush_def sock_write_def vtm_socket_write_def vtm_socket_plain_write_def
      VTM_SOCKET_WRITER_LEN_def Let_def)

theorem socket_writer_overflow_witness:
  "vtm_socket_writer_putm (sock_write send_two) (vtm_socket_writer_reset undefined) (replicate 1025 0)
     (sample_socket, []) = None"
  by (rule socket_writer_overflow) simp_all

text \<open>A socket that takes two bytes at a time.\<close>

definition write_two :: "byte list sock_write" where
  "write_two bs s = Some (if length bs \<le> 2 then ((VTM_OK, length bs), s @ bs) else ((VTM_E_IO_AGAIN, 2), s @ take 2 bs))"

lemma write_two_sink: "byte_sink write_two (\<lambda>s. s)"
  by (auto simp: byte_sink_def write_two_def split: if_splits)

end
