(* ===== verification/Url.thy ===== *)
theory Url
  imports Elem
begin

text \<open>
  URLs, \<open>net/url.c\<close>: splitting a URL into its parts, and the percent encoding. A null pointer is \<open>None\<close>;
  an output buffer is the list of the bytes written to it, without the final NUL.
\<close>

datatype vtm_url_scheme = VTM_URL_SCHEME_HTTPS | VTM_URL_SCHEME_HTTP

definition VTM_URL_SCHEMES :: "(cstr \<times> vtm_url_scheme) list" where
  "VTM_URL_SCHEMES = [(bytes_of ''https'', VTM_URL_SCHEME_HTTPS), (bytes_of ''http'', VTM_URL_SCHEME_HTTP)]"

record vtm_url_rec =
  url_scheme :: vtm_url_scheme
  url_host :: "cstr option"
  url_path :: "cstr option"
  url_port :: u32

text \<open>The scan for the first slash and a colon before it, with the position in the string.\<close>

fun url_scan :: "cstr \<Rightarrow> nat \<Rightarrow> nat option \<Rightarrow> nat option \<Rightarrow> nat option \<times> nat option" where
  "url_scan [] i first_colon first_slash = (first_colon, first_slash)"
| "url_scan (c # cs) i first_colon first_slash =
     (if c = 0 then (first_colon, first_slash)
      else if c = byte_of CHR '':'' \<and> first_colon = None \<and> first_slash = None then url_scan cs (i + 1) (Some i) first_slash
      else if c = byte_of CHR ''/'' \<and> first_slash = None then url_scan cs (i + 1) first_colon (Some i)
      else url_scan cs (i + 1) first_colon first_slash)"

text \<open>The digits behind the colon: the code and the port, which has been changed when an overflow is noticed.\<close>

fun url_port_loop :: "cstr \<Rightarrow> u32 \<Rightarrow> vtm_rc \<times> u32" where
  "url_port_loop [] port = (VTM_OK, port)"
| "url_port_loop (c # cs) port =
     (if c_isdigit c
      then let new = port * 10 + ucast c - 48
           in if new < port then (VTM_E_INVALID_ARG, new) else url_port_loop cs new
      else (VTM_OK, port))"

definition vtm_url_parse_port :: "cstr option \<Rightarrow> vtm_url_rec \<Rightarrow> vtm_rc \<times> vtm_url_rec" where
  "vtm_url_parse_port colon url =
     (case colon of
        Some digits \<Rightarrow> let (rc, port) = url_port_loop digits (url_port url) in (rc, url\<lparr>url_port := port\<rparr>)
      | None \<Rightarrow> (VTM_OK, url\<lparr>url_port := (case url_scheme url of
                    VTM_URL_SCHEME_HTTP \<Rightarrow> 80 | VTM_URL_SCHEME_HTTPS \<Rightarrow> 443)\<rparr>))"

definition url_split :: "cstr \<Rightarrow> vtm_url_rec \<Rightarrow> vtm_rc \<times> vtm_url_rec" where
  "url_split host_begin url =
     (let (first_colon, first_slash) = url_scan host_begin 0 None None;
          (rc, url) = vtm_url_parse_port (map_option (\<lambda>i. drop (i + 1) host_begin) first_colon) url
      in if rc \<noteq> VTM_OK then (rc, url)
         else
           let url = url\<lparr>url_host :=
                 (case (first_colon, first_slash) of
                    (None, None) \<Rightarrow> Some (vtm_str_copy host_begin)
                  | (Some i, _) \<Rightarrow> vtm_str_ncopy host_begin (of_nat i)
                  | (None, Some i) \<Rightarrow> vtm_str_ncopy host_begin (of_nat i))\<rparr>
           in (VTM_OK, url\<lparr>url_path := map_option (\<lambda>i. vtm_str_copy (drop i host_begin)) first_slash\<rparr>))"

definition vtm_url_parse :: "cstr \<Rightarrow> vtm_rc \<times> vtm_url_rec" where
  "vtm_url_parse str =
     (let url = \<lparr>url_scheme = VTM_URL_SCHEME_HTTPS, url_host = None, url_path = None, url_port = 0\<rparr>
      in case find (\<lambda>s. vtm_str_starts_with str (fst s)) VTM_URL_SCHEMES of
           None \<Rightarrow> (VTM_E_NOT_SUPPORTED, url)
         | Some (name, scheme) \<Rightarrow>
             let url = url\<lparr>url_scheme := scheme\<rparr>; cur = drop (length name) str
             in if c_hd cur \<noteq> byte_of CHR '':'' then (VTM_E_INVALID_ARG, url)
                else if c_hd (drop 1 cur) \<noteq> byte_of CHR ''/'' then (VTM_E_NOT_SUPPORTED, url)
                else if c_hd (drop 2 cur) \<noteq> byte_of CHR ''/'' then (VTM_E_NOT_SUPPORTED, url)
                else url_split (drop 3 cur) url)"

subsection \<open>Percent encoding\<close>

definition url_plain :: "byte \<Rightarrow> bool" where
  "url_plain c \<longleftrightarrow> 65 \<le> c \<and> c \<le> 90 \<or> 97 \<le> c \<and> c \<le> 122 \<or> 48 \<le> c \<and> c \<le> 57
     \<or> c = byte_of CHR ''.'' \<or> c = byte_of CHR ''-'' \<or> c = byte_of CHR ''_'' \<or> c = byte_of CHR ''~''"

fun url_encode_loop :: "cstr \<Rightarrow> byte list \<Rightarrow> nat \<Rightarrow> vtm_rc \<times> byte list" where
  "url_encode_loop [] out len = (if length out \<ge> len then (VTM_E_MAX_REACHED, out) else (VTM_OK, out))"
| "url_encode_loop (c # s) out len =
     (if url_plain c
      then if length out \<ge> len then (VTM_E_MAX_REACHED, out) else url_encode_loop s (out @ [c]) len
      else if length out + 2 \<ge> len then (VTM_E_MAX_REACHED, out)
      else url_encode_loop s (out @ [byte_of CHR ''%'', VTM_HEX_CHARS ! unat (drop_bit 4 c), VTM_HEX_CHARS ! unat (c AND 0xf)]) len)"

definition vtm_url_encode :: "cstr \<Rightarrow> nat \<Rightarrow> vtm_rc \<times> byte list" where
  "vtm_url_encode s len = url_encode_loop s [] len"

definition vtm_get_hexchar_value :: "byte \<Rightarrow> byte option" where
  "vtm_get_hexchar_value hex =
     (if 48 \<le> hex \<and> hex \<le> 57 then Some (hex - 48)
      else if 65 \<le> hex \<and> hex \<le> 70 then Some (10 + hex - 65)
      else if 97 \<le> hex \<and> hex \<le> 102 then Some (10 + hex - 97)
      else None)"

fun url_decode_loop :: "cstr \<Rightarrow> byte list \<Rightarrow> nat \<Rightarrow> vtm_rc \<times> byte list" where
  "url_decode_loop [] out len = (if length out \<ge> len then (VTM_E_MAX_REACHED, out) else (VTM_OK, out))"
| "url_decode_loop (c # s) out len =
     (if length out \<ge> len then (VTM_E_MAX_REACHED, out)
      else if c \<noteq> byte_of CHR ''%'' then url_decode_loop s (out @ [c]) len
      else case s of
             h # l # s' \<Rightarrow>
               (case (vtm_get_hexchar_value h, vtm_get_hexchar_value l) of
                  (Some c, Some t) \<Rightarrow> url_decode_loop s' (out @ [push_bit 4 c + t]) len
                | _ \<Rightarrow> (VTM_E_INVALID_ARG, out))
           | _ \<Rightarrow> (VTM_E_INVALID_ARG, out))"

definition vtm_url_decode :: "cstr \<Rightarrow> nat \<Rightarrow> vtm_rc \<times> byte list" where
  "vtm_url_decode s len = url_decode_loop s [] len"

subsection \<open>Decoding what was encoded\<close>

lemma url_nibbles:
  "unat (drop_bit 4 c :: byte) = unat c div 16" "unat (c AND 0xf :: byte) = unat c mod 16" "unat (c :: byte) div 16 < 16"
  "push_bit 4 (drop_bit 4 c) + (c AND 0xf) = c"
proof -
  have low: "c AND 0xf = take_bit 4 c" by (simp add: take_bit_eq_mask mask_eq_exp_minus_1)
  show "unat (drop_bit 4 c :: byte) = unat c div 16" by (simp add: drop_bit_eq_div unat_div)
  show "unat (c AND 0xf) = unat c mod 16" unfolding low by (simp add: take_bit_eq_mod unat_mod)
  show "unat c div 16 < 16" using unat_less_2p [of c] by (simp add: less_mult_imp_div_less)
  show "push_bit 4 (drop_bit 4 c) + (c AND 0xf) = c" unfolding low by (rule bits_ident)
qed

text \<open>The encoding of one byte.\<close>

definition url_enc1 :: "byte \<Rightarrow> byte list" where
  "url_enc1 c = (if url_plain c then [c] else [byte_of CHR ''%'', VTM_HEX_CHARS ! unat (drop_bit 4 c), VTM_HEX_CHARS ! unat (c AND 0xf)])"

lemma url_encode_loop_ok:
  "length out + length (concat (map url_enc1 s)) < len \<Longrightarrow> url_encode_loop s out len = (VTM_OK, out @ concat (map url_enc1 s))"
  by (induction s arbitrary: out) (auto simp: url_enc1_def split: if_splits)

lemma url_encode_loop_max:
  "len \<le> length out + length (concat (map url_enc1 s)) \<Longrightarrow> fst (url_encode_loop s out len) = VTM_E_MAX_REACHED"
  by (induction s arbitrary: out) (auto simp: url_enc1_def split: if_splits)

lemma hex_digit_value:
  assumes "n < 16"
  shows "vtm_get_hexchar_value (VTM_HEX_CHARS ! n) = Some (of_nat n)"
proof -
  have "\<forall>n\<in>set [0..<16]. vtm_get_hexchar_value (VTM_HEX_CHARS ! n) = Some (of_nat n)" by code_simp
  then show ?thesis using assms by simp
qed

lemma hex_digit_word: "unat d < 16 \<Longrightarrow> vtm_get_hexchar_value (VTM_HEX_CHARS ! unat d) = Some d"
  using hex_digit_value [of "unat d"] by simp

lemma url_enc1_decode:
  assumes "c \<noteq> 0" and "length out < len"
  shows "url_decode_loop (url_enc1 c @ s) out len = url_decode_loop s (out @ [c]) len"
proof (cases "url_plain c")
  case True
  then have "c \<noteq> byte_of CHR ''%''" by (auto simp: url_plain_def byte_of_def)
  then show ?thesis using True assms(2) by (simp add: url_enc1_def)
next
  case False
  have "vtm_get_hexchar_value (VTM_HEX_CHARS ! unat (drop_bit 4 c)) = Some (drop_bit 4 c)"
    "vtm_get_hexchar_value (VTM_HEX_CHARS ! unat (c AND 0xf)) = Some (c AND 0xf)"
    by (rule hex_digit_word, simp only: url_nibbles)+
  then show ?thesis using False assms(2) url_nibbles(4) [of c] by (simp add: url_enc1_def)
qed

lemma url_decode_encoded:
  assumes "no_nul s" and "length out + length s < len"
  shows "url_decode_loop (concat (map url_enc1 s)) out len = (VTM_OK, out @ s)"
  using assms by (induction s arbitrary: out) (simp_all add: url_enc1_decode no_nul_def)

lemma hex_char_not_nul: "n < 16 \<Longrightarrow> VTM_HEX_CHARS ! n \<noteq> 0"
  using hex_digit_value [of n] by (auto simp: vtm_get_hexchar_value_def)

lemma url_enc1_no_nul: "c \<noteq> 0 \<Longrightarrow> 0 \<notin> set (url_enc1 c)"
  using hex_char_not_nul [of "unat c div 16"] hex_char_not_nul [of "unat c mod 16"] url_nibbles [of c]
  by (auto simp: url_enc1_def byte_of_def)

text \<open>
  C29. Decoding what was encoded gives the string back. Encoding succeeds exactly when the buffer has
  room for the encoded string, at most three bytes for each byte, and its NUL; the decoder needs room
  for the string and its NUL.
\<close>

theorem url_roundtrip:
  assumes "no_nul s" and "vtm_url_encode s n = (rc, e)"
  shows "if length (concat (map url_enc1 s)) < n
    then rc = VTM_OK \<and> no_nul e \<and> length e \<le> 3 * length s \<and> (\<forall>m > length s. vtm_url_decode e m = (VTM_OK, s))
    else rc = VTM_E_MAX_REACHED"
proof -
  have "length (url_enc1 c) \<le> 3" for c by (simp add: url_enc1_def)
  then have "length (concat (map url_enc1 s)) \<le> 3 * length s" by (induction s) (simp_all add: add_mono)
  moreover have "no_nul (concat (map url_enc1 s))" using assms(1) url_enc1_no_nul unfolding no_nul_def by (induction s) auto
  ultimately show ?thesis
    using url_encode_loop_ok [of "[]" s n] url_encode_loop_max [of n "[]" s] assms(2) url_decode_encoded [OF assms(1), of "[]"]
    by (cases "length (concat (map url_enc1 s)) < n") (auto simp: vtm_url_encode_def vtm_url_decode_def)
qed

theorem url_roundtrip_witness:
  "fst (vtm_url_encode (bytes_of ''a b'') 20) = VTM_OK
   \<and> vtm_url_decode (snd (vtm_url_encode (bytes_of ''a b'') 20)) 4 = (VTM_OK, bytes_of ''a b'')"
proof -
  have "no_nul (bytes_of ''a b'')" "length (concat (map url_enc1 (bytes_of ''a b''))) < 20"
    by (simp_all add: bytes_of_def url_enc1_def no_nul_def)
  then show ?thesis
    using url_roundtrip [of "bytes_of ''a b''" 20 "fst (vtm_url_encode (bytes_of ''a b'') 20)" "snd (vtm_url_encode (bytes_of ''a b'') 20)"]
    by (simp add: bytes_of_def)
qed

subsection \<open>The parts of a URL\<close>

lemma url_scan_slash: "url_scan s i first_colon (Some k) = (first_colon, Some k)"
  by (induction s arbitrary: i) auto

lemma url_scan_skip:
  "set s \<inter> {0, 47, 58} = {} \<Longrightarrow> url_scan (s @ rest) i None None = url_scan rest (i + length s) None None"
  "set s \<inter> {0, 47} = {} \<Longrightarrow> url_scan (s @ rest) i (Some j) None = url_scan rest (i + length s) (Some j) None"
  by (induction s arbitrary: i) (auto simp: byte_of_def)

lemma url_scan_path:
  "path = [] \<or> (\<exists>p. path = 47 # p) \<Longrightarrow> url_scan path i first_colon None = (first_colon, if path = [] then None else Some i)"
  by (auto simp: byte_of_def url_scan_slash)

lemma url_port_digits:
  assumes "n < 2 ^ 32"
  shows "url_port_loop (nat_dec n @ rest) 0 = url_port_loop rest (of_nat n)"
  using assms
proof (induction n arbitrary: rest rule: nat_dec.induct)
  case (1 n)
  have digit: "url_port_loop ((48 + of_nat (n mod 10)) # rest) (of_nat (n div 10)) = url_port_loop rest (of_nat n)"
  proof -
    have d: "unat (48 + of_nat (n mod 10) :: byte) = 48 + n mod 10" by (rule unat_dec_digit) simp
    have "(of_nat (n div 10) * 10 + ucast (48 + of_nat (n mod 10) :: byte) - 48 :: u32) = of_nat n"
    proof -
      have "ucast (48 + of_nat (n mod 10) :: byte) = (of_nat (48 + n mod 10) :: u32)" unfolding d [symmetric] of_nat_unat ..
      then have "(of_nat (n div 10) * 10 + ucast (48 + of_nat (n mod 10) :: byte) - 48 :: u32) = of_nat (n div 10 * 10 + n mod 10)"
        by (simp only: of_nat_add of_nat_mult) simp
      then show ?thesis by (simp only: div_mult_mod_eq)
    qed
    moreover have "\<not> (of_nat n :: u32) < of_nat (n div 10)" using "1.prems" by (simp add: word_less_nat_alt del: of_nat_div)
    moreover have "c_isdigit (48 + of_nat (n mod 10))" using d by (simp add: c_isdigit_iff)
    ultimately show ?thesis by (simp del: of_nat_div of_nat_mod)
  qed
  show ?case
  proof (cases "n < 10")
    case True
    then show ?thesis using digit by (simp add: nat_dec.simps [of n])
  next
    case False
    then show ?thesis using "1.IH" [of "(48 + of_nat (n mod 10)) # rest"] "1.prems" digit by (simp add: nat_dec.simps [of n])
  qed
qed


text \<open>The digits of a port end at the path.\<close>

lemma url_port_end: "path = [] \<or> (\<exists>p. path = 47 # p) \<Longrightarrow> url_port_loop path n = (VTM_OK, n)"
  by (auto simp: c_isdigit_def)

definition url_text :: "vtm_url_scheme \<Rightarrow> cstr \<Rightarrow> nat option \<Rightarrow> cstr \<Rightarrow> cstr" where
  "url_text scheme host port path =
     (case scheme of VTM_URL_SCHEME_HTTPS \<Rightarrow> bytes_of ''https'' | VTM_URL_SCHEME_HTTP \<Rightarrow> bytes_of ''http'')
     @ bytes_of ''://'' @ host @ (case port of None \<Rightarrow> [] | Some p \<Rightarrow> 58 # nat_dec p) @ path"

lemma nat_dec_no_sep: "set (nat_dec n) \<inter> {0, 47} = {}"
  using nat_dec_digits [of n] by (auto simp: list_all_iff c_isdigit_def)

lemma url_split_parts:
  assumes host: "set host \<inter> {0, 47, 58} = {}" "length host < 2 ^ 64" and path: "path = [] \<or> (\<exists>p. path = 47 # p)"
    and port: "case port of None \<Rightarrow> True | Some p \<Rightarrow> p < 2 ^ 32" "url_port url = 0"
  shows "url_split (host @ (case port of None \<Rightarrow> [] | Some p \<Rightarrow> 58 # nat_dec p) @ path) url =
    (VTM_OK, url\<lparr>url_host := Some host, url_path := (if path = [] then None else Some path),
       url_port := (case port of None \<Rightarrow> (case url_scheme url of VTM_URL_SCHEME_HTTP \<Rightarrow> 80 | VTM_URL_SCHEME_HTTPS \<Rightarrow> 443)
                    | Some p \<Rightarrow> of_nat p)\<rparr>)"
proof (cases port)
  case None
  have "url_scan (host @ path) 0 None None = (None, if path = [] then None else Some (length host))"
    using host(1) path by (simp add: url_scan_skip url_scan_path)
  then show ?thesis using None host(2)
    by (simp add: url_split_def vtm_url_parse_port_def vtm_str_copy_def vtm_str_ncopy_def)
next
  case (Some p)
  have "url_scan (host @ 58 # nat_dec p @ path) 0 None None =
      (Some (length host), if path = [] then None else Some (length host + 1 + length (nat_dec p)))"
    using host(1) path nat_dec_no_sep [of p] by (simp add: url_scan_skip url_scan_path byte_of_def)
  moreover have "url_port_loop (nat_dec p @ path) 0 = (VTM_OK, of_nat p)"
    using port(1) path Some by (simp add: url_port_digits url_port_end)
  ultimately show ?thesis using Some host(2) port(2)
    by (simp add: url_split_def vtm_url_parse_port_def vtm_str_copy_def vtm_str_ncopy_def)
qed

text \<open>
  A URL made of a scheme, a host, an optional port and an optional path is split into these
  parts: a missing port becomes the default of the scheme and a missing path a null pointer.
\<close>

theorem url_parse_parts:
  assumes "set host \<inter> {0, 47, 58} = {}" and "length host < 2 ^ 64" and "path = [] \<or> (\<exists>p. path = 47 # p)"
    and "case port of None \<Rightarrow> True | Some p \<Rightarrow> p < 2 ^ 32"
  shows "vtm_url_parse (url_text scheme host port path) =
    (VTM_OK, \<lparr>url_scheme = scheme, url_host = Some host, url_path = (if path = [] then None else Some path),
       url_port = (case port of None \<Rightarrow> (case scheme of VTM_URL_SCHEME_HTTP \<Rightarrow> 80 | VTM_URL_SCHEME_HTTPS \<Rightarrow> 443)
                   | Some p \<Rightarrow> of_nat p)\<rparr>)"
  by (cases scheme)
    (simp_all add: vtm_url_parse_def url_text_def VTM_URL_SCHEMES_def vtm_str_starts_with_def bytes_of_def byte_of_def c_hd_def
      url_split_parts [OF assms] split: option.split)

theorem url_parse_parts_witness:
  "vtm_url_parse (bytes_of ''http://localhost:8080/a'') =
    (VTM_OK, \<lparr>url_scheme = VTM_URL_SCHEME_HTTP, url_host = Some (bytes_of ''localhost''),
       url_path = Some (bytes_of ''/a''), url_port = 8080\<rparr>)"
proof -
  have "url_text VTM_URL_SCHEME_HTTP (bytes_of ''localhost'') (Some 8080) (bytes_of ''/a'') = bytes_of ''http://localhost:8080/a''"
    by (simp add: url_text_def bytes_of_def nat_dec.simps)
  then show ?thesis
    using url_parse_parts [of "bytes_of ''localhost''" "bytes_of ''/a''" "Some 8080" VTM_URL_SCHEME_HTTP]
    by (simp add: bytes_of_def)
qed

text \<open>
  The check for an overflow of the port compares the new value with the old one and misses some:
  the port 17179869180 is accepted as 4294967292.
\<close>

theorem url_port_overflow:
  "vtm_url_parse (bytes_of ''http://h:17179869180/'') =
    (VTM_OK, \<lparr>url_scheme = VTM_URL_SCHEME_HTTP, url_host = Some (bytes_of ''h''), url_path = Some (bytes_of ''/''),
       url_port = 4294967292\<rparr>)"
  by code_simp

end
