(* ===== verification/HttpClient.thy ===== *)
theory HttpClient
  imports HttpMessage SocketWriter Url
begin

text \<open>
  The HTTP client, \<open>net/http/http_client.c\<close>: opening a connection, writing a request through the socket
  writer, reading the response with the parser, and closing or keeping the connection. The functions
  on sockets that the client calls are a record of arguments. \<open>None\<close> is an access through a null
  pointer, a copy outside the array of the writer, or a loop that does not end.
\<close>

definition VTM_HTTP_CL_OPT_NO_CERT_CHECK :: int where "VTM_HTTP_CL_OPT_NO_CERT_CHECK = 1"

definition VTM_HTTP_CL_OPT_TIMEOUT :: int where "VTM_HTTP_CL_OPT_TIMEOUT = 2"

definition VTM_HTTP_CL_HINT_NO_CERT_CHECK :: u32 where "VTM_HTTP_CL_HINT_NO_CERT_CHECK = 1"

text \<open>The body is \<open>None\<close> for a null pointer.\<close>

record vtm_http_client_req =
  rq_method :: vtm_http_method
  rq_version :: vtm_http_version
  rq_fam :: vtm_socket_family
  rq_url :: cstr
  rq_headers :: "vtm_dataset option"
  rq_body :: "byte list option"

record vtm_http_client_res =
  rs_version :: vtm_http_version
  rs_status_code :: int
  rs_status_msg :: "size_t option"
  rs_headers :: "vtm_dataset option"
  rs_body :: "size_t option"
  rs_body_len :: u64

record vtm_http_client =
  hc_sock :: "vtm_socket option"
  hc_writer :: vtm_socket_writer
  hc_recvbuf :: vtm_buf
  hc_parser :: vtm_http_parser
  hc_con_host :: "cstr option"
  hc_con_port :: u32
  hc_hints :: u32
  hc_opt_timeout :: u64

text \<open>
  The socket functions: creating a plain or a TLS socket (without a check of certificates when the
  flag says so), setting the timeout, connecting, closing and freeing, writing and reading.
\<close>

record 'w cl_sys =
  cs_new :: "vtm_url_scheme \<Rightarrow> vtm_socket_family \<Rightarrow> bool \<Rightarrow> 'w \<Rightarrow> (vtm_rc + vtm_socket) \<times> 'w"
  cs_set_timeout :: "u64 \<Rightarrow> ('w, vtm_rc) sock_op"
  cs_connect :: "cstr \<Rightarrow> u32 \<Rightarrow> ('w, vtm_rc) sock_op"
  cs_shut :: "vtm_socket \<Rightarrow> 'w \<Rightarrow> 'w"
  cs_write :: "(vtm_socket \<times> 'w) sock_write"
  cs_read :: "nat \<Rightarrow> ('w, vtm_rc \<times> byte list) sock_op"

text \<open>The memory of the parser and the writer is not initialised.\<close>

definition vtm_http_client_new :: "vtm_http_parser \<Rightarrow> vtm_socket_writer \<Rightarrow> vtm_http_client" where
  "vtm_http_client_new par sw =
     \<lparr>hc_sock = None, hc_writer = sw, hc_recvbuf = vtm_buf_init VTM_BYTEORDER_LE,
      hc_parser = vtm_http_parser_init par VTM_HTTP_PM_RESPONSE, hc_con_host = None, hc_con_port = 0,
      hc_hints = 0, hc_opt_timeout = 0\<rparr>"

definition vtm_http_client_take_socket :: "vtm_http_client \<Rightarrow> vtm_rc \<times> vtm_socket option \<times> vtm_http_client" where
  "vtm_http_client_take_socket cl =
     (case hc_sock cl of
        None \<Rightarrow> (VTM_E_INVALID_STATE, None, cl)
      | Some sock \<Rightarrow> (VTM_OK, Some sock, cl\<lparr>hc_sock := None, hc_con_host := None, hc_con_port := 0\<rparr>))"

text \<open>The value is a \<open>bool\<close> or an \<open>unsigned long\<close>, as the option expects; \<open>len\<close> is its size.\<close>

definition vtm_http_client_set_opt :: "vtm_http_client \<Rightarrow> int \<Rightarrow> u64 \<Rightarrow> nat \<Rightarrow> vtm_rc \<times> vtm_http_client" where
  "vtm_http_client_set_opt cl opt val len =
     (if opt = VTM_HTTP_CL_OPT_NO_CERT_CHECK
      then if len \<noteq> 1 then (VTM_E_INVALID_ARG, cl)
           else if val \<noteq> 0 then (VTM_OK, cl\<lparr>hc_hints := hc_hints cl OR VTM_HTTP_CL_HINT_NO_CERT_CHECK\<rparr>)
           else (VTM_OK, cl\<lparr>hc_hints := hc_hints cl AND NOT VTM_HTTP_CL_HINT_NO_CERT_CHECK\<rparr>)
      else if opt = VTM_HTTP_CL_OPT_TIMEOUT
      then if len \<noteq> 8 then (VTM_E_INVALID_ARG, cl) else (VTM_OK, cl\<lparr>hc_opt_timeout := val\<rparr>)
      else (VTM_E_NOT_SUPPORTED, cl))"

subsection \<open>The connection\<close>

definition vtm_http_client_con_close :: "'w cl_sys \<Rightarrow> vtm_http_client \<Rightarrow> 'w \<Rightarrow> vtm_http_client \<times> 'w" where
  "vtm_http_client_con_close sys cl w =
     (cl\<lparr>hc_sock := None, hc_con_host := None, hc_con_port := 0\<rparr>,
      case hc_sock cl of None \<Rightarrow> w | Some sock \<Rightarrow> cs_shut sys sock w)"

definition http_client_connect ::
    "'w cl_sys \<Rightarrow> vtm_http_client \<Rightarrow> vtm_http_client_req \<Rightarrow> vtm_url_rec \<Rightarrow> 'w
     \<Rightarrow> (vtm_rc \<times> vtm_http_client \<times> 'w) option" where
  "http_client_connect sys cl req url w =
     (case cs_new sys (url_scheme url) (rq_fam req)
             (url_scheme url = VTM_URL_SCHEME_HTTPS \<and> hc_hints cl AND VTM_HTTP_CL_HINT_NO_CERT_CHECK \<noteq> 0) w of
        (Inl rc, w) \<Rightarrow> Some (rc, cl\<lparr>hc_sock := None\<rparr>, w)
      | (Inr sock, w) \<Rightarrow>
          let (rc, sock, w) = (if hc_opt_timeout cl > 0 then cs_set_timeout sys (hc_opt_timeout cl) sock w else (VTM_OK, sock, w))
          in if rc \<noteq> VTM_OK then Some (rc, cl\<lparr>hc_sock := Some sock\<rparr>, w)
             else case url_host url of
                    None \<Rightarrow> None
                  | Some host \<Rightarrow>
                      let (rc, sock, w) = cs_connect sys host (url_port url) sock w
                      in Some (rc, cl\<lparr>hc_sock := Some sock\<rparr>, w))"

definition vtm_http_client_con_open ::
    "'w cl_sys \<Rightarrow> vtm_http_client \<Rightarrow> vtm_http_client_req \<Rightarrow> 'w
     \<Rightarrow> (vtm_rc \<times> vtm_http_client \<times> vtm_url_rec \<times> 'w) option" where
  "vtm_http_client_con_open sys cl req w =
     (let (rc, url) = vtm_url_parse (rq_url req);
          open_new = (\<lambda>cl w. map_option (\<lambda>(rc, cl, w). (rc, cl, url, w)) (http_client_connect sys cl req url w));
          reopen = (let (cl, w) = vtm_http_client_con_close sys cl w in open_new cl w)
      in if rc \<noteq> VTM_OK then Some (rc, cl, url, w)
         else case hc_sock cl of
                None \<Rightarrow> open_new cl w
              | Some sock \<Rightarrow>
                  if hc_con_port cl = url_port url
                  then (case (hc_con_host cl, url_host url) of
                          (Some h, Some h') \<Rightarrow> if h = h' then Some (VTM_OK, cl, url, w) else reopen
                        | _ \<Rightarrow> None)
                  else reopen)"

text \<open>Whether the connection is closed, with the headers, where the value of the field is now a string.\<close>

definition vtm_http_client_con_must_close ::
    "allocator \<Rightarrow> vtm_socket \<Rightarrow> vtm_http_client_req \<Rightarrow> vtm_http_client_res \<Rightarrow> (bool \<times> vtm_http_client_res) option" where
  "vtm_http_client_con_must_close ma sock req res =
     (if vtm_socket_get_state sock AND VTM_SOCK_STAT_CLOSED \<noteq> 0 then Some (True, res)
      else
        let old = (\<lambda>val. rq_version req = VTM_HTTP_VER_1_0
                     \<and> (case val of None \<Rightarrow> True | Some v \<Rightarrow> vtm_str_casecmp v VTM_HTTP_VALUE_KEEP_ALIVE \<noteq> 0))
        in case rs_headers res of
             None \<Rightarrow> Some (old None, res)
           | Some headers \<Rightarrow>
               (case vtm_dataset_get_string ma headers VTM_HTTP_HEADER_CONNECTION of
                  Inl e \<Rightarrow> None
                | Inr (val, headers) \<Rightarrow>
                    Some (case val of
                            Some v \<Rightarrow> vtm_str_casecmp v VTM_HTTP_VALUE_CLOSE = 0 \<or> old val
                          | None \<Rightarrow> old val,
                          res\<lparr>rs_headers := Some headers\<rparr>)))"

subsection \<open>The request\<close>

definition crlf :: cstr where "crlf = [13, 10]"

text \<open>The pieces for the headers of the caller.\<close>

fun http_client_fields :: "allocator \<Rightarrow> (cstr \<times> vtm_variant) list \<Rightarrow> byte list list option" where
  "http_client_fields ma [] = Some []"
| "http_client_fields ma ((name, var) # es) =
     (case vtm_variant_as_str ma var of
        Inr (Some v, var) \<Rightarrow> map_option (\<lambda>ps. [name, bytes_of '': '', v, crlf] @ ps) (http_client_fields ma es)
      | _ \<Rightarrow> None)"

definition http_client_length :: "vtm_http_client_req \<Rightarrow> byte list list" where
  "http_client_length req =
     (case rq_body req of
        Some body \<Rightarrow>
          if body \<noteq> [] \<and> (case rq_headers req of
               None \<Rightarrow> True
             | Some hs \<Rightarrow> \<not> vtm_dataset_contains hs VTM_HTTP_HEADER_CONTENT_LENGTH
                        \<and> \<not> vtm_dataset_contains hs VTM_HTTP_HEADER_TRANSFER_ENCODING)
          then [VTM_HTTP_HEADER_CONTENT_LENGTH, bytes_of '': '', snd (vtm_fmt_uint64 True (of_nat (length body))), crlf]
          else []
      | None \<Rightarrow> [])"

definition http_client_pieces :: "allocator \<Rightarrow> vtm_http_client_req \<Rightarrow> vtm_url_rec \<Rightarrow> byte list list option" where
  "http_client_pieces ma req url =
     (let i = http_method_num (rq_method req)
      in case (if i < length VTM_HTTP_METHODS then VTM_HTTP_METHODS ! i else None, url_path url, url_host url,
               vtm_http_get_version_string (rq_version req),
               case rq_headers req of None \<Rightarrow> Some [] | Some hs \<Rightarrow>
                 (case vtm_dataset_entryset (Some hs) of None \<Rightarrow> None | Some es \<Rightarrow> http_client_fields ma es)) of
           (Some mname, Some path, Some host, Some version, Some lines) \<Rightarrow>
             Some ([mname, [32], path, [32], version, crlf, bytes_of ''Host: '', host, crlf] @ lines
                   @ http_client_length req @ [crlf]
                   @ (case rq_body req of Some body \<Rightarrow> if body \<noteq> [] then [body] else [] | None \<Rightarrow> []))
         | _ \<Rightarrow> None)"

definition vtm_http_client_send ::
    "'s sock_write \<Rightarrow> allocator \<Rightarrow> vtm_socket_writer \<Rightarrow> vtm_http_client_req \<Rightarrow> vtm_url_rec \<Rightarrow> 's
     \<Rightarrow> (vtm_rc \<times> vtm_socket_writer \<times> 's) option" where
  "vtm_http_client_send wr ma sw req url s =
     (case http_client_pieces ma req url of
        None \<Rightarrow> None
      | Some ps \<Rightarrow>
          (case sw_put_all wr ps (vtm_socket_writer_reset sw) s of
             None \<Rightarrow> None
           | Some (sw, s) \<Rightarrow> vtm_socket_writer_flush wr sw s))"

subsection \<open>The response\<close>

text \<open>What \<open>vtm_http_client_recv\<close> returns: a return code, or a receive status in its place.\<close>

datatype http_recv = HrRc vtm_rc "vtm_http_client_res option" | HrStat vtm_net_recv_stat

definition http_client_response :: "vtm_http_parser \<Rightarrow> vtm_http_client_res" where
  "http_client_response par =
     \<lparr>rs_version = hp_version par, rs_status_code = hp_res_status_code par, rs_status_msg = hp_res_status_msg par,
      rs_headers = hp_headers par, rs_body = hp_body par, rs_body_len = hp_body_len par\<rparr>"

text \<open>\<open>parse\<close> says whether the program is at the label of that name.\<close>

partial_function (option) http_client_recv_loop ::
    "(nat \<Rightarrow> ('w, vtm_rc \<times> byte list) sock_op) \<Rightarrow> bool \<Rightarrow> allocator \<Rightarrow> bool \<Rightarrow> vtm_http_parser \<Rightarrow> vtm_buf \<Rightarrow> vtm_socket \<Rightarrow> 'w
     \<Rightarrow> (http_recv \<times> vtm_http_parser \<times> vtm_buf \<times> vtm_socket \<times> 'w) option" where
  "http_client_recv_loop read mem ma parse par buf sock w =
     (if parse
      then (case vtm_http_parser_run mem ma par buf of
              None \<Rightarrow> None
            | Some (stat, par, buf) \<Rightarrow>
                (case stat of
                   VTM_NET_RECV_STAT_AGAIN \<Rightarrow> http_client_recv_loop read mem ma False par buf sock w
                 | VTM_NET_RECV_STAT_COMPLETE \<Rightarrow>
                     Some (HrRc VTM_OK (Some (http_client_response par)), vtm_http_parser_reset par, buf, sock, w)
                 | _ \<Rightarrow> Some (HrRc VTM_ERROR None, par, buf, sock, w)))
      else
        let (rc, buf) = vtm_buf_ensure ma buf 512
        in if rc \<noteq> VTM_OK then Some (HrStat VTM_NET_RECV_STAT_ERROR, par, buf, sock, w)
           else
             let ((rc, bs), sock, w) = read (unat (VTM_BUF_PUT_AVAIL_TOTAL buf)) sock w;
                 buf = VTM_BUF_PUT_INC buf bs
             in if rc \<noteq> VTM_OK then Some (HrRc rc None, par, buf, sock, w)
                else http_client_recv_loop read mem ma True par buf sock w)"

definition vtm_http_client_recv ::
    "(nat \<Rightarrow> ('w, vtm_rc \<times> byte list) sock_op) \<Rightarrow> bool \<Rightarrow> allocator \<Rightarrow> vtm_http_parser \<Rightarrow> vtm_buf \<Rightarrow> vtm_socket \<Rightarrow> 'w
     \<Rightarrow> (http_recv \<times> vtm_http_parser \<times> vtm_buf \<times> vtm_socket \<times> 'w) option" where
  "vtm_http_client_recv read mem ma par buf sock w =
     (let par = vtm_http_parser_reset par; buf = vtm_buf_discard_processed buf
      in http_client_recv_loop read mem ma (VTM_BUF_GET_AVAIL_TOTAL buf > 0) par buf sock w)"

definition vtm_http_client_request ::
    "'w cl_sys \<Rightarrow> bool \<Rightarrow> allocator \<Rightarrow> vtm_http_client \<Rightarrow> vtm_http_client_req \<Rightarrow> 'w
     \<Rightarrow> (http_recv \<times> vtm_http_client \<times> 'w) option" where
  "vtm_http_client_request sys mem ma cl req w =
     (let close = (\<lambda>r cl w. let (cl, w) = vtm_http_client_con_close sys cl w in Some (r, cl, w))
      in case vtm_http_client_con_open sys cl req w of
           None \<Rightarrow> None
         | Some (rc, cl, url, w) \<Rightarrow>
             if rc \<noteq> VTM_OK then close (HrRc rc None) cl w
             else case hc_sock cl of
                    None \<Rightarrow> None
                  | Some sock \<Rightarrow>
                      (case vtm_http_client_send (cs_write sys) ma (hc_writer cl) req url (sock, w) of
                         None \<Rightarrow> None
                       | Some (rc, sw, sock, w) \<Rightarrow>
                           let cl = cl\<lparr>hc_writer := sw, hc_sock := Some sock\<rparr>
                           in if rc \<noteq> VTM_OK then close (HrRc rc None) cl w
                              else case vtm_http_client_recv (cs_read sys) mem ma (hc_parser cl) (hc_recvbuf cl) sock w of
                                     None \<Rightarrow> None
                                   | Some (r, par, buf, sock, w) \<Rightarrow>
                                       let cl = cl\<lparr>hc_parser := par, hc_recvbuf := buf, hc_sock := Some sock\<rparr>
                                       in (case r of
                                             HrRc VTM_OK (Some res) \<Rightarrow>
                                               (case vtm_http_client_con_must_close ma sock req res of
                                                  None \<Rightarrow> None
                                                | Some (c, res) \<Rightarrow>
                                                    if c then close (HrRc VTM_OK (Some res)) cl w
                                                    else Some (HrRc VTM_OK (Some res),
                                                      if hc_con_host cl = None
                                                      then cl\<lparr>hc_con_host := url_host url, hc_con_port := url_port url\<rparr> else cl, w))
                                           | _ \<Rightarrow> close r cl w)))"

subsection \<open>A request arrives\<close>

text \<open>The fields of the caller as the lines of the request, when their values are strings.\<close>

definition entry_line :: "cstr \<times> vtm_variant \<Rightarrow> cstr \<times> cstr" where
  "entry_line e = (fst e, var_text (snd e))"

definition entry_text :: "cstr \<times> vtm_variant \<Rightarrow> bool" where
  "entry_text e \<longleftrightarrow> var_type (snd e) = VTM_ELEM_STRING \<and> var_str (snd e) \<in> {None, Some (elem_str (var_data (snd e)))}"

lemma http_client_fields_text:
  assumes "list_all entry_text es"
  shows "\<exists>ps. http_client_fields ma es = Some ps \<and> concat ps = concat (map http_line (map entry_line es))
    \<and> (\<forall>p\<in>set ps. length p \<le> 2 \<or> (\<exists>e\<in>set es. p = fst (entry_line e) \<or> p = snd (entry_line e)))"
  using assms
proof (induction es)
  case (Cons e es)
  obtain n v where e: "e = (n, v)" by fastforce
  have v: "\<exists>v'. vtm_variant_as_str ma v = Inr (Some (var_text v), v')"
    using Cons.prems by (auto simp: e entry_text_def vtm_variant_as_str_def vtm_elem_as_str_def var_text_def)
  obtain ps where "http_client_fields ma es = Some ps" "concat ps = concat (map http_line (map entry_line es))"
    "\<forall>p\<in>set ps. length p \<le> 2 \<or> (\<exists>e\<in>set es. p = fst (entry_line e) \<or> p = snd (entry_line e))"
    using Cons by auto
  moreover have "http_line (entry_line e) = n @ bytes_of '': '' @ var_text v @ crlf"
    by (simp add: e http_line_def entry_line_def crlf_def bytes_of_def)
  moreover have "entry_line e = (n, var_text v)" by (simp add: e entry_line_def)
  ultimately show ?case using v by (force simp: e crlf_def bytes_of_def)
qed simp

lemma http_client_pieces_head:
  assumes m: "rq_method req \<in> {VTM_HTTP_METHOD_GET, VTM_HTTP_METHOD_POST, VTM_HTTP_METHOD_HEAD, VTM_HTTP_METHOD_PUT, VTM_HTTP_METHOD_PATCH}"
    and url: "url_path url = Some path" "url_host url = Some host" and body: "rq_body req = None"
    and es: "case rq_headers req of None \<Rightarrow> es = [] | Some ds \<Rightarrow> vtm_dataset_entryset (Some ds) = Some es" "list_all entry_text es"
    and len: "length path \<le> 1024" "length host \<le> 1024"
      "\<forall>e\<in>set es. length (fst (entry_line e)) \<le> 1024 \<and> length (snd (entry_line e)) \<le> 1024"
  obtains mname ps where "vtm_http_get_method mname = Some (rq_method req)" "http_client_pieces ma req url = Some ps"
    "concat ps = http_head mname path (rq_version req) ((bytes_of ''Host'', host) # map entry_line es)"
    "list_all (\<lambda>p. length p \<le> 1024) ps"
proof -
  obtain lines where l: "http_client_fields ma es = Some lines" "concat lines = concat (map http_line (map entry_line es))"
    "\<forall>p\<in>set lines. length p \<le> 2 \<or> (\<exists>e\<in>set es. p = fst (entry_line e) \<or> p = snd (entry_line e))"
    using http_client_fields_text [OF es(2)] by blast
  have lines: "(case rq_headers req of None \<Rightarrow> Some [] | Some hs \<Rightarrow>
      (case vtm_dataset_entryset (Some hs) of None \<Rightarrow> None | Some es \<Rightarrow> http_client_fields ma es)) = Some lines"
    using es(1) l(1) by (auto split: option.splits)
  define mname where "mname = the (VTM_HTTP_METHODS ! http_method_num (rq_method req))"
  have mname: "vtm_http_get_method mname = Some (rq_method req)" "length mname \<le> 1024"
      "VTM_HTTP_METHODS ! http_method_num (rq_method req) = Some mname" "http_method_num (rq_method req) < length VTM_HTTP_METHODS"
    unfolding mname_def using m by (auto simp: http_methods_simps)
  let ?v = "[72, 84, 84, 80, 47, 49, 46, http_minor (rq_version req)] :: byte list"
  have v: "vtm_http_get_version_string (rq_version req) = Some ?v"
    by (cases "rq_version req") (simp_all add: VTM_HTTP_VERSIONS_def bytes_of_def http_minor_def)
  let ?ps = "[mname, [32], path, [32], ?v, crlf, bytes_of ''Host: '', host, crlf] @ lines @ [crlf]"
  have "http_client_pieces ma req url = Some ?ps"
    unfolding http_client_pieces_def Let_def lines v url using body mname(3, 4) by (simp add: http_client_length_def)
  moreover have "concat ?ps = http_head mname path (rq_version req) ((bytes_of ''Host'', host) # map entry_line es)"
    by (simp add: http_head_def http_line_def crlf_def bytes_of_def l(2))
  moreover have "\<forall>p\<in>set lines. length p \<le> 1024" using l(3) len(3) by fastforce
  then have "list_all (\<lambda>p. length p \<le> 1024) ?ps"
    using len(1, 2) mname(2) by (auto simp: list_all_iff crlf_def bytes_of_def)
  ultimately show thesis using that mname(1) by blast
qed

text \<open>
  C10. A request of the client without a body arrives at a server, for the methods GET, POST, HEAD, PUT
  and PATCH, a path without a question mark, header fields without Transfer-Encoding and Content-Length,
  a path, a host and fields of at most 1024 bytes each and a path and header of at most 8000 bytes together:
  writing it returns, and when it reports success, the bytes the system has taken are read by the parser of
  a server as a complete request with the same method, version, path and header fields, the host among
  them. Writing does report success when the socket is open and \<open>send\<close> reports no error.
\<close>

theorem http_client_request_arrives:
  assumes send: "send_takes send sent"
    and m: "rq_method req \<in> {VTM_HTTP_METHOD_GET, VTM_HTTP_METHOD_POST, VTM_HTTP_METHOD_HEAD, VTM_HTTP_METHOD_PUT, VTM_HTTP_METHOD_PATCH}"
    and url: "url_path url = Some path" "url_host url = Some host" and body: "rq_body req = None"
    and es: "case rq_headers req of None \<Rightarrow> es = [] | Some ds \<Rightarrow> vtm_dataset_entryset (Some ds) = Some es" "list_all entry_text es"
    and path: "no_nul path" "32 \<notin> set path" "63 \<notin> set path"
    and hs: "hs = (bytes_of ''Host'', host) # map entry_line es" "list_all http_line_ok hs"
    and no: "http_fields hs Map.empty (ds_norm True VTM_HTTP_HEADER_TRANSFER_ENCODING) = None"
      "http_fields hs Map.empty (ds_norm True VTM_HTTP_HEADER_CONTENT_LENGTH) = None"
    and len: "length path \<le> 1024" "length host \<le> 1024"
      "\<forall>e\<in>set es. length (fst (entry_line e)) \<le> 1024 \<and> length (snd (entry_line e)) \<le> 1024"
      "length path + length (concat (map http_line hs)) \<le> 8000" and ma: "\<forall>n. ma n"
  shows "\<exists>rc sw' sock' w'. vtm_http_client_send (sock_write send) ma sw req url (sock, w) = Some (rc, sw', sock', w')
    \<and> (rc = VTM_OK \<longrightarrow> (\<exists>bytes. sent w' = sent w @ bytes \<and>
         (\<forall>b rest. vtm_buf_inv b \<longrightarrow> buf_read b = 0 \<longrightarrow> buf_data b = bytes @ rest \<longrightarrow>
           (\<exists>par b' off. vtm_http_parser_run True ma (vtm_http_parser_init par0 VTM_HTTP_PM_REQUEST) b =
               Some (VTM_NET_RECV_STAT_COMPLETE, par, b')
             \<and> hp_req_method par = rq_method req \<and> hp_version par = rq_version req
             \<and> hp_req_path par = Some off \<and> buf_cstr off b' = Some path \<and> hp_body par = None
             \<and> ds_fields (http_header_dataset par) (http_fields hs Map.empty) \<and> buf_unread b' = rest))))
    \<and> (\<not> VTM_SOCKET_IS_CLOSED sock \<and> send_works send \<longrightarrow> rc = VTM_OK)"
proof -
  obtain mname ps where ps: "vtm_http_get_method mname = Some (rq_method req)" "http_client_pieces ma req url = Some ps"
    "concat ps = http_head mname path (rq_version req) hs" "list_all (\<lambda>p. length p \<le> 1024) ps"
    unfolding hs(1) by (rule http_client_pieces_head [OF m url body es len(1, 2, 3)])
  obtain sw1 s1 rc sw2 s2 where sw: "sw_put_all (sock_write send) ps (vtm_socket_writer_reset sw) (sock, w) = Some (sw1, s1)"
    "vtm_socket_writer_flush (sock_write send) sw1 s1 = Some (rc, sw2, s2)" "rc = VTM_OK \<longrightarrow> sent (snd s2) = sent w @ concat ps"
    "\<not> VTM_SOCKET_IS_CLOSED sock \<and> send_works send \<longrightarrow> rc = VTM_OK"
    using sw_stream [OF send ps(4), of sw sock w] by blast
  have "length mname \<le> 18" using ps(1) by (auto simp: http_methods_simps split: if_splits)
  then have head: "length (http_head mname path (rq_version req) hs) \<le> 8192" using len(4) by (simp add: http_head_def)
  have "vtm_http_client_send (sock_write send) ma sw req url (sock, w) = Some (rc, sw2, fst s2, snd s2)"
    using ps(2) sw by (simp add: vtm_http_client_send_def)
  moreover have "\<exists>par b' off. vtm_http_parser_run True ma (vtm_http_parser_init par0 VTM_HTTP_PM_REQUEST) b =
               Some (VTM_NET_RECV_STAT_COMPLETE, par, b')
             \<and> hp_req_method par = rq_method req \<and> hp_version par = rq_version req
             \<and> hp_req_path par = Some off \<and> buf_cstr off b' = Some path \<and> hp_body par = None
             \<and> ds_fields (http_header_dataset par) (http_fields hs Map.empty) \<and> buf_unread b' = rest"
    if "vtm_buf_inv b" "buf_read b = 0" "buf_data b = concat ps @ rest" for b rest
    using http_parse_request [OF that [unfolded ps(3)] ps(1) path hs(2) head ma no] .
  ultimately show ?thesis using sw(3, 4) by blast
qed

theorem http_client_request_arrives_witness:
  "\<exists>sw' sock' w'. vtm_http_client_send (sock_write send_two) alloc_all \<lparr>sw_buf = [], sw_lrc = VTM_OK\<rparr>
      \<lparr>rq_method = VTM_HTTP_METHOD_GET, rq_version = VTM_HTTP_VER_1_1, rq_fam = VTM_SOCK_FAM_IN4, rq_url = bytes_of ''http://a/'',
       rq_headers = None, rq_body = None\<rparr>
      \<lparr>url_scheme = VTM_URL_SCHEME_HTTP, url_host = Some (bytes_of ''a''), url_path = Some (bytes_of ''/''), url_port = 80\<rparr>
      (sample_socket, []) = Some (VTM_OK, sw', sock', w')
    \<and> {b. vtm_buf_inv b \<and> buf_read b = 0 \<and> buf_data b = w'} \<subseteq>
        {b. \<exists>par b' off. vtm_http_parser_run True alloc_all (vtm_http_parser_init undefined VTM_HTTP_PM_REQUEST) b =
             Some (VTM_NET_RECV_STAT_COMPLETE, par, b') \<and> hp_req_method par = VTM_HTTP_METHOD_GET
           \<and> hp_version par = VTM_HTTP_VER_1_1 \<and> hp_req_path par = Some off \<and> buf_cstr off b' = Some (bytes_of ''/'')}"
proof -
  let ?req = "\<lparr>rq_method = VTM_HTTP_METHOD_GET, rq_version = VTM_HTTP_VER_1_1, rq_fam = VTM_SOCK_FAM_IN4, rq_url = bytes_of ''http://a/'',
       rq_headers = None, rq_body = None\<rparr>"
  let ?url = "\<lparr>url_scheme = VTM_URL_SCHEME_HTTP, url_host = Some (bytes_of ''a''), url_path = Some (bytes_of ''/''), url_port = 80\<rparr>"
  let ?hs = "[(bytes_of ''Host'', bytes_of ''a'')]"
  have slash: "no_nul (bytes_of ''/'')" "32 \<notin> set (bytes_of ''/'')" "63 \<notin> set (bytes_of ''/'')"
    by (simp_all add: bytes_of_def no_nul_def)
  have hs: "?hs = (bytes_of ''Host'', bytes_of ''a'') # map entry_line []" "list_all http_line_ok ?hs"
    by (simp_all add: http_line_ok_def bytes_of_def)
  have no: "http_fields ?hs Map.empty (ds_norm True VTM_HTTP_HEADER_TRANSFER_ENCODING) = None"
    "http_fields ?hs Map.empty (ds_norm True VTM_HTTP_HEADER_CONTENT_LENGTH) = None"
    by (simp_all add: ds_norm_def bytes_of_def http_names c_tolower_def)
  have len: "length (bytes_of ''/'') + length (concat (map http_line ?hs)) \<le> 8000" by (simp add: http_line_def bytes_of_def)
  have all: "\<forall>n. alloc_all n" by (simp add: alloc_all_def)
  have "\<exists>rc sw' sock' w'. vtm_http_client_send (sock_write send_two) alloc_all \<lparr>sw_buf = [], sw_lrc = VTM_OK\<rparr> ?req ?url (sample_socket, []) = Some (rc, sw', sock', w')
    \<and> (rc = VTM_OK \<longrightarrow> (\<exists>bytes. w' = [] @ bytes \<and> (\<forall>b rest. vtm_buf_inv b \<longrightarrow> buf_read b = 0 \<longrightarrow> buf_data b = bytes @ rest \<longrightarrow>
        (\<exists>par b' off. vtm_http_parser_run True alloc_all (vtm_http_parser_init undefined VTM_HTTP_PM_REQUEST) b =
               Some (VTM_NET_RECV_STAT_COMPLETE, par, b')
             \<and> hp_req_method par = rq_method ?req \<and> hp_version par = rq_version ?req
             \<and> hp_req_path par = Some off \<and> buf_cstr off b' = Some (bytes_of ''/'') \<and> hp_body par = None
             \<and> ds_fields (http_header_dataset par) (http_fields ?hs Map.empty) \<and> buf_unread b' = rest))))
    \<and> (\<not> VTM_SOCKET_IS_CLOSED sample_socket \<and> send_works send_two \<longrightarrow> rc = VTM_OK)"
    by (rule http_client_request_arrives [OF send_two_takes _ _ _ _ _ _ slash hs no _ _ _ len all])
      (simp_all add: bytes_of_def)
  then show ?thesis by fastforce
qed

end
