(* ===== verification/StreamServer.thy ===== *)
theory StreamServer
  imports Socket
begin

text \<open>
  The stream server of \<open>net/socket_stream_server.c\<close> with worker threads, as a state machine. A main thread
  waits for events of the listener, puts them into a queue and accepts connections; workers take
  entries from the queue and run the callbacks of the user. A step is what a thread does between two
  operations on shared state: the mutex and the condition variable of the queue, the state and the
  reference count of a socket (each under its own mutex), the map of connections, the latches and the
  flag \<open>running\<close>. Sockets are numbers that are not used again; a freed socket is \<open>None\<close> in the store.
  What the system and the callbacks answer is an argument of a step.
\<close>

subsection \<open>State\<close>

datatype srv_entry_type =
    VTM_SOCK_SRV_ACCEPTED | VTM_SOCK_SRV_READ | VTM_SOCK_SRV_WRITE | VTM_SOCK_SRV_CLOSED | VTM_SOCK_SRV_ERROR

type_synonym srv_entry = "srv_entry_type \<times> nat"

definition VTM_SOCK_EVT_READ :: u32 where "VTM_SOCK_EVT_READ = 1"

definition VTM_SOCK_EVT_WRITE :: u32 where "VTM_SOCK_EVT_WRITE = 2"

definition VTM_SOCK_EVT_CLOSED :: u32 where "VTM_SOCK_EVT_CLOSED = 4"

definition VTM_SOCK_EVT_ERROR :: u32 where "VTM_SOCK_EVT_ERROR = 8"

definition VTM_STREAM_SRV_ACCEPT_MAX_ERRORS :: nat where "VTM_STREAM_SRV_ACCEPT_MAX_ERRORS = 100"

type_synonym sock_event = "nat \<times> u32"

text \<open>
  The position of a worker. Those with an entry also have a flag that says whether the worker is in the
  second loop, where the queue is drained. \<open>WClose\<close> is a call of \<open>vtm_socket_close\<close> and knows what comes
  after it: the removal of the connection, another look at the state of the socket, the callback
  \<open>sock_disconnected\<close>, or the release.
\<close>

datatype close_next = CClosed | CEval | CDisconnect | CRelease

datatype worker_pc =
    WStart | WLoop | WLock | WLocked | WWait | WBlocked | WRelock
  | WState bool srv_entry | WTry bool srv_entry | WOpt bool srv_entry | WCallback bool srv_entry
  | WCheck bool srv_entry | WNbl bool srv_entry | WRegister bool srv_entry | WRearm bool srv_entry
  | WError bool srv_entry | WClose bool srv_entry close_next | WClosed bool srv_entry | WRemove bool srv_entry
  | WDisconnect bool srv_entry | WRelease bool srv_entry | WReleaseAdd bool srv_entry | WUnlock bool srv_entry
  | WAgain bool srv_entry | WAgainAdd bool srv_entry | WUnref bool srv_entry
  | WFinish | WAwait | WDrain | WEnd

text \<open>The position of the main thread, with the events of the listener and whether to accept.\<close>

datatype main_pc =
    MLoop | MRun | MLock "sock_event list" | MRelease "sock_event list" | MUnref nat "sock_event list"
  | MRelay "sock_event list" | MEvents "sock_event list" bool | MUnlock bool bool
  | MAccept nat | MRef nat | MAdd nat
  | MFinish | MSignal | MAwait | MDrain | MClear | MClose "nat list" | MDrained | MCount
  | MInterrupt | MJoin | MFree | MEnd

datatype srv_thread = Worker nat | Main

record srv =
  sv_running :: bool
  sv_events :: "srv_entry list"
  sv_mtx :: "srv_thread option"
  sv_relay :: "srv_entry list"
  sv_release :: "nat list"
  sv_cons :: "nat set"
  sv_listener :: "nat set"
  sv_socks :: "nat \<Rightarrow> vtm_socket option"
  sv_next :: nat
  sv_prepare :: nat
  sv_run :: nat
  sv_threads :: nat
  sv_socket :: nat
  sv_main :: main_pc
  sv_pc :: "nat \<Rightarrow> worker_pc"

text \<open>
  What a step is told: whether the call it makes succeeds, its return code, the socket as a callback or
  \<open>accept\<close> leaves it, the events of the listener, the connections in the order of the map, and the
  worker a signal wakes.
\<close>

record srv_in =
  in_ok :: bool
  in_rc :: vtm_rc
  in_sock :: vtm_socket
  in_events :: "sock_event list"
  in_cons :: "nat list"
  in_wake :: nat

definition sv_goto :: "srv \<Rightarrow> nat \<Rightarrow> worker_pc \<Rightarrow> srv" where
  "sv_goto s i pc = s\<lparr>sv_pc := (sv_pc s)(i := pc)\<rparr>"

definition sv_at :: "srv \<Rightarrow> main_pc \<Rightarrow> srv" where
  "sv_at s pc = s\<lparr>sv_main := pc\<rparr>"

definition sv_set :: "srv \<Rightarrow> nat \<Rightarrow> vtm_socket \<Rightarrow> srv" where
  "sv_set s n sk = s\<lparr>sv_socks := (sv_socks s)(n := Some sk)\<rparr>"

text \<open>A change of a socket; \<open>None\<close> when it has been freed.\<close>

definition sv_upd :: "srv \<Rightarrow> nat \<Rightarrow> (vtm_socket \<Rightarrow> vtm_socket) \<Rightarrow> srv option" where
  "sv_upd s n f = map_option (\<lambda>sk. sv_set s n (f sk)) (sv_socks s n)"

definition sv_ref :: "srv \<Rightarrow> nat \<Rightarrow> srv option" where
  "sv_ref s n = (case sv_socks s n of None \<Rightarrow> None | Some sk \<Rightarrow> map_option (sv_set s n) (vtm_socket_ref sk))"

definition sv_keep :: "srv \<Rightarrow> nat \<Rightarrow> vtm_socket \<times> bool \<Rightarrow> srv" where
  "sv_keep s n r = s\<lparr>sv_socks := (sv_socks s)(n := if snd r then None else Some (fst r))\<rparr>"

definition sv_unref :: "srv \<Rightarrow> nat \<Rightarrow> srv option" where
  "sv_unref s n = (case sv_socks s n of None \<Rightarrow> None | Some sk \<Rightarrow> map_option (sv_keep s n) (vtm_socket_unref sk))"

subsection \<open>Sockets\<close>

definition vtm_socket_stream_srv_sock_trylock :: "vtm_socket \<Rightarrow> u32 \<Rightarrow> vtm_rc \<times> vtm_socket" where
  "vtm_socket_stream_srv_sock_trylock sock flags =
     (if sk_state sock AND flags \<noteq> 0 then (VTM_ERROR, sock)
      else (VTM_OK, sock\<lparr>sk_state := sk_state sock OR flags\<rparr>))"

definition vtm_socket_stream_srv_sock_unlock :: "vtm_socket \<Rightarrow> u32 \<Rightarrow> vtm_socket" where
  "vtm_socket_stream_srv_sock_unlock sock flags = sock\<lparr>sk_state := sk_state sock AND NOT flags\<rparr>"

fun srv_lock_flags :: "srv_entry_type \<Rightarrow> u32" where
  "srv_lock_flags VTM_SOCK_SRV_ACCEPTED = VTM_SOCK_STAT_READ_LOCKED"
| "srv_lock_flags VTM_SOCK_SRV_READ = VTM_SOCK_STAT_READ_LOCKED"
| "srv_lock_flags VTM_SOCK_SRV_WRITE = VTM_SOCK_STAT_WRITE_LOCKED"
| "srv_lock_flags VTM_SOCK_SRV_CLOSED = VTM_SOCK_STAT_READ_LOCKED OR VTM_SOCK_STAT_WRITE_LOCKED"
| "srv_lock_flags VTM_SOCK_SRV_ERROR = VTM_SOCK_STAT_READ_LOCKED OR VTM_SOCK_STAT_WRITE_LOCKED"

definition vtm_socket_stream_srv_sock_init_cbs :: "vtm_socket \<Rightarrow> vtm_socket" where
  "vtm_socket_stream_srv_sock_init_cbs sock = sock\<lparr>sk_stream_srv := True\<rparr>"

text \<open>
  What a callback of the user, the system or another thread of the user may do to a socket: anything
  but touch the locks, the reference count, the callback and the flag that lets it be freed, which belong to
  the server.
\<close>

definition srv_own_flags :: u32 where
  "srv_own_flags = VTM_SOCK_STAT_READ_LOCKED OR VTM_SOCK_STAT_WRITE_LOCKED OR VTM_SOCK_STAT_FREE_ON_UNREF"

definition sock_touch :: "vtm_socket \<Rightarrow> vtm_socket \<Rightarrow> vtm_socket" where
  "sock_touch new sock =
     new\<lparr>sk_refcount := sk_refcount sock, sk_mtx := sk_mtx sock, sk_stream_srv := sk_stream_srv sock,
         sk_state := (sk_state sock AND srv_own_flags) OR (sk_state new AND NOT srv_own_flags)\<rparr>"

text \<open>\<open>vtm_socket_close\<close> with the result of the operation of the table.\<close>

definition sock_close :: "vtm_rc \<Rightarrow> vtm_socket \<Rightarrow> vtm_socket" where
  "sock_close rc sock = fst (snd (vtm_socket_close (\<lambda>sk w. (rc, sk, w)) sock ()))"

definition sock_set_nonblocking :: "vtm_socket \<Rightarrow> vtm_socket" where
  "sock_set_nonblocking sock =
     fst (snd (vtm_socket_set_opt (\<lambda>opt val len sk w. (VTM_OK, sk, w)) VTM_SOCK_OPT_NONBLOCKING (Some True) 1 sock ()))"

subsection \<open>The queue\<close>

text \<open>\<open>vtm_cond_signal_all\<close> and \<open>vtm_cond_signal\<close>; a signal wakes one of the waiting workers if there is one.\<close>

definition sv_signal_all :: "srv \<Rightarrow> srv" where
  "sv_signal_all s = s\<lparr>sv_pc := (\<lambda>i. if sv_pc s i = WBlocked then WRelock else sv_pc s i)\<rparr>"

definition sv_signal :: "nat \<Rightarrow> srv \<Rightarrow> srv option" where
  "sv_signal w s =
     (if w < sv_threads s \<and> sv_pc s w = WBlocked then Some (sv_goto s w WRelock)
      else if \<exists>i < sv_threads s. sv_pc s i = WBlocked then None else Some s)"

definition sv_lock :: "srv_thread \<Rightarrow> srv \<Rightarrow> srv option" where
  "sv_lock t s = (if sv_mtx s = None then Some (s\<lparr>sv_mtx := Some t\<rparr>) else None)"

definition sv_unlock :: "srv \<Rightarrow> srv" where
  "sv_unlock s = s\<lparr>sv_mtx := None\<rparr>"

text \<open>\<open>vtm_socket_stream_srv_add_event\<close> behind the reference: the entry is added under the mutex, with a signal.\<close>

definition vtm_socket_stream_srv_add_event :: "nat \<Rightarrow> srv_entry \<Rightarrow> srv \<Rightarrow> srv option" where
  "vtm_socket_stream_srv_add_event w e s =
     (if sv_mtx s = None then sv_signal w (s\<lparr>sv_events := sv_events s @ [e]\<rparr>) else None)"

text \<open>The mutex is held by the main thread; \<open>Inl\<close> is a failed allocation, \<open>None\<close> a failed assertion or a freed socket.\<close>

definition vtm_socket_stream_srv_create_event :: "bool \<Rightarrow> srv_entry_type \<Rightarrow> nat \<Rightarrow> srv \<Rightarrow> (srv + srv) option" where
  "vtm_socket_stream_srv_create_event mem t n s =
     (if \<not> mem then Some (Inl s)
      else map_option (\<lambda>s. Inr (s\<lparr>sv_events := sv_events s @ [(t, n)]\<rparr>)) (sv_ref s n))"

text \<open>
  The callback behind \<open>vtm_socket_update_srv\<close>, called by a thread that is not at work on the socket. A
  reference is taken also when the allocation of the relay event fails.
\<close>

definition vtm_socket_stream_srv_create_relay_event :: "bool \<Rightarrow> srv_entry_type \<Rightarrow> nat \<Rightarrow> srv \<Rightarrow> srv option" where
  "vtm_socket_stream_srv_create_relay_event mem t n s =
     (if \<not> mem then Some s
      else if sv_mtx s = None then Some (s\<lparr>sv_relay := sv_relay s @ [(t, n)]\<rparr>) else None)"

definition vtm_socket_stream_srv_sock_cb_update :: "srv_in \<Rightarrow> nat \<Rightarrow> srv \<Rightarrow> srv option" where
  "vtm_socket_stream_srv_sock_cb_update inp n s =
     (case sv_socks s n of
        None \<Rightarrow> None
      | Some sk \<Rightarrow>
          if \<not> sk_stream_srv sk then None
          else if sk_state sk AND VTM_SOCK_STAT_ERR \<noteq> 0 then
            Option.bind (sv_ref s n) (vtm_socket_stream_srv_create_relay_event (in_ok inp) VTM_SOCK_SRV_ERROR n)
          else if sk_state sk AND VTM_SOCK_STAT_CLOSED \<noteq> 0 then
            Option.bind (sv_ref s n) (vtm_socket_stream_srv_create_relay_event (in_ok inp) VTM_SOCK_SRV_CLOSED n)
          else if sk_state sk AND VTM_SOCK_STAT_HUP \<noteq> 0 then
            Option.bind (sv_ref s n) (\<lambda>s. Option.bind (sv_upd s n (sock_close (in_rc inp)))
              (vtm_socket_stream_srv_create_relay_event (in_ok inp) VTM_SOCK_SRV_CLOSED n))
          else Some s)"

subsection \<open>Workers\<close>

text \<open>
  Where a worker starts with an entry, and where it goes on behind it. Entries for reading and writing
  are dropped when the socket is closed.
\<close>

definition entry_start :: "bool \<Rightarrow> srv_entry \<Rightarrow> worker_pc" where
  "entry_start drain e = (if fst e \<in> {VTM_SOCK_SRV_READ, VTM_SOCK_SRV_WRITE} then WState drain e else WTry drain e)"

definition worker_next :: "bool \<Rightarrow> worker_pc" where
  "worker_next drain = (if drain then WDrain else WLoop)"

text \<open>
  The loops of a worker. A worker that finds the queue empty looks at \<open>running\<close> and then waits; between
  the two it holds the mutex, but the main thread unsets the flag and signals without it. Without a
  dataset for its data a worker ends at once.
\<close>

fun vtm_socket_stream_srv_worker_run :: "srv_in \<Rightarrow> nat \<Rightarrow> srv \<Rightarrow> worker_pc \<Rightarrow> srv option" where
  "vtm_socket_stream_srv_worker_run inp i s WStart = Some (sv_goto s i (if in_ok inp then WLoop else WEnd))"
| "vtm_socket_stream_srv_worker_run inp i s WLoop = Some (sv_goto s i (if sv_running s then WLock else WFinish))"
| "vtm_socket_stream_srv_worker_run inp i s WLock = map_option (\<lambda>s. sv_goto s i WLocked) (sv_lock (Worker i) s)"
| "vtm_socket_stream_srv_worker_run inp i s WLocked =
     Some (case sv_events s of
             e # es \<Rightarrow> sv_goto (sv_unlock (s\<lparr>sv_events := es\<rparr>)) i (entry_start False e)
           | [] \<Rightarrow> if sv_running s then sv_goto s i WWait else sv_goto (sv_unlock s) i WFinish)"
| "vtm_socket_stream_srv_worker_run inp i s WWait = Some (sv_goto (sv_unlock s) i WBlocked)"
| "vtm_socket_stream_srv_worker_run inp i s WRelock = map_option (\<lambda>s. sv_goto s i WLocked) (sv_lock (Worker i) s)"
| "vtm_socket_stream_srv_worker_run inp i s WFinish =
     (if sv_prepare s = 0 then None else Some (sv_goto (s\<lparr>sv_prepare := sv_prepare s - 1\<rparr>) i WAwait))"
| "vtm_socket_stream_srv_worker_run inp i s WAwait = (if sv_run s = 0 then Some (sv_goto s i WDrain) else None)"
| "vtm_socket_stream_srv_worker_run inp i s WDrain =
     (if sv_mtx s \<noteq> None then None
      else Some (case sv_events s of
                   e # es \<Rightarrow> sv_goto (s\<lparr>sv_events := es\<rparr>) i (entry_start True e)
                 | [] \<Rightarrow> sv_goto s i WEnd))"
| "vtm_socket_stream_srv_worker_run inp i s pc = None"

text \<open>
  \<open>vtm_socket_stream_srv_sock_check\<close>, evaluated on the state of the socket: where the worker goes on.
\<close>

definition vtm_socket_stream_srv_sock_check :: "bool \<Rightarrow> srv_entry \<Rightarrow> u32 \<Rightarrow> worker_pc" where
  "vtm_socket_stream_srv_sock_check d e state =
     (if state AND VTM_SOCK_STAT_ERR \<noteq> 0 then WError d e
      else if state AND VTM_SOCK_STAT_CLOSED \<noteq> 0 then WClosed d e
      else if state AND VTM_SOCK_STAT_HUP \<noteq> 0 then WClose d e CClosed
      else if fst e = VTM_SOCK_SRV_ACCEPTED then WNbl d e else WRearm d e)"

text \<open>
  The first part of \<open>vtm_socket_stream_srv_sock_event\<close>: the look at the state and the lock. Reading and writing
  give up when the lock is taken, closing is tried again, and a new connection cannot be locked.
\<close>

fun srv_entry_begin :: "srv_in \<Rightarrow> nat \<Rightarrow> srv \<Rightarrow> worker_pc \<Rightarrow> srv option" where
  "srv_entry_begin inp i s (WState d e) =
     map_option (\<lambda>sk. sv_goto s i (if sk_state sk AND VTM_SOCK_STAT_CLOSED \<noteq> 0 then WUnref d e else WTry d e)) (sv_socks s (snd e))"
| "srv_entry_begin inp i s (WTry d e) =
     (case sv_socks s (snd e) of
        None \<Rightarrow> None
      | Some sk \<Rightarrow>
          (case vtm_socket_stream_srv_sock_trylock sk (srv_lock_flags (fst e)) of
             (VTM_OK, sk') \<Rightarrow>
               Some (sv_goto (sv_set s (snd e) sk') i
                 (case fst e of
                    VTM_SOCK_SRV_ACCEPTED \<Rightarrow> WOpt d e
                  | VTM_SOCK_SRV_CLOSED \<Rightarrow> WClosed d e
                  | VTM_SOCK_SRV_ERROR \<Rightarrow> WError d e
                  | _ \<Rightarrow> WCallback d e))
           | _ \<Rightarrow>
               (case fst e of
                  VTM_SOCK_SRV_ACCEPTED \<Rightarrow> None
                | VTM_SOCK_SRV_READ \<Rightarrow> Some (sv_goto s i (WUnref d e))
                | VTM_SOCK_SRV_WRITE \<Rightarrow> Some (sv_goto s i (WUnref d e))
                | _ \<Rightarrow> Some (sv_goto s i (WAgain d e)))))"
| "srv_entry_begin inp i s pc = None"

text \<open>
  The work on the socket: \<open>vtm_socket_stream_srv_sock_accepted\<close>, \<open>_can_read\<close>, \<open>_can_write\<close>, \<open>_error\<close> and
  \<open>_closed\<close>, up to the unlocking.
\<close>

fun srv_entry_work :: "srv_in \<Rightarrow> nat \<Rightarrow> srv \<Rightarrow> worker_pc \<Rightarrow> srv option" where
  "srv_entry_work inp i s (WOpt d e) =
     (if in_ok inp
      then map_option (\<lambda>s. sv_goto s i (WCallback d e))
             (sv_upd s (snd e) (\<lambda>sk. vtm_socket_stream_srv_sock_init_cbs (sock_set_nonblocking sk)))
      else Some (sv_goto s i (WClose d e CRelease)))"
| "srv_entry_work inp i s (WCallback d e) =
     map_option (\<lambda>s. sv_goto s i (WCheck d e)) (sv_upd s (snd e) (sock_touch (in_sock inp)))"
| "srv_entry_work inp i s (WCheck d e) =
     map_option (\<lambda>sk. sv_goto s i (vtm_socket_stream_srv_sock_check d e (sk_state sk))) (sv_socks s (snd e))"
| "srv_entry_work inp i s (WRearm d e) = Some (sv_goto s i (if in_ok inp then WUnlock d e else WClose d e CEval))"
| "srv_entry_work inp i s (WNbl d e) =
     map_option (\<lambda>s. sv_goto s i (WRegister d e)) (sv_upd s (snd e) (\<lambda>sk. vtm_socket_set_state sk VTM_SOCK_STAT_NBL_READ))"
| "srv_entry_work inp i s (WRegister d e) =
     Some (if in_ok inp
           then sv_goto (s\<lparr>sv_listener := insert (snd e) (sv_listener s), sv_cons := insert (snd e) (sv_cons s)\<rparr>) i (WUnlock d e)
           else sv_goto s i (WClose d e CDisconnect))"
| "srv_entry_work inp i s (WError d e) =
     map_option (\<lambda>s. sv_goto s i (WClose d e CClosed)) (sv_upd s (snd e) (sock_touch (in_sock inp)))"
| "srv_entry_work inp i s (WClose d e k) =
     map_option (\<lambda>s. sv_goto s i
         (case k of CClosed \<Rightarrow> WClosed d e | CEval \<Rightarrow> WCheck d e | CDisconnect \<Rightarrow> WDisconnect d e | CRelease \<Rightarrow> WRelease d e))
       (sv_upd s (snd e) (sock_close (in_rc inp)))"
| "srv_entry_work inp i s (WClosed d e) =
     Some (if snd e \<in> sv_cons s then sv_goto (s\<lparr>sv_cons := sv_cons s - {snd e}\<rparr>) i (WRemove d e)
           else sv_goto s i (WUnlock d e))"
| "srv_entry_work inp i s (WRemove d e) =
     Some (sv_goto (s\<lparr>sv_listener := sv_listener s - {snd e}\<rparr>) i (WDisconnect d e))"
| "srv_entry_work inp i s (WDisconnect d e) =
     map_option (\<lambda>s. sv_goto s i (WRelease d e)) (sv_upd s (snd e) (sock_touch (in_sock inp)))"
| "srv_entry_work inp i s pc = None"

text \<open>
  \<open>vtm_socket_stream_srv_sock_free\<close>, the unlocking, and the end of \<open>vtm_socket_stream_srv_worker_event\<close>: an entry
  that could not be processed is added again, and the reference of the entry is dropped.
\<close>

fun srv_entry_end :: "srv_in \<Rightarrow> nat \<Rightarrow> srv \<Rightarrow> worker_pc \<Rightarrow> srv option" where
  "srv_entry_end inp i s (WRelease d e) = map_option (\<lambda>s. sv_goto s i (WReleaseAdd d e)) (sv_ref s (snd e))"
| "srv_entry_end inp i s (WReleaseAdd d e) =
     (if sv_mtx s = None then Some (sv_goto (s\<lparr>sv_release := sv_release s @ [snd e]\<rparr>) i (WUnlock d e)) else None)"
| "srv_entry_end inp i s (WUnlock d e) =
     map_option (\<lambda>s. sv_goto s i (WUnref d e))
       (sv_upd s (snd e) (\<lambda>sk. vtm_socket_stream_srv_sock_unlock sk (srv_lock_flags (fst e))))"
| "srv_entry_end inp i s (WAgain d e) = map_option (\<lambda>s. sv_goto s i (WAgainAdd d e)) (sv_ref s (snd e))"
| "srv_entry_end inp i s (WAgainAdd d e) =
     map_option (\<lambda>s. sv_goto s i (WUnref d e)) (vtm_socket_stream_srv_add_event (in_wake inp) e s)"
| "srv_entry_end inp i s (WUnref d e) = map_option (\<lambda>s. sv_goto s i (worker_next d)) (sv_unref s (snd e))"
| "srv_entry_end inp i s pc = None"

subsection \<open>The main thread\<close>

text \<open>
  The next event of the listener in \<open>vtm_socket_stream_srv_handle_queued\<close>. A bit that has been handled is
  taken off, so that reading and writing are two steps.
\<close>

definition srv_listener_event :: "bool \<Rightarrow> vtm_rc \<Rightarrow> nat \<Rightarrow> u32 \<Rightarrow> sock_event list \<Rightarrow> bool \<Rightarrow> srv \<Rightarrow> srv option" where
  "srv_listener_event mem rc n fl evs acc s =
     (let post = (\<lambda>t rest s. map_option (\<lambda>r. case r of
                      Inl s \<Rightarrow> sv_at s (MUnlock True acc)
                    | Inr s \<Rightarrow> sv_at s (MEvents rest acc)) (vtm_socket_stream_srv_create_event mem t n s))
      in if fl AND VTM_SOCK_EVT_CLOSED \<noteq> 0 then
           Option.bind (sv_upd s n (sock_close rc)) (post VTM_SOCK_SRV_CLOSED evs)
         else if fl AND VTM_SOCK_EVT_ERROR \<noteq> 0 then post VTM_SOCK_SRV_ERROR evs s
         else if fl AND VTM_SOCK_EVT_READ \<noteq> 0 then
           (if n = sv_socket s then Some (sv_at s (MEvents evs True))
            else Option.bind (sv_socks s n) (\<lambda>sk.
              post (if sk_state sk AND VTM_SOCK_STAT_WRITE_AGAIN_WHEN_READABLE \<noteq> 0 then VTM_SOCK_SRV_WRITE else VTM_SOCK_SRV_READ)
                ((n, fl AND NOT VTM_SOCK_EVT_READ) # evs) s))
         else if fl AND VTM_SOCK_EVT_WRITE \<noteq> 0 then
           Option.bind (sv_socks s n) (\<lambda>sk.
             post (if sk_state sk AND VTM_SOCK_STAT_READ_AGAIN_WHEN_WRITEABLE \<noteq> 0 then VTM_SOCK_SRV_READ else VTM_SOCK_SRV_WRITE)
               evs s)
         else Some (sv_at s (MEvents evs acc)))"

text \<open>
  The loop of \<open>vtm_socket_stream_srv_main_run\<close> with \<open>vtm_socket_stream_srv_handle_queued\<close>. The list of sockets to release
  is emptied one by one; it is protected by the mutex.
\<close>

fun srv_main_loop :: "srv_in \<Rightarrow> srv \<Rightarrow> main_pc \<Rightarrow> srv option" where
  "srv_main_loop inp s MLoop = Some (sv_at s (if sv_running s then MRun else MFinish))"
| "srv_main_loop inp s MRun =
     (if \<not> in_ok inp then Some (sv_at s MFinish)
      else if fst ` set (in_events inp) \<subseteq> sv_listener s then Some (sv_at s (MLock (in_events inp))) else None)"
| "srv_main_loop inp s (MLock evs) = map_option (\<lambda>s. sv_at s (MRelease evs)) (sv_lock Main s)"
| "srv_main_loop inp s (MRelease evs) =
     (case sv_release s of
        [] \<Rightarrow> Some (sv_at s (MRelay evs))
      | n # ns \<Rightarrow>
          map_option (\<lambda>sk. sv_at (sv_keep (s\<lparr>sv_release := ns\<rparr>) n (vtm_socket_enable_free_on_unref sk)) (MUnref n evs)) (sv_socks s n))"
| "srv_main_loop inp s (MUnref n evs) = map_option (\<lambda>s. sv_at s (MRelease evs)) (sv_unref s n)"
| "srv_main_loop inp s (MRelay evs) =
     Some (sv_at (s\<lparr>sv_events := sv_events s @ sv_relay s, sv_relay := []\<rparr>) (MEvents evs False))"
| "srv_main_loop inp s (MEvents [] acc) = Some (sv_at s (MUnlock False acc))"
| "srv_main_loop inp s (MEvents ((n, fl) # evs) acc) = srv_listener_event (in_ok inp) (in_rc inp) n fl evs acc s"
| "srv_main_loop inp s (MUnlock err acc) =
     Some (sv_at (sv_unlock (sv_signal_all s)) (if err then MFinish else if acc then MAccept 0 else MLoop))"
| "srv_main_loop inp s pc = None"

text \<open>
  \<open>vtm_socket_stream_srv_accept\<close>: a new socket has no references and the flags of \<open>vtm_socket_base_init\<close>. \<open>in_ok\<close> says
  whether the entry can be allocated, or whether the listener takes its socket again. The mutex of the new socket is
  allocated: the code ignores that this can fail and then uses the socket without a lock, where the operations on it are no
  longer single steps; such runs are outside of this model.
\<close>

definition srv_new_socket :: "vtm_socket \<Rightarrow> vtm_socket" where
  "srv_new_socket sk = (snd (vtm_socket_make_threadsafe True (snd (vtm_socket_base_init sk))))\<lparr>sk_stream_srv := False\<rparr>"

fun vtm_socket_stream_srv_accept :: "srv_in \<Rightarrow> srv \<Rightarrow> main_pc \<Rightarrow> srv option" where
  "vtm_socket_stream_srv_accept inp s (MAccept errc) =
     Some (if in_rc inp = VTM_OK then
             sv_at (sv_set (s\<lparr>sv_next := sv_next s + 1\<rparr>) (sv_next s) (srv_new_socket (in_sock inp)))
               (if in_ok inp then MRef (sv_next s) else MFinish)
           else if in_rc inp \<noteq> VTM_E_IO_AGAIN \<and> errc + 1 < VTM_STREAM_SRV_ACCEPT_MAX_ERRORS then sv_at s (MAccept (errc + 1))
           else sv_at s (if in_ok inp then MLoop else MFinish))"
| "vtm_socket_stream_srv_accept inp s (MRef n) = map_option (\<lambda>s. sv_at s (MAdd n)) (sv_ref s n)"
| "vtm_socket_stream_srv_accept inp s (MAdd n) =
     map_option (\<lambda>s. sv_at s (MAccept 0)) (vtm_socket_stream_srv_add_event (in_wake inp) (VTM_SOCK_SRV_ACCEPTED, n) s)"
| "vtm_socket_stream_srv_accept inp s pc = None"

text \<open>
  The end of \<open>vtm_socket_stream_srv_main_run\<close> with \<open>vtm_socket_stream_srv_drain_queued\<close>, and the end of
  \<open>vtm_socket_stream_srv_run\<close>: interrupting and joining the workers, and freeing the sockets to release.
\<close>

fun srv_main_end :: "srv_in \<Rightarrow> srv \<Rightarrow> main_pc \<Rightarrow> srv option" where
  "srv_main_end inp s MFinish = Some (sv_at (s\<lparr>sv_running := False\<rparr>) MSignal)"
| "srv_main_end inp s MSignal = Some (sv_at (sv_signal_all s) MAwait)"
| "srv_main_end inp s MAwait = (if sv_prepare s = 0 then Some (sv_at s MDrain) else None)"
| "srv_main_end inp s MDrain = map_option (\<lambda>s. sv_at s MClear) (sv_lock Main s)"
| "srv_main_end inp s MClear =
     (case sv_events s of
        e # es \<Rightarrow> sv_unref (s\<lparr>sv_events := es\<rparr>) (snd e)
      | [] \<Rightarrow>
          if \<not> in_ok inp then Some (sv_at s MDrained)
          else if distinct (in_cons inp) \<and> set (in_cons inp) = sv_cons s then Some (sv_at s (MClose (in_cons inp))) else None)"
| "srv_main_end inp s (MClose []) = Some (sv_at s MDrained)"
| "srv_main_end inp s (MClose (n # ns)) =
     Option.bind (sv_upd s n (sock_close (in_rc inp))) (\<lambda>s.
       map_option (\<lambda>r. case r of Inl s \<Rightarrow> sv_at s MDrained | Inr s \<Rightarrow> sv_at s (MClose ns))
         (vtm_socket_stream_srv_create_event (in_ok inp) VTM_SOCK_SRV_CLOSED n s))"
| "srv_main_end inp s MDrained = Some (sv_at (sv_unlock s) MCount)"
| "srv_main_end inp s MCount = (if sv_run s = 0 then None else Some (sv_at (s\<lparr>sv_run := sv_run s - 1\<rparr>) MInterrupt))"
| "srv_main_end inp s MInterrupt = Some (sv_at (sv_signal_all s) MJoin)"
| "srv_main_end inp s MJoin = (if \<forall>i < sv_threads s. sv_pc s i = WEnd then Some (sv_at s MFree) else None)"
| "srv_main_end inp s MFree =
     (case sv_release s of
        [] \<Rightarrow> Some (sv_at (s\<lparr>sv_events := [], sv_relay := []\<rparr>) MEnd)
      | n # ns \<Rightarrow>
          map_option (\<lambda>sk. s\<lparr>sv_release := ns, sv_socks := (sv_socks s)(n := None)\<rparr>) (sv_socks s n))"
| "srv_main_end inp s pc = None"

subsection \<open>Runs\<close>

definition vtm_socket_stream_srv_stop :: "srv \<Rightarrow> srv" where
  "vtm_socket_stream_srv_stop s = s\<lparr>sv_running := False\<rparr>"

text \<open>
  The steps: of a worker, of the main thread, and of the world around the server: \<open>vtm_socket_stream_srv_stop\<close>, a
  socket that changes, \<open>vtm_socket_update_srv\<close> by another thread, and a wait that ends without a signal.
\<close>

inductive srv_step :: "srv \<Rightarrow> srv \<Rightarrow> bool" where
  run: "i < sv_threads s \<Longrightarrow> vtm_socket_stream_srv_worker_run inp i s (sv_pc s i) = Some s' \<Longrightarrow> srv_step s s'"
| entry_begin: "i < sv_threads s \<Longrightarrow> srv_entry_begin inp i s (sv_pc s i) = Some s' \<Longrightarrow> srv_step s s'"
| entry_work: "i < sv_threads s \<Longrightarrow> srv_entry_work inp i s (sv_pc s i) = Some s' \<Longrightarrow> srv_step s s'"
| entry_end: "i < sv_threads s \<Longrightarrow> srv_entry_end inp i s (sv_pc s i) = Some s' \<Longrightarrow> srv_step s s'"
| main_loop: "srv_main_loop inp s (sv_main s) = Some s' \<Longrightarrow> srv_step s s'"
| accept: "vtm_socket_stream_srv_accept inp s (sv_main s) = Some s' \<Longrightarrow> srv_step s s'"
| main_end: "srv_main_end inp s (sv_main s) = Some s' \<Longrightarrow> srv_step s s'"
| stop: "srv_step s (vtm_socket_stream_srv_stop s)"
| touch: "sv_upd s n (sock_touch sk) = Some s' \<Longrightarrow> srv_step s s'"
| update: "vtm_socket_stream_srv_sock_cb_update inp n s = Some s' \<Longrightarrow> srv_step s s'"
| spurious: "i < sv_threads s \<Longrightarrow> sv_pc s i = WBlocked \<Longrightarrow> srv_step s (sv_goto s i WRelock)"

text \<open>The server behind the initialization, with its own socket as number 0.\<close>

definition srv_init :: "nat \<Rightarrow> vtm_socket \<Rightarrow> srv" where
  "srv_init threads sk =
     \<lparr>sv_running = True, sv_events = [], sv_mtx = None, sv_relay = [], sv_release = [], sv_cons = {}, sv_listener = {0},
      sv_socks = (\<lambda>n. if n = 0 then Some (sk\<lparr>sk_state := VTM_SOCK_STAT_NBL_READ, sk_refcount := 0\<rparr>) else None),
      sv_next = 1, sv_prepare = threads, sv_run = 1, sv_threads = threads, sv_socket = 0,
      sv_main = MLoop, sv_pc = (\<lambda>i. if i < threads then WStart else WEnd)\<rparr>"

inductive srv_reach :: "srv \<Rightarrow> bool" where
  init: "0 < threads \<Longrightarrow> srv_reach (srv_init threads sk)"
| step: "srv_reach s \<Longrightarrow> srv_step s s' \<Longrightarrow> srv_reach s'"

end
