(* ===== verification/StreamServerInv.thy ===== *)
theory StreamServerInv
  imports StreamServer
begin

text \<open>
  Invariants of the stream server: the lock flags of a socket belong to the workers that hold them, the
  reference count covers every reference in the queues and in the hands of the threads, and a
  connection is owned once, from the entry that announces it to the list it is released from.
\<close>

subsection \<open>Sums over the workers\<close>

definition wsum :: "(worker_pc \<Rightarrow> nat) \<Rightarrow> srv \<Rightarrow> nat" where
  "wsum f s = (\<Sum>i < sv_threads s. f (sv_pc s i))"

definition wrest :: "(worker_pc \<Rightarrow> nat) \<Rightarrow> nat \<Rightarrow> srv \<Rightarrow> nat" where
  "wrest f i s = (\<Sum>j\<in>{..<sv_threads s} - {i}. f (sv_pc s j))"

lemma wsum_split: "i < sv_threads s \<Longrightarrow> wsum f s = wrest f i s + f (sv_pc s i)"
  unfolding wsum_def wrest_def by (simp add: sum.remove [of "{..<sv_threads s}" i])

lemma wrest_ge: "j < sv_threads s \<Longrightarrow> i \<noteq> j \<Longrightarrow> f (sv_pc s j) \<le> wrest f i s"
  unfolding wrest_def by (rule member_le_sum) auto

lemma wsum_zeroD: "wsum f s = 0 \<Longrightarrow> i < sv_threads s \<Longrightarrow> f (sv_pc s i) = 0"
  by (simp add: wsum_def)

lemma wsum_mono: "(\<And>pc. f pc \<le> g pc) \<Longrightarrow> wsum f s \<le> wsum g s"
  unfolding wsum_def by (rule sum_mono) simp

lemma wsum_cong: "sv_threads s' = sv_threads s \<Longrightarrow> sv_pc s' = sv_pc s \<Longrightarrow> wsum f s' = wsum f s"
  by (simp add: wsum_def)

lemma wrest_cong:
  "sv_threads s' = sv_threads s \<Longrightarrow> (\<And>j. j \<noteq> i \<Longrightarrow> f (sv_pc s' j) = f (sv_pc s j)) \<Longrightarrow> wrest f i s' = wrest f i s"
  unfolding wrest_def by (auto intro!: sum.cong)

lemma wsum_wake:
  "f WBlocked = f WRelock \<Longrightarrow> sv_threads s' = sv_threads s \<Longrightarrow>
   (\<And>j. sv_pc s' j = sv_pc s j \<or> sv_pc s j = WBlocked \<and> sv_pc s' j = WRelock) \<Longrightarrow> wsum f s' = wsum f s"
  unfolding wsum_def by (rule sum.cong) (simp, metis)

subsection \<open>What a thread holds\<close>

text \<open>The entry a worker has taken from the queue, and the one whose socket it has locked.\<close>

fun worker_entry :: "worker_pc \<Rightarrow> srv_entry option" where
  "worker_entry (WState d e) = Some e"
| "worker_entry (WTry d e) = Some e"
| "worker_entry (WOpt d e) = Some e"
| "worker_entry (WCallback d e) = Some e"
| "worker_entry (WCheck d e) = Some e"
| "worker_entry (WNbl d e) = Some e"
| "worker_entry (WRegister d e) = Some e"
| "worker_entry (WRearm d e) = Some e"
| "worker_entry (WError d e) = Some e"
| "worker_entry (WClose d e k) = Some e"
| "worker_entry (WClosed d e) = Some e"
| "worker_entry (WRemove d e) = Some e"
| "worker_entry (WDisconnect d e) = Some e"
| "worker_entry (WRelease d e) = Some e"
| "worker_entry (WReleaseAdd d e) = Some e"
| "worker_entry (WUnlock d e) = Some e"
| "worker_entry (WAgain d e) = Some e"
| "worker_entry (WAgainAdd d e) = Some e"
| "worker_entry (WUnref d e) = Some e"
| "worker_entry pc = None"

definition worker_section :: "worker_pc \<Rightarrow> srv_entry option" where
  "worker_section pc =
     (case pc of WState d e \<Rightarrow> None | WTry d e \<Rightarrow> None | WAgain d e \<Rightarrow> None | WAgainAdd d e \<Rightarrow> None | WUnref d e \<Rightarrow> None
      | _ \<Rightarrow> worker_entry pc)"

definition worker_holds :: "nat \<Rightarrow> nat \<Rightarrow> worker_pc \<Rightarrow> nat" where
  "worker_holds k n pc =
     (case worker_section pc of None \<Rightarrow> 0 | Some e \<Rightarrow> of_bool (snd e = n \<and> bit (srv_lock_flags (fst e)) k))"

text \<open>The references of a worker: two while it adds the socket to a list.\<close>

definition worker_refs :: "nat \<Rightarrow> worker_pc \<Rightarrow> nat" where
  "worker_refs n pc =
     (case worker_entry pc of
        None \<Rightarrow> 0
      | Some e \<Rightarrow> if snd e = n then (case pc of WReleaseAdd d e \<Rightarrow> 2 | WAgainAdd d e \<Rightarrow> 2 | _ \<Rightarrow> 1) else 0)"

definition main_refs :: "nat \<Rightarrow> main_pc \<Rightarrow> nat" where
  "main_refs n pc = (case pc of MUnref m evs \<Rightarrow> of_bool (m = n) | MAdd m \<Rightarrow> of_bool (m = n) | _ \<Rightarrow> 0)"

definition entry_refs :: "nat \<Rightarrow> srv_entry list \<Rightarrow> nat" where
  "entry_refs n es = count_list (map snd es) n"

definition srv_refs :: "nat \<Rightarrow> srv \<Rightarrow> nat" where
  "srv_refs n s =
     entry_refs n (sv_events s) + entry_refs n (sv_relay s) + count_list (sv_release s) n
     + main_refs n (sv_main s) + wsum (worker_refs n) s"

text \<open>
  Who owns a connection: the entry that announces it and the worker that handles it, the map of
  connections, the worker that has taken it out, and the list of sockets to release.
\<close>

definition worker_owns :: "nat \<Rightarrow> worker_pc \<Rightarrow> nat" where
  "worker_owns n pc =
     (case worker_entry pc of
        None \<Rightarrow> 0
      | Some e \<Rightarrow>
          of_bool (snd e = n \<and>
            (case pc of
               WClosed d e \<Rightarrow> False | WUnlock d e \<Rightarrow> False | WUnref d e \<Rightarrow> False
             | WOpt d e \<Rightarrow> True | WNbl d e \<Rightarrow> True | WRegister d e \<Rightarrow> True
             | WRemove d e \<Rightarrow> True | WDisconnect d e \<Rightarrow> True | WRelease d e \<Rightarrow> True | WReleaseAdd d e \<Rightarrow> True
             | WClose d e k \<Rightarrow> k \<in> {CDisconnect, CRelease} \<or> fst e = VTM_SOCK_SRV_ACCEPTED
             | _ \<Rightarrow> fst e = VTM_SOCK_SRV_ACCEPTED)))"

definition main_owns :: "nat \<Rightarrow> main_pc \<Rightarrow> nat" where
  "main_owns n pc = (case pc of MRef m \<Rightarrow> of_bool (m = n) | MAdd m \<Rightarrow> of_bool (m = n) | _ \<Rightarrow> 0)"

definition srv_owners :: "nat \<Rightarrow> srv \<Rightarrow> nat" where
  "srv_owners n s =
     count_list (sv_events s) (VTM_SOCK_SRV_ACCEPTED, n) + count_list (sv_relay s) (VTM_SOCK_SRV_ACCEPTED, n)
     + of_bool (n \<in> sv_cons s) + count_list (sv_release s) n + main_owns n (sv_main s) + wsum (worker_owns n) s"

subsection \<open>The invariants\<close>

definition refs_inv :: "srv \<Rightarrow> bool" where
  "refs_inv s \<longleftrightarrow> (\<forall>n sk. sv_socks s n = Some sk \<longrightarrow> srv_refs n s \<le> unat (sk_refcount sk))"

definition srv_freeing :: "srv \<Rightarrow> bool" where
  "srv_freeing s \<longleftrightarrow> sv_main s \<in> {MFree, MEnd}"

text \<open>
  A socket that is referenced has not been freed. At the end, when the workers have ended, the sockets
  to release are freed whatever their count.
\<close>

definition alive_inv :: "srv \<Rightarrow> bool" where
  "alive_inv s \<longleftrightarrow>
     (if srv_freeing s
      then (\<forall>n\<in>set (sv_release s). sv_socks s n \<noteq> None) \<and> (\<forall>i < sv_threads s. sv_pc s i = WEnd)
      else \<forall>n. 0 < srv_refs n s \<longrightarrow> sv_socks s n \<noteq> None)"

lemmas worker_count_defs = worker_holds_def worker_section_def worker_refs_def worker_owns_def

lemmas srv_upd_defs = sv_goto_def sv_at_def sv_set_def sv_keep_def sv_unlock_def

lemma worker_holds_simps [simp]:
  "worker_holds k n WStart = 0" "worker_holds k n WLoop = 0" "worker_holds k n WLock = 0" "worker_holds k n WLocked = 0" "worker_holds k n WWait = 0"
  "worker_holds k n WBlocked = 0" "worker_holds k n WRelock = 0" "worker_holds k n WFinish = 0" "worker_holds k n WAwait = 0" "worker_holds k n WDrain = 0"
  "worker_holds k n WEnd = 0" "worker_holds k n (WState d e) = 0" "worker_holds k n (WTry d e) = 0"
  "worker_holds k n (WOpt d e) = of_bool (snd e = n \<and> bit (srv_lock_flags (fst e)) k)"
  "worker_holds k n (WCallback d e) = of_bool (snd e = n \<and> bit (srv_lock_flags (fst e)) k)"
  "worker_holds k n (WCheck d e) = of_bool (snd e = n \<and> bit (srv_lock_flags (fst e)) k)"
  "worker_holds k n (WNbl d e) = of_bool (snd e = n \<and> bit (srv_lock_flags (fst e)) k)"
  "worker_holds k n (WRegister d e) = of_bool (snd e = n \<and> bit (srv_lock_flags (fst e)) k)"
  "worker_holds k n (WRearm d e) = of_bool (snd e = n \<and> bit (srv_lock_flags (fst e)) k)"
  "worker_holds k n (WError d e) = of_bool (snd e = n \<and> bit (srv_lock_flags (fst e)) k)"
  "worker_holds k n (WClosed d e) = of_bool (snd e = n \<and> bit (srv_lock_flags (fst e)) k)"
  "worker_holds k n (WRemove d e) = of_bool (snd e = n \<and> bit (srv_lock_flags (fst e)) k)"
  "worker_holds k n (WDisconnect d e) = of_bool (snd e = n \<and> bit (srv_lock_flags (fst e)) k)"
  "worker_holds k n (WRelease d e) = of_bool (snd e = n \<and> bit (srv_lock_flags (fst e)) k)"
  "worker_holds k n (WReleaseAdd d e) = of_bool (snd e = n \<and> bit (srv_lock_flags (fst e)) k)"
  "worker_holds k n (WUnlock d e) = of_bool (snd e = n \<and> bit (srv_lock_flags (fst e)) k)" "worker_holds k n (WAgain d e) = 0"
  "worker_holds k n (WAgainAdd d e) = 0" "worker_holds k n (WUnref d e) = 0"
  "worker_holds k n (WClose d e x) = of_bool (snd e = n \<and> bit (srv_lock_flags (fst e)) k)"
  by (simp_all add: worker_count_defs)

lemma worker_refs_simps [simp]:
  "worker_refs n WStart = 0" "worker_refs n WLoop = 0" "worker_refs n WLock = 0" "worker_refs n WLocked = 0" "worker_refs n WWait = 0"
  "worker_refs n WBlocked = 0" "worker_refs n WRelock = 0" "worker_refs n WFinish = 0" "worker_refs n WAwait = 0" "worker_refs n WDrain = 0"
  "worker_refs n WEnd = 0" "worker_refs n (WState d e) = of_bool (snd e = n)" "worker_refs n (WTry d e) = of_bool (snd e = n)"
  "worker_refs n (WOpt d e) = of_bool (snd e = n)" "worker_refs n (WCallback d e) = of_bool (snd e = n)"
  "worker_refs n (WCheck d e) = of_bool (snd e = n)" "worker_refs n (WNbl d e) = of_bool (snd e = n)"
  "worker_refs n (WRegister d e) = of_bool (snd e = n)" "worker_refs n (WRearm d e) = of_bool (snd e = n)"
  "worker_refs n (WError d e) = of_bool (snd e = n)" "worker_refs n (WClosed d e) = of_bool (snd e = n)"
  "worker_refs n (WRemove d e) = of_bool (snd e = n)" "worker_refs n (WDisconnect d e) = of_bool (snd e = n)"
  "worker_refs n (WRelease d e) = of_bool (snd e = n)" "worker_refs n (WReleaseAdd d e) = (if snd e = n then 2 else 0)"
  "worker_refs n (WUnlock d e) = of_bool (snd e = n)" "worker_refs n (WAgain d e) = of_bool (snd e = n)"
  "worker_refs n (WAgainAdd d e) = (if snd e = n then 2 else 0)" "worker_refs n (WUnref d e) = of_bool (snd e = n)"
  "worker_refs n (WClose d e x) = of_bool (snd e = n)"
  by (simp_all add: worker_count_defs)

lemma worker_owns_simps [simp]:
  "worker_owns n WStart = 0" "worker_owns n WLoop = 0" "worker_owns n WLock = 0" "worker_owns n WLocked = 0" "worker_owns n WWait = 0"
  "worker_owns n WBlocked = 0" "worker_owns n WRelock = 0" "worker_owns n WFinish = 0" "worker_owns n WAwait = 0" "worker_owns n WDrain = 0"
  "worker_owns n WEnd = 0" "worker_owns n (WState d e) = of_bool (snd e = n \<and> fst e = VTM_SOCK_SRV_ACCEPTED)"
  "worker_owns n (WTry d e) = of_bool (snd e = n \<and> fst e = VTM_SOCK_SRV_ACCEPTED)"
  "worker_owns n (WOpt d e) = of_bool (snd e = n)"
  "worker_owns n (WCallback d e) = of_bool (snd e = n \<and> fst e = VTM_SOCK_SRV_ACCEPTED)"
  "worker_owns n (WCheck d e) = of_bool (snd e = n \<and> fst e = VTM_SOCK_SRV_ACCEPTED)"
  "worker_owns n (WNbl d e) = of_bool (snd e = n)"
  "worker_owns n (WRegister d e) = of_bool (snd e = n)"
  "worker_owns n (WRearm d e) = of_bool (snd e = n \<and> fst e = VTM_SOCK_SRV_ACCEPTED)"
  "worker_owns n (WError d e) = of_bool (snd e = n \<and> fst e = VTM_SOCK_SRV_ACCEPTED)" "worker_owns n (WClosed d e) = 0"
  "worker_owns n (WRemove d e) = of_bool (snd e = n)" "worker_owns n (WDisconnect d e) = of_bool (snd e = n)"
  "worker_owns n (WRelease d e) = of_bool (snd e = n)" "worker_owns n (WReleaseAdd d e) = of_bool (snd e = n)" "worker_owns n (WUnlock d e) = 0"
  "worker_owns n (WAgain d e) = of_bool (snd e = n \<and> fst e = VTM_SOCK_SRV_ACCEPTED)"
  "worker_owns n (WAgainAdd d e) = of_bool (snd e = n \<and> fst e = VTM_SOCK_SRV_ACCEPTED)" "worker_owns n (WUnref d e) = 0"
  "worker_owns n (WClose d e x) = of_bool (snd e = n \<and> (x \<in> {CDisconnect, CRelease} \<or> fst e = VTM_SOCK_SRV_ACCEPTED))"
  by (simp_all add: worker_count_defs)

lemma worker_holds_le: "worker_holds k n pc \<le> worker_refs n pc"
  by (cases pc) simp_all

lemma entry_refs_simps [simp]:
  "entry_refs n [] = 0"
  "entry_refs n (e # es) = of_bool (snd e = n) + entry_refs n es"
  "entry_refs n (es @ es') = entry_refs n es + entry_refs n es'"
  by (simp_all add: entry_refs_def)

lemma wsum_goto: "i < sv_threads s \<Longrightarrow> wsum f (sv_goto s i pc) = wrest f i s + f pc"
  unfolding sv_goto_def by (subst wsum_split [of i]) (auto intro: wrest_cong)

lemma unat_byte_incr: "(x::byte) \<noteq> 255 \<Longrightarrow> unat (x + 1) = unat x + 1"
proof -
  assume "x \<noteq> 255"
  moreover have "(255::byte) = - 1" by simp
  ultimately have "1 + x \<noteq> 0" by (metis add_eq_0_iff)
  then show ?thesis using unatSuc [of x] by (simp add: add.commute)
qed

lemma sv_ref_eq: "sv_ref s n = Some s' \<longleftrightarrow>
  (\<exists>sk. sv_socks s n = Some sk \<and> sk_refcount sk \<noteq> 255 \<and> s' = sv_set s n (sk\<lparr>sk_refcount := sk_refcount sk + 1\<rparr>))"
  by (auto simp: sv_ref_def vtm_socket_ref_def split: option.splits if_splits)

lemma sv_unref_eq: "sv_unref s n = Some s' \<longleftrightarrow>
  (\<exists>sk. sv_socks s n = Some sk \<and> sk_refcount sk \<noteq> 0 \<and>
     s' = sv_keep s n (sk\<lparr>sk_refcount := sk_refcount sk - 1\<rparr>, sk_refcount sk = 1 \<and> sk_state sk AND VTM_SOCK_STAT_FREE_ON_UNREF \<noteq> 0))"
  by (auto simp: sv_unref_def vtm_socket_unref_def Let_def split: option.splits if_splits)

lemma sv_upd_eq: "sv_upd s n f = Some s' \<longleftrightarrow> (\<exists>sk. sv_socks s n = Some sk \<and> s' = sv_set s n (f sk))"
  by (auto simp: sv_upd_def)

lemma unat_byte_decr: "(x::byte) \<noteq> 0 \<Longrightarrow> unat (x - 1) = unat x - 1"
  by (simp add: unat_minus_one)

lemma sv_simps [simp]:
  "sv_events (sv_goto s i pc) = sv_events s" "sv_relay (sv_goto s i pc) = sv_relay s" "sv_release (sv_goto s i pc) = sv_release s"
  "sv_cons (sv_goto s i pc) = sv_cons s" "sv_socks (sv_goto s i pc) = sv_socks s" "sv_main (sv_goto s i pc) = sv_main s"
  "sv_next (sv_goto s i pc) = sv_next s" "sv_threads (sv_goto s i pc) = sv_threads s"
  by (simp_all add: sv_goto_def)

lemma wrest_upd [simp]:
  "wrest f i (s\<lparr>sv_events := es\<rparr>) = wrest f i s" "wrest f i (s\<lparr>sv_mtx := mt\<rparr>) = wrest f i s"
  "wrest f i (s\<lparr>sv_release := ns\<rparr>) = wrest f i s" "wrest f i (s\<lparr>sv_cons := cs\<rparr>) = wrest f i s"
  "wrest f i (s\<lparr>sv_listener := cs\<rparr>) = wrest f i s" "wrest f i (s\<lparr>sv_socks := sks\<rparr>) = wrest f i s"
  "wrest f i (s\<lparr>sv_prepare := p\<rparr>) = wrest f i s" "wrest f i (s\<lparr>sv_relay := es\<rparr>) = wrest f i s"
  by (simp_all add: wrest_def)

lemma sv_signal_eq:
  assumes "sv_signal w s = Some s'"
  obtains p where "s' = s\<lparr>sv_pc := p\<rparr>" "\<forall>j. p j = sv_pc s j \<or> sv_pc s j = WBlocked \<and> p j = WRelock"
proof (cases "w < sv_threads s \<and> sv_pc s w = WBlocked")
  case True
  with assms show ?thesis by (intro that [of "(sv_pc s)(w := WRelock)"]) (auto simp: sv_signal_def sv_goto_def)
next
  case False
  with assms show ?thesis by (intro that [of "sv_pc s"]) (auto simp: sv_signal_def split: if_splits)
qed

subsection \<open>The effect of a step on a socket\<close>

text \<open>A change of a socket that is none of the server's: the count and the locks are as they were.\<close>

definition sock_same :: "vtm_socket \<Rightarrow> vtm_socket \<Rightarrow> bool" where
  "sock_same sk sk' \<longleftrightarrow> sk_refcount sk' = sk_refcount sk
     \<and> bit (sk_state sk') 7 = bit (sk_state sk) 7 \<and> bit (sk_state sk') 8 = bit (sk_state sk) 8"

type_synonym sock_view = "vtm_socket option \<times> nat \<times> nat \<times> (nat \<Rightarrow> nat)"

definition srv_view :: "nat \<Rightarrow> srv \<Rightarrow> sock_view" where
  "srv_view n s = (sv_socks s n, srv_refs n s, srv_owners n s, \<lambda>k. wsum (worker_holds k n) s)"

inductive sock_eff :: "sock_view \<Rightarrow> sock_view \<Rightarrow> bool" where
  keep: "rel_option sock_same sk sk' \<Longrightarrow> r' \<le> r \<Longrightarrow> w' \<le> w \<Longrightarrow> sock_eff (sk, r, w, h) (sk', r', w', h)"
| ref: "sk_refcount sk \<noteq> 255 \<Longrightarrow> sock_same (sk\<lparr>sk_refcount := sk_refcount sk + 1\<rparr>) sk' \<Longrightarrow> r' \<le> r + 1 \<Longrightarrow>
    sock_eff (Some sk, r, w, h) (Some sk', r', w, h)"
| unref: "sk_refcount sk \<noteq> 0 \<Longrightarrow> r' < r \<Longrightarrow> w' \<le> w \<Longrightarrow>
    sk' = None \<and> sk_refcount sk = 1 \<or> sk' = Some (sk\<lparr>sk_refcount := sk_refcount sk - 1\<rparr>) \<Longrightarrow>
    sock_eff (Some sk, r, w, h) (sk', r', w', h)"
| lock: "sk_state sk AND flags = 0 \<Longrightarrow> h' = (\<lambda>k. h k + of_bool (bit flags k)) \<Longrightarrow>
    sock_eff (Some sk, r, w, h) (Some (sk\<lparr>sk_state := sk_state sk OR flags\<rparr>), r, w, h')"
| unlock: "h = (\<lambda>k. h' k + of_bool (bit flags k)) \<Longrightarrow>
    sock_eff (Some sk, r, w, h) (Some (sk\<lparr>sk_state := sk_state sk AND NOT flags\<rparr>), r, w, h')"

lemma sock_same_refl [simp]: "sock_same sk sk" by (simp add: sock_same_def)

lemma rel_same_refl [simp]: "rel_option sock_same o1 o1"
  by (cases o1) simp_all

lemma sock_same_touch [simp]: "sock_same sk (sock_touch new sk)"
  by (simp add: sock_same_def sock_touch_def srv_own_flags_def sock_stat_defs bit_simps)

lemma sock_same_close [simp]: "sock_same sk (sock_close rc sk)"
  by (simp add: sock_same_def sock_close_def vtm_socket_close_def sock_unless_closed_def vtm_flag_set_def sock_stat_defs bit_simps)

lemma sock_same_opened [simp]: "sock_same sk (vtm_socket_stream_srv_sock_init_cbs (sock_set_nonblocking sk))"
  by (simp add: sock_same_def vtm_socket_stream_srv_sock_init_cbs_def sock_set_nonblocking_def vtm_socket_set_opt_def
      vtm_flag_set_def sock_stat_defs bit_simps)

lemma sock_same_nbl [simp]: "sock_same sk (vtm_socket_set_state sk VTM_SOCK_STAT_NBL_READ)"
  by (simp add: sock_same_def vtm_socket_set_state_def vtm_flag_set_def sock_stat_defs bit_simps)

lemmas srv_view_defs = srv_view_def srv_refs_def srv_owners_def

lemma entry_start_counts [simp]:
  "worker_holds k n (entry_start d e) = 0"
  "worker_refs n (entry_start d e) = of_bool (snd e = n)"
  "worker_owns n (entry_start d e) = of_bool (e = (VTM_SOCK_SRV_ACCEPTED, n))"
  by (cases e, auto simp: entry_start_def)+

lemma run_eff:
  assumes "i < sv_threads s" "vtm_socket_stream_srv_worker_run inp i s (sv_pc s i) = Some s'"
  shows "sock_eff (srv_view n s) (srv_view n s')"
proof -
  note W = wsum_split [OF assms(1)] wsum_goto
  show ?thesis
    using assms
    by (cases "sv_pc s i")
      (auto simp: srv_view_defs W sv_lock_def sv_unlock_def split: list.splits if_splits intro!: sock_eff.keep)
qed

lemma trylock_eq:
  "vtm_socket_stream_srv_sock_trylock sk flags =
     (if sk_state sk AND flags = 0 then (VTM_OK, sk\<lparr>sk_state := sk_state sk OR flags\<rparr>) else (VTM_ERROR, sk))"
  by (simp add: vtm_socket_stream_srv_sock_trylock_def)

lemma sv_set_simps [simp]:
  "sv_events (sv_set s n sk) = sv_events s" "sv_relay (sv_set s n sk) = sv_relay s" "sv_release (sv_set s n sk) = sv_release s"
  "sv_cons (sv_set s n sk) = sv_cons s" "sv_socks (sv_set s n sk) = (sv_socks s)(n := Some sk)" "sv_main (sv_set s n sk) = sv_main s"
  "sv_next (sv_set s n sk) = sv_next s" "sv_threads (sv_set s n sk) = sv_threads s" "wrest f i (sv_set s n sk) = wrest f i s"
  "wsum f (sv_set s n sk) = wsum f s" "sv_mtx (sv_set s n sk) = sv_mtx s" "sv_pc (sv_set s n sk) = sv_pc s"
  by (simp_all add: sv_set_def wsum_def)

lemma sv_keep_simps [simp]:
  "sv_events (sv_keep s n r) = sv_events s" "sv_relay (sv_keep s n r) = sv_relay s" "sv_release (sv_keep s n r) = sv_release s"
  "sv_cons (sv_keep s n r) = sv_cons s" "sv_socks (sv_keep s n r) = (sv_socks s)(n := if snd r then None else Some (fst r))"
  "sv_main (sv_keep s n r) = sv_main s" "sv_next (sv_keep s n r) = sv_next s" "sv_threads (sv_keep s n r) = sv_threads s"
  "wrest f i (sv_keep s n r) = wrest f i s" "wsum f (sv_keep s n r) = wsum f s"
  by (simp_all add: sv_keep_def wsum_def)

lemma goto_keep:
  assumes "i < sv_threads s" "sv_threads t = sv_threads s" "sv_pc t = sv_pc s" "sv_events t = sv_events s" "sv_relay t = sv_relay s"
    and "sv_release t = sv_release s" "sv_main t = sv_main s"
    and "rel_option sock_same (sv_socks s n) (sv_socks t n)"
    and "\<And>k. worker_holds k n pc' = worker_holds k n (sv_pc s i)" "worker_refs n pc' \<le> worker_refs n (sv_pc s i)"
    and "of_bool (n \<in> sv_cons t) + worker_owns n pc' \<le> of_bool (n \<in> sv_cons s) + worker_owns n (sv_pc s i)"
  shows "sock_eff (srv_view n s) (srv_view n (sv_goto t i pc'))"
proof -
  have W: "wsum f (sv_goto t i pc') = wrest f i s + f pc'" for f
    using assms(1-3) by (simp add: wsum_goto) (rule wrest_cong, simp_all)
  show ?thesis
    unfolding srv_view_defs W wsum_split [OF assms(1)]
    using assms by (auto intro!: sock_eff.keep)
qed

lemma begin_eff:
  assumes "i < sv_threads s" "srv_entry_begin inp i s (sv_pc s i) = Some s'"
  shows "sock_eff (srv_view n s) (srv_view n s')"
proof (cases "sv_pc s i")
  case (WState d e)
  with assms show ?thesis by (auto intro!: goto_keep split: if_splits)
next
  case (WTry d e)
  note W = wsum_split [OF assms(1)] wsum_goto
  from assms WTry obtain sk where sk: "sv_socks s (snd e) = Some sk" by (auto split: option.splits)
  show ?thesis
  proof (cases "sk_state sk AND srv_lock_flags (fst e) = 0")
    case True
    with assms WTry sk show ?thesis
      by (cases "fst e"; cases "n = snd e") (auto simp: srv_view_defs W trylock_eq intro!: sock_eff.lock sock_eff.keep)
  next
    case False
    with assms WTry sk show ?thesis
      by (cases "fst e") (auto simp: trylock_eq intro!: goto_keep)
  qed
qed (use assms in simp_all)

lemma work_eff:
  assumes "i < sv_threads s" "srv_entry_work inp i s (sv_pc s i) = Some s'"
  shows "sock_eff (srv_view n s) (srv_view n s')"
  using assms
  by (cases "sv_pc s i")
    (auto simp: sv_upd_eq vtm_socket_stream_srv_sock_check_def sv_set_def split: if_splits close_next.splits intro!: goto_keep)

lemma wrest_signal:
  assumes "sv_signal w s = Some s'" "f WBlocked = f WRelock"
  shows "wrest f i s' = wrest f i s" "wsum f s' = wsum f s"
proof -
  from assms(1) obtain p where p: "s' = s\<lparr>sv_pc := p\<rparr>" "\<forall>j. p j = sv_pc s j \<or> sv_pc s j = WBlocked \<and> p j = WRelock"
    by (rule sv_signal_eq)
  have "f (p j) = f (sv_pc s j)" for j using spec [OF p(2), of j] assms(2) by auto
  then show "wrest f i s' = wrest f i s" "wsum f s' = wsum f s" by (simp_all add: p(1) wrest_def wsum_def)
qed

lemma signal_frame:
  assumes "sv_signal w s = Some s'"
  shows "sv_threads s' = sv_threads s" "sv_events s' = sv_events s" "sv_relay s' = sv_relay s" "sv_release s' = sv_release s"
    "sv_cons s' = sv_cons s" "sv_main s' = sv_main s" "sv_socks s' = sv_socks s" "sv_next s' = sv_next s"
  using assms by (auto elim!: sv_signal_eq)

lemma end_eff:
  assumes "i < sv_threads s" "srv_entry_end inp i s (sv_pc s i) = Some s'"
  shows "sock_eff (srv_view n s) (srv_view n s')"
proof (cases "sv_pc s i")
  note W = srv_view_defs wsum_split [OF assms(1)] wsum_goto
  {
    case (WRelease d e)
    with assms show ?thesis
      by (cases "n = snd e", (auto simp: W sv_ref_eq intro!: sock_eff.ref)[1], auto simp: W sv_ref_eq intro!: sock_eff.keep)
  next
    case (WReleaseAdd d e)
    with assms show ?thesis by (auto simp: W split: if_splits intro!: sock_eff.keep)
  next
    case (WUnlock d e)
    with assms show ?thesis
      by (cases "n = snd e", (auto simp: W sv_upd_eq vtm_socket_stream_srv_sock_unlock_def intro!: sock_eff.unlock)[1],
        auto simp: W sv_upd_eq intro!: sock_eff.keep)
  next
    case (WAgain d e)
    with assms show ?thesis
      by (cases "n = snd e", (auto simp: W sv_ref_eq intro!: sock_eff.ref)[1], auto simp: W sv_ref_eq intro!: sock_eff.keep)
  next
    case (WAgainAdd d e)
    with assms obtain t where "sv_signal (in_wake inp) (s\<lparr>sv_events := sv_events s @ [e]\<rparr>) = Some t" "s' = sv_goto t i (WUnref d e)"
      by (auto simp: vtm_socket_stream_srv_add_event_def split: if_splits)
    with assms(1) WAgainAdd show ?thesis
      by (cases e) (auto simp: W signal_frame wrest_signal intro!: sock_eff.keep)
  next
    case (WUnref d e)
    with assms show ?thesis
      by (cases "n = snd e", (auto simp: W sv_unref_eq worker_next_def intro!: sock_eff.unref)[1],
        auto simp: W sv_unref_eq worker_next_def intro!: sock_eff.keep)
  }
qed (use assms in simp_all)

lemma sv_at_simps [simp]:
  "sv_events (sv_at s pc) = sv_events s" "sv_relay (sv_at s pc) = sv_relay s" "sv_release (sv_at s pc) = sv_release s"
  "sv_cons (sv_at s pc) = sv_cons s" "sv_socks (sv_at s pc) = sv_socks s" "sv_main (sv_at s pc) = pc"
  "sv_next (sv_at s pc) = sv_next s" "sv_threads (sv_at s pc) = sv_threads s" "wsum f (sv_at s pc) = wsum f s"
  "sv_pc (sv_at s pc) = sv_pc s"
  by (simp_all add: sv_at_def wsum_def)

lemma wsum_upd [simp]:
  "wsum f (s\<lparr>sv_events := es\<rparr>) = wsum f s" "wsum f (s\<lparr>sv_mtx := mt\<rparr>) = wsum f s"
  "wsum f (s\<lparr>sv_release := ns\<rparr>) = wsum f s" "wsum f (s\<lparr>sv_socks := sks\<rparr>) = wsum f s" "wsum f (s\<lparr>sv_run := x\<rparr>) = wsum f s"
  "wsum f (s\<lparr>sv_running := r\<rparr>) = wsum f s" "wsum f (s\<lparr>sv_relay := es\<rparr>) = wsum f s" "wsum f (s\<lparr>sv_next := x\<rparr>) = wsum f s"
  by (simp_all add: wsum_def)

lemma signal_all_frame [simp]:
  "sv_threads (sv_signal_all s) = sv_threads s" "sv_events (sv_signal_all s) = sv_events s" "sv_relay (sv_signal_all s) = sv_relay s"
  "sv_release (sv_signal_all s) = sv_release s" "sv_cons (sv_signal_all s) = sv_cons s" "sv_main (sv_signal_all s) = sv_main s"
  "sv_socks (sv_signal_all s) = sv_socks s" "sv_next (sv_signal_all s) = sv_next s"
  "f WBlocked = f WRelock \<Longrightarrow> wsum f (sv_signal_all s) = wsum f s"
  by (auto simp: sv_signal_all_def wsum_def intro!: sum.cong)

lemma main_counts [simp]:
  "main_refs n (MUnref m evs) = of_bool (m = n)" "main_refs n (MAdd m) = of_bool (m = n)"
  "main_owns n (MRef m) = of_bool (m = n)" "main_owns n (MAdd m) = of_bool (m = n)"
  "(\<And>m evs. pc \<noteq> MUnref m evs) \<Longrightarrow> (\<And>m. pc \<noteq> MAdd m) \<Longrightarrow> main_refs n pc = 0"
  "(\<And>m. pc \<noteq> MRef m) \<Longrightarrow> (\<And>m. pc \<noteq> MAdd m) \<Longrightarrow> main_owns n pc = 0"
  by (auto simp: main_refs_def main_owns_def split: main_pc.splits)

lemma sv_set_triv: "sv_socks s n = Some sk \<Longrightarrow> sv_set s n sk = s"
  by (simp add: sv_set_def fun_upd_idem)

lemma sock_same_ref: "sock_same sk sk1 \<Longrightarrow> sock_same (sk\<lparr>sk_refcount := x\<rparr>) (sk1\<lparr>sk_refcount := x\<rparr>)"
  by (simp add: sock_same_def)

lemma main_view:
  "main_refs n pc = main_refs n (sv_main s) \<Longrightarrow> main_owns n pc = main_owns n (sv_main s) \<Longrightarrow> srv_view n (sv_at s pc) = srv_view n s"
  by (simp add: srv_view_defs)

lemma set_eff: "sv_socks s m = Some sk \<Longrightarrow> sock_same sk sk1 \<Longrightarrow> sock_eff (srv_view n s) (srv_view n (sv_set s m sk1))"
  by (cases "n = m") (auto simp: srv_view_defs intro!: sock_eff.keep)

lemma view_refl [simp]: "sock_eff (srv_view n s) (srv_view n s)"
  by (simp add: srv_view_def sock_eff.keep)

lemma ref_event_eff:
  assumes "sv_socks s m = Some sk" "sock_same sk sk1" "sk_refcount sk \<noteq> 255" "t \<noteq> VTM_SOCK_SRV_ACCEPTED"
  shows "sock_eff (srv_view n s)
    (srv_view n ((sv_set s m (sk1\<lparr>sk_refcount := sk_refcount sk1 + 1\<rparr>))\<lparr>sv_events := sv_events s @ [(t, m)]\<rparr>))"
proof (cases "n = m")
  case True
  from assms(2) have "sock_same (sk\<lparr>sk_refcount := sk_refcount sk + 1\<rparr>) (sk1\<lparr>sk_refcount := sk_refcount sk1 + 1\<rparr>)"
    by (simp add: sock_same_def)
  with True assms show ?thesis by (auto simp: srv_view_defs intro!: sock_eff.ref)
next
  case False
  with assms show ?thesis by (auto simp: srv_view_defs intro!: sock_eff.keep)
qed

lemma create_event_eff:
  assumes "vtm_socket_stream_srv_create_event mem t m (sv_set s m sk1) = Some r" "t \<noteq> VTM_SOCK_SRV_ACCEPTED"
    and "sv_socks s m = Some sk" "sock_same sk sk1"
    and "s' = (case r of Inl x \<Rightarrow> sv_at x pc1 | Inr x \<Rightarrow> sv_at x pc2)"
    and "\<And>pc. pc \<in> {pc1, pc2} \<Longrightarrow> main_refs n pc = main_refs n (sv_main s) \<and> main_owns n pc = main_owns n (sv_main s)"
  shows "sock_eff (srv_view n s) (srv_view n s')"
proof (cases mem)
  case True
  with assms(1) have r: "r = Inr ((sv_set s m (sk1\<lparr>sk_refcount := sk_refcount sk1 + 1\<rparr>))\<lparr>sv_events := sv_events s @ [(t, m)]\<rparr>)"
    and "sk_refcount sk1 \<noteq> 255"
    by (auto simp: vtm_socket_stream_srv_create_event_def sv_ref_eq) (simp add: sv_set_def)
  with assms(4) have "sk_refcount sk \<noteq> 255" by (simp add: sock_same_def)
  with assms(2-6) show ?thesis by (simp add: r main_view ref_event_eff)
next
  case False
  with assms show ?thesis by (auto simp: vtm_socket_stream_srv_create_event_def main_view set_eff)
qed

lemma listener_event_eff:
  assumes "srv_listener_event mem rc m fl evs acc s = Some s'" "sv_main s = MEvents evs0 acc0"
  shows "sock_eff (srv_view n s) (srv_view n s')"
proof -
  have post: "sock_eff (srv_view n s) (srv_view n s1)"
    if "map_option (\<lambda>r. case r of Inl x \<Rightarrow> sv_at x (MUnlock True acc) | Inr x \<Rightarrow> sv_at x (MEvents rest acc))
          (vtm_socket_stream_srv_create_event mem t m (sv_set s m sk1)) = Some s1"
      "t \<noteq> VTM_SOCK_SRV_ACCEPTED" "sv_socks s m = Some sk" "sock_same sk sk1" for s1 t sk sk1 rest
    using that assms(2) by (auto elim!: create_event_eff [where ?pc1.0 = "MUnlock True acc" and ?pc2.0 = "MEvents rest acc"])
  show ?thesis
  proof (cases "sv_socks s m")
    case None
    with assms show ?thesis
      by (auto simp: srv_listener_event_def Let_def sv_upd_def main_view vtm_socket_stream_srv_create_event_def sv_ref_eq
          split: if_splits intro!: sock_eff.keep)
  next
    case (Some sk)
    have post1: "sock_eff (srv_view n s) (srv_view n s1)"
      if "map_option (\<lambda>r. case r of Inl x \<Rightarrow> sv_at x (MUnlock True acc) | Inr x \<Rightarrow> sv_at x (MEvents rest acc))
            (vtm_socket_stream_srv_create_event mem t m s) = Some s1" "t \<noteq> VTM_SOCK_SRV_ACCEPTED" for s1 t rest
      using post [of rest t sk s1 sk] that Some by (simp add: sv_set_triv)
    note post2 = post [OF _ _ Some sock_same_close]
    from assms Some show ?thesis
      by (auto simp: srv_listener_event_def Let_def sv_upd_def main_view split: if_splits simp del: map_option_eq_Some intro: post1 post2)
  qed
qed

lemma loop_eff:
  assumes "refs_inv s" "srv_main_loop inp s (sv_main s) = Some s'"
  shows "sock_eff (srv_view n s) (srv_view n s')"
proof (cases "sv_main s")
  case (MRelease evs)
  show ?thesis
  proof (cases "sv_release s")
    case Nil
    with assms MRelease show ?thesis by (auto simp: main_view)
  next
    case (Cons m ns)
    with assms(2) MRelease obtain sk where sk: "sv_socks s m = Some sk"
      and s': "s' = sv_at (sv_keep (s\<lparr>sv_release := ns\<rparr>) m (vtm_socket_enable_free_on_unref sk)) (MUnref m evs)"
      by auto
    from assms(1) Cons sk have "sk_refcount sk \<noteq> 0" by (fastforce simp: refs_inv_def srv_refs_def)
    then show ?thesis
      using MRelease Cons sk
      by (auto simp: s' srv_view_defs vtm_socket_enable_free_on_unref_def Let_def sock_same_def sock_stat_defs bit_simps
          intro!: sock_eff.keep)
  qed
next
  case (MUnref m evs)
  with assms show ?thesis
    by (cases "n = m", (auto simp: srv_view_defs sv_unref_eq intro!: sock_eff.unref)[1],
        auto simp: srv_view_defs sv_unref_eq intro!: sock_eff.keep)
next
  case (MEvents evs acc)
  with assms listener_event_eff [of "in_ok inp" "in_rc inp" _ _ _ acc s s' evs acc n] show ?thesis
    by (cases evs) (auto simp: main_view)
qed (use assms in \<open>auto simp: srv_view_defs sv_lock_def sv_unlock_def split: if_splits intro!: sock_eff.keep\<close>)

text \<open>Accepting a connection is the one step that makes a socket.\<close>

definition srv_accepting :: "srv_in \<Rightarrow> srv \<Rightarrow> bool" where
  "srv_accepting inp s \<longleftrightarrow> in_rc inp = VTM_OK \<and> (\<exists>errc. sv_main s = MAccept errc)"

lemma accept_eff:
  assumes "vtm_socket_stream_srv_accept inp s (sv_main s) = Some s'" "\<not> srv_accepting inp s"
  shows "sock_eff (srv_view n s) (srv_view n s')"
proof (cases "sv_main s")
  case (MAccept errc)
  with assms show ?thesis by (auto simp: srv_accepting_def main_view)
next
  case (MRef m)
  with assms show ?thesis
    by (cases "n = m", (auto simp: srv_view_defs sv_ref_eq intro!: sock_eff.ref)[1], auto simp: srv_view_defs sv_ref_eq intro!: sock_eff.keep)
next
  case (MAdd m)
  with assms(1) obtain t where
    "sv_signal (in_wake inp) (s\<lparr>sv_events := sv_events s @ [(VTM_SOCK_SRV_ACCEPTED, m)]\<rparr>) = Some t" "s' = sv_at t (MAccept 0)"
    by (auto simp: vtm_socket_stream_srv_add_event_def split: if_splits)
  with MAdd show ?thesis by (auto simp: srv_view_defs signal_frame wrest_signal intro!: sock_eff.keep)
qed (use assms in simp_all)

lemma end_main_eff:
  assumes "srv_main_end inp s (sv_main s) = Some s'" "sv_main s \<noteq> MFree"
  shows "sock_eff (srv_view n s) (srv_view n s')"
proof (cases "sv_main s")
  case MClear
  show ?thesis
  proof (cases "sv_events s")
    case (Cons e es)
    with MClear assms show ?thesis
      by (cases e, cases "n = snd e", (auto simp: srv_view_defs sv_unref_eq intro!: sock_eff.unref)[1],
          auto simp: srv_view_defs sv_unref_eq intro!: sock_eff.keep)
  qed (use MClear assms in \<open>auto simp: main_view split: if_splits\<close>)
next
  case (MClose ns)
  show ?thesis
  proof (cases ns)
    case (Cons m ms)
    with MClose assms(1) obtain sk r where "sv_socks s m = Some sk"
      "vtm_socket_stream_srv_create_event (in_ok inp) VTM_SOCK_SRV_CLOSED m (sv_set s m (sock_close (in_rc inp) sk)) = Some r"
      "s' = (case r of Inl x \<Rightarrow> sv_at x MDrained | Inr x \<Rightarrow> sv_at x (MClose ms))"
      by (auto simp: Option.bind_eq_Some_conv sv_upd_eq)
    with MClose show ?thesis by (auto intro!: create_event_eff)
  qed (use MClose assms in \<open>auto simp: main_view\<close>)
qed (use assms in \<open>auto simp: srv_view_defs sv_lock_def sv_unlock_def split: if_splits intro!: sock_eff.keep\<close>)

lemma update_eff:
  assumes "vtm_socket_stream_srv_sock_cb_update inp m s = Some s'"
  shows "sock_eff (srv_view n s) (srv_view n s')"
proof -
  have relay: "sock_eff (srv_view n s) (srv_view n s1)"
    if "vtm_socket_stream_srv_create_relay_event mem t m (sv_set s m (sk1\<lparr>sk_refcount := sk_refcount sk + 1\<rparr>)) = Some s1"
      "sv_socks s m = Some sk" "sk_refcount sk \<noteq> 255" "sock_same sk sk1" "t \<noteq> VTM_SOCK_SRV_ACCEPTED" for s1 sk sk1 mem t
    using that sock_same_ref [OF that(4), of "sk_refcount sk + 1"]
    by (cases "n = m", (auto simp: srv_view_defs vtm_socket_stream_srv_create_relay_event_def split: if_splits intro!: sock_eff.ref)[1],
        auto simp: srv_view_defs vtm_socket_stream_srv_create_relay_event_def split: if_splits intro!: sock_eff.keep)
  have same: "sock_close rc (sk\<lparr>sk_refcount := x\<rparr>) = (sock_close rc sk)\<lparr>sk_refcount := x\<rparr>" for rc sk x
    by (simp add: sock_close_def vtm_socket_close_def sock_unless_closed_def VTM_SOCKET_IS_CLOSED_def)
  have twice: "sv_set (sv_set s m x) m y = sv_set s m y" for x y by (simp add: sv_set_def)
  from assms show ?thesis
    by (auto simp: vtm_socket_stream_srv_sock_cb_update_def Option.bind_eq_Some_conv sv_ref_eq sv_upd_eq same twice
        split: option.splits if_splits intro: relay)
qed

lemma touch_eff: "sv_upd s m (sock_touch sk) = Some s' \<Longrightarrow> sock_eff (srv_view n s) (srv_view n s')"
  by (auto simp: sv_upd_eq set_eff)

lemma spurious_eff:
  "i < sv_threads s \<Longrightarrow> sv_pc s i = WBlocked \<Longrightarrow> sock_eff (srv_view n s) (srv_view n (sv_goto s i WRelock))"
  by (auto intro!: goto_keep)

lemma stop_eff: "sock_eff (srv_view n s) (srv_view n (vtm_socket_stream_srv_stop s))"
  by (auto simp: srv_view_defs vtm_socket_stream_srv_stop_def intro!: sock_eff.keep)

lemmas srv_effs = run_eff begin_eff work_eff end_eff loop_eff accept_eff end_main_eff update_eff touch_eff spurious_eff stop_eff

lemma worker_frame:
  assumes "vtm_socket_stream_srv_worker_run inp i s (sv_pc s i) = Some s' \<or> srv_entry_begin inp i s (sv_pc s i) = Some s'
    \<or> srv_entry_work inp i s (sv_pc s i) = Some s' \<or> srv_entry_end inp i s (sv_pc s i) = Some s'"
  shows "sv_next s' = sv_next s \<and> sv_threads s' = sv_threads s \<and> sv_main s' = sv_main s"
  using assms
  by (cases "sv_pc s i")
    (auto simp: sv_lock_def sv_unlock_def sv_ref_eq sv_unref_eq sv_upd_eq trylock_eq vtm_socket_stream_srv_add_event_def signal_frame
      split: list.splits if_splits option.splits srv_entry_type.splits)

definition main_frame :: "srv \<Rightarrow> srv \<Rightarrow> bool" where
  "main_frame s s' \<longleftrightarrow> sv_next s' = sv_next s \<and> sv_threads s' = sv_threads s \<and> sv_pc s' = sv_pc s \<and> \<not> srv_freeing s'"

lemma create_event_frame:
  assumes "vtm_socket_stream_srv_create_event mem t n s1 = Some r"
    and "sv_next s1 = sv_next s" "sv_threads s1 = sv_threads s" "sv_pc s1 = sv_pc s" "pc1 \<notin> {MFree, MEnd}" "pc2 \<notin> {MFree, MEnd}"
  shows "main_frame s (case r of Inl x \<Rightarrow> sv_at x pc1 | Inr x \<Rightarrow> sv_at x pc2)"
  using assms by (auto simp: vtm_socket_stream_srv_create_event_def main_frame_def srv_freeing_def sv_ref_eq sv_set_def split: if_splits)

lemma listener_event_frame: "srv_listener_event mem rc m fl evs acc s = Some s' \<Longrightarrow> main_frame s s'"
  by (auto simp: srv_listener_event_def Let_def Option.bind_eq_Some_conv sv_upd_eq sv_set_def split: if_splits
      intro!: create_event_frame) (simp_all add: main_frame_def srv_freeing_def)

lemma main_loop_frame:
  assumes "srv_main_loop inp s (sv_main s) = Some s'"
  shows "sv_next s' = sv_next s \<and> sv_threads s' = sv_threads s \<and> \<not> srv_freeing s'"
proof (cases "sv_main s")
  case (MEvents evs acc)
  with assms show ?thesis
    by (cases evs) (auto simp: srv_freeing_def dest!: listener_event_frame simp: main_frame_def)
qed (use assms in \<open>auto simp: srv_freeing_def sv_lock_def sv_unlock_def sv_unref_eq split: if_splits list.splits\<close>)

lemma accept_frame:
  assumes "vtm_socket_stream_srv_accept inp s (sv_main s) = Some s'"
  shows "(srv_accepting inp s \<or> sv_next s' = sv_next s) \<and> sv_threads s' = sv_threads s \<and> \<not> srv_freeing s'"
  using assms
  by (cases "sv_main s")
    (auto simp: srv_accepting_def srv_freeing_def sv_ref_eq vtm_socket_stream_srv_add_event_def signal_frame split: if_splits)

lemma main_end_frame:
  assumes "srv_main_end inp s (sv_main s) = Some s'"
  shows "sv_next s' = sv_next s \<and> sv_threads s' = sv_threads s \<and> (srv_freeing s' \<longrightarrow> sv_main s \<in> {MJoin, MFree})"
proof (cases "sv_main s")
  case (MClose ns)
  with assms show ?thesis
    by (cases ns) (auto simp: srv_freeing_def Option.bind_eq_Some_conv sv_upd_eq vtm_socket_stream_srv_create_event_def sv_ref_eq split: if_splits)
qed (use assms in \<open>auto simp: srv_freeing_def sv_lock_def sv_unlock_def sv_unref_eq split: if_splits list.splits\<close>)

lemma update_frame:
  assumes "vtm_socket_stream_srv_sock_cb_update inp m s = Some s'"
  shows "sv_next s' = sv_next s \<and> sv_threads s' = sv_threads s \<and> sv_main s' = sv_main s \<and> sv_pc s' = sv_pc s
    \<and> sv_release s' = sv_release s \<and> (\<forall>n. sv_socks s' n = None \<longleftrightarrow> sv_socks s n = None)"
  using assms
  by (auto simp: vtm_socket_stream_srv_sock_cb_update_def vtm_socket_stream_srv_create_relay_event_def Option.bind_eq_Some_conv
      sv_ref_eq sv_upd_eq sv_set_def split: option.splits if_splits)

text \<open>Every other step, but the freeing of sockets at the end, has an effect on a socket.\<close>

lemma step_cases:
  assumes "srv_step s s'" "refs_inv s"
  obtains (effect) "\<forall>n. sock_eff (srv_view n s) (srv_view n s')" "sv_next s' = sv_next s"
  | (accepted) inp where "srv_accepting inp s" "vtm_socket_stream_srv_accept inp s (sv_main s) = Some s'"
  | (freed) inp where "sv_main s = MFree" "srv_main_end inp s (sv_main s) = Some s'"
  using assms(1)
proof (cases rule: srv_step.cases)
  case (accept inp)
  then show thesis using accept_eff [OF accept] accept_frame [OF accept] that(1,2) by blast
next
  case (main_end inp)
  then show thesis using end_main_eff [OF main_end] main_end_frame [OF main_end] that(1,3) by blast
next
  case (run i inp)
  then show thesis using run_eff worker_frame that(1) by meson
next
  case (entry_begin i inp)
  then show thesis using begin_eff worker_frame that(1) by meson
next
  case (entry_work i inp)
  then show thesis using work_eff worker_frame that(1) by meson
next
  case (entry_end i inp)
  then show thesis using end_eff worker_frame that(1) by meson
next
  case (main_loop inp)
  then show thesis using loop_eff [OF assms(2)] main_loop_frame that(1) by meson
next
  case stop
  then show thesis using stop_eff that(1) by (simp add: vtm_socket_stream_srv_stop_def)
next
  case (touch n sk)
  then show thesis using touch_eff [OF touch] that(1) by (auto simp: sv_upd_eq)
next
  case (update inp n)
  then show thesis using update_eff update_frame that(1) by meson
next
  case (spurious i)
  then show thesis using spurious_eff that(1) by simp
qed

subsection \<open>The invariant\<close>

fun view_inv :: "sock_view \<Rightarrow> bool" where
  "view_inv (sk, r, w, h) \<longleftrightarrow> w \<le> 1 \<and>
     (case sk of
        None \<Rightarrow> True
      | Some sk \<Rightarrow> r \<le> unat (sk_refcount sk) \<and> h 7 = of_bool (bit (sk_state sk) 7) \<and> h 8 = of_bool (bit (sk_state sk) 8))"

definition srv_inv :: "srv \<Rightarrow> bool" where
  "srv_inv s \<longleftrightarrow> (\<forall>n. view_inv (srv_view n s)) \<and> alive_inv s \<and> (\<forall>n\<ge>sv_next s. srv_refs n s = 0 \<and> srv_owners n s = 0 \<and> sv_socks s n = None)"

lemma and_zero_bit: "(x::u32) AND y = 0 \<Longrightarrow> bit y k \<Longrightarrow> \<not> bit x k"
  by (metis bit_and_iff bit_0_eq bot_apply bot_bool_def)

lemma eff_inv: "sock_eff v v' \<Longrightarrow> view_inv v \<Longrightarrow> view_inv v'"
  by (induction rule: sock_eff.induct)
    (auto simp: sock_same_def option.rel_sel unat_byte_incr unat_byte_decr bit_simps of_bool_def dest: and_zero_bit split: option.splits if_splits)

lemma eff_alive: "sock_eff v v' \<Longrightarrow> view_inv v \<Longrightarrow> 0 < fst (snd v) \<longrightarrow> fst v \<noteq> None \<Longrightarrow> 0 < fst (snd v') \<longrightarrow> fst v' \<noteq> None"
  by (induction rule: sock_eff.induct) (auto simp: option.rel_sel)

lemma eff_fresh: "sock_eff v v' \<Longrightarrow> v = (None, 0, 0, h) \<Longrightarrow> \<exists>h'. v' = (None, 0, 0, h')"
  by (induction rule: sock_eff.induct) auto

lemma srv_inv_refs: "srv_inv s \<Longrightarrow> refs_inv s"
  by (auto simp: srv_inv_def refs_inv_def srv_view_def split: option.splits dest!: spec)

text \<open>While the sockets are freed no worker is left: only the main thread and the world take steps.\<close>

lemma freeing_alive:
  assumes "srv_step s s'" "srv_inv s" "srv_freeing s"
  shows "alive_inv s'"
proof -
  from assms have alive: "\<forall>n\<in>set (sv_release s). sv_socks s n \<noteq> None" and ended: "\<forall>i < sv_threads s. sv_pc s i = WEnd"
    and main: "sv_main s \<in> {MFree, MEnd}"
    by (auto simp: srv_inv_def alive_inv_def srv_freeing_def)
  from assms(2) have once: "count_list (sv_release s) n \<le> 1" for n
    by (fastforce simp: srv_inv_def srv_view_defs dest!: spec [of _ n])
  from assms(1) show ?thesis
  proof (cases rule: srv_step.cases)
    case (main_end inp)
    then show ?thesis
    proof (cases "sv_release s")
      case (Cons n ns)
      with once [of n] have "n \<notin> set ns" by (auto simp: count_list_0_iff)
      with main_end main alive ended Cons show ?thesis by (auto simp: alive_inv_def srv_freeing_def)
    qed (use main_end main alive ended in \<open>auto simp: alive_inv_def srv_freeing_def\<close>)
  next
    case (update inp n)
    with alive ended main update_frame [OF update] show ?thesis by (auto simp: alive_inv_def srv_freeing_def)
  qed (use alive ended main in \<open>auto simp: alive_inv_def srv_freeing_def sv_upd_eq vtm_socket_stream_srv_stop_def\<close>)
qed

lemma step_main:
  assumes "srv_step s s'"
  shows "sv_main s' = sv_main s \<or> \<not> srv_freeing s' \<or> (\<exists>inp. srv_main_end inp s (sv_main s) = Some s')"
  using assms
  by (cases rule: srv_step.cases)
    (use worker_frame main_loop_frame accept_frame update_frame in \<open>blast | auto simp: sv_upd_eq vtm_socket_stream_srv_stop_def\<close>)+

lemma starts_freeing:
  assumes "srv_step s s'" "\<not> srv_freeing s" "srv_freeing s'"
  shows "s' = sv_at s MFree" "\<forall>i < sv_threads s. sv_pc s i = WEnd"
proof -
  from assms step_main [OF assms(1)] obtain inp where e: "srv_main_end inp s (sv_main s) = Some s'"
    by (auto simp: srv_freeing_def)
  with assms(2,3) main_end_frame [OF e] have "sv_main s = MJoin" by (auto simp: srv_freeing_def)
  with e show "s' = sv_at s MFree" "\<forall>i < sv_threads s. sv_pc s i = WEnd" by (auto split: if_splits)
qed

lemma srv_inv_effect:
  assumes "srv_inv s" "\<forall>n. sock_eff (srv_view n s) (srv_view n s')" "sv_next s' = sv_next s" "srv_step s s'"
  shows "srv_inv s'"
proof -
  from assms(1) have views: "\<forall>n. view_inv (srv_view n s)"
    and fresh: "\<forall>n\<ge>sv_next s. srv_refs n s = 0 \<and> srv_owners n s = 0 \<and> sv_socks s n = None"
    by (simp_all add: srv_inv_def)
  have "alive_inv s'"
  proof (cases "srv_freeing s'")
    case True
    show ?thesis
    proof (cases "srv_freeing s")
      case False
      from starts_freeing [OF assms(4) False True] assms(1) False
      show ?thesis by (fastforce simp: srv_inv_def alive_inv_def srv_freeing_def srv_refs_def count_list_0_iff)
    qed (use freeing_alive [OF assms(4,1)] in blast)
  next
    case False
    show ?thesis
    proof (cases "srv_freeing s")
      case nf: False
      have "0 < srv_refs n s' \<longrightarrow> sv_socks s' n \<noteq> None" for n
        using eff_alive [OF spec [OF assms(2), of n]] views nf assms(1) by (simp add: srv_view_def srv_inv_def alive_inv_def)
      with False show ?thesis by (simp add: alive_inv_def)
    qed (use freeing_alive [OF assms(4,1)] in blast)
  qed
  moreover have "\<forall>n. view_inv (srv_view n s')" using assms(2) views eff_inv by blast
  moreover have "srv_refs n s' = 0 \<and> srv_owners n s' = 0 \<and> sv_socks s' n = None" if "sv_next s \<le> n" for n
    using eff_fresh [OF spec [OF assms(2), of n]] fresh that by (auto simp: srv_view_def)
  ultimately show ?thesis using assms(3) by (simp add: srv_inv_def)
qed

lemma srv_new_socket_simps [simp]: "sk_state (srv_new_socket sk) = 0" "sk_refcount (srv_new_socket sk) = 0"
  by (simp_all add: srv_new_socket_def vtm_socket_make_threadsafe_def vtm_socket_base_init_def sock_stat_defs)

lemma srv_inv_accepted:
  assumes "srv_inv s" "srv_accepting inp s" "vtm_socket_stream_srv_accept inp s (sv_main s) = Some s'"
  shows "srv_inv s'"
proof -
  define m where "m = sv_next s"
  define pc where "pc = (if in_ok inp then MRef m else MFinish)"
  from assms(2,3) have s': "s' = sv_at (sv_set (s\<lparr>sv_next := m + 1\<rparr>) m (srv_new_socket (in_sock inp))) pc"
    and main: "\<exists>errc. sv_main s = MAccept errc"
    by (auto simp: srv_accepting_def m_def pc_def)
  from assms(1) have views: "\<forall>n. view_inv (srv_view n s)"
    and fresh: "\<forall>n\<ge>m. srv_refs n s = 0 \<and> srv_owners n s = 0 \<and> sv_socks s n = None"
    and alive: "\<forall>n. 0 < srv_refs n s \<longrightarrow> sv_socks s n \<noteq> None"
    using main by (auto simp: srv_inv_def m_def alive_inv_def srv_freeing_def)
  have refs: "srv_refs n s' = srv_refs n s" and owns: "srv_owners n s' \<le> srv_owners n s + of_bool (n = m)" for n
    using main by (auto simp: srv_refs_def srv_owners_def s' pc_def)
  have holds: "wsum (worker_holds k m) s = 0" for k
  proof -
    have "wsum (worker_holds k m) s \<le> wsum (worker_refs m) s" by (rule wsum_mono) (rule worker_holds_le)
    also have "\<dots> = 0" using fresh by (simp add: srv_refs_def)
    finally show ?thesis by simp
  qed
  have "view_inv (srv_view n s')" for n
  proof (cases "n = m")
    case True
    then show ?thesis using fresh owns [of n] refs [of n] holds by (simp add: srv_view_def s')
  next
    case False
    then show ?thesis using spec [OF views, of n] owns [of n] refs [of n] by (simp add: srv_view_def s')
  qed
  moreover have "alive_inv s'" using alive refs by (auto simp: alive_inv_def srv_freeing_def s' pc_def)
  moreover have "srv_refs n s' = 0 \<and> srv_owners n s' = 0 \<and> sv_socks s' n = None" if "m + 1 \<le> n" for n
    using fresh refs [of n] owns [of n] that by (auto simp: s')
  ultimately show ?thesis by (simp add: srv_inv_def s')
qed

lemma view_inv_less:
  "view_inv (sk, r, w, h) \<Longrightarrow> sk' = None \<or> sk' = sk \<Longrightarrow> r' \<le> r \<Longrightarrow> w' \<le> w \<Longrightarrow> view_inv (sk', r', w', h)"
  by (auto split: option.splits)

lemma srv_inv_freed:
  assumes "srv_inv s" "sv_main s = MFree" "srv_main_end inp s (sv_main s) = Some s'"
  shows "srv_inv s'"
proof -
  from assms(2,3) have less: "srv_refs n s' \<le> srv_refs n s" "srv_owners n s' \<le> srv_owners n s"
    and socks: "sv_socks s' n = None \<or> sv_socks s' n = sv_socks s n" and holds: "wsum f s' = wsum f s" for n f
    by (auto simp: srv_refs_def srv_owners_def split: list.splits if_splits)
  have "view_inv (srv_view n s')" for n
    using assms(1) less socks unfolding srv_inv_def srv_view_def holds by (blast intro: view_inv_less)
  moreover have "alive_inv s'"
    using freeing_alive [OF srv_step.main_end [OF assms(3)] assms(1)] assms(2) by (simp add: srv_freeing_def)
  moreover have "srv_refs n s' = 0 \<and> srv_owners n s' = 0 \<and> sv_socks s' n = None" if "sv_next s \<le> n" for n
    using assms(1) less [of n] socks [of n] that by (auto simp: srv_inv_def)
  ultimately show ?thesis using main_end_frame [OF assms(3)] by (simp add: srv_inv_def)
qed

lemma srv_inv_init: "srv_inv (srv_init threads sk)"
proof -
  have "wsum f (srv_init threads sk) = 0" if "f WStart = 0" for f using that by (simp add: wsum_def srv_init_def)
  then have "srv_refs n (srv_init threads sk) = 0" "srv_owners n (srv_init threads sk) = 0"
    "wsum (worker_holds k n) (srv_init threads sk) = 0" for n k
    by (simp_all add: srv_refs_def srv_owners_def) (simp_all add: srv_init_def)
  then show ?thesis
    by (auto simp: srv_inv_def srv_view_def alive_inv_def srv_freeing_def)
      (auto simp: srv_init_def sock_stat_defs)
qed

lemma srv_reach_inv: "srv_reach s \<Longrightarrow> srv_inv s"
proof (induction rule: srv_reach.induct)
  case (init threads sk)
  show ?case by (rule srv_inv_init)
next
  case (step s s')
  from step.hyps(2) srv_inv_refs [OF step.IH] show ?case
    by (cases rule: step_cases) (use step in \<open>blast intro: srv_inv_effect srv_inv_accepted srv_inv_freed\<close>)+
qed

subsection \<open>Sockets in the hands of workers\<close>

lemma worker_entry_refs: "worker_entry pc = Some (t, n) \<Longrightarrow> 0 < worker_refs n pc"
  by (cases pc) auto

lemma worker_section_entry: "worker_section pc = Some e \<Longrightarrow> worker_entry pc = Some e"
  by (cases pc) (auto simp: worker_section_def)

lemma worker_sock:
  assumes "srv_reach s" "i < sv_threads s" "worker_entry (sv_pc s i) = Some (t, n)"
  obtains sk where "sv_socks s n = Some sk"
proof -
  from assms have "0 < srv_refs n s"
    by (auto simp: srv_refs_def wsum_split [OF assms(2)] dest: worker_entry_refs)
  moreover from assms srv_reach_inv [OF assms(1)] have "\<not> srv_freeing s" by (auto simp: srv_inv_def alive_inv_def split: if_splits)
  ultimately have "sv_socks s n \<noteq> None" using srv_reach_inv [OF assms(1)] by (simp add: srv_inv_def alive_inv_def)
  with that show ?thesis by blast
qed

lemma distinct_count: "\<forall>n. count_list xs n \<le> 1 \<Longrightarrow> distinct xs"
proof (induction xs)
  case (Cons x xs)
  from spec [OF Cons.prems, of x] have "x \<notin> set xs" by (simp add: count_list_0_iff)
  moreover have "\<forall>n. count_list xs n \<le> 1" using Cons.prems by (metis add_leD1 count_list.simps(2))
  ultimately show ?case using Cons.IH by simp
qed simp

end
