(* ===== verification/StreamServerRuns.thy ===== *)
theory StreamServerRuns
  imports StreamServerInv
begin

text \<open>
  What the invariants say of the runs of the stream server, with schedules that are evaluated, and two
  races: a wakeup that is lost when the server stops, and a socket the main thread uses after it has
  freed it.
\<close>

datatype srv_act = AWorker nat srv_in | AMain srv_in | AStop | ATouch nat vtm_socket | AUpdate nat srv_in

definition orelse :: "'a option \<Rightarrow> 'a option \<Rightarrow> 'a option" where
  "orelse x y = (case x of None \<Rightarrow> y | Some a \<Rightarrow> Some a)"

fun srv_do :: "srv_act \<Rightarrow> srv \<Rightarrow> srv option" where
  "srv_do (AWorker i inp) s =
     (if i < sv_threads s
      then orelse (vtm_socket_stream_srv_worker_run inp i s (sv_pc s i))
          (orelse (srv_entry_begin inp i s (sv_pc s i))
          (orelse (srv_entry_work inp i s (sv_pc s i)) (srv_entry_end inp i s (sv_pc s i))))
      else None)"
| "srv_do (AMain inp) s =
     orelse (srv_main_loop inp s (sv_main s))
       (orelse (vtm_socket_stream_srv_accept inp s (sv_main s)) (srv_main_end inp s (sv_main s)))"
| "srv_do AStop s = Some (vtm_socket_stream_srv_stop s)"
| "srv_do (ATouch n sk) s = sv_upd s n (sock_touch sk)"
| "srv_do (AUpdate n inp) s = vtm_socket_stream_srv_sock_cb_update inp n s"

fun srv_exec :: "srv_act list \<Rightarrow> srv \<Rightarrow> srv option" where
  "srv_exec [] s = Some s"
| "srv_exec (a # acts) s = Option.bind (srv_do a s) (srv_exec acts)"

lemma orelse_simps [simp]: "orelse None y = y" "orelse (Some a) y = Some a"
  by (simp_all add: orelse_def)

lemma orelse_SomeD: "orelse x y = Some a \<Longrightarrow> x = Some a \<or> y = Some a"
  by (cases x) simp_all

lemma srv_do_step: "srv_do a s = Some s' \<Longrightarrow> srv_step s s'"
  by (cases a) (auto intro: srv_step.intros split: if_splits dest!: orelse_SomeD)

lemma srv_exec_reach: "srv_exec acts s = Some s' \<Longrightarrow> srv_reach s \<Longrightarrow> srv_reach s'"
proof (induction acts arbitrary: s)
  case (Cons a acts)
  then obtain s1 where "srv_do a s = Some s1" "srv_exec acts s1 = Some s'" by (auto simp: Option.bind_eq_Some_conv)
  with Cons show ?case by (blast intro: srv_reach.step srv_do_step)
qed simp

subsection \<open>Schedules\<close>

definition sock0 :: vtm_socket where
  "sock0 = \<lparr>sk_fd = 3, sk_family = VTM_SOCK_FAM_IN4, sk_type = 1, sk_mtx = False, sk_state = 0, sk_refcount = 0,
            sk_usr_data = 0, sk_stream_srv = False\<rparr>"

definition in0 :: srv_in where
  "in0 = \<lparr>in_ok = True, in_rc = VTM_OK, in_sock = sock0, in_events = [], in_cons = [], in_wake = 0\<rparr>"

text \<open>A connection is accepted, and the first of two workers registers it.\<close>

definition run_connect :: "srv_act list" where
  "run_connect =
     [AMain in0, AMain (in0\<lparr>in_events := [(0, 1)]\<rparr>)] @ replicate 9 (AMain in0) @ [AMain (in0\<lparr>in_rc := VTM_E_IO_AGAIN\<rparr>)]
     @ replicate 12 (AWorker 0 in0)"

text \<open>The listener reports that the connection can be read and written, and each worker takes one of the entries.\<close>

definition run_both :: "srv_act list" where
  "run_both =
     run_connect @ [AMain in0, AMain (in0\<lparr>in_events := [(1, 3)]\<rparr>)] @ replicate 7 (AMain in0)
     @ replicate 5 (AWorker 0 in0) @ replicate 6 (AWorker 1 in0)"

text \<open>
  Another thread has seen an error on the connection and tells the server; a worker handles it, while the main
  thread has already been told that the socket is readable.
\<close>

definition run_error :: "srv_act list" where
  "run_error =
     run_connect @ [ATouch 1 (sock0\<lparr>sk_state := 1\<rparr>), AUpdate 1 in0] @ replicate 8 (AMain in0)
     @ [AMain (in0\<lparr>in_events := [(1, 1)]\<rparr>)] @ replicate 13 (AWorker 0 in0)"

definition run_freed :: "srv_act list" where
  "run_freed = run_error @ replicate 5 (AMain in0)"

text \<open>The server is stopped after a worker has seen it running, and before the worker waits.\<close>

definition run_lost :: "srv_act list" where
  "run_lost = replicate 4 (AWorker 0 in0) @ [AStop] @ replicate 3 (AMain in0) @ [AWorker 0 in0]"

lemma replicate_num: "replicate (numeral k) x = x # replicate (pred_numeral k) x"
  by (simp add: numeral_eq_Suc)

lemmas run_simps = run_connect_def run_both_def run_error_def run_lost_def run_freed_def replicate_num sock0_def in0_def srv_init_def sv_goto_def sv_at_def sv_set_def sv_upd_def sv_ref_def sv_keep_def sv_unref_def
  sv_lock_def sv_unlock_def sv_signal_def sv_signal_all_def vtm_socket_stream_srv_sock_trylock_def vtm_socket_stream_srv_sock_unlock_def
  vtm_socket_stream_srv_sock_init_cbs_def sock_set_nonblocking_def vtm_socket_set_opt_def srv_own_flags_def sock_touch_def sock_close_def
  vtm_socket_close_def sock_unless_closed_def VTM_SOCKET_IS_CLOSED_def vtm_flag_is_set_def vtm_flag_set_def vtm_socket_set_state_def
  vtm_socket_stream_srv_add_event_def vtm_socket_stream_srv_create_event_def vtm_socket_stream_srv_create_relay_event_def
  vtm_socket_stream_srv_sock_cb_update_def vtm_socket_stream_srv_sock_check_def entry_start_def worker_next_def srv_listener_event_def
  srv_new_socket_def vtm_socket_make_threadsafe_def vtm_socket_base_init_def vtm_socket_ref_def vtm_socket_unref_def
  vtm_socket_enable_free_on_unref_def VTM_SOCK_EVT_READ_def VTM_SOCK_EVT_WRITE_def VTM_SOCK_EVT_CLOSED_def VTM_SOCK_EVT_ERROR_def
  VTM_STREAM_SRV_ACCEPT_MAX_ERRORS_def sock_stat_defs vtm_socket_stream_srv_stop_def

lemma run_both_state:
  "\<exists>s. srv_exec run_both (srv_init 2 sock0) = Some s \<and> sv_threads s = 2
     \<and> sv_pc s 0 = WCallback False (VTM_SOCK_SRV_READ, 1) \<and> sv_pc s 1 = WCallback False (VTM_SOCK_SRV_WRITE, 1)"
  by (simp add: run_simps)

lemma run_error_state:
  "\<exists>s. srv_exec run_error (srv_init 2 sock0) = Some s \<and> sv_release s = [1]"
  by (simp add: run_simps)

lemma run_freed_state:
  "\<exists>s. srv_exec run_freed (srv_init 2 sock0) = Some s \<and> sv_main s = MEvents [(1, VTM_SOCK_EVT_READ)] False \<and> sv_socks s 1 = None
     \<and> sv_socket s = 0"
  by (simp add: run_simps)

lemma run_lost_state:
  "\<exists>s. srv_exec run_lost (srv_init 1 sock0) = Some s \<and> sv_threads s = 1 \<and> sv_main s = MAwait \<and> sv_prepare s = 1 \<and> sv_pc s 0 = WBlocked"
  by (simp add: run_simps)

lemma run_reach: "0 < threads \<Longrightarrow> srv_exec acts (srv_init threads sk) = Some s \<Longrightarrow> srv_reach s"
  by (rule srv_exec_reach) (auto intro: srv_reach.init)

subsection \<open>Exclusion and safety\<close>

text \<open>
  C13. Mutual exclusion. Whatever the workers, the main thread, the callbacks and the world around the server do,
  two workers are never at work on the same socket with conflicting locks: there is at most one worker in a
  reading or connecting section and one in a writing section, and closing is alone.
\<close>

theorem srv_mutual_exclusion:
  assumes "srv_reach s" "i < sv_threads s" "j < sv_threads s" "i \<noteq> j"
    and "worker_section (sv_pc s i) = Some (t, n)" "worker_section (sv_pc s j) = Some (t', n)"
  shows "srv_lock_flags t AND srv_lock_flags t' = 0"
proof -
  obtain sk where "sv_socks s n = Some sk" using worker_sock [OF assms(1,2) worker_section_entry [OF assms(5)]] .
  then have "wsum (worker_holds k n) s \<le> 1" if "k = 7 \<or> k = 8" for k
    using srv_reach_inv [OF assms(1)] that by (auto simp: srv_inv_def srv_view_def dest!: spec [of _ n])
  moreover have "worker_holds k n (sv_pc s i) + worker_holds k n (sv_pc s j) \<le> wsum (worker_holds k n) s" for k
    using wrest_ge [OF assms(3,4), of "worker_holds k n"] by (simp add: wsum_split [OF assms(2)])
  ultimately have "worker_holds k n (sv_pc s i) + worker_holds k n (sv_pc s j) \<le> 1" if "k = 7 \<or> k = 8" for k
    using that order.trans by blast
  from this [of 7] this [of 8] show ?thesis
    unfolding worker_holds_def assms(5,6)
    by (cases t; cases t') (simp_all add: sock_stat_defs bit_simps)
qed

text \<open>
  C14. No use after free by a worker. The socket of an entry that a worker has in its hands has not been freed,
  and its reference count covers all references: dropping one does not fail, and it frees the socket only when
  no other thread, queue or list refers to it.
\<close>

theorem srv_workers_safe:
  assumes "srv_reach s" "i < sv_threads s" "worker_entry (sv_pc s i) = Some (t, n)"
  shows "\<exists>sk. sv_socks s n = Some sk \<and> srv_refs n s \<le> unat (sk_refcount sk) \<and>
     (case vtm_socket_unref sk of None \<Rightarrow> False | Some (sk', free) \<Rightarrow> free \<longrightarrow> srv_refs n s = 1)"
proof -
  obtain sk where sk: "sv_socks s n = Some sk" using worker_sock [OF assms] .
  with srv_inv_refs [OF srv_reach_inv [OF assms(1)]] have le: "srv_refs n s \<le> unat (sk_refcount sk)" by (simp add: refs_inv_def)
  moreover have "0 < srv_refs n s"
    using assms by (auto simp: srv_refs_def wsum_split [OF assms(2)] dest: worker_entry_refs)
  ultimately have "0 < unat (sk_refcount sk)" by simp
  then have "sk_refcount sk \<noteq> 0" by auto
  moreover have "sk_refcount sk = 1" if "sk_refcount sk - 1 = 0" using that by simp
  ultimately show ?thesis using sk le \<open>0 < srv_refs n s\<close>
    by (auto simp: vtm_socket_unref_def Let_def)
qed

text \<open>
  C15. A connection is released once. It is never twice in the list of sockets to release, nor there while it is in
  the map of connections, and a socket in the list has not been freed: neither the release nor the end of the server
  frees a socket twice.
\<close>

theorem srv_released_once:
  assumes "srv_reach s"
  shows "distinct (sv_release s) \<and> set (sv_release s) \<inter> sv_cons s = {} \<and> (\<forall>n \<in> set (sv_release s). sv_socks s n \<noteq> None)"
proof -
  have inv: "srv_inv s" using assms by (rule srv_reach_inv)
  then have one: "srv_owners n s \<le> 1" for n by (simp add: srv_inv_def srv_view_def)
  have "count_list (sv_release s) n \<le> 1" for n using one [of n] by (simp add: srv_owners_def)
  then have "distinct (sv_release s)"
    by (simp add: distinct_count)
  moreover have "n \<notin> sv_cons s" if "n \<in> set (sv_release s)" for n
  proof -
    have "0 < count_list (sv_release s) n" using that by (metis count_list_0_iff not_gr_zero)
    with one [of n] show ?thesis by (auto simp: srv_owners_def)
  qed
  moreover have "sv_socks s n \<noteq> None" if "n \<in> set (sv_release s)" for n
  proof -
    have "0 < srv_refs n s" using that by (metis add_is_0 count_list_0_iff not_gr_zero srv_refs_def)
    with inv that show ?thesis by (auto simp: srv_inv_def alive_inv_def split: if_splits)
  qed
  ultimately show ?thesis by blast
qed

theorem srv_mutual_exclusion_witness:
  "\<exists>s. srv_reach s \<and> worker_section (sv_pc s 0) = Some (VTM_SOCK_SRV_READ, 1) \<and> worker_section (sv_pc s 1) = Some (VTM_SOCK_SRV_WRITE, 1)
     \<and> srv_lock_flags VTM_SOCK_SRV_READ AND srv_lock_flags VTM_SOCK_SRV_WRITE = 0"
proof -
  from run_both_state obtain s where s: "srv_exec run_both (srv_init 2 sock0) = Some s" "sv_threads s = 2"
    "sv_pc s 0 = WCallback False (VTM_SOCK_SRV_READ, 1)" "sv_pc s 1 = WCallback False (VTM_SOCK_SRV_WRITE, 1)" by blast
  from s(1) have "srv_reach s" by (rule run_reach [rotated]) simp
  with s srv_mutual_exclusion [of s 0 1 VTM_SOCK_SRV_READ 1 VTM_SOCK_SRV_WRITE] show ?thesis
    by (intro exI [of _ s]) (simp add: worker_section_def)
qed

theorem srv_workers_safe_witness: "\<exists>s sk. srv_reach s \<and> worker_entry (sv_pc s 0) = Some (VTM_SOCK_SRV_READ, 1) \<and> sv_socks s 1 = Some sk"
proof -
  from run_both_state obtain s where s: "srv_exec run_both (srv_init 2 sock0) = Some s" "sv_threads s = 2"
    "sv_pc s 0 = WCallback False (VTM_SOCK_SRV_READ, 1)" by blast
  from s(1) have "srv_reach s" by (rule run_reach [rotated]) simp
  with s srv_workers_safe [of s 0 VTM_SOCK_SRV_READ 1] show ?thesis by auto
qed

theorem srv_released_once_witness: "\<exists>s sk. srv_reach s \<and> sv_release s = [1] \<and> 1 \<notin> sv_cons s \<and> sv_socks s 1 = Some sk"
proof -
  from run_error_state obtain s where s: "srv_exec run_error (srv_init 2 sock0) = Some s" "sv_release s = [1]" by blast
  from s(1) have "srv_reach s" by (rule run_reach [rotated]) simp
  with s srv_released_once [of s] show ?thesis by auto
qed

subsection \<open>Races\<close>

text \<open>A worker that waits while the main thread waits for it: only a wait that ends by itself would help.\<close>

definition srv_stuck :: "srv \<Rightarrow> bool" where
  "srv_stuck s \<longleftrightarrow> sv_threads s = 1 \<and> sv_main s = MAwait \<and> sv_prepare s = 1 \<and> sv_pc s 0 = WBlocked"

lemma stuck_do: "srv_stuck s \<Longrightarrow> srv_do a s = Some s' \<Longrightarrow> srv_stuck s'"
  by (cases a)
    (auto simp: srv_stuck_def vtm_socket_stream_srv_stop_def sv_upd_eq vtm_socket_stream_srv_sock_cb_update_def
      vtm_socket_stream_srv_create_relay_event_def Option.bind_eq_Some_conv sv_ref_eq sv_set_def split: option.splits if_splits)

lemma stuck_exec: "srv_stuck s \<Longrightarrow> srv_exec acts s = Some s' \<Longrightarrow> srv_stuck s'"
  by (induction acts arbitrary: s) (auto simp: Option.bind_eq_Some_conv dest: stuck_do)

text \<open>
  C33. The wakeup at the end can be lost. When the server is stopped between the moment a worker sees it running and
  the moment the worker waits, the signal of the main thread, which does not take the mutex, comes too early. The
  worker waits for ever and so does the main thread: nothing the threads, the callbacks and the users of the server
  do changes that.
\<close>

theorem srv_lost_wakeup:
  "\<exists>s. srv_reach s \<and> sv_main s = MAwait \<and> sv_pc s 0 = WBlocked
     \<and> {s'. \<exists>acts. srv_exec acts s = Some s'} \<subseteq> {s'. sv_main s' = MAwait \<and> sv_pc s' 0 = WBlocked}"
proof -
  from run_lost_state obtain s where s: "srv_exec run_lost (srv_init 1 sock0) = Some s" "srv_stuck s"
    by (auto simp: srv_stuck_def)
  from s(1) have "srv_reach s" by (rule run_reach [rotated]) simp
  moreover have "sv_main s = MAwait" "sv_pc s 0 = WBlocked" using s(2) by (simp_all add: srv_stuck_def)
  moreover have "{s'. \<exists>acts. srv_exec acts s = Some s'} \<subseteq> {s'. sv_main s' = MAwait \<and> sv_pc s' 0 = WBlocked}"
    using stuck_exec [OF s(2)] unfolding srv_stuck_def by blast
  ultimately show ?thesis by blast
qed

text \<open>
  C34. The main thread can use a socket it has freed. The events of the listener are looked at after the sockets in the list
  have been released: when a worker has closed a connection since the listener reported it, the socket of the event is
  freed just before the main thread reads its state.
\<close>

theorem srv_main_use_after_free:
  "\<exists>s n. srv_reach s \<and> sv_main s = MEvents [(n, VTM_SOCK_EVT_READ)] False \<and> n \<noteq> sv_socket s \<and> sv_socks s n = None"
proof -
  from run_freed_state obtain s where s: "srv_exec run_freed (srv_init 2 sock0) = Some s"
    "sv_main s = MEvents [(1, VTM_SOCK_EVT_READ)] False" "sv_socks s 1 = None" "sv_socket s = 0" by blast
  from s(1) have "srv_reach s" by (rule run_reach [rotated]) simp
  with s(2-) show ?thesis by (intro exI [of _ s] exI [of _ 1]) simp
qed

end
