(* ===== verification/HttpRouter.thy ===== *)
theory HttpRouter
  imports HttpParser "HOL-Library.Sublist"
begin

text \<open>
  Requests and routes: \<open>net/http/http_request.c\<close>, \<open>http_router.c\<close>, \<open>http_static_route.c\<close> and the path of
  \<open>http_file_route.c\<close>. A null pointer is \<open>None\<close>. The handler of a route gets the context and the response
  as a state \<open>'s\<close>; what a route keeps for itself is part of its handler.
\<close>

subsection \<open>Requests\<close>

record vtm_http_req =
  hq_method :: vtm_http_method
  hq_version :: vtm_http_version
  hq_path :: cstr
  hq_headers :: "vtm_dataset option"
  hq_params :: "vtm_dataset option"

text \<open>Reading a string from a dataset may store the text of a value in it.\<close>

definition vtm_http_req_get_header_str :: "allocator \<Rightarrow> vtm_http_req \<Rightarrow> cstr \<Rightarrow> conv_err + cstr option \<times> vtm_http_req" where
  "vtm_http_req_get_header_str ma req name =
     (case hq_headers req of
        None \<Rightarrow> Inr (None, req)
      | Some ds \<Rightarrow> map_sum id (\<lambda>(s, ds). (s, req\<lparr>hq_headers := Some ds\<rparr>)) (vtm_dataset_get_string ma ds name))"

definition vtm_http_req_get_host :: "allocator \<Rightarrow> vtm_http_req \<Rightarrow> conv_err + cstr option \<times> vtm_http_req" where
  "vtm_http_req_get_host ma req = vtm_http_req_get_header_str ma req (bytes_of ''Host'')"

definition vtm_http_req_get_query_str :: "allocator \<Rightarrow> vtm_http_req \<Rightarrow> cstr \<Rightarrow> conv_err + cstr option \<times> vtm_http_req" where
  "vtm_http_req_get_query_str ma req name =
     (case hq_params req of
        None \<Rightarrow> Inr (None, req)
      | Some ds \<Rightarrow> map_sum id (\<lambda>(s, ds). (s, req\<lparr>hq_params := Some ds\<rparr>)) (vtm_dataset_get_string ma ds name))"

text \<open>What is freed.\<close>

definition vtm_http_req_release :: "vtm_http_req \<Rightarrow> vtm_dataset list" where
  "vtm_http_req_release req = (case hq_headers req of None \<Rightarrow> [] | Some ds \<Rightarrow> [ds]) @ (case hq_params req of None \<Rightarrow> [] | Some ds \<Rightarrow> [ds])"

subsection \<open>Routes\<close>

record 's vtm_http_route =
  rt_url_path :: "cstr option"
  rt_handle :: "vtm_http_req \<Rightarrow> 's \<Rightarrow> vtm_rc \<times> 's"

text \<open>
  The loop of \<open>vtm_http_router_matches\<close> over the two strings: the rests behind the common prefix, its length, and
  the last bytes passed.
\<close>

fun router_walk :: "cstr \<Rightarrow> cstr \<Rightarrow> nat \<Rightarrow> byte \<Rightarrow> byte \<Rightarrow> cstr \<times> cstr \<times> nat \<times> byte \<times> byte" where
  "router_walk (c # path) (d # rt) num pp rp =
     (if c = d \<and> c \<noteq> 0 then router_walk path rt (num + 1) c d else (c # path, d # rt, num, pp, rp))"
| "router_walk path rt num pp rp = (path, rt, num, pp, rp)"

definition vtm_http_router_matches :: "cstr \<Rightarrow> cstr \<Rightarrow> bool" where
  "vtm_http_router_matches path rt_path =
     (let (path, rt, num, pp, rp) = router_walk path rt_path 0 0 0
      in if c_hd path = c_hd rt then True
         else num > 0 \<and> c_hd rt = 0 \<and> rp = byte_of CHR ''/'' \<and> pp = byte_of CHR ''/'')"

type_synonym 's vtm_http_router = "'s vtm_http_route list"

text \<open>The two allocations of \<open>vtm_http_router_new\<close>; \<open>copied\<close> and \<open>added\<close> say whether the copy of the path and the growth of the list succeed.\<close>

definition vtm_http_router_new :: "bool \<Rightarrow> bool \<Rightarrow> 's vtm_http_router option" where
  "vtm_http_router_new mem lmem = (if mem \<and> lmem then Some [] else None)"

definition vtm_http_router_add_rt ::
    "bool \<Rightarrow> bool \<Rightarrow> 's vtm_http_router \<Rightarrow> cstr \<Rightarrow> 's vtm_http_route \<Rightarrow> vtm_rc \<times> 's vtm_http_router" where
  "vtm_http_router_add_rt copied added rtr path rt =
     (let rt = rt\<lparr>rt_url_path := if copied then Some (vtm_str_copy path) else None\<rparr>
      in if added then (VTM_OK, rtr @ [rt]) else (VTM_E_MALLOC, rtr))"

definition vtm_http_static_rt_new :: "bool \<Rightarrow> (vtm_http_req \<Rightarrow> 's \<Rightarrow> vtm_rc \<times> 's) \<Rightarrow> 's vtm_http_route option" where
  "vtm_http_static_rt_new mem fn = (if mem then Some \<lparr>rt_url_path = None, rt_handle = fn\<rparr> else None)"

definition vtm_http_router_static_rt ::
    "bool \<Rightarrow> bool \<Rightarrow> bool \<Rightarrow> 's vtm_http_router \<Rightarrow> cstr \<Rightarrow> (vtm_http_req \<Rightarrow> 's \<Rightarrow> vtm_rc \<times> 's) \<Rightarrow> vtm_rc \<times> 's vtm_http_router" where
  "vtm_http_router_static_rt mem copied added rtr path fn =
     (case vtm_http_static_rt_new mem fn of
        None \<Rightarrow> (VTM_E_MALLOC, rtr)
      | Some rt \<Rightarrow> vtm_http_router_add_rt copied added rtr path rt)"

text \<open>\<open>None\<close> is a route whose path could not be copied: the null pointer is dereferenced.\<close>

fun vtm_http_router_handle :: "'s vtm_http_router \<Rightarrow> vtm_http_req \<Rightarrow> 's \<Rightarrow> (vtm_rc \<times> 's) option" where
  "vtm_http_router_handle [] req s = Some (VTM_E_NOT_HANDLED, s)"
| "vtm_http_router_handle (rt # rts) req s =
     (case rt_url_path rt of
        None \<Rightarrow> None
      | Some p \<Rightarrow>
          if \<not> vtm_http_router_matches (hq_path req) p then vtm_http_router_handle rts req s
          else
            let (rc, s) = rt_handle rt req s
            in if rc \<noteq> VTM_E_NOT_HANDLED then Some (rc, s) else vtm_http_router_handle rts req s)"

subsection \<open>Files\<close>

text \<open>
  The path of a file: the root, and the path of the request behind the path of the route without its last
  byte. \<open>get_real\<close> is \<open>vtm_path_get_real\<close>. The first result is the content of the block and its size, without
  the terminating NUL; \<open>None\<close> is a read before the path of the request.
\<close>

definition file_rt_rel_path :: "cstr \<Rightarrow> cstr \<Rightarrow> cstr \<Rightarrow> (cstr \<times> size_t) option" where
  "file_rt_rel_path root url path =
     (if length url = 0 then None
      else Some (root @ drop (length url - 1) path,
                 of_nat (length root) + (of_nat (length path) - of_nat (length url) + 2)))"

definition vtm_path_get_real :: "(cstr \<Rightarrow> cstr option) \<Rightarrow> cstr \<Rightarrow> vtm_rc \<times> cstr option" where
  "vtm_path_get_real realpath path =
     (case realpath path of None \<Rightarrow> (VTM_E_IO_UNKNOWN, None) | Some p \<Rightarrow> (VTM_OK, Some p))"

definition vtm_http_file_rt_get_real_path ::
    "(cstr \<Rightarrow> cstr option) \<Rightarrow> bool \<Rightarrow> cstr \<Rightarrow> cstr \<Rightarrow> cstr \<Rightarrow> cstr option option" where
  "vtm_http_file_rt_get_real_path realpath mem root url path =
     (case file_rt_rel_path root url path of
        None \<Rightarrow> None
      | Some (rel, len) \<Rightarrow>
          if \<not> mem then Some None
          else if unat len < length rel + 1 then None
          else let (rc, abs_path) = vtm_path_get_real realpath rel
               in if rc \<noteq> VTM_OK then Some abs_path
                  else case abs_path of
                         None \<Rightarrow> None
                       | Some p \<Rightarrow> if \<not> vtm_str_starts_with p root then Some None else Some (Some p))"

text \<open>Opening a file route: the root is resolved once.\<close>

definition vtm_http_file_rt_new :: "(cstr \<Rightarrow> cstr option) \<Rightarrow> bool \<Rightarrow> cstr \<Rightarrow> cstr option" where
  "vtm_http_file_rt_new realpath mem fs_root =
     (if \<not> mem then None else let (rc, root) = vtm_path_get_real realpath fs_root in if rc \<noteq> VTM_OK then None else root)"

subsection \<open>Which routes match\<close>

lemma router_walk_prefix:
  assumes "no_nul path" "no_nul rt" "router_walk path rt num pp rp = (path', rt', num', pp', rp')"
  shows "\<exists>pre. path = pre @ path' \<and> rt = pre @ rt' \<and> num' = num + length pre
    \<and> (pre = [] \<longrightarrow> pp' = pp \<and> rp' = rp) \<and> (pre \<noteq> [] \<longrightarrow> pp' = last pre \<and> rp' = last pre)
    \<and> (path' = [] \<or> rt' = [] \<or> hd path' \<noteq> hd rt')"
  using assms
proof (induction path rt num pp rp rule: router_walk.induct)
  case (1 c path d rt num pp rp)
  show ?case
  proof (cases "c = d")
    case True
    with 1 obtain pre where "path = pre @ path' \<and> rt = pre @ rt' \<and> num' = num + 1 + length pre
      \<and> (pre = [] \<longrightarrow> pp' = c \<and> rp' = d) \<and> (pre \<noteq> [] \<longrightarrow> pp' = last pre \<and> rp' = last pre)
      \<and> (path' = [] \<or> rt' = [] \<or> hd path' \<noteq> hd rt')"
      by (auto simp: no_nul_def)
    with True show ?thesis by (intro exI [of _ "c # pre"]) auto
  qed (use 1 in \<open>auto intro!: exI [of _ "[]"]\<close>)
qed (auto intro!: exI [of _ "[]"])

text \<open>
  A route covers a path when the two are equal, or when the path of the route ends with a slash and the path begins with it.
  The walk over both strings computes this relation.
\<close>

definition route_covers :: "cstr \<Rightarrow> cstr \<Rightarrow> bool" where
  "route_covers path rt \<longleftrightarrow> path = rt \<or> rt \<noteq> [] \<and> last rt = byte_of CHR ''/'' \<and> prefix rt path"

lemma router_matches_iff:
  assumes "no_nul path" "no_nul rt"
  shows "vtm_http_router_matches path rt \<longleftrightarrow> route_covers path rt"
proof -
  obtain path' rt' num pp rp where w: "router_walk path rt 0 0 0 = (path', rt', num, pp, rp)" by (metis prod_cases5)
  from router_walk_prefix [OF assms w] obtain pre where p: "path = pre @ path'" "rt = pre @ rt'" "num = length pre"
    "pre \<noteq> [] \<longrightarrow> pp = last pre \<and> rp = last pre" "path' = [] \<or> rt' = [] \<or> hd path' \<noteq> hd rt'" by auto
  from assms p(1,2) have nul: "path' \<noteq> [] \<Longrightarrow> hd path' \<noteq> 0" "rt' \<noteq> [] \<Longrightarrow> hd rt' \<noteq> 0"
    by (cases path'; cases rt'; auto simp: no_nul_def)+
  have M: "vtm_http_router_matches path rt \<longleftrightarrow>
      c_hd path' = c_hd rt' \<or> num > 0 \<and> c_hd rt' = 0 \<and> rp = byte_of CHR ''/'' \<and> pp = byte_of CHR ''/''"
    by (auto simp: vtm_http_router_matches_def w)
  show ?thesis
    using p(3-) nul
    by (subst M, unfold p(1,2) route_covers_def, cases path'; cases rt'; cases "pre = []") (auto simp: c_hd_def prefix_def)
qed

text \<open>Asking handlers in turn until one of them handles the request.\<close>

fun first_handled :: "'s vtm_http_route list \<Rightarrow> vtm_http_req \<Rightarrow> 's \<Rightarrow> vtm_rc \<times> 's" where
  "first_handled [] req s = (VTM_E_NOT_HANDLED, s)"
| "first_handled (rt # rts) req s =
     (let (rc, s) = rt_handle rt req s in if rc = VTM_E_NOT_HANDLED then first_handled rts req s else (rc, s))"

text \<open>
  C24. A request is given to the routes that cover its path, in the order in which they were added, until one of them
  handles it; a request that none of them handles is reported as such, and no other handler is called.
\<close>

theorem router_dispatch:
  assumes "no_nul (hq_path req)" "\<forall>rt\<in>set rts. \<exists>p. rt_url_path rt = Some p \<and> no_nul p"
  shows "vtm_http_router_handle rts req s
    = Some (first_handled (filter (\<lambda>rt. \<exists>p. rt_url_path rt = Some p \<and> route_covers (hq_path req) p) rts) req s)"
  using assms(2)
proof (induction rts arbitrary: s)
  case (Cons rt rts)
  then obtain p where "rt_url_path rt = Some p" "no_nul p" by auto
  with Cons router_matches_iff [OF assms(1)] show ?case by (auto simp: Let_def split: prod.split)
qed simp

text \<open>A router with a file, a directory and a handler for everything; the handlers note their number.\<close>

theorem router_dispatch_witness:
  "vtm_http_router_handle [\<lparr>rt_url_path = Some (bytes_of ''/a''), rt_handle = \<lambda>req s. (VTM_OK, s @ [1])\<rparr>,
       \<lparr>rt_url_path = Some (bytes_of ''/a/''), rt_handle = \<lambda>req s. (VTM_E_NOT_HANDLED, s @ [2])\<rparr>,
       \<lparr>rt_url_path = Some (bytes_of ''/''), rt_handle = \<lambda>req s. (VTM_OK, s @ [3::nat])\<rparr>]
     \<lparr>hq_method = VTM_HTTP_METHOD_GET, hq_version = VTM_HTTP_VER_1_1, hq_path = bytes_of ''/a/b'', hq_headers = None, hq_params = None\<rparr> []
   = Some (VTM_OK, [2, 3])"
proof -
  define rts where "rts = [\<lparr>rt_url_path = Some (bytes_of ''/a''), rt_handle = \<lambda>req s. (VTM_OK, s @ [1])\<rparr>,
       \<lparr>rt_url_path = Some (bytes_of ''/a/''), rt_handle = \<lambda>req s. (VTM_E_NOT_HANDLED, s @ [2])\<rparr>,
       \<lparr>rt_url_path = Some (bytes_of ''/''), rt_handle = \<lambda>req s. (VTM_OK, s @ [3::nat])\<rparr>]"
  define req where "req = \<lparr>hq_method = VTM_HTTP_METHOD_GET, hq_version = VTM_HTTP_VER_1_1, hq_path = bytes_of ''/a/b'', hq_headers = None, hq_params = None\<rparr>"
  have "no_nul (hq_path req)" by (simp add: req_def no_nul_def bytes_of_def byte_of_def)
  moreover have "\<forall>rt\<in>set rts. \<exists>p. rt_url_path rt = Some p \<and> no_nul p" by (simp add: rts_def no_nul_def bytes_of_def byte_of_def)
  ultimately have "vtm_http_router_handle rts req []
    = Some (first_handled (filter (\<lambda>rt. \<exists>p. rt_url_path rt = Some p \<and> route_covers (hq_path req) p) rts) req [])"
    by (rule router_dispatch)
  also have "first_handled (filter (\<lambda>rt. \<exists>p. rt_url_path rt = Some p \<and> route_covers (hq_path req) p) rts) req [] = (VTM_OK, [2, 3])"
    by (simp add: rts_def req_def route_covers_def bytes_of_def byte_of_def)
  finally show ?thesis by (simp only: rts_def req_def)
qed

lemma starts_with_prefix: "vtm_str_starts_with p root \<Longrightarrow> prefix root p"
  by (metis take_is_prefix vtm_str_starts_with_def)

text \<open>
  The path of a file is put together inside its block, and what is served begins with the root.
\<close>

lemma file_rt_fits:
  assumes "vtm_http_router_matches path url" "no_nul path" "no_nul url" "url \<noteq> []" "length root + length path < 2 ^ 62"
  shows "file_rt_rel_path root url path = Some (root @ drop (length url - 1) path, of_nat (length root + length path - length url + 2))"
    "length (root @ drop (length url - 1) path) + 1 = length root + length path - length url + 2"
proof -
  from assms(1-3) have "length url \<le> length path" by (auto simp: router_matches_iff route_covers_def prefix_def)
  then show "file_rt_rel_path root url path = Some (root @ drop (length url - 1) path, of_nat (length root + length path - length url + 2))"
    "length (root @ drop (length url - 1) path) + 1 = length root + length path - length url + 2"
    using assms(4) by (cases url; auto simp: file_rt_rel_path_def of_nat_diff)+
qed

text \<open>
  C25. A file route with a path that ends with a slash, given a request it matches, builds the name of the file inside its
  block and hands out nothing or a resolved path that begins with the root, whatever the system resolves.
\<close>

theorem file_route_in_block:
  assumes "vtm_http_router_matches path url" "no_nul path" "no_nul url" "url \<noteq> []" "length root + length path < 2 ^ 62"
  shows "\<exists>r. vtm_http_file_rt_get_real_path realpath mem root url path = Some r \<and> set_option r \<subseteq> {p. prefix root p}"
proof -
  note fits = file_rt_fits [OF assms, of]
  have "unat (of_nat (length root + length path - length url + 2) :: size_t) = length root + length path - length url + 2"
    using assms(5) by (intro unat_of_nat_small) simp
  then show ?thesis
    using fits(2) starts_with_prefix
    by (auto simp: vtm_http_file_rt_get_real_path_def fits(1) vtm_path_get_real_def Let_def split: option.split)
qed

text \<open>\<open>realpath\<close> on a file system without symbolic links: the parts of a path, without the empty ones and those that stand for a directory above.\<close>

fun path_parts :: "cstr \<Rightarrow> cstr \<Rightarrow> cstr list" where
  "path_parts [] part = [rev part]"
| "path_parts (c # cs) part = (if c = byte_of CHR ''/'' then rev part # path_parts cs [] else path_parts cs (c # part))"

definition lexical_realpath :: "cstr \<Rightarrow> cstr option" where
  "lexical_realpath p =
     Some (concat (map (\<lambda>part. byte_of CHR ''/'' # part)
       (rev (foldl (\<lambda>st part. if part = [] \<or> part = bytes_of ''.'' then st else if part = bytes_of ''..'' then tl st else part # st)
          [] (path_parts p [])))))"

theorem file_route_in_block_witness:
  "\<exists>r. vtm_http_file_rt_get_real_path lexical_realpath True (bytes_of ''/srv/www'') (bytes_of ''/'') (bytes_of ''/a/index.html'') = Some r
     \<and> set_option r \<subseteq> {p. prefix (bytes_of ''/srv/www'') p}"
proof -
  have "vtm_http_router_matches (bytes_of ''/a/index.html'') (bytes_of ''/'')" "no_nul (bytes_of ''/a/index.html'')" "no_nul (bytes_of ''/'')"
    "bytes_of ''/'' \<noteq> []"
    by code_simp+
  moreover have "length (bytes_of ''/srv/www'') + length (bytes_of ''/a/index.html'') < 2 ^ 62" by (simp add: bytes_of_def)
  ultimately show ?thesis by (rule file_route_in_block)
qed

text \<open>
  C38. The prefix of the name is no prefix of the path: a file route serves the files of every directory next to its root
  whose name begins with the name of the root. For any root, any longer name and any file below it, the request that goes up
  one level and down into the other directory matches a route that ends with a slash, and what the system resolves it to is
  handed out although it is not below the root.
\<close>

theorem file_route_escapes:
  assumes "slash = byte_of CHR ''/''" "root = dir @ slash # name" "sfx \<noteq> []" "slash \<notin> set sfx"
    and "url = u @ [slash]" "path = url @ bytes_of ''../'' @ name @ sfx @ slash # fname" "no_nul path"
    and "outside = dir @ slash # name @ sfx @ slash # fname" "length root + length path < 2 ^ 62"
    and "realpath fs_root = Some root" "realpath (root @ bytes_of ''/../'' @ name @ sfx @ slash # fname) = Some outside"
  shows "vtm_http_file_rt_new realpath True fs_root = Some root \<and> vtm_http_router_matches path url
    \<and> vtm_http_file_rt_get_real_path realpath True root url path = Some (Some outside) \<and> \<not> prefix (root @ [slash]) outside"
proof -
  have url: "no_nul url" "url \<noteq> []" using assms(5-7) by (auto simp: no_nul_def)
  have m: "vtm_http_router_matches path url"
    unfolding router_matches_iff [OF assms(7) url(1)] using assms(1, 5, 6) by (simp add: route_covers_def prefix_def)
  note fits = file_rt_fits [OF m assms(7) url assms(9)]
  have "unat (of_nat (length root + length path - length url + 2) :: size_t) = length root + length path - length url + 2"
    using assms(9) by (intro unat_of_nat_small) simp
  moreover have "root @ drop (length url - 1) path = root @ bytes_of ''/../'' @ name @ sfx @ slash # fname"
    using assms(1, 5, 6) by (simp add: bytes_of_def byte_of_def)
  moreover have "vtm_str_starts_with outside root" using assms(2, 8) by (simp add: starts_with_iff)
  ultimately have "vtm_http_file_rt_get_real_path realpath True root url path = Some (Some outside)"
    using fits(2) assms(11) by (simp add: vtm_http_file_rt_get_real_path_def fits(1) vtm_path_get_real_def Let_def)
  moreover have "\<not> prefix (root @ [slash]) outside"
    using assms(2-4, 8) by (cases sfx) (auto simp: prefix_def)
  moreover have "vtm_http_file_rt_new realpath True fs_root = Some root"
    using assms(10) by (simp add: vtm_http_file_rt_new_def vtm_path_get_real_def)
  ultimately show ?thesis using m by simp
qed

text \<open>The key in \<open>/srv/www-private\<close>, served by a route for \<open>/srv/www\<close>.\<close>

theorem file_route_escapes_witness:
  "vtm_http_file_rt_new lexical_realpath True (bytes_of ''/srv/www/'') = Some (bytes_of ''/srv/www'')
   \<and> vtm_http_router_matches (bytes_of ''/../www-private/key'') (bytes_of ''/'')
   \<and> vtm_http_file_rt_get_real_path lexical_realpath True (bytes_of ''/srv/www'') (bytes_of ''/'') (bytes_of ''/../www-private/key'')
       = Some (Some (bytes_of ''/srv/www-private/key''))
   \<and> \<not> prefix (bytes_of ''/srv/www'' @ [byte_of CHR ''/'']) (bytes_of ''/srv/www-private/key'')"
proof (rule file_route_escapes [OF refl, where dir = "bytes_of ''/srv''" and name = "bytes_of ''www''" and sfx = "bytes_of ''-private''"
      and u = "[]" and fname = "bytes_of ''key''"])
  show "lexical_realpath (bytes_of ''/srv/www/'') = Some (bytes_of ''/srv/www'')" by code_simp
  show "lexical_realpath (bytes_of ''/srv/www'' @ bytes_of ''/../'' @ bytes_of ''www'' @ bytes_of ''-private'' @ byte_of CHR ''/'' # bytes_of ''key'')
      = Some (bytes_of ''/srv/www-private/key'')" by code_simp
  show "no_nul (bytes_of ''/../www-private/key'')" by code_simp
qed (simp_all add: bytes_of_def byte_of_def)

end
