(* ===== verification/SocketEmitter.thy ===== *)
theory SocketEmitter
  imports SocketWriter Buffer
begin

text \<open>
  The emitters of \<open>net/socket_emitter.c\<close>, which send memory, a buffer or a file to a socket that may not take all of
  it at once. A chain is a list; \<open>wr\<close> is \<open>vtm_socket_write\<close> on the socket of the chain. The emitter of a buffer keeps
  a pointer to the memory of the buffer: \<open>mem\<close> says what is there when it writes. A file is the bytes not yet read
  and the end-of-file indicator of the stream.
\<close>

subsection \<open>State\<close>

datatype vtm_socket_emitter_result = VTM_SOCK_EMIT_COMPLETE | VTM_SOCK_EMIT_AGAIN | VTM_SOCK_EMIT_ERROR

definition VTM_EMT_FILE_BUF_SIZE :: nat where "VTM_EMT_FILE_BUF_SIZE = 4096"

record vtm_emt_file =
  fe_buf :: "byte list"
  fe_used :: nat
  fe_written :: nat
  fe_rest :: "byte list"
  fe_eof :: bool

text \<open>A raw emitter and one for a buffer have the position; the buffer is a number and may belong to the emitter.\<close>

datatype emt_body = EmtRaw "byte list" nat | EmtBuf nat nat bool | EmtFile vtm_emt_file

record vtm_socket_emitter =
  se_length :: u64
  se_body :: emt_body

definition vtm_socket_emitter_for_raw :: "bool \<Rightarrow> byte list \<Rightarrow> vtm_socket_emitter option" where
  "vtm_socket_emitter_for_raw alloc src =
     (if alloc then Some \<lparr>se_length = of_nat (length src), se_body = EmtRaw src 0\<rparr> else None)"

definition vtm_socket_emitter_for_buffer :: "bool \<Rightarrow> nat \<Rightarrow> vtm_buf \<Rightarrow> bool \<Rightarrow> vtm_socket_emitter option" where
  "vtm_socket_emitter_for_buffer alloc n buf fr =
     (if alloc then Some \<lparr>se_length = buf_used buf, se_body = EmtBuf n 0 fr\<rparr> else None)"

text \<open>The size of the file is asked from the system; \<open>junk\<close> is the array before it is filled.\<close>

definition vtm_socket_emitter_for_file :: "bool \<Rightarrow> u64 \<Rightarrow> byte list \<Rightarrow> byte list \<Rightarrow> vtm_socket_emitter option" where
  "vtm_socket_emitter_for_file alloc fsize junk content =
     (if alloc
      then Some \<lparr>se_length = fsize,
        se_body = EmtFile \<lparr>fe_buf = junk, fe_used = 0, fe_written = 0, fe_rest = content, fe_eof = False\<rparr>\<rparr>
      else None)"

text \<open>What is released with an emitter, apart from itself: the buffer or the file.\<close>

definition vtm_socket_emitter_free_single :: "vtm_socket_emitter \<Rightarrow> emt_body list" where
  "vtm_socket_emitter_free_single se =
     (case se_body se of EmtRaw src pos \<Rightarrow> [] | EmtBuf n pos fr \<Rightarrow> if fr then [se_body se] else [] | EmtFile fe \<Rightarrow> [se_body se])"

definition vtm_socket_emitter_free_chain :: "vtm_socket_emitter list \<Rightarrow> emt_body list" where
  "vtm_socket_emitter_free_chain chain = concat (map vtm_socket_emitter_free_single chain)"

subsection \<open>Writing\<close>

text \<open>The result, the position afterwards and the state of the socket; \<open>None\<close> when the write does not return.\<close>

definition vtm_socket_emitter_write_raw ::
    "'s sock_write \<Rightarrow> byte list \<Rightarrow> u64 \<Rightarrow> nat \<Rightarrow> 's \<Rightarrow> (vtm_socket_emitter_result \<times> nat \<times> 's) option" where
  "vtm_socket_emitter_write_raw wr src len pos s =
     map_option (\<lambda>((rc, written), s).
         if rc = VTM_E_IO_AGAIN then (VTM_SOCK_EMIT_AGAIN, pos + written, s)
         else if rc = VTM_OK \<and> pos + written = unat len then (VTM_SOCK_EMIT_COMPLETE, pos, s)
         else (VTM_SOCK_EMIT_ERROR, pos, s))
       (wr (take (unat len - pos) (drop pos src)) s)"

text \<open>
  \<open>fread\<close> into the array behind its used bytes: what is read, and the file; the indicator is set when fewer bytes
  than asked for are left.
\<close>

definition emt_fread :: "vtm_emt_file \<Rightarrow> nat \<times> vtm_emt_file" where
  "emt_fread fe =
     (let n = VTM_EMT_FILE_BUF_SIZE - fe_used fe; got = take n (fe_rest fe)
      in (length got,
          fe\<lparr>fe_buf := take (fe_used fe) (fe_buf fe) @ got @ drop (fe_used fe + length got) (fe_buf fe),
             fe_rest := drop n (fe_rest fe), fe_eof := fe_eof fe \<or> length got < n\<rparr>))"

text \<open>Behind a write: the bytes behind the written ones are moved to the front, and counted up to the end of the array.\<close>

definition emt_shift :: "nat \<Rightarrow> vtm_emt_file \<Rightarrow> vtm_emt_file" where
  "emt_shift wcount fe =
     (let diff = VTM_EMT_FILE_BUF_SIZE - (fe_written fe + wcount)
      in fe\<lparr>fe_buf := drop (fe_written fe + wcount) (fe_buf fe) @ drop diff (fe_buf fe), fe_used := diff, fe_written := 0\<rparr>)"

lemma emt_fread_less: "(rcount, fe1) = emt_fread fe \<Longrightarrow> rcount \<noteq> 0 \<Longrightarrow> length (fe_rest fe1) < length (fe_rest fe)"
  by (cases "fe_rest fe") (auto simp: emt_fread_def Let_def)

function vtm_socket_emitter_write_file ::
    "'s sock_write \<Rightarrow> vtm_emt_file \<Rightarrow> 's \<Rightarrow> (vtm_socket_emitter_result \<times> vtm_emt_file \<times> 's) option" where
  "vtm_socket_emitter_write_file wr fe s =
     (let (rcount, fe1) = emt_fread fe
      in if rcount = 0 then Some (if fe_eof fe1 then VTM_SOCK_EMIT_COMPLETE else VTM_SOCK_EMIT_ERROR, fe1, s)
         else
           let fe2 = fe1\<lparr>fe_used := fe_used fe1 + rcount\<rparr>
           in case wr (take (fe_used fe2 - fe_written fe2) (drop (fe_written fe2) (fe_buf fe2))) s of
                None \<Rightarrow> None
              | Some ((rc, wcount), s) \<Rightarrow>
                  if rc = VTM_OK then vtm_socket_emitter_write_file wr (emt_shift wcount fe2) s
                  else if rc = VTM_E_IO_AGAIN then Some (VTM_SOCK_EMIT_AGAIN, emt_shift wcount fe2, s)
                  else Some (VTM_SOCK_EMIT_ERROR, fe2, s))"
  by pat_completeness auto
termination
  by (relation "measure (\<lambda>(wr, fe, s). length (fe_rest fe))") (auto simp: emt_shift_def Let_def dest: emt_fread_less)

declare vtm_socket_emitter_write_file.simps [simp del]

definition emt_write ::
    "'s sock_write \<Rightarrow> (nat \<Rightarrow> byte list) \<Rightarrow> vtm_socket_emitter \<Rightarrow> 's
     \<Rightarrow> (vtm_socket_emitter_result \<times> vtm_socket_emitter \<times> 's) option" where
  "emt_write wr mem se s =
     (case se_body se of
        EmtRaw src pos \<Rightarrow>
          map_option (\<lambda>(r, pos, s). (r, se\<lparr>se_body := EmtRaw src pos\<rparr>, s)) (vtm_socket_emitter_write_raw wr src (se_length se) pos s)
      | EmtBuf n pos fr \<Rightarrow>
          map_option (\<lambda>(r, pos, s). (r, se\<lparr>se_body := EmtBuf n pos fr\<rparr>, s)) (vtm_socket_emitter_write_raw wr (mem n) (se_length se) pos s)
      | EmtFile fe \<Rightarrow>
          map_option (\<lambda>(r, fe, s). (r, se\<lparr>se_body := EmtFile fe\<rparr>, s)) (vtm_socket_emitter_write_file wr fe s))"

text \<open>The chain that is left, what was released, and the state. The code is called with a chain that is not empty.\<close>

fun vtm_socket_emitter_try_write ::
    "'s sock_write \<Rightarrow> (nat \<Rightarrow> byte list) \<Rightarrow> vtm_socket_emitter list \<Rightarrow> 's
     \<Rightarrow> (vtm_rc \<times> vtm_socket_emitter list \<times> emt_body list \<times> 's) option" where
  "vtm_socket_emitter_try_write wr mem [] s = None"
| "vtm_socket_emitter_try_write wr mem (se # chain) s =
     (case emt_write wr mem se s of
        None \<Rightarrow> None
      | Some (VTM_SOCK_EMIT_ERROR, se, s) \<Rightarrow> Some (VTM_ERROR, se # chain, [], s)
      | Some (VTM_SOCK_EMIT_AGAIN, se, s) \<Rightarrow> Some (VTM_E_IO_AGAIN, se # chain, [], s)
      | Some (VTM_SOCK_EMIT_COMPLETE, se, s) \<Rightarrow>
          (let freed = vtm_socket_emitter_free_single se
           in if chain = [] then Some (VTM_OK, [], freed, s)
              else map_option (\<lambda>(rc, chain, fr, s). (rc, chain, freed @ fr, s)) (vtm_socket_emitter_try_write wr mem chain s)))"

fun emt_lensum :: "vtm_socket_emitter list \<Rightarrow> u64 \<Rightarrow> u64 option" where
  "emt_lensum [] acc = Some acc"
| "emt_lensum (se # chain) acc =
     (let acc = acc + se_length se in if acc < se_length se then None else emt_lensum chain acc)"

text \<open>\<open>None\<close> is \<open>VTM_E_OVERFLOW\<close>.\<close>

definition vtm_socket_emitter_get_chain_lensum :: "vtm_socket_emitter list \<Rightarrow> u64 option" where
  "vtm_socket_emitter_get_chain_lensum chain = emt_lensum chain 0"

subsection \<open>Sending memory\<close>

text \<open>The bytes of an emitter that have not been sent; emitters of files are left out.\<close>

fun emt_pending :: "(nat \<Rightarrow> byte list) \<Rightarrow> vtm_socket_emitter \<Rightarrow> byte list" where
  "emt_pending mem se =
     (case se_body se of EmtRaw src pos \<Rightarrow> drop pos src | EmtBuf n pos fr \<Rightarrow> drop pos (take (unat (se_length se)) (mem n)) | EmtFile fe \<Rightarrow> [])"

fun emt_ok :: "(nat \<Rightarrow> byte list) \<Rightarrow> vtm_socket_emitter \<Rightarrow> bool" where
  "emt_ok mem se \<longleftrightarrow>
     (case se_body se of
        EmtRaw src pos \<Rightarrow> pos \<le> length src \<and> unat (se_length se) = length src
      | EmtBuf n pos fr \<Rightarrow> pos \<le> unat (se_length se) \<and> unat (se_length se) \<le> length (mem n)
      | EmtFile fe \<Rightarrow> False)"

definition chain_pending :: "(nat \<Rightarrow> byte list) \<Rightarrow> vtm_socket_emitter list \<Rightarrow> byte list" where
  "chain_pending mem chain = concat (map (emt_pending mem) chain)"

lemma write_raw_law:
  assumes "byte_sink wr sent" "pos \<le> unat len" "unat len \<le> length src"
  obtains r pos' s' where "vtm_socket_emitter_write_raw wr src len pos s = Some (r, pos', s')"
    "r = VTM_SOCK_EMIT_COMPLETE \<longrightarrow> sent s' = sent s @ drop pos (take (unat len) src)"
    "r = VTM_SOCK_EMIT_AGAIN \<longrightarrow> pos \<le> pos' \<and> pos' \<le> unat len \<and> sent s' @ drop pos' (take (unat len) src) = sent s @ drop pos (take (unat len) src)"
    "prefix (sent s') (sent s @ drop pos (take (unat len) src))"
proof -
  define bs where "bs = drop pos (take (unat len) src)"
  have eq: "take (unat len - pos) (drop pos src) = bs" by (simp add: bs_def drop_take)
  have lb: "length bs = unat len - pos" using assms(3) by (simp add: bs_def)
  obtain rc n s' where w: "wr bs s = Some ((rc, n), s')" "n \<le> length bs" "sent s' = sent s @ take n bs" "rc = VTM_OK \<longrightarrow> n = length bs"
    by (rule byte_sinkE [OF assms(1)])
  have split: "take n bs @ drop (pos + n) (take (unat len) src) = bs"
    using append_take_drop_id [of n bs] by (simp add: bs_def add.commute)
  show thesis
    using w lb assms(2) split
    by (intro that [of "if rc = VTM_E_IO_AGAIN then VTM_SOCK_EMIT_AGAIN else if rc = VTM_OK then VTM_SOCK_EMIT_COMPLETE else VTM_SOCK_EMIT_ERROR"
          "if rc = VTM_E_IO_AGAIN then pos + n else pos" s'])
      (auto simp: vtm_socket_emitter_write_raw_def eq bs_def [symmetric] take_is_prefix)
qed

lemma emt_write_law:
  assumes "byte_sink wr sent" "emt_ok mem se"
  obtains r se' s' where "emt_write wr mem se s = Some (r, se', s')"
    "r = VTM_SOCK_EMIT_COMPLETE \<longrightarrow> sent s' = sent s @ emt_pending mem se"
    "r = VTM_SOCK_EMIT_AGAIN \<longrightarrow> emt_ok mem se' \<and> sent s' @ emt_pending mem se' = sent s @ emt_pending mem se"
    "prefix (sent s') (sent s @ emt_pending mem se)"
proof (cases "se_body se")
  case (EmtRaw src pos)
  with assms(2) have "pos \<le> unat (se_length se)" "unat (se_length se) = length src" by auto
  then obtain r pos' s' where "vtm_socket_emitter_write_raw wr src (se_length se) pos s = Some (r, pos', s')"
    "r = VTM_SOCK_EMIT_COMPLETE \<longrightarrow> sent s' = sent s @ drop pos src"
    "r = VTM_SOCK_EMIT_AGAIN \<longrightarrow> pos' \<le> length src \<and> sent s' @ drop pos' src = sent s @ drop pos src"
    "prefix (sent s') (sent s @ drop pos src)"
    using write_raw_law [OF assms(1), of pos "se_length se" src s] by (metis order.refl take_all)
  then show thesis
    using EmtRaw \<open>unat (se_length se) = length src\<close> by (intro that [of r "se\<lparr>se_body := EmtRaw src pos'\<rparr>" s']) (auto simp: emt_write_def)
next
  case (EmtBuf n pos fr)
  with assms(2) have len: "pos \<le> unat (se_length se)" "unat (se_length se) \<le> length (mem n)" by auto
  obtain r pos' s' where "vtm_socket_emitter_write_raw wr (mem n) (se_length se) pos s = Some (r, pos', s')"
    "r = VTM_SOCK_EMIT_COMPLETE \<longrightarrow> sent s' = sent s @ drop pos (take (unat (se_length se)) (mem n))"
    "r = VTM_SOCK_EMIT_AGAIN \<longrightarrow> pos \<le> pos' \<and> pos' \<le> unat (se_length se)
       \<and> sent s' @ drop pos' (take (unat (se_length se)) (mem n)) = sent s @ drop pos (take (unat (se_length se)) (mem n))"
    "prefix (sent s') (sent s @ drop pos (take (unat (se_length se)) (mem n)))"
    by (rule write_raw_law [OF assms(1) len])
  then show thesis
    using EmtBuf len by (intro that [of r "se\<lparr>se_body := EmtBuf n pos' fr\<rparr>" s']) (auto simp: emt_write_def)
qed (use assms(2) in simp)

lemma try_write_law:
  assumes "byte_sink wr sent" "list_all (emt_ok mem) chain" "chain \<noteq> []"
  shows "\<exists>rc chain' freed s'. vtm_socket_emitter_try_write wr mem chain s = Some (rc, chain', freed, s')
    \<and> (rc = VTM_OK \<longrightarrow> chain' = [] \<and> sent s' = sent s @ chain_pending mem chain)
    \<and> (rc = VTM_E_IO_AGAIN \<longrightarrow> chain' \<noteq> [] \<and> list_all (emt_ok mem) chain' \<and> sent s' @ chain_pending mem chain' = sent s @ chain_pending mem chain)
    \<and> prefix (sent s') (sent s @ chain_pending mem chain) \<and> rc \<in> {VTM_OK, VTM_E_IO_AGAIN, VTM_ERROR}"
  using assms(2,3)
proof (induction chain arbitrary: s)
  case (Cons se chain)
  obtain r se' s1 where w: "emt_write wr mem se s = Some (r, se', s1)"
    "r = VTM_SOCK_EMIT_COMPLETE \<longrightarrow> sent s1 = sent s @ emt_pending mem se"
    "r = VTM_SOCK_EMIT_AGAIN \<longrightarrow> emt_ok mem se' \<and> sent s1 @ emt_pending mem se' = sent s @ emt_pending mem se"
    "prefix (sent s1) (sent s @ emt_pending mem se)"
    by (rule emt_write_law [OF assms(1), of mem se s]) (use Cons.prems in simp_all)
  have pend: "chain_pending mem (x # xs) = emt_pending mem x @ chain_pending mem xs" for x xs by (simp add: chain_pending_def del: emt_pending.simps)
  show ?case
  proof (cases r)
    case VTM_SOCK_EMIT_COMPLETE
    show ?thesis
    proof (cases "chain = []")
      case True
      with VTM_SOCK_EMIT_COMPLETE w show ?thesis by (simp add: pend del: emt_pending.simps) (simp add: chain_pending_def)
    next
      case False
      with Cons.IH [of s1] Cons.prems VTM_SOCK_EMIT_COMPLETE w show ?thesis
        by (auto simp: pend Let_def simp del: emt_pending.simps emt_ok.simps)
    qed
  next
    case VTM_SOCK_EMIT_AGAIN
    then have "sent s1 @ emt_pending mem se' @ chain_pending mem chain = sent s @ emt_pending mem se @ chain_pending mem chain"
      using w(3) by (metis append.assoc)
    with VTM_SOCK_EMIT_AGAIN w Cons.prems show ?thesis
      by (auto simp: pend prefix_append simp del: emt_pending.simps emt_ok.simps)
  next
    case VTM_SOCK_EMIT_ERROR
    with w show ?thesis by (auto simp: pend prefix_append simp del: emt_pending.simps)
  qed
qed simp

text \<open>A socket that takes a byte at least whenever it does not take all.\<close>

definition sink_progress :: "'s sock_write \<Rightarrow> bool" where
  "sink_progress wr \<longleftrightarrow> (\<forall>bs s rc n s'. wr bs s = Some ((rc, n), s') \<longrightarrow> rc = VTM_OK \<or> rc = VTM_E_IO_AGAIN \<and> n > 0)"

lemma write_raw_progress:
  assumes "byte_sink wr sent" "sink_progress wr" "pos \<le> unat len" "unat len \<le> length src"
    and "vtm_socket_emitter_write_raw wr src len pos s = Some (r, pos', s')"
  shows "r = VTM_SOCK_EMIT_COMPLETE \<or> r = VTM_SOCK_EMIT_AGAIN \<and> length (sent s) < length (sent s')"
proof -
  define bs where "bs = take (unat len - pos) (drop pos src)"
  obtain rc n s1 where w: "wr bs s = Some ((rc, n), s1)" "n \<le> length bs" "sent s1 = sent s @ take n bs" "rc = VTM_OK \<longrightarrow> n = length bs"
    by (rule byte_sinkE [OF assms(1)])
  moreover from w(1) assms(2) have "rc = VTM_OK \<or> rc = VTM_E_IO_AGAIN \<and> n > 0" unfolding sink_progress_def by blast
  moreover have "length bs = unat len - pos" using assms(3,4) by (simp add: bs_def)
  ultimately show ?thesis
    using assms(3,5) by (auto simp: vtm_socket_emitter_write_raw_def bs_def [symmetric] split: if_splits)
qed

lemma emt_write_progress:
  assumes "byte_sink wr sent" "sink_progress wr" "emt_ok mem se" "emt_write wr mem se s = Some (r, se', s')"
  shows "r = VTM_SOCK_EMIT_COMPLETE \<or> r = VTM_SOCK_EMIT_AGAIN \<and> length (sent s) < length (sent s')"
  using assms(3,4)
  by (cases "se_body se") (auto simp: emt_write_def dest!: write_raw_progress [OF assms(1,2), rotated 2])

lemma try_write_progress:
  assumes "byte_sink wr sent" "sink_progress wr" "list_all (emt_ok mem) chain" "chain \<noteq> []"
    and "vtm_socket_emitter_try_write wr mem chain s = Some (rc, chain', freed, s')"
  shows "rc = VTM_OK \<or> rc = VTM_E_IO_AGAIN \<and> length (sent s) < length (sent s')"
  using assms(3-)
proof (induction chain arbitrary: s freed)
  case (Cons se chain)
  obtain r se' s1 where w: "emt_write wr mem se s = Some (r, se', s1)"
    "r = VTM_SOCK_EMIT_COMPLETE \<longrightarrow> sent s1 = sent s @ emt_pending mem se"
    by (rule emt_write_law [OF assms(1), of mem se s]) (use Cons.prems in simp_all)
  have p: "r = VTM_SOCK_EMIT_COMPLETE \<or> r = VTM_SOCK_EMIT_AGAIN \<and> length (sent s) < length (sent s1)"
    by (rule emt_write_progress [OF assms(1,2) _ w(1)]) (use Cons.prems in simp)
  show ?case
  proof (cases "r = VTM_SOCK_EMIT_COMPLETE \<and> chain \<noteq> []")
    case True
    with w Cons.prems(3) obtain fr where "vtm_socket_emitter_try_write wr mem chain s1 = Some (rc, chain', fr, s')"
      by (auto simp: Let_def)
    with Cons.IH [of s1 fr] Cons.prems(1) True have "rc = VTM_OK \<or> rc = VTM_E_IO_AGAIN \<and> length (sent s1) < length (sent s')" by simp
    with w(2) True show ?thesis by auto
  qed (use w p Cons.prems(3) in \<open>auto simp: Let_def\<close>)
qed simp

text \<open>
  The attempts that follow each other while the socket is busy, as \<open>vtm_http_con_write\<close> makes them whenever it can be written
  again: at most \<open>k\<close> calls of \<open>vtm_socket_emitter_try_write\<close>. Without any call the chain is still pending.
\<close>

fun emt_drive ::
    "nat \<Rightarrow> 's sock_write \<Rightarrow> (nat \<Rightarrow> byte list) \<Rightarrow> vtm_socket_emitter list \<Rightarrow> 's
     \<Rightarrow> (vtm_rc \<times> vtm_socket_emitter list \<times> emt_body list \<times> 's) option" where
  "emt_drive 0 wr mem chain s = Some (VTM_E_IO_AGAIN, chain, [], s)"
| "emt_drive (Suc k) wr mem chain s =
     (case vtm_socket_emitter_try_write wr mem chain s of
        Some (VTM_E_IO_AGAIN, chain, freed, s) \<Rightarrow>
          map_option (\<lambda>(rc, chain, fr, s). (rc, chain, freed @ fr, s)) (emt_drive k wr mem chain s)
      | r \<Rightarrow> r)"

lemma emt_drive_finishes:
  assumes "byte_sink wr sent" "sink_progress wr" "list_all (emt_ok mem) chain" "chain \<noteq> []" "length (chain_pending mem chain) < k"
  shows "\<exists>freed s'. emt_drive k wr mem chain s = Some (VTM_OK, [], freed, s') \<and> sent s' = sent s @ chain_pending mem chain"
  using assms(3-)
proof (induction k arbitrary: chain s)
  case (Suc k)
  then obtain rc chain' freed s' where t: "vtm_socket_emitter_try_write wr mem chain s = Some (rc, chain', freed, s')"
    "rc = VTM_OK \<longrightarrow> chain' = [] \<and> sent s' = sent s @ chain_pending mem chain"
    "rc = VTM_E_IO_AGAIN \<longrightarrow> chain' \<noteq> [] \<and> list_all (emt_ok mem) chain' \<and> sent s' @ chain_pending mem chain' = sent s @ chain_pending mem chain"
    using try_write_law [OF assms(1), of mem chain s] by blast
  from try_write_progress [OF assms(1,2) Suc.prems(1,2) t(1)] consider "rc = VTM_OK"
    | "rc = VTM_E_IO_AGAIN" "length (sent s) < length (sent s')" by blast
  then show ?case
  proof cases
    case 2
    with t(3) have "length (sent s') + length (chain_pending mem chain') = length (sent s) + length (chain_pending mem chain)"
      by (metis length_append)
    with 2 Suc.prems have "length (chain_pending mem chain') < k" by linarith
    with Suc.IH [of chain' s'] t(3) 2 obtain fr s2 where "emt_drive k wr mem chain' s' = Some (VTM_OK, [], fr, s2)"
      "sent s2 = sent s' @ chain_pending mem chain'" by blast
    with t 2 show ?thesis by auto
  qed (use t in auto)
qed simp

text \<open>
  C26. A chain of emitters for memory and buffers is sent. Every write to the socket may take only a part of the bytes; when it
  takes at least one each time, then one attempt more than there are bytes is enough: the last one reports success, no emitter
  is left, and exactly the bytes of the emitters have been sent, in their order. (The one more is for a socket that takes
  the last byte and still reports that it is busy.)
\<close>

theorem emitter_chain_sent:
  assumes "byte_sink wr sent" "sink_progress wr" "list_all (emt_ok mem) chain" "chain \<noteq> []"
  shows "\<exists>freed s'. emt_drive (length (chain_pending mem chain) + 1) wr mem chain s = Some (VTM_OK, [], freed, s')
     \<and> sent s' = sent s @ chain_pending mem chain"
  by (rule emt_drive_finishes [OF assms]) simp

theorem emitter_chain_sent_witness:
  "\<exists>freed s'. emt_drive 6 write_two (\<lambda>n. [9, 8])
     [\<lparr>se_length = 3, se_body = EmtRaw [1, 2, 3] 0\<rparr>, \<lparr>se_length = 2, se_body = EmtBuf 0 0 False\<rparr>] [] = Some (VTM_OK, [], freed, s')
     \<and> s' = [1, 2, 3, 9, 8]"
proof -
  define chain :: "vtm_socket_emitter list" where
    "chain = [\<lparr>se_length = 3, se_body = EmtRaw [1, 2, 3] 0\<rparr>, \<lparr>se_length = 2, se_body = EmtBuf 0 0 False\<rparr>]"
  have "sink_progress write_two" by (auto simp: sink_progress_def write_two_def split: if_splits)
  note write_two_sink this
  moreover have "list_all (emt_ok (\<lambda>n. [9, 8])) chain" "chain \<noteq> []" by (simp_all add: chain_def)
  ultimately have "\<exists>freed s'. emt_drive (length (chain_pending (\<lambda>n. [9, 8]) chain) + 1) write_two (\<lambda>n. [9, 8]) chain [] = Some (VTM_OK, [], freed, s')
     \<and> s' = [] @ chain_pending (\<lambda>n. [9, 8]) chain"
    by (rule emitter_chain_sent)
  moreover have p: "chain_pending (\<lambda>n. [9, 8]) chain = [1, 2, 3, 9, 8]" "length (chain_pending (\<lambda>n. [9, 8]) chain) + 1 = 6"
    by (simp_all add: chain_def chain_pending_def)
  ultimately show ?thesis by (simp only: p append_Nil chain_def)
qed

subsection \<open>Sending files\<close>

text \<open>
  C37. The end of a file is lost when the socket is busy. For a file that is shorter than the array of the emitter, a first attempt
  of which the socket takes only a part is followed by one that reports the file as sent without writing anything: the number
  of bytes in the array is wrong, and the end of the file is noticed before they are looked at.
\<close>

theorem emitter_file_tail_lost:
  assumes "length junk = VTM_EMT_FILE_BUF_SIZE" "content \<noteq> []" "length content < VTM_EMT_FILE_BUF_SIZE"
    and "wr content s = Some ((VTM_E_IO_AGAIN, n), s1)" "n < length content"
  shows "\<exists>fe1 fe2. vtm_socket_emitter_write_file wr \<lparr>fe_buf = junk, fe_used = 0, fe_written = 0, fe_rest = content, fe_eof = False\<rparr> s
       = Some (VTM_SOCK_EMIT_AGAIN, fe1, s1)
     \<and> vtm_socket_emitter_write_file wr fe1 s2 = Some (VTM_SOCK_EMIT_COMPLETE, fe2, s2)"
proof -
  define fe where "fe = \<lparr>fe_buf = content @ drop (length content) junk, fe_used = length content, fe_written = 0, fe_rest = [], fe_eof = True\<rparr>"
  have 1: "vtm_socket_emitter_write_file wr \<lparr>fe_buf = junk, fe_used = 0, fe_written = 0, fe_rest = content, fe_eof = False\<rparr> s
       = Some (VTM_SOCK_EMIT_AGAIN, emt_shift n fe, s1)"
    using assms by (subst vtm_socket_emitter_write_file.simps) (simp add: emt_fread_def Let_def fe_def)
  have "vtm_socket_emitter_write_file wr (emt_shift n fe) s2 = Some (VTM_SOCK_EMIT_COMPLETE, snd (emt_fread (emt_shift n fe)), s2)"
    by (subst vtm_socket_emitter_write_file.simps) (simp add: emt_fread_def emt_shift_def Let_def fe_def)
  with 1 show ?thesis by blast
qed

theorem emitter_file_tail_lost_witness:
  "\<exists>fe1 fe2. vtm_socket_emitter_write_file write_two \<lparr>fe_buf = replicate 4096 0, fe_used = 0, fe_written = 0, fe_rest = [1, 2, 3, 4, 5], fe_eof = False\<rparr> []
       = Some (VTM_SOCK_EMIT_AGAIN, fe1, [1, 2])
     \<and> vtm_socket_emitter_write_file write_two fe1 [1, 2] = Some (VTM_SOCK_EMIT_COMPLETE, fe2, [1, 2])"
  by (rule emitter_file_tail_lost [where n = 2]) (simp_all add: VTM_EMT_FILE_BUF_SIZE_def write_two_def numeral_2_eq_2)

end
