(* ===== verification/HttpResponse.thy ===== *)
theory HttpResponse
  imports HttpRouter SocketEmitter
begin

text \<open>
  Responses of the HTTP server, \<open>net/http/http_response.c\<close>, with the date of \<open>http_format.c\<close>. A response is built in a
  buffer: the status line, header fields, and a body of known length or in chunks. \<open>ma\<close> is the allocator, \<open>now\<close> the date
  of the system. The connection keeps what could not be sent: the chain of emitters is part of the result of sending.
\<close>

subsection \<open>Dates\<close>

record vtm_date =
  dt_year :: int
  dt_month :: nat
  dt_day_of_week :: nat
  dt_day_of_month :: nat
  dt_hour :: nat
  dt_minute :: nat
  dt_second :: nat

definition VTM_HTTP_MONTH :: "cstr list" where
  "VTM_HTTP_MONTH = map bytes_of [''Jan'', ''Feb'', ''Mar'', ''Apr'', ''May'', ''Jun'', ''Jul'', ''Aug'', ''Sep'', ''Oct'', ''Nov'', ''Dec'']"

definition VTM_HTTP_DAY :: "cstr list" where
  "VTM_HTTP_DAY = map bytes_of [''Mon'', ''Tue'', ''Wed'', ''Thu'', ''Fri'', ''Sat'', ''Sun'']"

text \<open>\<open>%0<w>d\<close> of \<open>snprintf\<close>.\<close>

definition zero_pad :: "nat \<Rightarrow> int \<Rightarrow> cstr" where
  "zero_pad w i =
     (if i < 0 then 45 # replicate (w - 1 - length (nat_dec (nat (- i)))) 48 @ nat_dec (nat (- i))
      else replicate (w - length (nat_dec (nat i))) 48 @ nat_dec (nat i))"

text \<open>\<open>None\<close> is an access outside the tables of names; the code is not \<open>VTM_OK\<close> when the array is too small.\<close>

definition vtm_http_fmt_date :: "nat \<Rightarrow> vtm_date \<Rightarrow> (vtm_rc \<times> cstr) option" where
  "vtm_http_fmt_date max_len date =
     (if dt_day_of_week date \<ge> length VTM_HTTP_DAY \<or> dt_month date \<ge> length VTM_HTTP_MONTH then None
      else
        let out = VTM_HTTP_DAY ! dt_day_of_week date @ bytes_of '', '' @ nat_dec (dt_day_of_month date) @ bytes_of '' ''
              @ VTM_HTTP_MONTH ! dt_month date @ bytes_of '' '' @ zero_pad 4 (dt_year date) @ bytes_of '' ''
              @ zero_pad 2 (int (dt_hour date)) @ bytes_of '':'' @ zero_pad 2 (int (dt_minute date)) @ bytes_of '':''
              @ zero_pad 2 (int (dt_second date)) @ bytes_of '' GMT''
        in Some (if length out \<ge> max_len then VTM_ERROR else VTM_OK, take (max_len - 1) out))"

text \<open>\<open>gmtime_r\<close> counts the days of the week from Sunday.\<close>

record c_tm =
  tm_year :: int
  tm_mon :: nat
  tm_wday :: nat
  tm_mday :: nat
  tm_hour :: nat
  tm_min :: nat
  tm_sec :: nat

definition vtm_date_now_utc :: "c_tm \<Rightarrow> vtm_date" where
  "vtm_date_now_utc now =
     \<lparr>dt_year = 1900 + tm_year now, dt_month = tm_mon now, dt_day_of_week = if tm_wday now = 0 then 6 else tm_wday now - 1,
      dt_day_of_month = tm_mday now, dt_hour = tm_hour now, dt_minute = tm_min now, dt_second = tm_sec now\<rparr>"

definition VTM_HTTP_DATE_LEN :: nat where "VTM_HTTP_DATE_LEN = 30"

subsection \<open>State\<close>

datatype vtm_http_res_mode = VTM_HTTP_RES_MODE_FIXED | VTM_HTTP_RES_MODE_CHUNKED

datatype vtm_http_res_act = VTM_HTTP_RES_ACT_CLOSE_CON | VTM_HTTP_RES_ACT_KEEP_CON | VTM_HTTP_RES_ACT_UPGRADE_WS

datatype vtm_http_res_stage =
    VTM_HTTP_RES_STAGE_UNINITIALZED | VTM_HTTP_RES_STAGE_HEADER_OR_BODY | VTM_HTTP_RES_STAGE_HEADER
  | VTM_HTTP_RES_STAGE_BODY | VTM_HTTP_RES_STAGE_COMPLETED

record vtm_http_res =
  he_version :: vtm_http_version
  he_mode :: vtm_http_res_mode
  he_stage :: vtm_http_res_stage
  he_act :: vtm_http_res_act
  he_act_data :: "cstr option"
  he_buf :: vtm_buf
  he_body_buf :: vtm_buf
  he_body_se :: "vtm_socket_emitter list"

definition vtm_http_res_new :: "bool \<Rightarrow> vtm_byteorder \<Rightarrow> vtm_http_res option" where
  "vtm_http_res_new mem ord =
     (if mem then Some \<lparr>he_version = VTM_HTTP_VER_1_0, he_mode = VTM_HTTP_RES_MODE_FIXED, he_stage = VTM_HTTP_RES_STAGE_UNINITIALZED,
        he_act = VTM_HTTP_RES_ACT_CLOSE_CON, he_act_data = None, he_buf = vtm_buf_init ord, he_body_buf = vtm_buf_init ord, he_body_se = []\<rparr>
      else None)"

text \<open>The default action depends on the version and the field \<open>Connection\<close>; reading the field may fail.\<close>

definition vtm_http_res_prepare :: "allocator \<Rightarrow> vtm_http_res \<Rightarrow> vtm_http_req \<Rightarrow> conv_err + vtm_http_res \<times> vtm_http_req" where
  "vtm_http_res_prepare ma res req =
     (let res = res\<lparr>he_version := hq_version req, he_mode := VTM_HTTP_RES_MODE_FIXED, he_stage := VTM_HTTP_RES_STAGE_UNINITIALZED,
                    he_buf := vtm_buf_clear (he_buf res), he_body_buf := vtm_buf_clear (he_body_buf res), he_body_se := [], he_act_data := None\<rparr>
      in case hq_version req of
           VTM_HTTP_VER_1_0 \<Rightarrow> Inr (res\<lparr>he_act := VTM_HTTP_RES_ACT_CLOSE_CON\<rparr>, req)
         | VTM_HTTP_VER_1_1 \<Rightarrow>
             map_sum id (\<lambda>(val, req).
                 (res\<lparr>he_act := if (case val of None \<Rightarrow> False | Some v \<Rightarrow> vtm_str_casecmp v VTM_HTTP_VALUE_CLOSE = 0)
                                then VTM_HTTP_RES_ACT_CLOSE_CON else VTM_HTTP_RES_ACT_KEEP_CON\<rparr>, req))
               (vtm_http_req_get_header_str ma req VTM_HTTP_HEADER_CONNECTION))"

subsection \<open>Building the response\<close>

text \<open>A row of calls of \<open>vtm_buf_puts\<close>, whose errors stay in the buffer.\<close>

definition buf_puts_all :: "allocator \<Rightarrow> vtm_buf \<Rightarrow> cstr list \<Rightarrow> vtm_buf" where
  "buf_puts_all ma b strs = fold (\<lambda>str b. snd (vtm_buf_puts ma b str)) strs b"

abbreviation http_crlf :: cstr where "http_crlf \<equiv> [13, 10]"

definition vtm_http_res_header :: "allocator \<Rightarrow> vtm_http_res \<Rightarrow> cstr \<Rightarrow> cstr \<Rightarrow> vtm_rc \<times> vtm_http_res" where
  "vtm_http_res_header ma res name value =
     (if he_stage res \<noteq> VTM_HTTP_RES_STAGE_HEADER_OR_BODY \<and> he_stage res \<noteq> VTM_HTTP_RES_STAGE_HEADER then (VTM_ERROR, res)
      else
        let b = buf_puts_all ma (he_buf res) [name, bytes_of '': '', value, http_crlf]
        in (buf_err b, res\<lparr>he_stage := VTM_HTTP_RES_STAGE_HEADER, he_buf := b\<rparr>))"

definition vtm_http_res_set_date :: "allocator \<Rightarrow> c_tm \<Rightarrow> vtm_http_res \<Rightarrow> (vtm_rc \<times> vtm_http_res) option" where
  "vtm_http_res_set_date ma now res =
     map_option (\<lambda>(rc, str). if rc \<noteq> VTM_OK then (rc, res) else vtm_http_res_header ma res VTM_HTTP_HEADER_DATE str)
       (vtm_http_fmt_date VTM_HTTP_DATE_LEN (vtm_date_now_utc now))"

definition VTM_BUILD_VERSION :: cstr where "VTM_BUILD_VERSION = bytes_of ''ventanium/0.1.0''"

definition http_status_line :: "vtm_http_version \<Rightarrow> u32 \<Rightarrow> cstr list" where
  "http_status_line ver status =
     [case vtm_http_get_version_string ver of None \<Rightarrow> [] | Some v \<Rightarrow> v, [32], snd (vtm_fmt_int True status), [32],
      vtm_http_get_status_phrase (sint status), http_crlf]"

text \<open>
  The digits of the status are written to an array of \<open>VTM_FMT_CHARS_INT32\<close> characters, which leaves no room for the terminating
  zero behind eleven of them (\<open>None\<close>).
\<close>

definition VTM_FMT_CHARS_INT32 :: nat where "VTM_FMT_CHARS_INT32 = 11"

definition vtm_http_res_begin ::
    "allocator \<Rightarrow> c_tm \<Rightarrow> vtm_http_res \<Rightarrow> vtm_http_res_mode \<Rightarrow> u32 \<Rightarrow> (vtm_rc \<times> vtm_http_res) option" where
  "vtm_http_res_begin ma now res mode status =
     (if he_stage res \<noteq> VTM_HTTP_RES_STAGE_UNINITIALZED then Some (VTM_ERROR, res)
      else if fst (vtm_fmt_int True status) \<ge> VTM_FMT_CHARS_INT32 then None
      else
        let res = res\<lparr>he_stage := VTM_HTTP_RES_STAGE_HEADER_OR_BODY, he_mode := mode,
                      he_buf := buf_puts_all ma (he_buf res) (http_status_line (he_version res) status)\<rparr>
        in if buf_err (he_buf res) \<noteq> VTM_OK then Some (VTM_ERROR, res)
           else
             let (rc, res) = vtm_http_res_header ma res VTM_HTTP_HEADER_SERVER VTM_BUILD_VERSION
             in if rc \<noteq> VTM_OK then Some (rc, res)
                else map_option (\<lambda>(rc, res).
                       if rc \<noteq> VTM_OK then (rc, res)
                       else case he_mode res of
                              VTM_HTTP_RES_MODE_CHUNKED \<Rightarrow> vtm_http_res_header ma res VTM_HTTP_HEADER_TRANSFER_ENCODING VTM_HTTP_VALUE_CHUNKED
                            | VTM_HTTP_RES_MODE_FIXED \<Rightarrow> (rc, res))
                     (vtm_http_res_set_date ma now res))"

definition http_con_field :: "vtm_http_res_act \<Rightarrow> cstr option" where
  "http_con_field act =
     (case act of
        VTM_HTTP_RES_ACT_CLOSE_CON \<Rightarrow> Some VTM_HTTP_VALUE_CLOSE
      | VTM_HTTP_RES_ACT_KEEP_CON \<Rightarrow> Some VTM_HTTP_VALUE_KEEP_ALIVE
      | VTM_HTTP_RES_ACT_UPGRADE_WS \<Rightarrow> None)"

definition vtm_http_res_close_headers :: "allocator \<Rightarrow> vtm_http_res \<Rightarrow> vtm_rc \<times> vtm_http_res" where
  "vtm_http_res_close_headers ma res =
     (let res = (case http_con_field (he_act res) of
                   None \<Rightarrow> res
                 | Some v \<Rightarrow> snd (vtm_http_res_header ma res VTM_HTTP_HEADER_CONNECTION v));
          (rc, b) = vtm_buf_puts ma (he_buf res) http_crlf
      in (rc, res\<lparr>he_buf := b\<rparr>))"

definition vtm_http_res_write_chunked :: "allocator \<Rightarrow> vtm_http_res \<Rightarrow> byte list \<Rightarrow> vtm_rc \<times> vtm_http_res" where
  "vtm_http_res_write_chunked ma res src =
     (let len = of_nat (length src);
          (hex_len, _) = vtm_fmt_hex_size False len;
          (rc, b) = vtm_buf_ensure ma (he_buf res) (of_nat hex_len)
      in if rc \<noteq> VTM_OK then (rc, res\<lparr>he_buf := b\<rparr>)
         else
           let b = buf_puts_all ma (VTM_BUF_PUT_INC b (snd (vtm_fmt_hex_size True len))) [http_crlf, src, http_crlf]
           in (buf_err b, res\<lparr>he_buf := b\<rparr>))"

definition vtm_http_res_body_raw :: "allocator \<Rightarrow> vtm_http_res \<Rightarrow> byte list \<Rightarrow> vtm_rc \<times> vtm_http_res" where
  "vtm_http_res_body_raw ma res src =
     (if he_stage res = VTM_HTTP_RES_STAGE_UNINITIALZED \<or> he_stage res = VTM_HTTP_RES_STAGE_COMPLETED then (VTM_ERROR, res)
      else case he_mode res of
             VTM_HTTP_RES_MODE_FIXED \<Rightarrow>
               let (rc, b) = vtm_buf_putm ma (he_body_buf res) src in (rc, res\<lparr>he_body_buf := b\<rparr>)
           | VTM_HTTP_RES_MODE_CHUNKED \<Rightarrow>
               if he_stage res \<noteq> VTM_HTTP_RES_STAGE_BODY
               then let (rc, res) = vtm_http_res_close_headers ma res;
                        res = res\<lparr>he_stage := VTM_HTTP_RES_STAGE_BODY\<rparr>
                    in if rc \<noteq> VTM_OK then (rc, res) else vtm_http_res_write_chunked ma res src
               else vtm_http_res_write_chunked ma res src)"

definition vtm_http_res_body_str :: "allocator \<Rightarrow> vtm_http_res \<Rightarrow> cstr \<Rightarrow> vtm_rc \<times> vtm_http_res" where
  "vtm_http_res_body_str ma res data = vtm_http_res_body_raw ma res data"

definition vtm_http_res_body_emt :: "vtm_http_res \<Rightarrow> vtm_socket_emitter list \<Rightarrow> vtm_rc \<times> vtm_http_res" where
  "vtm_http_res_body_emt res se = (if he_body_se res \<noteq> [] then (VTM_ERROR, res) else (VTM_OK, res\<lparr>he_body_se := se\<rparr>))"

definition vtm_http_res_set_action :: "vtm_http_res \<Rightarrow> vtm_http_res_act \<Rightarrow> cstr option \<Rightarrow> vtm_rc \<times> vtm_http_res" where
  "vtm_http_res_set_action res act data =
     (if he_stage res = VTM_HTTP_RES_STAGE_BODY \<or> he_stage res = VTM_HTTP_RES_STAGE_COMPLETED then (VTM_E_INVALID_STATE, res)
      else (VTM_OK, res\<lparr>he_act := act, he_act_data := data\<rparr>))"

definition vtm_http_res_get_action :: "vtm_http_res \<Rightarrow> vtm_http_res_act" where
  "vtm_http_res_get_action res = he_act res"

definition vtm_http_res_was_started :: "vtm_http_res \<Rightarrow> bool" where
  "vtm_http_res_was_started res \<longleftrightarrow> he_stage res \<noteq> VTM_HTTP_RES_STAGE_UNINITIALZED"

definition vtm_http_res_was_sent :: "vtm_http_res \<Rightarrow> bool" where
  "vtm_http_res_was_sent res \<longleftrightarrow> he_stage res = VTM_HTTP_RES_STAGE_COMPLETED"

subsection \<open>Sending\<close>

text \<open>
  The first part of \<open>vtm_http_res_end\<close>: the rest of the response is put into the buffer. The length is printed by
  \<open>vtm_str_printf\<close>; without memory the result is a null pointer that is dereferenced (\<open>None\<close>). The result of the last
  write to the buffer is not looked at.
\<close>

definition http_res_finish :: "allocator \<Rightarrow> bool \<Rightarrow> vtm_http_res \<Rightarrow> (vtm_rc \<times> vtm_http_res) option" where
  "http_res_finish ma mem res =
     (case he_mode res of
        VTM_HTTP_RES_MODE_FIXED \<Rightarrow>
          (let len = (if buf_used (he_body_buf res) > 0 then buf_used (he_body_buf res) else 0)
           in case (if he_body_se res = [] then Some 0 else vtm_socket_emitter_get_chain_lensum (he_body_se res)) of
                None \<Rightarrow> Some (VTM_E_OVERFLOW, res)
              | Some chain_len \<Rightarrow>
                  if \<not> mem then None
                  else
                    let (rc, res) = vtm_http_res_header ma res VTM_HTTP_HEADER_CONTENT_LENGTH (nat_dec (unat (len + chain_len)))
                    in if rc \<noteq> VTM_OK then Some (rc, res)
                       else
                         let (rc, res) = vtm_http_res_close_headers ma res
                         in if rc \<noteq> VTM_OK then Some (rc, res)
                            else Some (VTM_OK,
                              if buf_used (he_body_buf res) > 0
                              then res\<lparr>he_buf := snd (vtm_buf_putm ma (he_buf res) (buf_data (he_body_buf res)))\<rparr> else res))
      | VTM_HTTP_RES_MODE_CHUNKED \<Rightarrow>
          Some (let (rc, res) = (if he_stage res = VTM_HTTP_RES_STAGE_HEADER_OR_BODY \<or> he_stage res = VTM_HTTP_RES_STAGE_HEADER
                                 then vtm_http_res_close_headers ma res else (VTM_OK, res))
                in if rc \<noteq> VTM_OK then (rc, res) else vtm_http_res_write_chunked ma res []))"

text \<open>
  The return code, the response, the chain that the connection keeps (empty when it is left as it was) and the state of the socket.
  The buffer of the response is number 0; \<open>bufs\<close> are the others.
\<close>

definition vtm_http_res_send ::
    "(nat \<Rightarrow> byte list) \<Rightarrow> 's sock_write \<Rightarrow> bool \<Rightarrow> vtm_http_res \<Rightarrow> 's \<Rightarrow> (vtm_rc \<times> vtm_http_res \<times> vtm_socket_emitter list \<times> 's) option" where
  "vtm_http_res_send bufs wr alloc res s =
     (case vtm_socket_emitter_for_buffer alloc 0 (he_buf res) False of
        None \<Rightarrow> Some (VTM_E_MALLOC, res, [], s)
      | Some se \<Rightarrow>
          (case vtm_socket_emitter_try_write wr (bufs(0 := buf_data (he_buf res))) (se # he_body_se res) s of
             None \<Rightarrow> None
           | Some (rc, chain, freed, s) \<Rightarrow>
               if rc = VTM_OK then Some (VTM_OK, res\<lparr>he_stage := VTM_HTTP_RES_STAGE_COMPLETED\<rparr>, [], s)
               else if rc = VTM_E_IO_AGAIN then Some (VTM_OK, res\<lparr>he_stage := VTM_HTTP_RES_STAGE_COMPLETED\<rparr>, chain, s)
               else Some (rc, res, [], s)))"

definition vtm_http_res_end ::
    "allocator \<Rightarrow> (nat \<Rightarrow> byte list) \<Rightarrow> bool \<Rightarrow> bool \<Rightarrow> 's sock_write \<Rightarrow> vtm_http_res \<Rightarrow> 's
     \<Rightarrow> (vtm_rc \<times> vtm_http_res \<times> vtm_socket_emitter list \<times> 's) option" where
  "vtm_http_res_end ma bufs mem alloc wr res s =
     (if he_stage res = VTM_HTTP_RES_STAGE_UNINITIALZED \<or> he_stage res = VTM_HTTP_RES_STAGE_COMPLETED then Some (VTM_ERROR, res, [], s)
      else case http_res_finish ma mem res of
             None \<Rightarrow> None
           | Some (rc, res) \<Rightarrow> if rc \<noteq> VTM_OK then Some (rc, res, [], s) else vtm_http_res_send bufs wr alloc res s)"

subsection \<open>What is written\<close>

lemma puts_all_room:
  assumes "buf_room b (length (concat strs) + n)" and ma: "\<forall>m. ma m"
  shows "buf_ext b (concat strs) (buf_puts_all ma b strs) \<and> buf_room (buf_puts_all ma b strs) n"
  using assms(1)
proof (induction strs arbitrary: b)
  case Nil
  then show ?case by (simp add: buf_puts_all_def buf_ext_def buf_room_def)
next
  case (Cons str strs)
  obtain b1 where b1: "vtm_buf_putm ma b str = (VTM_OK, b1)" "buf_ext b str b1" "buf_room b1 (length (concat strs) + n)"
    by (rule room_putm [OF _ ma, of b str "length (concat strs) + n"]) (use Cons.prems in \<open>simp add: add.assoc\<close>)
  from Cons.IH [OF b1(3)] b1 show ?case
    using buf_ext_trans by (fastforce simp: buf_puts_all_def vtm_buf_puts_def)
qed

lemma grow_order: "buf_order (vtm_buf_grow ma b n) = buf_order b"
  by (simp add: vtm_buf_grow_def Let_def split: option.split)

lemma ensure_put:
  assumes "length bs = k" "vtm_buf_putm ma b bs = (VTM_OK, b1)"
  shows "vtm_buf_ensure ma b (of_nat k) = (VTM_OK, b2) \<Longrightarrow> VTM_BUF_PUT_INC b2 bs = b1"
    "fst (vtm_buf_ensure ma b (of_nat k)) = VTM_OK"
  using assms
  by (auto simp: vtm_buf_ensure_def vtm_buf_putm_def vtm_buf_puto_def VTM_BUF_PUT_INC_def grow_order Let_def split: if_splits)

text \<open>The buffer of a response holds \<open>bs\<close>, and \<open>n\<close> more bytes fit.\<close>

definition res_has :: "vtm_http_res \<Rightarrow> byte list \<Rightarrow> nat \<Rightarrow> bool" where
  "res_has res bs n \<longleftrightarrow> buf_data (he_buf res) = bs \<and> buf_room (he_buf res) n"

definition http_field :: "cstr \<Rightarrow> cstr \<Rightarrow> byte list" where
  "http_field name value = name @ bytes_of '': '' @ value @ http_crlf"

definition http_chunk :: "byte list \<Rightarrow> byte list" where
  "http_chunk src = snd (vtm_fmt_hex_size True (of_nat (length src))) @ http_crlf @ src @ http_crlf"

lemma http_chunk_len: "length (http_chunk src) + n = length (snd (vtm_fmt_hex_size True (of_nat (length src)))) + (length src + 4 + n)"
  by (simp add: http_chunk_def)

lemma res_has_puts:
  assumes "res_has res bs (length (concat strs) + n)" "\<forall>m. ma m" "concat strs = new"
  shows "buf_data (buf_puts_all ma (he_buf res) strs) = bs @ new \<and> buf_room (buf_puts_all ma (he_buf res) strs) n
    \<and> buf_err (buf_puts_all ma (he_buf res) strs) = VTM_OK"
  using puts_all_room [of "he_buf res" strs n ma] assms by (auto simp: res_has_def buf_ext_def)

lemma res_header:
  assumes "he_stage res \<in> {VTM_HTTP_RES_STAGE_HEADER_OR_BODY, VTM_HTTP_RES_STAGE_HEADER}"
    and "res_has res bs (length (http_field name value) + n)" "\<forall>m. ma m"
  obtains b where "vtm_http_res_header ma res name value = (VTM_OK, res\<lparr>he_stage := VTM_HTTP_RES_STAGE_HEADER, he_buf := b\<rparr>)"
    "buf_data b = bs @ http_field name value" "buf_room b n"
  using res_has_puts [of res bs "[name, bytes_of '': '', value, http_crlf]" n ma "http_field name value"] assms
  by (auto simp: vtm_http_res_header_def http_field_def Let_def)

lemma res_close_headers:
  assumes "he_stage res \<in> {VTM_HTTP_RES_STAGE_HEADER_OR_BODY, VTM_HTTP_RES_STAGE_HEADER}" "\<forall>m. ma m"
    and "res_has res bs (length (case http_con_field (he_act res) of None \<Rightarrow> [] | Some v \<Rightarrow> http_field VTM_HTTP_HEADER_CONNECTION v) + 2 + n)"
  obtains b st where "vtm_http_res_close_headers ma res = (VTM_OK, res\<lparr>he_stage := st, he_buf := b\<rparr>)"
    "buf_data b = bs @ (case http_con_field (he_act res) of None \<Rightarrow> [] | Some v \<Rightarrow> http_field VTM_HTTP_HEADER_CONNECTION v) @ http_crlf"
    "buf_room b n" "st \<in> {VTM_HTTP_RES_STAGE_HEADER_OR_BODY, VTM_HTTP_RES_STAGE_HEADER}"
proof -
  define f where "f = (case http_con_field (he_act res) of None \<Rightarrow> [] | Some v \<Rightarrow> http_field VTM_HTTP_HEADER_CONNECTION v)"
  obtain b1 st where b1: "(case http_con_field (he_act res) of None \<Rightarrow> res
      | Some v \<Rightarrow> snd (vtm_http_res_header ma res VTM_HTTP_HEADER_CONNECTION v)) = res\<lparr>he_stage := st, he_buf := b1\<rparr>"
    "buf_data b1 = bs @ f" "buf_room b1 (2 + n)" "st \<in> {VTM_HTTP_RES_STAGE_HEADER_OR_BODY, VTM_HTTP_RES_STAGE_HEADER}"
  proof (cases "http_con_field (he_act res)")
    case None
    with assms(1,3) show thesis by (intro that [of "he_buf res" "he_stage res"]) (auto simp: f_def res_has_def)
  next
    case (Some v)
    with assms(3) have "res_has res bs (length (http_field VTM_HTTP_HEADER_CONNECTION v) + (2 + n))" by (simp add: add.assoc)
    then show thesis by (rule res_header [OF assms(1) _ assms(2)]) (use Some that in \<open>auto simp: f_def\<close>)
  qed
  obtain b2 where "vtm_buf_putm ma b1 http_crlf = (VTM_OK, b2)" "buf_ext b1 http_crlf b2" "buf_room b2 n"
    by (rule room_putm [OF _ assms(2), of b1 http_crlf n]) (use b1(3) in simp_all)
  with b1 show thesis
    by (intro that [of b2 st]) (auto simp: vtm_http_res_close_headers_def f_def [symmetric] vtm_buf_puts_def buf_ext_def Let_def)
qed

lemma fmt_write_hex_app: "fmt_write_hex n val out = fmt_write_hex n val [] @ out"
proof (induction n arbitrary: val out)
  case (Suc n)
  show ?case using Suc [of "val div 16" "VTM_HEX_CHARS ! (val mod 16) # out"] Suc [of "val div 16" "[VTM_HEX_CHARS ! (val mod 16)]"] by simp
qed simp

lemma fmt_write_hex_length: "length (fmt_write_hex n val out) = n + length out"
  by (induction n arbitrary: val out) simp_all

lemma hex_size_length: "length (snd (vtm_fmt_hex_size True v)) = fst (vtm_fmt_hex_size False v)"
  by (simp add: vtm_fmt_hex_size_def fmt_write_hex_length Let_def)

lemma res_write_chunked:
  assumes "res_has res bs (length (http_chunk src) + n)" "\<forall>m. ma m"
  obtains b where "vtm_http_res_write_chunked ma res src = (VTM_OK, res\<lparr>he_buf := b\<rparr>)" "buf_data b = bs @ http_chunk src" "buf_room b n"
proof -
  define hex where "hex = snd (vtm_fmt_hex_size True (of_nat (length src)))"
  obtain k d where k: "vtm_fmt_hex_size False (of_nat (length src)) = (k, d)" by fastforce
  have hk: "length hex = k" using hex_size_length [of "of_nat (length src)"] by (simp add: hex_def k)
  obtain b1 where b1: "vtm_buf_putm ma (he_buf res) hex = (VTM_OK, b1)" "buf_ext (he_buf res) hex b1" "buf_room b1 (length src + 4 + n)"
    by (rule room_putm [OF _ assms(2), of "he_buf res" hex "length src + 4 + n"])
      (use assms(1) in \<open>simp add: res_has_def http_chunk_len hex_def [symmetric]\<close>)
  obtain b0 where b0: "vtm_buf_ensure ma (he_buf res) (of_nat k) = (VTM_OK, b0)" "VTM_BUF_PUT_INC b0 hex = b1"
    using ensure_put [OF hk b1(1)] by (metis prod.collapse)
  have "res_has (res\<lparr>he_buf := b1\<rparr>) (bs @ hex) (length (concat [http_crlf, src, http_crlf]) + n)"
    using b1 assms(1) by (simp add: res_has_def buf_ext_def) (simp add: buf_room_def)
  from res_has_puts [OF this assms(2) refl] b0 show thesis
    by (intro that [of "buf_puts_all ma b1 [http_crlf, src, http_crlf]"])
      (auto simp: vtm_http_res_write_chunked_def http_chunk_def hex_def [symmetric] k Let_def)
qed

subsection \<open>Chunks are read back\<close>

text \<open>A reader of the chunked coding of RFC 7230, without extensions and trailers: the body and the bytes behind it.\<close>

definition is_hex :: "byte \<Rightarrow> bool" where
  "is_hex c \<longleftrightarrow> c \<in> set (bytes_of ''0123456789ABCDEF'')"

definition hex_digit :: "byte \<Rightarrow> nat" where
  "hex_digit c = (if unat c \<le> 57 then unat c - 48 else unat c - 55)"

definition hex_value :: "byte list \<Rightarrow> nat" where
  "hex_value bs = foldl (\<lambda>a c. 16 * a + hex_digit c) 0 bs"

function dechunk :: "byte list \<Rightarrow> (byte list \<times> byte list) option" where
  "dechunk bs =
     (let ds = takeWhile is_hex bs; r = dropWhile is_hex bs; n = hex_value ds
      in if ds = [] \<or> take 2 r \<noteq> http_crlf \<or> take 2 (drop (n + 2) r) \<noteq> http_crlf then None
         else if n = 0 then Some ([], drop 4 r)
         else map_option (\<lambda>(body, rest). (take n (drop 2 r) @ body, rest)) (dechunk (drop (n + 4) r)))"
  by pat_completeness auto
termination
proof (relation "measure length", goal_cases)
  case (2 bs ds r n)
  then have "r \<noteq> []" by (metis list.distinct(1) take_Nil)
  then have "length (drop (n + 4) r) < length r" by simp
  moreover have "length r \<le> length bs" using 2(2) length_dropWhile_le by metis
  ultimately have "length (drop (n + 4) r) < length bs" by linarith
  then show ?case by (simp only: in_measure)
qed simp

declare dechunk.simps [simp del]

lemma hex_chars_digit: "d < 16 \<Longrightarrow> is_hex (VTM_HEX_CHARS ! d) \<and> hex_digit (VTM_HEX_CHARS ! d) = d"
proof -
  assume "d < 16"
  then have "d \<in> set [0..<16]" by simp
  then show ?thesis by (auto simp: upt_rec VTM_HEX_CHARS_def bytes_of_def byte_of_def is_hex_def hex_digit_def)
qed

lemma hex_value_snoc: "hex_value (xs @ [c]) = 16 * hex_value xs + hex_digit c"
  by (simp add: hex_value_def)

lemma fmt_write_hex_spec: "list_all is_hex (fmt_write_hex n val []) \<and> hex_value (fmt_write_hex n val []) = val mod 16 ^ n"
proof (induction n arbitrary: val)
  case 0
  then show ?case by (simp add: hex_value_def)
next
  case (Suc n)
  have "fmt_write_hex (Suc n) val [] = fmt_write_hex n (val div 16) [] @ [VTM_HEX_CHARS ! (val mod 16)]"
    using fmt_write_hex_app [of n "val div 16" "[VTM_HEX_CHARS ! (val mod 16)]"] by simp
  with Suc [of "val div 16"] hex_chars_digit [of "val mod 16"] show ?case
    by (simp add: hex_value_snoc mod_mult2_eq)
qed

lemma fmt_count_hex_bound: "n \<le> fmt_count_hex r n \<and> r < 16 ^ Suc (fmt_count_hex r n - n)"
proof (induction r n rule: fmt_count_hex.induct)
  case (1 r n)
  show ?case
  proof (cases "r > 15")
    case True
    with 1 have IH: "n + 1 \<le> fmt_count_hex (r div 16) (n + 1)" "r div 16 < 16 ^ Suc (fmt_count_hex (r div 16) (n + 1) - (n + 1))"
      by blast+
    then have "Suc (fmt_count_hex (r div 16) (n + 1) - (n + 1)) = fmt_count_hex (r div 16) (n + 1) - n" by simp
    with IH(2) have "r div 16 < 16 ^ (fmt_count_hex (r div 16) (n + 1) - n)" by metis
    then have "r < 16 ^ Suc (fmt_count_hex (r div 16) (n + 1) - n)" by (simp add: div_less_iff_less_mult mult.commute)
    with IH(1) True show ?thesis by (simp add: fmt_count_hex.simps [of r n])
  qed (simp add: fmt_count_hex.simps [of r n])
qed

lemma hex_size_value:
  "snd (vtm_fmt_hex_size True v) \<noteq> [] \<and> list_all is_hex (snd (vtm_fmt_hex_size True v)) \<and> hex_value (snd (vtm_fmt_hex_size True v)) = unat v"
proof -
  have b: "1 \<le> fmt_count_hex (unat v) 1" "unat v < 16 ^ Suc (fmt_count_hex (unat v) 1 - 1)"
    using fmt_count_hex_bound [of 1 "unat v"] by blast+
  moreover from b(1) have "Suc (fmt_count_hex (unat v) 1 - 1) = fmt_count_hex (unat v) 1" by simp
  ultimately have "1 \<le> fmt_count_hex (unat v) 1" "unat v < 16 ^ fmt_count_hex (unat v) 1" by metis+
  then show ?thesis
    using fmt_write_hex_spec [of "fmt_count_hex (unat v) 1" "unat v"] fmt_write_hex_length [of "fmt_count_hex (unat v) 1" "unat v" "[]"]
    by (auto simp: vtm_fmt_hex_size_def Let_def)
qed

lemma dechunk_chunk:
  assumes "length src < 2 ^ 64"
  shows "dechunk (http_chunk src @ rest)
    = (if src = [] then Some ([], rest) else map_option (\<lambda>(body, r). (src @ body, r)) (dechunk rest))"
proof -
  define hex where "hex = snd (vtm_fmt_hex_size True (of_nat (length src)))"
  have hex: "hex \<noteq> []" "list_all is_hex hex" "hex_value hex = length src"
    using hex_size_value [of "of_nat (length src)"] assms by (simp_all add: hex_def unat_of_nat)
  have cr: "\<not> is_hex 13" by (simp add: is_hex_def bytes_of_def byte_of_def)
  have eq: "http_chunk src @ rest = hex @ 13 # 10 # src @ 13 # 10 # rest" by (simp add: http_chunk_def hex_def)
  have "takeWhile is_hex (http_chunk src @ rest) = hex" "dropWhile is_hex (http_chunk src @ rest) = 13 # 10 # src @ 13 # 10 # rest"
    using hex(2) cr by (simp_all add: eq takeWhile_append dropWhile_append list_all_iff)
  then show ?thesis using hex by (simp add: dechunk.simps [of "http_chunk src @ rest"] numeral_2_eq_2 numeral_eq_Suc)
qed

text \<open>Pieces that are not empty and the last chunk are read back as the body.\<close>

lemma dechunk_chunks:
  assumes "\<forall>p\<in>set ps. p \<noteq> [] \<and> length p < 2 ^ 64"
  shows "dechunk (concat (map http_chunk ps) @ http_chunk [] @ rest) = Some (concat ps, rest)"
  using assms by (induction ps) (simp_all add: dechunk_chunk)

subsection \<open>Whole responses\<close>

text \<open>A handler that answers with a status, header fields and the pieces of a body, and looks only at the result of the end.\<close>

definition http_respond ::
    "allocator \<Rightarrow> (nat \<Rightarrow> byte list) \<Rightarrow> bool \<Rightarrow> bool \<Rightarrow> 's sock_write \<Rightarrow> c_tm \<Rightarrow> vtm_http_res_mode \<Rightarrow> u32 \<Rightarrow> (cstr \<times> cstr) list \<Rightarrow> byte list list
     \<Rightarrow> vtm_http_res \<Rightarrow> 's \<Rightarrow> (vtm_rc \<times> vtm_http_res \<times> vtm_socket_emitter list \<times> 's) option" where
  "http_respond ma bufs mem alloc wr now mode status hs ps res s =
     (case vtm_http_res_begin ma now res mode status of
        None \<Rightarrow> None
      | Some (rc, res) \<Rightarrow>
          let res = fold (\<lambda>(name, value) res. snd (vtm_http_res_header ma res name value)) hs res;
              res = fold (\<lambda>p res. snd (vtm_http_res_body_raw ma res p)) ps res
          in vtm_http_res_end ma bufs mem alloc wr res s)"

text \<open>The lines behind which the body begins.\<close>

definition http_con_line :: "vtm_http_res_act \<Rightarrow> byte list" where
  "http_con_line act = (case http_con_field act of None \<Rightarrow> [] | Some v \<Rightarrow> http_field VTM_HTTP_HEADER_CONNECTION v)"

definition http_te_line :: "vtm_http_res_mode \<Rightarrow> byte list" where
  "http_te_line mode =
     (case mode of VTM_HTTP_RES_MODE_FIXED \<Rightarrow> [] | VTM_HTTP_RES_MODE_CHUNKED \<Rightarrow> http_field VTM_HTTP_HEADER_TRANSFER_ENCODING VTM_HTTP_VALUE_CHUNKED)"

definition http_res_head :: "vtm_http_res \<Rightarrow> vtm_http_res_mode \<Rightarrow> u32 \<Rightarrow> cstr \<Rightarrow> (cstr \<times> cstr) list \<Rightarrow> byte list" where
  "http_res_head res mode status date hs =
     concat (http_status_line (he_version res) status) @ http_field VTM_HTTP_HEADER_SERVER VTM_BUILD_VERSION
     @ http_field VTM_HTTP_HEADER_DATE date @ http_te_line mode @ concat (map (\<lambda>(name, value). http_field name value) hs)"

abbreviation in_header :: "vtm_http_res_stage \<Rightarrow> bool" where
  "in_header st \<equiv> st \<in> {VTM_HTTP_RES_STAGE_HEADER_OR_BODY, VTM_HTTP_RES_STAGE_HEADER}"

lemma res_headers:
  assumes "in_header (he_stage res)" "\<forall>m. ma m"
    and "res_has res bs (length (concat (map (\<lambda>(name, value). http_field name value) hs)) + n)"
  obtains b st where "fold (\<lambda>(name, value) res. snd (vtm_http_res_header ma res name value)) hs res = res\<lparr>he_stage := st, he_buf := b\<rparr>"
    "buf_data b = bs @ concat (map (\<lambda>(name, value). http_field name value) hs)" "buf_room b n" "in_header st"
  using assms(1,3)
proof (induction hs arbitrary: res bs thesis)
  case Nil
  from Nil(2,3) show thesis by (intro Nil(1) [of "he_buf res" "he_stage res"]) (auto simp: res_has_def)
next
  case (Cons h hs)
  obtain nm vl where h: "h = (nm, vl)" by fastforce
  obtain b where b: "vtm_http_res_header ma res nm vl = (VTM_OK, res\<lparr>he_stage := VTM_HTTP_RES_STAGE_HEADER, he_buf := b\<rparr>)"
    "buf_data b = bs @ http_field nm vl" "buf_room b (length (concat (map (\<lambda>(name, value). http_field name value) hs)) + n)"
    by (rule res_header [OF Cons.prems(2) _ assms(2), of bs nm vl "length (concat (map (\<lambda>(name, value). http_field name value) hs)) + n"])
      (use Cons.prems(3) in \<open>simp add: h add.assoc\<close>)
  show thesis
    by (rule Cons.IH [of "res\<lparr>he_stage := VTM_HTTP_RES_STAGE_HEADER, he_buf := b\<rparr>" "bs @ http_field nm vl"])
      (use b h in \<open>auto simp: res_has_def intro: Cons.prems(1)\<close>)
qed

text \<open>Only the longest negative numbers have eleven characters.\<close>

lemma status_fits:
  fixes status :: u32
  assumes "- 1000000000 < sint status"
  shows "fst (vtm_fmt_int True status) < VTM_FMT_CHARS_INT32"
proof -
  have digits: "fst (vtm_fmt_uint True v) \<le> k" if "unat v < 10 ^ k" "0 < k" for v and k :: nat
  proof -
    obtain j where j: "fmt_count_dec (unat v) 1 = 1 + j" "j = 0 \<or> 10 ^ j \<le> unat v" using fmt_count_dec_bounds [of "unat v" 1] by auto
    then have "j = 0 \<or> (10::nat) ^ j < 10 ^ k" using that(1) by linarith
    then have "j < k" using that(2) by auto
    then show ?thesis using j(1) by (simp add: vtm_fmt_uint_def Let_def)
  qed
  show ?thesis
  proof (cases "status <s 0")
    case True
    have "sint (- status) = - sint status" using assms True sint_greater_eq [of status] by (simp add: word_sless_alt signed_take_bit_int_eq_self sint_word_ariths(4))
    then have "uint (- status) < 1000000000" using assms True by (simp add: word_sless_alt uint_sint take_bit_int_eq_self)
    then have "unat (- status) < 10 ^ 9" by (simp add: unat_eq_nat_uint nat_less_iff del: nat_uint_eq)
    from digits [OF this] True show ?thesis by (auto simp: vtm_fmt_int_def VTM_FMT_CHARS_INT32_def split: prod.split)
  next
    case False
    have "unat status < 10 ^ 10" using unsigned_less [of status, where ?'a = nat] by simp
    from digits [OF this] False show ?thesis by (simp add: vtm_fmt_int_def VTM_FMT_CHARS_INT32_def)
  qed
qed

lemma res_begin:
  assumes "he_stage res = VTM_HTTP_RES_STAGE_UNINITIALZED" "\<forall>m. ma m"
    and date: "vtm_http_fmt_date VTM_HTTP_DATE_LEN (vtm_date_now_utc now) = Some (VTM_OK, date)"
    and room: "res_has res [] (length (http_res_head res mode status date []) + n)" and status: "- 1000000000 < sint status"
  obtains b where "vtm_http_res_begin ma now res mode status = Some (VTM_OK, res\<lparr>he_stage := VTM_HTTP_RES_STAGE_HEADER, he_mode := mode, he_buf := b\<rparr>)"
    "buf_data b = http_res_head res mode status date []" "buf_room b n"
proof -
  define res0 where "res0 = res\<lparr>he_stage := VTM_HTTP_RES_STAGE_HEADER_OR_BODY, he_mode := mode\<rparr>"
  define b0 where "b0 = buf_puts_all ma (he_buf res) (http_status_line (he_version res) status)"
  define l where "l = concat (http_status_line (he_version res) status)"
  define s1 where "s1 = http_field VTM_HTTP_HEADER_SERVER VTM_BUILD_VERSION"
  define s2 where "s2 = http_field VTM_HTTP_HEADER_DATE date"
  have hd: "http_res_head res mode status date [] = l @ s1 @ s2 @ http_te_line mode" by (simp add: http_res_head_def l_def s1_def s2_def)
  have "res_has res [] (length l + (length s1 + (length s2 + (length (http_te_line mode) + n))))"
    using room by (simp add: hd add.assoc)
  from res_has_puts [OF this [unfolded l_def] assms(2) l_def [symmetric]]
  have b0: "buf_data b0 = l" "buf_room b0 (length s1 + (length s2 + (length (http_te_line mode) + n)))" "buf_err b0 = VTM_OK"
    unfolding b0_def by (simp_all only: append.simps)
  define r1 where "r1 = res0\<lparr>he_buf := b0\<rparr>"
  have r1: "in_header (he_stage r1)" "res_has r1 l (length s1 + (length s2 + (length (http_te_line mode) + n)))"
    using b0 by (simp_all add: r1_def res0_def res_has_def)
  obtain b1 where b1: "vtm_http_res_header ma r1 VTM_HTTP_HEADER_SERVER VTM_BUILD_VERSION = (VTM_OK, r1\<lparr>he_stage := VTM_HTTP_RES_STAGE_HEADER, he_buf := b1\<rparr>)"
    "buf_data b1 = l @ s1" "buf_room b1 (length s2 + (length (http_te_line mode) + n))"
    using res_header [OF r1(1) r1(2) [unfolded s1_def] assms(2)] unfolding s1_def by blast
  define r2 where "r2 = r1\<lparr>he_stage := VTM_HTTP_RES_STAGE_HEADER, he_buf := b1\<rparr>"
  have r2: "in_header (he_stage r2)" "res_has r2 (l @ s1) (length s2 + (length (http_te_line mode) + n))"
    using b1 by (simp_all add: r2_def res_has_def)
  obtain b2 where b2: "vtm_http_res_header ma r2 VTM_HTTP_HEADER_DATE date = (VTM_OK, r2\<lparr>he_stage := VTM_HTTP_RES_STAGE_HEADER, he_buf := b2\<rparr>)"
    "buf_data b2 = (l @ s1) @ s2" "buf_room b2 (length (http_te_line mode) + n)"
    using res_header [OF r2(1) r2(2) [unfolded s2_def] assms(2)] unfolding s2_def by blast
  define r3 where "r3 = r2\<lparr>he_stage := VTM_HTTP_RES_STAGE_HEADER, he_buf := b2\<rparr>"
  have bg: "vtm_http_res_begin ma now res mode status
      = Some (case mode of VTM_HTTP_RES_MODE_CHUNKED \<Rightarrow> vtm_http_res_header ma r3 VTM_HTTP_HEADER_TRANSFER_ENCODING VTM_HTTP_VALUE_CHUNKED
                | VTM_HTTP_RES_MODE_FIXED \<Rightarrow> (VTM_OK, r3))"
    using assms(1) date b0(3) b1(1) b2(1) status_fits [OF status]
    by (simp add: vtm_http_res_begin_def vtm_http_res_set_date_def b0_def [symmetric] r1_def res0_def r2_def r3_def Let_def split: vtm_http_res_mode.split)
  have r3eq: "r3\<lparr>he_buf := b\<rparr> = res\<lparr>he_stage := VTM_HTTP_RES_STAGE_HEADER, he_mode := mode, he_buf := b\<rparr>" for b
    by (simp add: r3_def r2_def r1_def res0_def)
  show thesis
  proof (cases mode)
    case VTM_HTTP_RES_MODE_FIXED
    then show thesis using bg b2(2,3) r3eq [of b2] hd
      by (intro that [of b2]) (simp_all add: http_te_line_def, simp add: r3_def)
  next
    case VTM_HTTP_RES_MODE_CHUNKED
    have r3: "in_header (he_stage r3)" "res_has r3 (l @ s1 @ s2) (length (http_field VTM_HTTP_HEADER_TRANSFER_ENCODING VTM_HTTP_VALUE_CHUNKED) + n)"
      using b2 VTM_HTTP_RES_MODE_CHUNKED by (simp_all add: r3_def res_has_def http_te_line_def)
    from res_header [OF r3 assms(2)] obtain b3 where
      "vtm_http_res_header ma r3 VTM_HTTP_HEADER_TRANSFER_ENCODING VTM_HTTP_VALUE_CHUNKED = (VTM_OK, r3\<lparr>he_stage := VTM_HTTP_RES_STAGE_HEADER, he_buf := b3\<rparr>)"
      "buf_data b3 = (l @ s1 @ s2) @ http_field VTM_HTTP_HEADER_TRANSFER_ENCODING VTM_HTTP_VALUE_CHUNKED" "buf_room b3 n" by blast
    moreover have "r3\<lparr>he_stage := VTM_HTTP_RES_STAGE_HEADER, he_buf := b3\<rparr> = r3\<lparr>he_buf := b3\<rparr>" by (simp add: r3_def)
    ultimately show thesis using bg VTM_HTTP_RES_MODE_CHUNKED r3eq [of b3] hd
      by (intro that [of b3]) (simp_all add: http_te_line_def)
  qed
qed

lemma res_send:
  assumes "byte_sink wr sent" "he_body_se res = []" "buf_room (he_buf res) 0"
  obtains rc res' chain s' where "vtm_http_res_send bufs wr True res s = Some (rc, res', chain, s')" "rc \<in> {VTM_OK, VTM_ERROR}"
    "rc = VTM_OK \<longrightarrow> vtm_http_res_was_sent res' \<and> sent s' @ chain_pending (bufs(0 := buf_data (he_buf res'))) chain = sent s @ buf_data (he_buf res)"
    "prefix (sent s') (sent s @ buf_data (he_buf res))" "\<exists>bs x. wr bs s = Some (x, s')"
    "he_act res' = he_act res" "rc \<noteq> VTM_OK \<longrightarrow> res' = res"
    "\<forall>n s1. wr (buf_data (he_buf res)) s = Some ((VTM_OK, n), s1) \<longrightarrow> rc = VTM_OK \<and> chain = []"
proof -
  define se where "se = \<lparr>se_length = buf_used (he_buf res), se_body = EmtBuf 0 0 False\<rparr>"
  define mem where "mem = bufs(0 := buf_data (he_buf res))"
  have u: "unat (buf_used (he_buf res)) = length (buf_data (he_buf res))"
    using assms(3) by (auto simp: buf_room_def vtm_buf_inv_def)
  have p: "chain_pending mem [se] = buf_data (he_buf res)" by (simp add: chain_pending_def se_def mem_def u)
  have "list_all (emt_ok mem) [se]" by (simp add: se_def mem_def u)
  from try_write_law [OF assms(1) this, of s] obtain rc chain' freed s' where t:
    "vtm_socket_emitter_try_write wr mem [se] s = Some (rc, chain', freed, s')"
    "rc = VTM_OK \<longrightarrow> chain' = [] \<and> sent s' = sent s @ buf_data (he_buf res)"
    "rc = VTM_E_IO_AGAIN \<longrightarrow> sent s' @ chain_pending mem chain' = sent s @ buf_data (he_buf res)"
    "prefix (sent s') (sent s @ buf_data (he_buf res))" "rc \<in> {VTM_OK, VTM_E_IO_AGAIN, VTM_ERROR}"
    by (auto simp: p)
  have "\<exists>x. wr (take (unat (buf_used (he_buf res))) (mem 0)) s = Some (x, s')"
    using t(1) by (auto simp: se_def emt_write_def vtm_socket_emitter_write_raw_def Let_def
        split: option.splits vtm_socket_emitter_result.splits if_splits)
  then have one: "\<exists>bs x. wr bs s = Some (x, s')" by blast
  have all: "rc = VTM_OK \<and> chain' = []" if w: "wr (buf_data (he_buf res)) s = Some ((VTM_OK, n), s1)" for n s1
  proof -
    have "n = length (buf_data (he_buf res))" by (rule byte_sinkE [OF assms(1), of "buf_data (he_buf res)" s]) (use w in auto)
    then show ?thesis using t(1) w u by (simp add: se_def mem_def emt_write_def vtm_socket_emitter_write_raw_def Let_def)
  qed
  show thesis
  proof (cases "rc = VTM_ERROR")
    case True
    with t(1,4) one assms(2) all show thesis
      by (intro that [of VTM_ERROR res "[]" s']) (auto simp: vtm_http_res_send_def vtm_socket_emitter_for_buffer_def se_def mem_def)
  next
    case False
    with t one assms(2) all show thesis
      by (intro that [of VTM_OK "res\<lparr>he_stage := VTM_HTTP_RES_STAGE_COMPLETED\<rparr>" chain' s'])
        (auto simp: vtm_http_res_send_def vtm_socket_emitter_for_buffer_def vtm_http_res_was_sent_def se_def mem_def chain_pending_def)
  qed
qed

lemma res_body_fixed:
  assumes "in_header (he_stage res)" "he_mode res = VTM_HTTP_RES_MODE_FIXED" "\<forall>m. ma m" "buf_room (he_body_buf res) (length (concat ps))"
  obtains b where "fold (\<lambda>p res. snd (vtm_http_res_body_raw ma res p)) ps res = res\<lparr>he_body_buf := b\<rparr>"
    "buf_data b = buf_data (he_body_buf res) @ concat ps" "buf_room b 0"
  using assms(1,2,4)
proof (induction ps arbitrary: res thesis)
  case Nil
  from Nil(4) show thesis by (intro Nil(1) [of "he_body_buf res"]) simp_all
next
  case (Cons p ps)
  obtain b where b: "vtm_buf_putm ma (he_body_buf res) p = (VTM_OK, b)" "buf_ext (he_body_buf res) p b" "buf_room b (length (concat ps))"
    by (rule room_putm [OF _ assms(3), of "he_body_buf res" p "length (concat ps)"]) (use Cons.prems(4) in simp_all)
  have st: "snd (vtm_http_res_body_raw ma res p) = res\<lparr>he_body_buf := b\<rparr>"
    using Cons.prems(2,3) b(1) by (auto simp: vtm_http_res_body_raw_def)
  have st1: "in_header (he_stage (res\<lparr>he_body_buf := b\<rparr>))" using Cons.prems(2) by simp
  obtain b' where "fold (\<lambda>p res. snd (vtm_http_res_body_raw ma res p)) ps (res\<lparr>he_body_buf := b\<rparr>) = res\<lparr>he_body_buf := b'\<rparr>"
    "buf_data b' = buf_data b @ concat ps" "buf_room b' 0"
    by (rule Cons.IH [OF _ st1]) (use Cons.prems(3) b(3) in simp_all)
  with st b(2) show thesis by (intro Cons.prems(1) [of b']) (simp_all add: buf_ext_def)
qed

lemma res_body_chunks:
  assumes "he_stage res = VTM_HTTP_RES_STAGE_BODY" "he_mode res = VTM_HTTP_RES_MODE_CHUNKED" "\<forall>m. ma m"
    and "res_has res bs (length (concat (map http_chunk ps)) + n)"
  obtains b where "fold (\<lambda>p res. snd (vtm_http_res_body_raw ma res p)) ps res = res\<lparr>he_buf := b\<rparr>"
    "buf_data b = bs @ concat (map http_chunk ps)" "buf_room b n"
  using assms(1,2,4)
proof (induction ps arbitrary: res bs thesis)
  case Nil
  from Nil(4) show thesis by (intro Nil(1) [of "he_buf res"]) (simp_all add: res_has_def)
next
  case (Cons p ps)
  have "res_has res bs (length (http_chunk p) + (length (concat (map http_chunk ps)) + n))"
    using Cons.prems(4) by (simp add: add.assoc)
  then obtain b where b: "vtm_http_res_write_chunked ma res p = (VTM_OK, res\<lparr>he_buf := b\<rparr>)"
    "buf_data b = bs @ http_chunk p" "buf_room b (length (concat (map http_chunk ps)) + n)"
    by (rule res_write_chunked [OF _ assms(3)])
  have st: "snd (vtm_http_res_body_raw ma res p) = res\<lparr>he_buf := b\<rparr>"
    using Cons.prems(2,3) b(1) by (simp add: vtm_http_res_body_raw_def)
  obtain b' where "fold (\<lambda>p res. snd (vtm_http_res_body_raw ma res p)) ps (res\<lparr>he_buf := b\<rparr>) = res\<lparr>he_buf := b'\<rparr>"
    "buf_data b' = (bs @ http_chunk p) @ concat (map http_chunk ps)" "buf_room b' n"
    by (rule Cons.IH [of "res\<lparr>he_buf := b\<rparr>" "bs @ http_chunk p"]) (use Cons.prems(2,3) b(2,3) in \<open>simp_all add: res_has_def\<close>)
  with st show thesis by (intro Cons.prems(1) [of b']) simp_all
qed

text \<open>In both modes: the buffer that is sent.\<close>

lemma res_finish_fixed:
  assumes "in_header (he_stage res)" "he_mode res = VTM_HTTP_RES_MODE_FIXED" "he_body_se res = []" "\<forall>m. ma m" "buf_room (he_body_buf res) 0"
    and room: "res_has res bs (length (http_field VTM_HTTP_HEADER_CONTENT_LENGTH (nat_dec (length (buf_data (he_body_buf res)))))
      + (length (http_con_line (he_act res)) + 2 + length (buf_data (he_body_buf res))))"
  obtains res' where "http_res_finish ma True res = Some (VTM_OK, res')" "he_body_se res' = []" "buf_room (he_buf res') 0"
    "he_act res' = he_act res" "in_header (he_stage res')"
    "buf_data (he_buf res') = bs @ http_field VTM_HTTP_HEADER_CONTENT_LENGTH (nat_dec (length (buf_data (he_body_buf res))))
       @ http_con_line (he_act res) @ http_crlf @ buf_data (he_body_buf res)"
proof -
  define body where "body = buf_data (he_body_buf res)"
  define f where "f = http_field VTM_HTTP_HEADER_CONTENT_LENGTH (nat_dec (length body))"
  have u: "unat (buf_used (he_body_buf res)) = length body" using assms(5) by (auto simp: body_def buf_room_def vtm_buf_inv_def)
  have used: "(if buf_used (he_body_buf res) > 0 then buf_used (he_body_buf res) else 0) = buf_used (he_body_buf res)"
    by (simp add: word_gt_0)
  from res_header [OF assms(1) room [folded body_def] assms(4)] obtain b1 where b1:
    "vtm_http_res_header ma res VTM_HTTP_HEADER_CONTENT_LENGTH (nat_dec (length body)) = (VTM_OK, res\<lparr>he_stage := VTM_HTTP_RES_STAGE_HEADER, he_buf := b1\<rparr>)"
    "buf_data b1 = bs @ f" "buf_room b1 (length (http_con_line (he_act res)) + 2 + length body)" by (auto simp: f_def)
  define r1 where "r1 = res\<lparr>he_stage := VTM_HTTP_RES_STAGE_HEADER, he_buf := b1\<rparr>"
  have r1: "in_header (he_stage r1)" "he_body_buf r1 = he_body_buf res" "he_body_se r1 = []" by (simp_all add: r1_def assms(3))
  have "res_has r1 (bs @ f) (length (case http_con_field (he_act r1) of None \<Rightarrow> [] | Some v \<Rightarrow> http_field VTM_HTTP_HEADER_CONNECTION v) + 2 + length body)"
    using b1(2,3) by (simp add: r1_def res_has_def http_con_line_def)
  from res_close_headers [OF r1(1) assms(4) this] obtain b2 st where b2:
    "vtm_http_res_close_headers ma r1 = (VTM_OK, r1\<lparr>he_stage := st, he_buf := b2\<rparr>)"
    "buf_data b2 = (bs @ f) @ http_con_line (he_act r1) @ http_crlf" "buf_room b2 (length body)" "in_header st"
    unfolding http_con_line_def by blast
  obtain b3 where b3: "vtm_buf_putm ma b2 body = (VTM_OK, b3)" "buf_ext b2 body b3" "buf_room b3 0"
    by (rule room_putm [OF _ assms(4), of b2 body 0]) (use b2(3) in simp_all)
  define b4 where "b4 = (if buf_used (he_body_buf res) > 0 then b3 else b2)"
  have act: "he_act r1 = he_act res" by (simp add: r1_def)
  have "body = [] \<longleftrightarrow> \<not> buf_used (he_body_buf res) > 0" using u unat_eq_zero [of "buf_used (he_body_buf res)"] by (simp add: word_gt_0)
  then have d: "buf_data b4 = (bs @ f) @ http_con_line (he_act res) @ http_crlf @ body" "buf_room b4 0"
    using b2(2) b3(2,3) buf_room_mono [OF b2(3), of 0] by (auto simp: b4_def buf_ext_def act)
  have "http_res_finish ma True res = Some (VTM_OK, r1\<lparr>he_stage := st, he_buf := b4\<rparr>)"
    using assms(2,3) u used b1(1) b2(1) b3(1) r1(2) by (simp add: http_res_finish_def r1_def [symmetric] b4_def body_def Let_def)
  with d r1(3) b2(4) act show thesis by (intro that [of "r1\<lparr>he_stage := st, he_buf := b4\<rparr>"]) (simp_all add: f_def body_def)
qed

lemma res_finish_chunked:
  assumes st: "in_header (he_stage res)" and mode: "he_mode res = VTM_HTTP_RES_MODE_CHUNKED" and se: "he_body_se res = []" and ma: "\<forall>m. ma m"
    and room: "res_has res bs (length (http_con_line (he_act res)) + 2 + length (concat (map http_chunk (ps @ [[]]))))"
  obtains res' where "http_res_finish ma mem (fold (\<lambda>p res. snd (vtm_http_res_body_raw ma res p)) ps res) = Some (VTM_OK, res')"
    "he_stage (fold (\<lambda>p res. snd (vtm_http_res_body_raw ma res p)) ps res) \<notin> {VTM_HTTP_RES_STAGE_UNINITIALZED, VTM_HTTP_RES_STAGE_COMPLETED}"
    "he_body_se res' = []" "buf_room (he_buf res') 0"
    "buf_data (he_buf res') = bs @ http_con_line (he_act res) @ http_crlf @ concat (map http_chunk (ps @ [[]]))"
proof -
  from res_close_headers [OF st ma room [unfolded http_con_line_def]] obtain b st' where
    b: "vtm_http_res_close_headers ma res = (VTM_OK, res\<lparr>he_stage := st', he_buf := b\<rparr>)"
    "buf_data b = bs @ http_con_line (he_act res) @ http_crlf" "buf_room b (length (concat (map http_chunk (ps @ [[]]))))"
    unfolding http_con_line_def by blast
  define r where "r = res\<lparr>he_stage := VTM_HTTP_RES_STAGE_BODY, he_buf := b\<rparr>"
  have r: "he_stage r = VTM_HTTP_RES_STAGE_BODY" "he_mode r = VTM_HTTP_RES_MODE_CHUNKED"
    "res_has r (bs @ http_con_line (he_act res) @ http_crlf) (length (concat (map http_chunk ps)) + length (http_chunk []))"
    using b mode by (simp_all add: r_def res_has_def)
  from res_body_chunks [OF r(1,2) ma r(3)] obtain b1 where b1:
    "fold (\<lambda>p res. snd (vtm_http_res_body_raw ma res p)) ps r = r\<lparr>he_buf := b1\<rparr>"
    "buf_data b1 = (bs @ http_con_line (he_act res) @ http_crlf) @ concat (map http_chunk ps)" "buf_room b1 (length (http_chunk []) + 0)"
    by auto
  show thesis
  proof (cases ps)
    case Nil
    have "res_has (res\<lparr>he_stage := st', he_buf := b\<rparr>) (bs @ http_con_line (he_act res) @ http_crlf) (length (http_chunk []) + 0)"
      using b Nil by (simp add: res_has_def)
    from res_write_chunked [OF this ma] obtain b2 where
      "vtm_http_res_write_chunked ma (res\<lparr>he_stage := st', he_buf := b\<rparr>) [] = (VTM_OK, res\<lparr>he_stage := st', he_buf := b2\<rparr>)"
      "buf_data b2 = (bs @ http_con_line (he_act res) @ http_crlf) @ http_chunk []" "buf_room b2 0" by auto
    with Nil st mode se b(1) show thesis
      by (intro that [of "res\<lparr>he_stage := st', he_buf := b2\<rparr>"]) (auto simp: http_res_finish_def)
  next
    case (Cons p ps')
    have "r = res\<lparr>he_buf := b, he_stage := VTM_HTTP_RES_STAGE_BODY\<rparr>" by (cases res) (simp add: r_def)
    then have "snd (vtm_http_res_body_raw ma res p) = snd (vtm_http_res_body_raw ma r p)"
      using st mode b(1) by (auto simp: vtm_http_res_body_raw_def)
    with Cons b1(1) have all: "fold (\<lambda>p res. snd (vtm_http_res_body_raw ma res p)) ps res = r\<lparr>he_buf := b1\<rparr>" by simp
    have "res_has (r\<lparr>he_buf := b1\<rparr>) ((bs @ http_con_line (he_act res) @ http_crlf) @ concat (map http_chunk ps)) (length (http_chunk []) + 0)"
      using b1(2,3) by (simp add: res_has_def)
    from res_write_chunked [OF this ma] obtain b2 where
      "vtm_http_res_write_chunked ma (r\<lparr>he_buf := b1\<rparr>) [] = (VTM_OK, r\<lparr>he_buf := b2\<rparr>)"
      "buf_data b2 = ((bs @ http_con_line (he_act res) @ http_crlf) @ concat (map http_chunk ps)) @ http_chunk []" "buf_room b2 0" by auto
    with all r se show thesis
      by (intro that [of "r\<lparr>he_buf := b2\<rparr>"]) (simp_all add: http_res_finish_def, simp add: r_def)
  qed
qed

text \<open>The response behind the header fields of the handler.\<close>

lemma res_opened:
  assumes "he_stage res = VTM_HTTP_RES_STAGE_UNINITIALZED" and ma: "\<forall>m. ma m"
    and date: "vtm_http_fmt_date VTM_HTTP_DATE_LEN (vtm_date_now_utc now) = Some (VTM_OK, date)"
    and room: "buf_data (he_buf res) = []" "buf_room (he_buf res) (length (http_res_head res mode status date hs) + n)"
    and status: "- 1000000000 < sint status"
  obtains b st where "http_respond ma bufs mem alloc wr now mode status hs ps res s
      = vtm_http_res_end ma bufs mem alloc wr
          (fold (\<lambda>p res. snd (vtm_http_res_body_raw ma res p)) ps (res\<lparr>he_stage := st, he_mode := mode, he_buf := b\<rparr>)) s"
    "buf_data b = http_res_head res mode status date hs" "buf_room b n" "in_header st"
proof -
  define hl where "hl = concat (map (\<lambda>(name, value). http_field name value) hs)"
  have hh: "http_res_head res mode status date hs = http_res_head res mode status date [] @ hl" by (simp add: http_res_head_def hl_def)
  with room have "res_has res [] (length (http_res_head res mode status date []) + (length hl + n))"
    by (simp add: res_has_def add.assoc)
  from res_begin [OF assms(1) ma date this status] obtain b1 where b1: "vtm_http_res_begin ma now res mode status
      = Some (VTM_OK, res\<lparr>he_stage := VTM_HTTP_RES_STAGE_HEADER, he_mode := mode, he_buf := b1\<rparr>)"
    "buf_data b1 = http_res_head res mode status date []" "buf_room b1 (length hl + n)" by blast
  define r1 where "r1 = res\<lparr>he_stage := VTM_HTTP_RES_STAGE_HEADER, he_mode := mode, he_buf := b1\<rparr>"
  have r1: "in_header (he_stage r1)" "res_has r1 (http_res_head res mode status date []) (length hl + n)"
    using b1(2,3) by (simp_all add: r1_def res_has_def)
  from res_headers [OF r1(1) ma r1(2) [unfolded hl_def]] obtain b2 st where b2:
    "fold (\<lambda>(name, value) res. snd (vtm_http_res_header ma res name value)) hs r1 = r1\<lparr>he_stage := st, he_buf := b2\<rparr>"
    "buf_data b2 = http_res_head res mode status date hs" "buf_room b2 n" "in_header st"
    unfolding hh hl_def by blast
  have "r1\<lparr>he_stage := st, he_buf := b2\<rparr> = res\<lparr>he_stage := st, he_mode := mode, he_buf := b2\<rparr>" by (cases res) (simp add: r1_def)
  with b1(1) b2 show thesis
    by (intro that [of b2 st]) (simp_all add: http_respond_def r1_def [symmetric] Let_def)
qed

text \<open>A response of fixed length is sent with one write.\<close>

lemma fixed_response:
  assumes "he_stage res = VTM_HTTP_RES_STAGE_UNINITIALZED" "he_body_se res = []" "buf_data (he_body_buf res) = []"
    and ma: "\<forall>m. ma m" and wr: "byte_sink wr sent"
    and date: "vtm_http_fmt_date VTM_HTTP_DATE_LEN (vtm_date_now_utc now) = Some (VTM_OK, date)"
    and bytes: "bytes = http_res_head res VTM_HTTP_RES_MODE_FIXED status date hs @ http_field VTM_HTTP_HEADER_CONTENT_LENGTH (nat_dec (length (concat ps)))
      @ http_con_line (he_act res) @ http_crlf @ concat ps"
    and room: "buf_data (he_buf res) = []" "buf_room (he_buf res) (length bytes)" "buf_room (he_body_buf res) (length (concat ps))"
    and status: "- 1000000000 < sint status"
  shows "\<exists>rc res' chain s'. http_respond ma bufs True True wr now VTM_HTTP_RES_MODE_FIXED status hs ps res s = Some (rc, res', chain, s')
    \<and> rc \<in> {VTM_OK, VTM_ERROR}
    \<and> (rc = VTM_OK \<longrightarrow> vtm_http_res_was_sent res' \<and> sent s' @ chain_pending (bufs(0 := buf_data (he_buf res'))) chain = sent s @ bytes)
    \<and> prefix (sent s') (sent s @ bytes) \<and> (\<exists>bs x. wr bs s = Some (x, s'))
    \<and> he_act res' = he_act res \<and> (rc \<noteq> VTM_OK \<longrightarrow> \<not> vtm_http_res_was_sent res')
    \<and> (\<forall>n s1. wr bytes s = Some ((VTM_OK, n), s1) \<longrightarrow> rc = VTM_OK \<and> chain = [])"
proof -
  define f where "f = http_field VTM_HTTP_HEADER_CONTENT_LENGTH (nat_dec (length (concat ps)))"
  define rest where "rest = length f + (length (http_con_line (he_act res)) + 2 + length (concat ps))"
  have len: "length bytes = length (http_res_head res VTM_HTTP_RES_MODE_FIXED status date hs) + rest" by (simp add: bytes rest_def f_def)
  obtain b st where
    b: "http_respond ma bufs True True wr now VTM_HTTP_RES_MODE_FIXED status hs ps res s
      = vtm_http_res_end ma bufs True True wr
          (fold (\<lambda>p res. snd (vtm_http_res_body_raw ma res p)) ps (res\<lparr>he_stage := st, he_mode := VTM_HTTP_RES_MODE_FIXED, he_buf := b\<rparr>)) s"
    "buf_data b = http_res_head res VTM_HTTP_RES_MODE_FIXED status date hs" "buf_room b rest" "in_header st"
    by (rule res_opened [OF assms(1) ma date room(1) room(2) [unfolded len] status])
  define r2 where "r2 = res\<lparr>he_stage := st, he_mode := VTM_HTTP_RES_MODE_FIXED, he_buf := b\<rparr>"
  have r2: "in_header (he_stage r2)" "he_mode r2 = VTM_HTTP_RES_MODE_FIXED" "buf_room (he_body_buf r2) (length (concat ps))"
    using b(4) room(3) by (simp_all add: r2_def)
  from res_body_fixed [OF r2(1,2) ma r2(3)] obtain b3 where b3:
    "fold (\<lambda>p res. snd (vtm_http_res_body_raw ma res p)) ps r2 = r2\<lparr>he_body_buf := b3\<rparr>" "buf_data b3 = concat ps" "buf_room b3 0"
    using assms(3) by (auto simp: r2_def)
  define r3 where "r3 = r2\<lparr>he_body_buf := b3\<rparr>"
  have r3: "in_header (he_stage r3)" "he_mode r3 = VTM_HTTP_RES_MODE_FIXED" "he_body_se r3 = []" "buf_room (he_body_buf r3) 0"
    "res_has r3 (http_res_head res VTM_HTTP_RES_MODE_FIXED status date hs) (length (http_field VTM_HTTP_HEADER_CONTENT_LENGTH (nat_dec (length (buf_data (he_body_buf r3)))))
      + (length (http_con_line (he_act r3)) + 2 + length (buf_data (he_body_buf r3))))"
    using b b3 r2 assms(2) by (simp_all add: r3_def r2_def res_has_def rest_def f_def)
  from res_finish_fixed [OF r3(1-3) ma r3(4,5)] obtain r4 where r4: "http_res_finish ma True r3 = Some (VTM_OK, r4)" "he_body_se r4 = []"
    "buf_room (he_buf r4) 0" "buf_data (he_buf r4) = bytes" "he_act r4 = he_act res" "in_header (he_stage r4)"
    using b3(2) by (auto simp: r3_def r2_def bytes)
  have eq: "http_respond ma bufs True True wr now VTM_HTTP_RES_MODE_FIXED status hs ps res s = vtm_http_res_send bufs wr True r4 s"
    unfolding b(1) using b3(1) r3(1) r4(1) by (auto simp: r2_def [symmetric] r3_def [symmetric] vtm_http_res_end_def)
  show ?thesis unfolding eq
    by (rule res_send [OF wr r4(2,3), of bufs s]) (use r4(4-6) in \<open>auto simp: vtm_http_res_was_sent_def\<close>)
qed

text \<open>
  C16. A response of fixed length: when the handler has given a status, header fields and the pieces of a body, ending the
  response sends, or leaves for the connection to send, exactly the status line, the fields \<open>Server\<close> and \<open>Date\<close>, the given
  fields, \<open>Content-Length\<close> with the number of bytes of the body, \<open>Connection\<close> according to the action, an empty line and
  the body; a socket that fails got a prefix of it, and nothing is left when the socket takes all of it at once. The status
  is one whose digits fit into their array.
\<close>

theorem http_fixed_response:
  assumes "he_stage res = VTM_HTTP_RES_STAGE_UNINITIALZED" "he_body_se res = []" "buf_data (he_body_buf res) = []"
    and ma: "\<forall>m. ma m" and wr: "byte_sink wr sent"
    and date: "vtm_http_fmt_date VTM_HTTP_DATE_LEN (vtm_date_now_utc now) = Some (VTM_OK, date)"
    and bytes: "bytes = http_res_head res VTM_HTTP_RES_MODE_FIXED status date hs @ http_field VTM_HTTP_HEADER_CONTENT_LENGTH (nat_dec (length (concat ps)))
      @ http_con_line (he_act res) @ http_crlf @ concat ps"
    and room: "buf_data (he_buf res) = []" "buf_room (he_buf res) (length bytes)" "buf_room (he_body_buf res) (length (concat ps))"
    and status: "- 1000000000 < sint status"
  shows "\<exists>rc res' chain s'. http_respond ma bufs True True wr now VTM_HTTP_RES_MODE_FIXED status hs ps res s = Some (rc, res', chain, s')
    \<and> rc \<in> {VTM_OK, VTM_ERROR}
    \<and> (rc = VTM_OK \<longrightarrow> vtm_http_res_was_sent res' \<and> sent s' @ chain_pending (bufs(0 := buf_data (he_buf res'))) chain = sent s @ bytes)
    \<and> prefix (sent s') (sent s @ bytes)
    \<and> (\<forall>n s1. wr bytes s = Some ((VTM_OK, n), s1) \<longrightarrow> rc = VTM_OK \<and> chain = [])"
  using fixed_response [OF assms(1-4) wr date bytes room status, of bufs s] by blast

text \<open>
  What a chunked response puts behind its header fields.
\<close>

lemma chunked_response:
  assumes "he_stage res = VTM_HTTP_RES_STAGE_UNINITIALZED" "he_body_se res = []"
    and ma: "\<forall>m. ma m" and wr: "byte_sink wr sent"
    and date: "vtm_http_fmt_date VTM_HTTP_DATE_LEN (vtm_date_now_utc now) = Some (VTM_OK, date)"
    and bytes: "bytes = http_res_head res VTM_HTTP_RES_MODE_CHUNKED status date hs @ http_con_line (he_act res) @ http_crlf @ concat (map http_chunk (ps @ [[]]))"
    and room: "buf_data (he_buf res) = []" "buf_room (he_buf res) (length bytes)" and status: "- 1000000000 < sint status"
  shows "\<exists>rc res' chain s'. http_respond ma bufs mem True wr now VTM_HTTP_RES_MODE_CHUNKED status hs ps res s = Some (rc, res', chain, s')
    \<and> rc \<in> {VTM_OK, VTM_ERROR}
    \<and> (rc = VTM_OK \<longrightarrow> vtm_http_res_was_sent res' \<and> sent s' @ chain_pending (bufs(0 := buf_data (he_buf res'))) chain = sent s @ bytes)"
proof -
  define rest where "rest = length (http_con_line (he_act res)) + 2 + length (concat (map http_chunk (ps @ [[]])))"
  have len: "length bytes = length (http_res_head res VTM_HTTP_RES_MODE_CHUNKED status date hs) + rest" by (simp add: bytes rest_def)
  obtain b st where
    b: "http_respond ma bufs mem True wr now VTM_HTTP_RES_MODE_CHUNKED status hs ps res s
      = vtm_http_res_end ma bufs mem True wr
          (fold (\<lambda>p res. snd (vtm_http_res_body_raw ma res p)) ps (res\<lparr>he_stage := st, he_mode := VTM_HTTP_RES_MODE_CHUNKED, he_buf := b\<rparr>)) s"
    "buf_data b = http_res_head res VTM_HTTP_RES_MODE_CHUNKED status date hs" "buf_room b rest" "in_header st"
    by (rule res_opened [OF assms(1) ma date room(1) room(2) [unfolded len] status])
  define r2 where "r2 = res\<lparr>he_stage := st, he_mode := VTM_HTTP_RES_MODE_CHUNKED, he_buf := b\<rparr>"
  define r3 where "r3 = fold (\<lambda>p res. snd (vtm_http_res_body_raw ma res p)) ps r2"
  have r2: "in_header (he_stage r2)" "he_mode r2 = VTM_HTTP_RES_MODE_CHUNKED" "he_body_se r2 = []" "he_act r2 = he_act res"
    using b(4) assms(2) by (simp_all add: r2_def)
  have r2': "res_has r2 (http_res_head res VTM_HTTP_RES_MODE_CHUNKED status date hs)
      (length (http_con_line (he_act r2)) + 2 + length (concat (map http_chunk (ps @ [[]]))))"
    using b(2,3) by (simp add: r2_def res_has_def rest_def)
  obtain r4 where r4: "http_res_finish ma mem r3 = Some (VTM_OK, r4)"
    "he_stage r3 \<notin> {VTM_HTTP_RES_STAGE_UNINITIALZED, VTM_HTTP_RES_STAGE_COMPLETED}" "he_body_se r4 = []" "buf_room (he_buf r4) 0"
    "buf_data (he_buf r4) = bytes"
    unfolding r3_def bytes r2(4) [symmetric] by (rule res_finish_chunked [OF r2(1-3) ma r2'])
  have eq: "http_respond ma bufs mem True wr now VTM_HTTP_RES_MODE_CHUNKED status hs ps res s = vtm_http_res_send bufs wr True r4 s"
    unfolding b(1) r2_def [symmetric] r3_def [symmetric] using r4(1,2) by (simp add: vtm_http_res_end_def)
  show ?thesis unfolding eq
    by (rule res_send [OF wr r4(3,4), of bufs s]) (use r4(5) in auto)
qed

text \<open>
  C23. A chunked response can be read back: behind the header fields and the empty line, a reader of the chunked coding finds exactly
  the pieces that the handler has given, put together, and nothing behind them, when none of the pieces is empty (and the digits
  of the status fit into their array).
\<close>

theorem http_chunked_response:
  assumes "he_stage res = VTM_HTTP_RES_STAGE_UNINITIALZED" "he_body_se res = []" "buf_data (he_buf res) = []"
    and "\<forall>m. ma m" and "byte_sink wr sent"
    and "vtm_http_fmt_date VTM_HTTP_DATE_LEN (vtm_date_now_utc now) = Some (VTM_OK, date)"
    and "buf_room (he_buf res)
      (length (http_res_head res VTM_HTTP_RES_MODE_CHUNKED status date hs @ http_con_line (he_act res) @ http_crlf @ concat (map http_chunk (ps @ [[]]))))"
    and ne: "[] \<notin> set ps" and status: "- 1000000000 < sint status"
  shows "\<exists>rc res' chain s' body. http_respond ma bufs mem True wr now VTM_HTTP_RES_MODE_CHUNKED status hs ps res s = Some (rc, res', chain, s')
    \<and> rc \<in> {VTM_OK, VTM_ERROR} \<and> dechunk body = Some (concat ps, [])
    \<and> (rc = VTM_OK \<longrightarrow> vtm_http_res_was_sent res' \<and> sent s' @ chain_pending (bufs(0 := buf_data (he_buf res'))) chain
        = sent s @ http_res_head res VTM_HTTP_RES_MODE_CHUNKED status date hs @ http_con_line (he_act res) @ http_crlf @ body)"
proof -
  have "length p < 2 ^ 64" if "p \<in> set ps" for p
  proof -
    have "length p \<le> length (http_chunk p)" by (simp add: http_chunk_def)
    also have "\<dots> \<le> length (concat (map http_chunk (ps @ [[]])))"
      using that by (auto dest!: split_list)
    also have "\<dots> \<le> 2 ^ 60" using assms(7) by (simp add: buf_room_def)
    finally show ?thesis by simp
  qed
  with ne have "dechunk (concat (map http_chunk (ps @ [[]]))) = Some (concat ps, [])"
    using dechunk_chunks [of ps "[]"] by auto
  with chunked_response [OF assms(1,2,4,5,6) refl assms(3,7) status, of bufs mem s] show ?thesis by blast
qed

text \<open>
  An empty piece ends the body of a chunked response early: a reader of the chunked coding takes it for the last chunk, and
  everything that the handler gives afterwards stands behind the body, where the next response is expected.
\<close>

theorem http_empty_piece_ends:
  assumes "he_stage res = VTM_HTTP_RES_STAGE_UNINITIALZED" "he_body_se res = []" "buf_data (he_buf res) = []"
    and "\<forall>m. ma m" and "byte_sink wr sent"
    and "vtm_http_fmt_date VTM_HTTP_DATE_LEN (vtm_date_now_utc now) = Some (VTM_OK, date)"
    and "buf_room (he_buf res)
      (length (http_res_head res VTM_HTTP_RES_MODE_CHUNKED status date hs @ http_con_line (he_act res) @ http_crlf @ concat (map http_chunk (([] # ps) @ [[]]))))"
    and status: "- 1000000000 < sint status"
  shows "\<exists>rc res' chain s' body. http_respond ma bufs mem True wr now VTM_HTTP_RES_MODE_CHUNKED status hs ([] # ps) res s = Some (rc, res', chain, s')
    \<and> rc \<in> {VTM_OK, VTM_ERROR} \<and> dechunk body = Some ([], concat (map http_chunk (ps @ [[]])))
    \<and> (rc = VTM_OK \<longrightarrow> sent s' @ chain_pending (bufs(0 := buf_data (he_buf res'))) chain
        = sent s @ http_res_head res VTM_HTTP_RES_MODE_CHUNKED status date hs @ http_con_line (he_act res) @ http_crlf @ body)"
proof -
  have "dechunk (concat (map http_chunk (([] # ps) @ [[]]))) = Some ([], concat (map http_chunk (ps @ [[]])))"
    using dechunk_chunk [of "[]" "concat (map http_chunk (ps @ [[]]))"] by simp
  with chunked_response [OF assms(1,2,4,5,6) refl assms(3,7) status, of bufs mem s] show ?thesis by blast
qed

subsection \<open>A sample\<close>

definition sample_now :: c_tm where
  "sample_now = \<lparr>tm_year = 120, tm_mon = 7, tm_wday = 6, tm_mday = 1, tm_hour = 9, tm_min = 30, tm_sec = 5\<rparr>"

definition sample_date :: cstr where "sample_date = bytes_of ''Sat, 1 Aug 2020 09:30:05 GMT''"

definition sample_res :: vtm_http_res where
  "sample_res = \<lparr>he_version = VTM_HTTP_VER_1_1, he_mode = VTM_HTTP_RES_MODE_FIXED, he_stage = VTM_HTTP_RES_STAGE_UNINITIALZED,
     he_act = VTM_HTTP_RES_ACT_KEEP_CON, he_act_data = None, he_buf = vtm_buf_init VTM_BYTEORDER_LE, he_body_buf = vtm_buf_init VTM_BYTEORDER_LE,
     he_body_se = []\<rparr>"

lemma sample_date: "vtm_http_fmt_date VTM_HTTP_DATE_LEN (vtm_date_now_utc sample_now) = Some (VTM_OK, sample_date)"
  by code_simp

lemma sample_room:
  assumes "n \<le> 1000"
  shows "buf_room (he_buf sample_res) n" "buf_room (he_body_buf sample_res) n" "buf_data (he_buf sample_res) = []" "buf_data (he_body_buf sample_res) = []"
  using assms by (simp_all add: sample_res_def buf_room_init) (simp_all add: vtm_buf_init_def)

abbreviation sample_hs :: "(cstr \<times> cstr) list" where "sample_hs \<equiv> [(bytes_of ''Content-Type'', bytes_of ''text/plain'')]"
abbreviation sample_ps :: "byte list list" where "sample_ps \<equiv> [bytes_of ''hello '', bytes_of ''world'']"

lemma sample_lengths:
  "length (http_res_head sample_res VTM_HTTP_RES_MODE_FIXED 200 sample_date sample_hs
     @ http_field VTM_HTTP_HEADER_CONTENT_LENGTH (nat_dec (length (concat sample_ps))) @ http_con_line (he_act sample_res) @ http_crlf @ concat sample_ps) \<le> 1000"
  "length (http_res_head sample_res VTM_HTTP_RES_MODE_CHUNKED 200 sample_date sample_hs
     @ http_con_line (he_act sample_res) @ http_crlf @ concat (map http_chunk (sample_ps @ [[]]))) \<le> 1000"
  "length (http_res_head sample_res VTM_HTTP_RES_MODE_CHUNKED 200 sample_date sample_hs
     @ http_con_line (he_act sample_res) @ http_crlf @ concat (map http_chunk (([] # sample_ps) @ [[]]))) \<le> 1000"
  by code_simp+

lemma sample_state: "he_stage sample_res = VTM_HTTP_RES_STAGE_UNINITIALZED" "he_body_se sample_res = []"
  by (simp_all add: sample_res_def)

theorem http_fixed_response_witness:
  "\<exists>rc res' chain s'. http_respond (\<lambda>m. True) (\<lambda>n. []) True True write_two sample_now VTM_HTTP_RES_MODE_FIXED 200 sample_hs sample_ps sample_res []
      = Some (rc, res', chain, s')
    \<and> rc \<in> {VTM_OK, VTM_ERROR}
    \<and> (rc = VTM_OK \<longrightarrow> vtm_http_res_was_sent res' \<and> s' @ chain_pending ((\<lambda>n. [])(0 := buf_data (he_buf res'))) chain
        = [] @ http_res_head sample_res VTM_HTTP_RES_MODE_FIXED 200 sample_date sample_hs
          @ http_field VTM_HTTP_HEADER_CONTENT_LENGTH (nat_dec (length (concat sample_ps))) @ http_con_line (he_act sample_res) @ http_crlf @ concat sample_ps)
    \<and> prefix s' ([] @ http_res_head sample_res VTM_HTTP_RES_MODE_FIXED 200 sample_date sample_hs
          @ http_field VTM_HTTP_HEADER_CONTENT_LENGTH (nat_dec (length (concat sample_ps))) @ http_con_line (he_act sample_res) @ http_crlf @ concat sample_ps)
    \<and> (\<forall>n s1. write_two (http_res_head sample_res VTM_HTTP_RES_MODE_FIXED 200 sample_date sample_hs
          @ http_field VTM_HTTP_HEADER_CONTENT_LENGTH (nat_dec (length (concat sample_ps))) @ http_con_line (he_act sample_res) @ http_crlf @ concat sample_ps) []
        = Some ((VTM_OK, n), s1) \<longrightarrow> rc = VTM_OK \<and> chain = [])"
  by (rule http_fixed_response [OF sample_state sample_room(4) [of 0] _ write_two_sink sample_date refl sample_room(3) [of 0] sample_room(1) [OF sample_lengths(1)]
        sample_room(2)]) (simp_all add: bytes_of_def)

theorem http_chunked_response_witness:
  "\<exists>rc res' chain s' body. http_respond (\<lambda>m. True) (\<lambda>n. []) True True write_two sample_now VTM_HTTP_RES_MODE_CHUNKED 200 sample_hs sample_ps sample_res []
      = Some (rc, res', chain, s')
    \<and> rc \<in> {VTM_OK, VTM_ERROR} \<and> dechunk body = Some (concat sample_ps, [])
    \<and> (rc = VTM_OK \<longrightarrow> vtm_http_res_was_sent res' \<and> s' @ chain_pending ((\<lambda>n. [])(0 := buf_data (he_buf res'))) chain
        = [] @ http_res_head sample_res VTM_HTTP_RES_MODE_CHUNKED 200 sample_date sample_hs @ http_con_line (he_act sample_res) @ http_crlf @ body)"
  by (rule http_chunked_response [OF sample_state sample_room(3) [of 0] _ write_two_sink sample_date sample_room(1) [OF sample_lengths(2)]])
    (simp_all add: bytes_of_def)

theorem http_empty_piece_ends_witness:
  "\<exists>rc res' chain s' body. http_respond (\<lambda>m. True) (\<lambda>n. []) True True write_two sample_now VTM_HTTP_RES_MODE_CHUNKED 200 sample_hs ([] # sample_ps) sample_res []
      = Some (rc, res', chain, s')
    \<and> rc \<in> {VTM_OK, VTM_ERROR} \<and> dechunk body = Some ([], concat (map http_chunk (sample_ps @ [[]])))
    \<and> (rc = VTM_OK \<longrightarrow> s' @ chain_pending ((\<lambda>n. [])(0 := buf_data (he_buf res'))) chain
        = [] @ http_res_head sample_res VTM_HTTP_RES_MODE_CHUNKED 200 sample_date sample_hs @ http_con_line (he_act sample_res) @ http_crlf @ body)"
  by (rule http_empty_piece_ends [OF sample_state sample_room(3) [of 0] _ write_two_sink sample_date sample_room(1) [OF sample_lengths(3)]])
    simp_all

end
