(* ===== verification/SocketConnection.thy ===== *)
theory SocketConnection
  imports SocketWriter Buffer
begin

text \<open>
  Connections of servers, \<open>net/socket_connection.c\<close>: a receive and a send buffer over a socket that may take only a part of
  what it is given. \<open>wr\<close> is \<open>vtm_socket_write\<close> on the socket of the connection, \<open>upd\<close> is \<open>vtm_socket_update_srv\<close>, which
  makes the server wait until the socket can be written. The mutex is taken around every operation on the send buffer, so
  an operation is one step; creating it may fail.
\<close>

record vtm_socket_con =
  sn_recvbuf :: vtm_buf
  sn_sendbuf :: vtm_buf
  sn_usr_data :: "nat option"
  sn_writing :: bool

definition vtm_socket_con_init :: "bool \<Rightarrow> vtm_socket_con option" where
  "vtm_socket_con_init mtx =
     (if mtx then Some \<lparr>sn_recvbuf = vtm_buf_init VTM_BYTEORDER_BE, sn_sendbuf = vtm_buf_init VTM_BYTEORDER_BE,
        sn_usr_data = None, sn_writing = False\<rparr>
      else None)"

definition vtm_socket_con_new :: "bool \<Rightarrow> bool \<Rightarrow> vtm_socket_con option" where
  "vtm_socket_con_new mem mtx = (if \<not> mem then None else vtm_socket_con_init mtx)"

text \<open>What is released with a connection, apart from the mutex.\<close>

definition vtm_socket_con_release :: "vtm_socket_con option \<Rightarrow> vtm_buf list" where
  "vtm_socket_con_release con =
     (case con of None \<Rightarrow> [] | Some con \<Rightarrow> [sn_recvbuf con, sn_sendbuf con])"

definition vtm_socket_con_set_usr_data :: "vtm_socket_con \<Rightarrow> nat option \<Rightarrow> vtm_socket_con" where
  "vtm_socket_con_set_usr_data con data = con\<lparr>sn_usr_data := data\<rparr>"

definition vtm_socket_con_get_usr_data :: "vtm_socket_con \<Rightarrow> nat option" where
  "vtm_socket_con_get_usr_data con = sn_usr_data con"

text \<open>\<open>None\<close>: the write does not return.\<close>

definition vtm_socket_con_write_internal ::
    "'s sock_write \<Rightarrow> ('s \<Rightarrow> 's) \<Rightarrow> vtm_socket_con \<Rightarrow> 's \<Rightarrow> (vtm_rc \<times> vtm_socket_con \<times> 's) option" where
  "vtm_socket_con_write_internal wr upd con s =
     (let b = sn_sendbuf con
      in map_option (\<lambda>((rc, written), s).
             let con = con\<lparr>sn_sendbuf := vtm_buf_discard_processed (b\<lparr>buf_read := buf_read b + of_nat written\<rparr>)\<rparr>
             in if rc = VTM_OK then (rc, con\<lparr>sn_writing := False\<rparr>, s) else (rc, con, upd s))
           (wr (take (unat (buf_used b - buf_read b)) (drop (unat (buf_read b)) (buf_data b))) s))"

definition vtm_socket_con_write_start ::
    "'s sock_write \<Rightarrow> ('s \<Rightarrow> 's) \<Rightarrow> vtm_socket_con \<Rightarrow> 's \<Rightarrow> (vtm_rc \<times> vtm_socket_con \<times> 's) option" where
  "vtm_socket_con_write_start wr upd con s =
     (if sn_writing con then Some (VTM_OK, con, s)
      else vtm_socket_con_write_internal wr upd (con\<lparr>sn_writing := True\<rparr>) s)"

definition vtm_socket_con_write ::
    "'s sock_write \<Rightarrow> ('s \<Rightarrow> 's) \<Rightarrow> vtm_socket_con \<Rightarrow> 's \<Rightarrow> (vtm_rc \<times> vtm_socket_con \<times> 's) option" where
  "vtm_socket_con_write wr upd con s = vtm_socket_con_write_internal wr upd con s"

definition vtm_socket_con_close :: "('s \<Rightarrow> vtm_rc \<times> 's) \<Rightarrow> ('s \<Rightarrow> 's) \<Rightarrow> 's \<Rightarrow> vtm_rc \<times> 's" where
  "vtm_socket_con_close cls upd s = (let (rc, s) = cls s in (rc, if rc = VTM_OK then upd s else s))"

subsection \<open>A connection is a stream\<close>

text \<open>
  What happens to the send buffer: a message is put into it and writing is started, as \<open>vtm_ws_con_send_msg\<close> and the
  connections of \<open>net/nm\<close> do; or the server reports that the socket can be written.
\<close>

datatype con_op = CoSend "byte list" | CoCanWrite

fun con_do ::
    "allocator \<Rightarrow> 's sock_write \<Rightarrow> ('s \<Rightarrow> 's) \<Rightarrow> con_op \<Rightarrow> vtm_socket_con \<times> 's \<Rightarrow> (vtm_socket_con \<times> 's) option" where
  "con_do ma wr upd (CoSend bs) (con, s) =
     (let (rc, b) = vtm_buf_putm ma (sn_sendbuf con) bs; con = con\<lparr>sn_sendbuf := b\<rparr>
      in if rc \<noteq> VTM_OK then Some (con, s)
         else map_option (\<lambda>(rc, con, s). (con, s)) (vtm_socket_con_write_start wr upd con s))"
| "con_do ma wr upd CoCanWrite (con, s) = map_option (\<lambda>(rc, con, s). (con, s)) (vtm_socket_con_write wr upd con s)"

fun con_run ::
    "allocator \<Rightarrow> 's sock_write \<Rightarrow> ('s \<Rightarrow> 's) \<Rightarrow> con_op list \<Rightarrow> vtm_socket_con \<times> 's \<Rightarrow> (vtm_socket_con \<times> 's) option" where
  "con_run ma wr upd [] x = Some x"
| "con_run ma wr upd (p # ps) x = (case con_do ma wr upd p x of None \<Rightarrow> None | Some x \<Rightarrow> con_run ma wr upd ps x)"

definition con_bytes :: "con_op list \<Rightarrow> byte list" where
  "con_bytes ps = concat (map (\<lambda>p. case p of CoSend bs \<Rightarrow> bs | CoCanWrite \<Rightarrow> []) ps)"

text \<open>
  The invariant: the bytes in the send buffer are those not sent; room for \<open>n\<close> more; and when nobody is waiting for
  the socket, everything has been sent.
\<close>

definition con_inv :: "('s \<Rightarrow> byte list) \<Rightarrow> byte list \<Rightarrow> nat \<Rightarrow> vtm_socket_con \<times> 's \<Rightarrow> bool" where
  "con_inv sent bs n x \<longleftrightarrow>
     buf_room (sn_sendbuf (fst x)) n \<and> buf_read (sn_sendbuf (fst x)) = 0 \<and> sent (snd x) @ buf_data (sn_sendbuf (fst x)) = bs
     \<and> (\<not> sn_writing (fst x) \<longrightarrow> buf_data (sn_sendbuf (fst x)) = [])"

lemma discard_front:
  assumes "buf_room b n" "buf_read b = 0" "k \<le> length (buf_data b)"
  shows "buf_data (vtm_buf_discard_processed (b\<lparr>buf_read := of_nat k\<rparr>)) = drop k (buf_data b)"
    "buf_read (vtm_buf_discard_processed (b\<lparr>buf_read := of_nat k\<rparr>)) = 0"
    "buf_room (vtm_buf_discard_processed (b\<lparr>buf_read := of_nat k\<rparr>)) n"
proof -
  from assms(1) have inv: "vtm_buf_inv b" and used: "unat (buf_used b) \<le> 2 ^ 60" by (auto simp: buf_room_def)
  then have len: "length (buf_data b) = unat (buf_used b)" by (simp add: vtm_buf_inv_def)
  with assms(3) have k: "unat (of_nat k :: size_t) = k" "(of_nat k :: size_t) \<le> buf_used b"
    using unat_less_2p [of "buf_used b"] by (simp_all add: unat_of_nat_small word_le_nat_alt)
  have inv': "vtm_buf_inv (b\<lparr>buf_read := of_nat k\<rparr>)" using inv k(2) by (simp add: vtm_buf_inv_def)
  note d = vtm_buf_discard_ok [OF inv']
  show data: "buf_data (vtm_buf_discard_processed (b\<lparr>buf_read := of_nat k\<rparr>)) = drop k (buf_data b)"
    using d k(1) by (simp add: buf_unread_def)
  show "buf_read (vtm_buf_discard_processed (b\<lparr>buf_read := of_nat k\<rparr>)) = 0"
    by (simp add: vtm_buf_discard_processed_def)
  have "unat (buf_used (vtm_buf_discard_processed (b\<lparr>buf_read := of_nat k\<rparr>))) = length (drop k (buf_data b))"
    using d data by (metis vtm_buf_inv_def)
  then show "buf_room (vtm_buf_discard_processed (b\<lparr>buf_read := of_nat k\<rparr>)) n"
    using assms(1) d len by (auto simp: buf_room_def) (simp_all add: vtm_buf_discard_processed_def)
qed

lemma con_write_step:
  assumes "byte_sink wr sent" "\<forall>s. sent (upd s) = sent s" "con_inv sent bs n (con\<lparr>sn_writing := True\<rparr>, s)"
  obtains rc con' s' where "vtm_socket_con_write_internal wr upd (con\<lparr>sn_writing := w\<rparr>) s = Some (rc, con', s')"
    "con_inv sent bs n (con'\<lparr>sn_writing := True\<rparr>, s')" "buf_data (sn_sendbuf con) = [] \<longrightarrow> buf_data (sn_sendbuf con') = []"
    "rc = VTM_OK \<longrightarrow> \<not> sn_writing con' \<and> buf_data (sn_sendbuf con') = []" "rc \<noteq> VTM_OK \<longrightarrow> sn_writing con' = w"
proof -
  define b where "b = sn_sendbuf con"
  from assms(3) have b: "buf_room b n" "buf_read b = 0" "sent s @ buf_data b = bs" by (auto simp: con_inv_def b_def)
  then have len: "unat (buf_used b) = length (buf_data b)" by (simp add: buf_room_def vtm_buf_inv_def)
  obtain rc k s' where k: "wr (buf_data b) s = Some ((rc, k), s')" "k \<le> length (buf_data b)" "sent s' = sent s @ take k (buf_data b)"
    "rc = VTM_OK \<longrightarrow> k = length (buf_data b)" by (rule byte_sinkE [OF assms(1)])
  define b' where "b' = vtm_buf_discard_processed (b\<lparr>buf_read := of_nat k\<rparr>)"
  note d = discard_front [OF b(1,2) k(2), folded b'_def]
  have w: "vtm_socket_con_write_internal wr upd (con\<lparr>sn_writing := w\<rparr>) s =
      Some (if rc = VTM_OK then (rc, con\<lparr>sn_sendbuf := b', sn_writing := False\<rparr>, s') else (rc, con\<lparr>sn_sendbuf := b', sn_writing := w\<rparr>, upd s'))"
    using b(2) k(1) len by (simp add: vtm_socket_con_write_internal_def b_def [symmetric] b'_def Let_def)
  have i: "sent s' @ buf_data b' = bs" using b(3) k(3) d(1) by simp
  show thesis
  proof (cases "rc = VTM_OK")
    case True
    with w i d k(4) show thesis
      by (intro that [of rc "con\<lparr>sn_sendbuf := b', sn_writing := False\<rparr>" s']) (simp_all add: con_inv_def b_def)
  next
    case False
    with w i d assms(2) show thesis
      by (intro that [of rc "con\<lparr>sn_sendbuf := b', sn_writing := w\<rparr>" "upd s'"]) (simp_all add: con_inv_def b_def)
  qed
qed

text \<open>Both ways into the writing keep the invariant.\<close>

lemma write_order: "vtm_socket_con_write_internal wr upd con s = Some (rc, con', s') \<Longrightarrow> buf_order (sn_sendbuf con') = buf_order (sn_sendbuf con)"
proof -
  assume w: "vtm_socket_con_write_internal wr upd con s = Some (rc, con', s')"
  have "buf_order (vtm_buf_discard_processed b) = buf_order b" for b by (simp add: vtm_buf_discard_processed_def)
  with w show ?thesis by (auto simp: vtm_socket_con_write_internal_def Let_def split: if_splits)
qed

lemma con_start_inv:
  assumes "byte_sink wr sent" "\<forall>s. sent (upd s) = sent s" and inv: "con_inv sent bs (length src + n) (con, s)"
    and b: "buf_ext (sn_sendbuf con) src b" "buf_room b n"
  obtains rc con' s' where "vtm_socket_con_write_start wr upd (con\<lparr>sn_sendbuf := b\<rparr>) s = Some (rc, con', s')"
    "con_inv sent (bs @ src) n (con', s')" "buf_order (sn_sendbuf con') = buf_order b"
proof -
  define con1 where "con1 = con\<lparr>sn_sendbuf := b\<rparr>"
  have c1: "con_inv sent (bs @ src) n (con1\<lparr>sn_writing := True\<rparr>, s)"
    using inv b by (auto simp: con_inv_def con1_def buf_ext_def)
  show thesis
  proof (cases "sn_writing con")
    case True
    with c1 show thesis by (intro that [of VTM_OK con1 s]) (simp_all add: con_inv_def con1_def vtm_socket_con_write_start_def)
  next
    case False
    obtain rc con' s' where w: "vtm_socket_con_write_internal wr upd (con1\<lparr>sn_writing := True\<rparr>) s = Some (rc, con', s')"
      "con_inv sent (bs @ src) n (con'\<lparr>sn_writing := True\<rparr>, s')"
      "rc = VTM_OK \<longrightarrow> \<not> sn_writing con' \<and> buf_data (sn_sendbuf con') = []" "rc \<noteq> VTM_OK \<longrightarrow> sn_writing con' = True"
      by (rule con_write_step [OF assms(1,2) c1, of True])
    with False write_order [OF w(1)] show thesis
      by (intro that [of rc con' s']) (auto simp: con_inv_def con1_def vtm_socket_con_write_start_def)
  qed
qed

lemma con_can_write_inv:
  assumes "byte_sink wr sent" "\<forall>s. sent (upd s) = sent s" and inv: "con_inv sent bs n (con, s)"
  obtains rc con' s' where "vtm_socket_con_write wr upd con s = Some (rc, con', s')" "con_inv sent bs n (con', s')"
    "buf_order (sn_sendbuf con') = buf_order (sn_sendbuf con)"
proof -
  have c1: "con_inv sent bs n (con\<lparr>sn_writing := True\<rparr>, s)" using inv by (simp add: con_inv_def)
  obtain rc con' s' where w: "vtm_socket_con_write_internal wr upd (con\<lparr>sn_writing := sn_writing con\<rparr>) s = Some (rc, con', s')"
    "con_inv sent bs n (con'\<lparr>sn_writing := True\<rparr>, s')" "buf_data (sn_sendbuf con) = [] \<longrightarrow> buf_data (sn_sendbuf con') = []"
    "rc = VTM_OK \<longrightarrow> \<not> sn_writing con' \<and> buf_data (sn_sendbuf con') = []" "rc \<noteq> VTM_OK \<longrightarrow> sn_writing con' = sn_writing con"
    by (rule con_write_step [OF assms(1,2) c1, of "sn_writing con"])
  with inv write_order [OF w(1)] show thesis
    by (intro that [of rc con' s']) (auto simp: con_inv_def vtm_socket_con_write_def)
qed

lemma con_do_inv:
  assumes "byte_sink wr sent" "\<forall>s. sent (upd s) = sent s" and ma: "\<forall>m. ma m"
    and inv: "con_inv sent bs (length (con_bytes [p]) + n) x"
  obtains x' where "con_do ma wr upd p x = Some x'" "con_inv sent (bs @ con_bytes [p]) n x'"
proof -
  obtain con s where x: "x = (con, s)" by fastforce
  show thesis
  proof (cases p)
    case (CoSend src)
    with inv x have i: "con_inv sent bs (length src + n) (con, s)" by (simp add: con_bytes_def)
    then have room: "buf_room (sn_sendbuf con) (length src + n)" by (simp add: con_inv_def)
    obtain b where b: "vtm_buf_putm ma (sn_sendbuf con) src = (VTM_OK, b)" "buf_ext (sn_sendbuf con) src b" "buf_room b n"
      by (rule room_putm [OF room ma])
    obtain rc con' s' where "vtm_socket_con_write_start wr upd (con\<lparr>sn_sendbuf := b\<rparr>) s = Some (rc, con', s')"
      "con_inv sent (bs @ src) n (con', s')" by (rule con_start_inv [OF assms(1,2) i b(2,3)])
    with b(1) x CoSend show thesis by (intro that [of "(con', s')"]) (simp_all add: con_bytes_def)
  next
    case CoCanWrite
    obtain rc con' s' where "vtm_socket_con_write wr upd con s = Some (rc, con', s')" "con_inv sent bs n (con', s')"
      by (rule con_can_write_inv [OF assms(1,2), of bs n con s]) (use inv x CoCanWrite in \<open>simp add: con_bytes_def\<close>)
    with x CoCanWrite show thesis by (intro that [of "(con', s')"]) (simp_all add: con_bytes_def)
  qed
qed

lemma con_run_inv:
  assumes "byte_sink wr sent" "\<forall>s. sent (upd s) = sent s" "\<forall>m. ma m" "con_inv sent bs (length (con_bytes ps) + n) x"
  shows "\<exists>x'. con_run ma wr upd ps x = Some x' \<and> con_inv sent (bs @ con_bytes ps) n x'"
  using assms(4)
proof (induction ps arbitrary: x bs)
  case Nil
  then show ?case by (simp add: con_bytes_def)
next
  case (Cons p ps)
  have e: "con_bytes (p # ps) = con_bytes [p] @ con_bytes ps" by (simp add: con_bytes_def)
  with Cons.prems have "con_inv sent bs (length (con_bytes [p]) + (length (con_bytes ps) + n)) x" by (simp add: add.assoc)
  then obtain x' where x': "con_do ma wr upd p x = Some x'" "con_inv sent (bs @ con_bytes [p]) (length (con_bytes ps) + n) x'"
    by (rule con_do_inv [OF assms(1-3)])
  with Cons.IH [OF x'(2)] show ?case by (simp add: e)
qed

text \<open>
  C19. A connection is a stream. Whatever the order in which messages are given to it and the socket becomes writable, and however
  many bytes the socket takes each time: what has been sent, followed by what is in the send buffer, are the messages in their
  order; and a connection that does not wait for its socket has sent everything. After any such run the bytes of the send
  buffer lie inside its block and its read position among them. All allocations are granted, and the messages have at most
  \<open>2 ^ 60\<close> bytes together.
\<close>

theorem socket_con_stream:
  assumes "byte_sink wr sent" "\<forall>s. sent (upd s) = sent s" "\<forall>m. ma m" "length (con_bytes ps) \<le> 2 ^ 60"
    and "vtm_socket_con_new True True = Some con"
  shows "\<exists>con' s'. con_run ma wr upd ps (con, s) = Some (con', s')
    \<and> sent s' @ buf_unread (sn_sendbuf con') = sent s @ con_bytes ps
    \<and> (\<not> sn_writing con' \<longrightarrow> sent s' = sent s @ con_bytes ps)
    \<and> vtm_buf_inv (sn_sendbuf con') \<and> length (buf_data (sn_sendbuf con')) \<le> unat (buf_len (sn_sendbuf con'))"
proof -
  have "con_inv sent (sent s) (length (con_bytes ps) + 0) (con, s)"
    using assms(4,5) buf_room_init [of "length (con_bytes ps)" VTM_BYTEORDER_BE]
    by (auto simp: vtm_socket_con_new_def vtm_socket_con_init_def con_inv_def) (simp_all add: vtm_buf_init_def)
  from con_run_inv [OF assms(1-3) this] obtain con' s' where "con_run ma wr upd ps (con, s) = Some (con', s')"
    "con_inv sent (sent s @ con_bytes ps) 0 (con', s')" by (metis prod.exhaust_sel)
  then show ?thesis by (auto simp: con_inv_def buf_unread_def buf_room_def vtm_buf_inv_def word_le_nat_alt)
qed

text \<open>Two messages, the second before the first has left.\<close>

theorem socket_con_stream_witness:
  "\<exists>con' s'. con_run (\<lambda>m. True) write_two (\<lambda>s. s) [CoSend [1, 2, 3], CoSend [4], CoCanWrite]
       (\<lparr>sn_recvbuf = vtm_buf_init VTM_BYTEORDER_BE, sn_sendbuf = vtm_buf_init VTM_BYTEORDER_BE, sn_usr_data = None, sn_writing = False\<rparr>, []) = Some (con', s')
    \<and> s' @ buf_unread (sn_sendbuf con') = [] @ [1, 2, 3, 4]
    \<and> (\<not> sn_writing con' \<longrightarrow> s' = [] @ [1, 2, 3, 4])
    \<and> vtm_buf_inv (sn_sendbuf con') \<and> length (buf_data (sn_sendbuf con')) \<le> unat (buf_len (sn_sendbuf con'))"
proof -
  have e: "con_bytes [CoSend [1, 2, 3], CoSend [4], CoCanWrite] = [1, 2, 3, 4]" by (simp add: con_bytes_def)
  from socket_con_stream [OF write_two_sink, where ps = "[CoSend [1, 2, 3], CoSend [4], CoCanWrite]" and upd = "\<lambda>s. s" and ma = "\<lambda>m. True" and s = "[]"
      and con = "\<lparr>sn_recvbuf = vtm_buf_init VTM_BYTEORDER_BE, sn_sendbuf = vtm_buf_init VTM_BYTEORDER_BE, sn_usr_data = None, sn_writing = False\<rparr>"]
  show ?thesis by (simp only: e) (simp add: vtm_socket_con_new_def vtm_socket_con_init_def)
qed

subsection \<open>Reading into a buffer\<close>

lemma ensure_room:
  assumes room: "buf_room b (unat n + m)" and ma: "\<forall>m. ma m"
  obtains l d where "vtm_buf_ensure ma b n = (VTM_OK, b\<lparr>buf_len := l, buf_dyn := d\<rparr>)"
    "buf_room (b\<lparr>buf_len := l, buf_dyn := d\<rparr>) (unat n + m)" "unat n \<le> unat (VTM_BUF_PUT_AVAIL_TOTAL (b\<lparr>buf_len := l, buf_dyn := d\<rparr>))"
proof -
  have inv: "vtm_buf_inv b" and ok: "buf_err b = VTM_OK" and len: "unat (buf_len b) \<le> 2 ^ 62"
    and used: "unat (buf_used b) + (unat n + m) \<le> 2 ^ 60"
    using room by (auto simp: buf_room_def)
  show thesis
  proof (rule buf_reserve_cases [OF inv ok, of ma n])
    fix l d
    assume r: "buf_reserve ma b n = b\<lparr>buf_len := l, buf_dyn := d\<rparr>" "vtm_buf_inv (b\<lparr>buf_len := l, buf_dyn := d\<rparr>)"
      "unat (buf_used b) + unat n \<le> unat l" "l = buf_len b \<or> unat l < 4 * (unat (buf_used b) + unat n)"
    have "unat (l - buf_used b) = unat l - unat (buf_used b)" using r(3) by (intro unat_sub) (simp add: word_le_nat_alt)
    with r(3) have "unat n \<le> unat (VTM_BUF_PUT_AVAIL_TOTAL (b\<lparr>buf_len := l, buf_dyn := d\<rparr>))"
      by (simp add: VTM_BUF_PUT_AVAIL_TOTAL_def)
    moreover have "unat l \<le> 2 ^ 62" using r(4) len used by auto
    ultimately show thesis
      using r(1,2) ok used by (intro that [of d l]) (simp_all add: vtm_buf_ensure_def buf_reserve_def buf_room_def Let_def)
  qed (use ma len used in auto)
qed

lemma put_inc_room:
  assumes "buf_room b (length bs + m)" "length bs \<le> unat (VTM_BUF_PUT_AVAIL_TOTAL b)"
  shows "buf_ext b bs (VTM_BUF_PUT_INC b bs)" "buf_room (VTM_BUF_PUT_INC b bs) m"
proof -
  have inv: "vtm_buf_inv b" and ok: "buf_err b = VTM_OK" and len: "unat (buf_len b) \<le> 2 ^ 62"
    and used: "unat (buf_used b) + (length bs + m) \<le> 2 ^ 60"
    using assms(1) by (auto simp: buf_room_def)
  have le: "unat (buf_used b) \<le> unat (buf_len b)" using inv by (simp add: vtm_buf_inv_def word_le_nat_alt)
  then have "unat (buf_len b - buf_used b) = unat (buf_len b) - unat (buf_used b)" by (intro unat_sub) (simp add: word_le_nat_alt)
  with assms(2) le have fits: "unat (buf_used b) + length bs \<le> unat (buf_len b)" by (simp add: VTM_BUF_PUT_AVAIL_TOTAL_def)
  have nl: "unat (of_nat (length bs) :: size_t) = length bs" using used by (intro unat_of_nat_small) simp
  have u: "unat (buf_used b + of_nat (length bs)) = unat (buf_used b) + length bs"
    using used nl by (subst unat_plus_if_size) (simp add: word_size)
  have inv': "vtm_buf_inv (VTM_BUF_PUT_INC b bs)"
    using inv u fits by (simp add: vtm_buf_inv_def VTM_BUF_PUT_INC_def word_le_nat_alt)
  then show "buf_ext b bs (VTM_BUF_PUT_INC b bs)" using ok by (simp add: buf_ext_def VTM_BUF_PUT_INC_def)
  show "buf_room (VTM_BUF_PUT_INC b bs) m"
    using inv' ok len used u by (simp add: buf_room_def) (simp add: VTM_BUF_PUT_INC_def)
qed

lemma unread_nil_iff: "vtm_buf_inv b \<Longrightarrow> VTM_BUF_GET_AVAIL_TOTAL b = 0 \<longleftrightarrow> buf_unread b = []"
proof -
  assume inv: "vtm_buf_inv b"
  then have "unat (buf_used b - buf_read b) = length (buf_unread b)"
    by (simp add: vtm_buf_inv_def buf_unread_def unat_sub)
  then show ?thesis by (metis VTM_BUF_GET_AVAIL_TOTAL_def length_0_conv unat_eq_zero)
qed

lemma discard_room:
  assumes "buf_room b n"
  shows "buf_room (vtm_buf_discard_processed b) n" "buf_data (vtm_buf_discard_processed b) = buf_unread b"
    "buf_unread (vtm_buf_discard_processed b) = buf_unread b" "buf_order (vtm_buf_discard_processed b) = buf_order b"
proof -
  have inv: "vtm_buf_inv b" using assms by (simp add: buf_room_def)
  note d = vtm_buf_discard_ok [OF inv]
  have "unat (buf_used (vtm_buf_discard_processed b)) = length (buf_unread b)" using d by (metis vtm_buf_inv_def)
  moreover have "length (buf_unread b) \<le> unat (buf_used b)" using inv by (simp add: vtm_buf_inv_def buf_unread_def)
  ultimately show "buf_room (vtm_buf_discard_processed b) n"
    using assms d by (auto simp: buf_room_def) (simp_all add: vtm_buf_discard_processed_def)
  show "buf_data (vtm_buf_discard_processed b) = buf_unread b" "buf_unread (vtm_buf_discard_processed b) = buf_unread b" using d by simp_all
  show "buf_order (vtm_buf_discard_processed b) = buf_order b" by (simp add: vtm_buf_discard_processed_def)
qed

type_synonym 's sock_read = "nat \<Rightarrow> 's \<Rightarrow> (vtm_rc \<times> byte list) \<times> 's"

text \<open>
  A socket that delivers the bytes \<open>rest s\<close> in pieces of any size and then reports that there is nothing more; reading
  leaves alone what \<open>got\<close> looks at.
\<close>

definition byte_source :: "'s sock_read \<Rightarrow> ('s \<Rightarrow> byte list) \<Rightarrow> ('s \<Rightarrow> 'g) \<Rightarrow> bool" where
  "byte_source rd rest got \<longleftrightarrow>
     (\<forall>n s. 0 < n \<longrightarrow> (\<exists>bs s'. rd n s = ((if bs = [] then VTM_E_IO_AGAIN else VTM_OK, bs), s') \<and> length bs \<le> n
        \<and> rest s = bs @ rest s' \<and> (bs = [] \<longrightarrow> rest s = []) \<and> got s' = got s))"

lemma byte_sourceE:
  assumes "byte_source rd rest got" "0 < n"
  obtains bs s' where "rd n s = ((if bs = [] then VTM_E_IO_AGAIN else VTM_OK, bs), s')" "length bs \<le> n" "rest s = bs @ rest s'"
    "bs = [] \<longrightarrow> rest s = []" "got s' = got s"
  using assms unfolding byte_source_def by blast

end
