(* ===== verification/HttpServer.thy ===== *)
theory HttpServer
  imports HttpMessage HttpResponse SocketConnection WsMessage
begin

text \<open>
  Connections and callbacks of the HTTP server: \<open>net/http/http_connection.c\<close>, \<open>ws_connection.c\<close> and \<open>http_server.c\<close>. A worker keeps one
  response for all its connections; \<open>bufs\<close> is the memory that emitters point to, with the buffer of that response at 0. The operations on
  the socket of a connection are arguments: \<open>rd\<close> reads, \<open>wr\<close> writes, \<open>cls\<close> closes, \<open>upd\<close> makes the server wait for it. A connection that is
  closed gives no bytes and an error.
\<close>

subsection \<open>Connections\<close>

record vtm_http_con =
  hn_recvbuf :: vtm_buf
  hn_parser :: vtm_http_parser
  hn_emitter :: "vtm_socket_emitter list"
  hn_clear :: bool

definition vtm_http_con_new :: "bool \<Rightarrow> vtm_http_parser \<Rightarrow> vtm_http_con option" where
  "vtm_http_con_new mem par =
     (if mem then Some \<lparr>hn_recvbuf = vtm_buf_init VTM_BYTEORDER_LE, hn_parser = vtm_http_parser_init par VTM_HTTP_PM_REQUEST, hn_emitter = [], hn_clear = False\<rparr>
      else None)"

text \<open>The path is a pointer into the receive buffer; \<open>None\<close> when there is no string.\<close>

definition vtm_http_con_get_request :: "vtm_http_con \<Rightarrow> (vtm_rc \<times> vtm_http_req option \<times> vtm_http_con) option" where
  "vtm_http_con_get_request con =
     (let par = hn_parser con
      in if hp_state par \<noteq> VTM_HTTP_PARSE_COMPLETE then Some (VTM_ERROR, None, con)
         else case Option.bind (hp_req_path par) (\<lambda>off. buf_cstr off (hn_recvbuf con)) of
                None \<Rightarrow> None
              | Some path \<Rightarrow>
                  Some (VTM_OK,
                    Some \<lparr>hq_method = hp_req_method par, hq_version = hp_version par, hq_path = path, hq_headers = hp_headers par, hq_params = hp_req_params par\<rparr>,
                    con\<lparr>hn_clear := True, hn_parser := vtm_http_parser_reset par\<rparr>))"

definition vtm_http_con_set_emitter :: "vtm_http_con \<Rightarrow> vtm_socket_emitter list \<Rightarrow> vtm_http_con" where
  "vtm_http_con_set_emitter con se = con\<lparr>hn_emitter := se\<rparr>"

text \<open>\<open>None\<close>: the parser leaves its memory.\<close>

definition vtm_http_con_read ::
    "'s sock_read \<Rightarrow> bool \<Rightarrow> allocator \<Rightarrow> vtm_http_con \<Rightarrow> 's \<Rightarrow> (vtm_net_recv_stat \<times> vtm_http_con \<times> 's) option" where
  "vtm_http_con_read rd mem ma con s =
     (let con = (if hn_clear con then con\<lparr>hn_clear := False, hn_recvbuf := vtm_buf_discard_processed (hn_recvbuf con)\<rparr> else con);
          (rc, b) = vtm_buf_ensure ma (hn_recvbuf con) 512
      in if rc \<noteq> VTM_OK then Some (VTM_NET_RECV_STAT_ERROR, con\<lparr>hn_recvbuf := b\<rparr>, s)
         else
           let ((rc, bs), s) = rd (unat (VTM_BUF_PUT_AVAIL_TOTAL b)) s; b = VTM_BUF_PUT_INC b bs
           in if rc \<noteq> VTM_OK \<and> rc \<noteq> VTM_E_IO_AGAIN then Some (VTM_NET_RECV_STAT_ERROR, con\<lparr>hn_recvbuf := b\<rparr>, s)
              else map_option (\<lambda>(stat, par, b). (stat, con\<lparr>hn_parser := par, hn_recvbuf := b\<rparr>, s)) (vtm_http_parser_run mem ma (hn_parser con) b))"

text \<open>\<open>None\<close>: there is no emitter, a failed assertion.\<close>

definition vtm_http_con_write ::
    "'s sock_write \<Rightarrow> (nat \<Rightarrow> byte list) \<Rightarrow> vtm_http_con \<Rightarrow> 's \<Rightarrow> (vtm_rc \<times> vtm_http_con \<times> 's) option" where
  "vtm_http_con_write wr bufs con s =
     (if hn_emitter con = [] then None
      else map_option (\<lambda>(rc, chain, freed, s).
               (rc, con\<lparr>hn_emitter := if rc \<noteq> VTM_OK \<and> rc \<noteq> VTM_E_IO_AGAIN then [] else chain\<rparr>, s))
             (vtm_socket_emitter_try_write wr bufs (hn_emitter con) s))"

record vtm_ws_con =
  wc_con :: vtm_socket_con
  wc_parser :: vtm_ws_parser

definition vtm_ws_con_new :: "bool \<Rightarrow> bool \<Rightarrow> allocator \<Rightarrow> vtm_ws_parser \<Rightarrow> vtm_ws_mode \<Rightarrow> vtm_ws_con option" where
  "vtm_ws_con_new mem mtx ma par mode =
     (if \<not> mem then None
      else case vtm_socket_con_init mtx of
             None \<Rightarrow> None
           | Some sc \<Rightarrow>
               let (rc, par) = vtm_ws_parser_init ma par mode
               in if rc \<noteq> VTM_OK then None else Some \<lparr>wc_con = sc, wc_parser = par\<rparr>)"

text \<open>What is released, apart from the connection.\<close>

definition vtm_ws_con_free :: "vtm_ws_con \<Rightarrow> vtm_buf list \<times> byte list option" where
  "vtm_ws_con_free con = (vtm_socket_con_release (Some (wc_con con)), vtm_ws_parser_release (wc_parser con))"

text \<open>The socket is asked for as many bytes as fit; without memory it is not read.\<close>

definition ws_con_can_read ::
    "'s sock_read \<Rightarrow> allocator \<Rightarrow> vtm_ws_con \<Rightarrow> 's \<Rightarrow> (vtm_net_recv_stat \<times> vtm_ws_con \<times> 's) option" where
  "ws_con_can_read rd ma con s =
     (let recvbuf = sn_recvbuf (wc_con con);
          (rc, b) = vtm_buf_ensure ma recvbuf 512;
          (r, s) = (if rc \<noteq> VTM_OK then ((rc, []), s) else rd (unat (VTM_BUF_PUT_AVAIL_TOTAL b)) s)
      in map_option (\<lambda>(stat, par, b). (stat, con\<lparr>wc_parser := par, wc_con := (wc_con con)\<lparr>sn_recvbuf := b\<rparr>\<rparr>, s))
           (vtm_ws_con_read ma r (wc_parser con) recvbuf))"

definition vtm_ws_con_write ::
    "'s sock_write \<Rightarrow> ('s \<Rightarrow> 's) \<Rightarrow> vtm_ws_con \<Rightarrow> 's \<Rightarrow> (vtm_rc \<times> vtm_ws_con \<times> 's) option" where
  "vtm_ws_con_write wr upd con s =
     map_option (\<lambda>(rc, sc, s). (rc, con\<lparr>wc_con := sc\<rparr>, s)) (vtm_socket_con_write wr upd (wc_con con) s)"

subsection \<open>The server\<close>

text \<open>The user data of a socket: a connection of one of the two types.\<close>

datatype vtm_http_con_base = VTM_HTTP_CON_TYPE_H1 vtm_http_con | VTM_HTTP_CON_TYPE_WS vtm_ws_con

text \<open>
  The callbacks of the user. The handler of requests gets the request and the response, and may send it: it changes the response, the
  emitter of the connection and the state. Callbacks that are not set are \<open>None\<close>.
\<close>

record 's vtm_http_srv_cbs =
  cb_http_request :: "vtm_http_req \<Rightarrow> vtm_http_res \<Rightarrow> vtm_socket_emitter list \<Rightarrow> 's \<Rightarrow> (vtm_http_res \<times> vtm_socket_emitter list \<times> 's) option"
  cb_ws_connect :: "(vtm_ws_con \<Rightarrow> 's \<Rightarrow> vtm_ws_con \<times> 's) option"
  cb_ws_message :: "(vtm_ws_msg \<Rightarrow> vtm_ws_con \<Rightarrow> 's \<Rightarrow> vtm_ws_con \<times> 's) option"
  cb_ws_close :: "(vtm_ws_con \<Rightarrow> 's \<Rightarrow> vtm_ws_con \<times> 's) option"

datatype vtm_socket_family = VTM_SOCK_FAM_IN4 | VTM_SOCK_FAM_IN6

fun vtm_http_srv_determine_sock_family :: "cstr \<Rightarrow> vtm_socket_family" where
  "vtm_http_srv_determine_sock_family [] = VTM_SOCK_FAM_IN4"
| "vtm_http_srv_determine_sock_family (c # addr) =
     (if c = byte_of CHR ''.'' \<or> c_isdigit c then vtm_http_srv_determine_sock_family addr else VTM_SOCK_FAM_IN6)"

definition vtm_http_srv_con_create :: "bool \<Rightarrow> vtm_http_parser \<Rightarrow> vtm_rc \<times> vtm_http_con_base option" where
  "vtm_http_srv_con_create mem par =
     (case vtm_http_con_new mem par of None \<Rightarrow> (VTM_ERROR, None) | Some con \<Rightarrow> (VTM_OK, Some (VTM_HTTP_CON_TYPE_H1 con)))"

definition vtm_http_srv_ws_con_create :: "bool \<Rightarrow> bool \<Rightarrow> allocator \<Rightarrow> vtm_ws_parser \<Rightarrow> vtm_rc \<times> vtm_ws_con option" where
  "vtm_http_srv_ws_con_create mem mtx ma par =
     (case vtm_ws_con_new mem mtx ma par VTM_WS_MODE_SERVER of None \<Rightarrow> (VTM_E_MALLOC, None) | Some con \<Rightarrow> (VTM_OK, Some con))"

text \<open>Options of the socket are set first: \<open>nbl\<close>.\<close>

definition vtm_http_srv_sock_connected :: "bool \<Rightarrow> vtm_http_parser \<Rightarrow> ('s \<Rightarrow> 's) \<Rightarrow> 's \<Rightarrow> vtm_http_con_base option \<times> 's" where
  "vtm_http_srv_sock_connected mem par nbl s = (snd (vtm_http_srv_con_create mem par), nbl s)"

text \<open>
  The connection is freed; the socket goes on with one for WebSockets. \<open>mem\<close>, \<open>mtx\<close> and \<open>par\<close> are the allocations and the memory of the new
  connection.
\<close>

definition vtm_http_srv_http_con_upgrade_ws ::
    "'s vtm_http_srv_cbs \<Rightarrow> bool \<Rightarrow> bool \<Rightarrow> allocator \<Rightarrow> vtm_ws_parser \<Rightarrow> ('s \<Rightarrow> 's) \<Rightarrow> 's \<Rightarrow> vtm_http_con_base option \<times> 's" where
  "vtm_http_srv_http_con_upgrade_ws cbs mem mtx ma par cls s =
     (case vtm_http_srv_ws_con_create mem mtx ma par of
        (rc, Some con) \<Rightarrow>
          (let (con, s) = (case cb_ws_connect cbs of None \<Rightarrow> (con, s) | Some cb \<Rightarrow> cb con s)
           in (Some (VTM_HTTP_CON_TYPE_WS con), s))
      | (rc, None) \<Rightarrow> (None, cls s))"

text \<open>
  Whether the loop goes on, the connection, the response and the state. \<open>None\<close>: a null pointer is used, or a header field cannot be
  converted to a string.
\<close>

definition vtm_http_srv_http_handle_request ::
    "'s vtm_http_srv_cbs \<Rightarrow> bool \<Rightarrow> bool \<Rightarrow> allocator \<Rightarrow> vtm_ws_parser \<Rightarrow> ('s \<Rightarrow> 's) \<Rightarrow> vtm_http_con \<Rightarrow> vtm_http_res \<Rightarrow> 's
     \<Rightarrow> (bool \<times> vtm_http_con_base option \<times> vtm_http_res \<times> 's) option" where
  "vtm_http_srv_http_handle_request cbs mem mtx ma wpar cls con res s =
     (case vtm_http_con_get_request con of
        None \<Rightarrow> None
      | Some (rc, None, con) \<Rightarrow> Some (False, Some (VTM_HTTP_CON_TYPE_H1 con), res, s)
      | Some (rc, Some req, con) \<Rightarrow>
          (case vtm_http_res_prepare ma res req of
             Inl e \<Rightarrow> None
           | Inr (res, req) \<Rightarrow>
               (case cb_http_request cbs req res (hn_emitter con) s of
                  None \<Rightarrow> None
                | Some (res, se, s) \<Rightarrow>
                    let con = vtm_http_con_set_emitter con se;
                        act = (if \<not> vtm_http_res_was_sent res then VTM_HTTP_RES_ACT_CLOSE_CON else vtm_http_res_get_action res)
                    in case act of
                         VTM_HTTP_RES_ACT_CLOSE_CON \<Rightarrow> Some (False, Some (VTM_HTTP_CON_TYPE_H1 con), res, cls s)
                       | VTM_HTTP_RES_ACT_KEEP_CON \<Rightarrow> Some (True, Some (VTM_HTTP_CON_TYPE_H1 con), res, s)
                       | VTM_HTTP_RES_ACT_UPGRADE_WS \<Rightarrow>
                           let (con, s) = vtm_http_srv_http_con_upgrade_ws cbs mem mtx ma wpar cls s in Some (False, con, res, s))))"

definition vtm_http_srv_ws_handle_request ::
    "'s vtm_http_srv_cbs \<Rightarrow> allocator \<Rightarrow> vtm_ws_con \<Rightarrow> 's \<Rightarrow> bool \<times> vtm_ws_con \<times> 's" where
  "vtm_http_srv_ws_handle_request cbs ma con s =
     (let (rc, msg, par) = vtm_ws_con_get_msg ma (wc_parser con); con = con\<lparr>wc_parser := par\<rparr>
      in if rc \<noteq> VTM_OK then (False, con, s)
         else let (con, s) = (case cb_ws_message cbs of None \<Rightarrow> (con, s) | Some cb \<Rightarrow> cb msg con s) in (True, con, s))"

text \<open>The loop behind the event that a socket can be read; \<open>None\<close> also when it does not end.\<close>

partial_function (option) http_srv_read_loop ::
    "'s vtm_http_srv_cbs \<Rightarrow> bool \<Rightarrow> bool \<Rightarrow> allocator \<Rightarrow> vtm_ws_parser \<Rightarrow> 's sock_read \<Rightarrow> ('s \<Rightarrow> 's) \<Rightarrow> vtm_http_con_base \<Rightarrow> vtm_http_res \<Rightarrow> 's
     \<Rightarrow> (vtm_http_con_base option \<times> vtm_http_res \<times> 's) option" where
  "http_srv_read_loop cbs mem mtx ma wpar rd cls bcon res s =
     (case bcon of
        VTM_HTTP_CON_TYPE_H1 con \<Rightarrow>
          (case vtm_http_con_read rd mem ma con s of
             None \<Rightarrow> None
           | Some (stat, con, s) \<Rightarrow>
               if stat = VTM_NET_RECV_STAT_AGAIN then Some (Some (VTM_HTTP_CON_TYPE_H1 con), res, s)
               else if stat = VTM_NET_RECV_STAT_COMPLETE
               then (case vtm_http_srv_http_handle_request cbs mem mtx ma wpar cls con res s of
                       None \<Rightarrow> None
                     | Some (again, bcon, res, s) \<Rightarrow>
                         if \<not> again then Some (bcon, res, s)
                         else case bcon of None \<Rightarrow> None | Some bcon \<Rightarrow> http_srv_read_loop cbs mem mtx ma wpar rd cls bcon res s)
               else Some (Some (VTM_HTTP_CON_TYPE_H1 con), res, cls s))
      | VTM_HTTP_CON_TYPE_WS con \<Rightarrow>
          (case ws_con_can_read rd ma con s of
             None \<Rightarrow> None
           | Some (stat, con, s) \<Rightarrow>
               if stat = VTM_NET_RECV_STAT_AGAIN then Some (Some (VTM_HTTP_CON_TYPE_WS con), res, s)
               else if stat = VTM_NET_RECV_STAT_COMPLETE
               then (let (again, con, s) = vtm_http_srv_ws_handle_request cbs ma con s
                     in if \<not> again then Some (Some (VTM_HTTP_CON_TYPE_WS con), res, s)
                        else http_srv_read_loop cbs mem mtx ma wpar rd cls (VTM_HTTP_CON_TYPE_WS con) res s)
               else Some (Some (VTM_HTTP_CON_TYPE_WS con), res, cls s)))"

definition vtm_http_srv_sock_can_read ::
    "'s vtm_http_srv_cbs \<Rightarrow> bool \<Rightarrow> bool \<Rightarrow> allocator \<Rightarrow> vtm_ws_parser \<Rightarrow> 's sock_read \<Rightarrow> ('s \<Rightarrow> 's) \<Rightarrow> vtm_http_con_base option \<Rightarrow> vtm_http_res \<Rightarrow> 's
     \<Rightarrow> (vtm_http_con_base option \<times> vtm_http_res \<times> 's) option" where
  "vtm_http_srv_sock_can_read cbs mem mtx ma wpar rd cls con res s =
     (case con of None \<Rightarrow> None | Some bcon \<Rightarrow> http_srv_read_loop cbs mem mtx ma wpar rd cls bcon res s)"

definition vtm_http_srv_sock_can_write ::
    "'s sock_write \<Rightarrow> ('s \<Rightarrow> 's) \<Rightarrow> ('s \<Rightarrow> 's) \<Rightarrow> (nat \<Rightarrow> byte list) \<Rightarrow> vtm_http_con_base option \<Rightarrow> 's \<Rightarrow> (vtm_http_con_base \<times> 's) option" where
  "vtm_http_srv_sock_can_write wr upd cls bufs con s =
     (case con of
        None \<Rightarrow> None
      | Some bcon \<Rightarrow>
          map_option (\<lambda>(rc, bcon, s). (bcon, if rc \<noteq> VTM_OK \<and> rc \<noteq> VTM_E_IO_AGAIN then cls s else s))
            (case bcon of
               VTM_HTTP_CON_TYPE_H1 con \<Rightarrow> map_option (\<lambda>(rc, con, s). (rc, VTM_HTTP_CON_TYPE_H1 con, s)) (vtm_http_con_write wr bufs con s)
             | VTM_HTTP_CON_TYPE_WS con \<Rightarrow> map_option (\<lambda>(rc, con, s). (rc, VTM_HTTP_CON_TYPE_WS con, s)) (vtm_ws_con_write wr upd con s)))"

text \<open>What is released when a socket is closed: the connection, which keeps its pending emitters, and its buffers.\<close>

definition vtm_http_srv_sock_unregister ::
    "'s vtm_http_srv_cbs \<Rightarrow> vtm_http_con_base option \<Rightarrow> 's \<Rightarrow> vtm_buf list \<times> 's" where
  "vtm_http_srv_sock_unregister cbs con s =
     (case con of
        None \<Rightarrow> ([], s)
      | Some (VTM_HTTP_CON_TYPE_H1 con) \<Rightarrow> ([hn_recvbuf con], s)
      | Some (VTM_HTTP_CON_TYPE_WS con) \<Rightarrow>
          (let (con, s) = (case cb_ws_close cbs of None \<Rightarrow> (con, s) | Some cb \<Rightarrow> cb con s) in (fst (vtm_ws_con_free con), s)))"

definition vtm_http_srv_sock_closed :: "'s vtm_http_srv_cbs \<Rightarrow> vtm_http_con_base option \<Rightarrow> 's \<Rightarrow> vtm_buf list \<times> 's" where
  "vtm_http_srv_sock_closed cbs con s = vtm_http_srv_sock_unregister cbs con s"

text \<open>Stopping: the pointer that is tested is the server, not its stream server; \<open>None\<close> when that is a null pointer.\<close>

definition vtm_http_srv_stop :: "('v \<Rightarrow> vtm_rc \<times> 'v) \<Rightarrow> 'v option \<Rightarrow> (vtm_rc \<times> 'v option) option" where
  "vtm_http_srv_stop stop sock_srv = map_option (\<lambda>v. map_prod id Some (stop v)) sock_srv"

subsection \<open>A request is answered\<close>

text \<open>
  A socket that delivers at once what has arrived, and afterwards reports that there is nothing more; reading leaves alone what \<open>got\<close> looks at.
\<close>

definition byte_burst :: "'s sock_read \<Rightarrow> ('s \<Rightarrow> byte list) \<Rightarrow> ('s \<Rightarrow> 'g) \<Rightarrow> bool" where
  "byte_burst rd rest got \<longleftrightarrow>
     (\<forall>n s. length (rest s) \<le> n \<longrightarrow> (\<exists>s'. rd n s = ((if rest s = [] then VTM_E_IO_AGAIN else VTM_OK, rest s), s') \<and> rest s' = [] \<and> got s' = got s))"

text \<open>A handler that answers every request with the same response of fixed length.\<close>

definition http_answer ::
    "allocator \<Rightarrow> (nat \<Rightarrow> byte list) \<Rightarrow> 's sock_write \<Rightarrow> c_tm \<Rightarrow> u32 \<Rightarrow> (cstr \<times> cstr) list \<Rightarrow> byte list list
     \<Rightarrow> vtm_http_req \<Rightarrow> vtm_http_res \<Rightarrow> vtm_socket_emitter list \<Rightarrow> 's \<Rightarrow> (vtm_http_res \<times> vtm_socket_emitter list \<times> 's) option" where
  "http_answer ma bufs wr now status hs ps req res se s =
     map_option (\<lambda>(rc, res, chain, s). (res, if chain = [] then se else chain, s))
       (http_respond ma bufs True True wr now VTM_HTTP_RES_MODE_FIXED status hs ps res s)"

text \<open>What happens to the connection when the handler does not say.\<close>

definition http_default_act :: "vtm_http_version \<Rightarrow> (cstr \<times> cstr) list \<Rightarrow> vtm_http_res_act" where
  "http_default_act ver hs =
     (case ver of
        VTM_HTTP_VER_1_0 \<Rightarrow> VTM_HTTP_RES_ACT_CLOSE_CON
      | VTM_HTTP_VER_1_1 \<Rightarrow>
          if (case http_fields hs Map.empty (ds_norm True VTM_HTTP_HEADER_CONNECTION) of None \<Rightarrow> False | Some v \<Rightarrow> vtm_str_casecmp v VTM_HTTP_VALUE_CLOSE = 0)
          then VTM_HTTP_RES_ACT_CLOSE_CON else VTM_HTTP_RES_ACT_KEEP_CON)"

text \<open>Reading into a buffer that is empty: all bytes are put into it.\<close>

lemma con_read_burst:
  assumes "byte_burst rd rest got" "\<forall>m. ma m" "\<not> hn_clear con" "buf_room (hn_recvbuf con) (512 + length (rest s))" "length (rest s) \<le> 512"
  obtains l d s' where "vtm_http_con_read rd mem ma con s =
      map_option (\<lambda>(stat, par, b). (stat, con\<lparr>hn_parser := par, hn_recvbuf := b\<rparr>, s'))
        (vtm_http_parser_run mem ma (hn_parser con) (VTM_BUF_PUT_INC ((hn_recvbuf con)\<lparr>buf_len := l, buf_dyn := d\<rparr>) (rest s)))"
    "buf_room (VTM_BUF_PUT_INC ((hn_recvbuf con)\<lparr>buf_len := l, buf_dyn := d\<rparr>) (rest s)) 512" "rest s' = []" "got s' = got s"
proof -
  define b where "b = hn_recvbuf con"
  have u: "unat (512 :: size_t) = 512" by simp
  obtain l d where e: "vtm_buf_ensure ma b 512 = (VTM_OK, b\<lparr>buf_len := l, buf_dyn := d\<rparr>)"
    "buf_room (b\<lparr>buf_len := l, buf_dyn := d\<rparr>) (512 + length (rest s))" "512 \<le> unat (VTM_BUF_PUT_AVAIL_TOTAL (b\<lparr>buf_len := l, buf_dyn := d\<rparr>))"
    using ensure_room [of b 512 "length (rest s)" ma] assms(2,4) unfolding u b_def by blast
  define b0 where "b0 = b\<lparr>buf_len := l, buf_dyn := d\<rparr>"
  have fits: "length (rest s) \<le> unat (VTM_BUF_PUT_AVAIL_TOTAL b0)" using e(3) assms(5) by (simp add: b0_def)
  with assms(1) obtain s' where r: "rd (unat (VTM_BUF_PUT_AVAIL_TOTAL b0)) s = ((if rest s = [] then VTM_E_IO_AGAIN else VTM_OK, rest s), s')"
    "rest s' = []" "got s' = got s" unfolding byte_burst_def by blast
  have "buf_room b0 (length (rest s) + 512)" using e(2) by (simp add: b0_def add.commute)
  note p = put_inc_room(2) [OF this fits]
  have "vtm_http_con_read rd mem ma con s =
      map_option (\<lambda>(stat, par, b). (stat, con\<lparr>hn_parser := par, hn_recvbuf := b\<rparr>, s')) (vtm_http_parser_run mem ma (hn_parser con) (VTM_BUF_PUT_INC b0 (rest s)))"
    using assms(3) e(1) r(1) by (simp add: vtm_http_con_read_def b_def [symmetric] b0_def [symmetric])
  then show thesis using p r(2,3) by (intro that [of s' d l]) (simp_all add: b0_def b_def)
qed

text \<open>A buffer that has been cleared, whatever was in it before.\<close>

lemma clear_room:
  assumes "vtm_buf_inv b" "unat (buf_len b) \<le> 2 ^ 62" "n \<le> 2 ^ 60"
  shows "buf_room (vtm_buf_clear b) n" "buf_data (vtm_buf_clear b) = []"
  using assms by (auto simp: buf_room_def vtm_buf_inv_def vtm_buf_clear_def)

lemma prepare_act:
  assumes "ds_fields ds (http_fields hs Map.empty)" "hq_headers req = Some ds \<or> hq_headers req = None \<and> ds = vtm_dataset_newh VTM_DS_HINT_IGNORE_CASE"
  obtains req' where "vtm_http_res_prepare ma res req =
    Inr (res\<lparr>he_version := hq_version req, he_mode := VTM_HTTP_RES_MODE_FIXED, he_stage := VTM_HTTP_RES_STAGE_UNINITIALZED,
      he_buf := vtm_buf_clear (he_buf res), he_body_buf := vtm_buf_clear (he_body_buf res), he_body_se := [], he_act_data := None,
      he_act := http_default_act (hq_version req) hs\<rparr>, req')"
proof -
  have nn: "no_nul VTM_HTTP_HEADER_CONNECTION" by (simp add: VTM_HTTP_HEADER_CONNECTION_def bytes_of_def no_nul_def byte_of_def)
  define f where "f = http_fields hs Map.empty (ds_norm True VTM_HTTP_HEADER_CONNECTION)"
  obtain ds' where ds': "vtm_dataset_get_string ma ds VTM_HTTP_HEADER_CONNECTION = Inr (f, ds')"
    unfolding f_def by (rule ds_fields_get_string [OF assms(1) nn, of ma])
  have "\<exists>req'. vtm_http_req_get_header_str ma req VTM_HTTP_HEADER_CONNECTION = Inr (f, req')"
  proof (cases "hq_headers req")
    case None
    then have "f = None" using assms nn ds_strings_init(2) [OF nn] by (auto simp: f_def ds_fields_def)
    with None show ?thesis by (simp add: vtm_http_req_get_header_str_def)
  next
    case (Some d)
    with assms(2) ds' show ?thesis by (simp add: vtm_http_req_get_header_str_def)
  qed
  then obtain req' where "vtm_http_req_get_header_str ma req VTM_HTTP_HEADER_CONNECTION = Inr (f, req')" by blast
  then show thesis
    using that [of req] that [of req']
    by (cases "hq_version req") (simp_all add: vtm_http_res_prepare_def http_default_act_def f_def Let_def)
qed

text \<open>A request in the receive buffer of a new connection is read.\<close>

lemma con_read_request:
  assumes "byte_burst rd rest got" and ma: "\<forall>m. ma m" and new: "vtm_http_con_new True par0 = Some con"
    and req: "rest s = http_head m path ver hs" "length (rest s) \<le> 512"
    and m: "vtm_http_get_method m = Some meth" and path: "no_nul path" "32 \<notin> set path" "63 \<notin> set path" and hs: "list_all http_line_ok hs"
    and no: "http_fields hs Map.empty (ds_norm True VTM_HTTP_HEADER_TRANSFER_ENCODING) = None"
      "http_fields hs Map.empty (ds_norm True VTM_HTTP_HEADER_CONTENT_LENGTH) = None"
  obtains con1 req con2 ds s1 where "vtm_http_con_read rd True ma con s = Some (VTM_NET_RECV_STAT_COMPLETE, con1, s1)" "rest s1 = []" "got s1 = got s"
    "vtm_http_con_get_request con1 = Some (VTM_OK, Some req, con2)" "hq_version req = ver" "hq_path req = path" "hq_method req = meth"
    "ds_fields ds (http_fields hs Map.empty)" "hq_headers req = Some ds \<or> hq_headers req = None \<and> ds = vtm_dataset_newh VTM_DS_HINT_IGNORE_CASE"
    "hn_clear con2" "hn_emitter con2 = []" "hp_state (hn_parser con2) = VTM_HTTP_PARSE_BEGIN" "buf_room (hn_recvbuf con2) 512" "buf_unread (hn_recvbuf con2) = []"
proof -
  have c: "hn_recvbuf con = vtm_buf_init VTM_BYTEORDER_LE" "hn_parser con = vtm_http_parser_init par0 VTM_HTTP_PM_REQUEST" "hn_emitter con = []" "\<not> hn_clear con"
    using new by (auto simp: vtm_http_con_new_def)
  have room: "buf_room (hn_recvbuf con) (512 + length (rest s))" unfolding c(1) by (rule buf_room_init) (use req(2) in simp)
  obtain l d s1 where rd: "vtm_http_con_read rd True ma con s =
      map_option (\<lambda>(stat, par, b). (stat, con\<lparr>hn_parser := par, hn_recvbuf := b\<rparr>, s1))
        (vtm_http_parser_run True ma (hn_parser con) (VTM_BUF_PUT_INC ((hn_recvbuf con)\<lparr>buf_len := l, buf_dyn := d\<rparr>) (rest s)))"
    "buf_room (VTM_BUF_PUT_INC ((hn_recvbuf con)\<lparr>buf_len := l, buf_dyn := d\<rparr>) (rest s)) 512" "rest s1 = []" "got s1 = got s"
    by (rule con_read_burst [OF assms(1) ma c(4) room req(2), of True])
  define b where "b = VTM_BUF_PUT_INC ((hn_recvbuf con)\<lparr>buf_len := l, buf_dyn := d\<rparr>) (rest s)"
  have b: "vtm_buf_inv b" "buf_read b = 0" "buf_data b = http_head m path ver hs @ []"
    using rd(2) by (simp_all add: b_def [symmetric] buf_room_def) (simp_all add: b_def VTM_BUF_PUT_INC_def c(1) vtm_buf_init_def req(1))
  have len: "length (http_head m path ver hs) \<le> 8192" using req by simp
  from http_parse_request_buf [OF b m path hs len ma no, of par0] obtain par b' off pre where
    r: "vtm_http_parser_run True ma (vtm_http_parser_init par0 VTM_HTTP_PM_REQUEST) b = Some (VTM_NET_RECV_STAT_COMPLETE, par, b')"
    "hp_req_method par = meth" "hp_version par = ver" "hp_req_path par = Some off" "buf_cstr off b' = Some path"
    "ds_fields (http_header_dataset par) (http_fields hs Map.empty)" "buf_unread b' = []" "hp_state par = VTM_HTTP_PARSE_COMPLETE"
    "b' = hbuf b pre []" "hbuf_ok b pre []" by blast
  have inv': "vtm_buf_inv b'" using r(9,10) b(1) by (auto simp: hbuf_def hbuf_ok_def vtm_buf_inv_def)
  then have room': "buf_room b' 512" using rd(2) r(9) by (simp add: b_def [symmetric] buf_room_def hbuf_def)
  define con1 where "con1 = con\<lparr>hn_parser := par, hn_recvbuf := b'\<rparr>"
  show thesis
    using rd(1,3,4) r(1-6,7,8) room' c(2,3)
    by (intro that [of con1 s1 "\<lparr>hq_method = meth, hq_version = ver, hq_path = path, hq_headers = hp_headers par, hq_params = hp_req_params par\<rparr>"
          "con1\<lparr>hn_clear := True, hn_parser := vtm_http_parser_reset par\<rparr>" "http_header_dataset par"])
      (auto simp: b_def [symmetric] con1_def vtm_http_con_get_request_def vtm_http_parser_reset_def http_header_dataset_def split: option.split)
qed

text \<open>After the request: the buffer is cleared, and there is nothing to read.\<close>

lemma con_read_idle:
  assumes "byte_burst rd rest got" "\<forall>m. ma m" "hn_clear con" "hp_state (hn_parser con) = VTM_HTTP_PARSE_BEGIN"
    and "buf_room (hn_recvbuf con) 512" "buf_unread (hn_recvbuf con) = []" "rest s = []"
  obtains con' s' where "vtm_http_con_read rd True ma con s = Some (VTM_NET_RECV_STAT_AGAIN, con', s')" "hn_emitter con' = hn_emitter con" "got s' = got s"
proof -
  define con0 where "con0 = con\<lparr>hn_clear := False, hn_recvbuf := vtm_buf_discard_processed (hn_recvbuf con)\<rparr>"
  have eq: "vtm_http_con_read rd True ma con s = vtm_http_con_read rd True ma con0 s"
    using assms(3) by (simp add: vtm_http_con_read_def con0_def)
  note d = discard_room [OF assms(5)]
  have c0: "\<not> hn_clear con0" "buf_room (hn_recvbuf con0) (512 + length (rest s))" "length (rest s) \<le> 512"
    using d(1) assms(7) by (simp_all add: con0_def)
  obtain l dd s' where r: "vtm_http_con_read rd True ma con0 s =
      map_option (\<lambda>(stat, par, b). (stat, con0\<lparr>hn_parser := par, hn_recvbuf := b\<rparr>, s'))
        (vtm_http_parser_run True ma (hn_parser con0) (VTM_BUF_PUT_INC ((hn_recvbuf con0)\<lparr>buf_len := l, buf_dyn := dd\<rparr>) (rest s)))"
    "buf_room (VTM_BUF_PUT_INC ((hn_recvbuf con0)\<lparr>buf_len := l, buf_dyn := dd\<rparr>) (rest s)) 512" "got s' = got s"
    by (rule con_read_burst [OF assms(1,2) c0, of True])
  define b where "b = VTM_BUF_PUT_INC ((hn_recvbuf con0)\<lparr>buf_len := l, buf_dyn := dd\<rparr>) (rest s)"
  have "buf_data b = []" using d(2) assms(6,7) by (simp add: b_def con0_def VTM_BUF_PUT_INC_def)
  then have "VTM_BUF_GET_AVAIL_TOTAL b = 0"
    using unread_nil_iff [of b] r(2) by (simp add: b_def [symmetric] buf_room_def buf_unread_def)
  then have "vtm_http_parser_run True ma (hn_parser con0) b = Some (VTM_NET_RECV_STAT_AGAIN, hn_parser con0, b)"
    using assms(4) by (simp add: vtm_http_parser_run_def con0_def)
  with r eq show thesis by (intro that [of "con0\<lparr>hn_recvbuf := b\<rparr>" s']) (simp_all add: b_def [symmetric], simp_all add: con0_def)
qed

text \<open>
  C18. A request is answered. When a new connection of a server gets a request without a body and without a query in one piece of at
  most 512 bytes, and the handler answers with a status, header fields and a body, then the call for the readable socket returns. What
  has been sent is a prefix of the response, for the version of the request; when the response is marked as sent, what has been sent and what
  is pending with the connection are exactly the response; and a socket that takes it at once has got all of it. The socket is closed when
  the response could not be sent, when the request has version 1.0 or asks for it, and stays open otherwise; it is closed even
  when a rest of the response is pending.
\<close>

theorem http_server_answers:
  assumes rd: "byte_burst rd rest (\<lambda>s. (sent s, closed s))" and wr: "byte_sink wr sent"
    and keep: "\<forall>bs s x s'. wr bs s = Some (x, s') \<longrightarrow> rest s' = rest s \<and> closed s' = closed s"
    and cls: "\<forall>s. sent (cls s) = sent s \<and> closed (cls s)" and ma: "\<forall>m. ma m"
    and con: "vtm_http_srv_sock_connected True par0 (\<lambda>s. s) s0 = (con, s)"
    and req: "rest s = http_head m path ver hs" "length (rest s) \<le> 512"
    and m: "vtm_http_get_method m = Some meth" and path: "no_nul path" "32 \<notin> set path" "63 \<notin> set path" and hs: "list_all http_line_ok hs"
    and no: "http_fields hs Map.empty (ds_norm True VTM_HTTP_HEADER_TRANSFER_ENCODING) = None"
      "http_fields hs Map.empty (ds_norm True VTM_HTTP_HEADER_CONTENT_LENGTH) = None"
    and date: "vtm_http_fmt_date VTM_HTTP_DATE_LEN (vtm_date_now_utc now) = Some (VTM_OK, date)"
    and bytes: "bytes = http_res_head (res\<lparr>he_version := ver\<rparr>) VTM_HTTP_RES_MODE_FIXED status date fs
      @ http_field VTM_HTTP_HEADER_CONTENT_LENGTH (nat_dec (length (concat ps))) @ http_con_line (http_default_act ver hs) @ http_crlf @ concat ps"
    and res: "vtm_buf_inv (he_buf res)" "unat (buf_len (he_buf res)) \<le> 2 ^ 62" "vtm_buf_inv (he_body_buf res)" "unat (buf_len (he_body_buf res)) \<le> 2 ^ 62"
      "length bytes \<le> 2 ^ 60"
    and cb: "cb_http_request cbs = http_answer ma bufs wr now status fs ps" and status: "- 1000000000 < sint status"
  shows "\<exists>con' res' s'. vtm_http_srv_sock_can_read cbs True mtx ma wpar rd cls con res s = Some (Some (VTM_HTTP_CON_TYPE_H1 con'), res', s')
    \<and> prefix (sent s') (sent s @ bytes)
    \<and> (vtm_http_res_was_sent res' \<longrightarrow> sent s' @ chain_pending (bufs(0 := buf_data (he_buf res'))) (hn_emitter con') = sent s @ bytes)
    \<and> (closed s' \<longleftrightarrow> closed s \<or> \<not> vtm_http_res_was_sent res' \<or> http_default_act ver hs = VTM_HTTP_RES_ACT_CLOSE_CON)
    \<and> ((\<forall>s. \<exists>s1. wr bytes s = Some ((VTM_OK, length bytes), s1)) \<longrightarrow>
         vtm_http_res_was_sent res' \<and> hn_emitter con' = [] \<and> sent s' = sent s @ bytes)"
proof -
  obtain con0 where c0: "con = Some (VTM_HTTP_CON_TYPE_H1 con0)" "vtm_http_con_new True par0 = Some con0"
    using con by (auto simp: vtm_http_srv_sock_connected_def vtm_http_srv_con_create_def vtm_http_con_new_def)
  obtain con1 rq con2 ds s1 where r: "vtm_http_con_read rd True ma con0 s = Some (VTM_NET_RECV_STAT_COMPLETE, con1, s1)" "rest s1 = []"
    "(sent s1, closed s1) = (sent s, closed s)"
    "vtm_http_con_get_request con1 = Some (VTM_OK, Some rq, con2)" "hq_version rq = ver"
    "ds_fields ds (http_fields hs Map.empty)" "hq_headers rq = Some ds \<or> hq_headers rq = None \<and> ds = vtm_dataset_newh VTM_DS_HINT_IGNORE_CASE"
    "hn_clear con2" "hn_emitter con2 = []" "hp_state (hn_parser con2) = VTM_HTTP_PARSE_BEGIN" "buf_room (hn_recvbuf con2) 512" "buf_unread (hn_recvbuf con2) = []"
    by (rule con_read_request [OF rd ma c0(2) req m path hs no])
  define res1 where "res1 = res\<lparr>he_version := ver, he_mode := VTM_HTTP_RES_MODE_FIXED, he_stage := VTM_HTTP_RES_STAGE_UNINITIALZED,
      he_buf := vtm_buf_clear (he_buf res), he_body_buf := vtm_buf_clear (he_body_buf res), he_body_se := [], he_act_data := None,
      he_act := http_default_act ver hs\<rparr>"
  obtain rq' where pr: "vtm_http_res_prepare ma res rq = Inr (res1, rq')"
    using prepare_act [OF r(6,7), of ma res] r(5) unfolding res1_def by metis
  have len: "length (concat ps) \<le> 2 ^ 60" using res(5) by (simp add: bytes)
  have b1: "bytes = http_res_head res1 VTM_HTTP_RES_MODE_FIXED status date fs
      @ http_field VTM_HTTP_HEADER_CONTENT_LENGTH (nat_dec (length (concat ps))) @ http_con_line (he_act res1) @ http_crlf @ concat ps"
    by (simp add: bytes res1_def http_res_head_def)
  have res1: "he_stage res1 = VTM_HTTP_RES_STAGE_UNINITIALZED" "he_body_se res1 = []" "buf_data (he_body_buf res1) = []"
    "buf_data (he_buf res1) = []" "buf_room (he_buf res1) (length bytes)" "buf_room (he_body_buf res1) (length (concat ps))"
    using clear_room [OF res(1,2,5)] clear_room [OF res(3,4) len] by (simp_all add: res1_def)
  from fixed_response [OF res1(1-3) ma wr date b1 res1(4-6) status, of bufs s1] obtain rc res2 chain s2 bs x where
    f: "http_respond ma bufs True True wr now VTM_HTTP_RES_MODE_FIXED status fs ps res1 s1 = Some (rc, res2, chain, s2)"
    "rc = VTM_OK \<longrightarrow> vtm_http_res_was_sent res2 \<and> sent s2 @ chain_pending (bufs(0 := buf_data (he_buf res2))) chain = sent s1 @ bytes"
    "prefix (sent s2) (sent s1 @ bytes)" "wr bs s1 = Some (x, s2)" "he_act res2 = he_act res1"
    "rc \<noteq> VTM_OK \<longrightarrow> \<not> vtm_http_res_was_sent res2" "\<forall>n s2. wr bytes s1 = Some ((VTM_OK, n), s2) \<longrightarrow> rc = VTM_OK \<and> chain = []" by blast
  have all: "vtm_http_res_was_sent res2 \<and> chain = [] \<and> sent s2 = sent s1 @ bytes" if "\<forall>s. \<exists>s1. wr bytes s = Some ((VTM_OK, length bytes), s1)"
  proof -
    from that f(7) have "rc = VTM_OK \<and> chain = []" by blast
    with f(2) show ?thesis by (simp add: chain_pending_def)
  qed
  have ac: "he_act res2 = http_default_act ver hs" using f(5) by (simp add: res1_def)
  have st: "rest s2 = []" "sent s1 = sent s" "closed s1 = closed s" "closed s2 = closed s" using keep [rule_format, OF f(4)] r(2,3) by simp_all
  define con3 where "con3 = con2\<lparr>hn_emitter := chain\<rparr>"
  have c3: "hn_clear con3" "hp_state (hn_parser con3) = VTM_HTTP_PARSE_BEGIN" "buf_room (hn_recvbuf con3) 512" "buf_unread (hn_recvbuf con3) = []"
    using r(8,10-12) by (simp_all add: con3_def)
  have ans: "cb_http_request cbs rq' res1 (hn_emitter con2) s1 = Some (res2, chain, s2)"
    using f(1) r(9) by (simp add: cb http_answer_def)
  define act where "act = (if \<not> vtm_http_res_was_sent res2 then VTM_HTTP_RES_ACT_CLOSE_CON else http_default_act ver hs)"
  have "act \<noteq> VTM_HTTP_RES_ACT_UPGRADE_WS" by (simp add: act_def http_default_act_def split: vtm_http_version.split)
  then consider "act = VTM_HTTP_RES_ACT_CLOSE_CON" | "act = VTM_HTTP_RES_ACT_KEEP_CON" by (cases act) auto
  then show ?thesis
  proof cases
    case 1
    then have "vtm_http_srv_http_handle_request cbs True mtx ma wpar cls con1 res s1 = Some (False, Some (VTM_HTTP_CON_TYPE_H1 con3), res2, cls s2)"
      using r(4) pr ans ac
      by (simp add: vtm_http_srv_http_handle_request_def vtm_http_con_set_emitter_def con3_def act_def vtm_http_res_get_action_def Let_def split: if_splits)
    with r(1) c0(1) have "vtm_http_srv_sock_can_read cbs True mtx ma wpar rd cls con res s = Some (Some (VTM_HTTP_CON_TYPE_H1 con3), res2, cls s2)"
      by (simp add: vtm_http_srv_sock_can_read_def http_srv_read_loop.simps)
    with 1 f cls st all show ?thesis by (auto simp: con3_def act_def split: if_splits)
  next
    case 2
    then have "vtm_http_srv_http_handle_request cbs True mtx ma wpar cls con1 res s1 = Some (True, Some (VTM_HTTP_CON_TYPE_H1 con3), res2, s2)"
      using r(4) pr ans ac
      by (simp add: vtm_http_srv_http_handle_request_def vtm_http_con_set_emitter_def con3_def act_def vtm_http_res_get_action_def Let_def split: if_splits)
    moreover obtain con4 s4 where i: "vtm_http_con_read rd True ma con3 s2 = Some (VTM_NET_RECV_STAT_AGAIN, con4, s4)"
      "hn_emitter con4 = hn_emitter con3" "(sent s4, closed s4) = (sent s2, closed s2)"
      by (rule con_read_idle [OF rd ma c3 st(1)])
    ultimately have "vtm_http_srv_sock_can_read cbs True mtx ma wpar rd cls con res s = Some (Some (VTM_HTTP_CON_TYPE_H1 con4), res2, s4)"
      using r(1) c0(1) by (simp add: vtm_http_srv_sock_can_read_def http_srv_read_loop.simps)
    with 2 f i(2,3) st all show ?thesis by (auto simp: con3_def act_def split: if_splits)
  qed
qed

text \<open>A socket as the bytes that have arrived, those that were sent, and whether it is closed; it takes everything.\<close>

definition pipe_read :: "(byte list \<times> byte list \<times> bool) sock_read" where
  "pipe_read n s = ((if fst s = [] then VTM_E_IO_AGAIN else VTM_OK, take n (fst s)), (drop n (fst s), snd s))"

definition pipe_write :: "(byte list \<times> byte list \<times> bool) sock_write" where
  "pipe_write bs s = Some ((VTM_OK, length bs), (fst s, fst (snd s) @ bs, snd (snd s)))"

definition pipe_close :: "byte list \<times> byte list \<times> bool \<Rightarrow> byte list \<times> byte list \<times> bool" where
  "pipe_close s = (fst s, fst (snd s), True)"

lemma pipe_laws:
  "byte_burst pipe_read fst (\<lambda>s. (fst (snd s), snd (snd s)))" "byte_sink pipe_write (\<lambda>s. fst (snd s))"
  "\<forall>bs s x s'. pipe_write bs s = Some (x, s') \<longrightarrow> fst s' = fst s \<and> snd (snd s') = snd (snd s)"
  "\<forall>s. fst (snd (pipe_close s)) = fst (snd s) \<and> snd (snd (pipe_close s))"
  by (auto simp: byte_burst_def pipe_read_def byte_sink_def pipe_write_def pipe_close_def split: if_splits)

definition sample_cbs :: "(byte list \<times> byte list \<times> bool) vtm_http_srv_cbs" where
  "sample_cbs = \<lparr>cb_http_request = http_answer alloc_all (\<lambda>n. []) pipe_write sample_now 200 sample_hs sample_ps,
     cb_ws_connect = None, cb_ws_message = None, cb_ws_close = None\<rparr>"

definition sample_bytes :: "byte list" where
  "sample_bytes = http_res_head sample_res VTM_HTTP_RES_MODE_FIXED 200 sample_date sample_hs
     @ http_field VTM_HTTP_HEADER_CONTENT_LENGTH (nat_dec (length (concat sample_ps))) @ http_con_line VTM_HTTP_RES_ACT_CLOSE_CON @ http_crlf @ concat sample_ps"

abbreviation sample_req :: "(cstr \<times> cstr) list" where "sample_req \<equiv> [(bytes_of ''Connection'', bytes_of ''close'')]"

lemma sample_close: "http_default_act VTM_HTTP_VER_1_1 sample_req = VTM_HTTP_RES_ACT_CLOSE_CON"
  by code_simp

theorem http_server_answers_witness:
  "\<exists>con' res' s'. vtm_http_srv_sock_can_read sample_cbs True True alloc_all undefined pipe_read pipe_close
        (fst (vtm_http_srv_sock_connected True undefined (\<lambda>s. s) ([] :: byte list))) sample_res
        (bytes_of ''GET / HTTP/1.1'' @ [13, 10] @ bytes_of ''Connection: close'' @ [13, 10, 13, 10], [], False)
      = Some (Some (VTM_HTTP_CON_TYPE_H1 con'), res', s')
    \<and> vtm_http_res_was_sent res' \<and> hn_emitter con' = [] \<and> fst (snd s') = sample_bytes \<and> snd (snd s')"
proof -
  let ?s = "(http_head (bytes_of ''GET'') (bytes_of ''/'') VTM_HTTP_VER_1_1 sample_req, [] :: byte list, False)"
  have d: "bytes_of ''GET / HTTP/1.1'' @ [13, 10] @ bytes_of ''Connection: close'' @ [13, 10, 13, 10] = fst ?s"
    by (simp add: http_head_def http_minor_def http_line_def bytes_of_def)
  have all: "\<forall>n. alloc_all n" by (simp add: alloc_all_def)
  have len: "length (fst ?s) \<le> 512" unfolding d [symmetric] by (simp add: bytes_of_def)
  have con: "vtm_http_srv_sock_connected True undefined (\<lambda>s. s) ?s
      = (fst (vtm_http_srv_sock_connected True undefined (\<lambda>s. s) ([] :: byte list)), ?s)"
    by (simp add: vtm_http_srv_sock_connected_def)
  have m: "vtm_http_get_method (bytes_of ''GET'') = Some VTM_HTTP_METHOD_GET" by (simp add: http_methods_simps bytes_of_def)
  have slash: "no_nul (bytes_of ''/'')" "32 \<notin> set (bytes_of ''/'')" "63 \<notin> set (bytes_of ''/'')" by (simp_all add: bytes_of_def no_nul_def)
  have hs: "list_all http_line_ok sample_req" by (simp add: http_line_ok_def bytes_of_def)
  have no: "http_fields sample_req Map.empty (ds_norm True VTM_HTTP_HEADER_TRANSFER_ENCODING) = None"
    "http_fields sample_req Map.empty (ds_norm True VTM_HTTP_HEADER_CONTENT_LENGTH) = None"
    by (simp_all add: ds_norm_def bytes_of_def http_names c_tolower_def)
  have bytes: "sample_bytes = http_res_head (sample_res\<lparr>he_version := VTM_HTTP_VER_1_1\<rparr>) VTM_HTTP_RES_MODE_FIXED 200 sample_date sample_hs
      @ http_field VTM_HTTP_HEADER_CONTENT_LENGTH (nat_dec (length (concat sample_ps))) @ http_con_line (http_default_act VTM_HTTP_VER_1_1 sample_req)
      @ http_crlf @ concat sample_ps"
    unfolding sample_close sample_bytes_def by (simp add: sample_res_def)
  have small: "length sample_bytes \<le> 1000" by code_simp
  have res: "vtm_buf_inv (he_buf sample_res)" "unat (buf_len (he_buf sample_res)) \<le> 2 ^ 62" "vtm_buf_inv (he_body_buf sample_res)"
    "unat (buf_len (he_body_buf sample_res)) \<le> 2 ^ 62" "length sample_bytes \<le> 2 ^ 60"
    using sample_room(1,2) [of 0] small by (simp_all add: buf_room_def)
  have cb: "cb_http_request sample_cbs = http_answer alloc_all (\<lambda>n. []) pipe_write sample_now 200 sample_hs sample_ps" by (simp add: sample_cbs_def)
  have take: "\<forall>s. \<exists>s1. pipe_write sample_bytes s = Some ((VTM_OK, length sample_bytes), s1)" by (simp add: pipe_write_def)
  have status: "- 1000000000 < sint (200 :: u32)" by simp
  show ?thesis unfolding d
    using http_server_answers [OF pipe_laws all con _ len m slash hs no sample_date bytes res cb status, of True undefined] sample_close take by fastforce
qed

end
