(* ===== verification/NmStream.thy ===== *)
theory NmStream
  imports NmRoundtrip SocketConnection
begin

text \<open>
  Messages over streams: the connections of \<open>net/nm/nm_stream_connection.c\<close>, the callbacks of \<open>nm_stream_server.c\<close> and the
  client of \<open>nm_stream_client.c\<close>. \<open>rd\<close> is \<open>vtm_socket_read\<close> with the space in the buffer, \<open>wr\<close> is \<open>vtm_socket_write\<close>, \<open>cls\<close>
  is \<open>vtm_socket_close\<close> and \<open>upd\<close> is \<open>vtm_socket_update_srv\<close>, all on the socket of the connection.
\<close>

subsection \<open>Connections\<close>

record vtm_nm_stream_con =
  ns_con :: vtm_socket_con
  ns_parser :: vtm_nm_parser

definition vtm_nm_stream_con_new :: "vtm_byteorder \<Rightarrow> bool \<Rightarrow> bool \<Rightarrow> vtm_nm_parser \<Rightarrow> vtm_nm_stream_con option" where
  "vtm_nm_stream_con_new host mem mtx par =
     (if \<not> mem then None
      else map_option (\<lambda>sc. \<lparr>ns_con = sc, ns_parser = vtm_nm_parser_init host par\<rparr>) (vtm_socket_con_init mtx))"

text \<open>What is released, apart from the connection itself.\<close>

definition vtm_nm_stream_con_free :: "vtm_nm_stream_con option \<Rightarrow> vtm_buf list \<times> ds_freed list" where
  "vtm_nm_stream_con_free con =
     (case con of
        None \<Rightarrow> ([], [])
      | Some con \<Rightarrow> (vtm_socket_con_release (Some (ns_con con)), fst (vtm_nm_parser_release (ns_parser con))))"

definition vtm_nm_stream_con_set_usr_data :: "vtm_nm_stream_con \<Rightarrow> nat option \<Rightarrow> vtm_nm_stream_con" where
  "vtm_nm_stream_con_set_usr_data con data = con\<lparr>ns_con := vtm_socket_con_set_usr_data (ns_con con) data\<rparr>"

definition vtm_nm_stream_con_get_usr_data :: "vtm_nm_stream_con \<Rightarrow> nat option" where
  "vtm_nm_stream_con_get_usr_data con = vtm_socket_con_get_usr_data (ns_con con)"

text \<open>The return code of \<open>vtm_nm_msg_to_buf\<close> has no value for a message without fields: \<open>None\<close> in the first place.\<close>

definition vtm_nm_stream_con_send ::
    "vtm_byteorder \<Rightarrow> allocator \<Rightarrow> 's sock_write \<Rightarrow> ('s \<Rightarrow> 's) \<Rightarrow> vtm_nm_stream_con \<Rightarrow> vtm_dataset \<Rightarrow> 's
     \<Rightarrow> (vtm_rc option \<times> vtm_nm_stream_con \<times> 's) option" where
  "vtm_nm_stream_con_send host ma wr upd con msg s =
     (case vtm_nm_msg_to_buf host ma (Some msg) (sn_sendbuf (ns_con con)) of
        None \<Rightarrow> None
      | Some (rc, b) \<Rightarrow>
          let con = con\<lparr>ns_con := (ns_con con)\<lparr>sn_sendbuf := b\<rparr>\<rparr>
          in if rc \<noteq> Some VTM_OK then Some (rc, con, s)
             else map_option (\<lambda>(rc, sc, s). (Some (if rc = VTM_E_IO_AGAIN then VTM_OK else rc), con\<lparr>ns_con := sc\<rparr>, s))
                    (vtm_socket_con_write_start wr upd (ns_con con) s))"

definition vtm_nm_stream_con_close :: "('s \<Rightarrow> vtm_rc \<times> 's) \<Rightarrow> ('s \<Rightarrow> 's) \<Rightarrow> 's \<Rightarrow> 's" where
  "vtm_nm_stream_con_close cls upd s = snd (vtm_socket_con_close cls upd s)"

definition nm_recvbuf :: "vtm_nm_stream_con \<Rightarrow> vtm_buf" where
  "nm_recvbuf con = sn_recvbuf (ns_con con)"

definition nm_set_recv :: "vtm_nm_stream_con \<Rightarrow> vtm_nm_parser \<Rightarrow> vtm_buf \<Rightarrow> vtm_nm_stream_con" where
  "nm_set_recv con par b = con\<lparr>ns_parser := par, ns_con := (ns_con con)\<lparr>sn_recvbuf := b\<rparr>\<rparr>"

text \<open>\<open>None\<close>: the loop does not end, or the parser leaves its memory.\<close>

partial_function (option) vtm_nm_stream_con_read ::
    "'s sock_read \<Rightarrow> allocator \<Rightarrow> vtm_nm_stream_con \<Rightarrow> 's \<Rightarrow> (vtm_net_recv_stat \<times> vtm_nm_stream_con \<times> 's) option" where
  "vtm_nm_stream_con_read rd ma con s =
     (let (rc, b) = vtm_buf_ensure ma (nm_recvbuf con) 1024;
          con = nm_set_recv con (ns_parser con) b
      in if rc \<noteq> VTM_OK then Some (VTM_NET_RECV_STAT_ERROR, con, s)
         else
           let ((rc, bs), s) = rd (unat (VTM_BUF_PUT_AVAIL_TOTAL b)) s;
               b = (if rc = VTM_OK then VTM_BUF_PUT_INC b bs else b);
               con = nm_set_recv con (ns_parser con) b
           in if rc \<noteq> VTM_OK \<and> rc \<noteq> VTM_E_IO_AGAIN then Some (VTM_NET_RECV_STAT_ERROR, con, s)
              else if rc = VTM_E_IO_AGAIN \<and> VTM_BUF_GET_AVAIL_TOTAL b = 0 then Some (VTM_NET_RECV_STAT_AGAIN, con, s)
              else
                case vtm_nm_parser_run ma (ns_parser con) b of
                  None \<Rightarrow> None
                | Some (stat, par, b) \<Rightarrow>
                    let con = nm_set_recv con par b
                    in if stat = VTM_NET_RECV_STAT_AGAIN \<and> rc \<noteq> VTM_E_IO_AGAIN then vtm_nm_stream_con_read rd ma con s
                       else Some (stat, con, s))"

definition vtm_nm_stream_con_write ::
    "'s sock_write \<Rightarrow> ('s \<Rightarrow> 's) \<Rightarrow> vtm_nm_stream_con \<Rightarrow> 's \<Rightarrow> (vtm_rc \<times> vtm_nm_stream_con \<times> 's) option" where
  "vtm_nm_stream_con_write wr upd con s =
     map_option (\<lambda>(rc, sc, s). (rc, con\<lparr>ns_con := sc\<rparr>, s)) (vtm_socket_con_write wr upd (ns_con con) s)"

text \<open>A null pointer when there is no message.\<close>

definition vtm_nm_stream_con_get_msg :: "vtm_nm_stream_con \<Rightarrow> vtm_dataset option \<times> vtm_nm_stream_con" where
  "vtm_nm_stream_con_get_msg con =
     (let (r, par) = vtm_nm_parser_get_msg (ns_parser con)
      in (case r of Inl rc \<Rightarrow> None | Inr msg \<Rightarrow> msg, nm_set_recv con par (vtm_buf_discard_processed (nm_recvbuf con))))"

subsection \<open>Callbacks of the server\<close>

text \<open>
  The connection is the user data of the socket; \<open>None\<close> in its place is a failed assertion. A callback of the user may use the
  connection and change the state.
\<close>

definition vtm_nm_stream_srv_sock_connected ::
    "vtm_byteorder \<Rightarrow> bool \<Rightarrow> bool \<Rightarrow> vtm_nm_parser \<Rightarrow> ('s \<Rightarrow> 's) \<Rightarrow> ('s \<Rightarrow> 's) \<Rightarrow> (vtm_nm_stream_con \<Rightarrow> 's \<Rightarrow> vtm_nm_stream_con \<times> 's) option
     \<Rightarrow> 's \<Rightarrow> vtm_nm_stream_con option \<times> 's" where
  "vtm_nm_stream_srv_sock_connected host mem mtx par cls nbl client_connect s =
     (case vtm_nm_stream_con_new host mem mtx par of
        None \<Rightarrow> (None, cls s)
      | Some con \<Rightarrow>
          (case client_connect of None \<Rightarrow> (Some con, nbl s) | Some cb \<Rightarrow> map_prod Some id (cb con (nbl s))))"

definition vtm_nm_stream_srv_sock_disconnected ::
    "(vtm_nm_stream_con \<Rightarrow> 's \<Rightarrow> vtm_nm_stream_con \<times> 's) option \<Rightarrow> vtm_nm_stream_con option \<Rightarrow> 's
     \<Rightarrow> (vtm_buf list \<times> ds_freed list) \<times> vtm_nm_stream_con option \<times> 's" where
  "vtm_nm_stream_srv_sock_disconnected client_disconnect con s =
     (let (con, s) = (case (client_disconnect, con) of (Some cb, Some c) \<Rightarrow> map_prod Some id (cb c s) | _ \<Rightarrow> (con, s))
      in (vtm_nm_stream_con_free con, None, s))"

partial_function (option) nm_srv_read_loop ::
    "'s sock_read \<Rightarrow> allocator \<Rightarrow> ('s \<Rightarrow> 's) \<Rightarrow> (vtm_dataset \<Rightarrow> vtm_nm_stream_con \<Rightarrow> 's \<Rightarrow> vtm_nm_stream_con \<times> 's) option
     \<Rightarrow> vtm_nm_stream_con \<Rightarrow> 's \<Rightarrow> (vtm_nm_stream_con \<times> 's) option" where
  "nm_srv_read_loop rd ma cls client_msg con s =
     (case vtm_nm_stream_con_read rd ma con s of
        None \<Rightarrow> None
      | Some (stat, con, s) \<Rightarrow>
          if stat = VTM_NET_RECV_STAT_ERROR \<or> stat = VTM_NET_RECV_STAT_INVALID then Some (con, cls s)
          else if stat = VTM_NET_RECV_STAT_COMPLETE
          then (let (msg, con) = vtm_nm_stream_con_get_msg con
                in case msg of
                     None \<Rightarrow> Some (con, cls s)
                   | Some m \<Rightarrow>
                       let (con, s) = (case client_msg of None \<Rightarrow> (con, s) | Some cb \<Rightarrow> cb m con s)
                       in nm_srv_read_loop rd ma cls client_msg con s)
          else Some (con, s))"

definition vtm_nm_stream_srv_sock_can_read ::
    "'s sock_read \<Rightarrow> allocator \<Rightarrow> ('s \<Rightarrow> 's) \<Rightarrow> (vtm_dataset \<Rightarrow> vtm_nm_stream_con \<Rightarrow> 's \<Rightarrow> vtm_nm_stream_con \<times> 's) option
     \<Rightarrow> vtm_nm_stream_con option \<Rightarrow> 's \<Rightarrow> (vtm_nm_stream_con \<times> 's) option" where
  "vtm_nm_stream_srv_sock_can_read rd ma cls client_msg con s =
     (case con of None \<Rightarrow> None | Some con \<Rightarrow> nm_srv_read_loop rd ma cls client_msg con s)"

definition vtm_nm_stream_srv_sock_can_write ::
    "'s sock_write \<Rightarrow> ('s \<Rightarrow> 's) \<Rightarrow> ('s \<Rightarrow> 's) \<Rightarrow> vtm_nm_stream_con option \<Rightarrow> 's \<Rightarrow> (vtm_nm_stream_con \<times> 's) option" where
  "vtm_nm_stream_srv_sock_can_write wr upd cls con s =
     (case con of
        None \<Rightarrow> None
      | Some con \<Rightarrow>
          map_option (\<lambda>(rc, con, s). (con, if rc = VTM_OK \<or> rc = VTM_E_IO_AGAIN then s else cls s)) (vtm_nm_stream_con_write wr upd con s))"

subsection \<open>The client\<close>

record vtm_nm_stream_client =
  nl_sock :: bool
  nl_buf :: vtm_buf
  nl_parser :: vtm_nm_parser
  nl_opt_recv_timeout :: u64

definition vtm_nm_stream_client_new :: "vtm_byteorder \<Rightarrow> bool \<Rightarrow> vtm_nm_parser \<Rightarrow> vtm_nm_stream_client option" where
  "vtm_nm_stream_client_new host mem par =
     (if mem then Some \<lparr>nl_sock = False, nl_buf = vtm_buf_init VTM_BYTEORDER_BE, nl_parser = vtm_nm_parser_init host par, nl_opt_recv_timeout = 0\<rparr>
      else None)"

text \<open>\<open>made\<close> says whether a socket was created; setting its timeout and connecting it are calls of the socket.\<close>

definition vtm_nm_stream_client_connect ::
    "bool \<Rightarrow> (u64 \<Rightarrow> 's \<Rightarrow> vtm_rc \<times> 's) \<Rightarrow> ('s \<Rightarrow> vtm_rc \<times> 's) \<Rightarrow> vtm_nm_stream_client \<Rightarrow> 's \<Rightarrow> vtm_rc \<times> vtm_nm_stream_client \<times> 's" where
  "vtm_nm_stream_client_connect made set_timeout connect cl s =
     (if nl_sock cl then (VTM_E_INVALID_STATE, cl, s)
      else if \<not> made then (VTM_ERROR, cl, s)
      else
        let cl = cl\<lparr>nl_sock := True\<rparr>;
            (rc, s) = (if nl_opt_recv_timeout cl > 0 then set_timeout (nl_opt_recv_timeout cl) s else (VTM_OK, s))
        in if rc \<noteq> VTM_OK then (rc, cl, s)
           else let (rc, s) = connect s in if rc = VTM_OK then (rc, cl, s) else (rc, cl\<lparr>nl_sock := False\<rparr>, s))"

definition vtm_nm_stream_client_close :: "('s \<Rightarrow> 's) \<Rightarrow> vtm_nm_stream_client \<Rightarrow> 's \<Rightarrow> vtm_rc \<times> vtm_nm_stream_client \<times> 's" where
  "vtm_nm_stream_client_close cls cl s =
     (if \<not> nl_sock cl then (VTM_E_INVALID_STATE, cl, s) else (VTM_OK, cl\<lparr>nl_sock := False\<rparr>, cls s))"

definition vtm_nm_stream_client_send ::
    "vtm_byteorder \<Rightarrow> allocator \<Rightarrow> 's sock_write \<Rightarrow> vtm_dataset \<Rightarrow> 's \<Rightarrow> (vtm_rc option \<times> 's) option" where
  "vtm_nm_stream_client_send host ma wr msg s =
     (case vtm_nm_msg_to_buf host ma (Some msg) (vtm_buf_init VTM_BYTEORDER_BE) of
        None \<Rightarrow> None
      | Some (rc, b) \<Rightarrow>
          if rc \<noteq> Some VTM_OK then Some (rc, s)
          else map_option (\<lambda>((rc, written), s).
                   (Some (if rc \<noteq> VTM_OK then rc else if written \<noteq> unat (buf_used b) then VTM_E_IO_PARTIAL else VTM_OK), s))
                 (wr (buf_data b) s))"

text \<open>The result of receiving: a return code, or a receive status in its place; \<open>parse\<close> says whether the program is at that label.\<close>

datatype nm_recv = NmRc vtm_rc | NmStat vtm_net_recv_stat

partial_function (option) nm_client_recv_loop ::
    "'s sock_read \<Rightarrow> allocator \<Rightarrow> bool \<Rightarrow> vtm_nm_stream_client \<Rightarrow> 's \<Rightarrow> (nm_recv \<times> vtm_nm_stream_client \<times> 's) option" where
  "nm_client_recv_loop rd ma parse cl s =
     (if parse
      then case vtm_nm_parser_run ma (nl_parser cl) (nl_buf cl) of
             None \<Rightarrow> None
           | Some (stat, par, b) \<Rightarrow>
               if stat = VTM_NET_RECV_STAT_AGAIN then nm_client_recv_loop rd ma False (cl\<lparr>nl_parser := par, nl_buf := b\<rparr>) s
               else if stat = VTM_NET_RECV_STAT_COMPLETE
               then Some (NmRc VTM_OK, cl\<lparr>nl_parser := par, nl_buf := vtm_buf_discard_processed b\<rparr>, s)
               else Some (NmRc VTM_ERROR, cl\<lparr>nl_parser := par, nl_buf := b\<rparr>, s)
      else
        let (rc, b) = vtm_buf_ensure ma (nl_buf cl) 512
        in if rc \<noteq> VTM_OK then Some (NmStat VTM_NET_RECV_STAT_ERROR, cl\<lparr>nl_buf := b\<rparr>, s)
           else
             let ((rc, bs), s) = rd (unat (VTM_BUF_PUT_AVAIL_TOTAL b)) s;
                 cl = cl\<lparr>nl_buf := VTM_BUF_PUT_INC b bs\<rparr>
             in if rc \<noteq> VTM_OK then Some (NmRc rc, cl, s) else nm_client_recv_loop rd ma True cl s)"

text \<open>The message of the caller is filled in place; the parser forgets it at the end, but not when there is no memory.\<close>

definition vtm_nm_stream_client_recv ::
    "vtm_byteorder \<Rightarrow> 's sock_read \<Rightarrow> allocator \<Rightarrow> vtm_nm_stream_client \<Rightarrow> vtm_dataset \<Rightarrow> 's
     \<Rightarrow> (nm_recv \<times> vtm_dataset option \<times> vtm_nm_stream_client \<times> 's) option" where
  "vtm_nm_stream_client_recv host rd ma cl msg s =
     (let cl = cl\<lparr>nl_parser := (fst (vtm_nm_parser_reset host (nl_parser cl)))\<lparr>np_msg := Some msg\<rparr>\<rparr>
      in map_option (\<lambda>(r, cl, s).
             (r, np_msg (nl_parser cl), if r = NmStat VTM_NET_RECV_STAT_ERROR then cl else cl\<lparr>nl_parser := (nl_parser cl)\<lparr>np_msg := None\<rparr>\<rparr>, s))
           (nm_client_recv_loop rd ma (VTM_BUF_GET_AVAIL_TOTAL (nl_buf cl) > 0) cl s))"

subsection \<open>A parser that stops does so on longer input\<close>

text \<open>When a step stops for another reason than missing input, it stops in the same way when more bytes are there.\<close>

definition stop_mono :: "(vtm_buf \<Rightarrow> ('p, vtm_buf) pstep) \<Rightarrow> bool" where
  "stop_mono k \<longleftrightarrow> (\<forall>b d c st s' b'. vtm_buf_inv b \<longrightarrow> buf_ext b d c \<longrightarrow> k b = PStop st s' b' \<longrightarrow> st \<noteq> VTM_NET_RECV_STAT_AGAIN \<longrightarrow>
     (\<exists>c'. buf_ext b' d c' \<and> k c = PStop st s' c'))"

named_theorems stop_intros \<open>steps that stop in the same way on a longer input\<close>

lemma stop_mono_base [stop_intros]: "stop_mono (PStop st s)" "stop_mono (\<lambda>b. PFault)" "stop_mono (PNext s)"
  by (auto simp: stop_mono_def)

lemma stop_mono_if [stop_intros]: "stop_mono k \<Longrightarrow> stop_mono k' \<Longrightarrow> stop_mono (if P then k else k')"
  by simp

lemma stop_mono_fetch [stop_intros]:
  assumes "get_mono get" and "\<And>x. stop_mono (k x)"
  shows "stop_mono (fetch get k)"
  unfolding stop_mono_def
proof (intro allI impI)
  fix b d c st s' b'
  assume "vtm_buf_inv b" and "buf_ext b d c" and "fetch get k b = PStop st s' b'" and "st \<noteq> VTM_NET_RECV_STAT_AGAIN"
  moreover from this obtain x b1 where "get b = Some (x, b1)" "k x b1 = PStop st s' b'"
    by (auto simp: fetch_def split: option.splits)
  ultimately show "\<exists>c'. buf_ext b' d c' \<and> fetch get k c = PStop st s' c'"
    using assms unfolding get_mono_def stop_mono_def fetch_def by fastforce
qed

lemma stop_mono_need:
  assumes "vtm_buf_inv b" "buf_ext b d c" "stop_mono k" "st \<noteq> VTM_NET_RECV_STAT_AGAIN"
    and "need n (PStop VTM_NET_RECV_STAT_AGAIN s x) k b = PStop st s' b'"
  shows "\<exists>c'. buf_ext b' d c' \<and> need n (PStop VTM_NET_RECV_STAT_AGAIN s y) k c = PStop st s' c'"
  using assms get_avail_ext [OF assms(1, 2), of n] by (fastforce simp: need_def stop_mono_def split: if_splits)

lemma nm_value_stop: "stop_mono (nm_parse_value ma par)"
proof -
  have "stop_mono (case r of Inl e \<Rightarrow> PStop st s | Inr x \<Rightarrow> fetch (\<lambda>b. vtm_buf_getm b n) (\<lambda>bs. PNext (f x bs)))"
    for r :: "vtm_rc + vtm_blob" and st s n and f :: "vtm_blob \<Rightarrow> byte list \<Rightarrow> vtm_nm_parser"
    by (cases r) (auto intro!: stop_intros mono_intros)
  then show ?thesis
    by (cases "np_value_type par") (auto simp: nm_parse_value_def Let_def intro!: stop_intros mono_intros)
qed

lemma nm_step_stop:
  assumes "nm_inv par b" and ext: "buf_ext b d c" and "nm_parser_step ma par b = PStop st par' b'" and "st \<noteq> VTM_NET_RECV_STAT_AGAIN"
  shows "\<exists>c'. buf_ext b' d c' \<and> nm_parser_step ma par c = PStop st par' c'"
proof -
  have inv: "vtm_buf_inv b" using assms(1) by (simp add: nm_inv_def)
  have type: "stop_mono (case r of Inl e \<Rightarrow> PStop st s | Inr t \<Rightarrow> if Q t then PNext (f t) else PNext (g t))"
    for r :: "vtm_rc + vtm_elem_type" and st Q and s :: vtm_nm_parser and f g
    by (cases r) (auto intro!: stop_intros)
  have go: ?thesis if "nm_parser_step ma par b = need n (PStop VTM_NET_RECV_STAT_AGAIN par b) k b"
    "nm_parser_step ma par c = need n (PStop VTM_NET_RECV_STAT_AGAIN par c) k c" "stop_mono k" for n k
    using stop_mono_need [OF inv ext that(3) assms(4)] assms(3) that(1, 2) by metis
  note step = nm_parser_step_def Let_def
  show ?thesis
  proof (cases "np_state par")
    case VTM_NM_PARSE_MAGIC
    show ?thesis by (rule go, simp add: step VTM_NM_PARSE_MAGIC, simp add: step VTM_NM_PARSE_MAGIC) (intro stop_intros mono_intros)
  next
    case VTM_NM_PARSE_VERSION
    show ?thesis by (rule go, simp add: step VTM_NM_PARSE_VERSION, simp add: step VTM_NM_PARSE_VERSION) (intro stop_intros mono_intros)
  next
    case VTM_NM_PARSE_FIELD_COUNT
    show ?thesis by (rule go, simp add: step VTM_NM_PARSE_FIELD_COUNT, simp add: step VTM_NM_PARSE_FIELD_COUNT) (intro stop_intros mono_intros)
  next
    case VTM_NM_PARSE_NAME_LEN
    show ?thesis by (rule go, simp add: step VTM_NM_PARSE_NAME_LEN, simp add: step VTM_NM_PARSE_NAME_LEN) (intro stop_intros mono_intros)
  next
    case VTM_NM_PARSE_NAME
    show ?thesis by (rule go, simp add: step VTM_NM_PARSE_NAME, simp add: step VTM_NM_PARSE_NAME) (intro stop_intros mono_intros)
  next
    case VTM_NM_PARSE_VALUE_TYPE
    show ?thesis by (rule go, simp add: step VTM_NM_PARSE_VALUE_TYPE, simp add: step VTM_NM_PARSE_VALUE_TYPE) (intro stop_intros mono_intros type)
  next
    case VTM_NM_PARSE_VALUE_LEN
    show ?thesis by (rule go, simp add: step VTM_NM_PARSE_VALUE_LEN, simp add: step VTM_NM_PARSE_VALUE_LEN) (intro stop_intros mono_intros)
  next
    case VTM_NM_PARSE_VALUE
    show ?thesis by (rule go, simp add: step VTM_NM_PARSE_VALUE, simp add: step VTM_NM_PARSE_VALUE) (rule nm_value_stop)
  qed (use assms(3) ext in \<open>auto simp: step split: if_splits option.splits\<close>)
qed

text \<open>A run that stops for another reason than missing input does the same on longer input.\<close>

lemma nm_run_stop:
  "nm_inv s b \<Longrightarrow> buf_ext b d c \<Longrightarrow> vtm_nm_parser_run ma s b = Some (st, s', b') \<Longrightarrow> st \<noteq> VTM_NET_RECV_STAT_AGAIN \<Longrightarrow>
     \<exists>c'. buf_ext b' d c' \<and> vtm_nm_parser_run ma s c = Some (st, s', c')"
proof (induction "nm_msr s b" arbitrary: s b c rule: less_induct)
  case less
  show ?case
  proof (cases "nm_parser_step ma s b")
    case (PNext s1 b1)
    obtain c1 where c1: "buf_ext b1 d c1" "nm_parser_step ma s c = PNext s1 c1"
      using nm_step_ext [OF less.prems(1, 2) PNext] by blast
    have "vtm_nm_parser_run ma s1 b1 = Some (st, s', b')" using less.prems(3) nmp.run_next [OF PNext] by simp
    then show ?thesis
      using less.hyps [of s1 b1 c1] c1(1) nmp.step_next [OF less.prems(1) PNext] nmp.run_next [OF c1(2)] less.prems(4) by simp
  next
    case (PStop st1 s1 b1)
    then have "nm_parser_step ma s b = PStop st s' b'" using less.prems(3) nmp.run_step [of ma s b] by simp
    from nm_step_stop [OF less.prems(1, 2) this less.prems(4)] show ?thesis by (auto simp: nmp.run_step)
  next
    case PFault
    then show ?thesis using less.prems(3) nmp.run_step [of ma s b] by simp
  qed
qed

text \<open>The parser only moves the read position of the buffer, inside the used bytes.\<close>

definition buf_moved :: "vtm_buf \<Rightarrow> vtm_buf \<Rightarrow> bool" where
  "buf_moved b b' \<longleftrightarrow> (\<exists>r. b' = b\<lparr>buf_read := r\<rparr>) \<and> (vtm_buf_inv b \<longrightarrow> vtm_buf_inv b')"

definition read_only :: "(vtm_buf \<Rightarrow> ('p, vtm_buf) pstep) \<Rightarrow> bool" where
  "read_only k \<longleftrightarrow> (\<forall>b. case k b of PNext s b' \<Rightarrow> buf_moved b b' | PStop st s b' \<Rightarrow> buf_moved b b' | PFault \<Rightarrow> True)"

named_theorems read_intros \<open>steps that only move the read position\<close>

lemma buf_moved_refl: "buf_moved b b"
  by (auto simp: buf_moved_def intro: exI [of _ "buf_read b"])

lemma buf_moved_trans: "buf_moved a b \<Longrightarrow> buf_moved b c \<Longrightarrow> buf_moved a c"
  by (auto simp: buf_moved_def)

lemma read_only_base [read_intros]: "read_only (PStop st s)" "read_only (\<lambda>b. PFault)" "read_only (PNext s)"
  by (auto simp: read_only_def buf_moved_refl)

lemma read_only_if [read_intros]: "read_only k \<Longrightarrow> read_only k' \<Longrightarrow> read_only (if P then k else k')"
  by simp

lemma read_only_sum [read_intros]: "(\<And>e. read_only (k e)) \<Longrightarrow> (\<And>x. read_only (f x)) \<Longrightarrow> read_only (case r of Inl e \<Rightarrow> k e | Inr x \<Rightarrow> f x)"
  by (cases r) simp_all

lemma read_only_fetch:
  assumes "\<And>b x b'. get b = Some (x, b') \<Longrightarrow> buf_moved b b'" and "\<And>x. read_only (k x)"
  shows "read_only (fetch get k)"
  unfolding read_only_def
proof
  fix b
  show "case fetch get k b of PNext s b' \<Rightarrow> buf_moved b b' | PStop st s b' \<Rightarrow> buf_moved b b' | PFault \<Rightarrow> True"
  proof (cases "get b")
    case (Some y)
    obtain x b1 where y: "y = (x, b1)" by fastforce
    with Some assms(1) have "buf_moved b b1" by blast
    with assms(2) [of x, unfolded read_only_def, rule_format, of b1] show ?thesis
      by (auto simp: fetch_def Some y intro: buf_moved_trans split: pstep.splits)
  qed (simp add: fetch_def)
qed

lemma geto_moved: "vtm_buf_geto b n ord = Some (x, b') \<Longrightarrow> buf_moved b b'"
proof -
  assume g: "vtm_buf_geto b n ord = Some (x, b')"
  then have "unat n \<le> length (buf_unread b)" "\<exists>r. b' = b\<lparr>buf_read := r\<rparr>"
    by (auto simp: vtm_buf_geto_def buf_unread_def Let_def split: if_splits)
  moreover have "vtm_buf_inv b'" if "vtm_buf_inv b" using vtm_buf_geto_ok [OF that calculation(1), of ord] g by fastforce
  ultimately show ?thesis by (simp add: buf_moved_def)
qed

lemma read_only_gets [read_intros]:
  "(\<And>x. read_only (k x)) \<Longrightarrow> read_only (fetch (\<lambda>b. vtm_buf_geto b n ord) k)"
  "(\<And>x. read_only (k' x)) \<Longrightarrow> read_only (fetch (\<lambda>b. vtm_buf_getm b n) k')"
  "(\<And>x. read_only (k'' x)) \<Longrightarrow> read_only (fetch VTM_BUF_GETC k'')"
  by (rule read_only_fetch; auto simp: vtm_buf_getm_def getc_geto dest: geto_moved)+

lemma read_only_value [read_intros]: "read_only (nm_parse_value ma par)"
  by (cases "np_value_type par") (auto simp: nm_parse_value_def Let_def intro!: read_intros)

lemma read_only_need: "read_only k \<Longrightarrow> read_only (\<lambda>b. need n (PStop st s b) k b)"
  by (auto simp: read_only_def need_def buf_moved_refl)

lemma read_only_at:
  "read_only k \<Longrightarrow> read_only k' \<Longrightarrow> read_only (\<lambda>b. if P then k b else k' b)"
  "(\<And>x. read_only (f x)) \<Longrightarrow> read_only (\<lambda>b. case r of None \<Rightarrow> PFault | Some x \<Rightarrow> f x b)"
  by (cases P; simp) (cases r; simp add: read_only_base)

lemma read_only_step: "read_only (nm_parser_step ma par)"
  unfolding nm_parser_step_def [abs_def] Let_def
  by (cases "np_state par"; simp only: vtm_nm_parser_state.case; intro read_only_need read_only_at read_intros)

lemma nm_run_reads:
  assumes "nm_inv s b" "vtm_nm_parser_run ma s b = Some (st, s', b')"
  shows "buf_moved b b'"
  using assms
proof (induction "nm_msr s b" arbitrary: s b rule: less_induct)
  case less
  note ro = read_only_step [of ma s, unfolded read_only_def, rule_format, of b]
  show ?case
  proof (cases "nm_parser_step ma s b")
    case (PNext s1 b1)
    with ro have r: "buf_moved b b1" by auto
    have "vtm_nm_parser_run ma s1 b1 = Some (st, s', b')" using less.prems(2) nmp.run_next [OF PNext] by simp
    with less.hyps [of s1 b1] nmp.step_next [OF less.prems(1) PNext] r show ?thesis by (blast intro: buf_moved_trans)
  next
    case (PStop st1 s1 b1)
    then show ?thesis using less.prems(2) nmp.run_step [of ma s b] ro by auto
  next
    case PFault
    then show ?thesis using less.prems(2) nmp.run_step [of ma s b] by simp
  qed
qed

subsection \<open>Messages that arrive in pieces\<close>

text \<open>With the bytes \<open>r\<close> that have not arrived, the parser will complete a message with the fields \<open>x\<close> and leave \<open>later\<close>.\<close>

definition nm_await :: "allocator \<Rightarrow> vtm_nm_parser \<Rightarrow> vtm_buf \<Rightarrow> byte list \<Rightarrow> vtm_dataset option \<Rightarrow> byte list \<Rightarrow> bool" where
  "nm_await ma par b r x later \<longleftrightarrow>
     (\<exists>c par' c'. buf_ext b r c \<and> vtm_nm_parser_run ma par c = Some (VTM_NET_RECV_STAT_COMPLETE, par', c')
        \<and> np_state par' = VTM_NM_PARSE_MSG_COMPLETE \<and> np_msg par' = x \<and> buf_unread c' = later)"

lemma ext_split: "buf_ext b (bs @ r) c \<Longrightarrow> buf_ext b bs b1 \<Longrightarrow> buf_ext b1 r c"
  by (auto simp: buf_ext_def)

lemma ext_nil: "buf_ext b [] c \<Longrightarrow> vtm_buf_inv b \<Longrightarrow> buf_err b = VTM_OK \<Longrightarrow> buf_ext c [] b"
  by (auto simp: buf_ext_def)

text \<open>What a run does with a part of the bytes.\<close>

lemma nm_await_run:
  assumes "nm_await ma par b1 r x later" "nm_inv par b1" "buf_err b1 = VTM_OK"
  obtains st par' b' where "vtm_nm_parser_run ma par b1 = Some (st, par', b')" "buf_moved b1 b'"
    "st = VTM_NET_RECV_STAT_AGAIN \<and> r \<noteq> [] \<and> nm_inv par' b' \<and> nm_await ma par' b' r x later
     \<or> st = VTM_NET_RECV_STAT_COMPLETE \<and> np_state par' = VTM_NM_PARSE_MSG_COMPLETE \<and> np_msg par' = x \<and> buf_unread b' @ r = later
       \<and> vtm_buf_inv b'"
proof -
  from assms(1) obtain c par2 c2 where c: "buf_ext b1 r c" "vtm_nm_parser_run ma par c = Some (VTM_NET_RECV_STAT_COMPLETE, par2, c2)"
    "np_state par2 = VTM_NM_PARSE_MSG_COMPLETE" "np_msg par2 = x" "buf_unread c2 = later" by (auto simp: nm_await_def)
  obtain st par' b' where run: "vtm_nm_parser_run ma par b1 = Some (st, par', b')"
    using nmp.run_total [OF assms(2), of ma] by blast
  have q: "buf_moved b1 b'" by (rule nm_run_reads [OF assms(2) run])
  show thesis
  proof (cases "st = VTM_NET_RECV_STAT_AGAIN")
    case True
    from nmp.resume [OF assms(2) c(1) run [unfolded True]] c(2) obtain c' where "nm_inv par' b'" "buf_ext b' r c'"
      "vtm_nm_parser_run ma par' c' = Some (VTM_NET_RECV_STAT_COMPLETE, par2, c2)" by auto
    moreover have "r \<noteq> []"
    proof
      assume r: "r = []"
      have e: "buf_ext c [] b1" by (rule ext_nil [OF c(1) [unfolded r]]) (use assms(2,3) in \<open>simp_all add: nm_inv_def\<close>)
      have "buf_unread c = buf_unread b1" using buf_ext_unread [OF _ c(1)] assms(2) r by (simp add: nm_inv_def)
      with assms(2) c(1) have "nm_inv par c" by (simp add: nm_inv_def buf_ext_def)
      moreover have "VTM_NET_RECV_STAT_COMPLETE \<noteq> VTM_NET_RECV_STAT_AGAIN" by simp
      ultimately show False using nm_run_stop [OF _ e c(2)] run True by fastforce
    qed
    ultimately show thesis using c(3-5) True run q by (intro that [of st par' b']) (auto simp: nm_await_def)
  next
    case False
    from nm_run_stop [OF assms(2) c(1) run False] c(2) have "st = VTM_NET_RECV_STAT_COMPLETE" "par' = par2" and e: "buf_ext b' r c2" by auto
    moreover have inv: "vtm_buf_inv b'"
      using q assms(2) by (simp add: buf_moved_def nm_inv_def)
    ultimately show thesis using c(3-5) run q buf_ext_unread [OF inv e] by (intro that [of st par' b']) auto
  qed
qed

lemma recvbuf_simps [simp]:
  "nm_recvbuf (nm_set_recv con par b) = b" "ns_parser (nm_set_recv con par b) = par"
  by (simp_all add: nm_recvbuf_def nm_set_recv_def)

lemma moved_room: "buf_moved b b' \<Longrightarrow> buf_room b n \<Longrightarrow> buf_room b' n \<and> buf_order b' = buf_order b"
  by (auto simp: buf_moved_def buf_room_def)

lemma await_len: "nm_await ma par (b\<lparr>buf_len := l, buf_dyn := d\<rparr>) r x later \<longleftrightarrow> nm_await ma par b r x later"
  by (simp add: nm_await_def buf_ext_def)

text \<open>One call of the read function, when everything of a message is in the buffer or on its way.\<close>

lemma con_read_delivers:
  assumes src: "byte_source rd rest got" and ma: "\<forall>m. ma m"
    and "nm_inv (ns_parser con) (nm_recvbuf con)" "buf_room (nm_recvbuf con) (1024 + length (rest s))"
    and "nm_await ma (ns_parser con) (nm_recvbuf con) (rest s) x later"
    and "length (buf_data (nm_recvbuf con)) + length (rest s) < 4294967295"
    and "buf_unread (nm_recvbuf con) \<noteq> [] \<or> rest s \<noteq> []"
  shows "\<exists>con' s'. vtm_nm_stream_con_read rd ma con s = Some (VTM_NET_RECV_STAT_COMPLETE, con', s')
    \<and> np_state (ns_parser con') = VTM_NM_PARSE_MSG_COMPLETE \<and> np_msg (ns_parser con') = x
    \<and> buf_unread (nm_recvbuf con') @ rest s' = later \<and> got s' = got s
    \<and> buf_room (nm_recvbuf con') (1024 + length (rest s')) \<and> buf_order (nm_recvbuf con') = buf_order (nm_recvbuf con)"
  using assms(3-)
proof (induction "length (rest s)" arbitrary: con s rule: less_induct)
  case less
  define b where "b = nm_recvbuf con"
  define par where "par = ns_parser con"
  have u: "unat (1024 :: size_t) = 1024" by simp
  obtain l d where e: "vtm_buf_ensure ma b 1024 = (VTM_OK, b\<lparr>buf_len := l, buf_dyn := d\<rparr>)"
    "buf_room (b\<lparr>buf_len := l, buf_dyn := d\<rparr>) (1024 + length (rest s))"
    "1024 \<le> unat (VTM_BUF_PUT_AVAIL_TOTAL (b\<lparr>buf_len := l, buf_dyn := d\<rparr>))"
    using ensure_room [of b 1024 "length (rest s)" ma] less.prems(2) ma unfolding u b_def by blast
  define b0 where "b0 = b\<lparr>buf_len := l, buf_dyn := d\<rparr>"
  have b0: "buf_unread b0 = buf_unread b" "buf_order b0 = buf_order b" by (simp_all add: b0_def buf_unread_def)
  have i0: "vtm_buf_inv b0" "buf_err b0 = VTM_OK" using e(2) by (simp_all add: b0_def buf_room_def)
  have n0: "nm_inv par b0" using less.prems(1) i0(1) b0(1) by (simp add: nm_inv_def par_def b_def)
  have a0: "nm_await ma par b0 (rest s) x later" using less.prems(3) by (simp add: b0_def await_len par_def b_def)
  have pos: "0 < unat (VTM_BUF_PUT_AVAIL_TOTAL b0)" using e(3) by (simp add: b0_def)
  obtain bs s1 where r: "rd (unat (VTM_BUF_PUT_AVAIL_TOTAL b0)) s = ((if bs = [] then VTM_E_IO_AGAIN else VTM_OK, bs), s1)"
    "length bs \<le> unat (VTM_BUF_PUT_AVAIL_TOTAL b0)" "rest s = bs @ rest s1" "bs = [] \<longrightarrow> rest s = []" "got s1 = got s"
    by (rule byte_sourceE [OF src pos, of s])
  note unf = vtm_nm_stream_con_read.simps [of rd ma con s, folded b_def, unfolded e(1) b0_def [symmetric]]
  show ?case
  proof (cases "bs = []")
    case True
    with r have rest: "rest s = []" "rest s1 = []" by auto
    obtain st par' b' where run: "vtm_nm_parser_run ma par b0 = Some (st, par', b')" "buf_moved b0 b'"
      "st = VTM_NET_RECV_STAT_COMPLETE \<and> np_state par' = VTM_NM_PARSE_MSG_COMPLETE \<and> np_msg par' = x \<and> buf_unread b' = later"
      using nm_await_run [OF a0 n0 i0(2)] rest(1) by (metis append_Nil2)
    have "VTM_BUF_GET_AVAIL_TOTAL b0 \<noteq> 0" using less.prems(5) rest b0 unread_nil_iff [OF i0(1)] by (simp add: b_def)
    then have "vtm_nm_stream_con_read rd ma con s = Some (VTM_NET_RECV_STAT_COMPLETE, nm_set_recv con par' b', s1)"
      using r(1) True run by (subst unf) (simp add: nm_set_recv_def par_def [symmetric])
    then show ?thesis using run r(5) rest b0(2) moved_room [OF run(2) e(2) [folded b0_def]]
      by (intro exI [of _ "nm_set_recv con par' b'"] exI [of _ s1]) (simp add: b_def)
  next
    case False
    have room0: "buf_room b0 (length bs + (1024 + length (rest s1)))" using e(2) r(3) by (simp add: b0_def add.left_commute)
    define b1 where "b1 = VTM_BUF_PUT_INC b0 bs"
    note p = put_inc_room [OF room0 r(2), folded b1_def]
    have i1: "vtm_buf_inv b1" "buf_err b1 = VTM_OK" "buf_order b1 = buf_order b0" using p(1) by (simp_all add: buf_ext_def)
    have d1: "buf_data b1 = buf_data b @ bs" by (simp add: b1_def b0_def VTM_BUF_PUT_INC_def)
    have "length (buf_unread b1) \<le> length (buf_data b1)" by (simp add: buf_unread_def)
    then have n1: "nm_inv par b1" using n0 i1(1) d1 less.prems(4) r(3) by (simp add: nm_inv_def b_def)
    have a1: "nm_await ma par b1 (rest s1) x later" using a0 p(1) unfolding nm_await_def r(3) by (metis ext_split)
    obtain st par' b' where run: "vtm_nm_parser_run ma par b1 = Some (st, par', b')" "buf_moved b1 b'"
      "st = VTM_NET_RECV_STAT_AGAIN \<and> rest s1 \<noteq> [] \<and> nm_inv par' b' \<and> nm_await ma par' b' (rest s1) x later
       \<or> st = VTM_NET_RECV_STAT_COMPLETE \<and> np_state par' = VTM_NM_PARSE_MSG_COMPLETE \<and> np_msg par' = x \<and> buf_unread b' @ rest s1 = later"
      using nm_await_run [OF a1 n1 i1(2)] by metis
    define con1 where "con1 = nm_set_recv con par' b'"
    have read: "vtm_nm_stream_con_read rd ma con s
        = (if st = VTM_NET_RECV_STAT_AGAIN then vtm_nm_stream_con_read rd ma con1 s1 else Some (st, con1, s1))"
      using r(1) False run(1) by (subst unf) (simp add: nm_set_recv_def par_def [symmetric] b1_def [symmetric] con1_def)
    note m = moved_room [OF run(2) p(2)]
    from run(3) show ?thesis
    proof
      assume st: "st = VTM_NET_RECV_STAT_AGAIN \<and> rest s1 \<noteq> [] \<and> nm_inv par' b' \<and> nm_await ma par' b' (rest s1) x later"
      have d': "buf_data b' = buf_data b1" using run(2) by (auto simp: buf_moved_def)
      have "length (rest s1) < length (rest s)" using r(3) False by simp
      from less.hyps [OF this, of con1] st m d' d1 less.prems(4) r(3) have "\<exists>con' s'. vtm_nm_stream_con_read rd ma con1 s1 = Some (VTM_NET_RECV_STAT_COMPLETE, con', s')
        \<and> np_state (ns_parser con') = VTM_NM_PARSE_MSG_COMPLETE \<and> np_msg (ns_parser con') = x
        \<and> buf_unread (nm_recvbuf con') @ rest s' = later \<and> got s' = got s1
        \<and> buf_room (nm_recvbuf con') (1024 + length (rest s')) \<and> buf_order (nm_recvbuf con') = buf_order b'"
        by (simp add: con1_def b_def)
      with read st r(5) m i1(3) b0(2) show ?thesis by (simp add: b_def)
    next
      assume "st = VTM_NET_RECV_STAT_COMPLETE \<and> np_state par' = VTM_NM_PARSE_MSG_COMPLETE \<and> np_msg par' = x \<and> buf_unread b' @ rest s1 = later"
      then show ?thesis using read r(5) m i1(3) b0(2)
        by (intro exI [of _ con1] exI [of _ s1]) (simp add: con1_def b_def)
    qed
  qed
qed

text \<open>A connection between two messages.\<close>

definition nm_between :: "vtm_nm_stream_con \<Rightarrow> byte list \<Rightarrow> bool" where
  "nm_between con r \<longleftrightarrow>
     np_state (ns_parser con) = VTM_NM_PARSE_MSG_BEGIN \<and> np_msg (ns_parser con) = None \<and> buf_order (nm_recvbuf con) = VTM_BYTEORDER_BE
     \<and> buf_room (nm_recvbuf con) (1024 + length r) \<and> length (buf_data (nm_recvbuf con)) + length r < 4294967295"

lemma nm_begin_await:
  assumes "nm_between con r" "\<forall>m. ma m" "list_all nm_entry_ok es" "length es \<le> 65535"
    and "buf_unread (nm_recvbuf con) @ r = nm_msg_bytes VTM_BYTEORDER_BE es @ later"
  shows "nm_await ma (ns_parser con) (nm_recvbuf con) r (foldl (\<lambda>m e. Some (nm_store m e)) None es) later"
    "nm_inv (ns_parser con) (nm_recvbuf con)"
proof -
  define b where "b = nm_recvbuf con"
  have room: "buf_room b (length r + 1024)" and inv: "vtm_buf_inv b"
    using assms(1) by (simp_all add: nm_between_def b_def add.commute buf_room_def)
  obtain c where c: "buf_ext b r c" using room_putm [OF room assms(2)] by blast
  have "nm_input c VTM_BYTEORDER_BE (nm_msg_bytes VTM_BYTEORDER_BE es @ later)"
    using c buf_ext_unread [OF inv c] assms(1,5) by (simp add: nm_input_def buf_ext_def nm_between_def b_def)
  from read_msg [OF this assms(3,2,4), of "ns_parser con"] assms(1) c
  show "nm_await ma (ns_parser con) (nm_recvbuf con) r (foldl (\<lambda>m e. Some (nm_store m e)) None es) later"
    by (auto simp: nm_await_def nm_between_def nm_input_def b_def)
  have "length (buf_unread b) \<le> length (buf_data b)" by (simp add: buf_unread_def)
  then show "nm_inv (ns_parser con) (nm_recvbuf con)"
    using assms(1) inv by (simp add: nm_inv_def nm_between_def b_def)
qed

text \<open>A message as its dataset and its entries, and a handler that notes the messages and leaves the input alone.\<close>

definition nm_msg_ok :: "vtm_dataset \<times> (cstr \<times> vtm_variant) list \<Rightarrow> bool" where
  "nm_msg_ok m \<longleftrightarrow> vtm_dataset_inv False (fst m) \<and> vtm_dataset_entryset (Some (fst m)) = Some (snd m) \<and> list_all nm_entry_ok (snd m)
     \<and> snd m \<noteq> [] \<and> length (snd m) \<le> 65535"

definition nm_notes ::
    "(vtm_dataset \<Rightarrow> vtm_nm_stream_con \<Rightarrow> 's \<Rightarrow> vtm_nm_stream_con \<times> 's) \<Rightarrow> ('s \<Rightarrow> byte list) \<Rightarrow> ('s \<Rightarrow> vtm_dataset list) \<Rightarrow> bool" where
  "nm_notes cb rest got \<longleftrightarrow>
     (\<forall>m con s. rest (snd (cb m con s)) = rest s \<and> got (snd (cb m con s)) = got s @ [m]
        \<and> nm_recvbuf (fst (cb m con s)) = nm_recvbuf con \<and> ns_parser (fst (cb m con s)) = ns_parser con)"

definition nm_same :: "vtm_dataset \<times> (cstr \<times> vtm_variant) list \<Rightarrow> vtm_dataset \<Rightarrow> bool" where
  "nm_same m ds' \<longleftrightarrow> (\<forall>n. no_nul n \<longrightarrow> vtm_dataset_get_variant ds' n = map_option nm_received (vtm_dataset_get_variant (fst m) n))"

lemma srv_read_one:
  assumes src: "byte_source rd rest got" and ma: "\<forall>m. ma m" and cb: "nm_notes cb rest got"
    and btw: "nm_between con (rest s)" and ok: "nm_msg_ok m"
    and input: "buf_unread (nm_recvbuf con) @ rest s = nm_msg_bytes VTM_BYTEORDER_BE (snd m) @ later"
  obtains con' s' ds' where "nm_srv_read_loop rd ma cls (Some cb) con s = nm_srv_read_loop rd ma cls (Some cb) con' s'"
    "nm_between con' (rest s')" "buf_unread (nm_recvbuf con') @ rest s' = later" "got s' = got s @ [ds']" "nm_same m ds'"
proof -
  have len: "length (snd m) \<le> 65535" and ent: "list_all nm_entry_ok (snd m)" using ok by (simp_all add: nm_msg_ok_def)
  obtain ds' where ds': "foldl (\<lambda>m e. Some (nm_store m e)) None (snd m) = Some ds'" "nm_same m ds'"
    using nm_received_dataset [of "fst m" "snd m"] ok unfolding nm_msg_ok_def nm_same_def by metis
  note aw = nm_begin_await [OF btw ma ent len input, unfolded ds'(1)]
  have ne: "buf_unread (nm_recvbuf con) \<noteq> [] \<or> rest s \<noteq> []" using input by (auto simp: nm_msg_bytes_def)
  have room: "buf_room (nm_recvbuf con) (1024 + length (rest s))" "length (buf_data (nm_recvbuf con)) + length (rest s) < 4294967295"
    using btw by (simp_all add: nm_between_def)
  from con_read_delivers [OF src ma aw(2) room(1) aw(1) room(2) ne] obtain con1 s1 where
    r: "vtm_nm_stream_con_read rd ma con s = Some (VTM_NET_RECV_STAT_COMPLETE, con1, s1)"
    "np_state (ns_parser con1) = VTM_NM_PARSE_MSG_COMPLETE" "np_msg (ns_parser con1) = Some ds'"
    "buf_unread (nm_recvbuf con1) @ rest s1 = later" "got s1 = got s"
    "buf_room (nm_recvbuf con1) (1024 + length (rest s1))" "buf_order (nm_recvbuf con1) = buf_order (nm_recvbuf con)" by blast
  define con2 where "con2 = snd (vtm_nm_stream_con_get_msg con1)"
  have g: "vtm_nm_stream_con_get_msg con1 = (Some ds', con2)"
    using r(2,3) by (simp add: con2_def vtm_nm_stream_con_get_msg_def vtm_nm_parser_get_msg_def Let_def)
  have b2: "nm_recvbuf con2 = vtm_buf_discard_processed (nm_recvbuf con1)" "np_state (ns_parser con2) = VTM_NM_PARSE_MSG_BEGIN" "np_msg (ns_parser con2) = None"
    using r(2) by (simp_all add: con2_def vtm_nm_stream_con_get_msg_def vtm_nm_parser_get_msg_def Let_def)
  note d = discard_room [OF r(6)]
  have "length later < 4294967295"
  proof -
    have "length later \<le> length (buf_unread (nm_recvbuf con) @ rest s)" unfolding input by simp
    also have "\<dots> \<le> length (buf_data (nm_recvbuf con)) + length (rest s)" by (simp add: buf_unread_def)
    finally show ?thesis using room(2) by simp
  qed
  with r(4) have "length (buf_unread (nm_recvbuf con1)) + length (rest s1) < 4294967295" by (metis length_append)
  with b2 d r(7) btw have btw2: "nm_between con2 (rest s1)" by (simp add: nm_between_def)
  obtain con3 s3 where c3: "cb ds' con2 s1 = (con3, s3)" by fastforce
  with cb have cb3: "rest s3 = rest s1" "got s3 = got s1 @ [ds']" "nm_recvbuf con3 = nm_recvbuf con2" "ns_parser con3 = ns_parser con2"
    unfolding nm_notes_def by (metis fst_conv snd_conv)+
  have "nm_srv_read_loop rd ma cls (Some cb) con s = nm_srv_read_loop rd ma cls (Some cb) con3 s3"
    using r(1) g c3 by (subst nm_srv_read_loop.simps) simp
  then show thesis
    using btw2 cb3 r(4,5) ds'(2) b2(1) d(3) by (intro that [of con3 s3 ds']) (simp_all add: nm_between_def)
qed

lemma srv_read_end:
  assumes src: "byte_source rd rest got" and ma: "\<forall>m. ma m" and btw: "nm_between con (rest s)"
    and input: "buf_unread (nm_recvbuf con) @ rest s = []"
  obtains con' s' where "nm_srv_read_loop rd ma cls cb con s = Some (con', s')" "rest s' = []" "got s' = got s"
proof -
  define b where "b = nm_recvbuf con"
  have u: "unat (1024 :: size_t) = 1024" by simp
  have room: "buf_room b (1024 + 0)" using btw input by (simp add: nm_between_def b_def)
  obtain l d where e: "vtm_buf_ensure ma b 1024 = (VTM_OK, b\<lparr>buf_len := l, buf_dyn := d\<rparr>)"
    "buf_room (b\<lparr>buf_len := l, buf_dyn := d\<rparr>) (1024 + 0)" "1024 \<le> unat (VTM_BUF_PUT_AVAIL_TOTAL (b\<lparr>buf_len := l, buf_dyn := d\<rparr>))"
    using ensure_room [of b 1024 0 ma] room ma unfolding u by blast
  define b0 where "b0 = b\<lparr>buf_len := l, buf_dyn := d\<rparr>"
  have pos: "0 < unat (VTM_BUF_PUT_AVAIL_TOTAL b0)" using e(3) by (simp add: b0_def)
  obtain bs s1 where r: "rd (unat (VTM_BUF_PUT_AVAIL_TOTAL b0)) s = ((if bs = [] then VTM_E_IO_AGAIN else VTM_OK, bs), s1)"
    "rest s = bs @ rest s1" "got s1 = got s" by (rule byte_sourceE [OF src pos, of s])
  have bs: "bs = []" "rest s1 = []" using r(2) input by auto
  have "buf_unread b0 = []" "vtm_buf_inv b0" using input e(2) by (simp_all add: b0_def b_def buf_unread_def buf_room_def)
  then have av: "VTM_BUF_GET_AVAIL_TOTAL b0 = 0" by (simp add: unread_nil_iff)
  have "vtm_nm_stream_con_read rd ma con s = Some (VTM_NET_RECV_STAT_AGAIN, nm_set_recv con (ns_parser con) b0, s1)"
    using r(1) bs(1) av e(1) by (subst vtm_nm_stream_con_read.simps) (simp add: b_def [symmetric] b0_def [symmetric] nm_set_recv_def)
  then show thesis using bs(2) r(3) by (intro that [of "nm_set_recv con (ns_parser con) b0" s1]) (auto simp: nm_srv_read_loop.simps)
qed

lemma srv_read_all:
  assumes src: "byte_source rd rest got" and ma: "\<forall>m. ma m" and cb: "nm_notes cb rest got"
    and "nm_between con (rest s)" "list_all nm_msg_ok ms"
    and "buf_unread (nm_recvbuf con) @ rest s = concat (map (\<lambda>m. nm_msg_bytes VTM_BYTEORDER_BE (snd m)) ms)"
  shows "\<exists>con' s' dss. nm_srv_read_loop rd ma cls (Some cb) con s = Some (con', s') \<and> rest s' = [] \<and> got s' = got s @ dss \<and> list_all2 nm_same ms dss"
  using assms(4-)
proof (induction ms arbitrary: con s)
  case Nil
  then have "buf_unread (nm_recvbuf con) @ rest s = []" by simp
  from srv_read_end [OF src ma Nil.prems(1) this, of cls "Some cb"] show ?case by (metis append_Nil2 list_all2_Nil)
next
  case (Cons m ms)
  then have ok: "nm_msg_ok m" "list_all nm_msg_ok ms"
    and input: "buf_unread (nm_recvbuf con) @ rest s = nm_msg_bytes VTM_BYTEORDER_BE (snd m) @ concat (map (\<lambda>m. nm_msg_bytes VTM_BYTEORDER_BE (snd m)) ms)"
    by simp_all
  obtain con' s' ds' where one: "nm_srv_read_loop rd ma cls (Some cb) con s = nm_srv_read_loop rd ma cls (Some cb) con' s'"
    "nm_between con' (rest s')" "buf_unread (nm_recvbuf con') @ rest s' = concat (map (\<lambda>m. nm_msg_bytes VTM_BYTEORDER_BE (snd m)) ms)"
    "got s' = got s @ [ds']" "nm_same m ds'" by (rule srv_read_one [OF src ma cb Cons.prems(1) ok(1) input])
  from Cons.IH [OF one(2) ok(2) one(3)] obtain con2 s2 dss where
    "nm_srv_read_loop rd ma cls (Some cb) con' s' = Some (con2, s2)" "rest s2 = []" "got s2 = got s' @ dss" "list_all2 nm_same ms dss" by blast
  with one show ?case by (intro exI [of _ con2] exI [of _ s2] exI [of _ "ds' # dss"]) simp
qed

subsection \<open>From one connection to the other\<close>

datatype nm_op = NmSend "vtm_dataset \<times> (cstr \<times> vtm_variant) list" | NmCanWrite

fun nm_do ::
    "vtm_byteorder \<Rightarrow> allocator \<Rightarrow> 's sock_write \<Rightarrow> ('s \<Rightarrow> 's) \<Rightarrow> nm_op \<Rightarrow> vtm_nm_stream_con \<times> 's \<Rightarrow> (vtm_nm_stream_con \<times> 's) option" where
  "nm_do host ma wr upd (NmSend m) (con, s) = map_option (\<lambda>(rc, con, s). (con, s)) (vtm_nm_stream_con_send host ma wr upd con (fst m) s)"
| "nm_do host ma wr upd NmCanWrite (con, s) = map_option (\<lambda>(rc, con, s). (con, s)) (vtm_nm_stream_con_write wr upd con s)"

fun nm_ops ::
    "vtm_byteorder \<Rightarrow> allocator \<Rightarrow> 's sock_write \<Rightarrow> ('s \<Rightarrow> 's) \<Rightarrow> nm_op list \<Rightarrow> vtm_nm_stream_con \<times> 's \<Rightarrow> (vtm_nm_stream_con \<times> 's) option" where
  "nm_ops host ma wr upd [] x = Some x"
| "nm_ops host ma wr upd (p # ps) x = (case nm_do host ma wr upd p x of None \<Rightarrow> None | Some x \<Rightarrow> nm_ops host ma wr upd ps x)"

fun nm_sent :: "nm_op list \<Rightarrow> (vtm_dataset \<times> (cstr \<times> vtm_variant) list) list" where
  "nm_sent [] = []"
| "nm_sent (NmSend m # ps) = m # nm_sent ps"
| "nm_sent (NmCanWrite # ps) = nm_sent ps"

abbreviation nm_bytes :: "(vtm_dataset \<times> (cstr \<times> vtm_variant) list) list \<Rightarrow> byte list" where
  "nm_bytes ms \<equiv> concat (map (\<lambda>m. nm_msg_bytes VTM_BYTEORDER_BE (snd m)) ms)"

lemma nm_ops_inv:
  assumes "byte_sink wr sent" "\<forall>s. sent (upd s) = sent s" and ma: "\<forall>m. ma m"
    and "con_inv sent bs (length (nm_bytes (nm_sent ps)) + n) (ns_con con, s)" "buf_order (sn_sendbuf (ns_con con)) = VTM_BYTEORDER_BE"
    and "list_all nm_msg_ok (nm_sent ps)"
  shows "\<exists>con' s'. nm_ops host ma wr upd ps (con, s) = Some (con', s') \<and> con_inv sent (bs @ nm_bytes (nm_sent ps)) n (ns_con con', s')"
  using assms(4-)
proof (induction ps arbitrary: con s bs)
  case Nil
  then show ?case by simp
next
  case (Cons p ps)
  show ?case
  proof (cases p)
    case (NmSend m)
    define src where "src = nm_msg_bytes VTM_BYTEORDER_BE (snd m)"
    have inv: "con_inv sent bs (length src + (length (nm_bytes (nm_sent ps)) + n)) (ns_con con, s)"
      using Cons.prems(1) NmSend by (simp add: src_def add.assoc)
    have ok: "nm_msg_ok m" "list_all nm_msg_ok (nm_sent ps)" using Cons.prems(3) NmSend by simp_all
    have room: "buf_room (sn_sendbuf (ns_con con)) (length src + (length (nm_bytes (nm_sent ps)) + n))" using inv by (simp add: con_inv_def)
    from ok(1) have m: "vtm_dataset_entryset (Some (fst m)) = Some (snd m)" "list_all nm_entry_ok (snd m)" "snd m \<noteq> []" "length (snd m) \<le> 65535"
      by (simp_all add: nm_msg_ok_def)
    from msg_to_buf_room [OF m room [unfolded src_def] ma Cons.prems(2), of host] obtain b where
      b: "vtm_nm_msg_to_buf host ma (Some (fst m)) (sn_sendbuf (ns_con con)) = Some (Some VTM_OK, b)" "buf_ext (sn_sendbuf (ns_con con)) src b"
      "buf_room b (length (nm_bytes (nm_sent ps)) + n)" unfolding src_def by blast
    obtain rc sc s1 where w: "vtm_socket_con_write_start wr upd ((ns_con con)\<lparr>sn_sendbuf := b\<rparr>) s = Some (rc, sc, s1)"
      "con_inv sent (bs @ src) (length (nm_bytes (nm_sent ps)) + n) (sc, s1)" "buf_order (sn_sendbuf sc) = buf_order b"
      by (rule con_start_inv [OF assms(1,2) inv b(2,3)])
    have "nm_do host ma wr upd p (con, s) = Some (con\<lparr>ns_con := sc\<rparr>, s1)"
      using b(1) w(1) NmSend by (simp add: vtm_nm_stream_con_send_def Let_def)
    moreover have "buf_order b = VTM_BYTEORDER_BE" using b(2) Cons.prems(2) by (simp add: buf_ext_def)
    ultimately show ?thesis using Cons.IH [of "bs @ src" "con\<lparr>ns_con := sc\<rparr>" s1] w(2,3) ok(2) NmSend by (auto simp: src_def)
  next
    case NmCanWrite
    obtain rc sc s1 where w: "vtm_socket_con_write wr upd (ns_con con) s = Some (rc, sc, s1)"
      "con_inv sent bs (length (nm_bytes (nm_sent ps)) + n) (sc, s1)" "buf_order (sn_sendbuf sc) = buf_order (sn_sendbuf (ns_con con))"
      by (rule con_can_write_inv [OF assms(1,2)]) (use Cons.prems(1) NmCanWrite in simp)
    then have "nm_do host ma wr upd p (con, s) = Some (con\<lparr>ns_con := sc\<rparr>, s1)" using NmCanWrite by (simp add: vtm_nm_stream_con_write_def)
    with w Cons.IH [of bs "con\<lparr>ns_con := sc\<rparr>" s1] Cons.prems NmCanWrite show ?thesis by auto
  qed
qed

text \<open>
  C17. Messages arrive. Datasets that are sent over a connection, in any order with the socket becoming writable again, on a socket that takes
  any part of the bytes each time: once the connection does not wait for its socket, the server at the other end, which gets the
  bytes in pieces of any size, gives its handler one message for each of them, in the same order and with the same fields, and
  does not close the connection.
\<close>

theorem nm_stream_delivers:
  assumes "byte_sink wr sent" "\<forall>s. sent (upd s) = sent s" "\<forall>m. ma m" "list_all nm_msg_ok (nm_sent ps)" "length (nm_bytes (nm_sent ps)) < 4294967295"
    and "vtm_nm_stream_con_new h1 True True par1 = Some con1" "sent s = []"
    and "byte_source rd rest got" "nm_notes cb rest got" "vtm_nm_stream_con_new h2 True True par2 = Some con2"
  shows "\<exists>con1' s'. nm_ops h1 ma wr upd ps (con1, s) = Some (con1', s')
    \<and> (\<not> sn_writing (ns_con con1') \<longrightarrow> (\<forall>t. rest t = sent s' \<longrightarrow>
         (\<exists>con2' t' dss. vtm_nm_stream_srv_sock_can_read rd ma cls (Some cb) (Some con2) t = Some (con2', t')
            \<and> rest t' = [] \<and> got t' = got t @ dss \<and> list_all2 nm_same (nm_sent ps) dss)))"
proof -
  have c1: "con_inv sent [] (length (nm_bytes (nm_sent ps)) + 0) (ns_con con1, s)" "buf_order (sn_sendbuf (ns_con con1)) = VTM_BYTEORDER_BE"
    using assms(5,6,7) buf_room_init [of "length (nm_bytes (nm_sent ps))" VTM_BYTEORDER_BE]
    by (auto simp: vtm_nm_stream_con_new_def vtm_socket_con_init_def con_inv_def) (simp_all add: vtm_buf_init_def)
  from nm_ops_inv [OF assms(1-3) c1 assms(4), of h1] obtain con1' s' where
    run: "nm_ops h1 ma wr upd ps (con1, s) = Some (con1', s')" "con_inv sent (nm_bytes (nm_sent ps)) 0 (ns_con con1', s')" by auto
  have "nm_between con2 r" if "r = nm_bytes (nm_sent ps)" for r
    using that assms(5,10) buf_room_init [of "1024 + length r" VTM_BYTEORDER_BE]
    by (auto simp: vtm_nm_stream_con_new_def vtm_socket_con_init_def nm_between_def nm_recvbuf_def vtm_nm_parser_init_def)
      (simp_all add: vtm_buf_init_def)
  moreover have "buf_unread (nm_recvbuf con2) = []"
    using assms(10) by (auto simp: vtm_nm_stream_con_new_def vtm_socket_con_init_def nm_recvbuf_def vtm_buf_init_def buf_unread_def)
  ultimately show ?thesis
    using run srv_read_all [OF assms(8,3,9) _ assms(4), of con2 _ cls]
    by (intro exI [of _ con1'] exI [of _ s']) (auto simp: con_inv_def vtm_nm_stream_srv_sock_can_read_def)
qed

text \<open>A socket that delivers one byte at a time, and a handler that keeps the messages; a message with one field.\<close>

definition read_bytewise :: "(byte list \<times> vtm_dataset list) sock_read" where
  "read_bytewise n s = ((if take 1 (fst s) = [] then VTM_E_IO_AGAIN else VTM_OK, take 1 (fst s)), (drop 1 (fst s), snd s))"

definition keep_msg :: "vtm_dataset \<Rightarrow> vtm_nm_stream_con \<Rightarrow> byte list \<times> vtm_dataset list \<Rightarrow> vtm_nm_stream_con \<times> byte list \<times> vtm_dataset list" where
  "keep_msg m con s = (con, fst s, snd s @ [m])"

definition nm_example :: "vtm_dataset \<times> (cstr \<times> vtm_variant) list" where
  "nm_example = (fst (vtm_dataset_set_int32 vtm_dataset_new (bytes_of ''a'') 7), [(bytes_of ''a'', vtm_variant_from_int32 7)])"

lemma nm_example_ok: "nm_msg_ok nm_example"
proof -
  have new: "vtm_dataset_inv False vtm_dataset_new"
    using ds_init_inv(1) [of VTM_DS_HINT_DEFAULT]
    by (simp add: vtm_dataset_new_def vtm_dataset_newh_def VTM_DS_HINT_DEFAULT_def)
  have a: "no_nul (bytes_of ''a'')" by (simp add: bytes_of_def)
  have "vtm_dataset_inv False (fst nm_example)"
    using ds_put_law [OF new a, of "(vtm_variant_from_int32 7, False)"]
    by (simp add: nm_example_def ds_store_put_def vtm_dataset_set_int32_def)
  then show ?thesis
    using nm_example_entries by (simp add: nm_msg_ok_def nm_example_def nm_entry_ok_def vtm_variant_from_int32_def nm_fixed_def bytes_of_def)
qed

theorem nm_stream_delivers_witness:
  "\<exists>con1 con2 con1' s'. vtm_nm_stream_con_new VTM_BYTEORDER_LE True True undefined = Some con1
    \<and> vtm_nm_stream_con_new VTM_BYTEORDER_BE True True undefined = Some con2
    \<and> nm_ops VTM_BYTEORDER_LE alloc_all write_two (\<lambda>s. s) [NmSend nm_example, NmCanWrite] (con1, []) = Some (con1', s')
    \<and> (\<not> sn_writing (ns_con con1') \<longrightarrow> (\<forall>t. fst t = s' \<longrightarrow>
         (\<exists>con2' t' dss. vtm_nm_stream_srv_sock_can_read read_bytewise alloc_all (\<lambda>t. t) (Some keep_msg) (Some con2) t = Some (con2', t')
            \<and> fst t' = [] \<and> snd t' = snd t @ dss \<and> list_all2 nm_same (nm_sent [NmSend nm_example, NmCanWrite]) dss)))"
proof -
  obtain con1 con2 where con: "vtm_nm_stream_con_new VTM_BYTEORDER_LE True True undefined = Some con1"
    "vtm_nm_stream_con_new VTM_BYTEORDER_BE True True undefined = Some con2"
    by (simp add: vtm_nm_stream_con_new_def vtm_socket_con_init_def)
  have src: "byte_source read_bytewise fst snd"
    unfolding byte_source_def
  proof (intro allI impI)
    fix n :: nat and s :: "byte list \<times> vtm_dataset list"
    assume "0 < n"
    then show "\<exists>bs s'. read_bytewise n s = ((if bs = [] then VTM_E_IO_AGAIN else VTM_OK, bs), s') \<and> length bs \<le> n
        \<and> fst s = bs @ fst s' \<and> (bs = [] \<longrightarrow> fst s = []) \<and> snd s' = snd s"
      by (intro exI [of _ "take 1 (fst s)"] exI [of _ "(drop 1 (fst s), snd s)"]) (auto simp: read_bytewise_def)
  qed
  have cb: "nm_notes keep_msg fst snd" by (simp add: nm_notes_def keep_msg_def)
  have ok: "list_all nm_msg_ok (nm_sent [NmSend nm_example, NmCanWrite])" by (simp add: nm_example_ok)
  have len: "length (nm_bytes (nm_sent [NmSend nm_example, NmCanWrite])) < 4294967295"
    by (simp add: nm_example_def nm_msg_bytes_def nm_field_bytes_def vtm_variant_from_int32_def bytes_of_def)
  have ma: "\<forall>m. alloc_all m" by (simp add: alloc_all_def)
  have upd: "\<forall>s. (\<lambda>s. s) ((\<lambda>s. s) s) = (\<lambda>s. s) s" by simp
  from nm_stream_delivers [OF write_two_sink upd ma ok len con(1) _ src cb con(2), of "[]" "\<lambda>t. t"] con show ?thesis by blast
qed

end
