(* ===== verification/DgramServer.thy ===== *)
theory DgramServer
  imports Buffer "HOL-Library.Multiset"
begin

text \<open>
  The datagram server of \<open>net/socket_dgram_server.c\<close> as a state machine. The main thread receives datagrams and puts them into a queue
  of limited length; workers take them out and run the callback of the user; without workers the main thread runs it. A step is what a
  thread does between two operations on shared state: the mutex of the queue with its two condition variables, the flag \<open>running\<close>, and
  the spinlock that protects starting and stopping. What the system answers is an argument of a step. The datagrams that were received,
  taken out and handed to the callback are noted in the state.
\<close>

subsection \<open>State\<close>

record vtm_socket_dgram =
  dg_buf :: vtm_buf
  dg_saddr :: nat

datatype dworker_pc =
    DWStart | DWLoop | DWLock | DWLocked | DWWait | DWBlocked | DWRelock | DWProcess vtm_socket_dgram | DWFinish | DWEnd

datatype dmain_pc =
    DMReady | DMStart | DMLoop | DMRun | DMRecv | DMProcess vtm_socket_dgram
  | DMEnqueue vtm_socket_dgram | DMLocked vtm_socket_dgram | DMWait vtm_socket_dgram | DMBlocked vtm_socket_dgram | DMRelock vtm_socket_dgram
  | DMAlloc | DMRearm | DMFinish | DMInterrupt | DMJoin | DMStopLock | DMClear | DMEnd

datatype dthread = DWorker nat | DMain

record dgram_srv =
  ds_running :: bool
  ds_dgrams :: "vtm_socket_dgram list"
  ds_count :: u32
  ds_limit :: u32
  ds_mtx :: "dthread option"
  ds_stop_lock :: bool
  ds_listener :: bool
  ds_threads :: nat
  ds_main :: dmain_pc
  ds_pc :: "nat \<Rightarrow> dworker_pc"
  ds_recvd :: "vtm_socket_dgram list"
  ds_taken :: "vtm_socket_dgram list"
  ds_log :: "vtm_socket_dgram list"

text \<open>
  What a step is told: whether memory is available, the return code of the call, the event of the listener, if there is one (whether it is
  for the socket of the server, and whether it can be read), and the datagram with its sender.
\<close>

record dgram_in =
  di_ok :: bool
  di_rc :: vtm_rc
  di_event :: "(bool \<times> bool) option"
  di_bytes :: "byte list"
  di_saddr :: nat

definition ds_goto :: "dgram_srv \<Rightarrow> nat \<Rightarrow> dworker_pc \<Rightarrow> dgram_srv" where
  "ds_goto s i pc = s\<lparr>ds_pc := (ds_pc s)(i := pc)\<rparr>"

definition ds_at :: "dgram_srv \<Rightarrow> dmain_pc \<Rightarrow> dgram_srv" where
  "ds_at s pc = s\<lparr>ds_main := pc\<rparr>"

definition ds_lock :: "dthread \<Rightarrow> dgram_srv \<Rightarrow> dgram_srv option" where
  "ds_lock t s = (if ds_mtx s = None then Some (s\<lparr>ds_mtx := Some t\<rparr>) else None)"

definition ds_unlock :: "dgram_srv \<Rightarrow> dgram_srv" where
  "ds_unlock s = s\<lparr>ds_mtx := None\<rparr>"

text \<open>\<open>vtm_cond_signal_all\<close> on the two condition variables: workers wait on one, the main thread on the other.\<close>

fun worker_woken :: "dworker_pc \<Rightarrow> dworker_pc" where
  "worker_woken DWBlocked = DWRelock"
| "worker_woken pc = pc"

fun main_woken :: "dmain_pc \<Rightarrow> dmain_pc" where
  "main_woken (DMBlocked d) = DMRelock d"
| "main_woken pc = pc"

definition ds_signal_not_empty :: "dgram_srv \<Rightarrow> dgram_srv" where
  "ds_signal_not_empty s = s\<lparr>ds_pc := (\<lambda>i. worker_woken (ds_pc s i))\<rparr>"

definition ds_signal_not_full :: "dgram_srv \<Rightarrow> dgram_srv" where
  "ds_signal_not_full s = s\<lparr>ds_main := main_woken (ds_main s)\<rparr>"

subsection \<open>Datagrams\<close>

text \<open>A datagram that is longer than the array of a new buffer is cut off by the system.\<close>

definition dgram_recv :: "byte list \<Rightarrow> nat \<Rightarrow> vtm_socket_dgram" where
  "dgram_recv bs from =
     (let b = vtm_buf_init VTM_BYTEORDER_BE in \<lparr>dg_buf = VTM_BUF_PUT_INC b (take (unat (buf_len b)) bs), dg_saddr = from\<rparr>)"

definition vtm_socket_dgram_srv_send :: "(byte list \<Rightarrow> nat \<Rightarrow> 's \<Rightarrow> (vtm_rc \<times> nat) \<times> 's) \<Rightarrow> byte list \<Rightarrow> nat \<Rightarrow> 's \<Rightarrow> vtm_rc \<times> 's" where
  "vtm_socket_dgram_srv_send snd_to buf saddr s =
     (let ((rc, sent), s) = snd_to buf saddr s
      in (if rc \<noteq> VTM_OK then rc else if sent \<noteq> length buf then VTM_E_IO_UNKNOWN else VTM_OK, s))"

text \<open>The callback is noted.\<close>

definition vtm_socket_dgram_srv_process_dgram :: "dgram_srv \<Rightarrow> vtm_socket_dgram \<Rightarrow> dgram_srv" where
  "vtm_socket_dgram_srv_process_dgram s d = s\<lparr>ds_log := ds_log s @ [d]\<rparr>"

subsection \<open>The main thread\<close>

text \<open>\<open>vtm_socket_dgram_srv_enqueue_dgram\<close>: a datagram is dropped when there is no room and the server does not run any more.\<close>

fun vtm_socket_dgram_srv_enqueue_dgram :: "dgram_srv \<Rightarrow> dmain_pc \<Rightarrow> dgram_srv option" where
  "vtm_socket_dgram_srv_enqueue_dgram s (DMEnqueue d) = map_option (\<lambda>s. ds_at s (DMLocked d)) (ds_lock DMain s)"
| "vtm_socket_dgram_srv_enqueue_dgram s (DMLocked d) =
     Some (if ds_count s \<ge> ds_limit s
           then (if \<not> ds_running s then ds_at (ds_unlock s) DMAlloc else ds_at s (DMWait d))
           else ds_at (ds_unlock (ds_signal_not_empty (s\<lparr>ds_dgrams := ds_dgrams s @ [d], ds_count := ds_count s + 1\<rparr>))) DMAlloc)"
| "vtm_socket_dgram_srv_enqueue_dgram s (DMWait d) = Some (ds_at (ds_unlock s) (DMBlocked d))"
| "vtm_socket_dgram_srv_enqueue_dgram s (DMRelock d) = map_option (\<lambda>s. ds_at s (DMLocked d)) (ds_lock DMain s)"
| "vtm_socket_dgram_srv_enqueue_dgram s pc = None"

text \<open>
  \<open>vtm_socket_dgram_srv_main_run\<close>. When the first entry or the dataset cannot be allocated, it returns and leaves \<open>running\<close> as it is.
\<close>

fun vtm_socket_dgram_srv_main_run :: "dgram_in \<Rightarrow> dgram_srv \<Rightarrow> dmain_pc \<Rightarrow> dgram_srv option" where
  "vtm_socket_dgram_srv_main_run inp s DMStart = Some (ds_at s (if di_ok inp then DMLoop else DMInterrupt))"
| "vtm_socket_dgram_srv_main_run inp s DMLoop = Some (ds_at s (if ds_running s then DMRun else DMFinish))"
| "vtm_socket_dgram_srv_main_run inp s DMRun =
     Some (ds_at s (if di_rc inp \<noteq> VTM_OK then DMFinish
                    else case di_event inp of
                           None \<Rightarrow> DMLoop
                         | Some (own, readable) \<Rightarrow> if \<not> own \<or> \<not> readable then DMFinish else DMRecv))"
| "vtm_socket_dgram_srv_main_run inp s DMRecv =
     Some (if di_rc inp \<noteq> VTM_OK then ds_at s DMFinish
           else let d = dgram_recv (di_bytes inp) (di_saddr inp); s = s\<lparr>ds_recvd := ds_recvd s @ [d]\<rparr>
                in ds_at s (if ds_threads s = 0 then DMProcess d else DMEnqueue d))"
| "vtm_socket_dgram_srv_main_run inp s (DMProcess d) = Some (ds_at (vtm_socket_dgram_srv_process_dgram s d) DMRearm)"
| "vtm_socket_dgram_srv_main_run inp s DMAlloc = Some (ds_at s (if di_ok inp then DMRearm else DMFinish))"
| "vtm_socket_dgram_srv_main_run inp s DMRearm = Some (ds_at s DMLoop)"
| "vtm_socket_dgram_srv_main_run inp s DMFinish = Some (ds_at (s\<lparr>ds_running := False\<rparr>) DMInterrupt)"
| "vtm_socket_dgram_srv_main_run inp s pc = None"

definition vtm_socket_dgram_srv_workers_interrupt :: "dgram_srv \<Rightarrow> dgram_srv" where
  "vtm_socket_dgram_srv_workers_interrupt s = ds_signal_not_empty s"

definition vtm_socket_dgram_srv_workers_join :: "dgram_srv \<Rightarrow> bool" where
  "vtm_socket_dgram_srv_workers_join s \<longleftrightarrow> (\<forall>i < ds_threads s. ds_pc s i = DWEnd)"

text \<open>\<open>vtm_socket_dgram_srv_run\<close> around the main loop, from the point where the server is ready to its end.\<close>

fun vtm_socket_dgram_srv_run :: "dgram_srv \<Rightarrow> dmain_pc \<Rightarrow> dgram_srv option" where
  "vtm_socket_dgram_srv_run s DMReady = Some (ds_at (s\<lparr>ds_stop_lock := False\<rparr>) DMStart)"
| "vtm_socket_dgram_srv_run s DMInterrupt = Some (ds_at (vtm_socket_dgram_srv_workers_interrupt s) DMJoin)"
| "vtm_socket_dgram_srv_run s DMJoin = (if vtm_socket_dgram_srv_workers_join s then Some (ds_at s DMStopLock) else None)"
| "vtm_socket_dgram_srv_run s DMStopLock = (if ds_stop_lock s then None else Some (ds_at (s\<lparr>ds_stop_lock := True\<rparr>) DMClear))"
| "vtm_socket_dgram_srv_run s DMClear = Some (ds_at (s\<lparr>ds_dgrams := [], ds_listener := False, ds_stop_lock := False\<rparr>) DMEnd)"
| "vtm_socket_dgram_srv_run s pc = None"

text \<open>\<open>vtm_socket_dgram_srv_stop\<close>, called by any thread; it waits while the lock is taken. \<open>intr\<close> is the result of interrupting the listener.\<close>

definition vtm_socket_dgram_srv_stop :: "vtm_rc \<Rightarrow> dgram_srv \<Rightarrow> (vtm_rc \<times> dgram_srv) option" where
  "vtm_socket_dgram_srv_stop intr s =
     (if ds_stop_lock s then None else Some (if ds_listener s then intr else VTM_E_INVALID_STATE, s\<lparr>ds_running := False\<rparr>))"

subsection \<open>Workers\<close>

fun vtm_socket_dgram_srv_worker_run :: "nat \<Rightarrow> dgram_srv \<Rightarrow> dworker_pc \<Rightarrow> dgram_srv option" where
  "vtm_socket_dgram_srv_worker_run i s DWStart = Some (ds_goto s i DWLoop)"
| "vtm_socket_dgram_srv_worker_run i s DWLoop = Some (ds_goto s i (if ds_running s then DWLock else DWFinish))"
| "vtm_socket_dgram_srv_worker_run i s DWLock = map_option (\<lambda>s. ds_goto s i DWLocked) (ds_lock (DWorker i) s)"
| "vtm_socket_dgram_srv_worker_run i s DWLocked =
     Some (case ds_dgrams s of
             [] \<Rightarrow> if \<not> ds_running s then ds_goto (ds_unlock s) i DWFinish else ds_goto s i DWWait
           | d # ds \<Rightarrow>
               ds_goto (ds_unlock (ds_signal_not_full (s\<lparr>ds_dgrams := ds, ds_taken := ds_taken s @ [d], ds_count := ds_count s - 1\<rparr>))) i (DWProcess d))"
| "vtm_socket_dgram_srv_worker_run i s DWWait = Some (ds_goto (ds_unlock s) i DWBlocked)"
| "vtm_socket_dgram_srv_worker_run i s DWRelock = map_option (\<lambda>s. ds_goto s i DWLocked) (ds_lock (DWorker i) s)"
| "vtm_socket_dgram_srv_worker_run i s (DWProcess d) = Some (ds_goto (vtm_socket_dgram_srv_process_dgram s d) i DWLoop)"
| "vtm_socket_dgram_srv_worker_run i s DWFinish = Some (ds_goto s i DWEnd)"
| "vtm_socket_dgram_srv_worker_run i s pc = None"

subsection \<open>The start\<close>

text \<open>The answers of the system while \<open>vtm_socket_dgram_srv_run\<close> creates what the server needs; \<open>du_err\<close> is the code of the last error.\<close>

record dgram_calls =
  du_err :: vtm_rc
  du_socket :: bool
  du_bind :: vtm_rc
  du_nonblocking :: vtm_rc
  du_listener :: bool
  du_add :: vtm_rc
  du_mtx :: bool
  du_not_empty :: bool
  du_not_full :: bool
  du_calloc :: bool
  du_thread :: "nat \<Rightarrow> bool"

datatype dgram_res = DResSocket | DResListener | DResMtx | DResNotEmpty | DResNotFull

datatype dgram_goto = DGoUnlock | DGoCleanSocket | DGoCleanListener | DGoClean | DGoReady

text \<open>The return code and the number of workers that have been started.\<close>

fun workers_span_loop :: "(nat \<Rightarrow> bool) \<Rightarrow> nat \<Rightarrow> nat \<Rightarrow> vtm_rc \<times> nat" where
  "workers_span_loop new i 0 = (VTM_OK, i)"
| "workers_span_loop new i (Suc n) = (if new i then workers_span_loop new (Suc i) n else (VTM_ERROR, i))"

definition vtm_socket_dgram_srv_workers_span :: "bool \<Rightarrow> (nat \<Rightarrow> bool) \<Rightarrow> nat \<Rightarrow> vtm_rc \<times> nat" where
  "vtm_socket_dgram_srv_workers_span alloc new threads =
     (if threads = 0 then (VTM_OK, 0) else if \<not> alloc then (VTM_E_MALLOC, 0) else workers_span_loop new 0 threads)"

text \<open>Where the code jumps to, the return code, what has been created, and the number of started workers.\<close>

definition dgram_srv_setup :: "dgram_calls \<Rightarrow> nat \<Rightarrow> dgram_goto \<times> vtm_rc \<times> dgram_res list \<times> nat" where
  "dgram_srv_setup u threads =
     (if \<not> du_socket u then (DGoUnlock, du_err u, [], 0)
      else if du_bind u \<noteq> VTM_OK then (DGoCleanSocket, du_bind u, [DResSocket], 0)
      else if du_nonblocking u \<noteq> VTM_OK then (DGoCleanSocket, du_nonblocking u, [DResSocket], 0)
      else if \<not> du_listener u then (DGoCleanSocket, du_err u, [DResSocket], 0)
      else if du_add u \<noteq> VTM_OK then (DGoCleanListener, du_add u, [DResSocket, DResListener], 0)
      else if threads > 0 \<and> \<not> du_mtx u then (DGoClean, du_err u, [DResSocket, DResListener], 0)
      else
        let res = [DResSocket, DResListener] @ (if threads > 0 then [DResMtx] @ (if du_not_empty u then [DResNotEmpty] else [])
                    @ (if du_not_full u then [DResNotFull] else []) else [])
        in if threads > 0 \<and> (\<not> du_not_empty u \<or> \<not> du_not_full u) then (DGoClean, du_err u, res, 0)
           else let (rc, n) = vtm_socket_dgram_srv_workers_span (du_calloc u) (du_thread u) threads
                in (if rc \<noteq> VTM_OK then DGoClean else DGoReady, rc, res, n))"

text \<open>What is freed behind a label; freeing a null pointer does nothing.\<close>

definition dgram_srv_cleanup :: "dgram_goto \<Rightarrow> dgram_res list \<Rightarrow> dgram_res list" where
  "dgram_srv_cleanup to res =
     (case to of
        DGoUnlock \<Rightarrow> []
      | DGoCleanSocket \<Rightarrow> [DResSocket]
      | DGoCleanListener \<Rightarrow> [DResListener, DResSocket]
      | _ \<Rightarrow> filter (\<lambda>r. r \<in> set res) [DResNotEmpty, DResNotFull, DResMtx] @ [DResListener, DResSocket])"

text \<open>Whatever fails at the start, everything that has been created is freed, once.\<close>

lemma dgram_setup_released:
  "case dgram_srv_setup u threads of (to, rc, res, n) \<Rightarrow> mset (dgram_srv_cleanup to res) = mset res"
  by (auto simp: dgram_srv_setup_def dgram_srv_cleanup_def Let_def split: prod.split)

text \<open>
  When a thread cannot be created, the workers that have been started before are left running, without the mutex and the conditions they wait on.
\<close>

lemma dgram_setup_workers_left:
  assumes "du_socket u" "du_bind u = VTM_OK" "du_nonblocking u = VTM_OK" "du_listener u" "du_add u = VTM_OK" "du_mtx u" "du_not_empty u" "du_not_full u"
    "du_calloc u" "du_thread u 0" "\<not> du_thread u 1" "2 \<le> threads"
  shows "\<exists>res. dgram_srv_setup u threads = (DGoClean, VTM_ERROR, res, 1) \<and> DResMtx \<in> set (dgram_srv_cleanup DGoClean res)"
proof -
  obtain n where "threads = Suc (Suc n)" using assms(12) by (metis Suc_le_D numeral_2_eq_2 Suc_le_mono)
  with assms show ?thesis by (simp add: dgram_srv_setup_def vtm_socket_dgram_srv_workers_span_def dgram_srv_cleanup_def)
qed

subsection \<open>Runs\<close>

text \<open>A step of a thread of the server, which needs no help from outside.\<close>

inductive dgram_step :: "dgram_srv \<Rightarrow> dgram_srv \<Rightarrow> bool" where
  worker: "i < ds_threads s \<Longrightarrow> vtm_socket_dgram_srv_worker_run i s (ds_pc s i) = Some s' \<Longrightarrow> dgram_step s s'"
| main: "vtm_socket_dgram_srv_main_run inp s (ds_main s) = Some s' \<Longrightarrow> dgram_step s s'"
| enqueue: "vtm_socket_dgram_srv_enqueue_dgram s (ds_main s) = Some s' \<Longrightarrow> dgram_step s s'"
| run: "vtm_socket_dgram_srv_run s (ds_main s) = Some s' \<Longrightarrow> dgram_step s s'"

text \<open>The server that is ready: everything is created, the workers are started, and the lock is taken.\<close>

definition dgram_init :: "nat \<Rightarrow> u32 \<Rightarrow> dgram_srv" where
  "dgram_init threads limit =
     \<lparr>ds_running = True, ds_dgrams = [], ds_count = 0, ds_limit = (if limit = 0 then of_nat threads * 2 else limit), ds_mtx = None,
      ds_stop_lock = True, ds_listener = True, ds_threads = threads, ds_main = DMReady, ds_pc = (\<lambda>i. if i < threads then DWStart else DWEnd),
      ds_recvd = [], ds_taken = [], ds_log = []\<rparr>"

text \<open>Around the server: a call of \<open>vtm_socket_dgram_srv_stop\<close>, and waits that end without a signal.\<close>

inductive dgram_reach :: "nat \<Rightarrow> u32 \<Rightarrow> dgram_srv \<Rightarrow> bool" for threads limit where
  init: "dgram_reach threads limit (dgram_init threads limit)"
| step: "dgram_reach threads limit s \<Longrightarrow> dgram_step s s' \<Longrightarrow> dgram_reach threads limit s'"
| stop: "dgram_reach threads limit s \<Longrightarrow> vtm_socket_dgram_srv_stop intr s = Some (rc, s') \<Longrightarrow> dgram_reach threads limit s'"
| spurious_worker: "dgram_reach threads limit s \<Longrightarrow> ds_pc s i = DWBlocked \<Longrightarrow> dgram_reach threads limit (ds_goto s i DWRelock)"
| spurious_main: "dgram_reach threads limit s \<Longrightarrow> ds_main s = DMBlocked d \<Longrightarrow> dgram_reach threads limit (ds_at s (DMRelock d))"

subsection \<open>Invariants\<close>

fun main_dgram :: "dmain_pc \<Rightarrow> vtm_socket_dgram list" where
  "main_dgram (DMProcess d) = [d]"
| "main_dgram (DMEnqueue d) = [d]"
| "main_dgram (DMLocked d) = [d]"
| "main_dgram (DMWait d) = [d]"
| "main_dgram (DMBlocked d) = [d]"
| "main_dgram (DMRelock d) = [d]"
| "main_dgram pc = []"

fun worker_dgram :: "dworker_pc \<Rightarrow> vtm_socket_dgram multiset" where
  "worker_dgram (DWProcess d) = {#d#}"
| "worker_dgram pc = {#}"

fun main_has_mtx :: "dmain_pc \<Rightarrow> bool" where
  "main_has_mtx (DMLocked d) = True"
| "main_has_mtx (DMWait d) = True"
| "main_has_mtx pc = False"

fun worker_has_mtx :: "dworker_pc \<Rightarrow> bool" where
  "worker_has_mtx DWLocked = True"
| "worker_has_mtx DWWait = True"
| "worker_has_mtx pc = False"

fun main_waits :: "dmain_pc \<Rightarrow> bool" where
  "main_waits (DMBlocked d) = True"
| "main_waits (DMWait d) = True"
| "main_waits pc = False"

text \<open>Who holds the mutex and the lock, and where the threads are while the server runs.\<close>

definition dgram_locks :: "dgram_srv \<Rightarrow> bool" where
  "dgram_locks s \<longleftrightarrow>
     (\<forall>i. worker_has_mtx (ds_pc s i) = (ds_mtx s = Some (DWorker i)))
     \<and> main_has_mtx (ds_main s) = (ds_mtx s = Some DMain)
     \<and> (ds_stop_lock s \<longleftrightarrow> ds_main s \<in> {DMReady, DMClear})
     \<and> (\<forall>i. ds_threads s \<le> i \<longrightarrow> ds_pc s i = DWEnd)
     \<and> (ds_running s \<longrightarrow> (\<forall>i < ds_threads s. ds_pc s i \<notin> {DWFinish, DWEnd}))
     \<and> (ds_threads s = 0 \<or> (\<forall>d. ds_main s \<noteq> DMProcess d))"

text \<open>The length of the queue; nobody waits without a reason.\<close>

definition dgram_queue :: "dgram_srv \<Rightarrow> bool" where
  "dgram_queue s \<longleftrightarrow>
     (ds_main s \<noteq> DMEnd \<longrightarrow> unat (ds_count s) = length (ds_dgrams s) \<and> length (ds_dgrams s) \<le> unat (ds_limit s))
     \<and> (\<forall>i. ds_pc s i \<in> {DWBlocked, DWWait} \<longrightarrow> ds_dgrams s = [])
     \<and> (main_waits (ds_main s) \<longrightarrow> ds_count s \<ge> ds_limit s)"

text \<open>What became of the datagrams.\<close>

definition dgram_order :: "dgram_srv \<Rightarrow> bool" where
  "dgram_order s \<longleftrightarrow>
     (ds_threads s \<noteq> 0 \<longrightarrow> ds_main s \<noteq> DMEnd \<longrightarrow> (\<exists>lost. ds_recvd s = ds_taken s @ ds_dgrams s @ lost
        \<and> (lost = main_dgram (ds_main s)
           \<or> length lost = 1 \<and> \<not> ds_running s \<and> main_dgram (ds_main s) = [] \<and> ds_main s \<notin> {DMReady, DMStart, DMRun, DMRecv})))"

definition dgram_log :: "dgram_srv \<Rightarrow> bool" where
  "dgram_log s \<longleftrightarrow>
     (ds_threads s \<noteq> 0 \<longrightarrow> mset (ds_taken s) = mset (ds_log s) + (\<Sum>i < ds_threads s. worker_dgram (ds_pc s i)))"

lemmas dgram_state_defs = ds_goto_def ds_at_def ds_unlock_def ds_signal_not_empty_def ds_signal_not_full_def
  vtm_socket_dgram_srv_process_dgram_def vtm_socket_dgram_srv_workers_interrupt_def vtm_socket_dgram_srv_stop_def

lemma ds_lock_Some: "ds_lock t s = Some s' \<longleftrightarrow> ds_mtx s = None \<and> s' = s\<lparr>ds_mtx := Some t\<rparr>"
  by (auto simp: ds_lock_def)

lemma worker_woken_simps [simp]:
  "worker_has_mtx (worker_woken pc) = worker_has_mtx pc" "worker_woken pc = DWLocked \<longleftrightarrow> pc = DWLocked" "worker_woken pc = DWWait \<longleftrightarrow> pc = DWWait" "worker_woken pc = DWEnd \<longleftrightarrow> pc = DWEnd"
  "worker_woken pc = DWFinish \<longleftrightarrow> pc = DWFinish" "worker_woken pc \<noteq> DWBlocked" "worker_dgram (worker_woken pc) = worker_dgram pc"
  by (cases pc; simp)+

lemma main_woken_simps [simp]:
  "main_has_mtx (main_woken pc) = main_has_mtx pc" "main_dgram (main_woken pc) = main_dgram pc"
  "main_woken pc = DMReady \<longleftrightarrow> pc = DMReady" "main_woken pc = DMClear \<longleftrightarrow> pc = DMClear" "main_woken pc = DMProcess d \<longleftrightarrow> pc = DMProcess d"
  "main_woken pc = DMEnd \<longleftrightarrow> pc = DMEnd" "main_woken pc = DMStart \<longleftrightarrow> pc = DMStart" "main_woken pc = DMRun \<longleftrightarrow> pc = DMRun"
  "main_woken pc = DMRecv \<longleftrightarrow> pc = DMRecv"
  by (cases pc; simp)+

text \<open>A worker that moves on keeps the mutex, takes it or gives it back.\<close>

lemma dgram_locks_move:
  assumes "dgram_locks s" "i < ds_threads s" "ds_pc s' = (ds_pc s)(i := ds_pc s' i)" "ds_threads s' = ds_threads s" "ds_running s' = ds_running s"
    "ds_stop_lock s' = ds_stop_lock s" "ds_main s' = ds_main s \<or> ds_main s' = main_woken (ds_main s)"
    and mtx: "ds_mtx s' = ds_mtx s \<and> worker_has_mtx (ds_pc s' i) = worker_has_mtx (ds_pc s i)
      \<or> ds_mtx s = None \<and> ds_mtx s' = Some (DWorker i) \<and> worker_has_mtx (ds_pc s' i)
      \<or> ds_mtx s = Some (DWorker i) \<and> ds_mtx s' = None \<and> \<not> worker_has_mtx (ds_pc s' i)"
    and "ds_running s \<longrightarrow> ds_pc s' i \<noteq> DWFinish \<and> ds_pc s' i \<noteq> DWEnd"
  shows "dgram_locks s'"
proof -
  have old: "worker_has_mtx (ds_pc s j) = (ds_mtx s = Some (DWorker j))" for j using assms(1) by (simp add: dgram_locks_def)
  have pc: "ds_pc s' j = (if j = i then ds_pc s' i else ds_pc s j)" for j by (subst assms(3)) simp
  have a: "worker_has_mtx (ds_pc s' j) = (ds_mtx s' = Some (DWorker j))" for j
    using mtx old [of i] old [of j] pc [of j] by (cases "j = i") auto
  have b: "main_has_mtx (ds_main s') = (ds_mtx s' = Some DMain)" using assms(1,7) mtx by (auto simp: dgram_locks_def)
  have c: "ds_threads s \<le> j \<Longrightarrow> ds_pc s' j = DWEnd" "ds_running s \<Longrightarrow> j < ds_threads s \<Longrightarrow> ds_pc s' j \<notin> {DWFinish, DWEnd}" for j
    using assms(1,2,9) pc [of j] by (auto simp: dgram_locks_def)
  have d: "ds_stop_lock s = (ds_main s \<in> {DMReady, DMClear})" "ds_threads s = 0 \<or> (\<forall>d. ds_main s \<noteq> DMProcess d)"
    using assms(1) by (simp_all add: dgram_locks_def)
  have "ds_stop_lock s' = (ds_main s' \<in> {DMReady, DMClear})" "ds_threads s' = 0 \<or> (\<forall>d. ds_main s' \<noteq> DMProcess d)"
    by (rule disjE [OF assms(7)]; use d in \<open>simp add: assms(4,6)\<close>)+
  with a b c show ?thesis unfolding dgram_locks_def assms(4,5) by blast
qed

lemma dgram_locks_worker:
  assumes "vtm_socket_dgram_srv_worker_run i s (ds_pc s i) = Some s'" "i < ds_threads s" "dgram_locks s"
  shows "dgram_locks s'"
proof -
  have old: "worker_has_mtx (ds_pc s i) = (ds_mtx s = Some (DWorker i))" "ds_running s \<longrightarrow> ds_pc s i \<noteq> DWFinish"
    using assms(2,3) by (simp_all add: dgram_locks_def)
  show ?thesis using assms(1) old
    by (cases "ds_pc s i"; intro dgram_locks_move [OF assms(3,2)]) (auto simp: dgram_state_defs ds_lock_Some split: list.splits if_splits)
qed

text \<open>The main thread, which leaves the workers alone or wakes them.\<close>

lemma dgram_locks_main_move:
  assumes "dgram_locks s" "ds_pc s' = ds_pc s \<or> ds_pc s' = (\<lambda>i. worker_woken (ds_pc s i))" "ds_threads s' = ds_threads s" "ds_running s' \<longrightarrow> ds_running s"
    "ds_stop_lock s' \<longleftrightarrow> ds_main s' \<in> {DMReady, DMClear}" "ds_threads s = 0 \<or> (\<forall>d. ds_main s' \<noteq> DMProcess d)"
    and mtx: "ds_mtx s' = ds_mtx s \<and> main_has_mtx (ds_main s') = main_has_mtx (ds_main s)
      \<or> ds_mtx s = None \<and> ds_mtx s' = Some DMain \<and> main_has_mtx (ds_main s')
      \<or> ds_mtx s = Some DMain \<and> ds_mtx s' = None \<and> \<not> main_has_mtx (ds_main s')"
  shows "dgram_locks s'"
proof -
  have old: "worker_has_mtx (ds_pc s j) = (ds_mtx s = Some (DWorker j))" "main_has_mtx (ds_main s) = (ds_mtx s = Some DMain)"
    "ds_threads s \<le> j \<Longrightarrow> ds_pc s j = DWEnd" "ds_running s \<Longrightarrow> j < ds_threads s \<Longrightarrow> ds_pc s j \<notin> {DWFinish, DWEnd}" for j
    using assms(1) by (simp_all add: dgram_locks_def)
  have a: "worker_has_mtx (ds_pc s' j) = (ds_mtx s' = Some (DWorker j))" for j using old(1) [of j] assms(2) mtx by auto
  have b: "main_has_mtx (ds_main s') = (ds_mtx s' = Some DMain)" using old(2) mtx by auto
  have c: "ds_threads s \<le> j \<Longrightarrow> ds_pc s' j = DWEnd" "ds_running s \<Longrightarrow> j < ds_threads s \<Longrightarrow> ds_pc s' j \<notin> {DWFinish, DWEnd}" for j
    using old(3,4) [of j] assms(2) by auto
  show ?thesis unfolding dgram_locks_def assms(3) using a b c assms(4-6) by blast
qed

lemma dgram_locks_main:
  assumes "vtm_socket_dgram_srv_main_run inp s (ds_main s) = Some s'" "dgram_locks s"
  shows "dgram_locks s'"
proof -
  have old: "main_has_mtx (ds_main s) = (ds_mtx s = Some DMain)" "ds_stop_lock s \<longleftrightarrow> ds_main s \<in> {DMReady, DMClear}"
    "ds_threads s = 0 \<or> (\<forall>d. ds_main s \<noteq> DMProcess d)" using assms(2) by (simp_all add: dgram_locks_def)
  show ?thesis using assms(1) old
    by (cases "ds_main s"; intro dgram_locks_main_move [OF assms(2)])
      (auto simp: dgram_state_defs Let_def split: if_splits option.splits)
qed

lemma dgram_locks_enqueue:
  assumes "vtm_socket_dgram_srv_enqueue_dgram s (ds_main s) = Some s'" "dgram_locks s"
  shows "dgram_locks s'"
proof -
  have old: "main_has_mtx (ds_main s) = (ds_mtx s = Some DMain)" "ds_stop_lock s \<longleftrightarrow> ds_main s \<in> {DMReady, DMClear}"
    using assms(2) by (simp_all add: dgram_locks_def)
  show ?thesis using assms(1) old
    by (cases "ds_main s"; intro dgram_locks_main_move [OF assms(2)])
      (auto simp: dgram_state_defs ds_lock_Some split: if_splits)
qed

lemma dgram_locks_run:
  assumes "vtm_socket_dgram_srv_run s (ds_main s) = Some s'" "dgram_locks s"
  shows "dgram_locks s'"
proof -
  have old: "main_has_mtx (ds_main s) = (ds_mtx s = Some DMain)" "ds_stop_lock s \<longleftrightarrow> ds_main s \<in> {DMReady, DMClear}"
    using assms(2) by (simp_all add: dgram_locks_def)
  show ?thesis using assms(1) old
    by (cases "ds_main s"; intro dgram_locks_main_move [OF assms(2)])
      (auto simp: dgram_state_defs split: if_splits)
qed

lemma dgram_locks_reach: "dgram_reach threads limit s \<Longrightarrow> dgram_locks s"
proof (induction rule: dgram_reach.induct)
  case init
  show ?case by (auto simp: dgram_locks_def dgram_init_def)
next
  case (step s s')
  from step(2,3) show ?case
    by (cases rule: dgram_step.cases) (blast intro: dgram_locks_worker dgram_locks_main dgram_locks_enqueue dgram_locks_run)+
next
  case (stop s intr rc s')
  then show ?case by (auto simp: vtm_socket_dgram_srv_stop_def dgram_locks_def split: if_splits)
next
  case (spurious_worker s i)
  have "i < ds_threads s" using spurious_worker by (force simp: dgram_locks_def not_less [symmetric])
  then show ?case using spurious_worker(2)
    by (intro dgram_locks_move [OF spurious_worker(3)]) (auto simp: ds_goto_def)
next
  case (spurious_main s d)
  then show ?case by (intro dgram_locks_main_move [OF spurious_main(3)]) (auto simp: ds_at_def dgram_locks_def)
qed

lemma unat_count_pred: "0 < unat (c :: u32) \<Longrightarrow> unat (c - 1) = unat c - 1"
  by (metis One_nat_def Suc_le_eq unat_1 unat_sub word_le_nat_alt)

lemma unat_count_succ: "c < (l :: u32) \<Longrightarrow> unat (c + 1) = unat c + 1"
  using unsigned_less [of l, where ?'a = nat] by (simp add: word_less_nat_alt unat_word_ariths)

lemma dgram_queue_worker:
  assumes "vtm_socket_dgram_srv_worker_run i s (ds_pc s i) = Some s'" "dgram_locks s" "dgram_queue s"
  shows "dgram_queue s'"
proof (cases "ds_pc s i = DWLocked \<and> ds_dgrams s \<noteq> []")
  case True
  then obtain d ds where q: "ds_pc s i = DWLocked" "ds_dgrams s = d # ds" by (cases "ds_dgrams s") auto
  then have "ds_mtx s = Some (DWorker i)" using assms(2) by (auto simp: dgram_locks_def dest!: spec [of _ i])
  then have "\<not> main_has_mtx (ds_main s)" using assms(2) by (simp add: dgram_locks_def)
  then have w: "\<not> main_waits (main_woken (ds_main s))" by (cases "ds_main s") auto
  have nb: "ds_pc s j \<notin> {DWBlocked, DWWait}" for j using assms(3) q(2) by (auto simp: dgram_queue_def)
  show ?thesis using assms(1,3) q w nb
    by (auto simp: dgram_state_defs dgram_queue_def unat_count_pred split: if_splits)
next
  case False
  then show ?thesis using assms(1,3)
    by (cases "ds_pc s i") (auto simp: dgram_state_defs dgram_queue_def ds_lock_Some split: if_splits list.splits)
qed

lemma dgram_queue_main:
  assumes "vtm_socket_dgram_srv_main_run inp s (ds_main s) = Some s'" "dgram_queue s"
  shows "dgram_queue s'"
  using assms by (cases "ds_main s") (auto simp: dgram_state_defs dgram_queue_def Let_def split: if_splits option.splits)

lemma dgram_queue_enqueue:
  assumes "vtm_socket_dgram_srv_enqueue_dgram s (ds_main s) = Some s'" "dgram_locks s" "dgram_queue s"
  shows "dgram_queue s'"
proof (cases "\<exists>d. ds_main s = DMLocked d \<and> ds_count s < ds_limit s")
  case True
  then obtain d where d: "ds_main s = DMLocked d" "ds_count s < ds_limit s" by blast
  then have m: "ds_mtx s = Some DMain" using assms(2) by (simp add: dgram_locks_def)
  have nw: "ds_pc s j \<noteq> DWWait" for j
  proof
    assume "ds_pc s j = DWWait"
    then have "worker_has_mtx (ds_pc s j)" by simp
    with assms(2) m show False by (simp add: dgram_locks_def)
  qed
  have "unat (ds_count s) < unat (ds_limit s)" using d(2) by (simp add: word_less_nat_alt)
  moreover have "\<not> ds_limit s \<le> ds_count s" using d(2) by simp
  ultimately show ?thesis using assms(1,3) d(1) nw unat_count_succ [OF d(2)]
    by (auto simp: dgram_state_defs dgram_queue_def)
next
  case False
  then show ?thesis using assms(1,3)
    by (cases "ds_main s") (auto simp: dgram_state_defs dgram_queue_def ds_lock_Some split: if_splits)
qed

lemma dgram_queue_run:
  assumes "vtm_socket_dgram_srv_run s (ds_main s) = Some s'" "dgram_queue s"
  shows "dgram_queue s'"
  using assms by (cases "ds_main s") (auto simp: dgram_state_defs dgram_queue_def split: if_splits)

lemma dgram_queue_reach: "dgram_reach threads limit s \<Longrightarrow> dgram_queue s"
proof (induction rule: dgram_reach.induct)
  case init
  show ?case by (auto simp: dgram_queue_def dgram_init_def)
next
  case (step s s')
  note l = dgram_locks_reach [OF step(1)]
  from step(2,3) show ?case
    by (cases rule: dgram_step.cases) (blast intro: dgram_queue_worker [OF _ l] dgram_queue_main dgram_queue_enqueue [OF _ l] dgram_queue_run)+
next
  case (stop s intr rc s')
  then show ?case by (auto simp: vtm_socket_dgram_srv_stop_def dgram_queue_def split: if_splits)
next
  case (spurious_worker s i)
  then show ?case by (auto simp: ds_goto_def dgram_queue_def split: if_splits)
next
  case (spurious_main s d)
  then show ?case by (auto simp: ds_at_def dgram_queue_def)
qed

text \<open>The threads and the limit of the queue do not change.\<close>

lemma dgram_const: "dgram_reach threads limit s \<Longrightarrow> ds_threads s = threads \<and> ds_limit s = (if limit = 0 then of_nat threads * 2 else limit)"
proof (induction rule: dgram_reach.induct)
  case init
  show ?case by (simp add: dgram_init_def)
next
  case (step s s')
  have "ds_threads s' = ds_threads s \<and> ds_limit s' = ds_limit s" using step(2)
  proof (cases rule: dgram_step.cases)
    case (worker i)
    then show ?thesis by (cases "ds_pc s i") (auto simp: dgram_state_defs ds_lock_Some split: list.splits if_splits)
  next
    case (main inp)
    then show ?thesis by (cases "ds_main s") (auto simp: dgram_state_defs Let_def split: if_splits)
  next
    case enqueue
    then show ?thesis by (cases "ds_main s") (auto simp: dgram_state_defs ds_lock_Some split: if_splits)
  next
    case run
    then show ?thesis by (cases "ds_main s") (auto simp: dgram_state_defs split: if_splits)
  qed
  with step(3) show ?case by simp
qed (auto simp: dgram_state_defs split: if_splits)

lemma dgram_order_worker:
  assumes "vtm_socket_dgram_srv_worker_run i s (ds_pc s i) = Some s'" "dgram_order s"
  shows "dgram_order s'"
  using assms
  by (cases "ds_pc s i") (auto simp: dgram_state_defs dgram_order_def ds_lock_Some split: if_splits list.splits)

lemma dgram_order_main:
  assumes "vtm_socket_dgram_srv_main_run inp s (ds_main s) = Some s'" "dgram_locks s" "dgram_order s"
  shows "dgram_order s'"
  using assms
  by (cases "ds_main s") (auto simp: dgram_state_defs dgram_order_def dgram_locks_def Let_def split: if_splits option.splits)

lemma dgram_order_enqueue:
  assumes "vtm_socket_dgram_srv_enqueue_dgram s (ds_main s) = Some s'" "dgram_order s"
  shows "dgram_order s'"
  using assms
  by (cases "ds_main s") (auto simp: dgram_state_defs dgram_order_def ds_lock_Some split: if_splits)

lemma dgram_order_run:
  assumes "vtm_socket_dgram_srv_run s (ds_main s) = Some s'" "dgram_order s"
  shows "dgram_order s'"
  using assms
  by (cases "ds_main s") (auto simp: dgram_state_defs dgram_order_def split: if_splits)

lemma dgram_order_reach: "dgram_reach threads limit s \<Longrightarrow> dgram_order s"
proof (induction rule: dgram_reach.induct)
  case init
  show ?case by (simp add: dgram_order_def dgram_init_def)
next
  case (step s s')
  note l = dgram_locks_reach [OF step(1)]
  from step(2,3) show ?case
    by (cases rule: dgram_step.cases) (blast intro: dgram_order_worker dgram_order_main [OF _ l] dgram_order_enqueue dgram_order_run)+
next
  case (stop s intr rc s')
  then show ?case by (auto simp: vtm_socket_dgram_srv_stop_def dgram_order_def split: if_splits)
next
  case (spurious_worker s i)
  then show ?case by (auto simp: ds_goto_def dgram_order_def)
next
  case (spurious_main s d)
  then show ?case by (auto simp: ds_at_def dgram_order_def)
qed

lemma worker_dgram_move:
  assumes "i < (n :: nat)"
  shows "(\<Sum>j < n. worker_dgram ((f(i := pc)) j)) + worker_dgram (f i) = (\<Sum>j < n. worker_dgram (f j)) + worker_dgram pc"
proof -
  have split: "(\<Sum>j < n. h j) = h i + (\<Sum>j \<in> {..<n} - {i}. h j)" for h :: "nat \<Rightarrow> vtm_socket_dgram multiset"
    using assms by (simp add: sum.remove)
  have "(\<Sum>j \<in> {..<n} - {i}. worker_dgram ((f(i := pc)) j)) = (\<Sum>j \<in> {..<n} - {i}. worker_dgram (f j))" by (rule sum.cong) auto
  then show ?thesis using split [of "\<lambda>j. worker_dgram ((f(i := pc)) j)"] split [of "\<lambda>j. worker_dgram (f j)"] by (simp add: ac_simps)
qed

lemma dgram_log_move:
  assumes "dgram_log s" "i < ds_threads s" "ds_pc s' = (ds_pc s)(i := ds_pc s' i)" "ds_threads s' = ds_threads s"
    and "mset (ds_taken s') + worker_dgram (ds_pc s i) + mset (ds_log s) = mset (ds_taken s) + worker_dgram (ds_pc s' i) + mset (ds_log s')"
  shows "dgram_log s'"
proof -
  define t where "t = (\<Sum>j < ds_threads s. worker_dgram (ds_pc s j))"
  define t' where "t' = (\<Sum>j < ds_threads s. worker_dgram (ds_pc s' j))"
  have move: "t' + worker_dgram (ds_pc s i) = t + worker_dgram (ds_pc s' i)"
    using worker_dgram_move [OF assms(2), of "ds_pc s" "ds_pc s' i"] assms(3) by (simp add: t_def t'_def)
  have old: "mset (ds_taken s) = mset (ds_log s) + t" using assms(1,2) by (simp add: dgram_log_def t_def)
  have "mset (ds_taken s') + worker_dgram (ds_pc s i) + mset (ds_log s) = mset (ds_log s) + mset (ds_log s') + (t + worker_dgram (ds_pc s' i))"
    unfolding assms(5) old by (simp only: ac_simps)
  then have "mset (ds_taken s') + (worker_dgram (ds_pc s i) + mset (ds_log s)) = mset (ds_log s') + t' + (worker_dgram (ds_pc s i) + mset (ds_log s))"
    unfolding move [symmetric] by (simp only: ac_simps)
  then have "mset (ds_taken s') = mset (ds_log s') + t'" by simp
  then show ?thesis by (simp add: dgram_log_def assms(4) t'_def)
qed

lemma dgram_log_same:
  assumes "dgram_log s" "\<And>i. worker_dgram (ds_pc s' i) = worker_dgram (ds_pc s i)" "ds_threads s' = ds_threads s" "ds_taken s' = ds_taken s"
    "ds_threads s = 0 \<or> ds_log s' = ds_log s"
  shows "dgram_log s'"
  using assms by (auto simp: dgram_log_def)

lemma dgram_log_reach: "dgram_reach threads limit s \<Longrightarrow> dgram_log s"
proof (induction rule: dgram_reach.induct)
  case init
  show ?case by (simp add: dgram_log_def dgram_init_def)
next
  case (step s s')
  have l: "ds_threads s = 0 \<or> (\<forall>d. ds_main s \<noteq> DMProcess d)" using dgram_locks_reach [OF step(1)] by (simp add: dgram_locks_def)
  from step(2) show ?case
  proof (cases rule: dgram_step.cases)
    case (worker i)
    then show ?thesis
      by (cases "ds_pc s i"; intro dgram_log_move [OF step(3), of i]) (auto simp: dgram_state_defs ds_lock_Some ac_simps split: list.splits if_splits)
  next
    case (main inp)
    with l show ?thesis
      by (cases "ds_main s"; intro dgram_log_same [OF step(3)]) (auto simp: dgram_state_defs Let_def split: if_splits)
  next
    case enqueue
    then show ?thesis
      by (cases "ds_main s"; intro dgram_log_same [OF step(3)]) (auto simp: dgram_state_defs ds_lock_Some split: if_splits)
  next
    case run
    then show ?thesis
      by (cases "ds_main s"; intro dgram_log_same [OF step(3)]) (auto simp: dgram_state_defs split: if_splits)
  qed
next
  case (stop s intr rc s')
  then show ?case by (auto simp: vtm_socket_dgram_srv_stop_def dgram_log_def split: if_splits)
next
  case (spurious_worker s i)
  then show ?case by (intro dgram_log_same [OF spurious_worker(3)]) (auto simp: ds_goto_def)
next
  case (spurious_main s d)
  then show ?case by (intro dgram_log_same [OF spurious_main(3)]) (auto simp: ds_at_def)
qed

text \<open>Without workers the main thread runs the callback itself.\<close>

definition dgram_direct :: "dgram_srv \<Rightarrow> bool" where
  "dgram_direct s \<longleftrightarrow> (ds_threads s = 0 \<longrightarrow> ds_recvd s = ds_log s @ main_dgram (ds_main s) \<and> (\<forall>d. main_dgram (ds_main s) = [d] \<longrightarrow> ds_main s = DMProcess d))"

lemma dgram_direct_reach: "dgram_reach threads limit s \<Longrightarrow> dgram_direct s"
proof (induction rule: dgram_reach.induct)
  case init
  show ?case by (simp add: dgram_direct_def dgram_init_def)
next
  case (step s s')
  from step(2) show ?case
  proof (cases rule: dgram_step.cases)
    case (worker i)
    then have "ds_threads s \<noteq> 0" by simp
    moreover have "ds_threads s' = ds_threads s"
      using dgram_const [OF step(1)] dgram_const [OF dgram_reach.step [OF step(1,2)]] by simp
    ultimately show ?thesis by (simp add: dgram_direct_def)
  next
    case (main inp)
    with step(3) show ?thesis
      by (cases "ds_main s") (auto simp: dgram_direct_def dgram_state_defs Let_def split: if_splits option.splits)
  next
    case enqueue
    with step(3) show ?thesis
      by (cases "ds_main s") (auto simp: dgram_direct_def dgram_state_defs ds_lock_Some split: if_splits)
  next
    case run
    with step(3) show ?thesis
      by (cases "ds_main s") (auto simp: dgram_direct_def dgram_state_defs split: if_splits)
  qed
next
  case (stop s intr rc s')
  then show ?case by (auto simp: vtm_socket_dgram_srv_stop_def dgram_direct_def split: if_splits)
next
  case (spurious_worker s i)
  then show ?case by (auto simp: ds_goto_def dgram_direct_def)
next
  case (spurious_main s d)
  then show ?case by (auto simp: ds_at_def dgram_direct_def)
qed

subsection \<open>Schedules\<close>

datatype dgram_act = DActWorker nat | DActMain dgram_in | DActStop

fun dgram_do :: "dgram_act \<Rightarrow> dgram_srv \<Rightarrow> dgram_srv option" where
  "dgram_do (DActWorker i) s = (if i < ds_threads s then vtm_socket_dgram_srv_worker_run i s (ds_pc s i) else None)"
| "dgram_do (DActMain inp) s =
     (case vtm_socket_dgram_srv_main_run inp s (ds_main s) of
        Some s' \<Rightarrow> Some s'
      | None \<Rightarrow> (case vtm_socket_dgram_srv_enqueue_dgram s (ds_main s) of Some s' \<Rightarrow> Some s' | None \<Rightarrow> vtm_socket_dgram_srv_run s (ds_main s)))"
| "dgram_do DActStop s = map_option snd (vtm_socket_dgram_srv_stop VTM_OK s)"

fun dgram_exec :: "dgram_act list \<Rightarrow> dgram_srv \<Rightarrow> dgram_srv option" where
  "dgram_exec [] s = Some s"
| "dgram_exec (a # as) s = Option.bind (dgram_do a s) (dgram_exec as)"

lemma dgram_do_reach: "dgram_do a s = Some s' \<Longrightarrow> dgram_reach threads limit s \<Longrightarrow> dgram_reach threads limit s'"
  by (cases a) (auto intro: dgram_reach.step dgram_reach.stop dgram_step.intros split: if_splits option.splits)

lemma dgram_exec_reach: "dgram_exec as s = Some s' \<Longrightarrow> dgram_reach threads limit s \<Longrightarrow> dgram_reach threads limit s'"
proof (induction as arbitrary: s)
  case (Cons a as)
  then obtain s1 where "dgram_do a s = Some s1" "dgram_exec as s1 = Some s'" by (auto simp: Option.bind_eq_Some_conv)
  with Cons show ?case by (blast intro: dgram_do_reach)
qed simp

definition din0 :: dgram_in where
  "din0 = \<lparr>di_ok = True, di_rc = VTM_OK, di_event = Some (True, True), di_bytes = [1, 2], di_saddr = 7\<rparr>"

abbreviation dgram0 :: vtm_socket_dgram where "dgram0 \<equiv> dgram_recv [1, 2] 7"

text \<open>
  A worker is at work on the first of two datagrams; the main thread has put the second one into the queue, which is then full. It gets
  a third one and waits for room. Then the server is stopped, and the worker ends.
\<close>

definition drun_busy :: "dgram_act list" where
  "drun_busy = replicate 7 (DActMain din0) @ replicate 4 (DActWorker 0) @ replicate 7 (DActMain din0)"

definition drun_stuck :: "dgram_act list" where
  "drun_stuck = drun_busy @ replicate 8 (DActMain din0) @ [DActStop] @ replicate 3 (DActWorker 0)"

lemma dgram_num: "replicate (numeral k) x = x # replicate (pred_numeral k) x"
  by (simp add: numeral_eq_Suc)

lemma drun_busy_state:
  "\<exists>s. dgram_exec drun_busy (dgram_init 1 1) = Some s \<and> ds_running s \<and> ds_main s = DMAlloc \<and> ds_pc s 0 = DWProcess dgram0 \<and> ds_dgrams s = [dgram0]
     \<and> ds_taken s = [dgram0] \<and> ds_recvd s = [dgram0, dgram0] \<and> ds_log s = [] \<and> ds_threads s = 1 \<and> ds_limit s = 1"
  by (simp add: drun_busy_def dgram_num din0_def dgram_init_def dgram_state_defs ds_lock_def Let_def)

lemma drun_stuck_state:
  "\<exists>s. dgram_exec drun_stuck (dgram_init 1 1) = Some s \<and> \<not> ds_running s \<and> ds_main s = DMBlocked dgram0 \<and> ds_pc s 0 = DWEnd \<and> ds_threads s = 1"
  by (simp add: drun_stuck_def drun_busy_def dgram_num din0_def dgram_init_def dgram_state_defs ds_lock_def Let_def)

subsection \<open>Order, progress and a deadlock\<close>

text \<open>
  C20. Datagrams are neither lost, doubled nor reordered. In every state a running or stopping server can reach, the datagrams it has received are those taken
  out of the queue, followed by those in it, in the order of their arrival, and at most one more: the one the main thread is about to add, or one that was
  dropped because the server had been stopped while the queue was full. The queue is never longer than its limit. Each datagram taken out has been handed to the callback
  once, or is the one a worker has in its hands. Without workers the callback has got all of them in order.
\<close>

theorem dgram_srv_fifo:
  assumes "dgram_reach threads limit s" "ds_main s \<noteq> DMEnd"
  shows "if threads = 0 then ds_recvd s = ds_log s @ main_dgram (ds_main s)
    else (\<exists>lost. ds_recvd s = ds_taken s @ ds_dgrams s @ lost \<and> length lost \<le> 1 \<and> (lost = main_dgram (ds_main s) \<or> \<not> ds_running s))
      \<and> unat (ds_count s) = length (ds_dgrams s) \<and> ds_count s \<le> ds_limit s
      \<and> mset (ds_taken s) = mset (ds_log s) + (\<Sum>i < threads. worker_dgram (ds_pc s i))"
proof (cases "threads = 0")
  case True
  with dgram_direct_reach [OF assms(1)] dgram_const [OF assms(1)] show ?thesis by (simp add: dgram_direct_def)
next
  case False
  then have t: "ds_threads s = threads" "ds_threads s \<noteq> 0" using dgram_const [OF assms(1)] by simp_all
  have m: "length (main_dgram pc) \<le> 1" for pc by (cases pc) simp_all
  have "\<exists>lost. ds_recvd s = ds_taken s @ ds_dgrams s @ lost \<and> length lost \<le> 1 \<and> (lost = main_dgram (ds_main s) \<or> \<not> ds_running s)"
    using dgram_order_reach [OF assms(1)] t(2) assms(2) m [of "ds_main s"] by (auto simp: dgram_order_def)
  moreover have "unat (ds_count s) = length (ds_dgrams s)" "ds_count s \<le> ds_limit s"
    using dgram_queue_reach [OF assms(1)] assms(2) by (simp_all add: dgram_queue_def word_le_nat_alt)
  moreover have "mset (ds_taken s) = mset (ds_log s) + (\<Sum>i < threads. worker_dgram (ds_pc s i))"
    using dgram_log_reach [OF assms(1)] t by (simp add: dgram_log_def)
  ultimately show ?thesis using False by simp
qed

theorem dgram_srv_fifo_witness:
  "\<exists>s. dgram_reach 1 1 s \<and> ds_recvd s = [dgram0, dgram0] \<and> unat (ds_count s) = 1 \<and> mset (ds_taken s) = mset (ds_log s) + worker_dgram (ds_pc s 0)"
proof -
  obtain s where s: "dgram_exec drun_busy (dgram_init 1 1) = Some s" "ds_main s = DMAlloc" "ds_recvd s = [dgram0, dgram0]" "ds_dgrams s = [dgram0]"
    using drun_busy_state by blast
  have r: "dgram_reach 1 1 s" by (rule dgram_exec_reach [OF s(1) dgram_reach.init])
  have "ds_main s \<noteq> DMEnd" using s(2) by simp
  from dgram_srv_fifo [OF r this] r s(3,4) show ?thesis by auto
qed

text \<open>A thread that holds the mutex can go on.\<close>

lemma dgram_holder_steps:
  assumes "dgram_locks s" "ds_mtx s = Some t"
  shows "\<exists>s'. dgram_step s s'"
proof (cases t)
  case (DWorker i)
  then have h: "worker_has_mtx (ds_pc s i)" using assms by (simp add: dgram_locks_def)
  then have "i < ds_threads s" using assms(1) by (cases "i < ds_threads s") (auto simp: dgram_locks_def not_less)
  moreover have "\<exists>s'. vtm_socket_dgram_srv_worker_run i s (ds_pc s i) = Some s'" using h by (cases "ds_pc s i") simp_all
  ultimately show ?thesis by (blast intro: dgram_step.worker)
next
  case DMain
  then have "main_has_mtx (ds_main s)" using assms by (simp add: dgram_locks_def)
  then have "\<exists>s'. vtm_socket_dgram_srv_enqueue_dgram s (ds_main s) = Some s'" by (cases "ds_main s") simp_all
  then show ?thesis by (blast intro: dgram_step.enqueue)
qed

lemma dgram_worker_steps:
  assumes "ds_mtx s = None" "i < ds_threads s" "ds_pc s i \<notin> {DWBlocked, DWEnd}"
  shows "\<exists>s'. dgram_step s s'"
proof -
  have "\<exists>s'. vtm_socket_dgram_srv_worker_run i s (ds_pc s i) = Some s'" using assms(1,3) by (cases "ds_pc s i") (simp_all add: ds_lock_def)
  with assms(2) show ?thesis by (blast intro: dgram_step.worker)
qed

text \<open>
  C21. The main thread and the workers do not wait for each other. While the server runs, a worker waits only when the queue is empty, the main thread waits only when
  it is full, and some thread can always go on, without a wait that ends by itself; the exception is a main thread that waits for the end of the workers because it could
  not allocate memory when it began.
\<close>

theorem dgram_srv_no_deadlock:
  assumes "dgram_reach threads limit s" "ds_running s" "ds_main s \<notin> {DMJoin, DMEnd}" "0 < ds_limit s"
  shows "(\<exists>s'. dgram_step s s') \<and> (\<forall>i. ds_pc s i = DWBlocked \<longrightarrow> ds_dgrams s = [])
    \<and> (\<forall>d. ds_main s = DMBlocked d \<longrightarrow> length (ds_dgrams s) = unat (ds_limit s))"
proof -
  note l = dgram_locks_reach [OF assms(1)] and q = dgram_queue_reach [OF assms(1)]
  have empty: "ds_pc s i = DWBlocked \<Longrightarrow> ds_dgrams s = []" for i using q by (auto simp: dgram_queue_def)
  have full: "length (ds_dgrams s) = unat (ds_limit s)" if "ds_main s = DMBlocked d" for d
    using q that by (auto simp: dgram_queue_def word_le_nat_alt)
  have "\<exists>s'. dgram_step s s'"
  proof (cases "ds_mtx s")
    case (Some t)
    then show ?thesis by (rule dgram_holder_steps [OF l])
  next
    case None
    show ?thesis
    proof (cases "\<exists>d. ds_main s = DMBlocked d")
      case True
      then obtain d where d: "ds_main s = DMBlocked d" by blast
      then have ne: "ds_dgrams s \<noteq> []" using full [OF d] assms(4) by (auto simp: word_less_nat_alt)
      have "ds_threads s \<noteq> 0" using dgram_direct_reach [OF assms(1)] d by (auto simp: dgram_direct_def)
      moreover have "ds_pc s 0 \<notin> {DWBlocked, DWEnd}" if "0 < ds_threads s"
        using q l ne assms(2) that by (auto simp: dgram_queue_def dgram_locks_def)
      ultimately show ?thesis using dgram_worker_steps [OF None, of 0] by simp
    next
      case False
      have "\<not> ds_stop_lock s \<or> ds_main s = DMReady \<or> ds_main s = DMClear" using l by (auto simp: dgram_locks_def)
      then have "(\<exists>s'. vtm_socket_dgram_srv_main_run inp s (ds_main s) = Some s') \<or> (\<exists>s'. vtm_socket_dgram_srv_enqueue_dgram s (ds_main s) = Some s')
          \<or> (\<exists>s'. vtm_socket_dgram_srv_run s (ds_main s) = Some s')" for inp
        using False assms(3) None by (cases "ds_main s") (auto simp: ds_lock_def)
      then show ?thesis by (blast intro: dgram_step.main dgram_step.enqueue dgram_step.run)
    qed
  qed
  with empty full show ?thesis by blast
qed

theorem dgram_srv_no_deadlock_witness:
  "\<exists>s s'. dgram_reach 1 1 s \<and> ds_running s \<and> ds_dgrams s = [dgram0] \<and> dgram_step s s'"
proof -
  obtain s where s: "dgram_exec drun_busy (dgram_init 1 1) = Some s" "ds_main s = DMAlloc" "ds_running s" "ds_limit s = 1" "ds_dgrams s = [dgram0]"
    using drun_busy_state by blast
  have r: "dgram_reach 1 1 s" by (rule dgram_exec_reach [OF s(1) dgram_reach.init])
  have "\<exists>s'. dgram_step s s'" using dgram_srv_no_deadlock [OF r s(3)] s(2,4) by simp
  with r s(3,5) show ?thesis by blast
qed

text \<open>
  C35. Stopping a busy server can block it for ever. When the main thread waits for room in the queue and the server is stopped, the workers end without
  taking another datagram out, and nobody wakes the main thread: a state can be reached in which the server has been stopped, the main thread waits for room, and no
  thread can take a step.
\<close>

theorem dgram_srv_stop_stuck:
  "\<exists>s. dgram_reach 1 1 s \<and> \<not> ds_running s \<and> ds_main s = DMBlocked dgram0 \<and> (\<forall>s'. \<not> dgram_step s s')"
proof -
  obtain s where s: "dgram_exec drun_stuck (dgram_init 1 1) = Some s" "\<not> ds_running s" "ds_main s = DMBlocked dgram0" "ds_pc s 0 = DWEnd" "ds_threads s = 1"
    using drun_stuck_state by blast
  have r: "dgram_reach 1 1 s" by (rule dgram_exec_reach [OF s(1) dgram_reach.init])
  have "\<not> dgram_step s s'" for s' using s(3-5) by (auto elim!: dgram_step.cases)
  with r s(2,3) show ?thesis by blast
qed

end
