(* ===== verification/NmDgram.thy ===== *)
theory NmDgram
  imports NmStream DgramServer
begin

text \<open>
  Messages in datagrams: \<open>net/nm/nm_dgram_client.c\<close> and \<open>net/nm/nm_dgram_server.c\<close>. A message is one datagram. The calls that send and receive
  datagrams are arguments: \<open>snd_to\<close> gets the bytes and an address and returns the number of bytes sent, \<open>rcv\<close> gets the size of the array
  and returns the bytes, no more than fit, and the address of the sender. \<open>par\<close> is the memory of the parser.
\<close>

type_synonym 's dgram_send = "byte list \<Rightarrow> nat \<Rightarrow> 's \<Rightarrow> (vtm_rc \<times> nat) \<times> 's"
type_synonym 's dgram_read = "nat \<Rightarrow> 's \<Rightarrow> (vtm_rc \<times> byte list \<times> nat) \<times> 's"

record vtm_nm_dgram_client =
  nc_sock :: nat

definition vtm_nm_dgram_client_new :: "bool \<Rightarrow> nat option \<Rightarrow> vtm_nm_dgram_client option" where
  "vtm_nm_dgram_client_new mem sock = (if mem then map_option (\<lambda>k. \<lparr>nc_sock = k\<rparr>) sock else None)"

text \<open>The sockets that are freed.\<close>

definition vtm_nm_dgram_client_free :: "vtm_nm_dgram_client option \<Rightarrow> nat list" where
  "vtm_nm_dgram_client_free cl = (case cl of None \<Rightarrow> [] | Some c \<Rightarrow> [nc_sock c])"

definition VTM_NM_DGRAM_CL_OPT_RECV_TIMEOUT :: int where "VTM_NM_DGRAM_CL_OPT_RECV_TIMEOUT = 1"

definition VTM_SOCK_OPT_RECV_TIMEOUT :: int where "VTM_SOCK_OPT_RECV_TIMEOUT = 3"

definition vtm_nm_dgram_client_set_opt :: "(int \<Rightarrow> u64 \<Rightarrow> 's \<Rightarrow> vtm_rc \<times> 's) \<Rightarrow> int \<Rightarrow> u64 \<Rightarrow> 's \<Rightarrow> vtm_rc \<times> 's" where
  "vtm_nm_dgram_client_set_opt set_opt opt val s =
     (if opt = VTM_NM_DGRAM_CL_OPT_RECV_TIMEOUT then set_opt VTM_SOCK_OPT_RECV_TIMEOUT val s else (VTM_E_NOT_SUPPORTED, s))"

text \<open>The first result is \<open>None\<close> when the return code has no value, for a message without fields.\<close>

definition vtm_nm_dgram_client_send ::
    "vtm_byteorder \<Rightarrow> allocator \<Rightarrow> 's dgram_send \<Rightarrow> vtm_dataset \<Rightarrow> nat \<Rightarrow> 's \<Rightarrow> (vtm_rc option \<times> 's) option" where
  "vtm_nm_dgram_client_send host ma snd_to msg saddr s =
     (case vtm_nm_msg_to_buf host ma (Some msg) (vtm_buf_init VTM_BYTEORDER_BE) of
        None \<Rightarrow> None
      | Some (rc, b) \<Rightarrow>
          if rc \<noteq> Some VTM_OK then Some (rc, s)
          else let ((rc, sent), s) = snd_to (take (unat (buf_used b)) (buf_data b)) saddr s
               in Some (Some (if rc \<noteq> VTM_OK then rc else if buf_used b \<noteq> of_nat sent then VTM_E_IO_PARTIAL else VTM_OK), s))"

text \<open>The return code, the message and the address of the sender.\<close>

definition vtm_nm_dgram_client_recv ::
    "vtm_byteorder \<Rightarrow> allocator \<Rightarrow> vtm_nm_parser \<Rightarrow> 's dgram_read \<Rightarrow> vtm_dataset \<Rightarrow> 's \<Rightarrow> (vtm_rc \<times> vtm_dataset option \<times> nat \<times> 's) option" where
  "vtm_nm_dgram_client_recv host ma par rcv msg s =
     (let b = vtm_buf_init VTM_BYTEORDER_BE; ((rc, bs, from), s) = rcv (unat (buf_len b)) s
      in if rc \<noteq> VTM_OK then Some (rc, Some msg, from, s)
         else map_option (\<lambda>(rc, m, b). (rc, m, from, s)) (vtm_nm_msg_from_buf host ma par msg (VTM_BUF_PUT_INC b bs)))"

definition vtm_nm_dgram_srv_send ::
    "vtm_byteorder \<Rightarrow> allocator \<Rightarrow> 's dgram_send \<Rightarrow> vtm_dataset \<Rightarrow> nat \<Rightarrow> 's \<Rightarrow> (vtm_rc option \<times> 's) option" where
  "vtm_nm_dgram_srv_send host ma snd_to msg saddr s =
     (case vtm_nm_msg_to_buf host ma (Some msg) (vtm_buf_init VTM_BYTEORDER_BE) of
        None \<Rightarrow> None
      | Some (rc, b) \<Rightarrow>
          if rc \<noteq> Some VTM_OK then Some (rc, s)
          else let (rc, s) = vtm_socket_dgram_srv_send snd_to (take (unat (buf_used b)) (buf_data b)) saddr s in Some (Some rc, s))"

text \<open>
  The callback of the datagram server. \<open>mem\<close> says whether the dataset can be allocated; \<open>None\<close>: the parser leaves its memory. A datagram that is
  not a message is dropped.
\<close>

definition vtm_nm_dgram_srv_dgram_recv ::
    "vtm_byteorder \<Rightarrow> bool \<Rightarrow> allocator \<Rightarrow> vtm_nm_parser \<Rightarrow> (vtm_dataset \<Rightarrow> nat \<Rightarrow> 's \<Rightarrow> 's) option \<Rightarrow> vtm_socket_dgram \<Rightarrow> 's \<Rightarrow> 's option" where
  "vtm_nm_dgram_srv_dgram_recv host mem ma par msg_recv d s =
     (case msg_recv of
        None \<Rightarrow> Some s
      | Some cb \<Rightarrow>
          if \<not> mem then Some s
          else case vtm_nm_msg_from_buf host ma par vtm_dataset_new (dg_buf d) of
                 None \<Rightarrow> None
               | Some (rc, m, b) \<Rightarrow>
                   if rc = VTM_OK then (case m of None \<Rightarrow> None | Some msg \<Rightarrow> Some (cb msg (dg_saddr d) s)) else Some s)"

subsection \<open>A message is a datagram\<close>

text \<open>A network that takes every datagram.\<close>

definition dgram_net :: "'s dgram_send \<Rightarrow> ('s \<Rightarrow> (byte list \<times> nat) list) \<Rightarrow> bool" where
  "dgram_net snd_to sent \<longleftrightarrow> (\<forall>bs a s. \<exists>s'. snd_to bs a s = ((VTM_OK, length bs), s') \<and> sent s' = sent s @ [(bs, a)])"

lemma client_sends:
  assumes "nm_msg_ok m" "\<forall>k. ma k" "dgram_net snd_to sent" "length (nm_msg_bytes VTM_BYTEORDER_BE (snd m)) \<le> 2 ^ 60"
  obtains s' where "vtm_nm_dgram_client_send host ma snd_to (fst m) a s = Some (Some VTM_OK, s')"
    "sent s' = sent s @ [(nm_msg_bytes VTM_BYTEORDER_BE (snd m), a)]"
proof -
  define bs where "bs = nm_msg_bytes VTM_BYTEORDER_BE (snd m)"
  have room: "buf_room (vtm_buf_init VTM_BYTEORDER_BE) (length bs + 0)" using assms(4) buf_room_init by (simp add: bs_def)
  have o: "buf_order (vtm_buf_init VTM_BYTEORDER_BE) = VTM_BYTEORDER_BE" by (simp add: vtm_buf_init_def)
  obtain b where b: "vtm_nm_msg_to_buf host ma (Some (fst m)) (vtm_buf_init VTM_BYTEORDER_BE) = Some (Some VTM_OK, b)"
    "buf_ext (vtm_buf_init VTM_BYTEORDER_BE) bs b"
    using msg_to_buf_room [OF _ _ _ _ room [unfolded bs_def] assms(2) o, of "fst m" host] assms(1) by (auto simp: nm_msg_ok_def bs_def)
  have d: "buf_data b = bs" "vtm_buf_inv b" using b(2) by (simp_all add: buf_ext_def) (simp add: vtm_buf_init_def)
  then have u: "unat (buf_used b) = length bs" by (simp add: vtm_buf_inv_def)
  then have u': "of_nat (length bs) = buf_used b" unfolding u [symmetric] by simp
  obtain s' where s': "snd_to bs a s = ((VTM_OK, length bs), s')" "sent s' = sent s @ [(bs, a)]" using assms(3) unfolding dgram_net_def by blast
  show thesis using b(1) d(1) u u' s' by (intro that [of s']) (simp_all add: vtm_nm_dgram_client_send_def bs_def [symmetric])
qed

lemma recv_buf:
  assumes "bs' = take 1024 bs"
  shows "dg_buf (dgram_recv bs a) = VTM_BUF_PUT_INC (vtm_buf_init VTM_BYTEORDER_BE) bs'" "dg_saddr (dgram_recv bs a) = a"
    "vtm_buf_inv (dg_buf (dgram_recv bs a))" "buf_unread (dg_buf (dgram_recv bs a)) = bs'" "buf_order (dg_buf (dgram_recv bs a)) = VTM_BYTEORDER_BE"
    "buf_err (dg_buf (dgram_recv bs a)) = VTM_OK" "buf_room (dg_buf (dgram_recv bs a)) (2 ^ 60 - 1024)"
proof -
  define b where "b = VTM_BUF_PUT_INC (vtm_buf_init VTM_BYTEORDER_BE) bs'"
  have u: "unat (1024 :: size_t) = 1024" by simp
  show e: "dg_buf (dgram_recv bs a) = VTM_BUF_PUT_INC (vtm_buf_init VTM_BYTEORDER_BE) bs'" "dg_saddr (dgram_recv bs a) = a"
    by (simp_all add: dgram_recv_def assms vtm_buf_init_def VTM_BUF_SDATA_LEN_def u)
  have room: "buf_room (vtm_buf_init VTM_BYTEORDER_BE) (length bs' + (2 ^ 60 - 1024))"
    by (rule buf_room_init) (simp add: assms)
  have fits: "length bs' \<le> unat (VTM_BUF_PUT_AVAIL_TOTAL (vtm_buf_init VTM_BYTEORDER_BE))"
    by (simp add: assms vtm_buf_init_def VTM_BUF_PUT_AVAIL_TOTAL_def VTM_BUF_SDATA_LEN_def)
  note p = put_inc_room [OF room fits]
  show "vtm_buf_inv (dg_buf (dgram_recv bs a))" "buf_order (dg_buf (dgram_recv bs a)) = VTM_BYTEORDER_BE"
    "buf_err (dg_buf (dgram_recv bs a)) = VTM_OK" "buf_room (dg_buf (dgram_recv bs a)) (2 ^ 60 - 1024)"
    unfolding e(1) using p by (simp_all add: buf_ext_def) (simp add: vtm_buf_init_def)
  show "buf_unread (dg_buf (dgram_recv bs a)) = bs'"
    unfolding e(1) using buf_ext_unread [OF vtm_buf_init_inv p(1)] by (simp add: buf_unread_def) (simp add: vtm_buf_init_def)
qed

lemma nm_store_new: "es \<noteq> [] \<Longrightarrow> foldl (\<lambda>m e. Some (nm_store m e)) (Some vtm_dataset_new) es = foldl (\<lambda>m e. Some (nm_store m e)) None es"
  by (cases es) (simp_all add: nm_store_def)

abbreviation nm_fresh :: "vtm_byteorder \<Rightarrow> vtm_nm_parser \<Rightarrow> vtm_nm_parser" where
  "nm_fresh host par \<equiv> (vtm_nm_parser_init host par)\<lparr>np_msg := Some vtm_dataset_new\<rparr>"

text \<open>
  C22. A message that fits into the array of a buffer, 1024 bytes, arrives: the client sends it as one datagram, and from this datagram the server gets a dataset with the same
  fields, which it hands to the callback together with the address of the sender.
\<close>

theorem nm_dgram_delivers:
  assumes "nm_msg_ok m" and ma: "\<forall>k. ma k" and net: "dgram_net snd_to sent" and len: "length (nm_msg_bytes VTM_BYTEORDER_BE (snd m)) \<le> 1024"
  shows "\<exists>s' bs ds'. vtm_nm_dgram_client_send h1 ma snd_to (fst m) a s = Some (Some VTM_OK, s') \<and> sent s' = sent s @ [(bs, a)]
    \<and> vtm_nm_dgram_srv_dgram_recv h2 True ma par (Some cb) (dgram_recv bs peer) t = Some (cb ds' peer t) \<and> nm_same m ds'"
proof -
  define bs where "bs = nm_msg_bytes VTM_BYTEORDER_BE (snd m)"
  have "length (nm_msg_bytes VTM_BYTEORDER_BE (snd m)) \<le> 2 ^ 60" using len by simp
  then obtain s' where s': "vtm_nm_dgram_client_send h1 ma snd_to (fst m) a s = Some (Some VTM_OK, s')" "sent s' = sent s @ [(bs, a)]"
    using client_sends [OF assms(1) ma net, of h1 a s] unfolding bs_def by blast
  have fit: "bs = take 1024 bs" using len by (simp add: bs_def)
  note r = recv_buf [OF fit, of peer]
  have inp: "nm_input (dg_buf (dgram_recv bs peer)) VTM_BYTEORDER_BE (nm_msg_bytes VTM_BYTEORDER_BE (snd m) @ [])"
    using r(3-5) by (simp add: nm_input_def bs_def)
  have ok: "list_all nm_entry_ok (snd m)" "length (snd m) \<le> 65535" "snd m \<noteq> []" using assms(1) by (simp_all add: nm_msg_ok_def)
  from read_msg [OF inp ok(1) ma ok(2), of "nm_fresh h2 par"] obtain par' b' where
    run: "vtm_nm_parser_run ma (nm_fresh h2 par) (dg_buf (dgram_recv bs peer)) = Some (VTM_NET_RECV_STAT_COMPLETE, par', b')"
    "np_msg par' = foldl (\<lambda>m e. Some (nm_store m e)) (Some vtm_dataset_new) (snd m)"
    by (auto simp: vtm_nm_parser_init_def)
  obtain ds' where ds': "foldl (\<lambda>m e. Some (nm_store m e)) None (snd m) = Some ds'" "nm_same m ds'"
    using nm_received_dataset [of "fst m" "snd m"] assms(1) unfolding nm_msg_ok_def nm_same_def by metis
  have "vtm_nm_dgram_srv_dgram_recv h2 True ma par (Some cb) (dgram_recv bs peer) t = Some (cb ds' peer t)"
    using run ds'(1) nm_store_new [OF ok(3)] r(2) by (simp add: vtm_nm_dgram_srv_dgram_recv_def vtm_nm_msg_from_buf_def)
  with s' ds'(2) show ?thesis by blast
qed

text \<open>
  C36. A longer message is lost without notice: the client reports that it has been sent, but the receiver takes no more than 1024 bytes of a datagram, finds the message
  incomplete and drops it.
\<close>

theorem nm_dgram_long_lost:
  assumes "nm_msg_ok m" and ma: "\<forall>k. ma k" and net: "dgram_net snd_to sent"
    and len: "1024 < length (nm_msg_bytes VTM_BYTEORDER_BE (snd m))" "length (nm_msg_bytes VTM_BYTEORDER_BE (snd m)) \<le> 2 ^ 60"
  shows "\<exists>s' bs. vtm_nm_dgram_client_send h1 ma snd_to (fst m) a s = Some (Some VTM_OK, s') \<and> sent s' = sent s @ [(bs, a)]
    \<and> vtm_nm_dgram_srv_dgram_recv h2 True ma par (Some cb) (dgram_recv bs peer) t = Some t"
proof -
  define bs where "bs = nm_msg_bytes VTM_BYTEORDER_BE (snd m)"
  define b where "b = dg_buf (dgram_recv bs peer)"
  obtain s' where s': "vtm_nm_dgram_client_send h1 ma snd_to (fst m) a s = Some (Some VTM_OK, s')" "sent s' = sent s @ [(bs, a)]"
    using client_sends [OF assms(1) ma net len(2), of h1 a s] unfolding bs_def by blast
  note r = recv_buf [OF refl, of bs peer, folded b_def]
  have ok: "list_all nm_entry_ok (snd m)" "length (snd m) \<le> 65535" using assms(1) by (simp_all add: nm_msg_ok_def)
  have "buf_room b (length (drop 1024 bs) + 0)" using buf_room_mono [OF r(7)] len(2) by (simp add: bs_def)
  then obtain c where c: "buf_ext b (drop 1024 bs) c" using room_putm [OF _ ma] by blast
  have "nm_input c VTM_BYTEORDER_BE (nm_msg_bytes VTM_BYTEORDER_BE (snd m) @ [])"
    using c buf_ext_unread [OF r(3) c] r(4,5) by (simp add: nm_input_def buf_ext_def bs_def)
  from read_msg [OF this ok(1) ma ok(2), of "nm_fresh h2 par"]
  have aw: "nm_await ma (nm_fresh h2 par) b (drop 1024 bs) (foldl (\<lambda>m e. Some (nm_store m e)) (Some vtm_dataset_new) (snd m)) []"
    using c by (auto simp: nm_await_def vtm_nm_parser_init_def nm_input_def)
  have inv: "nm_inv (nm_fresh h2 par) b" using r(3,4) by (simp add: nm_inv_def vtm_nm_parser_init_def)
  have "drop 1024 bs \<noteq> []" using len(1) by (simp add: bs_def)
  then obtain par' b' where "vtm_nm_parser_run ma (nm_fresh h2 par) b = Some (VTM_NET_RECV_STAT_AGAIN, par', b')"
    using nm_await_run [OF aw inv r(6)] by (metis Nil_is_append_conv)
  then have "vtm_nm_dgram_srv_dgram_recv h2 True ma par (Some cb) (dgram_recv bs peer) t = Some t"
    by (simp add: vtm_nm_dgram_srv_dgram_recv_def vtm_nm_msg_from_buf_def b_def [symmetric])
  with s' show ?thesis by blast
qed

text \<open>A network that notes the datagrams, and messages with one field: a number, and a long string.\<close>

definition net_log :: "(byte list \<times> nat) list dgram_send" where
  "net_log bs a s = ((VTM_OK, length bs), s @ [(bs, a)])"

definition nm_long :: "vtm_dataset \<times> (cstr \<times> vtm_variant) list" where
  "nm_long = (fst (VTM_DATASET_SETX vtm_dataset_new (bytes_of ''a'') (vtm_variant_from_str (replicate 2000 65)) False),
     [(bytes_of ''a'', vtm_variant_from_str (replicate 2000 65))])"

lemma net_log_net: "dgram_net net_log (\<lambda>s. s)"
  by (simp add: dgram_net_def net_log_def)

lemma nm_long_entries: "vtm_dataset_entryset (Some (fst nm_long)) = Some (snd nm_long)"
  by (simp add: nm_long_def ds_setx_eq VTM_SMAP_PUT_def VTM_SMAP_INDEX_def vtm_dataset_new_def
      vtm_dataset_newh_def vtm_dataset_init_def VTM_SMAP_INIT_def VTM_DS_HINT_DEFAULT_def vtm_dataset_entryset_def
      VTM_SMAP_FOR_EACH_def concat_single Let_def)

lemma nm_long_ok: "nm_msg_ok nm_long"
proof -
  have new: "vtm_dataset_inv False vtm_dataset_new"
    using ds_init_inv(1) [of VTM_DS_HINT_DEFAULT]
    by (simp add: vtm_dataset_new_def vtm_dataset_newh_def VTM_DS_HINT_DEFAULT_def)
  have a: "no_nul (bytes_of ''a'')" by (simp add: bytes_of_def)
  have "vtm_dataset_inv False (fst nm_long)"
    using ds_put_law [OF new a, of "(vtm_variant_from_str (replicate 2000 65), False)"] by (simp add: nm_long_def ds_store_put_def)
  then show ?thesis
    using nm_long_entries by (simp add: nm_msg_ok_def) (simp add: nm_long_def nm_entry_ok_def vtm_variant_from_str_def bytes_of_def no_nul_def)
qed

lemma nm_long_length: "1024 < length (nm_msg_bytes VTM_BYTEORDER_BE (snd nm_long))" "length (nm_msg_bytes VTM_BYTEORDER_BE (snd nm_long)) \<le> 2 ^ 60"
  by (simp_all add: nm_long_def nm_msg_bytes_def nm_field_bytes_def vtm_variant_from_str_def bytes_of_def)

theorem nm_dgram_delivers_witness:
  "\<exists>s' bs ds'. vtm_nm_dgram_client_send VTM_BYTEORDER_LE alloc_all net_log (fst nm_example) 5 [] = Some (Some VTM_OK, s') \<and> s' = [] @ [(bs, 5)]
    \<and> vtm_nm_dgram_srv_dgram_recv VTM_BYTEORDER_BE True alloc_all undefined (Some (\<lambda>m a s. s @ [m])) (dgram_recv bs 9) [] = Some ([] @ [ds']) \<and> nm_same nm_example ds'"
  by (rule nm_dgram_delivers [OF nm_example_ok _ net_log_net])
    (simp_all add: alloc_all_def nm_example_def nm_msg_bytes_def nm_field_bytes_def vtm_variant_from_int32_def bytes_of_def)

theorem nm_dgram_long_lost_witness:
  "\<exists>s' bs. vtm_nm_dgram_client_send VTM_BYTEORDER_LE alloc_all net_log (fst nm_long) 5 [] = Some (Some VTM_OK, s') \<and> s' = [] @ [(bs, 5)]
    \<and> vtm_nm_dgram_srv_dgram_recv VTM_BYTEORDER_BE True alloc_all undefined (Some (\<lambda>m a s. s @ [m])) (dgram_recv bs 9) [] = Some []"
  by (rule nm_dgram_long_lost [OF nm_long_ok _ net_log_net nm_long_length]) (simp add: alloc_all_def)

end
