(* ===== verification/Spec2Isabelle.thy ===== *)
theory Spec2Isabelle
  imports Base64 NmRoundtrip Vmap Squeue WsMessage HttpClient StreamServerRuns HttpServer NmDgram
begin

text \<open>
  \<^bold>\<open>Ventanium\<close>, a C library for network applications (\<open>src/src/vtm\<close>): containers and tagged values
  (\<open>core\<close>), helpers (\<open>util\<close>), sockets, HTTP, WebSockets and a message protocol (\<open>net\<close>), access to the
  operating system (\<open>sys\<close>), databases (\<open>sql\<close>), cryptography (\<open>crypto\<close>) and files (\<open>fs\<close>). The platform is
  LP64 with two's complement and IEEE 754 arithmetic; the byte order of the host is an argument.

  \<^bold>\<open>How the parts interact.\<close> A server waits for events on its sockets and lets workers read from them into
  growing buffers (\<open>buffer.c\<close>); a parser of a protocol takes bytes from the buffer as they arrive and keeps
  its state in between; what it has read is put into lists, maps and datasets of tagged values. Replies and
  requests of clients go the other way: from datasets to a buffer or a socket writer and to the socket.

  \<^bold>\<open>Theories.\<close>
  \<^item> \<open>Prelude\<close>, \<open>Errors\<close>, \<open>Mathx\<close>, \<open>Interfaces\<close>: machine types, memory representation of integers, return codes
    (\<open>error.c\<close>), checked arithmetic (\<open>math.c\<close>); the contracts between components as locales.
  \<^item> \<open>Buffer\<close>, \<open>Reader\<close>: the buffer (\<open>vtm_buf_*\<close>), and how parsers check for bytes and take them.
  \<^item> \<open>Format\<close>, \<open>Cstring\<close>, \<open>Ieee\<close>, \<open>Elem\<close>, \<open>Hash\<close>: number formatting, strings, floating point formats, tagged values
    with their conversions and comparisons, hashes.
  \<^item> \<open>Table\<close>, \<open>Smap\<close>, \<open>Vmap\<close>, \<open>Vlist\<close>, \<open>Dataset\<close>, \<open>DatasetText\<close>, \<open>Squeue\<close>: chained hash tables, the generic map of
    macros, \<open>map.c\<close>, \<open>list.c\<close>, \<open>dataset.c\<close>, and the intrusive queue of \<open>squeue.h\<close> over an explicit store of pointers.
  \<^item> \<open>Base64\<close>, \<open>Serialization\<close>, \<open>Url\<close>: the encodings of \<open>util/base64.c\<close>, \<open>util/serialization.c\<close> and \<open>net/url.c\<close>.
  \<^item> \<open>Nm\<close>, \<open>NmRoundtrip\<close>: \<open>net/nm\<close>: writing a message (\<open>vtm_nm_msg_to_buf\<close>) and the state machine of its parser.
  \<^item> \<open>WsFrame\<close>, \<open>WsParser\<close>, \<open>WsMessage\<close>: frames, the parser, and sending and receiving on both sides.
  \<^item> \<open>Http\<close>, \<open>HttpParser\<close>, \<open>HttpSafe\<close>, \<open>HttpLines\<close>, \<open>HttpMessage\<close>: the vocabulary of \<open>http.c\<close>, the parser of
    \<open>http_parser.c\<close> byte by byte with all accesses to the buffer, that it stays inside, and what it makes of a
    whole request.
  \<^item> \<open>Socket\<close>, \<open>SocketWriter\<close>, \<open>HttpClient\<close>: \<open>socket.c\<close> with its dispatch, \<open>socket_plain.c\<close>, the buffered writer and
    the client, down to a server that reads the request.
  \<^item> \<open>HttpRouter\<close>, \<open>SocketEmitter\<close>, \<open>HttpResponse\<close>: routes and the path of a served file, chains of emitters, and responses of
    fixed length or in chunks (\<open>http_router.c\<close>, \<open>http_file_route.c\<close>, \<open>socket_emitter.c\<close>, \<open>http_response.c\<close>).
  \<^item> \<open>SocketConnection\<close>, \<open>NmStream\<close>, \<open>HttpServer\<close>: the buffers of a connection, and the servers of messages and of HTTP with
    their connections: what happens on events of a socket, from the bytes that arrive to the handler and back.
  \<^item> \<open>DgramServer\<close>, \<open>NmDgram\<close>: the datagram server with its bounded queue and its workers (\<open>socket_dgram_server.c\<close>) as a step
    relation, and messages in datagrams (\<open>nm_dgram_client.c\<close>, \<open>nm_dgram_server.c\<close>).
  \<^item> \<open>StreamServer\<close>, \<open>StreamServerInv\<close>, \<open>StreamServerRuns\<close>: \<open>socket_stream_server.c\<close> with worker threads as a step
    relation: positions of the threads, queue, mutex, condition variable, latches, reference counts.

  \<^bold>\<open>State and errors.\<close> A struct is a record and an operation maps the record to its new value; a freed block
  is returned, so that theorems can count it. A return code is a value of \<open>vtm_rc\<close>. \<open>None\<close> is undefined behaviour, a
  failed assertion or a loop that does not end; each theory says which. Memory is a list of bytes with its size, so
  that an access outside is visible.

  \<^bold>\<open>Arguments of the model.\<close> The allocator is a predicate on sizes (or a flag per call); \<open>vsnprintf\<close> its output; the
  calls \<open>send\<close>, \<open>recv\<close>, \<open>accept\<close>, \<open>close\<close> and the listener are functions or inputs of a step; the callbacks of the user are
  arbitrary changes of a socket that leave the server's own flags alone.

  \<^bold>\<open>What is shown.\<close> Buffers, maps, datasets and queues refine byte strings, finite maps and lists under any sequence
  of operations, and conserve their nodes. Messages, frames, requests and encodings arrive as they were sent, also when
  the bytes arrive in pieces and on hosts of different byte order; the parsers return and stay inside their buffers.
  Messages sent through a connection are handed to the handler of the peer, all of them, once and in order; a request without a
  body that arrives at the HTTP server in one piece is answered: what is sent and what is pending are exactly the response of the handler.
  A connection and a chain of emitters for memory and buffers keep their bytes in order whatever the socket takes.
  In the stream server the workers exclude each other, never touch a freed socket and release a connection once; the
  datagram server hands out its datagrams once and in order, and while it runs its threads do not wait for each other. The
  theorems of kind error show inputs and schedules on which the code leaves its contract.

  \<^bold>\<open>Bounds.\<close> Growing a buffer doubles its size at most 64 times, so a fuel of 65 is enough (\<open>buf_grow_loop_fuel\<close>);
  round trips assume that the buffer has room up to \<open>2 ^ 60\<close> bytes, message fields shorter than \<open>UINT32_MAX\<close>, frames shorter
  than \<open>2 ^ 31\<close>; header fields are limited by the parser to 8192 bytes and bodies to 8 MB; the array of a socket writer has
  1024 bytes and longer pieces leave it; a WebSocket message fits into the message buffer or into twice its size; a status has at most
  ten characters; a reference count has 8 bits and its overflow is a failed assertion. Loops are recursive functions with a
  measure, or \<open>partial_function\<close> where the code may not return, and then the result is proved to exist.

  \<^bold>\<open>Not modelled.\<close> The stream server without worker threads, the creation of its socket and runs in which the mutex of an
  accepted socket cannot be allocated, the start of the servers of HTTP and
  messages (calls of the socket servers), TLS, listeners, threads and files (calls of the system),
  SQL and cryptography (calls of client libraries), and the printing of errors and logs.
\<close>

end
